(* ===== verification/Zig_Prelude.thy ===== *)
theory Zig_Prelude
  imports Main "HOL-Library.Word"
begin

unbundle bit_operations_syntax

text \<open>
  The shared vocabulary of the development.

  \<^item> The machine types of the C++ code: \<open>byte\<close> is \<open>uint8_t\<close>, \<open>word_t\<close> is the \<open>uint32_t\<close> word
    of the big-integer code and \<open>u64\<close> is \<open>uint64_t\<close>.
  \<^item> \<open>exn\<close>: the exceptions the modelled code throws. Four constructors stand for what C++ leaves
    undefined and the code does not check: \<open>OutOfBounds\<close> (an access outside an array), \<open>DivTrap\<close>
    (a machine division by zero), \<open>BadShift\<close> (a shift by a negative amount) and \<open>SignedOverflow\<close> (a result
    that its signed type does not hold). A theorem that an operation returns \<open>Inr\<close> is therefore also a
    memory-safety theorem.
  \<^item> \<open>'a result\<close>: a value or an exception; \<open>'a run\<close> adds \<open>None\<close> for a loop that never returns.
  \<^item> \<open>for_loop\<close> and \<open>for_down\<close>: the counted loops of the source, with one invariant rule each.
\<close>

section \<open>Machine types\<close>

type_synonym byte = "8 word"
type_synonym word_t = "32 word"
type_synonym u64 = "64 word"

section \<open>Automation\<close>

named_theorems val_simps \<open>equations that evaluate the abstraction functions\<close>
named_theorems run_simps \<open>equations of the error and divergence monads\<close>

section \<open>Errors and divergence\<close>

datatype exn =
    ArithmeticException string
  | EncodingException string
  | CryptographyException string
  | NullException
  | ZiguratException nat string
  | OutOfBounds
  | DivTrap
  | BadShift
  | SignedOverflow

type_synonym 'a result = "exn + 'a"
type_synonym 'a run = "(exn + 'a) option"

definition bind_res :: "'a result \<Rightarrow> ('a \<Rightarrow> 'b result) \<Rightarrow> 'b result" where
  "bind_res x f = (case x of Inl e \<Rightarrow> Inl e | Inr v \<Rightarrow> f v)"

definition bind_run :: "'a run \<Rightarrow> ('a \<Rightarrow> 'b run) \<Rightarrow> 'b run" where
  "bind_run x f = Option.bind x (\<lambda>r. case r of Inl e \<Rightarrow> Some (Inl e) | Inr v \<Rightarrow> f v)"

definition ret :: "'a \<Rightarrow> 'a run" where
  "ret x = Some (Inr x)"

definition throw :: "exn \<Rightarrow> 'a run" where
  "throw e = Some (Inl e)"

definition lift :: "'a result \<Rightarrow> 'a run" where
  "lift x = Some x"

lemma bind_res_simps [simp, run_simps]:
  "bind_res (Inl e) f = Inl e"
  "bind_res (Inr v) f = f v"
  by (simp_all add: bind_res_def)

lemma bind_run_simps [simp, run_simps]:
  "bind_run (ret v) f = f v"
  "bind_run (throw e) f = throw e"
  "bind_run None f = None"
  "bind_run (Some (Inr v)) f = f v"
  "bind_run (Some (Inl e)) f = Some (Inl e)"
  by (simp_all add: bind_run_def ret_def throw_def)

lemma lift_simps [simp, run_simps]:
  "lift (Inr v) = ret v"
  "lift (Inl e) = throw e"
  by (simp_all add: lift_def ret_def throw_def)

lemma ret_throw [simp]:
  "ret a = ret b \<longleftrightarrow> a = b"
  "throw e = throw e' \<longleftrightarrow> e = e'"
  "ret a \<noteq> throw e"
  "throw e \<noteq> ret a"
  "ret a \<noteq> None"
  "throw e \<noteq> None"
  by (auto simp: ret_def throw_def)

lemma bind_res_cong [fundef_cong]:
  assumes "x = y" and "\<And>v. y = Inr v \<Longrightarrow> f v = g v"
  shows "bind_res x f = bind_res y g"
  using assms by (simp add: bind_res_def split: sum.splits)

lemma bind_res_Inr_iff: "bind_res x f = Inr v \<longleftrightarrow> (\<exists>u. x = Inr u \<and> f u = Inr v)"
  by (cases x) auto

lemma bind_run_mono [partial_function_mono]:
  assumes "monotone (fun_ord option_ord) option_ord B"
    and "\<And>y. monotone (fun_ord option_ord) option_ord (\<lambda>f. C y f)"
  shows "monotone (fun_ord option_ord) option_ord (\<lambda>f. bind_run (B f) (\<lambda>y. C y f))"
  unfolding bind_run_def
proof (rule bind_mono [OF assms(1)])
  fix r
  show "monotone (fun_ord option_ord) option_ord
          (\<lambda>f. case r of Inl e \<Rightarrow> Some (Inl e) | Inr v \<Rightarrow> C v f)"
    using assms(2) by (cases r) (auto simp: monotone_def flat_ord_def)
qed

section \<open>Counted loops\<close>

text \<open>\<open>for (i = 0; i < n; i++) s = f(i, s);\<close> and its downward twin
  \<open>for (i = n - 1; i >= 0; i--) s = f(i, s);\<close>.\<close>

primrec for_loop :: "nat \<Rightarrow> (nat \<Rightarrow> 's \<Rightarrow> 's) \<Rightarrow> 's \<Rightarrow> 's" where
  "for_loop 0 f s = s"
| "for_loop (Suc n) f s = f n (for_loop n f s)"

primrec for_down :: "nat \<Rightarrow> (nat \<Rightarrow> 's \<Rightarrow> 's) \<Rightarrow> 's \<Rightarrow> 's" where
  "for_down 0 f s = s"
| "for_down (Suc n) f s = for_down n f (f n s)"

lemma for_loop_inv:
  assumes "P 0 s" and "\<And>i t. i < n \<Longrightarrow> P i t \<Longrightarrow> P (Suc i) (f i t)"
  shows "P n (for_loop n f s)"
  using assms(2)
proof (induction n)
  case 0
  then show ?case using assms(1) by simp
next
  case (Suc n)
  then have "P n (for_loop n f s)" by simp
  then show ?case using Suc.prems [of n] by simp
qed

lemma for_down_inv:
  assumes "P n s" and "\<And>i t. i < n \<Longrightarrow> P (Suc i) t \<Longrightarrow> P i (f i t)"
  shows "P 0 (for_down n f s)"
  using assms
proof (induction n arbitrary: s)
  case 0
  then show ?case by simp
next
  case (Suc n)
  have "P n (f n s)" using Suc.prems by simp
  then show ?case using Suc.IH Suc.prems(2) by simp
qed

lemma for_loop_cong:
  assumes "\<And>i t. i < n \<Longrightarrow> f i t = g i t"
  shows "for_loop n f s = for_loop n g s"
  using assms by (induction n) auto

section \<open>Arrays\<close>

definition slice :: "'a list \<Rightarrow> nat \<Rightarrow> nat \<Rightarrow> 'a list result" where
  "slice xs off n = (if off + n \<le> length xs then Inr (take n (drop off xs)) else Inl OutOfBounds)"

definition index :: "'a list \<Rightarrow> nat \<Rightarrow> 'a result" where
  "index xs i = (if i < length xs then Inr (xs ! i) else Inl OutOfBounds)"

lemma slice_ok [simp]: "off + n \<le> length xs \<Longrightarrow> slice xs off n = Inr (take n (drop off xs))"
  by (simp add: slice_def)

lemma slice_bad [simp]: "length xs < off + n \<Longrightarrow> slice xs off n = Inl OutOfBounds"
  by (simp add: slice_def)

lemma slice_length: "slice xs off n = Inr ys \<Longrightarrow> length ys = n"
  by (auto simp: slice_def split: if_splits)

lemma index_ok [simp]: "i < length xs \<Longrightarrow> index xs i = Inr (xs ! i)"
  by (simp add: index_def)

section \<open>Big-endian octets\<close>

text \<open>The number a sequence of octets denotes, most significant octet first.\<close>

definition be_val :: "byte list \<Rightarrow> nat" where
  "be_val bs = foldl (\<lambda>v b. v * 256 + unat b) 0 bs"

lemma foldl_be: "foldl (\<lambda>v b. v * 256 + unat (b :: byte)) v bs = v * 256 ^ length bs + be_val bs"
proof (induction bs arbitrary: v)
  case Nil
  then show ?case by (simp add: be_val_def)
next
  case (Cons b bs)
  show ?case
    using Cons [of "v * 256 + unat b"] Cons [of "unat b"] by (simp add: be_val_def algebra_simps)
qed

lemma be_val_simps [simp]: "be_val [] = 0"
  "be_val (b # bs) = unat b * 256 ^ length bs + be_val bs"
  using foldl_be [of "unat b" bs] by (simp_all add: be_val_def)

lemma be_val_append [simp]: "be_val (xs @ ys) = be_val xs * 256 ^ length ys + be_val ys"
  using foldl_be [of "be_val xs" ys] by (simp add: be_val_def)

lemma be_val_snoc: "be_val (xs @ [b]) = be_val xs * 256 + unat b"
  by simp

lemma unat_byte_less: "unat (b :: byte) < 256"
  using unsigned_less [of b, where ?'a = nat] by simp

lemma be_val_less: "be_val bs < 256 ^ length bs"
proof (induction bs)
  case (Cons b bs)
  have "unat b * 256 ^ length bs + be_val bs < (unat b + 1) * 256 ^ length bs" using Cons by simp
  also have "\<dots> \<le> 256 * 256 ^ length bs" using unat_byte_less [of b] by (intro mult_le_mono1) simp
  finally show ?case by simp
qed simp

lemma be_val_zeros [simp]: "be_val (replicate n 0) = 0"
  by (induction n) simp_all

lemma be_val_inj:
  "length xs = length ys \<Longrightarrow> be_val xs = be_val ys \<Longrightarrow> xs = ys"
proof (induction xs ys rule: list_induct2)
  case (Cons x xs y ys)
  have "unat x = be_val (x # xs) div 256 ^ length xs" "be_val xs = be_val (x # xs) mod 256 ^ length xs"
    "unat y = be_val (y # ys) div 256 ^ length ys" "be_val ys = be_val (y # ys) mod 256 ^ length ys"
    using be_val_less [of xs] be_val_less [of ys] by simp_all
  then have "unat x = unat y" "be_val xs = be_val ys" using Cons.prems Cons.hyps by (simp_all only:)
  then show ?case using Cons.IH by (simp add: word_unat_eq_iff)
qed simp

lemma unat_octet_of_word: "unat (ucast (drop_bit k w AND 0xff :: word_t) :: byte) = unat w div 2 ^ k mod 256"
proof -
  have "(0xff :: word_t) = mask 8" by (simp add: mask_eq_exp_minus_1)
  then have "drop_bit k w AND 0xff = take_bit 8 (drop_bit k w)" by (simp only: take_bit_eq_mask)
  then have "unat (ucast (drop_bit k w AND 0xff) :: byte) = take_bit 8 (take_bit 8 (drop_bit k (unat w)))"
    using unsigned_less [of w, where ?'a = nat]
    by (simp add: unsigned_ucast_eq unsigned_take_bit_eq unsigned_drop_bit_eq take_bit_nat_eq_self)
  then show ?thesis by (simp add: take_bit_eq_mod drop_bit_eq_div)
qed

lemma shift_or: "push_bit 8 w OR ucast (o8 :: byte) = w * 256 + (ucast o8 :: 'a::len word)"
proof -
  have "push_bit 8 w AND ucast o8 = (0 :: 'a word)"
    by (rule bit_word_eqI) (auto simp: bit_simps dest: bit_imp_le_length)
  then have "push_bit 8 w OR ucast o8 = push_bit 8 w + (ucast o8 :: 'a word)"
    by (simp add: disjunctive_add_eq_or)
  then show ?thesis by (simp add: push_bit_eq_mult)
qed

lemma be_val_replicate0 [simp]: "be_val (xs @ replicate n 0) = be_val xs * 256 ^ n"
  by simp

section \<open>Big-endian octets of a word\<close>

text \<open>\<open>(uint8_t)(value >> k)\<close>\<close>

definition byte_at :: "nat \<Rightarrow> 'a::len word \<Rightarrow> byte" where
  "byte_at k v = ucast (drop_bit k v)"

primrec be_octets :: "nat \<Rightarrow> 'a::len word \<Rightarrow> byte list" where
  "be_octets 0 v = []"
| "be_octets (Suc n) v = byte_at (8 * n) v # be_octets n v"

lemma be_octets_numeral [simp]:
  "be_octets (numeral k) v = byte_at (8 * pred_numeral k) v # be_octets (pred_numeral k) v"
  by (simp add: numeral_eq_Suc)

lemma length_be_octets [simp]: "length (be_octets n v) = n"
  by (induction n) simp_all

lemma unat_byte_at: "unat (byte_at k (v :: 'a::len word)) = unat v div 2 ^ k mod 256"
proof -
  have "unat (byte_at k v) = take_bit 8 (unat (drop_bit k v))"
    unfolding byte_at_def by (simp add: unsigned_ucast_eq)
  also have "unat (drop_bit k v) = unat v div 2 ^ k"
    by (simp only: unat_drop_bit_eq) (simp only: drop_bit_eq_div)
  finally show ?thesis by (simp only: take_bit_eq_mod) simp
qed

text \<open>The top bit of an octet, and widening and narrowing of small words.\<close>

lemma and_80_iff: "b AND 0x80 = 0 \<longleftrightarrow> b < (0x80 :: byte)"
proof -
  have "b AND 2 ^ 7 = 0 \<longleftrightarrow> \<not> bit b 7" by (rule and_exp_eq_0_iff_not_bit)
  also have "bit b 7 \<longleftrightarrow> bit (unat b) 7" by (simp add: bit_unsigned_iff)
  also have "\<dots> \<longleftrightarrow> odd (unat b div 2 ^ 7)" by (simp only: bit_iff_odd)
  also have "\<dots> \<longleftrightarrow> \<not> unat b < 128" using unat_byte_less [of b] div_nat_eqI [of 128 1 "unat b"]
    by (cases "unat b < 128") simp_all
  finally show ?thesis by (simp add: word_less_nat_alt)
qed

lemma unat_ucast_fits:
  "unat (v :: 'a::len word) < 2 ^ LENGTH('b) \<Longrightarrow> unat (ucast v :: 'b::len word) = unat v"
  by (simp only: unsigned_ucast_eq take_bit_nat_eq_self)

lemma ucast_ucast_fits:
  assumes "unat (v :: 'a::len word) < 2 ^ LENGTH('b)"
  shows "ucast (ucast v :: 'b::len word) = v"
proof -
  have "unat (ucast (ucast v :: 'b word) :: 'a word) = take_bit LENGTH('a) (unat v)"
    by (simp only: unsigned_ucast_eq [of "ucast v"] unat_ucast_fits [OF assms])
  then show ?thesis using unsigned_less [of v, where ?'a = nat]
    by (simp only: word_unat_eq_iff take_bit_nat_eq_self)
qed

lemma be_val_be_octets: "be_val (be_octets n v) = unat v mod 256 ^ n"
proof (induction n)
  case (Suc n)
  have "unat v mod 256 ^ Suc n = 256 ^ n * (unat v div 256 ^ n mod 256) + unat v mod 256 ^ n"
    by (simp add: mod_mult2_eq mult.commute [of 256])
  then show ?case using Suc by (simp add: unat_byte_at power_mult)
qed simp

lemma be_val_be_octets_small: "unat v < 256 ^ n \<Longrightarrow> be_val (be_octets n v) = unat v"
  by (simp add: be_val_be_octets)

lemma unat_drop_bit_div: "unat (drop_bit k w) = unat w div 2 ^ k"
  by (subst unat_drop_bit_eq) (rule drop_bit_eq_div)

end
