(* ===== verification/Streams.thy ===== *)
theory Streams
  imports Zig_Prelude
begin

text \<open>
  \<open>StreamIO/binarystream.cpp\<close> over an in-memory buffer (\<open>bufferstream\<close>, a \<open>std::stringbuf\<close>).

  A \<open>stream\<close> is the octets, the get and the put position, the \<open>eofbit\<close> and the \<open>failbit\<close> and the
  count of the last unformatted input. The first section is the part of \<open>std::basic_iostream\<close> the
  code uses: every operation but the seeks does nothing on a stream that is not \<open>good()\<close> (an input
  operation then sets \<open>failbit\<close>), reading past the end sets \<open>eofbit\<close>, and a \<open>tellg\<close> at end of file
  answers -1. \<open>binarystream\<close>'s own seeks clear the state first. The second section is \<open>binarystream\<close>.
\<close>

record stream =
  data :: "byte list"
  gpos :: nat
  ppos :: nat
  eofbit :: bool
  failbit :: bool
  gcount :: nat

definition new_stream :: "byte list \<Rightarrow> stream" where
  "new_stream bs = \<lparr>data = bs, gpos = 0, ppos = 0, eofbit = False, failbit = False, gcount = 0\<rparr>"

section \<open>The standard stream\<close>

definition good :: "stream \<Rightarrow> bool" where
  "good s \<longleftrightarrow> \<not> eofbit s \<and> \<not> failbit s"

definition sclear :: "stream \<Rightarrow> stream" where
  "sclear s = s\<lparr>eofbit := False, failbit := False\<rparr>"

definition sput :: "byte \<Rightarrow> stream \<Rightarrow> stream" where
  "sput b s = (if good s then
     s\<lparr>data := (if ppos s < length (data s) then (data s)[ppos s := b] else data s @ [b]),
       ppos := ppos s + 1\<rparr>
     else s)"

definition swrite :: "byte list \<Rightarrow> stream \<Rightarrow> stream" where
  "swrite bs s = fold sput bs s"

text \<open>\<open>get()\<close> returns an \<open>int\<close>: the octet, or \<open>traits_type::eof()\<close>, which is -1.\<close>

definition sget :: "stream \<Rightarrow> int \<times> stream" where
  "sget s =
     (if \<not> good s then (-1, s\<lparr>failbit := True, gcount := 0\<rparr>)
      else if gpos s < length (data s) then (uint (data s ! gpos s), s\<lparr>gpos := gpos s + 1, gcount := 1\<rparr>)
      else (-1, s\<lparr>eofbit := True, failbit := True, gcount := 0\<rparr>))"

definition speek :: "stream \<Rightarrow> int \<times> stream" where
  "speek s =
     (if \<not> good s then (-1, s\<lparr>failbit := True, gcount := 0\<rparr>)
      else if gpos s < length (data s) then (uint (data s ! gpos s), s\<lparr>gcount := 0\<rparr>)
      else (-1, s\<lparr>eofbit := True, gcount := 0\<rparr>))"

definition sread :: "nat \<Rightarrow> stream \<Rightarrow> byte list \<times> stream" where
  "sread n s =
     (if \<not> good s then ([], s\<lparr>failbit := True, gcount := 0\<rparr>)
      else (let bs = take n (drop (gpos s) (data s)); k = length bs in
            if k < n then (bs, s\<lparr>gpos := gpos s + k, gcount := k, eofbit := True, failbit := True\<rparr>)
            else (bs, s\<lparr>gpos := gpos s + k, gcount := k\<rparr>)))"

definition stellg :: "stream \<Rightarrow> int \<times> stream" where
  "stellg s = (if good s then (int (gpos s), s) else (-1, s\<lparr>failbit := True\<rparr>))"

definition stellp :: "stream \<Rightarrow> int" where
  "stellp s = (if failbit s then -1 else int (ppos s))"

definition signore1 :: "stream \<Rightarrow> stream" where
  "signore1 s =
     (if \<not> good s then s\<lparr>failbit := True, gcount := 0\<rparr>
      else if gpos s < length (data s) then s\<lparr>gpos := gpos s + 1, gcount := 1\<rparr>
      else s\<lparr>eofbit := True, gcount := 0\<rparr>)"

text \<open>\<open>get(s, n, delim)\<close>: at most \<open>n - 1\<close> octets, stopping before the delimiter. It looks at the octet
  after the last one it takes, so a line that ends with the data sets \<open>eofbit\<close>.\<close>

definition sget_line :: "nat \<Rightarrow> byte \<Rightarrow> stream \<Rightarrow> byte list \<times> stream" where
  "sget_line n delim s =
     (if \<not> good s then ([], s\<lparr>failbit := True, gcount := 0\<rparr>)
      else (let bs = take (n - 1) (takeWhile (\<lambda>b. b \<noteq> delim) (drop (gpos s) (data s)));
                p = gpos s + length bs in
            (bs, s\<lparr>gpos := p, gcount := length bs,
                   eofbit := (p \<ge> length (data s)), failbit := (bs = [])\<rparr>)))"

section \<open>binarystream\<close>

text \<open>The seeks clear the state, then move; a position outside the data fails.\<close>

definition bs_seekg :: "int \<Rightarrow> stream \<Rightarrow> stream" where
  "bs_seekg pos s = (let s = sclear s in
     if 0 \<le> pos \<and> pos \<le> int (length (data s)) then s\<lparr>gpos := nat pos\<rparr> else s\<lparr>failbit := True\<rparr>)"

definition bs_seekg_end :: "stream \<Rightarrow> stream" where
  "bs_seekg_end s = (sclear s)\<lparr>gpos := length (data s)\<rparr>"

definition bs_seekp :: "int \<Rightarrow> stream \<Rightarrow> stream" where
  "bs_seekp pos s = (let s = sclear s in
     if 0 \<le> pos \<and> pos \<le> int (length (data s)) then s\<lparr>ppos := nat pos\<rparr> else s\<lparr>failbit := True\<rparr>)"

definition bs_length :: "stream \<Rightarrow> int \<times> stream" where
  "bs_length s =
     (let (current, s) = stellg s; s = bs_seekg_end s; (len, s) = stellg s in (len, bs_seekg current s))"

definition bs_at :: "int \<Rightarrow> stream \<Rightarrow> int \<times> stream" where
  "bs_at pos s =
     (let (current, s) = stellg s; s = bs_seekg pos s; (ch, s) = sget s in (ch, bs_seekg current s))"

text \<open>The overloads that copy to an output stream return both streams, input first.\<close>

definition bs_read_to :: "nat \<Rightarrow> stream \<Rightarrow> stream \<Rightarrow> stream \<times> stream" where
  "bs_read_to n s out =
     (if n = 0 then (s, out)
      else (let (bs, s) = sread n s in (s, if gcount s > 0 then swrite bs out else out)))"

definition bs_read_at :: "int \<Rightarrow> nat \<Rightarrow> stream \<Rightarrow> byte list \<times> stream" where
  "bs_read_at pos n s =
     (let (current, s) = stellg s; s = bs_seekg pos s; (bs, s) = sread n s;
          s = sclear s in (bs, bs_seekg current s))"

definition bs_read_to_at :: "int \<Rightarrow> nat \<Rightarrow> stream \<Rightarrow> stream \<Rightarrow> stream \<times> stream" where
  "bs_read_to_at pos n s out =
     (let (current, s) = stellg s; s = bs_seekg pos s; (s, out) = bs_read_to n s out;
          s = sclear s in (bs_seekg current s, out))"

definition bs_getline :: "nat \<Rightarrow> byte \<Rightarrow> stream \<Rightarrow> stream \<Rightarrow> stream \<times> stream" where
  "bs_getline n delim s out =
     (if n = 0 then (s, out)
      else
        (let (bs, s) = sget_line n delim s;
             count = gcount s;
             s = (if count = 0 \<and> \<not> eofbit s then sclear s else s);
             s = (if good s then
                    (let (c, s) = speek s in if c = uint delim then signore1 s else s)
                  else s)
         in (s, if count > 0 then swrite bs out else out)))"

text \<open>\<open>read_exact\<close> reads in chunks of at most 1024 octets until it has \<open>n\<close> or the input ends.\<close>

partial_function (option) bs_read_exact_loop ::
  "nat \<Rightarrow> nat \<Rightarrow> nat \<Rightarrow> byte list \<Rightarrow> stream \<Rightarrow> (byte list \<times> stream) option" where
  "bs_read_exact_loop chunk offset n acc s =
     (if \<not> eofbit s \<and> offset < n then
        (let chunk = min chunk (n - offset) in
         case sread chunk s of (bs, s') \<Rightarrow>
           bs_read_exact_loop chunk (offset + gcount s') n (acc @ bs) s')
      else Some (acc, s))"

definition bs_read_exact :: "nat \<Rightarrow> stream \<Rightarrow> (byte list \<times> stream) option" where
  "bs_read_exact n s = bs_read_exact_loop 1024 0 n [] s"

text \<open>\<open>write(istream, n)\<close> and the positional writes.\<close>

definition bs_write_from :: "nat \<Rightarrow> stream \<Rightarrow> stream \<Rightarrow> stream \<times> stream" where
  "bs_write_from n input s = (let (bs, input) = sread n input in (input, swrite bs s))"

definition bs_write_at :: "byte list \<Rightarrow> int \<Rightarrow> stream \<Rightarrow> stream" where
  "bs_write_at bs pos s = swrite bs (bs_seekp pos s)"

definition bs_write_from_at :: "nat \<Rightarrow> int \<Rightarrow> stream \<Rightarrow> stream \<Rightarrow> stream \<times> stream" where
  "bs_write_from_at n pos input s =
     (let s = bs_seekp pos s; (bs, input) = sread n input in (input, swrite bs s))"

definition bs_fill_n :: "nat \<Rightarrow> byte \<Rightarrow> stream \<Rightarrow> stream" where
  "bs_fill_n n val s = for_loop n (\<lambda>_. sput val) s"

section \<open>Reasoning about streams\<close>

text \<open>What is still to be read, a stream that appends, and the effect of reading \<open>k\<close> octets.\<close>

definition rest :: "stream \<Rightarrow> byte list" where
  "rest s = drop (gpos s) (data s)"

definition appending :: "stream \<Rightarrow> bool" where
  "appending s \<longleftrightarrow> good s \<and> ppos s = length (data s)"

definition readable :: "stream \<Rightarrow> bool" where
  "readable s \<longleftrightarrow> good s \<and> gpos s \<le> length (data s)"

definition append :: "byte list \<Rightarrow> stream \<Rightarrow> stream" where
  "append bs s = s\<lparr>data := data s @ bs, ppos := ppos s + length bs\<rparr>"

definition advance :: "nat \<Rightarrow> nat \<Rightarrow> stream \<Rightarrow> stream" where
  "advance k c s = s\<lparr>gpos := gpos s + k, gcount := c\<rparr>"

named_theorems stream_simps \<open>the effect of stream operations on well-behaved streams\<close>

lemma good_simps [simp, stream_simps]:
  "good (append bs s) = good s" "good (advance k c s) = good s" "good (s\<lparr>gcount := c\<rparr>) = good s"
  "good (s\<lparr>gpos := p\<rparr>) = good s" "good (sclear s)" "good (new_stream bs)"
  by (simp_all add: good_def append_def advance_def sclear_def new_stream_def)

lemma appending_append [simp]: "appending s \<Longrightarrow> appending (append bs s)"
  by (simp add: appending_def append_def good_def)

lemma append_append [simp]: "append ys (append xs s) = append (xs @ ys) s"
  by (simp add: append_def)

lemma append_Nil [simp]: "append [] s = s"
  by (simp add: append_def)

lemma sput_append [simp, stream_simps]: "appending s \<Longrightarrow> sput b s = append [b] s"
  by (simp add: sput_def appending_def append_def)

lemma swrite_append [simp, stream_simps]: "appending s \<Longrightarrow> swrite bs s = append bs s"
  by (induction bs arbitrary: s) (simp_all add: swrite_def)

lemma appending_new [simp]: "appending (new_stream [])"
  by (simp add: appending_def new_stream_def good_def)

lemma data_append [simp]: "data (append bs s) = data s @ bs" "gpos (append bs s) = gpos s"
  by (simp_all add: append_def)

lemma data_new [simp]: "data (new_stream bs) = bs" "gpos (new_stream bs) = 0" "rest (new_stream bs) = bs"
  by (simp_all add: new_stream_def rest_def)

lemma readable_new [simp]: "readable (new_stream bs)"
  by (simp add: readable_def)

lemma readable_append [simp]: "readable s \<Longrightarrow> readable (append bs s)"
  by (simp add: readable_def)

lemma rest_append [simp]: "readable s \<Longrightarrow> rest (append bs s) = rest s @ bs"
  by (simp add: rest_def readable_def)

lemma rest_advance [simp]: "rest (advance k c s) = drop k (rest s)"
  by (simp add: rest_def advance_def add.commute)

lemma data_advance [simp]: "data (advance k c s) = data s" "gpos (advance k c s) = gpos s + k"
  "gcount (advance k c s) = c" "eofbit (advance k c s) = eofbit s"
  by (simp_all add: advance_def)

lemma advance_advance [simp]: "advance j d (advance k c s) = advance (k + j) d s"
  by (simp add: advance_def add.assoc)

lemma readable_advance [simp]: "readable s \<Longrightarrow> k \<le> length (rest s) \<Longrightarrow> readable (advance k c s)"
  by (auto simp: readable_def rest_def)

lemma rest_Cons: "rest s = b # r \<Longrightarrow> gpos s < length (data s) \<and> data s ! gpos s = b"
proof -
  assume r: "rest s = b # r"
  then have "gpos s < length (data s)" by (auto simp: rest_def intro: ccontr)
  then show ?thesis using r by (simp add: rest_def Cons_nth_drop_Suc [symmetric])
qed

lemma sget_Cons [stream_simps]: "readable s \<Longrightarrow> rest s = b # r \<Longrightarrow> sget s = (uint b, advance 1 1 s)"
  using rest_Cons [of s b r] by (simp add: sget_def readable_def advance_def)

lemma speek_Cons [stream_simps]: "readable s \<Longrightarrow> rest s = b # r \<Longrightarrow> speek s = (uint b, advance 0 0 s)"
  using rest_Cons [of s b r] by (simp add: speek_def readable_def advance_def)

lemma sread_rest [stream_simps]:
  "readable s \<Longrightarrow> n \<le> length (rest s) \<Longrightarrow> sread n s = (take n (rest s), advance n n s)"
  by (simp add: sread_def readable_def rest_def advance_def Let_def min_def)

lemma stellg_good [simp, stream_simps]: "good s \<Longrightarrow> stellg s = (int (gpos s), s)"
  by (simp add: stellg_def)

lemma sclear_good [simp]: "good s \<Longrightarrow> sclear s = s"
  by (simp add: sclear_def good_def)

lemma bs_seekg_in: "pos \<le> length (data s) \<Longrightarrow> bs_seekg (int pos) s = (sclear s)\<lparr>gpos := pos\<rparr>"
  by (simp add: bs_seekg_def Let_def sclear_def)

lemma bs_length_ok [simp, stream_simps]:
  assumes "readable s"
  shows "bs_length s = (int (length (data s)), s)"
proof -
  have "good s" "gpos s \<le> length (data s)" using assms by (simp_all add: readable_def)
  moreover have "bs_seekg (int (gpos s)) (s\<lparr>gpos := length (data s)\<rparr>) = s"
    using calculation by (subst bs_seekg_in) simp_all
  ultimately show ?thesis by (simp add: bs_length_def bs_seekg_end_def)
qed

lemma bs_at_ok [stream_simps]:
  assumes "readable s" and "i < length (data s)"
  shows "bs_at (int i) s = (uint (data s ! i), s\<lparr>gcount := 1\<rparr>)"
proof -
  have g: "good s" "gpos s \<le> length (data s)" using assms by (simp_all add: readable_def)
  have "bs_seekg (int i) s = s\<lparr>gpos := i\<rparr>" using g assms by (subst bs_seekg_in) simp_all
  moreover have "sget (s\<lparr>gpos := i\<rparr>) = (uint (data s ! i), s\<lparr>gpos := i + 1, gcount := 1\<rparr>)"
    using g assms by (simp add: sget_def)
  moreover have "bs_seekg (int (gpos s)) (s\<lparr>gpos := i + 1, gcount := 1\<rparr>) = s\<lparr>gcount := 1\<rparr>"
    using g by (subst bs_seekg_in) simp_all
  ultimately show ?thesis using g by (simp add: bs_at_def)
qed

lemma bs_read_to_at_ok [stream_simps]:
  assumes "readable s" and "appending out" and "pos + n \<le> length (data s)"
  shows "bs_read_to_at (int pos) n s out =
    (if n = 0 then s else s\<lparr>gcount := n\<rparr>, append (take n (drop pos (data s))) out)"
proof -
  have g: "good s" "gpos s \<le> length (data s)" using assms by (simp_all add: readable_def)
  have seek: "bs_seekg (int pos) s = s\<lparr>gpos := pos\<rparr>" using g assms by (subst bs_seekg_in) simp_all
  have read: "sread n (s\<lparr>gpos := pos\<rparr>) =
      (take n (drop pos (data s)), s\<lparr>gpos := pos + n, gcount := n\<rparr>)"
    using g assms by (simp add: sread_def Let_def min_def)
  have home: "bs_seekg (int (gpos s)) (s\<lparr>gpos := p, gcount := c\<rparr>) = s\<lparr>gcount := c\<rparr>"
    "bs_seekg (int (gpos s)) (s\<lparr>gpos := p\<rparr>) = s" for p c
    using g by (subst bs_seekg_in, simp_all)+
  show ?thesis
    using g assms(2) by (simp add: bs_read_to_at_def seek bs_read_to_def read home)
qed

lemma bs_read_to_ok [stream_simps]:
  assumes "readable s" and "appending out" and "n \<le> length (rest s)"
  shows "bs_read_to n s out = (if n = 0 then s else advance n n s, append (take n (rest s)) out)"
  using assms by (simp add: bs_read_to_def sread_rest)

section \<open>read_exact\<close>

lemma gcount_sread: "sread n s = (bs, s') \<Longrightarrow> gcount s' = length bs"
  by (auto simp: sread_def Let_def split: if_splits)

lemma sread_cases:
  assumes "readable s"
  shows "fst (sread n s) = take n (rest s)"
    and "n \<le> length (rest s) \<Longrightarrow> readable (snd (sread n s)) \<and> rest (snd (sread n s)) = drop n (rest s)"
    and "length (rest s) < n \<Longrightarrow> eofbit (snd (sread n s))"
  using assms by (auto simp: sread_def readable_def rest_def Let_def good_def min_def add.commute)

lemma bs_read_exact_loop_ok:
  assumes "readable s" and "0 < chunk"
  shows "\<exists>s'. bs_read_exact_loop chunk offset n acc s = Some (acc @ take (n - offset) (rest s), s')"
  using assms
proof (induction "n - offset" arbitrary: chunk offset acc s rule: less_induct)
  case less
  show ?case
  proof (cases "offset < n")
    case False
    then show ?thesis by (subst bs_read_exact_loop.simps) simp
  next
    case True
    let ?p = "min chunk (n - offset)"
    obtain bs s1 where r: "sread ?p s = (bs, s1)" by fastforce
    have bs: "bs = take ?p (rest s)" using sread_cases(1) [OF less.prems(1), of ?p] r by simp
    have gc: "gcount s1 = length bs" by (rule gcount_sread [OF r])
    have p0: "0 < ?p" using True less.prems(2) by simp
    have step: "bs_read_exact_loop chunk offset n acc s =
        bs_read_exact_loop ?p (offset + gcount s1) n (acc @ bs) s1"
      using True less.prems(1) r
      by (subst bs_read_exact_loop.simps) (simp add: Let_def readable_def good_def)
    show ?thesis
    proof (cases "?p \<le> length (rest s)")
      case True
      then have s1: "readable s1" "rest s1 = drop ?p (rest s)" and len: "length bs = ?p"
        using sread_cases(2) [OF less.prems(1) True] r bs by simp_all
      have lt: "n - (offset + ?p) < n - offset" using p0 \<open>offset < n\<close> by linarith
      obtain s' where "bs_read_exact_loop ?p (offset + ?p) n (acc @ bs) s1 =
          Some ((acc @ bs) @ take (n - (offset + ?p)) (rest s1), s')"
        using less.hyps [OF lt s1(1) p0, of "acc @ bs"] by blast
      moreover have "take (n - offset) (rest s) = bs @ take (n - (offset + ?p)) (rest s1)"
        unfolding bs s1(2) using take_add [of ?p "n - (offset + ?p)" "rest s"] p0 by simp
      ultimately show ?thesis using step gc len by simp
    next
      case False
      then have "eofbit s1" using sread_cases(3) [OF less.prems(1), of ?p] r by fastforce
      moreover have "length (rest s) \<le> ?p" "length (rest s) \<le> n - offset" using False by linarith+
      then have "take (n - offset) (rest s) = bs" unfolding bs by (simp only: take_all)
      ultimately show ?thesis using step by (subst (asm) bs_read_exact_loop.simps) simp
    qed
  qed
qed

lemma bs_read_exact_stuck_loop:
  assumes "bs_read_exact_loop chunk offset n acc s = Some y"
  shows "failbit s \<longrightarrow> eofbit s \<or> n \<le> offset"
proof (rule bs_read_exact_loop.raw_induct
    [where P = "\<lambda>chunk offset n acc s y. failbit s \<longrightarrow> eofbit s \<or> n \<le> offset", OF _ assms])
  fix f chunk offset n acc s y
  assume ih: "\<And>chunk offset n acc s y. f chunk offset n acc s = Some y \<Longrightarrow>
      failbit s \<longrightarrow> eofbit s \<or> n \<le> offset"
    and run: "(if \<not> eofbit s \<and> offset < n
      then let chunk = min chunk (n - offset) in
           case sread chunk s of (bs, s') \<Rightarrow> f chunk (offset + gcount s') n (acc @ bs) s'
      else Some (acc, s)) = Some y"
  show "failbit s \<longrightarrow> eofbit s \<or> n \<le> offset"
  proof (rule ccontr)
    assume no: "\<not> (failbit s \<longrightarrow> eofbit s \<or> n \<le> offset)"
    let ?p = "min chunk (n - offset)" and ?s = "s\<lparr>failbit := True, gcount := 0\<rparr>"
    have "sread ?p s = ([], ?s)" using no by (simp add: sread_def good_def)
    then have "f ?p offset n acc ?s = Some y" using run no by (simp add: Let_def)
    then have "failbit ?s \<longrightarrow> eofbit ?s \<or> n \<le> offset" by (rule ih)
    then show False using no by simp
  qed
qed

section \<open>Properties\<close>

text \<open>\<open>read_exact\<close> on a good stream returns, with the next \<open>n\<close> octets or with all that is left,
  whatever the chunking.\<close>

theorem bs_read_exact_correct:
  assumes "readable s"
  shows "\<exists>s'. bs_read_exact n s = Some (take n (rest s), s')"
  using bs_read_exact_loop_ok [OF assms, of 1024 0 n "[]"] by (simp add: bs_read_exact_def)

text \<open>On a stream whose last operation failed short of the end (a seek outside the data, say),
  \<open>read_exact\<close> never returns: its loop watches \<open>eof()\<close> only, and a failed stream reads nothing.\<close>

theorem bs_read_exact_stuck:
  assumes "failbit s" and "\<not> eofbit s" and "0 < n"
  shows "bs_read_exact n s = None"
  using bs_read_exact_stuck_loop [of 1024 0 n "[]" s] assms
  by (cases "bs_read_exact n s") (auto simp: bs_read_exact_def)

end
