(* ===== verification/Base_Codec.thy ===== *)
theory Base_Codec
  imports Streams
begin

text \<open>
  \<open>Encoding/basecodec.hpp\<close>: the RFC 4648 core the five base-N codecs share, parametric in the
  alphabet and in the bits a character carries. What the core needs of them is the locale
  \<open>base_alphabet\<close>; the round trip is proved once inside it, by reading both the octets and the
  characters as one big number. \<open>Base_Classes\<close> interprets it on the five alphabets.
\<close>

section \<open>Sizes\<close>

definition PADDING :: byte where
  "PADDING = 61"

definition group_in :: "nat \<Rightarrow> nat" where
  "group_in bits = (if bits = 6 then 3 else if bits = 5 then 5 else 1)"

definition group_out :: "nat \<Rightarrow> nat" where
  "group_out bits = (if bits = 6 then 4 else if bits = 5 then 8 else 2)"

definition encoded_size :: "nat \<Rightarrow> nat \<Rightarrow> nat" where
  "encoded_size len bits = ((len + group_in bits - 1) div group_in bits) * group_out bits"

definition decoded_size :: "nat \<Rightarrow> nat \<Rightarrow> nat" where
  "decoded_size len bits = (len * bits) div 8"

section \<open>Encoding\<close>

text \<open>One group: packed left aligned in 64 bits, then peeled off from the top.\<close>

definition pack_group :: "nat \<Rightarrow> byte list \<Rightarrow> u64" where
  "pack_group gin grp =
     for_loop gin (\<lambda>j acc. push_bit 8 acc OR (if j < length grp then ucast (grp ! j) else 0)) 0"

definition encode_group :: "byte list \<Rightarrow> nat \<Rightarrow> byte list \<Rightarrow> byte list" where
  "encode_group alphabet bits grp =
     (let acc = pack_group (group_in bits) grp;
          significant = (length grp * 8 + bits - 1) div bits in
      map (\<lambda>j. if j < significant
               then alphabet ! unat (drop_bit (group_in bits * 8 - (j + 1) * bits) acc AND mask bits)
               else PADDING) [0..<group_out bits])"

function bc_encode :: "byte list \<Rightarrow> nat \<Rightarrow> byte list \<Rightarrow> byte list" where
  "bc_encode alphabet bits input =
     (if input = [] then []
      else encode_group alphabet bits (take (group_in bits) input) @
           bc_encode alphabet bits (drop (group_in bits) input))"
  by pat_completeness auto
termination
  by (relation "measure (\<lambda>(_, _, input). length input)") (auto simp: group_in_def)

declare bc_encode.simps [simp del]

section \<open>Decoding\<close>

text \<open>The 256-entry reverse map: -1 outside the alphabet.\<close>

definition make_reverse :: "byte list \<Rightarrow> int list" where
  "make_reverse alphabet =
     for_loop (length alphabet) (\<lambda>i table. table[unat (alphabet ! i) := int i]) (replicate 256 (-1))"

definition wrong_input :: "string \<Rightarrow> exn" where
  "wrong_input name = EncodingException (name @ '' wrong encoded input'')"

fun bc_decode_loop ::
  "int list \<Rightarrow> nat \<Rightarrow> string \<Rightarrow> byte list \<Rightarrow> byte list \<Rightarrow> word_t \<Rightarrow> nat \<Rightarrow> bool \<Rightarrow> byte list result" where
  "bc_decode_loop reverse bpc name [] out acc bits padded = Inr out"
| "bc_decode_loop reverse bpc name (ch # cs) out acc bits padded =
     (if ch = PADDING then bc_decode_loop reverse bpc name cs out acc bits True
      else if padded then Inl (wrong_input name)
      else
        (let value = reverse ! unat ch in
         if value < 0 then Inl (wrong_input name)
         else
           (let acc = push_bit bpc acc OR word_of_int value; bits = bits + bpc in
            if bits \<ge> 8 then
              bc_decode_loop reverse bpc name cs
                (out @ [ucast (drop_bit (bits - 8) acc AND 0xFF)]) acc (bits - 8) padded
            else bc_decode_loop reverse bpc name cs out acc bits padded)))"

definition bc_decode :: "byte list \<Rightarrow> nat \<Rightarrow> string \<Rightarrow> byte list \<Rightarrow> byte list result" where
  "bc_decode alphabet bits name input =
     bc_decode_loop (make_reverse alphabet) bits name input [] 0 0 False"

definition encode_string :: "byte list \<Rightarrow> nat \<Rightarrow> byte list \<Rightarrow> byte list" where
  "encode_string alphabet bits input = (if input = [] then [] else bc_encode alphabet bits input)"

definition decode_string :: "byte list \<Rightarrow> nat \<Rightarrow> string \<Rightarrow> byte list \<Rightarrow> byte list result" where
  "decode_string alphabet bits name input =
     (if input = [] then Inr [] else bc_decode alphabet bits name input)"

section \<open>Characters as digits\<close>

definition sym_val :: "nat \<Rightarrow> nat list \<Rightarrow> nat" where
  "sym_val b vs = foldl (\<lambda>v s. v * 2 ^ b + s) 0 vs"

lemma foldl_sym: "foldl (\<lambda>v s. v * 2 ^ b + s) v vs = v * 2 ^ (b * length vs) + sym_val b vs"
proof (induction vs arbitrary: v)
  case Nil
  then show ?case by (simp add: sym_val_def)
next
  case (Cons s vs)
  show ?case
    using Cons [of "v * 2 ^ b + s"] Cons [of s] by (simp add: sym_val_def algebra_simps power_add)
qed

lemma sym_val_append: "sym_val b (xs @ ys) = sym_val b xs * 2 ^ (b * length ys) + sym_val b ys"
  using foldl_sym [of b "sym_val b xs" ys] by (simp add: sym_val_def)

lemma sym_val_snoc [simp]: "sym_val b (xs @ [s]) = sym_val b xs * 2 ^ b + s"
  by (simp add: sym_val_def)

lemma sym_val_Nil [simp]: "sym_val b [] = 0"
  by (simp add: sym_val_def)

text \<open>Peeling \<open>m\<close> digits of \<open>b\<close> bits off the top of an \<open>N\<close>-bit number leaves its quotient.\<close>

lemma peel_digits:
  assumes "m * b \<le> N" and "a < 2 ^ N"
  shows "sym_val b (map (\<lambda>j. a div 2 ^ (N - (j + 1) * b) mod 2 ^ b) [0..<m]) = a div 2 ^ (N - m * b)"
  using assms(1)
proof (induction m)
  case 0
  then show ?case using assms(2) by simp
next
  case (Suc m)
  have "N - m * b = (N - Suc m * b) + b" using Suc.prems by simp
  then have "a div 2 ^ (N - m * b) = a div 2 ^ (N - Suc m * b) div 2 ^ b"
    by (simp only: power_add div_mult2_eq)
  then show ?case using Suc by (simp add: div_mult_mod_eq)
qed

section \<open>What the core needs of an alphabet\<close>

locale base_alphabet =
  fixes alphabet :: "byte list" and bits :: nat
  assumes alphabet_distinct: "distinct alphabet"
    and alphabet_size: "length alphabet = 2 ^ bits"
    and padding_outside: "PADDING \<notin> set alphabet"
    and bits_range: "bits = 4 \<or> bits = 5 \<or> bits = 6"
begin

lemma bits_bounds: "0 < bits" "bits \<le> 6"
  using bits_range by auto

lemma group_bits: "group_in bits * 8 = group_out bits * bits" "0 < group_in bits" "group_in bits \<le> 5"
  using bits_range by (auto simp: group_in_def group_out_def)

text \<open>The reverse map inverts the alphabet.\<close>

lemma reverse_inv:
  "length (make_reverse alphabet) = 256 \<and>
   (\<forall>i < length alphabet. make_reverse alphabet ! unat (alphabet ! i) = int i) \<and>
   (\<forall>ch. ch \<notin> set alphabet \<longrightarrow> make_reverse alphabet ! unat ch = -1)"
proof -
  let ?P = "\<lambda>n t :: int list. length t = 256 \<and> (\<forall>i < n. t ! unat (alphabet ! i) = int i) \<and>
     (\<forall>ch. ch \<notin> set (take n alphabet) \<longrightarrow> t ! unat ch = -1)"
  have "?P (length alphabet) (for_loop (length alphabet)
      (\<lambda>i table. table[unat (alphabet ! i) := int i]) (replicate 256 (-1)))"
  proof (rule for_loop_inv [where P = ?P])
    show "?P 0 (replicate 256 (-1))" by (simp add: unat_byte_less)
  next
    fix n and t :: "int list"
    assume n: "n < length alphabet" and p: "?P n t"
    have "unat (alphabet ! i) \<noteq> unat (alphabet ! n)" "unat (alphabet ! n) \<noteq> unat (alphabet ! i)" if "i < n" for i
      using that n nth_eq_iff_index_eq [OF alphabet_distinct, of i n]
      by (auto simp: word_unat_eq_iff)
    then show "?P (Suc n) (t[unat (alphabet ! n) := int n])"
      using p n by (auto simp: less_Suc_eq nth_list_update unat_byte_less take_Suc_conv_app_nth word_unat_eq_iff)
  qed
  then show ?thesis by (simp add: make_reverse_def)
qed

lemma reverse_symbol: "v < 2 ^ bits \<Longrightarrow> make_reverse alphabet ! unat (alphabet ! v) = int v"
  using reverse_inv alphabet_size by simp

lemma symbol_not_padding: "v < 2 ^ bits \<Longrightarrow> alphabet ! v \<noteq> PADDING"
  using padding_outside alphabet_size by (metis nth_mem)

text \<open>The decoder's state after the digits \<open>us\<close>: the octets out are the number so far, shifted right
  by the pending bits.\<close>

definition dec_inv :: "nat list \<Rightarrow> byte list \<Rightarrow> word_t \<Rightarrow> nat \<Rightarrow> bool" where
  "dec_inv us out acc k \<longleftrightarrow> acc = word_of_nat (sym_val bits us) \<and>
     bits * length us = 8 * length out + k \<and> k < 8 \<and> be_val out = sym_val bits us div 2 ^ k"

lemma push_digit:
  assumes "v < 2 ^ bits"
  shows "push_bit bits acc OR word_of_int (int v) = acc * 2 ^ bits + (word_of_nat v :: word_t)"
proof -
  have "take_bit bits v = v" using assms by (simp add: take_bit_nat_eq_self_iff)
  then have low: "bit v n \<Longrightarrow> n < bits" for n by (metis bit_take_bit_iff)
  have "push_bit bits acc AND word_of_nat v = (0 :: word_t)"
    by (rule bit_word_eqI) (auto simp: bit_push_bit_iff bit_and_iff bit_of_nat_iff dest: low)
  then have "push_bit bits acc OR word_of_nat v = push_bit bits acc + (word_of_nat v :: word_t)"
    by (simp add: disjunctive_add_eq_or)
  then show ?thesis by (simp add: push_bit_eq_mult)
qed

lemma octet_of_acc:
  assumes "k \<le> 6"
  shows "unat (ucast (drop_bit k (word_of_nat x :: word_t) AND 0xFF) :: byte) = x div 2 ^ k mod 256"
proof -
  have "take_bit 8 (drop_bit k (take_bit 32 x)) = take_bit 8 (drop_bit k x)"
    using assms by (simp add: drop_bit_take_bit min_absorb1)
  then show ?thesis
    unfolding unat_octet_of_word by (simp add: unat_of_nat take_bit_eq_mod drop_bit_eq_div)
qed

lemma dec_step:
  assumes inv: "dec_inv us out acc k" and v: "v < 2 ^ bits"
  obtains out' acc' k' where "dec_inv (us @ [v]) out' acc' k'"
    and "bc_decode_loop (make_reverse alphabet) bits name (alphabet ! v # cs) out acc k False =
         bc_decode_loop (make_reverse alphabet) bits name cs out' acc' k' False"
proof -
  define V where "V = sym_val bits us * 2 ^ bits + v"
  define A :: word_t where "A = push_bit bits acc OR word_of_int (int v)"
  define oct where "oct k = (ucast (drop_bit k A AND 0xFF) :: byte)" for k
  have i: "acc = word_of_nat (sym_val bits us)" "bits * length us = 8 * length out + k" "k < 8"
    "be_val out = sym_val bits us div 2 ^ k"
    using inv by (simp_all add: dec_inv_def)
  have acc: "A = word_of_nat V" unfolding A_def V_def push_digit [OF v] i(1) by simp
  have val: "sym_val bits (us @ [v]) = V" by (simp add: V_def)
  have prev: "V div 2 ^ bits = sym_val bits us" using v by (simp add: V_def)
  have step: "bc_decode_loop (make_reverse alphabet) bits name (alphabet ! v # cs) out acc k False =
      (if k + bits \<ge> 8 then
         bc_decode_loop (make_reverse alphabet) bits name cs (out @ [oct (k + bits - 8)]) A (k + bits - 8) False
       else bc_decode_loop (make_reverse alphabet) bits name cs out A (k + bits) False)"
    using reverse_symbol [OF v] symbol_not_padding [OF v] by (simp add: Let_def A_def oct_def)
  show thesis
  proof (cases "k + bits \<ge> 8")
    case True
    let ?k = "k + bits - 8"
    have k6: "?k \<le> 6" using i(3) bits_bounds by linarith
    then have b: "unat (oct ?k) = V div 2 ^ ?k mod 256"
      unfolding acc oct_def by (rule octet_of_acc)
    have sum: "?k + 8 = bits + k" using True by simp
    have "V div 2 ^ ?k div 256 = V div 2 ^ (?k + 8)" by (simp add: power_add div_mult2_eq)
    also have "\<dots> = V div 2 ^ bits div 2 ^ k" by (simp only: sum power_add div_mult2_eq)
    also have "\<dots> = be_val out" by (simp only: prev i(4))
    finally have out: "be_val (out @ [oct ?k]) = V div 2 ^ ?k"
      unfolding be_val_snoc b by (metis div_mult_mod_eq)
    have "dec_inv (us @ [v]) (out @ [oct ?k]) A ?k"
      unfolding dec_inv_def out val acc [symmetric] using i(2) True k6 by (simp add: acc algebra_simps)
    then show ?thesis using that step True by simp
  next
    case False
    have "V div 2 ^ (k + bits) = be_val out"
      unfolding i(4) prev [symmetric] by (simp add: add.commute [of k] power_add div_mult2_eq)
    then have "dec_inv (us @ [v]) out A (k + bits)"
      unfolding dec_inv_def val using i(2) False by (simp add: acc algebra_simps)
    then show ?thesis using that step False by simp
  qed
qed

lemma dec_digits:
  assumes "dec_inv us out acc k" and "\<forall>v \<in> set vs. v < 2 ^ bits"
  obtains out' acc' k' where "dec_inv (us @ vs) out' acc' k'"
    and "bc_decode_loop (make_reverse alphabet) bits name (map (\<lambda>v. alphabet ! v) vs @ cs) out acc k False =
         bc_decode_loop (make_reverse alphabet) bits name cs out' acc' k' False"
  using assms
proof (induction vs arbitrary: us out acc k thesis)
  case Nil
  then show ?case by simp
next
  case (Cons v vs)
  obtain out1 acc1 k1 where s: "dec_inv (us @ [v]) out1 acc1 k1"
    "bc_decode_loop (make_reverse alphabet) bits name
       (alphabet ! v # map (\<lambda>v. alphabet ! v) vs @ cs) out acc k False =
     bc_decode_loop (make_reverse alphabet) bits name (map (\<lambda>v. alphabet ! v) vs @ cs) out1 acc1 k1 False"
    using dec_step [OF Cons.prems(2), of v] Cons.prems(3) by (metis list.set_intros(1))
  obtain out' acc' k' where r: "dec_inv ((us @ [v]) @ vs) out' acc' k'"
    "bc_decode_loop (make_reverse alphabet) bits name (map (\<lambda>v. alphabet ! v) vs @ cs) out1 acc1 k1 False =
     bc_decode_loop (make_reverse alphabet) bits name cs out' acc' k' False"
    using Cons.IH [OF _ s(1)] Cons.prems(3) by (metis list.set_intros(2))
  show ?case using Cons.prems(1) [of out' acc' k'] r s(2) by simp
qed

lemma dec_padding: "bc_decode_loop R b name (replicate n PADDING) out acc k p = Inr out"
  by (induction n arbitrary: p) simp_all

text \<open>The encoder writes the digits of the input, shifted left to a whole digit, then padding.\<close>

lemma unat_word_of_nat64: "n < 2 ^ 64 \<Longrightarrow> unat (word_of_nat n :: u64) = n"
  by (simp add: unat_of_nat)

lemma map_const: "(\<And>x. x \<in> set xs \<Longrightarrow> f x = c) \<Longrightarrow> map f xs = replicate (length xs) c"
  by (induction xs) auto

lemma pack_group_value:
  assumes "length grp \<le> gin" and "gin \<le> 5"
  shows "unat (pack_group gin grp) = be_val grp * 256 ^ (gin - length grp)"
proof -
  let ?p = "grp @ replicate (gin - length grp) 0"
  have len: "length ?p = gin" using assms by simp
  let ?P = "\<lambda>n acc :: u64. acc = word_of_nat (be_val (take n ?p))"
  have "?P gin (for_loop gin (\<lambda>j acc. push_bit 8 acc OR (if j < length grp then ucast (grp ! j) else 0)) 0)"
  proof (rule for_loop_inv [where P = ?P])
    fix n and acc :: u64
    assume n: "n < gin" and p: "?P n acc"
    have d: "(if n < length grp then ucast (grp ! n) else 0) = (ucast (?p ! n) :: u64)"
      using n by (auto simp: nth_append)
    have "take (Suc n) ?p = take n ?p @ [?p ! n]" by (rule take_Suc_conv_app_nth) (simp only: len n)
    then show "?P (Suc n) (push_bit 8 acc OR (if n < length grp then ucast (grp ! n) else 0))"
      unfolding d shift_or p by (simp only: be_val_snoc) (simp add: of_nat_unat)
  qed simp
  then have "pack_group gin grp = word_of_nat (be_val ?p)" using len by (simp add: pack_group_def)
  moreover have "be_val ?p < 2 ^ 64"
  proof -
    have "be_val ?p < 256 ^ gin" using be_val_less [of ?p] by (simp only: len)
    also have "\<dots> \<le> 256 ^ 5" using assms(2) by (intro power_increasing) simp_all
    also have "\<dots> < 2 ^ 64" by simp
    finally show ?thesis .
  qed
  ultimately have "unat (pack_group gin grp) = be_val ?p" by (simp only: unat_word_of_nat64)
  then show ?thesis by (simp only: be_val_replicate0)
qed

lemma pow_256_2: "(256 :: nat) ^ n = 2 ^ (8 * n)"
  by (simp add: power_mult)

lemma digit_of_acc: "unat (drop_bit s (acc :: u64) AND mask b) = unat acc div 2 ^ s mod 2 ^ b"
proof -
  have "drop_bit s acc AND mask b = take_bit b (drop_bit s acc)" by (simp only: take_bit_eq_mask)
  then have "unat (drop_bit s acc AND mask b) = take_bit b (drop_bit s (unat acc))"
    using unsigned_less [of acc, where ?'a = nat]
    by (simp add: unsigned_take_bit_eq unsigned_drop_bit_eq take_bit_nat_eq_self)
  then show ?thesis by (simp add: take_bit_eq_mod drop_bit_eq_div)
qed

definition enc_form :: "byte list \<Rightarrow> nat list \<Rightarrow> bool" where
  "enc_form input vs \<longleftrightarrow> (\<forall>v \<in> set vs. v < 2 ^ bits) \<and> 8 * length input \<le> bits * length vs \<and>
     bits * length vs < 8 * length input + bits \<and>
     sym_val bits vs = be_val input * 2 ^ (bits * length vs - 8 * length input)"

lemma encode_group_form:
  assumes "length grp \<le> group_in bits"
  obtains vs where "enc_form grp vs" and "length vs \<le> group_out bits"
    and "encode_group alphabet bits grp = map (\<lambda>v. alphabet ! v) vs @ replicate (group_out bits - length vs) PADDING"
proof -
  let ?gin = "group_in bits" and ?gout = "group_out bits" and ?n = "length grp"
  let ?N = "?gin * 8" and ?a = "unat (pack_group ?gin grp)" and ?sig = "(?n * 8 + bits - 1) div bits"
  let ?vs = "map (\<lambda>j. ?a div 2 ^ (?N - (j + 1) * bits) mod 2 ^ bits) [0..<?sig]"
  have b: "0 < bits" by (rule bits_bounds)
  have sig: "?n * 8 \<le> ?sig * bits" "?sig * bits < ?n * 8 + bits"
    using b div_mult_mod_eq [of "?n * 8 + bits - 1" bits] mod_less_divisor [OF b, of "?n * 8 + bits - 1"]
    by linarith+
  have "?sig * bits < (?gout + 1) * bits" using sig(2) assms group_bits(1) by simp
  then have "?sig < ?gout + 1" by (simp only: mult_less_cancel2)
  then have sig_out: "?sig \<le> ?gout" by simp
  have sigN: "?sig * bits \<le> ?N" using sig_out group_bits(1) mult_le_mono1 by simp
  have a: "?a = be_val grp * 2 ^ (?N - ?n * 8)"
    using pack_group_value [OF assms group_bits(3)]
    by (simp only: pow_256_2 diff_mult_distrib2 mult.commute [of _ 8])
  have "be_val grp < 2 ^ (?n * 8)" using be_val_less [of grp] by (simp only: pow_256_2 mult.commute [of _ 8])
  then have "?a < 2 ^ (?n * 8) * 2 ^ (?N - ?n * 8)" unfolding a by simp
  also have "\<dots> = 2 ^ ?N" using assms by (simp flip: power_add)
  finally have aN: "?a < 2 ^ ?N" .
  have val: "sym_val bits ?vs = be_val grp * 2 ^ (bits * length ?vs - 8 * ?n)"
  proof -
    have "?N - ?n * 8 = (?N - ?sig * bits) + (?sig * bits - ?n * 8)" using sig(1) sigN by simp
    then have "?a = be_val grp * 2 ^ (?sig * bits - ?n * 8) * 2 ^ (?N - ?sig * bits)"
      unfolding a by (simp add: power_add)
    then have "?a div 2 ^ (?N - ?sig * bits) = be_val grp * 2 ^ (?sig * bits - ?n * 8)" by simp
    then show ?thesis unfolding peel_digits [OF sigN aN] by (simp add: mult.commute)
  qed
  have "[0..<?gout] = [0..<?sig] @ [?sig..<?gout]"
    using sig_out upt_add_eq_append [of 0 ?sig "?gout - ?sig"] by simp
  moreover have m: "map (\<lambda>j. if j < ?sig then g j else PADDING) [?sig..<?gout] = replicate (?gout - ?sig) PADDING" for g
    using map_const [of "[?sig..<?gout]" "\<lambda>j. if j < ?sig then g j else PADDING" PADDING] by simp
  ultimately have out: "encode_group alphabet bits grp = map (\<lambda>v. alphabet ! v) ?vs @ replicate (?gout - length ?vs) PADDING"
    unfolding encode_group_def Let_def digit_of_acc by (simp add: m)
  have "enc_form grp ?vs" unfolding enc_form_def val using sig by (simp add: mult.commute)
  then show thesis using that out sig_out by simp
qed

lemma enc_form_append:
  assumes "enc_form xs us" and "bits * length us = 8 * length xs" and "enc_form ys vs"
  shows "enc_form (xs @ ys) (us @ vs)"
proof -
  have u: "sym_val bits us = be_val xs" using assms(1,2) by (simp add: enc_form_def)
  have v: "8 * length ys \<le> bits * length vs" using assms(3) by (simp add: enc_form_def)
  have "(2 :: nat) ^ (bits * length vs) = 2 ^ (8 * length ys) * 2 ^ (bits * length vs - 8 * length ys)"
    using v by (simp flip: power_add)
  then have "sym_val bits (us @ vs) = be_val (xs @ ys) * 2 ^ (bits * length (us @ vs) - 8 * length (xs @ ys))"
    using assms u by (simp add: sym_val_append enc_form_def pow_256_2 algebra_simps)
  then show ?thesis using assms unfolding enc_form_def by (auto simp: algebra_simps)
qed

lemma full_group_form:
  assumes "enc_form grp vs" and "length grp = group_in bits"
  shows "bits * length vs = 8 * length grp" and "length vs = group_out bits"
proof -
  have "group_out bits * bits \<le> length vs * bits" "length vs * bits < (group_out bits + 1) * bits"
    using assms group_bits(1) by (simp_all add: enc_form_def algebra_simps)
  then have "group_out bits \<le> length vs" "length vs < group_out bits + 1"
    using bits_bounds by (simp_all only: mult_le_cancel2 mult_less_cancel2)
  then show l: "length vs = group_out bits" by simp
  show "bits * length vs = 8 * length grp" using l assms(2) group_bits(1) by (simp add: mult.commute)
qed

lemma bc_encode_form:
  "\<exists>vs p. bc_encode alphabet bits input = map (\<lambda>v. alphabet ! v) vs @ replicate p PADDING \<and>
     enc_form input vs \<and> length (bc_encode alphabet bits input) = encoded_size (length input) bits"
proof (induction "length input" arbitrary: input rule: less_induct)
  case less
  let ?gin = "group_in bits" and ?gout = "group_out bits"
  consider "input = []" | (last) "input \<noteq> []" "length input \<le> ?gin" | (full) "?gin < length input" by linarith
  then show ?case
  proof cases
    case 1
    then show ?thesis
      using bits_bounds(1) group_bits
      by (intro exI [of _ "[]"] exI [of _ 0]) (simp add: bc_encode.simps enc_form_def encoded_size_def)
  next
    case last
    then have "bc_encode alphabet bits input = encode_group alphabet bits input"
      by (subst bc_encode.simps) (simp add: bc_encode.simps [of _ _ "[]"])
    moreover have "(length input + ?gin - 1) div ?gin = 1"
    proof -
      have "?gin \<le> length input + ?gin - 1" "length input + ?gin - 1 < 2 * ?gin"
        using last group_bits(2) by (cases input; simp)+
      then show ?thesis by (simp add: div_nat_eqI)
    qed
    ultimately show ?thesis
      using encode_group_form [OF last(2)] by (metis encoded_size_def le_add_diff_inverse length_append
          length_map length_replicate mult_1)
  next
    case full
    let ?x = "take ?gin input" and ?y = "drop ?gin input"
    have x: "length ?x = ?gin" using full by simp
    have step: "bc_encode alphabet bits input = encode_group alphabet bits ?x @ bc_encode alphabet bits ?y"
      using full by (subst bc_encode.simps) auto
    obtain us where us: "enc_form ?x us" "encode_group alphabet bits ?x =
        map (\<lambda>v. alphabet ! v) us @ replicate (?gout - length us) PADDING"
      using encode_group_form [of ?x] x by auto
    note full_us = full_group_form [OF us(1) x]
    have lt: "length ?y < length input" using full group_bits(2) by simp
    obtain vs p where vs: "bc_encode alphabet bits ?y = map (\<lambda>v. alphabet ! v) vs @ replicate p PADDING"
      "enc_form ?y vs" "length (bc_encode alphabet bits ?y) = encoded_size (length ?y) bits"
      using less [OF lt] by blast
    have "enc_form input (us @ vs)"
      using enc_form_append [OF us(1) full_us(1) vs(2)] by simp
    moreover have "bc_encode alphabet bits input = map (\<lambda>v. alphabet ! v) (us @ vs) @ replicate p PADDING"
      using step us(2) vs(1) full_us(2) by simp
    moreover have "length (bc_encode alphabet bits input) = encoded_size (length input) bits"
    proof -
      have "(length input + ?gin - 1) div ?gin = Suc ((length ?y + ?gin - 1) div ?gin)"
      proof -
        have "length input + ?gin - 1 = (length ?y + ?gin - 1) + ?gin" using full group_bits(2) by simp
        then show ?thesis using group_bits(2) by (simp only: div_add_self2)
      qed
      then show ?thesis
        using step us(2) full_us(2) vs(3) by (simp add: encoded_size_def)
    qed
    ultimately show ?thesis by blast
  qed
qed

lemma roundtrip: "bc_decode alphabet bits name (bc_encode alphabet bits input) = Inr input"
proof -
  obtain vs p where e: "bc_encode alphabet bits input = map (\<lambda>v. alphabet ! v) vs @ replicate p PADDING"
    "enc_form input vs"
    using bc_encode_form by blast
  have start: "dec_inv [] [] 0 0" by (simp add: dec_inv_def)
  have digits: "\<forall>v \<in> set vs. v < 2 ^ bits" using e(2) by (simp add: enc_form_def)
  obtain out acc k where d: "dec_inv ([] @ vs) out acc k"
    "bc_decode_loop (make_reverse alphabet) bits name (map (\<lambda>v. alphabet ! v) vs @ replicate p PADDING) [] 0 0 False =
     bc_decode_loop (make_reverse alphabet) bits name (replicate p PADDING) out acc k False"
    by (rule dec_digits [OF start digits])
  have inv: "bits * length vs = 8 * length out + k" "k < 8" "be_val out = sym_val bits vs div 2 ^ k"
    using d(1) by (simp_all add: dec_inv_def)
  have form: "8 * length input \<le> bits * length vs" "bits * length vs < 8 * length input + 8"
    "sym_val bits vs = be_val input * 2 ^ (bits * length vs - 8 * length input)"
    using e(2) bits_bounds by (simp_all add: enc_form_def)
  have len: "length out = length input" using inv(1,2) form(1,2) by linarith
  have "k = bits * length vs - 8 * length input" using inv(1) len by simp
  then have "be_val out = be_val input" using inv(3) form(3) by simp
  then have "out = input" using len by (intro be_val_inj)
  then show ?thesis using d(2) e(1) by (simp add: bc_decode_def dec_padding)
qed

lemma string_roundtrip: "decode_string alphabet bits name (encode_string alphabet bits input) = Inr input"
proof (cases "input = []")
  case False
  have "bc_encode alphabet bits input \<noteq> []"
  proof
    assume "bc_encode alphabet bits input = []"
    then have "bc_decode alphabet bits name (bc_encode alphabet bits input) = Inr []"
      by (simp add: bc_decode_def)
    then show False using False roundtrip by simp
  qed
  then show ?thesis using False roundtrip by (simp add: decode_string_def encode_string_def)
qed (simp add: decode_string_def encode_string_def)

lemma encode_length: "length (bc_encode alphabet bits input) = encoded_size (length input) bits"
  using bc_encode_form by blast

text \<open>The decoder accepts exactly the words over the alphabet followed by padding, and never writes
  more octets than \<open>decoded_size\<close> announces.\<close>

fun well_formed :: "bool \<Rightarrow> byte list \<Rightarrow> bool" where
  "well_formed padded [] \<longleftrightarrow> True"
| "well_formed padded (c # cs) \<longleftrightarrow>
     (if c = PADDING then well_formed True cs else \<not> padded \<and> c \<in> set alphabet \<and> well_formed False cs)"

lemma well_formed_True: "well_formed True cs \<longleftrightarrow> cs = replicate (length cs) PADDING"
  by (induction cs) auto

lemma well_formed_False:
  "well_formed False cs \<longleftrightarrow> (\<exists>us p. cs = us @ replicate p PADDING \<and> set us \<subseteq> set alphabet)"
proof (induction cs)
  case Nil
  then show ?case by simp
next
  case (Cons c cs)
  show ?case
  proof (cases "c = PADDING")
    case True
    have "well_formed True cs"
      if "c # cs = us @ replicate p PADDING" "set us \<subseteq> set alphabet" for us p
    proof -
      have "us = []" using that True padding_outside by (cases us) auto
      then have "cs = replicate (p - 1) PADDING" using that by (cases p) auto
      then show ?thesis unfolding well_formed_True by (metis length_replicate)
    qed
    moreover have "c # cs = [] @ replicate (Suc (length cs)) PADDING" if "well_formed True cs"
      using that True by (simp add: well_formed_True)
    ultimately show ?thesis using True by (metis empty_set empty_subsetI well_formed.simps(2))
  next
    case False
    have "(\<exists>us p. c # cs = us @ replicate p PADDING \<and> set us \<subseteq> set alphabet) \<longleftrightarrow>
        c \<in> set alphabet \<and> (\<exists>us p. cs = us @ replicate p PADDING \<and> set us \<subseteq> set alphabet)"
      (is "?l \<longleftrightarrow> ?r")
    proof
      assume ?l
      then obtain us p where us: "c # cs = us @ replicate p PADDING" "set us \<subseteq> set alphabet" by blast
      then obtain us' where "us = c # us'" using False by (cases us; cases p) auto
      then have "cs = us' @ replicate p PADDING" "set us' \<subseteq> set alphabet" "c \<in> set alphabet" using us by auto
      then show ?r by blast
    next
      assume ?r
      then obtain us p where "cs = us @ replicate p PADDING" "set us \<subseteq> set alphabet" "c \<in> set alphabet" by blast
      then show ?l by (intro exI [of _ "c # us"] exI [of _ p]) simp
    qed
    then show ?thesis using False Cons by simp
  qed
qed

lemma reverse_sign: "make_reverse alphabet ! unat ch < 0 \<longleftrightarrow> ch \<notin> set alphabet"
  using reverse_inv by (metis in_set_conv_nth not_less of_nat_0_le_iff neg_less_0_iff_less zero_less_one)

lemma decode_loop_accepts:
  assumes "k < 8"
  shows "if well_formed p cs
    then \<exists>out'. bc_decode_loop (make_reverse alphabet) bits name cs out acc k p = Inr out' \<and>
           8 * length out' \<le> 8 * length out + k + bits * length cs
    else bc_decode_loop (make_reverse alphabet) bits name cs out acc k p = Inl (wrong_input name)"
  using assms
proof (induction cs arbitrary: out acc k p)
  case Nil
  then show ?case by simp
next
  case (Cons c cs)
  consider (pad) "c = PADDING" | (bad) "c \<noteq> PADDING" "p \<or> c \<notin> set alphabet"
    | (digit) "c \<noteq> PADDING" "\<not> p" "c \<in> set alphabet" by blast
  then show ?case
  proof cases
    case pad
    then show ?thesis using Cons.IH [OF Cons.prems, of True out acc] by (fastforce split: if_splits)
  next
    case bad
    then show ?thesis using reverse_sign [of c] by (auto simp: Let_def)
  next
    case digit
    let ?acc = "push_bit bits acc OR word_of_int (make_reverse alphabet ! unat c)"
    have v: "\<not> make_reverse alphabet ! unat c < 0" using digit reverse_sign by simp
    show ?thesis
    proof (cases "k + bits \<ge> 8")
      case True
      have "k + bits - 8 < 8" using Cons.prems bits_bounds by linarith
      note ih = Cons.IH [OF this, of False "out @ [ucast (drop_bit (k + bits - 8) ?acc AND 0xFF)]" ?acc]
      show ?thesis using ih v digit True by (auto simp: Let_def split: if_splits)
    next
      case False
      then have "k + bits < 8" by simp
      note ih = Cons.IH [OF this, of False out ?acc]
      show ?thesis using ih v digit False by (auto simp: Let_def split: if_splits)
    qed
  qed
qed

lemma decode_accepts:
  "if \<exists>us p. cs = us @ replicate p PADDING \<and> set us \<subseteq> set alphabet
   then \<exists>out. bc_decode alphabet bits name cs = Inr out \<and> length out \<le> decoded_size (length cs) bits
   else bc_decode alphabet bits name cs = Inl (wrong_input name)"
proof -
  have "8 * n \<le> bits * length cs \<Longrightarrow> n \<le> decoded_size (length cs) bits" for n
    by (simp add: decoded_size_def mult.commute)
  then show ?thesis
    unfolding well_formed_False [symmetric]
    using decode_loop_accepts [of 0 False cs name "[]" 0]
    by (auto simp: bc_decode_def split: if_splits)
qed

end

end
