(* ===== verification/Base_Classes.thy ===== *)
theory Base_Classes
  imports Base_Codec
begin

text \<open>
  \<open>Encoding/base16.cpp\<close>, \<open>base32.cpp\<close>, \<open>base32hex.cpp\<close>, \<open>base64.cpp\<close> and \<open>base64url.cpp\<close>: the five
  classes over the core of \<open>Base_Codec\<close>, each with its alphabet, its buffer, string and stream
  operations, and its interpretation of \<open>base_alphabet\<close>.
\<close>

definition octets :: "string \<Rightarrow> byte list" where
  "octets s = map of_char s"

text \<open>\<open>std::string buffer(length, '\0'); if (length > 0) input.read(&buffer[0], length);\<close>: octets the
  input does not have stay zero.\<close>

definition read_buffer :: "nat \<Rightarrow> stream \<Rightarrow> byte list \<times> stream" where
  "read_buffer len input =
     (if len > 0 then (let (bs, input) = sread len input in (bs @ replicate (len - length bs) 0, input))
      else ([], input))"

lemma read_buffer_ok:
  "readable s \<Longrightarrow> len \<le> length (rest s) \<Longrightarrow>
   read_buffer len s = (take len (rest s), if len > 0 then advance len len s else s)"
  by (simp add: read_buffer_def sread_rest)

section \<open>Base16\<close>

definition base16_index :: "byte list" where
  "base16_index = octets ''0123456789ABCDEF''"

definition base16_encode_buffer :: "byte list \<Rightarrow> byte list" where
  "base16_encode_buffer input = bc_encode base16_index 4 input"

definition base16_encode :: "byte list \<Rightarrow> byte list" where
  "base16_encode input = encode_string base16_index 4 input"

definition base16_encode_stream :: "stream \<Rightarrow> nat \<Rightarrow> stream \<Rightarrow> stream \<times> stream" where
  "base16_encode_stream input len output =
     (let (buffer, input) = read_buffer len input; encoded = base16_encode buffer in
      (input, swrite encoded output))"

definition base16_encode_size :: "nat \<Rightarrow> nat" where
  "base16_encode_size len = encoded_size len 4"

definition base16_decode_buffer :: "byte list \<Rightarrow> byte list result" where
  "base16_decode_buffer input = bc_decode base16_index 4 ''base16'' input"

definition base16_decode :: "byte list \<Rightarrow> byte list result" where
  "base16_decode input = decode_string base16_index 4 ''base16'' input"

definition base16_decode_stream :: "stream \<Rightarrow> nat \<Rightarrow> stream \<Rightarrow> (stream \<times> stream) result" where
  "base16_decode_stream input len output =
     (let (buffer, input) = read_buffer len input in
      bind_res (base16_decode buffer) (\<lambda>decoded. Inr (input, swrite decoded output)))"

definition base16_decode_size :: "nat \<Rightarrow> nat" where
  "base16_decode_size len = decoded_size len 4"

lemma base16_alphabet: "base_alphabet base16_index 4"
proof
  show "distinct base16_index" unfolding base16_index_def octets_def by code_simp
  show "length base16_index = 2 ^ 4" unfolding base16_index_def octets_def by code_simp
  show "PADDING \<notin> set base16_index" unfolding base16_index_def octets_def PADDING_def by code_simp
qed simp

interpretation base16: base_alphabet base16_index 4
  by (rule base16_alphabet)

section \<open>Base32\<close>

definition base32_index :: "byte list" where
  "base32_index = octets ''ABCDEFGHIJKLMNOPQRSTUVWXYZ234567''"

definition base32_encode_buffer :: "byte list \<Rightarrow> byte list" where
  "base32_encode_buffer input = bc_encode base32_index 5 input"

definition base32_encode :: "byte list \<Rightarrow> byte list" where
  "base32_encode input = encode_string base32_index 5 input"

definition base32_encode_stream :: "stream \<Rightarrow> nat \<Rightarrow> stream \<Rightarrow> stream \<times> stream" where
  "base32_encode_stream input len output =
     (let (buffer, input) = read_buffer len input; encoded = base32_encode buffer in
      (input, swrite encoded output))"

definition base32_encode_size :: "nat \<Rightarrow> nat" where
  "base32_encode_size len = encoded_size len 5"

definition base32_decode_buffer :: "byte list \<Rightarrow> byte list result" where
  "base32_decode_buffer input = bc_decode base32_index 5 ''base32'' input"

definition base32_decode :: "byte list \<Rightarrow> byte list result" where
  "base32_decode input = decode_string base32_index 5 ''base32'' input"

definition base32_decode_stream :: "stream \<Rightarrow> nat \<Rightarrow> stream \<Rightarrow> (stream \<times> stream) result" where
  "base32_decode_stream input len output =
     (let (buffer, input) = read_buffer len input in
      bind_res (base32_decode buffer) (\<lambda>decoded. Inr (input, swrite decoded output)))"

definition base32_decode_size :: "nat \<Rightarrow> nat" where
  "base32_decode_size len = decoded_size len 5"

lemma base32_alphabet: "base_alphabet base32_index 5"
proof
  show "distinct base32_index" unfolding base32_index_def octets_def by code_simp
  show "length base32_index = 2 ^ 5" unfolding base32_index_def octets_def by code_simp
  show "PADDING \<notin> set base32_index" unfolding base32_index_def octets_def PADDING_def by code_simp
qed simp

interpretation base32: base_alphabet base32_index 5
  by (rule base32_alphabet)

section \<open>Base32Hex\<close>

definition base32hex_index :: "byte list" where
  "base32hex_index = octets ''0123456789ABCDEFGHIJKLMNOPQRSTUV''"

definition base32hex_encode_buffer :: "byte list \<Rightarrow> byte list" where
  "base32hex_encode_buffer input = bc_encode base32hex_index 5 input"

definition base32hex_encode :: "byte list \<Rightarrow> byte list" where
  "base32hex_encode input = encode_string base32hex_index 5 input"

definition base32hex_encode_stream :: "stream \<Rightarrow> nat \<Rightarrow> stream \<Rightarrow> stream \<times> stream" where
  "base32hex_encode_stream input len output =
     (let (buffer, input) = read_buffer len input; encoded = base32hex_encode buffer in
      (input, swrite encoded output))"

definition base32hex_encode_size :: "nat \<Rightarrow> nat" where
  "base32hex_encode_size len = encoded_size len 5"

definition base32hex_decode_buffer :: "byte list \<Rightarrow> byte list result" where
  "base32hex_decode_buffer input = bc_decode base32hex_index 5 ''base32hex'' input"

definition base32hex_decode :: "byte list \<Rightarrow> byte list result" where
  "base32hex_decode input = decode_string base32hex_index 5 ''base32hex'' input"

definition base32hex_decode_stream :: "stream \<Rightarrow> nat \<Rightarrow> stream \<Rightarrow> (stream \<times> stream) result" where
  "base32hex_decode_stream input len output =
     (let (buffer, input) = read_buffer len input in
      bind_res (base32hex_decode buffer) (\<lambda>decoded. Inr (input, swrite decoded output)))"

definition base32hex_decode_size :: "nat \<Rightarrow> nat" where
  "base32hex_decode_size len = decoded_size len 5"

lemma base32hex_alphabet: "base_alphabet base32hex_index 5"
proof
  show "distinct base32hex_index" unfolding base32hex_index_def octets_def by code_simp
  show "length base32hex_index = 2 ^ 5" unfolding base32hex_index_def octets_def by code_simp
  show "PADDING \<notin> set base32hex_index" unfolding base32hex_index_def octets_def PADDING_def by code_simp
qed simp

interpretation base32hex: base_alphabet base32hex_index 5
  by (rule base32hex_alphabet)

section \<open>Base64\<close>

definition base64_index :: "byte list" where
  "base64_index = octets ''ABCDEFGHIJKLMNOPQRSTUVWXYZabcdefghijklmnopqrstuvwxyz0123456789+/''"

definition base64_encode_buffer :: "byte list \<Rightarrow> byte list" where
  "base64_encode_buffer input = bc_encode base64_index 6 input"

definition base64_encode :: "byte list \<Rightarrow> byte list" where
  "base64_encode input = encode_string base64_index 6 input"

definition base64_encode_stream :: "stream \<Rightarrow> nat \<Rightarrow> stream \<Rightarrow> stream \<times> stream" where
  "base64_encode_stream input len output =
     (let (buffer, input) = read_buffer len input; encoded = base64_encode buffer in
      (input, swrite encoded output))"

definition base64_encode_size :: "nat \<Rightarrow> nat" where
  "base64_encode_size len = encoded_size len 6"

definition base64_decode_buffer :: "byte list \<Rightarrow> byte list result" where
  "base64_decode_buffer input = bc_decode base64_index 6 ''base64'' input"

definition base64_decode :: "byte list \<Rightarrow> byte list result" where
  "base64_decode input = decode_string base64_index 6 ''base64'' input"

definition base64_decode_stream :: "stream \<Rightarrow> nat \<Rightarrow> stream \<Rightarrow> (stream \<times> stream) result" where
  "base64_decode_stream input len output =
     (let (buffer, input) = read_buffer len input in
      bind_res (base64_decode buffer) (\<lambda>decoded. Inr (input, swrite decoded output)))"

definition base64_decode_size :: "nat \<Rightarrow> nat" where
  "base64_decode_size len = decoded_size len 6"

lemma base64_alphabet: "base_alphabet base64_index 6"
proof
  show "distinct base64_index" unfolding base64_index_def octets_def by code_simp
  show "length base64_index = 2 ^ 6" unfolding base64_index_def octets_def by code_simp
  show "PADDING \<notin> set base64_index" unfolding base64_index_def octets_def PADDING_def by code_simp
qed simp

interpretation base64: base_alphabet base64_index 6
  by (rule base64_alphabet)

section \<open>Base64URL\<close>

definition base64url_index :: "byte list" where
  "base64url_index = octets ''ABCDEFGHIJKLMNOPQRSTUVWXYZabcdefghijklmnopqrstuvwxyz0123456789-_''"

definition base64url_encode_buffer :: "byte list \<Rightarrow> byte list" where
  "base64url_encode_buffer input = bc_encode base64url_index 6 input"

definition base64url_encode :: "byte list \<Rightarrow> byte list" where
  "base64url_encode input = encode_string base64url_index 6 input"

definition base64url_encode_stream :: "stream \<Rightarrow> nat \<Rightarrow> stream \<Rightarrow> stream \<times> stream" where
  "base64url_encode_stream input len output =
     (let (buffer, input) = read_buffer len input; encoded = base64url_encode buffer in
      (input, swrite encoded output))"

definition base64url_encode_size :: "nat \<Rightarrow> nat" where
  "base64url_encode_size len = encoded_size len 6"

definition base64url_decode_buffer :: "byte list \<Rightarrow> byte list result" where
  "base64url_decode_buffer input = bc_decode base64url_index 6 ''base64url'' input"

definition base64url_decode :: "byte list \<Rightarrow> byte list result" where
  "base64url_decode input = decode_string base64url_index 6 ''base64url'' input"

definition base64url_decode_stream :: "stream \<Rightarrow> nat \<Rightarrow> stream \<Rightarrow> (stream \<times> stream) result" where
  "base64url_decode_stream input len output =
     (let (buffer, input) = read_buffer len input in
      bind_res (base64url_decode buffer) (\<lambda>decoded. Inr (input, swrite decoded output)))"

definition base64url_decode_size :: "nat \<Rightarrow> nat" where
  "base64url_decode_size len = decoded_size len 6"

lemma base64url_alphabet: "base_alphabet base64url_index 6"
proof
  show "distinct base64url_index" unfolding base64url_index_def octets_def by code_simp
  show "length base64url_index = 2 ^ 6" unfolding base64url_index_def octets_def by code_simp
  show "PADDING \<notin> set base64url_index" unfolding base64url_index_def octets_def PADDING_def by code_simp
qed simp

interpretation base64url: base_alphabet base64url_index 6
  by (rule base64url_alphabet)

text \<open>The stream operations in terms of the string operations, and the string round trips.\<close>

lemma codec_roundtrips [simp]:
  "base16_decode (base16_encode xs) = Inr xs"
  "base32_decode (base32_encode xs) = Inr xs"
  "base32hex_decode (base32hex_encode xs) = Inr xs"
  "base64_decode (base64_encode xs) = Inr xs"
  "base64url_decode (base64url_encode xs) = Inr xs"
  by (simp_all add: base16_decode_def base16_encode_def base16.string_roundtrip
      base32_decode_def base32_encode_def base32.string_roundtrip
      base32hex_decode_def base32hex_encode_def base32hex.string_roundtrip
      base64_decode_def base64_encode_def base64.string_roundtrip
      base64url_decode_def base64url_encode_def base64url.string_roundtrip)

lemmas codec_stream_simps =
  base16_encode_stream_def base16_decode_stream_def
  base32_encode_stream_def base32_decode_stream_def
  base32hex_encode_stream_def base32hex_decode_stream_def
  base64_encode_stream_def base64_decode_stream_def
  base64url_encode_stream_def base64url_decode_stream_def

section \<open>Properties\<close>

text \<open>Every codec decodes what it encoded, for octet strings of any length.\<close>

theorem base_roundtrip:
  "base16_decode (base16_encode xs) = Inr xs \<and> base32_decode (base32_encode xs) = Inr xs \<and>
   base32hex_decode (base32hex_encode xs) = Inr xs \<and> base64_decode (base64_encode xs) = Inr xs \<and>
   base64url_decode (base64url_encode xs) = Inr xs"
  by simp

text \<open>The base64 decoder accepts exactly the words over its alphabet followed by padding, throws
  on everything else, and never writes more octets than \<open>decode_size\<close> announces.\<close>

theorem base64_decode_accepts:
  "if \<exists>us p. cs = us @ replicate p PADDING \<and> set us \<subseteq> set base64_index
   then \<exists>out. base64_decode_buffer cs = Inr out \<and> length out \<le> base64_decode_size (length cs)
   else base64_decode_buffer cs = Inl (EncodingException ''base64 wrong encoded input'')"
  using base64.decode_accepts [of cs "''base64''"]
  by (simp add: base64_decode_buffer_def base64_decode_size_def wrong_input_def)

text \<open>\<open>encode_size\<close> is the exact length of what the codec writes.\<close>

theorem base_encode_sizes:
  "length (base16_encode_buffer xs) = base16_encode_size (length xs) \<and>
   length (base32_encode_buffer xs) = base32_encode_size (length xs) \<and>
   length (base64_encode_buffer xs) = base64_encode_size (length xs)"
  by (simp add: base16_encode_buffer_def base16_encode_size_def base16.encode_length
      base32_encode_buffer_def base32_encode_size_def base32.encode_length
      base64_encode_buffer_def base64_encode_size_def base64.encode_length)

end
