(* ===== verification/CTE.thy ===== *)
theory CTE
  imports Base_Classes
begin

text \<open>
  \<open>Encoding/cte.cpp\<close>: the content transfer encodings, the five base-N codecs over streams and the two
  line-wrapped forms of base64, MIME (76 columns) and PEM (64 columns). The two wrapping loops watch
  the stream's end only, so they are \<open>partial_function (option)\<close>s.
\<close>

datatype scheme = HEX | BASE16 | BASE32 | BASE32HEX | BASE64 | BASE64URL | MIME | PEM

definition newline :: byte where
  "newline = 10"

text \<open>\<open>while (!tmp.eof()) { tmp.read(buffer, n); ... }\<close>\<close>

partial_function (option) wrap_loop :: "nat \<Rightarrow> stream \<Rightarrow> nat \<Rightarrow> stream \<Rightarrow> stream option" where
  "wrap_loop n tmp pre_len output =
     (if \<not> eofbit tmp then
        (case sread n tmp of (buffer, tmp) \<Rightarrow>
           let count = gcount tmp;
               output = (if pre_len = n \<and> count > 0 then sput newline output else output) in
           wrap_loop n tmp count (swrite buffer output))
      else Some output)"

definition encode_lines :: "nat \<Rightarrow> stream \<Rightarrow> nat \<Rightarrow> stream \<Rightarrow> (stream \<times> stream) option" where
  "encode_lines n input len output =
     (let (input, tmp) = base64_encode_stream input len (new_stream []) in
      Option.bind (wrap_loop n tmp 0 output) (\<lambda>output. Some (input, output)))"

definition cte_encode :: "scheme \<Rightarrow> stream \<Rightarrow> nat \<Rightarrow> stream \<Rightarrow> (stream \<times> stream) option" where
  "cte_encode scheme input len output =
     (case scheme of
        HEX \<Rightarrow> Some (base16_encode_stream input len output)
      | BASE16 \<Rightarrow> Some (base16_encode_stream input len output)
      | BASE32 \<Rightarrow> Some (base32_encode_stream input len output)
      | BASE32HEX \<Rightarrow> Some (base32hex_encode_stream input len output)
      | BASE64 \<Rightarrow> Some (base64_encode_stream input len output)
      | BASE64URL \<Rightarrow> Some (base64url_encode_stream input len output)
      | MIME \<Rightarrow> encode_lines 76 input len output
      | PEM \<Rightarrow> encode_lines 64 input len output)"

text \<open>\<open>while (!input.eof() && count == n)\<close>: the length of the line just appended is the difference of
  two put positions.\<close>

partial_function (option) unwrap_loop :: "nat \<Rightarrow> string \<Rightarrow> stream \<Rightarrow> int \<Rightarrow> stream \<Rightarrow> (stream \<times> stream) run" where
  "unwrap_loop n name input count tmp =
     (if \<not> eofbit input \<and> count = int n then
        (let before = stellp tmp in
         case bs_getline (n + 1) newline input tmp of (input, tmp) \<Rightarrow>
           let count = stellp tmp - before in
           if count > int n then throw (EncodingException (name @ '' wrong encoded input''))
           else unwrap_loop n name input count tmp)
      else ret (input, tmp))"

definition decode_lines :: "nat \<Rightarrow> string \<Rightarrow> stream \<Rightarrow> stream \<Rightarrow> (stream \<times> stream) run" where
  "decode_lines n name input output =
     bind_run (unwrap_loop n name input (int n) (new_stream [])) (\<lambda>(input, tmp).
       let (len, tmp) = bs_length tmp in
       bind_run (lift (base64_decode_stream tmp (nat len) output)) (\<lambda>(_, output). ret (input, output)))"

definition cte_decode :: "scheme \<Rightarrow> stream \<Rightarrow> nat \<Rightarrow> stream \<Rightarrow> (stream \<times> stream) run" where
  "cte_decode scheme input len output =
     (case scheme of
        HEX \<Rightarrow> lift (base16_decode_stream input len output)
      | BASE16 \<Rightarrow> lift (base16_decode_stream input len output)
      | BASE32 \<Rightarrow> lift (base32_decode_stream input len output)
      | BASE32HEX \<Rightarrow> lift (base32hex_decode_stream input len output)
      | BASE64 \<Rightarrow> lift (base64_decode_stream input len output)
      | BASE64URL \<Rightarrow> lift (base64url_decode_stream input len output)
      | MIME \<Rightarrow> decode_lines 76 ''MIME'' input output
      | PEM \<Rightarrow> decode_lines 64 ''PEM'' input output)"

section \<open>Wrapping\<close>

text \<open>The text the encoder writes: lines of \<open>n\<close> characters, no newline at the end.\<close>

function wrap :: "nat \<Rightarrow> byte list \<Rightarrow> byte list" where
  "wrap n xs = (if n = 0 \<or> length xs \<le> n then xs else take n xs @ newline # wrap n (drop n xs))"
  by pat_completeness auto
termination by (relation "measure (\<lambda>(_, xs). length xs)") auto

declare wrap.simps [simp del]

lemma wrap_loop_ok:
  assumes "readable tmp" and "appending out" and "0 < n"
  shows "wrap_loop n tmp pre out =
    Some (append ((if pre = n \<and> rest tmp \<noteq> [] then [newline] else []) @ wrap n (rest tmp)) out)"
  using assms
proof (induction "length (rest tmp)" arbitrary: tmp pre out rule: less_induct)
  case less
  obtain bs t1 where r: "sread n tmp = (bs, t1)" by fastforce
  have bs: "bs = take n (rest tmp)" using sread_cases(1) [OF less.prems(1), of n] r by simp
  have gc: "gcount t1 = length bs" by (rule gcount_sread [OF r])
  let ?nl = "if pre = n \<and> rest tmp \<noteq> [] then [newline] else []"
  have nonempty: "0 < length bs \<longleftrightarrow> rest tmp \<noteq> []" using less.prems(3) by (simp add: bs)
  have out: "swrite bs (if pre = n \<and> gcount t1 > 0 then sput newline out else out) = append (?nl @ bs) out"
    using less.prems(2) nonempty by (auto simp: gc)
  have step: "wrap_loop n tmp pre out = wrap_loop n t1 (length bs) (append (?nl @ bs) out)"
    using less.prems(1) r out
    by (subst wrap_loop.simps) (simp add: readable_def good_def Let_def gc)
  show ?case
  proof (cases "n \<le> length (rest tmp)")
    case True
    then have t1: "readable t1" "rest t1 = drop n (rest tmp)" and len: "length bs = n"
      using sread_cases(2) [OF less.prems(1) True] r bs by simp_all
    have "wrap_loop n t1 n (append (?nl @ bs) out) =
        Some (append ((if n = n \<and> rest t1 \<noteq> [] then [newline] else []) @ wrap n (rest t1)) (append (?nl @ bs) out))"
      using True less.prems t1 by (intro less.hyps) simp_all
    moreover have "wrap n (rest tmp) = bs @ (if rest t1 \<noteq> [] then [newline] else []) @ wrap n (rest t1)"
      using True t1(2) bs less.prems(3)
      by (subst wrap.simps) (auto simp: wrap.simps [of n "[]"])
    ultimately show ?thesis using step len by simp
  next
    case False
    then have "eofbit t1" using sread_cases(3) [OF less.prems(1), of n] r by simp
    moreover have "wrap n (rest tmp) = bs" using False bs by (subst wrap.simps) simp
    ultimately show ?thesis using step by (subst (asm) wrap_loop.simps) simp
  qed
qed

section \<open>Unwrapping\<close>

lemma takeWhile_line:
  assumes "newline \<notin> set us"
  shows "takeWhile (\<lambda>b. b \<noteq> newline) (us @ newline # vs) = us" "takeWhile (\<lambda>b. b \<noteq> newline) us = us"
  using assms by (induction us) auto

text \<open>One \<open>getline\<close>: a full line and its newline, or the rest of the input.\<close>

lemma getline_full:
  assumes "readable s" and "appending t" and "rest s = us @ newline # vs" and "newline \<notin> set us"
    and "length us = n" and "0 < n"
  shows "\<exists>s'. bs_getline (n + 1) newline s t = (s', append us t) \<and> readable s' \<and> rest s' = vs"
proof -
  have g: "good s" "gpos s \<le> length (data s)" using assms(1) by (simp_all add: readable_def)
  have r: "drop (gpos s) (data s) = us @ newline # vs" using assms(3) by (simp add: rest_def)
  have "length (drop (gpos s) (data s)) = n + 1 + length vs" using r assms(5) by simp
  then have len: "length (data s) = gpos s + n + 1 + length vs" using g(2) by simp
  let ?s = "s\<lparr>gpos := gpos s + n, gcount := n\<rparr>"
  have fresh: "\<not> eofbit s" "\<not> failbit s" using g(1) by (simp_all add: good_def)
  have line: "sget_line (n + 1) newline s = (us, ?s)"
    using g r assms(4,5,6) len fresh
    by (simp add: sget_line_def Let_def takeWhile_line) (cases s; auto)
  have gs: "readable ?s" using g len by (simp add: readable_def good_def)
  have rs: "rest ?s = newline # vs"
    using r assms(5) by (simp add: rest_def add.commute flip: drop_drop)
  have pk: "speek ?s = (uint newline, advance 0 0 ?s)" by (rule speek_Cons [OF gs rs])
  have g0: "good (advance 0 0 ?s)" and l0: "gpos (advance 0 0 ?s) < length (data (advance 0 0 ?s))"
    using gs len by (simp_all add: readable_def)
  have ign: "signore1 (advance 0 0 ?s) = advance 1 1 ?s"
    using g0 l0 by (simp add: signore1_def advance_def)
  have "bs_getline (n + 1) newline s t = (advance 1 1 ?s, append us t)"
    unfolding bs_getline_def line using assms(2,6) pk ign g fresh
    by (simp add: good_def)
  moreover have "readable (advance 1 1 ?s)" using gs rs by (intro readable_advance) simp_all
  moreover have "rest (advance 1 1 ?s) = vs" using rs by simp
  ultimately show ?thesis by blast
qed

lemma getline_last:
  assumes "readable s" and "appending t" and "newline \<notin> set (rest s)" and "length (rest s) \<le> n" and "0 < n"
  shows "\<exists>s'. bs_getline (n + 1) newline s t = (s', append (rest s) t) \<and> eofbit s'"
proof -
  have g: "good s" "gpos s \<le> length (data s)" using assms(1) by (simp_all add: readable_def)
  let ?s = "s\<lparr>gpos := gpos s + length (rest s), gcount := length (rest s),
              eofbit := True, failbit := (rest s = [])\<rparr>"
  have "length (data s) = gpos s + length (rest s)" using g(2) by (simp add: rest_def)
  then have line: "sget_line (n + 1) newline s = (rest s, ?s)"
    using g assms(4,5) by (simp add: sget_line_def Let_def takeWhile_line(2) [OF assms(3)] flip: rest_def)
  have "bs_getline (n + 1) newline s t = (?s, append (rest s) t)"
    unfolding bs_getline_def line using assms(2) by (simp add: good_def)
  then show ?thesis by auto
qed

lemma stellp_appending [simp]: "appending t \<Longrightarrow> stellp t = int (length (data t))"
  by (simp add: stellp_def appending_def good_def)

lemma unwrap_loop_ok:
  assumes "readable s" and "appending t" and "rest s = wrap n xs" and "newline \<notin> set xs" and "0 < n"
  shows "\<exists>s'. unwrap_loop n name s (int n) t = ret (s', append xs t)"
  using assms
proof (induction "length xs" arbitrary: xs s t rule: less_induct)
  case less
  have ne: "\<not> eofbit s" using less.prems(1) by (simp add: readable_def good_def)
  show ?case
  proof (cases "length xs \<le> n")
    case True
    then have r: "rest s = xs" using less.prems(3) by (simp add: wrap.simps [of n xs])
    obtain s' where s': "bs_getline (n + 1) newline s t = (s', append xs t)" "eofbit s'"
      using getline_last [OF less.prems(1,2)] r True less.prems(4,5) by auto
    have "unwrap_loop n name s (int n) t = unwrap_loop n name s' (int (length xs)) (append xs t)"
      using ne s'(1) True less.prems(2) by (subst unwrap_loop.simps) (simp add: Let_def)
    also have "\<dots> = ret (s', append xs t)" using s'(2) by (subst unwrap_loop.simps) simp
    finally show ?thesis by blast
  next
    case False
    let ?u = "take n xs" and ?v = "drop n xs"
    have r: "rest s = ?u @ newline # wrap n ?v"
      using False less.prems(3,5) by (simp add: wrap.simps [of n xs])
    have nl: "newline \<notin> set ?u" "newline \<notin> set ?v"
      using less.prems(4) by (meson in_set_takeD, meson in_set_dropD)
    have lu: "length ?u = n" using False by simp
    obtain s' where s': "bs_getline (n + 1) newline s t = (s', append ?u t)" "readable s'" "rest s' = wrap n ?v"
      using getline_full [OF less.prems(1,2) r nl(1) lu less.prems(5)] by blast
    have step: "unwrap_loop n name s (int n) t = unwrap_loop n name s' (int n) (append ?u t)"
      using ne s'(1) lu less.prems(2) by (subst unwrap_loop.simps) (simp add: Let_def)
    have lt: "length ?v < length xs" using False less.prems(5) by simp
    obtain s'' where "unwrap_loop n name s' (int n) (append ?u t) = ret (s'', append ?v (append ?u t))"
      using less.hyps [OF lt s'(2) _ s'(3) nl(2) less.prems(5), of "append ?u t"] less.prems(2) by auto
    then show ?thesis using step by simp
  qed
qed

section \<open>Both ways\<close>

lemma newline_not_base64: "newline \<notin> set (base64_encode xs)"
proof -
  have idx: "newline \<notin> set base64_index" "newline \<noteq> PADDING"
    unfolding base64_index_def octets_def newline_def PADDING_def by code_simp+
  obtain vs p where e: "bc_encode base64_index 6 xs = map (\<lambda>v. base64_index ! v) vs @ replicate p PADDING"
    "base64.enc_form xs vs"
    using base64.bc_encode_form by blast
  have "\<forall>v \<in> set vs. base64_index ! v \<in> set base64_index"
    using e(2) base64.alphabet_size by (simp add: base64.enc_form_def)
  then have "set (bc_encode base64_index 6 xs) \<subseteq> set base64_index \<union> {PADDING}" unfolding e(1) by auto
  then show ?thesis using idx by (auto simp: base64_encode_def encode_string_def)
qed

lemma base64_stream_new:
  "\<exists>in'. base64_encode_stream (new_stream xs) (length xs) (new_stream []) =
     (in', append (base64_encode xs) (new_stream []))"
  by (simp add: base64_encode_stream_def read_buffer_ok)

lemma lines_roundtrip:
  assumes "0 < n"
  shows "\<exists>in' out. encode_lines n (new_stream xs) (length xs) (new_stream []) = Some (in', out) \<and>
    (\<exists>in'' o'. decode_lines n name (new_stream (data out)) (new_stream []) = ret (in'', o') \<and> data o' = xs)"
proof -
  let ?e = "base64_encode xs"
  obtain in' where enc: "base64_encode_stream (new_stream xs) (length xs) (new_stream []) =
      (in', append ?e (new_stream []))"
    using base64_stream_new by blast
  have w: "wrap_loop n (append ?e (new_stream [])) 0 (new_stream []) = Some (append (wrap n ?e) (new_stream []))"
    using wrap_loop_ok [of "append ?e (new_stream [])" "new_stream []" n 0] assms by simp
  let ?out = "append (wrap n ?e) (new_stream [])"
  have el: "encode_lines n (new_stream xs) (length xs) (new_stream []) = Some (in', ?out)"
    by (simp add: encode_lines_def enc w)
  obtain s' where u: "unwrap_loop n name (new_stream (wrap n ?e)) (int n) (new_stream []) =
      ret (s', append ?e (new_stream []))"
    using unwrap_loop_ok [of "new_stream (wrap n ?e)" "new_stream []" n ?e name] newline_not_base64 assms by auto
  have dec: "base64_decode ?e = Inr xs"
    by (simp add: base64_decode_def base64_encode_def base64.string_roundtrip)
  have "decode_lines n name (new_stream (data ?out)) (new_stream []) = ret (s', append xs (new_stream []))"
    by (simp add: decode_lines_def u base64_decode_stream_def read_buffer_ok dec)
  then show ?thesis using el by (intro exI [of _ in'] exI [of _ ?out]) auto
qed

lemma stream_roundtrip:
  assumes enc: "\<And>s. es s = (let (buffer, input) = read_buffer (length xs) s in (input, swrite (e buffer) (new_stream [])))"
    and dec: "\<And>s n. ds s n = (let (buffer, input) = read_buffer n s in
        bind_res (d buffer) (\<lambda>decoded. Inr (input, swrite decoded (new_stream []))))"
    and rt: "d (e xs) = Inr xs"
  shows "\<exists>in' out. Some (es (new_stream xs)) = Some (in', out) \<and>
    (\<exists>in'' o'. lift (ds (new_stream (data out)) (length (data out))) = ret (in'', o') \<and> data o' = xs)"
  by (simp add: enc dec read_buffer_ok rt)

section \<open>Properties\<close>

text \<open>C3. Every content transfer encoding, line wrapping included, returns and decodes back to the
  octets it was given.\<close>

theorem cte_roundtrip:
  "\<exists>in' out. cte_encode scheme (new_stream xs) (length xs) (new_stream []) = Some (in', out) \<and>
    (\<exists>in'' o'. cte_decode scheme (new_stream (data out)) (length (data out)) (new_stream []) = ret (in'', o') \<and>
       data o' = xs)"
proof (cases scheme)
  case HEX
  show ?thesis unfolding HEX cte_encode_def cte_decode_def scheme.case
    by (rule stream_roundtrip [where e = base16_encode and d = base16_decode])
      (simp_all add: codec_stream_simps)
next
  case BASE16
  show ?thesis unfolding BASE16 cte_encode_def cte_decode_def scheme.case
    by (rule stream_roundtrip [where e = base16_encode and d = base16_decode])
      (simp_all add: codec_stream_simps)
next
  case BASE32
  show ?thesis unfolding BASE32 cte_encode_def cte_decode_def scheme.case
    by (rule stream_roundtrip [where e = base32_encode and d = base32_decode])
      (simp_all add: codec_stream_simps)
next
  case BASE32HEX
  show ?thesis unfolding BASE32HEX cte_encode_def cte_decode_def scheme.case
    by (rule stream_roundtrip [where e = base32hex_encode and d = base32hex_decode])
      (simp_all add: codec_stream_simps)
next
  case BASE64
  show ?thesis unfolding BASE64 cte_encode_def cte_decode_def scheme.case
    by (rule stream_roundtrip [where e = base64_encode and d = base64_decode])
      (simp_all add: codec_stream_simps)
next
  case BASE64URL
  show ?thesis unfolding BASE64URL cte_encode_def cte_decode_def scheme.case
    by (rule stream_roundtrip [where e = base64url_encode and d = base64url_decode])
      (simp_all add: codec_stream_simps)
next
  case MIME
  show ?thesis unfolding MIME cte_encode_def cte_decode_def scheme.case by (rule lines_roundtrip) simp
next
  case PEM
  show ?thesis unfolding PEM cte_encode_def cte_decode_def scheme.case by (rule lines_roundtrip) simp
qed

end
