(* ===== verification/Polynomial_Arith.thy ===== *)
theory Polynomial_Arith
  imports Zig_Prelude
begin

text \<open>
  \<open>Core/polynomial.cpp\<close>: the unsigned big integer, first part (representation, length, comparison,
  shifts, addition, subtraction).

  A \<open>Polynomial\<close> owns an array of \<open>_length\<close> 32-bit words, least significant first. The model of
  an object is the list of those words; it may have zero words at the top (the code never trims
  a result, \<open>length()\<close> skips them), so several lists stand for one number. \<open>pval\<close> reads the
  number; every operation is shown to commute with it. \<open>polynomial_rep\<close> keeps the two C++ fields
  apart where an operation lets them diverge (\<open>push_back\<close>).
\<close>

type_synonym polynomial = "word_t list"

definition BASE :: nat where
  "BASE = 4294967296"

lemma BASE_pow: "BASE = 2 ^ 32"
  by (simp add: BASE_def)

lemma BASE_gt: "1 < BASE" "0 < BASE" "BASE \<noteq> 0"
  by (simp_all add: BASE_def)

section \<open>The number a word array stands for\<close>

primrec pval :: "polynomial \<Rightarrow> nat" where
  "pval [] = 0"
| "pval (w # ws) = unat w + BASE * pval ws"

lemma unat_less_BASE [simp]: "unat (w :: word_t) < BASE"
  using unsigned_less [of w] by (simp add: BASE_def)

lemma unat_le_BASE: "unat (w :: word_t) \<le> BASE - 1"
  using unat_less_BASE [of w] by linarith

lemma pval_append [val_simps]: "pval (xs @ ys) = pval xs + BASE ^ length xs * pval ys"
  by (induction xs) (simp_all add: algebra_simps)

lemma pval_replicate_0 [simp]: "pval (replicate n 0) = 0"
  by (induction n) simp_all

lemma pval_less: "pval xs < BASE ^ length xs"
proof (induction xs)
  case Nil
  then show ?case by simp
next
  case (Cons w ws)
  have "pval (w # ws) \<le> (BASE - 1) + BASE * pval ws"
    using unat_le_BASE [of w] by simp
  also have "\<dots> < BASE * (pval ws + 1)"
    using BASE_gt(2) by (simp add: algebra_simps)
  also have "\<dots> \<le> BASE * BASE ^ length ws"
    using Cons.IH by (intro mult_le_mono2) simp
  finally show ?case by simp
qed

lemma pval_eq_0_iff: "pval xs = 0 \<longleftrightarrow> (\<forall>w \<in> set xs. w = 0)"
  by (induction xs) (auto simp: BASE_gt unat_eq_0)

lemma pval_take_drop: "pval xs = pval (take k xs) + BASE ^ min (length xs) k * pval (drop k xs)"
  using pval_append [of "take k xs" "drop k xs"] by simp

lemma pval_drop: "pval (drop k xs) = pval xs div BASE ^ k"
proof (cases "k \<le> length xs")
  case True
  then have "pval xs = pval (take k xs) + BASE ^ k * pval (drop k xs)"
    using pval_take_drop [of xs k] by (simp add: min_absorb2)
  moreover have "pval (take k xs) < BASE ^ k"
    using pval_less [of "take k xs"] True by simp
  ultimately show ?thesis using BASE_gt by (simp add: div_mult_self4)
next
  case False
  then have "pval xs < BASE ^ k"
    using less_trans [OF pval_less [of xs] power_strict_increasing [of "length xs" k BASE]] BASE_gt
    by simp
  then show ?thesis using False by simp
qed

section \<open>Digit sums\<close>

text \<open>\<open>at(i, 0)\<close> reads a digit beyond the array as zero, so every number is one digit sum of any
  length from \<open>length()\<close> up; the loops below are proved over these sums.\<close>

definition poly_at :: "polynomial \<Rightarrow> nat \<Rightarrow> word_t \<Rightarrow> word_t" where
  "poly_at xs i value = (if i < length xs then xs ! i else value)"

definition dsum :: "(nat \<Rightarrow> nat) \<Rightarrow> nat \<Rightarrow> nat" where
  "dsum f n = (\<Sum>i<n. f i * BASE ^ i)"

lemma dsum_simps [simp]: "dsum f 0 = 0" "dsum f (Suc n) = dsum f n + f n * BASE ^ n"
  by (simp_all add: dsum_def)

lemma dsum_cong: "(\<And>i. i < n \<Longrightarrow> f i = g i) \<Longrightarrow> dsum f n = dsum g n"
  unfolding dsum_def by (intro sum.cong) auto

lemma pval_dsum: "pval xs = dsum (\<lambda>i. unat (xs ! i)) (length xs)"
proof (induction xs rule: rev_induct)
  case Nil
  then show ?case by simp
next
  case (snoc w ws)
  have "dsum (\<lambda>i. unat ((ws @ [w]) ! i)) (length ws) = dsum (\<lambda>i. unat (ws ! i)) (length ws)"
    by (rule dsum_cong) (simp add: nth_append)
  then show ?case using snoc.IH by (simp add: pval_append)
qed

lemma pval_take_dsum: "k \<le> length xs \<Longrightarrow> pval (take k xs) = dsum (\<lambda>i. unat (xs ! i)) k"
proof -
  assume k: "k \<le> length xs"
  have "dsum (\<lambda>i. unat (take k xs ! i)) k = dsum (\<lambda>i. unat (xs ! i)) k"
    by (rule dsum_cong) simp
  then show ?thesis using k pval_dsum [of "take k xs"] by simp
qed

section \<open>length()\<close>

text \<open>\<open>length()\<close> walks down from the top word to the first non-zero one.\<close>

fun plen_from :: "polynomial \<Rightarrow> nat \<Rightarrow> nat" where
  "plen_from xs 0 = 0"
| "plen_from xs (Suc i) = (if xs ! i \<noteq> 0 then i + 1 else plen_from xs i)"

definition poly_length :: "polynomial \<Rightarrow> nat" where
  "poly_length xs = plen_from xs (length xs)"

lemma plen_from_le: "plen_from xs n \<le> n"
  by (induction n) auto

lemma plen_from_zero: "plen_from xs n \<le> i \<Longrightarrow> i < n \<Longrightarrow> xs ! i = 0"
  by (induction n) (auto simp: less_Suc_eq split: if_splits)

lemma plen_from_top: "0 < plen_from xs n \<Longrightarrow> xs ! (plen_from xs n - 1) \<noteq> 0"
  by (induction n) auto

lemma poly_length_le [simp]: "poly_length xs \<le> length xs"
  by (simp add: poly_length_def plen_from_le)

lemma poly_length_zero: "poly_length xs \<le> i \<Longrightarrow> i < length xs \<Longrightarrow> xs ! i = 0"
  by (auto simp: poly_length_def intro: plen_from_zero)

lemma poly_length_top: "0 < poly_length xs \<Longrightarrow> xs ! (poly_length xs - 1) \<noteq> 0"
  unfolding poly_length_def by (rule plen_from_top)

lemma at_beyond: "poly_length xs \<le> i \<Longrightarrow> poly_at xs i 0 = 0"
  by (simp add: poly_at_def poly_length_zero)

lemma pval_at: "poly_length xs \<le> n \<Longrightarrow> pval xs = dsum (\<lambda>i. unat (poly_at xs i 0)) n"
proof -
  assume n: "poly_length xs \<le> n"
  have stable: "dsum (\<lambda>i. unat (poly_at xs i 0)) (poly_length xs + d)
      = dsum (\<lambda>i. unat (poly_at xs i 0)) (poly_length xs)" for d
    by (induction d) (simp_all add: at_beyond)
  have "pval xs = dsum (\<lambda>i. unat (poly_at xs i 0)) (length xs)"
    unfolding pval_dsum by (rule dsum_cong) (simp add: poly_at_def)
  then show ?thesis
    using stable [of "length xs - poly_length xs"] stable [of "n - poly_length xs"] n by simp
qed

lemma pval_take_poly_length: "poly_length xs \<le> n \<Longrightarrow> pval (take n xs) = pval xs"
proof -
  assume n: "poly_length xs \<le> n"
  have "\<forall>w \<in> set (drop n xs). w = 0"
    using n by (auto simp: in_set_conv_nth poly_length_zero)
  then have "pval (drop n xs) = 0" by (simp add: pval_eq_0_iff)
  then show ?thesis using pval_take_drop [of xs n] by simp
qed

lemma pval_less_poly_length: "pval xs < BASE ^ poly_length xs"
  using pval_less [of "take (poly_length xs) xs"] pval_take_poly_length [of xs "poly_length xs"]
  by simp

lemma pval_top:
  assumes "0 < poly_length xs"
  shows "pval xs = pval (take (poly_length xs - 1) xs)
           + unat (xs ! (poly_length xs - 1)) * BASE ^ (poly_length xs - 1)"
proof -
  let ?k = "poly_length xs - 1"
  have k: "?k < length xs" using assms poly_length_le [of xs] by linarith
  have "take (poly_length xs) xs = take ?k xs @ [xs ! ?k]"
    using k assms take_Suc_conv_app_nth [of ?k xs] by simp
  then have "pval (take (poly_length xs) xs)
      = pval (take ?k xs) + unat (xs ! ?k) * BASE ^ ?k"
    using k by (simp add: pval_append)
  then show ?thesis using pval_take_poly_length [of xs "poly_length xs"] by simp
qed

lemma pval_ge_poly_length: "0 < poly_length xs \<Longrightarrow> BASE ^ (poly_length xs - 1) \<le> pval xs"
proof -
  assume "0 < poly_length xs"
  then have "0 < unat (xs ! (poly_length xs - 1))"
    using poly_length_top by (simp add: unat_gt_0)
  then show ?thesis
    using pval_top [OF \<open>0 < poly_length xs\<close>] by (simp add: trans_le_add2)
qed

lemma poly_length_0_iff: "poly_length xs = 0 \<longleftrightarrow> pval xs = 0"
proof (cases "poly_length xs")
  case 0
  then show ?thesis using pval_less_poly_length [of xs] by simp
next
  case (Suc n)
  then have "BASE ^ n \<le> pval xs" using pval_ge_poly_length [of xs] by simp
  moreover have "0 < BASE ^ n" using BASE_gt by simp
  ultimately show ?thesis using Suc by linarith
qed

lemma poly_length_le_iff: "poly_length xs \<le> n \<longleftrightarrow> pval xs < BASE ^ n"
proof
  assume "poly_length xs \<le> n"
  then show "pval xs < BASE ^ n"
    using pval_less_poly_length [of xs] power_increasing [of "poly_length xs" n BASE] BASE_gt
    by linarith
next
  assume less: "pval xs < BASE ^ n"
  show "poly_length xs \<le> n"
  proof (rule ccontr)
    assume "\<not> poly_length xs \<le> n"
    then have "BASE ^ n \<le> BASE ^ (poly_length xs - 1)" "0 < poly_length xs"
      using BASE_gt by (auto intro: power_increasing)
    then show False using pval_ge_poly_length [of xs] less by linarith
  qed
qed

lemma poly_length_cong: "pval xs = pval ys \<Longrightarrow> poly_length xs = poly_length ys"
  by (metis poly_length_le_iff order_antisym order_refl)

section \<open>Construction and access\<close>

text \<open>The initialiser list is written most significant word first and stored reversed.\<close>

definition poly_of_list :: "word_t list \<Rightarrow> polynomial" where
  "poly_of_list ws = rev ws"

definition poly_fill :: "polynomial \<Rightarrow> word_t \<Rightarrow> polynomial" where
  "poly_fill xs value = replicate (length xs) value"

definition poly_make :: "nat \<Rightarrow> word_t \<Rightarrow> polynomial" where
  "poly_make n value = replicate n value"

definition poly_zero :: polynomial where "poly_zero = poly_of_list [0]"
definition poly_one :: polynomial where "poly_one = poly_of_list [1]"
definition poly_two :: polynomial where "poly_two = poly_of_list [2]"
definition poly_three :: polynomial where "poly_three = poly_of_list [3]"
definition poly_beta :: polynomial where "poly_beta = poly_of_list [1, 0]"

definition from_uint64 :: "u64 \<Rightarrow> polynomial" where
  "from_uint64 value = poly_of_list [ucast (drop_bit 32 value), ucast (value AND 0xFFFFFFFF)]"

definition poly_is_zero :: "polynomial \<Rightarrow> bool" where
  "poly_is_zero xs \<longleftrightarrow> poly_length xs = 0"

definition poly_is_odd :: "polynomial \<Rightarrow> bool" where
  "poly_is_odd xs = (if poly_length xs = 0 then False else xs ! 0 AND 1 \<noteq> 0)"

definition poly_is_even :: "polynomial \<Rightarrow> bool" where
  "poly_is_even xs \<longleftrightarrow> \<not> poly_is_odd xs"

lemma pval_consts [simp, val_simps]:
  "pval poly_zero = 0" "pval poly_one = 1" "pval poly_two = 2" "pval poly_three = 3"
  "pval poly_beta = BASE"
  by (simp_all add: poly_zero_def poly_one_def poly_two_def poly_three_def poly_beta_def
      poly_of_list_def)

lemma unat_ucast_and_mask32: "unat (ucast (v AND 0xFFFFFFFF :: u64) :: word_t) = unat v mod BASE"
proof -
  have "(0xFFFFFFFF :: u64) = mask 32" by (simp add: mask_eq_exp_minus_1)
  then have "v AND 0xFFFFFFFF = take_bit 32 v" by (simp only: take_bit_eq_mask)
  then have "unat (v AND 0xFFFFFFFF :: u64) = take_bit 32 (unat v)"
    by (simp only: unsigned_take_bit_eq)
  then show ?thesis by (simp add: unsigned_ucast_eq BASE_def take_bit_eq_mod)
qed

lemma unat_ucast_high32: "unat (ucast (drop_bit 32 (v :: u64)) :: word_t) = unat v div BASE"
proof -
  have "unat v < 2 ^ LENGTH(64)" by (rule unsigned_less)
  then have "unat v div BASE < BASE"
    by (simp add: BASE_def less_mult_imp_div_less)
  then show ?thesis
    by (simp only: unsigned_ucast_eq unat_drop_bit_eq BASE_def take_bit_eq_mod)
      (simp add: drop_bit_eq_div)
qed

lemma pval_from_uint64 [simp, val_simps]: "pval (from_uint64 v) = unat v"
  by (simp add: from_uint64_def poly_of_list_def unat_ucast_and_mask32 unat_ucast_high32)

lemma poly_is_zero_iff [val_simps]: "poly_is_zero xs \<longleftrightarrow> pval xs = 0"
  by (simp add: poly_is_zero_def poly_length_0_iff)

section \<open>Growing in place\<close>

text \<open>\<open>push_back\<close> allocates and fills \<open>_length + 1\<close> words but leaves \<open>_length\<close> as it was, so the
  new word is never part of the object.\<close>

record polynomial_rep =
  rep_data :: "word_t list"
  rep_length :: nat

definition rep_words :: "polynomial_rep \<Rightarrow> polynomial" where
  "rep_words r = take (rep_length r) (rep_data r)"

definition push_back :: "polynomial_rep \<Rightarrow> word_t \<Rightarrow> polynomial_rep" where
  "push_back r value =
     (if rep_data r \<noteq> [] then r\<lparr>rep_data := take (rep_length r) (rep_data r) @ [value]\<rparr>
      else r\<lparr>rep_data := [value]\<rparr>)"

section \<open>Comparison\<close>

fun cmp_from :: "polynomial \<Rightarrow> polynomial \<Rightarrow> nat \<Rightarrow> int" where
  "cmp_from lhs rhs 0 = 0"
| "cmp_from lhs rhs (Suc i) =
     (if lhs ! i < rhs ! i then -1
      else if lhs ! i > rhs ! i then 1
      else cmp_from lhs rhs i)"

definition poly_cmp :: "polynomial \<Rightarrow> polynomial \<Rightarrow> int" where
  "poly_cmp lhs rhs =
     (let m = poly_length lhs; n = poly_length rhs in
      if m < n then -1
      else if m = n then cmp_from lhs rhs m
      else 1)"

definition poly_eq :: "polynomial \<Rightarrow> polynomial \<Rightarrow> bool" where
  "poly_eq a b \<longleftrightarrow> poly_cmp a b = 0"

definition poly_neq :: "polynomial \<Rightarrow> polynomial \<Rightarrow> bool" where
  "poly_neq a b \<longleftrightarrow> poly_cmp a b \<noteq> 0"

definition poly_less :: "polynomial \<Rightarrow> polynomial \<Rightarrow> bool" where
  "poly_less a b \<longleftrightarrow> poly_cmp a b = -1"

definition poly_greater :: "polynomial \<Rightarrow> polynomial \<Rightarrow> bool" where
  "poly_greater a b \<longleftrightarrow> poly_cmp a b = 1"

definition poly_less_eq :: "polynomial \<Rightarrow> polynomial \<Rightarrow> bool" where
  "poly_less_eq a b \<longleftrightarrow> poly_cmp a b \<noteq> 1"

definition poly_greater_eq :: "polynomial \<Rightarrow> polynomial \<Rightarrow> bool" where
  "poly_greater_eq a b \<longleftrightarrow> poly_cmp a b \<noteq> -1"

lemma dsum_less: "(\<And>i. i < n \<Longrightarrow> f i < BASE) \<Longrightarrow> dsum f n < BASE ^ n"
proof (induction n)
  case 0
  then show ?case by simp
next
  case (Suc n)
  have "dsum f (Suc n) < BASE ^ n + f n * BASE ^ n" using Suc by simp
  also have "\<dots> = (f n + 1) * BASE ^ n" by (simp add: algebra_simps)
  also have "\<dots> \<le> BASE * BASE ^ n"
    using Suc.prems [of n] by (intro mult_le_mono1) simp
  finally show ?case by simp
qed

lemma sgn_int_diff:
  "x < y \<Longrightarrow> sgn (int x - int y) = -1"
  "y < x \<Longrightarrow> sgn (int x - int y) = 1"
  by simp_all

lemma digit_less_step:
  fixes p q x y :: nat
  assumes "x < y" and "p < BASE ^ n"
  shows "p + x * BASE ^ n < q + y * BASE ^ n"
proof -
  have "p + x * BASE ^ n < (x + 1) * BASE ^ n" using assms(2) by (simp add: algebra_simps)
  also have "\<dots> \<le> y * BASE ^ n" using assms(1) by (intro mult_le_mono1) simp
  finally show ?thesis by simp
qed

lemma cmp_from_dsum:
  assumes "n \<le> length a" and "n \<le> length b"
  shows "cmp_from a b n = sgn (int (pval (take n a)) - int (pval (take n b)))"
  using assms
proof (induction n)
  case 0
  then show ?case by simp
next
  case (Suc n)
  have a: "pval (take (Suc n) a) = pval (take n a) + unat (a ! n) * BASE ^ n"
    and b: "pval (take (Suc n) b) = pval (take n b) + unat (b ! n) * BASE ^ n"
    using Suc.prems by (simp_all add: take_Suc_conv_app_nth pval_append)
  have bounds: "pval (take n a) < BASE ^ n" "pval (take n b) < BASE ^ n"
    using pval_less [of "take n a"] pval_less [of "take n b"] Suc.prems by simp_all
  show ?case
  proof (cases "a ! n" "b ! n" rule: linorder_cases)
    case less
    then have "pval (take (Suc n) a) < pval (take (Suc n) b)"
      unfolding a b using bounds by (intro digit_less_step) (simp_all add: word_less_nat_alt)
    then show ?thesis using less by (simp add: sgn_int_diff)
  next
    case equal
    then show ?thesis using Suc by (simp add: a b)
  next
    case greater
    then have "pval (take (Suc n) b) < pval (take (Suc n) a)"
      unfolding a b using bounds by (intro digit_less_step) (simp_all add: word_less_nat_alt)
    moreover have "\<not> a ! n < b ! n" using greater by simp
    ultimately show ?thesis using greater by (simp add: sgn_int_diff)
  qed
qed

lemma poly_cmp_sgn: "poly_cmp a b = sgn (int (pval a) - int (pval b))"
proof (cases "poly_length a" "poly_length b" rule: linorder_cases)
  case less
  then have "pval a < BASE ^ (poly_length b - 1)"
    by (simp flip: poly_length_le_iff)
  then have "pval a < pval b"
    using pval_ge_poly_length [of b] less by linarith
  then show ?thesis using less by (simp add: poly_cmp_def)
next
  case equal
  then show ?thesis
    using cmp_from_dsum [of "poly_length a" a b] pval_take_poly_length [of a] poly_length_le [of b]
      pval_take_poly_length [of b] poly_length_le [of a]
    by (simp add: poly_cmp_def Let_def)
next
  case greater
  then have "pval b < BASE ^ (poly_length a - 1)"
    by (simp flip: poly_length_le_iff)
  then have "pval b < pval a"
    using pval_ge_poly_length [of a] greater by linarith
  then show ?thesis using greater by (simp add: poly_cmp_def)
qed

lemma poly_cmp_iffs [simp, val_simps]:
  "poly_eq a b \<longleftrightarrow> pval a = pval b"
  "poly_neq a b \<longleftrightarrow> pval a \<noteq> pval b"
  "poly_less a b \<longleftrightarrow> pval a < pval b"
  "poly_greater a b \<longleftrightarrow> pval a > pval b"
  "poly_less_eq a b \<longleftrightarrow> pval a \<le> pval b"
  "poly_greater_eq a b \<longleftrightarrow> pval a \<ge> pval b"
  by (auto simp: poly_eq_def poly_neq_def poly_less_def poly_greater_def poly_less_eq_def
      poly_greater_eq_def poly_cmp_sgn sgn_if)

section \<open>Whole-word shifts\<close>

definition poly_shl :: "polynomial \<Rightarrow> nat \<Rightarrow> polynomial" where
  "poly_shl xs count = replicate count 0 @ xs"

definition poly_shr :: "polynomial \<Rightarrow> nat \<Rightarrow> polynomial" where
  "poly_shr xs count = (if length xs > count then drop count xs else [])"

lemma pval_shl [simp, val_simps]: "pval (poly_shl xs n) = pval xs * BASE ^ n"
  by (simp add: poly_shl_def pval_append)

lemma pval_shr [simp, val_simps]: "pval (poly_shr xs n) = pval xs div BASE ^ n"
  using pval_drop [of n xs] by (auto simp: poly_shr_def)

lemma length_shl [simp]: "length (poly_shl xs n) = length xs + n"
  by (simp add: poly_shl_def)

lemma length_shr [simp]: "length (poly_shr xs n) = length xs - n"
  by (simp add: poly_shr_def)

section \<open>Addition\<close>

text \<open>The column sum is an \<open>int64_t\<close> of at most \<open>2 * BASE - 1\<close>: it is modelled as a natural number.\<close>

definition add_step :: "polynomial \<Rightarrow> polynomial \<Rightarrow> nat \<Rightarrow> polynomial \<times> bool \<Rightarrow> polynomial \<times> bool" where
  "add_step a b i st = (case st of (result, carry) \<Rightarrow>
     (let sum = unat (poly_at a i 0) + unat (poly_at b i 0) + of_bool carry
      in (result[i := word_of_nat (sum mod BASE)], sum > BASE - 1)))"

definition poly_add :: "polynomial \<Rightarrow> polynomial \<Rightarrow> polynomial" where
  "poly_add a b =
     (let mx = max (poly_length a) (poly_length b) in
      case for_loop mx (add_step a b) (poly_make (mx + 1) 0, False) of
        (result, carry) \<Rightarrow> if carry then result[mx := 1] else result)"

lemma unat_word_of_nat_mod [simp]: "unat (word_of_nat (n mod BASE) :: word_t) = n mod BASE"
  by (simp add: unat_of_nat BASE_def)

lemma unat_word_of_nat_lt: "n < BASE \<Longrightarrow> unat (word_of_nat n :: word_t) = n"
  using unat_word_of_nat_mod [of n] by simp

lemma dsum_update:
  "n \<le> i \<Longrightarrow> i < length r \<Longrightarrow> dsum (\<lambda>j. unat (r[i := w] ! j)) n = dsum (\<lambda>j. unat (r ! j)) n"
  by (rule dsum_cong) simp

definition add_inv :: "polynomial \<Rightarrow> polynomial \<Rightarrow> nat \<Rightarrow> nat \<Rightarrow> polynomial \<times> bool \<Rightarrow> bool" where
  "add_inv a b n i st = (case st of (r, c) \<Rightarrow>
     length r = n \<and> (\<forall>j\<ge>i. j < n \<longrightarrow> r ! j = 0) \<and>
     dsum (\<lambda>j. unat (r ! j)) i + of_bool c * BASE ^ i
       = dsum (\<lambda>j. unat (poly_at a j 0)) i + dsum (\<lambda>j. unat (poly_at b j 0)) i)"

lemma add_carry_split:
  assumes "s < 2 * BASE"
  shows "s mod BASE + of_bool (s > BASE - 1) * BASE = s"
proof (cases "s < BASE")
  case True
  then show ?thesis by auto
next
  case False
  then have "s mod BASE = s - BASE" using assms by (simp add: mod_if)
  then show ?thesis using False BASE_gt(2) by simp
qed

lemma add_step_inv:
  assumes i: "i < n" and inv: "add_inv a b n i st"
  shows "add_inv a b n (Suc i) (add_step a b i st)"
proof -
  obtain r c where st: "st = (r, c)" by (cases st)
  define s where "s = unat (poly_at a i 0) + unat (poly_at b i 0) + of_bool c"
  have "of_bool c \<le> (1 :: nat)" by simp
  then have "s < 2 * BASE"
    using unat_less_BASE [of "poly_at a i 0"] unat_less_BASE [of "poly_at b i 0"]
    unfolding s_def by linarith
  note split = add_carry_split [OF this]
  have "(s mod BASE) * BASE ^ i + of_bool (s > BASE - 1) * BASE ^ Suc i
      = (s mod BASE + of_bool (s > BASE - 1) * BASE) * BASE ^ i"
    by (simp add: algebra_simps)
  then have "(s mod BASE) * BASE ^ i + of_bool (s > BASE - 1) * BASE ^ Suc i = s * BASE ^ i"
    by (simp only: split)
  moreover have "s * BASE ^ i = unat (poly_at a i 0) * BASE ^ i + unat (poly_at b i 0) * BASE ^ i
      + of_bool c * BASE ^ i"
    by (simp only: s_def add_mult_distrib)
  moreover have step: "add_step a b i (r, c) = (r[i := word_of_nat (s mod BASE)], s > BASE - 1)"
    by (simp only: add_step_def s_def Let_def prod.case)
  moreover have "dsum (\<lambda>j. unat (r[i := word_of_nat (s mod BASE)] ! j)) (Suc i)
      = dsum (\<lambda>j. unat (r ! j)) i + (s mod BASE) * BASE ^ i"
    using inv i by (simp add: add_inv_def st dsum_update)
  ultimately show ?thesis
    using inv i unfolding add_inv_def st step prod.case dsum_simps by simp
qed

lemma length_add_loop: "length (fst (for_loop n (add_step a b) st)) = length (fst st)"
  by (induction n) (auto simp: add_step_def Let_def split: prod.splits)

lemma poly_add_spec:
  "length (poly_add a b) = max (poly_length a) (poly_length b) + 1 \<and>
   pval (poly_add a b) = pval a + pval b"
proof -
  let ?m = "max (poly_length a) (poly_length b)"
  obtain r c where loop: "for_loop ?m (add_step a b) (poly_make (?m + 1) 0, False) = (r, c)"
    by fastforce
  have "add_inv a b (?m + 1) ?m (for_loop ?m (add_step a b) (poly_make (?m + 1) 0, False))"
  proof (rule for_loop_inv [where P = "add_inv a b (?m + 1)"])
    show "add_inv a b (?m + 1) 0 (poly_make (?m + 1) 0, False)"
      by (simp add: add_inv_def poly_make_def del: replicate_Suc)
    show "add_inv a b (?m + 1) (Suc i) (add_step a b i t)"
      if "i < ?m" "add_inv a b (?m + 1) i t" for i t
      using that by (intro add_step_inv) simp_all
  qed
  then have len: "length r = ?m + 1" and top: "r ! ?m = 0"
    and eq: "dsum (\<lambda>j. unat (r ! j)) ?m + of_bool c * BASE ^ ?m = pval a + pval b"
    using pval_at [of a ?m] pval_at [of b ?m] unfolding loop add_inv_def prod.case
    by simp_all
  have "pval (r[?m := w]) = dsum (\<lambda>j. unat (r ! j)) ?m + unat w * BASE ^ ?m" for w
    using len by (simp add: pval_dsum dsum_update)
  then have "pval (if c then r[?m := 1] else r[?m := 0]) = pval a + pval b"
    using eq by (cases c) simp_all
  moreover have "r[?m := 0] = r" using top by (metis list_update_id)
  ultimately have "pval (if c then r[?m := 1] else r) = pval a + pval b" by (cases c) simp_all
  then show ?thesis using len loop by (simp add: poly_add_def Let_def)
qed

lemma pval_add [simp, val_simps]: "pval (poly_add a b) = pval a + pval b"
  and length_add: "length (poly_add a b) = max (poly_length a) (poly_length b) + 1"
  using poly_add_spec by simp_all

section \<open>Subtraction\<close>

definition sub_step :: "polynomial \<Rightarrow> polynomial \<Rightarrow> nat \<Rightarrow> polynomial \<times> bool \<Rightarrow> polynomial \<times> bool" where
  "sub_step a b i st = (case st of (result, borrow) \<Rightarrow>
     (let sum = int (unat (poly_at a i 0)) - int (unat (poly_at b i 0)) - of_bool borrow
      in (result[i := word_of_int (if sum < 0 then int BASE + sum else sum mod int BASE)], sum < 0)))"

definition poly_sub :: "polynomial \<Rightarrow> polynomial \<Rightarrow> polynomial result" where
  "poly_sub a b =
     (let mx = max (poly_length a) (poly_length b) in
      case for_loop mx (sub_step a b) (poly_make mx 0, False) of
        (result, borrow) \<Rightarrow>
          if borrow then Inl (ArithmeticException ''subtraction underflow'') else Inr result)"

definition sub_inv :: "polynomial \<Rightarrow> polynomial \<Rightarrow> nat \<Rightarrow> nat \<Rightarrow> polynomial \<times> bool \<Rightarrow> bool" where
  "sub_inv a b n i st = (case st of (r, c) \<Rightarrow>
     length r = n \<and>
     int (dsum (\<lambda>j. unat (r ! j)) i) - of_bool c * int BASE ^ i
       = int (dsum (\<lambda>j. unat (poly_at a j 0)) i) - int (dsum (\<lambda>j. unat (poly_at b j 0)) i))"

lemma sub_step_inv:
  assumes i: "i < n" and inv: "sub_inv a b n i st"
  shows "sub_inv a b n (Suc i) (sub_step a b i st)"
proof -
  obtain r c where st: "st = (r, c)" by (cases st)
  define s where "s = int (unat (poly_at a i 0)) - int (unat (poly_at b i 0)) - of_bool c"
  define d where "d = (if s < 0 then int BASE + s else s mod int BASE)"
  have "0 \<le> (of_bool c :: int)" "of_bool c \<le> (1 :: int)" by simp_all
  then have s: "- int BASE \<le> s \<and> s < int BASE"
    using unat_less_BASE [of "poly_at a i 0"] unat_less_BASE [of "poly_at b i 0"]
    unfolding s_def by linarith
  then have d: "d = s + of_bool (s < 0) * int BASE" "0 \<le> d" "d < int BASE"
    by (auto simp: d_def)
  have ud: "int (unat (word_of_int d :: word_t)) = d"
    using d(2,3) by (simp add: unsigned_of_int BASE_def take_bit_eq_mod del: d_def)
  have "d * int BASE ^ i - of_bool (s < 0) * int BASE ^ Suc i = s * int BASE ^ i"
    by (simp add: d(1) algebra_simps)
  moreover have "s * int BASE ^ i = int (unat (poly_at a i 0)) * int BASE ^ i
      - int (unat (poly_at b i 0)) * int BASE ^ i - of_bool c * int BASE ^ i"
    by (simp only: s_def left_diff_distrib)
  moreover have step: "sub_step a b i (r, c) = (r[i := word_of_int d], s < 0)"
    by (simp only: sub_step_def s_def d_def Let_def prod.case)
  moreover have "int (dsum (\<lambda>j. unat (r[i := word_of_int d] ! j)) (Suc i))
      = int (dsum (\<lambda>j. unat (r ! j)) i) + d * int BASE ^ i"
    using inv i ud by (simp only: sub_inv_def st prod.case dsum_simps)
      (simp add: dsum_update)
  ultimately show ?thesis
    using inv unfolding sub_inv_def st step prod.case length_list_update dsum_simps(2)
      of_nat_add of_nat_mult of_nat_power by simp
qed

lemma poly_sub_cases:
  "poly_sub a b = (if pval a < pval b then Inl (ArithmeticException ''subtraction underflow'')
     else Inr (THE r. poly_sub a b = Inr r))" and
  poly_sub_value: "poly_sub a b = Inr r \<Longrightarrow> pval r = pval a - pval b \<and> pval b \<le> pval a
     \<and> length r = max (poly_length a) (poly_length b)"
proof -
  let ?m = "max (poly_length a) (poly_length b)"
  obtain r c where loop: "for_loop ?m (sub_step a b) (poly_make ?m 0, False) = (r, c)"
    by fastforce
  have "sub_inv a b ?m ?m (for_loop ?m (sub_step a b) (poly_make ?m 0, False))"
  proof (rule for_loop_inv [where P = "sub_inv a b ?m"])
    show "sub_inv a b ?m 0 (poly_make ?m 0, False)"
      by (simp add: sub_inv_def poly_make_def)
  qed (rule sub_step_inv)
  then have len: "length r = ?m"
    and "int (dsum (\<lambda>j. unat (r ! j)) ?m) - of_bool c * int BASE ^ ?m = int (pval a) - int (pval b)"
    using pval_at [of a ?m] pval_at [of b ?m] by (simp_all add: loop sub_inv_def)
  then have eq: "int (pval r) - of_bool c * int BASE ^ ?m = int (pval a) - int (pval b)"
    by (simp add: pval_dsum)
  have "pval r < BASE ^ ?m" using pval_less [of r] len by simp
  then have r: "int (pval r) < int BASE ^ ?m"
    unfolding of_nat_power [symmetric] by (simp only: of_nat_less_iff)
  have c: "c \<longleftrightarrow> pval a < pval b"
  proof (cases c)
    case True
    with eq have "int (pval r) - int BASE ^ ?m = int (pval a) - int (pval b)" by (simp only: of_bool_eq)
    with r show ?thesis using True by linarith
  qed (use eq in simp)
  show "poly_sub a b = (if pval a < pval b then Inl (ArithmeticException ''subtraction underflow'')
     else Inr (THE r. poly_sub a b = Inr r))"
    using loop c by (simp add: poly_sub_def Let_def)
  show "poly_sub a b = Inr r' \<Longrightarrow> pval r' = pval a - pval b \<and> pval b \<le> pval a
     \<and> length r' = ?m" for r'
    using loop c eq len by (auto simp: poly_sub_def Let_def split: if_splits)
qed

lemma poly_sub_ok:
  assumes "pval b \<le> pval a"
  obtains r where "poly_sub a b = Inr r" "pval r = pval a - pval b"
    "length r = max (poly_length a) (poly_length b)"
  using assms poly_sub_cases [of a b] poly_sub_value by (metis not_less)

lemma poly_sub_underflow:
  "pval a < pval b \<Longrightarrow> poly_sub a b = Inl (ArithmeticException ''subtraction underflow'')"
  using poly_sub_cases [of a b] by simp

section \<open>Properties\<close>

text \<open>\<open>operator+\<close> adds, into one word more than the longer operand.\<close>

theorem poly_add_correct:
  "pval (poly_add a b) = pval a + pval b \<and> length (poly_add a b) = max (poly_length a) (poly_length b) + 1"
  using poly_add_spec [of a b] by simp

text \<open>\<open>operator-\<close> subtracts exactly when the difference is not negative and throws
  \<open>subtraction underflow\<close> otherwise, on all operands.\<close>

theorem poly_sub_correct:
  "case poly_sub a b of
     Inr r \<Rightarrow> pval b \<le> pval a \<and> pval r = pval a - pval b
   | Inl e \<Rightarrow> pval a < pval b \<and> e = ArithmeticException ''subtraction underflow''"
proof (cases "pval b \<le> pval a")
  case True
  then obtain r where "poly_sub a b = Inr r" "pval r = pval a - pval b" by (rule poly_sub_ok)
  then show ?thesis using True by simp
next
  case False
  then show ?thesis using poly_sub_underflow [of a b] by simp
qed

text \<open>The comparison is the order of the numbers, whatever leading zero words the operands carry.\<close>

theorem poly_cmp_correct: "poly_cmp a b = sgn (int (pval a) - int (pval b))"
  by (rule poly_cmp_sgn)

text \<open>\<open>push_back\<close> copies the words and writes the new one, but never counts it: the number the
  object denotes is unchanged.\<close>

theorem push_back_no_effect:
  assumes "rep_length r \<le> length (rep_data r)"
  shows "rep_words (push_back r value) = rep_words r"
  using assms by (auto simp: rep_words_def push_back_def)

end
