(* ===== verification/Polynomial_Mul.thy ===== *)
theory Polynomial_Mul
  imports Polynomial_Arith
begin

text \<open>
  \<open>Core/polynomial.cpp\<close>, second part: multiplication. \<open>operator*\<close> takes the schoolbook product
  below \<open>KARATSUBA_THRESHOLD\<close> words and Karatsuba's above it, padding the shorter operand.

  The inner accumulation of \<open>_naive_mul\<close> is kept in \<open>uint64_t\<close> (\<open>u64\<close>, which wraps), and shown
  never to wrap. Reads through \<open>_data\<close> go through \<open>slice\<close>, so that a result \<open>Inr\<close> also says every
  read was inside its array; subtraction inside Karatsuba can throw, and is shown never to.
\<close>

definition KARATSUBA_THRESHOLD :: nat where
  "KARATSUBA_THRESHOLD = 128"

definition u64_BASE :: u64 where
  "u64_BASE = 0x100000000"

section \<open>Schoolbook multiplication\<close>

definition mul_inner ::
  "polynomial \<Rightarrow> polynomial \<Rightarrow> nat \<Rightarrow> nat \<Rightarrow> polynomial \<times> u64 \<Rightarrow> polynomial \<times> u64" where
  "mul_inner lhs rhs i j st = (case st of (result, carry) \<Rightarrow>
     (let sum = ucast (lhs ! i) * ucast (rhs ! j) + ucast (result ! (i + j)) + carry
      in (result[i + j := ucast (sum mod u64_BASE)], sum div u64_BASE)))"

definition mul_outer :: "polynomial \<Rightarrow> polynomial \<Rightarrow> nat \<Rightarrow> nat \<Rightarrow> polynomial \<Rightarrow> polynomial" where
  "mul_outer lhs rhs n i result =
     (case for_loop n (mul_inner lhs rhs i) (result, 0) of
        (result, carry) \<Rightarrow> result[n + i := ucast carry])"

definition naive_mul :: "polynomial \<Rightarrow> polynomial \<Rightarrow> nat \<Rightarrow> nat \<Rightarrow> polynomial result" where
  "naive_mul lhs rhs m n =
     bind_res (slice lhs 0 m) (\<lambda>a.
     bind_res (slice rhs 0 n) (\<lambda>b.
       Inr (for_loop m (mul_outer a b n) (poly_make (m + n) 0))))"

text \<open>One step of the inner loop: the 64-bit column sum is exact.\<close>

lemma unat_ucast_word [simp]: "unat (ucast (w :: word_t) :: u64) = unat w"
  by (simp add: unsigned_ucast_eq take_bit_nat_eq_self_iff less_le_trans [OF unat_less_BASE] BASE_def)

lemma unat_u64_BASE [simp]: "unat u64_BASE = BASE"
  by (simp add: u64_BASE_def BASE_def)

lemma unat_ucast_small: "unat (c :: u64) < BASE \<Longrightarrow> unat (ucast c :: word_t) = unat c"
  by (simp add: unsigned_ucast_eq take_bit_nat_eq_self_iff BASE_def)

lemma column_bound:
  assumes "x < BASE" "y < BASE" "r < BASE" "c < BASE"
  shows "x * y + r + c < BASE * BASE"
proof -
  have "x * y \<le> (BASE - 1) * (BASE - 1)" using assms by (intro mult_le_mono) linarith+
  moreover have "(BASE - 1) * (BASE - 1) + 2 * (BASE - 1) + 1 = BASE * BASE"
    by (simp add: BASE_def)
  ultimately show ?thesis using assms by linarith
qed

lemma column_sum_exact:
  fixes x y r :: word_t and carry :: u64
  assumes "unat carry < BASE"
  shows "unat (ucast x * ucast y + ucast r + carry :: u64) = unat x * unat y + unat r + unat carry"
proof -
  have "unat x * unat y + unat r + unat carry < BASE * BASE"
    using assms by (intro column_bound) simp_all
  then have bound: "unat x * unat y + unat r + unat carry < 2 ^ LENGTH(64)" by (simp add: BASE_def)
  have "unat (ucast x * ucast y :: u64) = unat x * unat y"
    using bound by (subst unat_mult_lem [THEN iffD1]) simp_all
  moreover have "unat (ucast x * ucast y + ucast r :: u64) = unat x * unat y + unat r"
    using bound calculation by (subst unat_add_lem [THEN iffD1]) simp_all
  ultimately show ?thesis
    using bound by (subst unat_add_lem [THEN iffD1]) simp_all
qed

lemma mul_inner_step:
  assumes carry: "unat carry < BASE" and i: "i + j < length r"
    and step: "mul_inner a b i j (r, carry) = (r', carry')"
  shows "unat carry' < BASE" and "length r' = length r"
    and "r' = r[i + j := r' ! (i + j)]"
    and "unat (r' ! (i + j)) + BASE * unat carry'
           = unat (a ! i) * unat (b ! j) + unat (r ! (i + j)) + unat carry"
proof -
  define s :: u64 where "s = ucast (a ! i) * ucast (b ! j) + ucast (r ! (i + j)) + carry"
  have s: "unat s = unat (a ! i) * unat (b ! j) + unat (r ! (i + j)) + unat carry"
    unfolding s_def by (rule column_sum_exact [OF carry])
  have r': "r' = r[i + j := ucast (s mod u64_BASE)]" and c': "carry' = s div u64_BASE"
    using step by (simp_all add: mul_inner_def s_def Let_def)
  have "unat s < BASE * BASE" unfolding s using carry by (intro column_bound) simp_all
  then show "unat carry' < BASE" by (simp add: c' unat_div less_mult_imp_div_less)
  show "length r' = length r" by (simp add: r')
  show "r' = r[i + j := r' ! (i + j)]" using i by (simp add: r')
  have "unat (r' ! (i + j)) = unat s mod BASE"
    using i BASE_gt by (simp add: r' unat_ucast_small unat_mod)
  then show "unat (r' ! (i + j)) + BASE * unat carry'
      = unat (a ! i) * unat (b ! j) + unat (r ! (i + j)) + unat carry"
    by (simp add: c' unat_div s [symmetric] mod_mult_div_eq)
qed

lemma pval_update:
  "k < length r \<Longrightarrow> pval (r[k := w]) + unat (r ! k) * BASE ^ k = pval r + unat w * BASE ^ k"
proof (induction r arbitrary: k)
  case Nil
  then show ?case by simp
next
  case (Cons x r)
  show ?case
  proof (cases k)
    case 0
    then show ?thesis by simp
  next
    case (Suc l)
    then have "pval (r[l := w]) + unat (r ! l) * BASE ^ l = pval r + unat w * BASE ^ l"
      using Cons by simp
    then have "BASE * (pval (r[l := w]) + unat (r ! l) * BASE ^ l)
        = BASE * (pval r + unat w * BASE ^ l)" by (simp only:)
    then show ?thesis using Suc by (simp add: algebra_simps)
  qed
qed

definition mul_inner_inv ::
  "polynomial \<Rightarrow> polynomial \<Rightarrow> polynomial \<Rightarrow> nat \<Rightarrow> nat \<Rightarrow> polynomial \<times> u64 \<Rightarrow> bool" where
  "mul_inner_inv r0 a b i j st = (case st of (r, c) \<Rightarrow>
     length r = length r0 \<and> unat c < BASE \<and>
     pval r + unat c * BASE ^ (i + j)
       = pval r0 + unat (a ! i) * BASE ^ i * dsum (\<lambda>j. unat (b ! j)) j \<and>
     (\<forall>k\<ge>i + j. k < length r0 \<longrightarrow> r ! k = r0 ! k))"

lemma mul_inner_inv_step:
  assumes j: "i + j < length r0" and inv: "mul_inner_inv r0 a b i j st"
  shows "mul_inner_inv r0 a b i (Suc j) (mul_inner a b i j st)"
proof -
  obtain r c where st: "st = (r, c)" by (cases st)
  obtain r' c' where step: "mul_inner a b i j (r, c) = (r', c')" by fastforce
  have len: "length r = length r0" and c: "unat c < BASE"
    and eq: "pval r + unat c * BASE ^ (i + j)
       = pval r0 + unat (a ! i) * BASE ^ i * dsum (\<lambda>j. unat (b ! j)) j"
    and same: "\<forall>k\<ge>i + j. k < length r0 \<longrightarrow> r ! k = r0 ! k"
    using inv by (auto simp: mul_inner_inv_def st)
  note facts = mul_inner_step [OF c _ step, unfolded len, OF j]
  let ?P = "BASE ^ (i + j)" and ?d = "unat (r' ! (i + j))"
  have "(?d + BASE * unat c') * ?P
      = (unat (a ! i) * unat (b ! j) + unat (r ! (i + j)) + unat c) * ?P"
    by (simp only: facts(4))
  then have col: "?d * ?P + unat c' * BASE ^ (i + Suc j)
      = unat (a ! i) * unat (b ! j) * ?P + unat (r ! (i + j)) * ?P + unat c * ?P"
    by (simp add: algebra_simps)
  have upd: "pval r' + unat (r ! (i + j)) * ?P = pval r + ?d * ?P"
    using pval_update [of "i + j" r "r' ! (i + j)"] facts(3) len j by simp
  have prodterm: "unat (a ! i) * BASE ^ i * (unat (b ! j) * BASE ^ j) = unat (a ! i) * unat (b ! j) * ?P"
    by (simp add: power_add)
  have "pval r' + unat c' * BASE ^ (i + Suc j)
      = pval r0 + unat (a ! i) * BASE ^ i * dsum (\<lambda>j. unat (b ! j)) (Suc j)"
    using col upd eq unfolding dsum_simps(2) add_mult_distrib2 prodterm by linarith
  moreover have "\<forall>k\<ge>i + Suc j. k < length r0 \<longrightarrow> r' ! k = r0 ! k"
    using same facts(3) by (metis add_Suc_right Suc_leD nth_list_update_neq not_less_eq_eq)
  ultimately show ?thesis
    using facts(1,2) by (simp add: mul_inner_inv_def st step)
qed

definition mul_outer_inv :: "polynomial \<Rightarrow> polynomial \<Rightarrow> nat \<Rightarrow> nat \<Rightarrow> nat \<Rightarrow> polynomial \<Rightarrow> bool" where
  "mul_outer_inv a b m n i r \<longleftrightarrow>
     length r = m + n \<and> (\<forall>k\<ge>n + i. k < m + n \<longrightarrow> r ! k = 0) \<and>
     pval r = dsum (\<lambda>i. unat (a ! i)) i * dsum (\<lambda>j. unat (b ! j)) n"

lemma mul_outer_inv_step:
  assumes i: "i < m" and inv: "mul_outer_inv a b m n i r"
  shows "mul_outer_inv a b m n (Suc i) (mul_outer a b n i r)"
proof -
  have len: "length r = m + n" and zero: "\<forall>k\<ge>n + i. k < m + n \<longrightarrow> r ! k = 0"
    and val: "pval r = dsum (\<lambda>i. unat (a ! i)) i * dsum (\<lambda>j. unat (b ! j)) n"
    using inv by (auto simp: mul_outer_inv_def)
  obtain r' c where loop: "for_loop n (mul_inner a b i) (r, 0) = (r', c)" by fastforce
  have "mul_inner_inv r a b i n (for_loop n (mul_inner a b i) (r, 0))"
  proof (rule for_loop_inv [where P = "mul_inner_inv r a b i"])
    show "mul_inner_inv r a b i 0 (r, 0)" by (simp add: mul_inner_inv_def BASE_gt)
    show "mul_inner_inv r a b i (Suc j) (mul_inner a b i j t)"
      if "j < n" "mul_inner_inv r a b i j t" for j t
      using that i len by (intro mul_inner_inv_step) simp_all
  qed
  then have len': "length r' = m + n" and c: "unat c < BASE"
    and eq: "pval r' + unat c * BASE ^ (n + i)
       = pval r + unat (a ! i) * BASE ^ i * dsum (\<lambda>j. unat (b ! j)) n"
    and same: "\<forall>k\<ge>n + i. k < m + n \<longrightarrow> r' ! k = r ! k"
    by (auto simp: loop mul_inner_inv_def len add.commute)
  have out: "mul_outer a b n i r = r'[n + i := ucast c]" by (simp add: mul_outer_def loop)
  have "r' ! (n + i) = 0" using same zero i by simp
  then have "pval (r'[n + i := ucast c]) = pval r' + unat c * BASE ^ (n + i)"
    using pval_update [of "n + i" r' "ucast c"] len' i c by (simp add: unat_ucast_small)
  then have "pval (mul_outer a b n i r)
      = dsum (\<lambda>i. unat (a ! i)) (Suc i) * dsum (\<lambda>j. unat (b ! j)) n"
    unfolding out eq val by (simp add: add_mult_distrib)
  moreover have "\<forall>k\<ge>n + Suc i. k < m + n \<longrightarrow> mul_outer a b n i r ! k = 0"
    using same zero unfolding out by auto
  ultimately show ?thesis using len' by (simp add: mul_outer_inv_def out)
qed

lemma naive_mul_ok:
  assumes "m \<le> length a" and "n \<le> length b"
  obtains c where "naive_mul a b m n = Inr c" "length c = m + n"
    "pval c = pval (take m a) * pval (take n b)"
proof -
  let ?a = "take m a" and ?b = "take n b"
  let ?c = "for_loop m (mul_outer ?a ?b n) (poly_make (m + n) 0)"
  have "mul_outer_inv ?a ?b m n m ?c"
  proof (rule for_loop_inv [where P = "mul_outer_inv ?a ?b m n"])
    show "mul_outer_inv ?a ?b m n 0 (poly_make (m + n) 0)"
      by (simp add: mul_outer_inv_def poly_make_def)
  qed (rule mul_outer_inv_step)
  moreover have "naive_mul a b m n = Inr ?c"
    using assms by (simp add: naive_mul_def)
  moreover have "pval ?a = dsum (\<lambda>i. unat (?a ! i)) m" "pval ?b = dsum (\<lambda>i. unat (?b ! i)) n"
    using assms pval_dsum [of ?a] pval_dsum [of ?b] by (simp_all add: min_absorb2)
  ultimately show ?thesis using that by (simp add: mul_outer_inv_def)
qed

section \<open>Karatsuba multiplication\<close>

lemma poly_length_add_le:
  "length x \<le> k \<Longrightarrow> length y \<le> k \<Longrightarrow> poly_length (poly_add x y) \<le> k + 1"
  using poly_length_le [of "poly_add x y"] poly_length_le [of x] poly_length_le [of y]
  unfolding length_add by linarith

text \<open>\<open>_karatsuba_mul\<close> and \<open>operator*\<close> call each other: Karatsuba's middle product goes through the
  operator. The measure counts the words of the operands; it falls because the half sums have at
  most \<open>k0 + 1\<close> significant words, which is below \<open>n\<close> from the threshold on.\<close>

function (sequential) karatsuba_mul :: "polynomial \<Rightarrow> polynomial \<Rightarrow> nat \<Rightarrow> polynomial result"
  and poly_mul :: "polynomial \<Rightarrow> polynomial \<Rightarrow> polynomial result" where
  "karatsuba_mul lhs rhs n =
     (if n < KARATSUBA_THRESHOLD then naive_mul lhs rhs n n
      else
        (let k1 = n div 2; k0 = n - k1 in
         bind_res (slice lhs k0 k1) (\<lambda>x1.
         bind_res (slice lhs 0 k0) (\<lambda>x0.
         bind_res (slice rhs k0 k1) (\<lambda>y1.
         bind_res (slice rhs 0 k0) (\<lambda>y0.
         bind_res (karatsuba_mul x1 y1 k1) (\<lambda>z2.
         bind_res (karatsuba_mul x0 y0 k0) (\<lambda>z0.
         bind_res (poly_mul (poly_add x1 x0) (poly_add y1 y0)) (\<lambda>p.
         bind_res (poly_sub p z2) (\<lambda>q.
         bind_res (poly_sub q z0) (\<lambda>z1.
           Inr (poly_add (poly_add (poly_shl z2 (k0 * 2)) (poly_shl z1 k0)) z0)))))))))))) "
| "poly_mul a b =
     (let m = poly_length a; n = poly_length b in
      if m = 0 \<or> n = 0 then Inr []
      else if m < KARATSUBA_THRESHOLD \<or> n < KARATSUBA_THRESHOLD then naive_mul a b m n
      else if m < n then
        bind_res (karatsuba_mul (poly_shl a (n - m)) b n) (\<lambda>c. Inr (poly_shr c (n - m)))
      else if m > n then
        bind_res (karatsuba_mul a (poly_shl b (m - n)) m) (\<lambda>c. Inr (poly_shr c (m - n)))
      else karatsuba_mul a b n)"
  by pat_completeness auto

termination
proof (relation "measure (\<lambda>x. case x of Inl (lhs, rhs, n) \<Rightarrow> 2 * n
         | Inr (a, b) \<Rightarrow> 2 * max (poly_length a) (poly_length b) + 1)", goal_cases)
  case (4 lhs rhs n k1 k0 x1 x0 y1 y0 z2 z0)
  have k0: "k1 \<le> k0" "k0 + 1 < n" "2 * (k0 + 1) + 1 < 2 * n"
    using 4(1-3) by (auto simp: KARATSUBA_THRESHOLD_def)
  have "length x1 = k1" "length x0 = k0" "length y1 = k1" "length y0 = k0"
    using 4 by (auto dest: slice_length)
  then have "poly_length (poly_add x1 x0) \<le> k0 + 1" "poly_length (poly_add y1 y0) \<le> k0 + 1"
    using k0(1) poly_length_add_le [of x1 k0 x0] poly_length_add_le [of y1 k0 y0] by simp_all
  then show ?case using k0 by simp
qed (auto simp: KARATSUBA_THRESHOLD_def)

declare karatsuba_mul.simps [simp del] poly_mul.simps [simp del]

definition yields :: "polynomial result \<Rightarrow> nat \<Rightarrow> bool" where
  "yields r v \<longleftrightarrow> (\<exists>c. r = Inr c \<and> pval c = v)"

lemma yieldsI: "r = Inr c \<Longrightarrow> pval c = v \<Longrightarrow> yields r v"
  by (auto simp: yields_def)

lemma yields_bind:
  assumes "yields r v" and "\<And>c. r = Inr c \<Longrightarrow> pval c = v \<Longrightarrow> yields (f c) w"
  shows "yields (bind_res r f) w"
  using assms by (auto simp: yields_def)

lemma yields_Inr [simp]: "yields (Inr c) v \<longleftrightarrow> pval c = v"
  by (simp add: yields_def)

lemma yields_sub: "pval b \<le> pval a \<Longrightarrow> yields (poly_sub a b) (pval a - pval b)"
  by (metis poly_sub_ok yieldsI)

lemma yields_naive_mul:
  "m \<le> length a \<Longrightarrow> n \<le> length b \<Longrightarrow>
   yields (naive_mul a b m n) (pval (take m a) * pval (take n b))"
  by (metis naive_mul_ok yieldsI)

lemma pval_halves:
  assumes "n \<le> length xs" and "k \<le> n"
  shows "pval (take n xs) = pval (take k xs) + pval (take (n - k) (drop k xs)) * BASE ^ k"
proof -
  have "take n xs = take k xs @ take (n - k) (drop k xs)"
    using assms(2) by (metis le_add_diff_inverse take_add)
  then show ?thesis using assms by (simp add: pval_append)
qed

lemma karatsuba_middle:
  fixes x0 x1 y0 y1 :: nat
  shows "x1 * y1 \<le> (x1 + x0) * (y1 + y0)"
    and "x0 * y0 \<le> (x1 + x0) * (y1 + y0) - x1 * y1"
    and "(x1 + x0) * (y1 + y0) - x1 * y1 - x0 * y0 = x1 * y0 + x0 * y1"
  by (simp_all add: algebra_simps)

lemma karatsuba_combine:
  fixes x0 x1 y0 y1 :: nat
  shows "x1 * y1 * BASE ^ (k * 2) + (x1 * y0 + x0 * y1) * BASE ^ k + x0 * y0
      = (x0 + x1 * BASE ^ k) * (y0 + y1 * BASE ^ k)"
  by (simp add: algebra_simps power_mult power2_eq_square)

lemma karatsuba_step:
  assumes n: "n \<le> length lhs" "n \<le> length rhs" and k: "k1 = n div 2" "k0 = n - k1"
    and x: "x1 = take k1 (drop k0 lhs)" "x0 = take k0 lhs"
    and y: "y1 = take k1 (drop k0 rhs)" "y0 = take k0 rhs"
    and z2: "yields (karatsuba_mul x1 y1 k1) (pval x1 * pval y1)"
    and z0: "yields (karatsuba_mul x0 y0 k0) (pval x0 * pval y0)"
    and p: "yields (poly_mul (poly_add x1 x0) (poly_add y1 y0))
              ((pval x1 + pval x0) * (pval y1 + pval y0))"
    and big: "\<not> n < KARATSUBA_THRESHOLD"
  shows "yields (karatsuba_mul lhs rhs n) (pval (take n lhs) * pval (take n rhs))"
proof -
  have slices: "slice lhs k0 k1 = Inr x1" "slice lhs 0 k0 = Inr x0"
    "slice rhs k0 k1 = Inr y1" "slice rhs 0 k0 = Inr y0"
    using n k x y by simp_all
  have k': "k0 \<le> n" "n - k0 = k1" using k by simp_all
  note halves = pval_halves [OF n(1) k'(1), unfolded k'(2), folded x]
    pval_halves [OF n(2) k'(1), unfolded k'(2), folded y]
  have rec: "yields (bind_res (karatsuba_mul x1 y1 k1) (\<lambda>z2.
         bind_res (karatsuba_mul x0 y0 k0) (\<lambda>z0.
         bind_res (poly_mul (poly_add x1 x0) (poly_add y1 y0)) (\<lambda>p.
         bind_res (poly_sub p z2) (\<lambda>q.
         bind_res (poly_sub q z0) (\<lambda>z1.
           Inr (poly_add (poly_add (poly_shl z2 (k0 * 2)) (poly_shl z1 k0)) z0)))))))
      (pval (take n lhs) * pval (take n rhs))"
    by (rule yields_bind [OF z2], rule yields_bind [OF z0], rule yields_bind [OF p],
        rule yields_bind [OF yields_sub], (simp add: karatsuba_middle),
        rule yields_bind [OF yields_sub], (simp add: karatsuba_middle),
        simp add: karatsuba_middle(3) [unfolded diff_diff_left] karatsuba_combine halves)
  show ?thesis
    unfolding karatsuba_mul.simps [of lhs rhs n] Let_def k(1) [symmetric] k(2) [symmetric]
    using big rec by (simp add: slices)
qed

lemma yields_shifted:
  assumes "yields r (v * BASE ^ d)"
  shows "yields (bind_res r (\<lambda>c. Inr (poly_shr c d))) v"
  using assms BASE_gt by (intro yields_bind [OF assms]) simp

lemma pval_take_shl:
  assumes "poly_length a \<le> m" "m \<le> n"
  shows "pval (take n (poly_shl a (n - m))) = pval a * BASE ^ (n - m)"
  using assms pval_take_poly_length [OF assms(1)]
  by (simp add: poly_shl_def pval_append)

lemma poly_mul_step:
  assumes less: "poly_length a < poly_length b \<Longrightarrow> \<not> poly_length a < KARATSUBA_THRESHOLD \<Longrightarrow>
      yields (karatsuba_mul (poly_shl a (poly_length b - poly_length a)) b (poly_length b))
        (pval (take (poly_length b) (poly_shl a (poly_length b - poly_length a)))
          * pval (take (poly_length b) b))"
    and greater: "poly_length b < poly_length a \<Longrightarrow> \<not> poly_length b < KARATSUBA_THRESHOLD \<Longrightarrow>
      yields (karatsuba_mul a (poly_shl b (poly_length a - poly_length b)) (poly_length a))
        (pval (take (poly_length a) a)
          * pval (take (poly_length a) (poly_shl b (poly_length a - poly_length b))))"
    and equal: "poly_length a = poly_length b \<Longrightarrow> \<not> poly_length b < KARATSUBA_THRESHOLD \<Longrightarrow>
      yields (karatsuba_mul a b (poly_length b))
        (pval (take (poly_length b) a) * pval (take (poly_length b) b))"
  shows "yields (poly_mul a b) (pval a * pval b)"
proof -
  let ?m = "poly_length a" and ?n = "poly_length b"
  note takes = pval_take_poly_length [of a ?m] pval_take_poly_length [of b ?n]
  consider "?m = 0 \<or> ?n = 0" | "?m \<noteq> 0" "?n \<noteq> 0" "?m < KARATSUBA_THRESHOLD \<or> ?n < KARATSUBA_THRESHOLD"
    | "?m \<noteq> 0" "?n \<noteq> 0" "\<not> (?m < KARATSUBA_THRESHOLD \<or> ?n < KARATSUBA_THRESHOLD)" by blast
  then show ?thesis
  proof cases
    case 1
    then show ?thesis by (subst poly_mul.simps) (auto simp: poly_length_0_iff)
  next
    case 2
    then show ?thesis
      using yields_naive_mul [of ?m a ?n b] takes by (subst poly_mul.simps) (auto simp: Let_def)
  next
    case 3
    show ?thesis
    proof (cases ?m ?n rule: linorder_cases)
      case less
      have "yields (karatsuba_mul (poly_shl a (?n - ?m)) b ?n) (pval a * pval b * BASE ^ (?n - ?m))"
        using assms(1) [OF less] 3 less takes by (simp add: pval_take_shl algebra_simps)
      then show ?thesis
        using 3 less by (subst poly_mul.simps) (simp add: Let_def yields_shifted)
    next
      case equal
      then show ?thesis
        using assms(3) [OF equal] 3 takes by (subst poly_mul.simps) (simp add: Let_def)
    next
      case greater
      have "yields (karatsuba_mul a (poly_shl b (?m - ?n)) ?m) (pval a * pval b * BASE ^ (?m - ?n))"
        using assms(2) [OF greater] 3 greater takes by (simp add: pval_take_shl algebra_simps)
      then show ?thesis
        using 3 greater by (subst poly_mul.simps) (simp add: Let_def yields_shifted)
    qed
  qed
qed

lemma mul_correct:
  "n \<le> length lhs \<and> n \<le> length rhs \<longrightarrow>
     yields (karatsuba_mul lhs rhs n) (pval (take n lhs) * pval (take n rhs))"
  "yields (poly_mul a b) (pval a * pval b)"
proof (induction lhs rhs n and a b rule: karatsuba_mul_poly_mul.induct)
  case (1 lhs rhs n)
  show ?case
  proof (intro impI)
    assume len: "n \<le> length lhs \<and> n \<le> length rhs"
    show "yields (karatsuba_mul lhs rhs n) (pval (take n lhs) * pval (take n rhs))"
    proof (cases "n < KARATSUBA_THRESHOLD")
      case True
      then show ?thesis using yields_naive_mul len by (simp add: karatsuba_mul.simps)
    next
      case False
      define k1 k0 where k: "k1 = n div 2" "k0 = n - k1"
      have kn: "k0 \<le> n" "k0 + k1 = n" unfolding k by simp_all
      define x1 x0 y1 y0 where x: "x1 = take k1 (drop k0 lhs)" "x0 = take k0 lhs"
        and y: "y1 = take k1 (drop k0 rhs)" "y0 = take k0 rhs"
      have slices: "slice lhs k0 k1 = Inr x1" "slice lhs 0 k0 = Inr x0"
        "slice rhs k0 k1 = Inr y1" "slice rhs 0 k0 = Inr y0"
        using len kn unfolding x y by simp_all
      have lens: "length x1 = k1" "length y1 = k1" "length x0 = k0" "length y0 = k0"
        using slices by (auto dest: slice_length)
      note IH = "1.IH" [OF False k slices]
      have z2: "yields (karatsuba_mul x1 y1 k1) (pval x1 * pval y1)"
        using IH(1) lens by simp
      then obtain c2 where c2: "karatsuba_mul x1 y1 k1 = Inr c2" by (auto simp: yields_def)
      have z0: "yields (karatsuba_mul x0 y0 k0) (pval x0 * pval y0)"
        using IH(2) [OF c2] lens by simp
      then obtain c0 where c0: "karatsuba_mul x0 y0 k0 = Inr c0" by (auto simp: yields_def)
      have p: "yields (poly_mul (poly_add x1 x0) (poly_add y1 y0))
          ((pval x1 + pval x0) * (pval y1 + pval y0))"
        using IH(3) [OF c2 c0] by simp
      show ?thesis
        using len by (intro karatsuba_step [OF _ _ k x y z2 z0 p False]) simp_all
    qed
  qed
next
  case (2 a b)
  have la: "d + poly_length a \<le> d + length a" and lb: "d + poly_length b \<le> d + length b" for d
    by simp_all
  show ?case
  proof (rule poly_mul_step)
    assume "poly_length a < poly_length b" "\<not> poly_length a < KARATSUBA_THRESHOLD"
    then show "yields (karatsuba_mul (poly_shl a (poly_length b - poly_length a)) b (poly_length b))
        (pval (take (poly_length b) (poly_shl a (poly_length b - poly_length a)))
          * pval (take (poly_length b) b))"
      using "2.IH"(1) [OF refl refl] la [of "poly_length b - poly_length a"]
      by (simp add: KARATSUBA_THRESHOLD_def)
  next
    assume "poly_length b < poly_length a" "\<not> poly_length b < KARATSUBA_THRESHOLD"
    then show "yields (karatsuba_mul a (poly_shl b (poly_length a - poly_length b)) (poly_length a))
        (pval (take (poly_length a) a)
          * pval (take (poly_length a) (poly_shl b (poly_length a - poly_length b))))"
      using "2.IH"(2) [OF refl refl] lb [of "poly_length a - poly_length b"]
      by (simp add: KARATSUBA_THRESHOLD_def)
  next
    assume "poly_length a = poly_length b" "\<not> poly_length b < KARATSUBA_THRESHOLD"
    then show "yields (karatsuba_mul a b (poly_length b))
        (pval (take (poly_length b) a) * pval (take (poly_length b) b))"
      using "2.IH"(3) [OF refl refl] poly_length_le [of a]
      by (simp add: KARATSUBA_THRESHOLD_def)
  qed
qed

lemma poly_mul_ok:
  obtains c where "poly_mul a b = Inr c" "pval c = pval a * pval b"
  using mul_correct(2) [of a b] by (auto simp: yields_def)

lemma karatsuba_mul_ok:
  assumes "n \<le> length lhs" and "n \<le> length rhs"
  obtains c where "karatsuba_mul lhs rhs n = Inr c" "pval c = pval (take n lhs) * pval (take n rhs)"
  using mul_correct(1) [of n lhs rhs] assms by (auto simp: yields_def)

section \<open>Properties\<close>

text \<open>C2. Multiplication, schoolbook below 128 words and Karatsuba above, returns and multiplies:
  no 64-bit column sum wraps, no subtraction underflows, no array is read outside its bounds.\<close>

theorem poly_mul_correct: "\<exists>c. poly_mul a b = Inr c \<and> pval c = pval a * pval b"
  using poly_mul_ok [of a b] by metis

end
