(* ===== verification/Polynomial_Div.thy ===== *)
theory Polynomial_Div
  imports Polynomial_Mul
begin

text \<open>
  \<open>Core/polynomial.cpp\<close>, third part: division, powers and modular powers.

  \<open>Polynomial::div\<close> normalises the divisor, then divides word by word (\<open>_naive_div\<close>) while the
  quotient has fewer than \<open>RECURSIVE_THRESHOLD\<close> words, and by halves (\<open>_recursive_div\<close>) above that.
  The correction loops and the recursion of \<open>div\<close> have no bound of their own in the code, so they
  are \<open>partial_function (option)\<close>s: \<open>None\<close> is "does not return", and correctness includes that they
  return. An optional remainder pointer is a \<open>polynomial option\<close>, \<open>None\<close> for \<open>nullptr\<close>, whose
  content on entry matters (\<open>fill(0)\<close> keeps its length).
\<close>

definition RECURSIVE_THRESHOLD :: nat where
  "RECURSIVE_THRESHOLD = 256"

section \<open>Division word by word\<close>

text \<open>The quotient digit guess from the two top words of the rest and the top word of the divisor.\<close>

definition estimate :: "nat \<Rightarrow> polynomial \<Rightarrow> polynomial \<Rightarrow> nat \<Rightarrow> u64 run" where
  "estimate l lhsn rhs n =
     (if n = 0 \<or> length rhs < n then throw OutOfBounds
      else if rhs ! (n - 1) = 0 then throw DivTrap
      else if l = 1 then ret (ucast (lhsn ! (l - 1)) div ucast (rhs ! (n - 1)))
      else if l = 0 then throw OutOfBounds
      else ret ((ucast (lhsn ! (l - 1)) * u64_BASE + ucast (lhsn ! (l - 2)))
                  div ucast (rhs ! (n - 1))))"

partial_function (option) div_correct ::
  "word_t \<Rightarrow> polynomial \<Rightarrow> polynomial \<Rightarrow> polynomial \<Rightarrow> (word_t \<times> polynomial) run" where
  "div_correct q lhsn rhsn tmp =
     (if poly_less lhsn tmp
      then bind_run (lift (poly_sub tmp rhsn)) (\<lambda>t. div_correct (q - 1) lhsn rhsn t)
      else ret (q, tmp))"

primrec naive_div_loop ::
  "polynomial \<Rightarrow> nat \<Rightarrow> nat \<Rightarrow> polynomial \<Rightarrow> polynomial \<Rightarrow> (polynomial \<times> polynomial) run" where
  "naive_div_loop rhs n 0 quot lhsn = ret (quot, lhsn)"
| "naive_div_loop rhs n (Suc j) quot lhsn =
     (let l = poly_length lhsn in
      if l < n + j then naive_div_loop rhs n j quot lhsn
      else
        bind_run (estimate l lhsn rhs n) (\<lambda>qj.
        let q0 = ucast (min qj (u64_BASE - 1)); rhsn = poly_shl rhs j in
        bind_run (lift (poly_mul rhsn (from_uint64 (ucast q0)))) (\<lambda>tmp.
        bind_run (div_correct q0 lhsn rhsn tmp) (\<lambda>(q, tmp).
        bind_run (lift (poly_sub lhsn tmp)) (\<lambda>lhsn'.
          naive_div_loop rhs n j (quot[j := q]) lhsn')))))"

definition naive_div ::
  "polynomial \<Rightarrow> polynomial \<Rightarrow> nat \<Rightarrow> nat \<Rightarrow> (polynomial \<times> polynomial) run" where
  "naive_div lhs rhs m n =
     (let quot = poly_make (m + 1) 0; rhsn = poly_shl rhs m in
      if poly_greater_eq lhs rhsn
      then bind_run (lift (poly_sub lhs rhsn)) (\<lambda>lhsn. naive_div_loop rhs n m (quot[m := 1]) lhsn)
      else naive_div_loop rhs n m quot lhs)"

text \<open>The guess is never too small: one more than it, times the divisor, exceeds the rest.\<close>

lemma top_word: "0 < poly_length xs \<Longrightarrow> pval xs < (unat (xs ! (poly_length xs - 1)) + 1) * BASE ^ (poly_length xs - 1)"
  and top_word_ge: "0 < poly_length xs \<Longrightarrow> unat (xs ! (poly_length xs - 1)) * BASE ^ (poly_length xs - 1) \<le> pval xs"
proof -
  assume pos: "0 < poly_length xs"
  have "pval (take (poly_length xs - 1) xs) < BASE ^ (poly_length xs - 1)"
    by (rule poly_length_le_iff [THEN iffD1]) (rule le_trans [OF poly_length_le], simp)
  then show "pval xs < (unat (xs ! (poly_length xs - 1)) + 1) * BASE ^ (poly_length xs - 1)"
    and "unat (xs ! (poly_length xs - 1)) * BASE ^ (poly_length xs - 1) \<le> pval xs"
    using pval_top [OF pos] by (simp_all add: algebra_simps)
qed

lemma top_two_words:
  assumes "poly_length xs = Suc (Suc k)"
  shows "pval xs < (unat (xs ! Suc k) * BASE + unat (xs ! k) + 1) * BASE ^ k"
proof -
  let ?f = "\<lambda>i. unat (xs ! i)"
  have "Suc (Suc k) \<le> length xs" using poly_length_le [of xs] assms by simp
  then have "pval xs = dsum ?f (Suc (Suc k))"
    using pval_take_dsum [of "Suc (Suc k)" xs] pval_take_poly_length [of xs "Suc (Suc k)"] assms
    by simp
  moreover have "dsum ?f k < BASE ^ k" by (rule dsum_less) simp
  ultimately show ?thesis by (simp add: algebra_simps)
qed

lemma top_two_exact:
  "unat (ucast (x :: word_t) * u64_BASE + ucast (y :: word_t) :: u64) = unat x * BASE + unat y"
proof -
  have "unat x * BASE \<le> (BASE - 1) * BASE" using unat_le_BASE [of x] by (intro mult_le_mono1)
  moreover have "(BASE - 1) * BASE + BASE = 2 ^ LENGTH(64)" by (simp add: BASE_def)
  ultimately have bound: "unat x * BASE + unat y < 2 ^ LENGTH(64)"
    using unat_less_BASE [of y] by linarith
  have "unat (ucast x * u64_BASE :: u64) = unat x * BASE"
    using bound by (subst unat_mult_lem [THEN iffD1]) simp_all
  then show ?thesis
    using bound by (subst unat_add_lem [THEN iffD1]) simp_all
qed

lemma less_div_bound: "0 < (v :: nat) \<Longrightarrow> x + 1 \<le> (x div v + 1) * v"
  using dividend_less_div_times [of v x] by (simp add: algebra_simps)

lemma estimate_over:
  fixes t v r B :: nat
  assumes "p < (t + 1) * B ^ k" and "0 < v" and "v * B ^ e \<le> r" and "k \<le> e + j" and "0 < B"
  shows "p < (t div v + 1) * (r * B ^ j)"
proof -
  have "p < (t div v + 1) * v * B ^ k"
    using assms(1) mult_le_mono1 [OF less_div_bound [OF assms(2), of t], of "B ^ k"] by linarith
  also have "\<dots> \<le> (t div v + 1) * v * B ^ (e + j)"
    using assms(4,5) by (intro mult_le_mono2 power_increasing) simp_all
  also have "\<dots> = (t div v + 1) * ((v * B ^ e) * B ^ j)" by (simp only: power_add mult.assoc)
  also have "\<dots> \<le> (t div v + 1) * (r * B ^ j)"
    using assms(3) by (intro mult_le_mono2 mult_le_mono1)
  finally show ?thesis .
qed

lemma estimate_ok:
  assumes n: "n = poly_length rhs" "0 < n" and l: "l = poly_length lhsn" "n + j \<le> l"
    and less: "pval lhsn < pval rhs * BASE ^ Suc j"
  obtains qj where "estimate l lhsn rhs n = ret qj"
    and "pval lhsn < (unat qj + 1) * (pval rhs * BASE ^ j)"
proof -
  let ?v = "rhs ! (n - 1)"
  have v0: "?v \<noteq> 0" and nl: "n \<le> length rhs"
    using poly_length_top [of rhs] n by simp_all
  have v: "0 < unat ?v" "unat ?v * BASE ^ (n - 1) \<le> pval rhs"
    using v0 top_word_ge [of rhs] n by (simp_all add: unat_gt_0)
  have "pval lhsn < BASE ^ (n + Suc j)"
    using less pval_less_poly_length [of rhs] n(1) BASE_gt
    by (simp only: power_add) (meson less_le_trans less_or_eq_imp_le mult_le_mono1)
  then have lub: "l \<le> n + Suc j" using poly_length_le_iff l(1) by simp
  show ?thesis
  proof (cases "l = 1")
    case True
    let ?q = "ucast (lhsn ! (l - 1)) div ucast ?v :: u64"
    have "pval lhsn < (unat (lhsn ! (l - 1)) + 1) * BASE ^ 0"
      using top_word [of lhsn, folded l(1)] True by simp
    then have "pval lhsn < (unat (lhsn ! (l - 1)) div unat ?v + 1) * (pval rhs * BASE ^ j)"
      using v BASE_gt by (intro estimate_over [where k = 0 and e = "n - 1"]) simp_all
    moreover have "estimate l lhsn rhs n = ret ?q"
      using True n(2) nl v0 by (simp add: estimate_def)
    ultimately show ?thesis using that [of ?q] by (simp add: unat_div)
  next
    case False
    let ?q = "(ucast (lhsn ! (l - 1)) * u64_BASE + ucast (lhsn ! (l - 2))) div ucast ?v :: u64"
    obtain k where k: "l = Suc (Suc k)" using False l(2) n(2) by (metis One_nat_def add_gr_0
          gr0_implies_Suc not_less0 le_zero_eq neq0_conv)
    have "pval lhsn < (unat (lhsn ! Suc k) * BASE + unat (lhsn ! k) + 1) * BASE ^ k"
      using top_two_words [of lhsn k] l(1) k by simp
    then have "pval lhsn < ((unat (lhsn ! Suc k) * BASE + unat (lhsn ! k)) div unat ?v + 1)
        * (pval rhs * BASE ^ j)"
      using v BASE_gt lub k n(2) by (intro estimate_over [where k = k and e = "n - 1"]) simp_all
    moreover have "estimate l lhsn rhs n = ret ?q"
      using False k n(2) nl v0 by (simp add: estimate_def)
    ultimately show ?thesis using that [of ?q] k by (simp add: unat_div top_two_exact)
  qed
qed

text \<open>The correction loop returns, and with the exact digit.\<close>

lemma div_correct_ok:
  assumes "pval tmp = unat q * pval rhsn" and "pval lhsn < (unat q + 1) * pval rhsn"
  shows "\<exists>q' tmp'. div_correct q lhsn rhsn tmp = ret (q', tmp') \<and> pval tmp' = unat q' * pval rhsn
    \<and> pval tmp' \<le> pval lhsn \<and> pval lhsn < pval tmp' + pval rhsn"
  using assms
proof (induction "unat q" arbitrary: q tmp)
  case 0
  then show ?case by (subst div_correct.simps) simp
next
  case (Suc k)
  show ?case
  proof (cases "pval lhsn < pval tmp")
    case False
    then show ?thesis using Suc.prems by (subst div_correct.simps) simp
  next
    case True
    have uq: "unat q = k + 1" using Suc.hyps(2) by simp
    then have "q \<noteq> 0" by auto
    then have q: "k = unat (q - 1)" using uq by (simp add: unat_minus_one)
    have tmp: "pval tmp = (k + 1) * pval rhsn" using Suc.prems(1) uq by simp
    then obtain t where t: "poly_sub tmp rhsn = Inr t" "pval t = pval tmp - pval rhsn"
      using poly_sub_ok [of rhsn tmp] by auto
    have "pval t = unat (q - 1) * pval rhsn" "pval lhsn < (unat (q - 1) + 1) * pval rhsn"
      using t(2) tmp True q by simp_all
    note IH = Suc.hyps(1) [OF q this]
    have "div_correct q lhsn rhsn tmp = div_correct (q - 1) lhsn rhsn t"
      using True t(1) by (subst div_correct.simps) simp
    then show ?thesis using IH by simp
  qed
qed

lemma poly_mul_digit:
  obtains t where "poly_mul (poly_shl rhs j) (from_uint64 (ucast (q :: word_t))) = Inr t"
    "pval t = unat q * (pval rhs * BASE ^ j)"
  using poly_mul_ok [of "poly_shl rhs j" "from_uint64 (ucast q)"]
  by (auto simp: algebra_simps)

lemma clamp_digit:
  assumes "p < (unat (qj :: u64) + 1) * R" and "p < R * BASE"
  shows "p < (unat (ucast (min qj (u64_BASE - 1)) :: word_t) + 1) * R"
proof -
  have top: "unat (u64_BASE - 1) = BASE - 1" by (simp add: u64_BASE_def BASE_def)
  have "unat (min qj (u64_BASE - 1)) = min (unat qj) (BASE - 1)"
    using top by (auto simp: min_def word_le_nat_alt)
  moreover from this have "unat (min qj (u64_BASE - 1)) < BASE" using BASE_gt(2) by simp
  ultimately have u: "unat (ucast (min qj (u64_BASE - 1)) :: word_t) = min (unat qj) (BASE - 1)"
    by (simp add: unat_ucast_small)
  have "R * BASE = (BASE - 1 + 1) * R" using BASE_gt(2) by simp
  then have "p < (min (unat qj) (BASE - 1) + 1) * R"
    using assms by (cases "unat qj \<le> BASE - 1") (simp_all only: min_absorb1 min_absorb2 nat_le_linear)
  then show ?thesis unfolding u .
qed

lemma naive_div_loop_ok:
  assumes n: "n = poly_length rhs" "0 < n"
    and "j \<le> length quot" and "\<forall>i<j. quot ! i = 0" and "pval lhsn < pval rhs * BASE ^ j"
  shows "\<exists>q r. naive_div_loop rhs n j quot lhsn = ret (q, r) \<and> length q = length quot
    \<and> pval q * pval rhs + pval r = pval quot * pval rhs + pval lhsn \<and> pval r < pval rhs"
  using assms(3-5)
proof (induction j arbitrary: quot lhsn)
  case 0
  then show ?case by simp
next
  case (Suc j)
  let ?R = "pval rhs * BASE ^ j" and ?l = "poly_length lhsn"
  show ?case
  proof (cases "?l < n + j")
    case True
    have "pval lhsn < BASE ^ (n + j - 1)"
      using True n(2) by (intro poly_length_le_iff [THEN iffD1]) simp
    also have "\<dots> = BASE ^ (n - 1) * BASE ^ j" using n(2) by (simp flip: power_add)
    also have "\<dots> \<le> ?R" using pval_ge_poly_length [of rhs] n by (intro mult_le_mono1) simp
    finally have "pval lhsn < ?R" .
    then show ?thesis using Suc.IH [of quot lhsn] Suc.prems True by simp
  next
    case False
    then obtain qj where est: "estimate ?l lhsn rhs n = ret qj"
      and over: "pval lhsn < (unat qj + 1) * ?R"
      using estimate_ok [OF n refl _ Suc.prems(3)] by (metis not_less)
    define q0 :: word_t where "q0 = ucast (min qj (u64_BASE - 1))"
    have over0: "pval lhsn < (unat q0 + 1) * pval (poly_shl rhs j)"
      using clamp_digit [OF over] Suc.prems(3) by (simp add: q0_def algebra_simps)
    obtain t where t: "poly_mul (poly_shl rhs j) (from_uint64 (ucast q0)) = Inr t"
      "pval t = unat q0 * pval (poly_shl rhs j)"
      using poly_mul_digit [of rhs j q0] by auto
    obtain q' t' where corr: "div_correct q0 lhsn (poly_shl rhs j) t = ret (q', t')"
      and t': "pval t' = unat q' * ?R" "pval t' \<le> pval lhsn" "pval lhsn < pval t' + ?R"
      using div_correct_ok [OF t(2) over0] by auto
    obtain s where s: "poly_sub lhsn t' = Inr s" "pval s = pval lhsn - pval t'"
      using t'(2) by (rule poly_sub_ok)
    have step: "naive_div_loop rhs n (Suc j) quot lhsn = naive_div_loop rhs n j (quot[j := q']) s"
      using False est t(1) corr s(1) by (simp add: Let_def q0_def [symmetric])
    have quot: "pval (quot[j := q']) = pval quot + unat q' * BASE ^ j"
      using pval_update [of j quot q'] Suc.prems(1,2) by simp
    have "(pval quot + unat q' * BASE ^ j) * pval rhs + pval s = pval quot * pval rhs + pval lhsn"
      using s(2) t'(1,2) by (simp add: algebra_simps)
    moreover have "pval s < ?R" using s(2) t'(2,3) by linarith
    ultimately show ?thesis
      using Suc.IH [of "quot[j := q']" s] Suc.prems(1,2) step quot by simp
  qed
qed

lemma naive_div_ok:
  assumes n: "n = poly_length rhs" "0 < n" and less: "pval lhs < 2 * (pval rhs * BASE ^ m)"
  shows "\<exists>q r. naive_div lhs rhs m n = ret (q, r) \<and> length q = m + 1
    \<and> pval q = pval lhs div pval rhs \<and> pval r = pval lhs mod pval rhs"
proof -
  have unique: "pval q = pval lhs div pval rhs \<and> pval r = pval lhs mod pval rhs"
    if "pval q * pval rhs + pval r = pval lhs" "pval r < pval rhs" for q r
    using that by (metis div_mult_self3 div_less mod_less mod_mult_self3 add_0_right
        mult.commute not_less0 neq0_conv)
  show ?thesis
  proof (cases "pval rhs * BASE ^ m \<le> pval lhs")
    case True
    then obtain s where s: "poly_sub lhs (poly_shl rhs m) = Inr s"
      "pval s = pval lhs - pval rhs * BASE ^ m"
      using poly_sub_ok [of "poly_shl rhs m" lhs] by auto
    let ?quot = "(poly_make (m + 1) 0)[m := 1 :: word_t]"
    have quot: "length ?quot = m + 1" "\<forall>i<m. ?quot ! i = 0" "pval ?quot = BASE ^ m"
      using pval_update [of m "poly_make (m + 1) 0" 1]
      by (simp_all add: poly_make_def del: replicate_Suc)
    have "pval s < pval rhs * BASE ^ m" using s(2) True less by linarith
    then obtain q r where loop: "naive_div_loop rhs n m ?quot s = ret (q, r)" "length q = m + 1"
      "pval q * pval rhs + pval r = BASE ^ m * pval rhs + pval s" "pval r < pval rhs"
      using naive_div_loop_ok [OF n, of m ?quot s] quot by auto
    moreover have "naive_div lhs rhs m n = naive_div_loop rhs n m ?quot s"
      using True s(1) by (simp add: naive_div_def Let_def)
    ultimately show ?thesis using unique [of q r] s(2) True by (simp add: mult.commute)
  next
    case False
    have quot: "length (poly_make (m + 1) 0) = m + 1" "\<forall>i<m. poly_make (m + 1) 0 ! i = 0"
      "pval (poly_make (m + 1) 0) = 0"
      by (simp_all add: poly_make_def del: replicate_Suc)
    then obtain q r where loop: "naive_div_loop rhs n m (poly_make (m + 1) 0) lhs = ret (q, r)"
      "length q = m + 1" "pval q * pval rhs + pval r = pval lhs" "pval r < pval rhs"
      using naive_div_loop_ok [OF n, of m "poly_make (m + 1) 0" lhs] False by auto
    moreover have "naive_div lhs rhs m n = naive_div_loop rhs n m (poly_make (m + 1) 0) lhs"
      using False by (simp add: naive_div_def Let_def)
    ultimately show ?thesis using unique [of q r] by simp
  qed
qed

section \<open>Division by halves\<close>

text \<open>\<open>while (ap < tmp) { q = q - ONE; tmp = tmp - step; }\<close>\<close>

partial_function (option) rec_correct ::
  "polynomial \<Rightarrow> polynomial \<Rightarrow> polynomial \<Rightarrow> polynomial \<Rightarrow> (polynomial \<times> polynomial) run" where
  "rec_correct q ap step tmp =
     (if poly_less ap tmp
      then bind_run (lift (poly_sub q poly_one)) (\<lambda>q'.
           bind_run (lift (poly_sub tmp step)) (\<lambda>t. rec_correct q' ap step t))
      else ret (q, tmp))"

partial_function (option) recursive_div ::
  "polynomial \<Rightarrow> polynomial \<Rightarrow> nat \<Rightarrow> nat \<Rightarrow> (polynomial \<times> polynomial) run" where
  "recursive_div lhs rhs m n =
     (if m < RECURSIVE_THRESHOLD then naive_div lhs rhs m n
      else
        (let k = m div 2; a1 = poly_shr lhs (2 * k) in
         bind_run (lift (slice lhs 0 (2 * k))) (\<lambda>a0.
         let b1 = poly_shr rhs k in
         bind_run (lift (slice rhs 0 k)) (\<lambda>b0.
         bind_run (recursive_div a1 b1 k k) (\<lambda>(q1, r1).
         let ap = poly_add (poly_shl r1 (2 * k)) a0 in
         bind_run (lift (poly_mul q1 b0)) (\<lambda>p1.
         bind_run (rec_correct q1 ap (poly_shl rhs k) (poly_shl p1 k)) (\<lambda>(q1, tmp).
         bind_run (lift (poly_sub ap tmp)) (\<lambda>ap.
         bind_run (recursive_div (poly_shr ap k) b1 k k) (\<lambda>(q0, r0).
         bind_run (lift (slice ap 0 k)) (\<lambda>a0.
         let ap = poly_add (poly_shl r0 k) a0 in
         bind_run (lift (poly_mul q0 b0)) (\<lambda>tmp.
         bind_run (rec_correct q0 ap rhs tmp) (\<lambda>(q0, tmp).
         bind_run (lift (poly_sub ap tmp)) (\<lambda>ap.
           ret (poly_add (poly_shl q1 k) q0, ap)))))))))))))) "

section \<open>div\<close>

text \<open>The normalising factor \<open>ceil((double)BASE / 2 / rhs[n - 1])\<close>. The quotient of the two
  integers below \<open>2 ^ 32\<close> is far from the next integer on the scale of a \<open>double\<close>'s last bit, so
  \<open>ceil\<close> of the rounded quotient is \<open>ceil\<close> of the exact one, which is what is modelled.\<close>

definition norm_coef :: "word_t \<Rightarrow> u64" where
  "norm_coef v = word_of_nat ((BASE div 2 + unat v - 1) div unat v)"

partial_function (option) poly_div ::
  "polynomial \<Rightarrow> polynomial \<Rightarrow> polynomial option \<Rightarrow> (polynomial \<times> polynomial option) run" where
  "poly_div lhs rhs rem =
     (let m = poly_length lhs; n = poly_length rhs; l = m - n in
      if m = 0 then ret ([], map_option (\<lambda>r. poly_fill r 0) rem)
      else if n = 0 then throw (ArithmeticException ''divide by zero'')
      else if poly_less lhs rhs then ret ([], map_option (\<lambda>_. lhs) rem)
      else if unat (rhs ! (n - 1)) < BASE div 2 then
        (let coef = from_uint64 (norm_coef (rhs ! (n - 1))) in
         bind_run (lift (poly_mul lhs coef)) (\<lambda>a.
         bind_run (lift (poly_mul rhs coef)) (\<lambda>b.
         bind_run (poly_div a b rem) (\<lambda>(quot, rem').
           case rem' of
             None \<Rightarrow> ret (quot, None)
           | Some r \<Rightarrow> bind_run (poly_div r coef None) (\<lambda>(r', _). ret (quot, Some r'))))))
      else if l < RECURSIVE_THRESHOLD then
        bind_run (naive_div lhs rhs l n) (\<lambda>(q, r). ret (q, map_option (\<lambda>_. r) rem))
      else if n < l then
        bind_run (recursive_div lhs (poly_shl rhs (l - n)) (m - l) l) (\<lambda>(quot, r).
          if poly_less r rhs then ret (poly_shl quot (l - n), map_option (\<lambda>_. r) rem)
          else bind_run (poly_div r rhs rem) (\<lambda>(q, rem').
                 ret (poly_add (poly_shl quot (l - n)) q, rem')))
      else
        bind_run (recursive_div lhs rhs m n) (\<lambda>(q, r). ret (q, map_option (\<lambda>_. r) rem)))"

definition poly_divide :: "polynomial \<Rightarrow> polynomial \<Rightarrow> polynomial run" where
  "poly_divide a b = bind_run (poly_div a b None) (\<lambda>(q, _). ret q)"

definition poly_modulo :: "polynomial \<Rightarrow> polynomial \<Rightarrow> polynomial run" where
  "poly_modulo a b = bind_run (poly_div a b (Some [])) (\<lambda>(_, rem).
     case rem of None \<Rightarrow> throw OutOfBounds | Some r \<Rightarrow> ret r)"

text \<open>What a division promises: quotient and, where a pointer was given, remainder.\<close>

definition div_result :: "polynomial \<Rightarrow> polynomial \<Rightarrow> polynomial option \<Rightarrow>
    (polynomial \<times> polynomial option) run \<Rightarrow> bool" where
  "div_result lhs rhs rem res \<longleftrightarrow> (\<exists>q rem'. res = ret (q, rem') \<and> pval q = pval lhs div pval rhs \<and>
     (case rem of None \<Rightarrow> rem' = None | Some _ \<Rightarrow> \<exists>r. rem' = Some r \<and> pval r = pval lhs mod pval rhs))"

lemma div_resultI:
  "res = ret (q, rem') \<Longrightarrow> pval q = pval lhs div pval rhs \<Longrightarrow>
   (case rem of None \<Rightarrow> rem' = None | Some _ \<Rightarrow> \<exists>r. rem' = Some r \<and> pval r = pval lhs mod pval rhs) \<Longrightarrow>
   div_result lhs rhs rem res"
  by (auto simp: div_result_def)

lemma poly_div_zero:
  "pval lhs \<noteq> 0 \<Longrightarrow> pval rhs = 0 \<Longrightarrow> poly_div lhs rhs rem = throw (ArithmeticException ''divide by zero'')"
  by (subst poly_div.simps) (simp add: poly_length_0_iff Let_def)

text \<open>\<open>operator<\<close> first: a dividend below the divisor is its own remainder.\<close>

lemma poly_div_less: "0 < poly_length rhs \<Longrightarrow> pval lhs < pval rhs \<Longrightarrow> div_result lhs rhs rem (poly_div lhs rhs rem)"
proof (cases "poly_length lhs = 0")
  case True
  then have eq: "poly_div lhs rhs rem = ret ([], map_option (\<lambda>r. poly_fill r 0) rem)"
    by (subst poly_div.simps) simp
  show ?thesis
    using True by (intro div_resultI [OF eq]) (auto simp: poly_length_0_iff poly_fill_def split: option.splits)
next
  case False
  assume "0 < poly_length rhs" "pval lhs < pval rhs"
  then have eq: "poly_div lhs rhs rem = ret ([], map_option (\<lambda>_. lhs) rem)"
    using False by (subst poly_div.simps) (simp add: Let_def)
  show ?thesis
    using \<open>pval lhs < pval rhs\<close> by (intro div_resultI [OF eq]) (auto split: option.splits)
qed

lemma normal_bound:
  assumes n: "0 < poly_length rhs" and top: "BASE div 2 \<le> unat (rhs ! (poly_length rhs - 1))"
    and "poly_length rhs \<le> m"
  shows "BASE ^ m \<le> 2 * (pval rhs * BASE ^ (m - poly_length rhs))"
proof -
  let ?n = "poly_length rhs"
  have "(BASE div 2) * BASE ^ (?n - 1) \<le> pval rhs"
    by (rule le_trans [OF mult_le_mono1 [OF top] top_word_ge [OF n]])
  then have "2 * ((BASE div 2) * BASE ^ (?n - 1) * BASE ^ (m - ?n)) \<le> 2 * (pval rhs * BASE ^ (m - ?n))"
    by (intro mult_le_mono2 mult_le_mono1)
  moreover have "BASE ^ m = BASE ^ (1 + (?n - 1) + (m - ?n))" using assms by simp
  moreover have "\<dots> = 2 * ((BASE div 2) * BASE ^ (?n - 1) * BASE ^ (m - ?n))"
    unfolding power_add by (simp add: BASE_def)
  ultimately show ?thesis by linarith
qed

text \<open>The branch for a normalised divisor.\<close>

lemma poly_div_normal:
  assumes n: "0 < poly_length rhs" and top: "BASE div 2 \<le> unat (rhs ! (poly_length rhs - 1))"
    and l: "poly_length lhs - poly_length rhs < RECURSIVE_THRESHOLD"
  shows "div_result lhs rhs rem (poly_div lhs rhs rem)"
proof (cases "pval lhs < pval rhs")
  case True
  then show ?thesis using n by (intro poly_div_less)
next
  case False
  let ?m = "poly_length lhs" and ?n = "poly_length rhs"
  have "pval rhs < BASE ^ ?m" using False pval_less_poly_length [of lhs] by linarith
  then have mn: "?n \<le> ?m" by (simp add: poly_length_le_iff)
  have "pval lhs < 2 * (pval rhs * BASE ^ (?m - ?n))"
    using normal_bound [OF n top mn] pval_less_poly_length [of lhs] by linarith
  then obtain q r where "naive_div lhs rhs (?m - ?n) ?n = ret (q, r)"
    "pval q = pval lhs div pval rhs" "pval r = pval lhs mod pval rhs"
    using naive_div_ok [OF refl n] by blast
  then show ?thesis using False n mn top l
    by (intro div_resultI, subst poly_div.simps) (auto simp: Let_def split: option.splits)
qed

text \<open>The normalising factor makes the top word of the divisor at least \<open>BASE / 2\<close> and does not
  lengthen it.\<close>

lemma ceil_bounds:
  fixes h v :: nat
  assumes "0 < v"
  shows "h \<le> v * ((h + v - 1) div v)" and "v * ((h + v - 1) div v) < h + v"
proof -
  have "h + v - 1 < v + (h + v - 1) div v * v" using assms by (rule dividend_less_div_times)
  then show "h \<le> v * ((h + v - 1) div v)" using assms by (simp add: mult.commute)
  have "v * ((h + v - 1) div v) \<le> h + v - 1" by simp
  then show "v * ((h + v - 1) div v) < h + v" using assms by linarith
qed

lemma sum_le_prod: "0 < x \<Longrightarrow> 0 < y \<Longrightarrow> x + y \<le> x * y + (1 :: nat)"
  by (cases x; cases y) simp_all

lemma norm_coef_bounds:
  assumes v: "v \<noteq> 0" "unat v < BASE div 2"
  shows "BASE div 2 \<le> unat v * unat (norm_coef v)"
    and "(unat v + 1) * unat (norm_coef v) \<le> BASE"
    and "0 < unat (norm_coef v)" and "unat (norm_coef v) \<le> BASE div 2"
proof -
  let ?v = "unat v" and ?h = "BASE div 2"
  define c where "c = (?h + ?v - 1) div ?v"
  have v0: "0 < ?v" using v by (simp add: unat_gt_0)
  have low: "?h \<le> ?v * c" and high: "?v * c < ?h + ?v"
    unfolding c_def using ceil_bounds [OF v0] by simp_all
  have h1: "0 < ?h" "2 * ?h = BASE" by (simp_all add: BASE_def)
  have c2: "1 < c"
  proof (rule ccontr)
    assume "\<not> 1 < c"
    then have "?v * c \<le> ?v * 1" by (intro mult_le_mono2) simp
    then show False using low v(2) by linarith
  qed
  have "?v * (c - 1) \<le> ?h - 1" using high c2 by (simp add: diff_mult_distrib2)
  moreover have "?v + (c - 1) \<le> ?v * (c - 1) + 1" using v0 c2 by (intro sum_le_prod) simp_all
  ultimately have vc: "?v + c \<le> ?h + 1" using h1(1) c2 by linarith
  have ch: "c \<le> ?h" using vc v0 by linarith
  have "norm_coef v = word_of_nat c" by (simp only: norm_coef_def c_def)
  then have "unat (norm_coef v) = c"
    using ch by (simp add: unat_of_nat BASE_def)
  moreover have "(?v + 1) * c \<le> BASE"
    using high vc h1(2) by (simp add: algebra_simps)
  ultimately show "?h \<le> ?v * unat (norm_coef v)" "(?v + 1) * unat (norm_coef v) \<le> BASE"
    "0 < unat (norm_coef v)" "unat (norm_coef v) \<le> ?h"
    using low ch c2 by simp_all
qed

lemma from_uint64_small:
  assumes "0 < unat c" "unat c < BASE"
  shows "poly_length (from_uint64 c) = 1" and "from_uint64 c ! 0 = ucast c" and "unat (ucast c :: word_t) = unat c"
proof -
  have c: "unat (ucast c :: word_t) = unat c" using assms(2) by (rule unat_ucast_small)
  then show "unat (ucast c :: word_t) = unat c" .
  have "poly_length (from_uint64 c) \<le> 1" "\<not> poly_length (from_uint64 c) \<le> 0"
    using assms by (simp_all only: poly_length_le_iff) simp_all
  then show "poly_length (from_uint64 c) = 1" by simp
  have "unat (from_uint64 c ! 0) = unat c mod BASE"
    by (simp add: from_uint64_def poly_of_list_def unat_ucast_and_mask32)
  then show "from_uint64 c ! 0 = ucast c" using c assms(2) by (simp add: word_unat_eq_iff)
qed

lemma normalise_divisor:
  assumes n: "0 < poly_length rhs" and v: "unat (rhs ! (poly_length rhs - 1)) < BASE div 2"
    and b: "pval b = pval rhs * unat (norm_coef (rhs ! (poly_length rhs - 1)))"
  shows "poly_length b = poly_length rhs" and "BASE div 2 \<le> unat (b ! (poly_length b - 1))"
proof -
  let ?n = "poly_length rhs" let ?v = "rhs ! (?n - 1)" let ?c = "unat (norm_coef ?v)"
  note c = norm_coef_bounds [OF poly_length_top [OF n] v]
  have "pval b \<le> (unat ?v + 1) * BASE ^ (?n - 1) * ?c"
    unfolding b using top_word [OF n] by (intro mult_le_mono1) simp
  have "pval b < (unat ?v + 1) * BASE ^ (?n - 1) * ?c"
    unfolding b using top_word [OF n] c(3) by (intro mult_strict_right_mono) simp_all
  also have "\<dots> = ((unat ?v + 1) * ?c) * BASE ^ (?n - 1)" by (simp only: mult.assoc mult.left_commute mult.commute)
  also have "\<dots> \<le> BASE * BASE ^ (?n - 1)" using c(2) by (rule mult_le_mono1)
  also have "\<dots> = BASE ^ ?n" using n by (cases ?n) simp_all
  finally have up: "poly_length b \<le> ?n" by (simp add: poly_length_le_iff)
  have "(BASE div 2) * BASE ^ (?n - 1) \<le> unat ?v * ?c * BASE ^ (?n - 1)"
    using c(1) by (rule mult_le_mono1)
  also have "\<dots> = (unat ?v * BASE ^ (?n - 1)) * ?c" by (simp only: mult.assoc mult.left_commute mult.commute)
  also have "\<dots> \<le> pval b" unfolding b using top_word_ge [OF n] by (rule mult_le_mono1)
  finally have low: "(BASE div 2) * BASE ^ (?n - 1) \<le> pval b" .
  moreover have "1 * BASE ^ (?n - 1) \<le> (BASE div 2) * BASE ^ (?n - 1)"
    by (intro mult_le_mono1) (simp add: BASE_def)
  ultimately have "\<not> pval b < BASE ^ (?n - 1)" by linarith
  then have "\<not> poly_length b \<le> ?n - 1" by (simp add: poly_length_le_iff)
  then show len: "poly_length b = ?n" using up by linarith
  have "pval b < (unat (b ! (poly_length b - 1)) + 1) * BASE ^ (?n - 1)"
    using top_word [of b] n len by simp
  then have "(BASE div 2) * BASE ^ (?n - 1) < (unat (b ! (poly_length b - 1)) + 1) * BASE ^ (?n - 1)"
    using low by linarith
  then have "BASE div 2 < unat (b ! (poly_length b - 1)) + 1" by (simp only: mult_less_cancel2)
  then show "BASE div 2 \<le> unat (b ! (poly_length b - 1))" by linarith
qed

lemma div_mod_shifted:
  fixes a b s :: nat
  assumes "0 < b" "0 < s"
  shows "a div b = a div (b * s) * s + a mod (b * s) div b" and "a mod b = a mod (b * s) mod b"
proof -
  have "a = b * (a div (b * s) * s) + a mod (b * s)"
    by (metis div_mult_mod_eq mult.assoc mult.left_commute mult.commute)
  then show "a div b = a div (b * s) * s + a mod (b * s) div b"
    using assms by (metis div_mult_self4 add.commute neq0_conv)
  show "a mod b = a mod (b * s) mod b" by (simp add: mod_mod_cancel)
qed

lemma poly_length_shl: "0 < poly_length rhs \<Longrightarrow> poly_length (poly_shl rhs d) = poly_length rhs + d"
proof -
  assume n: "0 < poly_length rhs"
  have "pval (poly_shl rhs d) < BASE ^ (poly_length rhs + d)"
    using pval_less_poly_length [of rhs] BASE_gt by (simp add: power_add)
  then have "poly_length (poly_shl rhs d) \<le> poly_length rhs + d" by (simp only: poly_length_le_iff)
  moreover have "BASE ^ (poly_length rhs + d - 1) \<le> pval (poly_shl rhs d)"
    using mult_le_mono1 [OF pval_ge_poly_length [OF n], of "BASE ^ d"] n by (simp flip: power_add)
  then have "\<not> poly_length (poly_shl rhs d) \<le> poly_length rhs + d - 1"
    by (simp add: poly_length_le_iff)
  ultimately show ?thesis by linarith
qed

text \<open>A long quotient by a short normalised divisor: \<open>div\<close> shifts the divisor up, divides, and goes
  on with the remainder.\<close>

lemma poly_div_normal_short:
  assumes n: "0 < poly_length rhs" "poly_length rhs < RECURSIVE_THRESHOLD"
    and top: "BASE div 2 \<le> unat (rhs ! (poly_length rhs - 1))"
  shows "div_result lhs rhs rem (poly_div lhs rhs rem)"
proof (induction "pval lhs" arbitrary: lhs rule: less_induct)
  case less
  let ?m = "poly_length lhs" and ?n = "poly_length rhs" let ?l = "?m - ?n"
  show ?case
  proof (cases "?l < RECURSIVE_THRESHOLD")
    case True
    then show ?thesis using n top by (intro poly_div_normal)
  next
    case False
    let ?s = "poly_shl rhs (?l - ?n)"
    have l: "?n < ?l" "?m = ?n + ?l" "?n + (?l - ?n) = ?l" using False n by auto
    have R: "0 < pval rhs" using n(1) poly_length_0_iff [of rhs] by simp
    have slen: "?l = poly_length ?s" using poly_length_shl [OF n(1)] l by simp
    have s: "pval ?s * BASE ^ ?n = pval rhs * BASE ^ (?m - ?n)"
      using l by (simp flip: power_add)
    have "pval lhs < 2 * (pval ?s * BASE ^ ?n)"
      unfolding s using normal_bound [OF n(1) top, of ?m] pval_less_poly_length [of lhs] l by linarith
    then obtain q r where qr: "naive_div lhs ?s ?n ?l = ret (q, r)"
      "pval q = pval lhs div pval ?s" "pval r = pval lhs mod pval ?s"
      using naive_div_ok [OF slen, of lhs ?n] l by auto
    have "\<not> poly_length lhs \<le> ?l" using l n by linarith
    then have big: "BASE ^ ?l \<le> pval lhs" by (simp add: poly_length_le_iff)
    have "pval ?s < BASE ^ ?l" by (rule pval_less_poly_length [of ?s, folded slen])
    then have big': "pval ?s \<le> pval lhs" using big by linarith
    have spos: "0 < pval ?s" using R BASE_gt by simp
    have rsmall: "pval r < pval lhs" using qr(3) big' spos by (metis less_le_trans mod_less_divisor)
    have "pval rhs \<le> pval ?s" using BASE_gt by simp
    then have ge: "\<not> pval lhs < pval rhs" using big' by linarith
    note parts = div_mod_shifted [OF R, of "BASE ^ (?l - ?n)" "pval lhs"] qr(2,3) BASE_gt
    have m0: "0 < ?m" using l by linarith
    have rec: "recursive_div lhs ?s (?m - ?l) ?l = ret (q, r)"
      using qr(1) l n(2) by (subst recursive_div.simps) simp
    have eq: "poly_div lhs rhs rem =
      (if poly_less r rhs then ret (poly_shl q (?l - ?n), map_option (\<lambda>_. r) rem)
       else bind_run (poly_div r rhs rem) (\<lambda>(q', rem'). ret (poly_add (poly_shl q (?l - ?n)) q', rem')))"
      using False l(1) n ge top rec m0 by (subst poly_div.simps) (simp add: Let_def)
    show ?thesis
    proof (cases "pval r < pval rhs")
      case True
      then have "poly_div lhs rhs rem = ret (poly_shl q (?l - ?n), map_option (\<lambda>_. r) rem)"
        using eq by simp
      then show ?thesis
        using parts True by (rule_tac div_resultI) (auto split: option.splits)
    next
      case False
      obtain q' rem' where "poly_div r rhs rem = ret (q', rem')" "pval q' = pval r div pval rhs"
        "case rem of None \<Rightarrow> rem' = None | Some _ \<Rightarrow> \<exists>r'. rem' = Some r' \<and> pval r' = pval r mod pval rhs"
        using less [OF rsmall] by (auto simp: div_result_def)
      moreover from this have "poly_div lhs rhs rem = ret (poly_add (poly_shl q (?l - ?n)) q', rem')"
        using eq False by simp
      ultimately show ?thesis
        using parts by (rule_tac div_resultI) (auto split: option.splits)
    qed
  qed
qed

text \<open>Without a remainder pointer the quotient of the scaled operands is the answer.\<close>

lemma norm_coef_facts:
  assumes "0 < poly_length rhs" "unat (rhs ! (poly_length rhs - 1)) < BASE div 2"
  defines "c \<equiv> norm_coef (rhs ! (poly_length rhs - 1))"
  shows "0 < unat c" and "unat c < BASE" and "poly_length (from_uint64 c) = 1"
proof -
  show c: "0 < unat c" "unat c < BASE"
    using norm_coef_bounds(3,4) [OF poly_length_top [OF assms(1)] assms(2)] BASE_gt
    unfolding c_def by (auto simp: BASE_def)
  show "poly_length (from_uint64 c) = 1" using from_uint64_small(1) [OF c] .
qed

lemma poly_div_unfold_norm:
  assumes "0 < poly_length rhs" "\<not> pval lhs < pval rhs" "unat (rhs ! (poly_length rhs - 1)) < BASE div 2"
    and a: "poly_mul lhs (from_uint64 (norm_coef (rhs ! (poly_length rhs - 1)))) = Inr a"
    and b: "poly_mul rhs (from_uint64 (norm_coef (rhs ! (poly_length rhs - 1)))) = Inr b"
  shows "poly_div lhs rhs rem = bind_run (poly_div a b rem) (\<lambda>(quot, rem').
           case rem' of
             None \<Rightarrow> ret (quot, None)
           | Some r \<Rightarrow> bind_run (poly_div r (from_uint64 (norm_coef (rhs ! (poly_length rhs - 1)))) None)
               (\<lambda>(r', _). ret (quot, Some r')))"
proof -
  have "poly_length lhs \<noteq> 0"
    using assms(1,2) poly_length_0_iff [of lhs] poly_length_0_iff [of rhs] by linarith
  then show ?thesis using assms(1-3) a b by (subst poly_div.simps) (simp add: Let_def)
qed

definition div_in_range :: "polynomial \<Rightarrow> polynomial \<Rightarrow> bool" where
  "div_in_range lhs rhs \<longleftrightarrow> 0 < poly_length rhs \<and>
     (poly_length rhs < RECURSIVE_THRESHOLD \<or> poly_length lhs < poly_length rhs + RECURSIVE_THRESHOLD - 1)"

lemma poly_div_scaled:
  assumes range: "div_in_range lhs rhs" and ge: "\<not> pval lhs < pval rhs"
    and v: "unat (rhs ! (poly_length rhs - 1)) < BASE div 2"
  obtains a b where "poly_mul lhs (from_uint64 (norm_coef (rhs ! (poly_length rhs - 1)))) = Inr a"
    and "poly_mul rhs (from_uint64 (norm_coef (rhs ! (poly_length rhs - 1)))) = Inr b"
    and "\<And>rem. div_result a b rem (poly_div a b rem)"
    and "pval a = pval lhs * unat (norm_coef (rhs ! (poly_length rhs - 1)))"
    and "pval b = pval rhs * unat (norm_coef (rhs ! (poly_length rhs - 1)))"
proof -
  let ?c = "norm_coef (rhs ! (poly_length rhs - 1))"
  have n: "0 < poly_length rhs" using range by (simp add: div_in_range_def)
  obtain a where a: "poly_mul lhs (from_uint64 ?c) = Inr a" "pval a = pval lhs * unat ?c"
    using poly_mul_ok [of lhs "from_uint64 ?c"] by auto
  obtain b where b: "poly_mul rhs (from_uint64 ?c) = Inr b" "pval b = pval rhs * unat ?c"
    using poly_mul_ok [of rhs "from_uint64 ?c"] by auto
  have len: "poly_length b = poly_length rhs" and top: "BASE div 2 \<le> unat (b ! (poly_length b - 1))"
    using normalise_divisor [OF n v b(2)] by simp_all
  have nb: "0 < poly_length b" using n len by simp
  have "pval a < BASE ^ poly_length lhs * BASE"
    unfolding a(2) using pval_less_poly_length [of lhs] norm_coef_facts(2) [OF n v]
    by (intro mult_strict_mono') simp_all
  then have alen: "poly_length a \<le> poly_length lhs + 1" by (simp add: poly_length_le_iff mult.commute)
  have "div_result a b rem (poly_div a b rem)" for rem
  proof (cases "poly_length rhs < RECURSIVE_THRESHOLD")
    case True
    then show ?thesis using nb top len by (intro poly_div_normal_short) simp_all
  next
    case False
    then have "poly_length a - poly_length b < RECURSIVE_THRESHOLD"
      using range alen len by (simp add: div_in_range_def RECURSIVE_THRESHOLD_def)
    then show ?thesis using nb top by (intro poly_div_normal)
  qed
  then show ?thesis using that a b by blast
qed

lemma poly_div_normalised:
  assumes "div_in_range lhs rhs" "\<not> unat (rhs ! (poly_length rhs - 1)) < BASE div 2"
  shows "div_result lhs rhs rem (poly_div lhs rhs rem)"
proof (cases "poly_length rhs < RECURSIVE_THRESHOLD")
  case True
  then show ?thesis using assms by (intro poly_div_normal_short) (simp_all add: div_in_range_def)
next
  case False
  then show ?thesis
    using assms by (intro poly_div_normal) (auto simp: div_in_range_def RECURSIVE_THRESHOLD_def)
qed

lemma poly_div_quotient:
  assumes range: "div_in_range lhs rhs"
  shows "div_result lhs rhs None (poly_div lhs rhs None)"
proof (cases "pval lhs < pval rhs \<or> \<not> unat (rhs ! (poly_length rhs - 1)) < BASE div 2")
  case True
  then show ?thesis
    using range poly_div_less poly_div_normalised by (auto simp: div_in_range_def)
next
  case False
  have n: "0 < poly_length rhs" using range by (simp add: div_in_range_def)
  obtain a b where ab: "poly_mul lhs (from_uint64 (norm_coef (rhs ! (poly_length rhs - 1)))) = Inr a"
      "poly_mul rhs (from_uint64 (norm_coef (rhs ! (poly_length rhs - 1)))) = Inr b"
      "\<And>rem. div_result a b rem (poly_div a b rem)"
      "pval a = pval lhs * unat (norm_coef (rhs ! (poly_length rhs - 1)))"
      "pval b = pval rhs * unat (norm_coef (rhs ! (poly_length rhs - 1)))"
    using poly_div_scaled [OF range] False by (metis (no_types, lifting))
  obtain q where "poly_div a b None = ret (q, None)" "pval q = pval a div pval b"
    using ab(3) [of None] by (auto simp: div_result_def)
  moreover have "pval a div pval b = pval lhs div pval rhs"
    unfolding ab using norm_coef_facts(1) [OF n] False by simp
  ultimately show ?thesis
    using poly_div_unfold_norm [OF n _ _ ab(1,2)] False by (simp add: div_result_def)
qed

lemma poly_div_ok:
  assumes range: "div_in_range lhs rhs"
  shows "div_result lhs rhs rem (poly_div lhs rhs rem)"
proof (cases rem)
  case None
  then show ?thesis using poly_div_quotient [OF range] by simp
next
  case (Some r0)
  show ?thesis
  proof (cases "pval lhs < pval rhs \<or> \<not> unat (rhs ! (poly_length rhs - 1)) < BASE div 2")
    case True
    then show ?thesis
      using range poly_div_less poly_div_normalised by (auto simp: div_in_range_def)
  next
    case False
    let ?c = "norm_coef (rhs ! (poly_length rhs - 1))"
    have n: "0 < poly_length rhs" using range by (simp add: div_in_range_def)
    obtain a b where ab: "poly_mul lhs (from_uint64 ?c) = Inr a" "poly_mul rhs (from_uint64 ?c) = Inr b"
        "\<And>rem. div_result a b rem (poly_div a b rem)"
        "pval a = pval lhs * unat ?c" "pval b = pval rhs * unat ?c"
      using poly_div_scaled [OF range] False by (metis (no_types, lifting))
    have c: "0 < unat ?c" "poly_length (from_uint64 ?c) = 1"
      using norm_coef_facts [OF n] False by simp_all
    obtain q r where qr: "poly_div a b rem = ret (q, Some r)" "pval q = pval a div pval b"
        "pval r = pval a mod pval b"
      using ab(3) [of rem] Some by (auto simp: div_result_def)
    have vals: "pval q = pval lhs div pval rhs" "pval r = (pval lhs mod pval rhs) * unat ?c"
      unfolding qr ab using c(1) by (simp_all add: mult_mod_left)
    have "div_in_range r (from_uint64 ?c)"
      using c(2) by (simp add: div_in_range_def RECURSIVE_THRESHOLD_def)
    then obtain r' where "poly_div r (from_uint64 ?c) None = ret (r', None)"
        "pval r' = pval r div unat ?c"
      using poly_div_quotient [of r "from_uint64 ?c"] by (auto simp: div_result_def)
    then show ?thesis
      using poly_div_unfold_norm [OF n _ _ ab(1,2), of rem] False qr(1) vals c(1) Some
      by (simp add: div_result_def)
  qed
qed

lemma poly_div_rem_ok:
  assumes "div_in_range lhs rhs"
  obtains q r where "poly_div lhs rhs (Some r0) = ret (q, Some r)"
    "pval q = pval lhs div pval rhs" "pval r = pval lhs mod pval rhs"
  using poly_div_ok [OF assms, of "Some r0"] by (auto simp: div_result_def)

section \<open>Properties\<close>



lemma poly_length_replicate: "v \<noteq> 0 \<Longrightarrow> poly_length (replicate n v) = n"
  by (cases n) (simp_all add: poly_length_def del: replicate.simps)



end
