(* ===== verification/Polynomial_Pow.thy ===== *)
theory Polynomial_Pow
  imports Polynomial_Div
begin

text \<open>
  \<open>Core/polynomial.cpp\<close>, last part: \<open>pow\<close> (halving the exponent by division) and \<open>mod_pow\<close>
  (square and multiply, right to left, reading the exponent's bits out of its words).
\<close>

section \<open>pow\<close>

partial_function (option) pow_loop ::
  "polynomial \<Rightarrow> polynomial \<Rightarrow> polynomial option \<Rightarrow> polynomial \<Rightarrow> polynomial run" where
  "pow_loop x n t out =
     bind_run (poly_div n poly_two t) (\<lambda>(n', t').
     bind_run (case t' of None \<Rightarrow> ret out
               | Some tv \<Rightarrow> if poly_eq tv poly_one then lift (poly_mul out x) else ret out) (\<lambda>out'.
     if poly_eq n' poly_zero then ret out'
     else bind_run (lift (poly_mul x x)) (\<lambda>x'. pow_loop x' n' t' out')))"

definition poly_pow :: "polynomial \<Rightarrow> polynomial \<Rightarrow> polynomial run" where
  "poly_pow base exponent = pow_loop base exponent (Some []) poly_one"

lemma two_in_range: "div_in_range n poly_two"
proof -
  have "poly_length poly_two = 1"
    by (simp add: poly_two_def poly_of_list_def poly_length_def)
  then show ?thesis by (simp add: div_in_range_def RECURSIVE_THRESHOLD_def)
qed

lemma pow_loop_ok:
  "\<exists>r. pow_loop x n (Some t) out = ret r \<and> pval r = pval out * pval x ^ pval n"
proof (induction "pval n" arbitrary: x n t out rule: less_induct)
  case less
  obtain n' t' where div: "poly_div n poly_two (Some t) = ret (n', Some t')"
    "pval n' = pval n div 2" "pval t' = pval n mod 2"
    using poly_div_rem_ok [OF two_in_range] by (metis pval_consts(3))
  obtain p where p: "poly_mul out x = Inr p" "pval p = pval out * pval x" by (rule poly_mul_ok)
  obtain s where s: "poly_mul x x = Inr s" "pval s = pval x * pval x" by (rule poly_mul_ok)
  let ?out = "if odd (pval n) then p else out"
  have out: "pval ?out = pval out * pval x ^ (pval n mod 2)"
    using p by (auto simp: odd_iff_mod_2_eq_one)
  have step: "pow_loop x n (Some t) out =
    (if pval n' = 0 then ret ?out else pow_loop s n' (Some t') ?out)"
    using div p s by (subst pow_loop.simps) (auto simp: odd_iff_mod_2_eq_one even_iff_mod_2_eq_zero)
  show ?case
  proof (cases "pval n' = 0")
    case True
    then have "pval n mod 2 = pval n" using div(2) by simp
    then show ?thesis using step True out by simp
  next
    case False
    then have "pval n' < pval n" using div(2) by simp
    then obtain r where r: "pow_loop s n' (Some t') ?out = ret r"
      "pval r = pval ?out * pval s ^ pval n'"
      using less by blast
    have "pval x ^ (pval n mod 2) * (pval x * pval x) ^ (pval n div 2) = pval x ^ pval n"
      by (simp add: power_even_eq [symmetric] power2_eq_square [symmetric] power_mult [symmetric]
          power_add [symmetric] mod_mult_div_eq)
    then have "pval r = pval out * pval x ^ pval n"
      using r(2) out s(2) div(2) by (simp add: mult.assoc)
    then show ?thesis using step False r(1) by simp
  qed
qed

section \<open>mod_pow\<close>

definition WORD_BITS :: nat where
  "WORD_BITS = 32"

definition exp_bit :: "polynomial \<Rightarrow> nat \<Rightarrow> bool" where
  "exp_bit e i \<longleftrightarrow> drop_bit (i mod WORD_BITS) (e ! (i div WORD_BITS)) AND 1 \<noteq> 0"

text \<open>\<open>while (bits > 1 && bit (bits - 1) is clear) bits--;\<close>\<close>

fun bits_from :: "polynomial \<Rightarrow> nat \<Rightarrow> nat" where
  "bits_from e 0 = 0"
| "bits_from e (Suc b) = (if Suc b > 1 \<and> \<not> exp_bit e b then bits_from e b else Suc b)"

primrec mod_pow_loop ::
  "polynomial \<Rightarrow> polynomial \<Rightarrow> nat \<Rightarrow> nat \<Rightarrow> polynomial \<Rightarrow> polynomial \<Rightarrow> polynomial run" where
  "mod_pow_loop e d bits 0 result factor = ret result"
| "mod_pow_loop e d bits (Suc k) result factor =
     (let i = bits - Suc k in
      bind_run (if exp_bit e i
                then bind_run (lift (poly_mul result factor)) (\<lambda>p. poly_modulo p d)
                else ret result) (\<lambda>result'.
      bind_run (if i + 1 < bits
                then bind_run (lift (poly_mul factor factor)) (\<lambda>p. poly_modulo p d)
                else ret factor) (\<lambda>factor'.
        mod_pow_loop e d bits k result' factor')))"

definition poly_mod_pow :: "polynomial \<Rightarrow> polynomial \<Rightarrow> polynomial \<Rightarrow> polynomial run" where
  "poly_mod_pow base exponent divisor =
     (let words = poly_length exponent in
      if words = 0 then ret poly_one
      else
        (let bits = bits_from exponent (words * WORD_BITS) in
         bind_run (poly_modulo base divisor) (\<lambda>factor.
           mod_pow_loop exponent divisor bits bits poly_one factor)))"

lemma bit_pval: "bit (pval e) i \<longleftrightarrow> i div 32 < length e \<and> bit (e ! (i div 32)) (i mod 32)"
proof (induction e arbitrary: i)
  case Nil
  then show ?case by simp
next
  case (Cons w ws)
  show ?case
  proof (cases "i < 32")
    case True
    have "(unat w + BASE * pval ws) div 2 ^ i = unat w div 2 ^ i + 2 ^ (32 - i) * pval ws"
    proof -
      have B: "BASE = 2 ^ i * 2 ^ (32 - i)"
        using True by (simp add: BASE_pow flip: power_add)
      show ?thesis unfolding B by (simp add: mult.assoc)
    qed
    then have "bit (pval (w # ws)) i \<longleftrightarrow> bit (unat w) i"
      using True by (simp add: bit_iff_odd)
    then show ?thesis using True by (simp add: bit_unsigned_iff)
  next
    case False
    then obtain j where j: "i = 32 + j" by (metis le_Suc_ex not_less)
    have "(unat w + BASE * pval ws) div 2 ^ i = (unat w + BASE * pval ws) div BASE div 2 ^ j"
      by (simp add: j power_add div_mult2_eq BASE_pow)
    also have "\<dots> = pval ws div 2 ^ j" using BASE_gt by simp
    finally have "bit (pval (w # ws)) i \<longleftrightarrow> bit (pval ws) j" by (simp add: bit_iff_odd)
    moreover have "(32 + j) div 32 = Suc (j div 32)" by simp
    ultimately show ?thesis using Cons.IH [of j] by (simp add: j)
  qed
qed

lemma exp_bit_iff: "i div 32 < length e \<Longrightarrow> exp_bit e i \<longleftrightarrow> bit (pval e) i"
  unfolding exp_bit_def bit_pval WORD_BITS_def
  by (simp add: and_one_eq odd_iff_mod_2_eq_one [symmetric] bit_iff_odd_drop_bit [symmetric]
      even_drop_bit_iff_not_bit)

lemma less_pow_Suc_bit: "(p :: nat) < 2 ^ Suc b \<Longrightarrow> \<not> bit p b \<Longrightarrow> p < 2 ^ b"
proof -
  assume p: "p < 2 ^ Suc b" and nb: "\<not> bit p b"
  have "p div 2 ^ b < 2" using p by (simp add: less_mult_imp_div_less)
  moreover have "even (p div 2 ^ b)" using nb by (simp add: bit_iff_odd)
  then have "p div 2 ^ b \<noteq> 1" by auto
  ultimately have "p div 2 ^ b = 0" by linarith
  then show ?thesis by (simp add: div_eq_0_iff)
qed

lemma bits_from_ok:
  assumes "pval e < 2 ^ b" and "0 < pval e" and "b \<le> 32 * length e"
  shows "pval e < 2 ^ bits_from e b \<and> 0 < bits_from e b \<and> bits_from e b \<le> b
    \<and> bit (pval e) (bits_from e b - 1)"
  using assms
proof (induction b)
  case 0
  then show ?case by simp
next
  case (Suc b)
  have eb: "exp_bit e b \<longleftrightarrow> bit (pval e) b"
    using Suc.prems(3) by (intro exp_bit_iff) (simp add: less_mult_imp_div_less)
  show ?case
  proof (cases "0 < b \<and> \<not> bit (pval e) b")
    case True
    then show ?thesis using Suc eb less_pow_Suc_bit [OF Suc.prems(1)] by auto
  next
    case False
    have "b = 0 \<Longrightarrow> pval e = 1" using Suc.prems(1,2) by simp
    then have "bit (pval e) b" using False by (auto simp: bit_0)
    then show ?thesis using Suc.prems eb by simp
  qed
qed

lemma poly_modulo_ok:
  assumes "div_in_range a b"
  obtains r where "poly_modulo a b = ret r" "pval r = pval a mod pval b"
proof -
  obtain q r where "poly_div a b (Some []) = ret (q, Some r)" "pval r = pval a mod pval b"
    by (rule poly_div_rem_ok [OF assms, of "[]"])
  then show ?thesis using that [of r] by (simp add: poly_modulo_def)
qed

lemma mod_Suc_bit: "(p :: nat) mod 2 ^ Suc i = p mod 2 ^ i + of_bool (bit p i) * 2 ^ i"
  using take_bit_Suc_from_most [of i p] by (simp add: take_bit_eq_mod)

lemma mod_pow_loop_ok:
  assumes d: "0 < poly_length d" "poly_length d < RECURSIVE_THRESHOLD"
    and bits: "bits \<le> 32 * length e" and k: "k \<le> bits"
    and factor: "0 < k \<Longrightarrow> pval factor mod pval d = b ^ (2 ^ (bits - k)) mod pval d"
    and result: "pval result mod pval d = b ^ (pval e mod 2 ^ (bits - k)) mod pval d"
    and small: "pval result < pval d \<or> (0 < k \<and> bit (pval e) (bits - 1))"
  shows "\<exists>r. mod_pow_loop e d bits k result factor = ret r
    \<and> pval r = b ^ (pval e mod 2 ^ bits) mod pval d"
  using k factor result small
proof (induction k arbitrary: result factor)
  case 0
  then show ?case by simp
next
  case (Suc k)
  let ?i = "bits - Suc k"
  have i: "bits - k = Suc ?i" "?i < bits" using Suc.prems(1) by simp_all
  have range: "div_in_range x d" for x using d by (simp add: div_in_range_def)
  have dpos: "0 < pval d" using d(1) poly_length_0_iff [of d] by simp
  have eb: "exp_bit e ?i \<longleftrightarrow> bit (pval e) ?i"
    using i(2) bits by (intro exp_bit_iff) (simp add: less_mult_imp_div_less)
  have f: "pval factor mod pval d = b ^ (2 ^ ?i) mod pval d" using Suc.prems(2) by simp
  obtain p where p: "poly_mul result factor = Inr p" "pval p = pval result * pval factor"
    by (rule poly_mul_ok)
  obtain s where s: "poly_mul factor factor = Inr s" "pval s = pval factor * pval factor"
    by (rule poly_mul_ok)
  obtain pr where pr: "poly_modulo p d = ret pr" "pval pr = pval p mod pval d"
    using poly_modulo_ok [OF range] by blast
  obtain sr where sr: "poly_modulo s d = ret sr" "pval sr = pval s mod pval d"
    using poly_modulo_ok [OF range] by blast
  let ?res = "if bit (pval e) ?i then pr else result"
  let ?fac = "if ?i + 1 < bits then sr else factor"
  have step: "mod_pow_loop e d bits (Suc k) result factor = mod_pow_loop e d bits k ?res ?fac"
    using eb p(1) s(1) pr(1) sr(1) by (simp add: Let_def)
  have "pval ?fac mod pval d = b ^ (2 ^ (bits - k)) mod pval d" if "0 < k"
  proof -
    have "pval s mod pval d = b ^ (2 ^ ?i) * b ^ (2 ^ ?i) mod pval d"
      unfolding s(2) using f by (metis mod_mult_eq)
    also have "b ^ (2 ^ ?i) * b ^ (2 ^ ?i) = b ^ (2 ^ Suc ?i)" by (simp flip: power_add add: mult_2)
    finally show ?thesis using that i sr(2) by simp
  qed
  moreover have "pval ?res mod pval d = b ^ (pval e mod 2 ^ (bits - k)) mod pval d"
  proof -
    have "pval p mod pval d = b ^ (pval e mod 2 ^ ?i) * b ^ (2 ^ ?i) mod pval d"
      unfolding p(2) using f Suc.prems(3) by (metis mod_mult_eq)
    then show ?thesis
      using Suc.prems(3) pr(2) unfolding i(1) mod_Suc_bit by (simp add: power_add)
  qed
  moreover have "pval ?res < pval d \<or> (0 < k \<and> bit (pval e) (bits - 1))"
    using Suc.prems(4) dpos pr(2) i by (cases "k = 0") auto
  ultimately have "\<exists>r. mod_pow_loop e d bits k ?res ?fac = ret r
      \<and> pval r = b ^ (pval e mod 2 ^ bits) mod pval d"
    using Suc.prems(1) by (intro Suc.IH) simp_all
  then show ?case unfolding step .
qed

lemma poly_mod_pow_ok:
  assumes d: "0 < pval divisor" "poly_length divisor < RECURSIVE_THRESHOLD"
  shows "\<exists>r. poly_mod_pow base exponent divisor = ret r \<and>
    pval r = (if pval exponent = 0 then 1 else pval base ^ pval exponent mod pval divisor)"
proof (cases "pval exponent = 0")
  case True
  then show ?thesis by (simp add: poly_mod_pow_def poly_length_0_iff)
next
  case False
  let ?w = "poly_length exponent * WORD_BITS" let ?b = "bits_from exponent ?w"
  have dl: "0 < poly_length divisor" using d(1) poly_length_0_iff [of divisor] by simp
  have "pval exponent < 2 ^ ?w"
    using pval_less_poly_length [of exponent]
    by (simp only: BASE_pow WORD_BITS_def power_mult [symmetric] mult.commute)
  then have b: "pval exponent < 2 ^ ?b" "0 < ?b" "?b \<le> ?w" "bit (pval exponent) (?b - 1)"
    using bits_from_ok [of exponent ?w] False by (simp_all add: WORD_BITS_def)
  obtain factor where f: "poly_modulo base divisor = ret factor"
    "pval factor = pval base mod pval divisor"
    using poly_modulo_ok [of base divisor] dl d(2) by (auto simp: div_in_range_def)
  have "?b \<le> 32 * length exponent"
    using b(3) poly_length_le [of exponent] unfolding WORD_BITS_def by linarith
  then have "\<exists>r. mod_pow_loop exponent divisor ?b ?b poly_one factor = ret r
      \<and> pval r = pval base ^ (pval exponent mod 2 ^ ?b) mod pval divisor"
    using f(2) b by (intro mod_pow_loop_ok [OF dl d(2)]) simp_all
  then show ?thesis
    using False f(1) b(1) by (simp add: poly_mod_pow_def poly_length_0_iff Let_def)
qed

section \<open>Properties\<close>

text \<open>\<open>pow\<close> returns on every base and exponent, and raises to the power.\<close>

theorem poly_pow_correct: "\<exists>r. poly_pow base exponent = ret r \<and> pval r = pval base ^ pval exponent"
  using pow_loop_ok [of base exponent "[]" poly_one] by (simp add: poly_pow_def)

text \<open>\<open>mod_pow\<close> returns the modular power for a nonzero divisor of fewer than 256 words; the
  exponent zero gives one, whatever the divisor.\<close>

theorem poly_mod_pow_correct:
  assumes "0 < pval divisor" and "poly_length divisor < RECURSIVE_THRESHOLD"
  shows "\<exists>r. poly_mod_pow base exponent divisor = ret r \<and>
    pval r = (if pval exponent = 0 then 1 else pval base ^ pval exponent mod pval divisor)"
  using assms by (rule poly_mod_pow_ok)

end
