(* ===== verification/BigInt_Arith.thy ===== *)
theory BigInt_Arith
  imports Polynomial_Pow
begin

text \<open>
  \<open>Core/bigint.cpp\<close>, arithmetic: a \<open>Polynomial\<close> magnitude and a sign flag. \<open>ival\<close> reads the
  integer; \<open>sign()\<close> ignores the flag of a zero magnitude, and so does \<open>ival\<close>. Every operation
  works on magnitudes through \<open>Polynomial\<close>: what it relies on is the locale \<open>magnitude\<close>, whose
  interpretation on \<open>Polynomial\<close> discharges the laws.
\<close>

record bigint =
  mag :: polynomial
  neg :: bool

definition POS_VAL :: word_t where "POS_VAL = 0x7FFFFFFF"
definition NEG_VAL :: word_t where "NEG_VAL = 0x80000000"

definition bi_make :: "polynomial \<Rightarrow> bool \<Rightarrow> bigint" where
  "bi_make a s = \<lparr>mag = a, neg = s\<rparr>"

definition bi_nil :: bigint where
  "bi_nil = bi_make [] False"

section \<open>Construction from machine integers\<close>

text \<open>The signed constructors sign-extend to 64 bits, split into words, and take the top bit of one
  word for the sign.\<close>

definition bi_of_int32 :: "32 word \<Rightarrow> bigint" where
  "bi_of_int32 value =
     (let a = from_uint64 (scast value) in
      if a ! 0 AND NEG_VAL \<noteq> 0 then bi_make (a[0 := a ! 0 AND POS_VAL]) True
      else bi_make a False)"

definition bi_of_uint32 :: "32 word \<Rightarrow> bigint" where
  "bi_of_uint32 value = bi_make (from_uint64 (ucast value)) False"

definition bi_of_int64 :: "64 word \<Rightarrow> bigint" where
  "bi_of_int64 value =
     (let a = from_uint64 value in
      if a ! 1 AND NEG_VAL \<noteq> 0 then bi_make (a[1 := a ! 1 AND POS_VAL]) True
      else bi_make a False)"

definition bi_of_uint64 :: "64 word \<Rightarrow> bigint" where
  "bi_of_uint64 value = bi_make (from_uint64 value) False"

section \<open>Sign, zero, parity, size\<close>

definition bi_is_zero :: "bigint \<Rightarrow> bool" where
  "bi_is_zero x \<longleftrightarrow> poly_is_zero (mag x)"

definition bi_sign :: "bigint \<Rightarrow> bool" where
  "bi_sign x = (if bi_is_zero x then False else neg x)"

definition bi_set_sign :: "bool \<Rightarrow> bigint \<Rightarrow> bigint" where
  "bi_set_sign s x = x\<lparr>neg := s\<rparr>"

definition bi_is_odd :: "bigint \<Rightarrow> bool" where
  "bi_is_odd x = poly_is_odd (mag x)"

definition bi_is_even :: "bigint \<Rightarrow> bool" where
  "bi_is_even x \<longleftrightarrow> \<not> bi_is_odd x"

definition bi_size :: "bool \<Rightarrow> bigint \<Rightarrow> nat" where
  "bi_size sign x =
     (let len = poly_length (mag x) in
      if len > 0 \<and> sign \<and> mag x ! (len - 1) AND NEG_VAL \<noteq> 0 then len + 1 else len)"

definition bi_length :: "bool \<Rightarrow> bigint \<Rightarrow> nat" where
  "bi_length sign x = bi_size sign x * 4"

definition ival :: "bigint \<Rightarrow> int" where
  "ival x = (if neg x then - int (pval (mag x)) else int (pval (mag x)))"

lemma ival_make [simp, val_simps]:
  "ival (bi_make a s) = (if s then - int (pval a) else int (pval a))"
  by (simp add: ival_def bi_make_def)

lemma make_sel [simp]: "mag (bi_make a s) = a" "neg (bi_make a s) = s"
  by (simp_all add: bi_make_def)

lemma ival_nil [simp, val_simps]: "ival bi_nil = 0"
  by (simp add: bi_nil_def)

lemma bi_is_zero_iff [simp, val_simps]: "bi_is_zero x \<longleftrightarrow> ival x = 0"
  by (simp add: bi_is_zero_def poly_is_zero_iff ival_def)

lemma bi_sign_iff [simp, val_simps]: "bi_sign x \<longleftrightarrow> ival x < 0"
  by (auto simp: bi_sign_def ival_def)

lemma pval_mag: "int (pval (mag x)) = \<bar>ival x\<bar>"
  by (simp add: ival_def)

lemma pval_mag_nat: "pval (mag x) = nat \<bar>ival x\<bar>"
  by (simp add: ival_def)

section \<open>Comparison\<close>

definition bi_cmp :: "bigint \<Rightarrow> bigint \<Rightarrow> int" where
  "bi_cmp lhs rhs =
     (if bi_sign lhs \<and> bi_sign rhs then - poly_cmp (mag lhs) (mag rhs)
      else if bi_sign lhs \<and> \<not> bi_sign rhs then -1
      else if \<not> bi_sign lhs \<and> bi_sign rhs then 1
      else poly_cmp (mag lhs) (mag rhs))"

definition bi_eq :: "bigint \<Rightarrow> bigint \<Rightarrow> bool" where "bi_eq a b \<longleftrightarrow> bi_cmp a b = 0"
definition bi_neq :: "bigint \<Rightarrow> bigint \<Rightarrow> bool" where "bi_neq a b \<longleftrightarrow> bi_cmp a b \<noteq> 0"
definition bi_less :: "bigint \<Rightarrow> bigint \<Rightarrow> bool" where "bi_less a b \<longleftrightarrow> bi_cmp a b = -1"
definition bi_greater :: "bigint \<Rightarrow> bigint \<Rightarrow> bool" where "bi_greater a b \<longleftrightarrow> bi_cmp a b = 1"
definition bi_less_eq :: "bigint \<Rightarrow> bigint \<Rightarrow> bool" where "bi_less_eq a b \<longleftrightarrow> bi_cmp a b \<noteq> 1"
definition bi_greater_eq :: "bigint \<Rightarrow> bigint \<Rightarrow> bool" where "bi_greater_eq a b \<longleftrightarrow> bi_cmp a b \<noteq> -1"

lemma bi_cmp_sgn: "bi_cmp a b = sgn (ival a - ival b)"
proof -
  have p: "poly_cmp (mag a) (mag b) = sgn (\<bar>ival a\<bar> - \<bar>ival b\<bar>)"
    by (simp add: poly_cmp_sgn pval_mag)
  show ?thesis
    unfolding bi_cmp_def p bi_sign_iff by (cases "ival a < 0"; cases "ival b < 0") (auto simp: sgn_if)
qed

lemma bi_cmp_iffs [simp, val_simps]:
  "bi_eq a b \<longleftrightarrow> ival a = ival b"
  "bi_neq a b \<longleftrightarrow> ival a \<noteq> ival b"
  "bi_less a b \<longleftrightarrow> ival a < ival b"
  "bi_greater a b \<longleftrightarrow> ival a > ival b"
  "bi_less_eq a b \<longleftrightarrow> ival a \<le> ival b"
  "bi_greater_eq a b \<longleftrightarrow> ival a \<ge> ival b"
  by (auto simp: bi_eq_def bi_neq_def bi_less_def bi_greater_def bi_less_eq_def
      bi_greater_eq_def bi_cmp_sgn sgn_if)

section \<open>What signed arithmetic needs of magnitudes\<close>

text \<open>Four branches of \<open>operator+\<close> and \<open>operator-\<close> subtract the smaller magnitude from the larger
  one and pick the sign by which it was.\<close>

definition signed_diff ::
  "('p \<Rightarrow> 'p \<Rightarrow> int) \<Rightarrow> ('p \<Rightarrow> 'p \<Rightarrow> 'p result) \<Rightarrow> 'p \<Rightarrow> 'p \<Rightarrow> bool \<Rightarrow> bool \<Rightarrow> ('p \<times> bool) result" where
  "signed_diff cmp sub a b sign_less sign_else =
     (if cmp a b = -1 then bind_res (sub b a) (\<lambda>d. Inr (d, sign_less))
      else bind_res (sub a b) (\<lambda>d. Inr (d, sign_else)))"

locale magnitude =
  fixes val :: "'p \<Rightarrow> nat"
    and cmp :: "'p \<Rightarrow> 'p \<Rightarrow> int"
    and sub :: "'p \<Rightarrow> 'p \<Rightarrow> 'p result"
  assumes cmp_less: "cmp a b = -1 \<longleftrightarrow> val a < val b"
    and sub_value: "val b \<le> val a \<Longrightarrow> \<exists>d. sub a b = Inr d \<and> val d = val a - val b"
begin

lemma signed_diff_value:
  "\<exists>d s. signed_diff cmp sub a b sl se = Inr (d, s) \<and>
     val d = (if val a < val b then val b - val a else val a - val b) \<and>
     s = (if val a < val b then sl else se)"
  using sub_value [of a b] sub_value [of b a]
  by (cases "val a < val b") (auto simp: signed_diff_def cmp_less)

lemma signed_diff_int:
  "\<exists>d s. signed_diff cmp sub a b True False = Inr (d, s) \<and>
     (if s then - int (val d) else int (val d)) = int (val a) - int (val b)"
  using signed_diff_value [of a b True False] by fastforce

lemma signed_diff_neg:
  "\<exists>d s. signed_diff cmp sub a b False True = Inr (d, s) \<and>
     (if s then - int (val d) else int (val d)) = int (val b) - int (val a)"
  using signed_diff_value [of a b False True] by fastforce

end

lemma poly_cmp_less: "poly_cmp a b = -1 \<longleftrightarrow> pval a < pval b"
  using poly_cmp_iffs(3) [of a b] by (simp only: poly_less_def)

interpretation poly: magnitude pval poly_cmp poly_sub
  by unfold_locales (auto simp: poly_cmp_less elim: poly_sub_ok)

section \<open>Addition, subtraction, multiplication\<close>

definition bi_of_diff :: "(polynomial \<times> bool) result \<Rightarrow> bigint result" where
  "bi_of_diff r = bind_res r (\<lambda>(d, s). Inr (bi_make d s))"

definition bi_add :: "bigint \<Rightarrow> bigint \<Rightarrow> bigint result" where
  "bi_add x y =
     (if bi_sign x \<and> bi_sign y then Inr (bi_make (poly_add (mag x) (mag y)) True)
      else if bi_sign x \<and> \<not> bi_sign y then
        bi_of_diff (signed_diff poly_cmp poly_sub (mag x) (mag y) False True)
      else if \<not> bi_sign x \<and> bi_sign y then
        bi_of_diff (signed_diff poly_cmp poly_sub (mag x) (mag y) True False)
      else Inr (bi_make (poly_add (mag x) (mag y)) False))"

definition bi_sub :: "bigint \<Rightarrow> bigint \<Rightarrow> bigint result" where
  "bi_sub x y =
     (if bi_sign x \<and> bi_sign y then
        bi_of_diff (signed_diff poly_cmp poly_sub (mag x) (mag y) False True)
      else if bi_sign x \<and> \<not> bi_sign y then Inr (bi_make (poly_add (mag x) (mag y)) True)
      else if \<not> bi_sign x \<and> bi_sign y then Inr (bi_make (poly_add (mag x) (mag y)) False)
      else bi_of_diff (signed_diff poly_cmp poly_sub (mag x) (mag y) True False))"

definition out_sign :: "bigint \<Rightarrow> bigint \<Rightarrow> bool" where
  "out_sign x y =
     (if bi_sign x \<and> bi_sign y then False
      else if bi_sign x \<and> \<not> bi_sign y then True
      else if \<not> bi_sign x \<and> bi_sign y then True
      else False)"

definition bi_mul :: "bigint \<Rightarrow> bigint \<Rightarrow> bigint result" where
  "bi_mul x y = bind_res (poly_mul (mag x) (mag y)) (\<lambda>p. Inr (bi_make p (out_sign x y)))"

lemma bi_of_diff_pos:
  "\<exists>z. bi_of_diff (signed_diff poly_cmp poly_sub a b True False) = Inr z \<and> ival z = int (pval a) - int (pval b)"
  using poly.signed_diff_int [of a b] by (auto simp: bi_of_diff_def)

lemma bi_of_diff_neg:
  "\<exists>z. bi_of_diff (signed_diff poly_cmp poly_sub a b False True) = Inr z \<and> ival z = int (pval b) - int (pval a)"
  using poly.signed_diff_neg [of a b] by (auto simp: bi_of_diff_def)

lemma bi_add_ok: "\<exists>z. bi_add x y = Inr z \<and> ival z = ival x + ival y"
  using bi_of_diff_pos [of "mag x" "mag y"] bi_of_diff_neg [of "mag x" "mag y"]
  by (cases "ival x < 0"; cases "ival y < 0") (auto simp: bi_add_def pval_mag)

lemma bi_sub_ok: "\<exists>z. bi_sub x y = Inr z \<and> ival z = ival x - ival y"
  using bi_of_diff_pos [of "mag x" "mag y"] bi_of_diff_neg [of "mag x" "mag y"]
  by (cases "ival x < 0"; cases "ival y < 0") (auto simp: bi_sub_def pval_mag)

lemma bi_mul_ok: "\<exists>z. bi_mul x y = Inr z \<and> ival z = ival x * ival y"
proof -
  obtain p where p: "poly_mul (mag x) (mag y) = Inr p" "pval p = pval (mag x) * pval (mag y)"
    by (rule poly_mul_ok)
  have "int (pval p) = \<bar>ival x\<bar> * \<bar>ival y\<bar>" by (simp add: p(2) pval_mag)
  then have "ival (bi_make p (out_sign x y)) = ival x * ival y"
    by (cases "ival x < 0"; cases "ival y < 0") (auto simp: out_sign_def mult_neg_pos mult_pos_neg)
  then show ?thesis using p(1) by (simp add: bi_mul_def)
qed

section \<open>Properties\<close>

text \<open>Signed addition, subtraction and multiplication are those of the integers, on every pair of
  sign flags (a set flag on a zero magnitude included), and never throw.\<close>

theorem bi_arith_correct:
  "(\<exists>z. bi_add x y = Inr z \<and> ival z = ival x + ival y) \<and>
   (\<exists>z. bi_sub x y = Inr z \<and> ival z = ival x - ival y) \<and>
   (\<exists>z. bi_mul x y = Inr z \<and> ival z = ival x * ival y)"
  using bi_add_ok bi_sub_ok bi_mul_ok by blast

text \<open>The comparison operators are the order of the integers.\<close>

theorem bi_order_correct:
  "bi_cmp a b = sgn (ival a - ival b) \<and> (bi_eq a b \<longleftrightarrow> ival a = ival b) \<and>
   (bi_less a b \<longleftrightarrow> ival a < ival b) \<and> (bi_less_eq a b \<longleftrightarrow> ival a \<le> ival b)"
  by (simp add: bi_cmp_sgn)

end
