(* ===== verification/BigInt_Number.thy ===== *)
theory BigInt_Number
  imports BigInt_Arith
begin

text \<open>
  \<open>Core/bigint.cpp\<close>, number theory on top of the signed arithmetic: \<open>div\<close> with its two operators,
  word shifts, powers, the two \<open>gcd\<close>s, \<open>lcm\<close>, \<open>eed\<close>, \<open>inverse\<close> and the range loop of \<open>rand\<close>.

  Every loop of this part is unbounded in the code and a \<open>partial_function (option)\<close> here. The
  functional lemmas say that it returns, and what, for operands of fewer than 256 words (8160 bits),
  the range in which \<open>Polynomial::div\<close> is known to stay inside its arrays.
\<close>

section \<open>Division\<close>

text \<open>Only the magnitude of \<open>*remainder\<close> is written; its sign flag stays as it was.\<close>

definition bi_div :: "bigint \<Rightarrow> bigint \<Rightarrow> bigint option \<Rightarrow> (bigint \<times> bigint option) run" where
  "bi_div dividend divisor remainder =
     bind_run (poly_div (mag dividend) (mag divisor) (map_option mag remainder)) (\<lambda>(q, r).
       ret (bi_make q (out_sign dividend divisor),
            case remainder of None \<Rightarrow> None | Some old \<Rightarrow> map_option (\<lambda>a. old\<lparr>mag := a\<rparr>) r))"

definition bi_divide :: "bigint \<Rightarrow> bigint \<Rightarrow> bigint run" where
  "bi_divide x y = bind_run (bi_div x y None) (\<lambda>(q, _). ret q)"

definition bi_modulo :: "bigint \<Rightarrow> bigint \<Rightarrow> bigint run" where
  "bi_modulo x y = bind_run (bi_div x y (Some bi_nil)) (\<lambda>(_, r).
     case r of None \<Rightarrow> throw OutOfBounds | Some r \<Rightarrow> ret r)"

definition bi_shl :: "bigint \<Rightarrow> nat \<Rightarrow> bigint" where
  "bi_shl x count = bi_make (poly_shl (mag x) count) False"

definition bi_shr :: "bigint \<Rightarrow> nat \<Rightarrow> bigint" where
  "bi_shr x count = bi_make (poly_shr (mag x) count) False"

definition bi_pow :: "bigint \<Rightarrow> bigint \<Rightarrow> bigint run" where
  "bi_pow base exponent = bind_run (poly_pow (mag base) (mag exponent)) (\<lambda>p. ret (bi_make p False))"

definition bi_mod_pow :: "bigint \<Rightarrow> bigint \<Rightarrow> bigint \<Rightarrow> bigint run" where
  "bi_mod_pow base exponent divisor =
     bind_run (poly_mod_pow (mag base) (mag exponent) (mag divisor)) (\<lambda>p. ret (bi_make p False))"

text \<open>The range in which division is safe: fewer than 256 words.\<close>

definition bi_small :: "bigint \<Rightarrow> bool" where
  "bi_small x \<longleftrightarrow> poly_length (mag x) < RECURSIVE_THRESHOLD"

lemma bi_small_iff: "bi_small x \<longleftrightarrow> \<bar>ival x\<bar> < int (BASE ^ 255)"
proof -
  have "bi_small x \<longleftrightarrow> poly_length (mag x) \<le> 255"
    by (auto simp: bi_small_def RECURSIVE_THRESHOLD_def)
  also have "\<dots> \<longleftrightarrow> pval (mag x) < BASE ^ 255" by (rule poly_length_le_iff)
  finally show ?thesis by (simp only: pval_mag [symmetric] of_nat_less_iff)
qed

lemma bi_small_mono: "bi_small x \<Longrightarrow> \<bar>ival y\<bar> \<le> \<bar>ival x\<bar> \<Longrightarrow> bi_small y"
  by (simp only: bi_small_iff)

definition tdiv :: "int \<Rightarrow> int \<Rightarrow> int" where
  "tdiv x y = sgn x * sgn y * (\<bar>x\<bar> div \<bar>y\<bar>)"

lemma tdiv_nonneg [simp]: "0 \<le> x \<Longrightarrow> 0 < y \<Longrightarrow> tdiv x y = x div y"
  by (cases "x = 0") (simp_all add: tdiv_def)

lemma div_range_small: "bi_small y \<Longrightarrow> ival y \<noteq> 0 \<Longrightarrow> div_in_range (mag x) (mag y)"
  using poly_length_0_iff [of "mag y"] by (auto simp: bi_small_def div_in_range_def ival_def split: if_splits)

lemma ival_quotient:
  assumes "pval q = pval (mag x) div pval (mag y)"
  shows "ival (bi_make q (out_sign x y)) = tdiv (ival x) (ival y)"
proof -
  have q: "int (pval q) = \<bar>ival x\<bar> div \<bar>ival y\<bar>"
    by (simp only: assms zdiv_int pval_mag)
  show ?thesis
    unfolding ival_make q out_sign_def bi_sign_iff tdiv_def
    by (cases "ival x" "0 :: int" rule: linorder_cases;
        cases "ival y" "0 :: int" rule: linorder_cases) simp_all
qed

lemma bi_div_ok:
  assumes "bi_small y" and "ival y \<noteq> 0"
  obtains q r where "bi_div x y (Some old) = ret (q, Some r)"
    and "ival q = tdiv (ival x) (ival y)" and "neg r = neg old" and "\<bar>ival r\<bar> = \<bar>ival x\<bar> mod \<bar>ival y\<bar>"
proof -
  obtain q r where qr: "poly_div (mag x) (mag y) (Some (mag old)) = ret (q, Some r)"
    "pval q = pval (mag x) div pval (mag y)" "pval r = pval (mag x) mod pval (mag y)"
    by (rule poly_div_rem_ok [OF div_range_small [OF assms]])
  have "int (pval r) = \<bar>ival x\<bar> mod \<bar>ival y\<bar>"
    by (simp only: qr(3) zmod_int pval_mag)
  then show ?thesis
    using qr(1) ival_quotient [OF qr(2)]
    by (intro that [of "bi_make q (out_sign x y)" "old\<lparr>mag := r\<rparr>"]) (simp_all add: bi_div_def ival_def)
qed

lemma bi_divide_ok:
  assumes "bi_small y" and "ival y \<noteq> 0"
  obtains q where "bi_divide x y = ret q" and "ival q = tdiv (ival x) (ival y)"
proof -
  obtain q where "poly_div (mag x) (mag y) None = ret (q, None)"
    "pval q = pval (mag x) div pval (mag y)"
    using poly_div_quotient [OF div_range_small [OF assms]] by (auto simp: div_result_def)
  then show ?thesis
    using ival_quotient [of q x y] that by (simp add: bi_divide_def bi_div_def)
qed

lemma bi_modulo_ok:
  assumes "bi_small y" and "ival y \<noteq> 0"
  obtains r where "bi_modulo x y = ret r" and "ival r = \<bar>ival x\<bar> mod \<bar>ival y\<bar>"
proof -
  obtain q r where r: "bi_div x y (Some bi_nil) = ret (q, Some r)" "neg r = neg bi_nil"
    "\<bar>ival r\<bar> = \<bar>ival x\<bar> mod \<bar>ival y\<bar>"
    by (rule bi_div_ok [OF assms])
  have "ival r = \<bar>ival x\<bar> mod \<bar>ival y\<bar>" using r(2,3) by (simp add: ival_def bi_nil_def)
  then show ?thesis using that r(1) by (simp add: bi_modulo_def)
qed

lemma bi_div_by_zero:
  assumes "ival x \<noteq> 0" and "ival y = 0"
  shows "bi_div x y rem = throw (ArithmeticException ''divide by zero'')"
  using assms poly_div_zero [of "mag x" "mag y"] by (simp add: bi_div_def ival_def split: if_splits)

section \<open>Literals\<close>

text \<open>A C++ literal such as \<open>2\<close> reaches \<open>BigInt\<close> through the \<open>int32_t\<close> constructor.\<close>

definition bi_lit :: "32 word \<Rightarrow> bigint" where
  "bi_lit v = bi_of_int32 v"

lemma ival_lit [simp, val_simps]:
  "ival (bi_lit 0) = 0" "ival (bi_lit 1) = 1" "ival (bi_lit 2) = 2"
  by (simp_all add: bi_lit_def bi_of_int32_def from_uint64_def poly_of_list_def NEG_VAL_def Let_def)

lemma small_lit_2: "bi_small (bi_lit 2)"
proof -
  have "(2 :: int) < int BASE" by (simp add: BASE_def)
  also have "\<dots> \<le> int (BASE ^ 255)" using self_le_power [of BASE 255] BASE_gt by simp
  finally show ?thesis by (simp only: bi_small_iff ival_lit)
qed

lemma bi_half_ok:
  obtains q where "bi_divide x (bi_lit 2) = ret q" and "ival q = tdiv (ival x) 2"
  using bi_divide_ok [OF small_lit_2, of x] by auto

lemma pval_parity: "odd (pval xs) \<longleftrightarrow> xs \<noteq> [] \<and> odd (unat (xs ! 0))"
proof -
  have "even BASE" by (simp add: BASE_def)
  then show ?thesis by (cases xs) simp_all
qed

lemma bi_is_odd_iff [simp, val_simps]: "bi_is_odd x \<longleftrightarrow> odd (ival x)"
proof -
  have w: "v AND 1 \<noteq> 0 \<longleftrightarrow> odd (unat v)" for v :: word_t
    using bit_unsigned_iff [of v 0, where ?'a = nat] by (simp add: and_one_eq mod_2_eq_odd bit_0)
  have "poly_is_odd (mag x) \<longleftrightarrow> odd (pval (mag x))"
  proof (cases "poly_length (mag x) = 0")
    case True
    then have "pval (mag x) = 0" by (simp only: poly_length_0_iff)
    then show ?thesis using True by (simp add: poly_is_odd_def)
  next
    case False
    then have "mag x \<noteq> []" by (auto simp: poly_length_def)
    then show ?thesis using False w [of "mag x ! 0"] by (simp add: poly_is_odd_def pval_parity)
  qed
  then show ?thesis by (simp add: bi_is_odd_def ival_def)
qed

section \<open>Greatest common divisors\<close>

partial_function (option) bi_gcd :: "bigint \<Rightarrow> bigint \<Rightarrow> bigint run" where
  "bi_gcd m n =
     (if bi_less m n then bi_gcd n m
      else bind_run (bi_modulo m n) (\<lambda>r.
        if bi_is_zero r then ret n else bi_gcd n r))"

lemma bi_gcd_ordered:
  assumes "0 < ival n" and "ival n \<le> ival m" and "bi_small n"
  shows "\<exists>g. bi_gcd m n = ret g \<and> ival g = gcd (ival m) (ival n)"
  using assms
proof (induction "nat (ival n)" arbitrary: m n rule: less_induct)
  case less
  obtain r where r: "bi_modulo m n = ret r" "ival r = \<bar>ival m\<bar> mod \<bar>ival n\<bar>"
    using bi_modulo_ok [OF less.prems(3)] less.prems(1) by (metis less_irrefl)
  have rv: "ival r = ival m mod ival n" "0 \<le> ival r" "ival r < ival n"
    using r(2) less.prems by simp_all
  have step: "bi_gcd m n = (if bi_is_zero r then ret n else bi_gcd n r)"
    using less.prems r(1) by (subst bi_gcd.simps) simp
  show ?case
  proof (cases "ival r = 0")
    case True
    then have "gcd (ival m) (ival n) = ival n"
      using rv less.prems(1) by (simp add: gcd_proj2_iff mod_eq_0_iff_dvd)
    then show ?thesis using True step by simp
  next
    case False
    have "gcd (ival n) (ival r) = gcd (ival m) (ival n)"
      using rv(1) by (metis gcd.commute gcd_red_int)
    moreover have "\<exists>g. bi_gcd n r = ret g \<and> ival g = gcd (ival n) (ival r)"
    proof (rule less.hyps)
      show "bi_small r" using rv(2,3) less.prems by (intro bi_small_mono [OF less.prems(3)]) linarith
    qed (use False rv(2,3) less.prems(1) in linarith)+
    ultimately show ?thesis using False step by simp
  qed
qed

lemma bi_gcd_ok:
  assumes "0 < ival m" "0 < ival n" "bi_small m" "bi_small n"
  shows "\<exists>g. bi_gcd m n = ret g \<and> ival g = gcd (ival m) (ival n)"
proof (cases "ival m < ival n")
  case True
  then have "bi_gcd m n = bi_gcd n m" by (subst bi_gcd.simps) simp
  then show ?thesis using bi_gcd_ordered [of m n] True assms by (simp add: gcd.commute)
next
  case False
  then show ?thesis using bi_gcd_ordered [of n m] assms by simp
qed

lemma bi_gcd_zero:
  assumes "0 < ival m" and "ival n = 0"
  shows "bi_gcd m n = throw (ArithmeticException ''divide by zero'')"
  using assms by (subst bi_gcd.simps) (simp add: bi_modulo_def bi_div_by_zero)

text \<open>The binary algorithm: common factors of two first, counted in \<open>d\<close>, then subtract and halve.\<close>

partial_function (option) strip_twos ::
  "bigint \<Rightarrow> bigint \<Rightarrow> bigint \<Rightarrow> (bigint \<times> bigint \<times> bigint) run" where
  "strip_twos aP bP d =
     (if bi_is_even aP \<and> bi_is_even bP then
        bind_run (bi_divide aP (bi_lit 2)) (\<lambda>a.
        bind_run (bi_divide bP (bi_lit 2)) (\<lambda>b.
        bind_run (lift (bi_add d (bi_lit 1))) (\<lambda>d'. strip_twos a b d')))
      else ret (aP, bP, d))"

partial_function (option) odd_gcd :: "bigint \<Rightarrow> bigint \<Rightarrow> bigint run" where
  "odd_gcd aP bP =
     (if bi_neq aP bP then
        (if bi_is_even aP then bind_run (bi_divide aP (bi_lit 2)) (\<lambda>a. odd_gcd a bP)
         else if bi_is_even bP then bind_run (bi_divide bP (bi_lit 2)) (\<lambda>b. odd_gcd aP b)
         else if bi_greater aP bP then
           bind_run (lift (bi_sub aP bP)) (\<lambda>s. bind_run (bi_divide s (bi_lit 2)) (\<lambda>a. odd_gcd a bP))
         else
           bind_run (lift (bi_sub bP aP)) (\<lambda>s. bind_run (bi_divide s (bi_lit 2)) (\<lambda>b. odd_gcd aP b)))
      else ret aP)"

definition bi_binary_gcd :: "bigint \<Rightarrow> bigint \<Rightarrow> (bigint \<times> bigint) run" where
  "bi_binary_gcd a b = bind_run (strip_twos a b (bi_lit 0)) (\<lambda>(aP, bP, d).
     bind_run (odd_gcd aP bP) (\<lambda>g. ret (g, d)))"

lemma bi_is_even_iff [simp, val_simps]: "bi_is_even x \<longleftrightarrow> even (ival x)"
  by (simp add: bi_is_even_def)

lemma gcd_double: "gcd (2 * a) (2 * b) = 2 * gcd a (b :: int)"
  by (simp add: gcd_mult_left)

lemma strip_twos_ok:
  assumes "0 < ival a" and "0 < ival b"
  shows "\<exists>a' b' d' k. strip_twos a b d = ret (a', b', d') \<and> 0 < ival a' \<and> 0 < ival b' \<and>
    (odd (ival a') \<or> odd (ival b')) \<and> ival d' = ival d + int k \<and>
    ival a = 2 ^ k * ival a' \<and> ival b = 2 ^ k * ival b'"
  using assms
proof (induction "nat (ival a)" arbitrary: a b d rule: less_induct)
  case less
  show ?case
  proof (cases "even (ival a) \<and> even (ival b)")
    case False
    then have "strip_twos a b d = ret (a, b, d)"
      by (subst strip_twos.simps) auto
    then show ?thesis using False less.prems by (intro exI [of _ a] exI [of _ b] exI [of _ d] exI [of _ 0]) auto
  next
    case True
    obtain a1 where a1: "bi_divide a (bi_lit 2) = ret a1" "ival a1 = tdiv (ival a) 2" by (rule bi_half_ok)
    obtain b1 where b1: "bi_divide b (bi_lit 2) = ret b1" "ival b1 = tdiv (ival b) 2" by (rule bi_half_ok)
    obtain d1 where d1: "bi_add d (bi_lit 1) = Inr d1" "ival d1 = ival d + 1"
      using bi_add_ok [of d "bi_lit 1"] by auto
    have half: "ival a = 2 * ival a1" "ival b = 2 * ival b1"
      using a1(2) b1(2) True less.prems by simp_all
    have step: "strip_twos a b d = strip_twos a1 b1 d1"
      using True a1(1) b1(1) d1(1) by (subst strip_twos.simps) simp
    obtain a' b' d' k where ih: "strip_twos a1 b1 d1 = ret (a', b', d')" "0 < ival a'" "0 < ival b'"
      "odd (ival a') \<or> odd (ival b')" "ival d' = ival d1 + int k"
      "ival a1 = 2 ^ k * ival a'" "ival b1 = 2 ^ k * ival b'"
      using less.hyps [of a1 b1 d1] half less.prems by auto
    show ?thesis
      using ih half step d1(2)
      by (intro exI [of _ a'] exI [of _ b'] exI [of _ d'] exI [of _ "Suc k"]) simp
  qed
qed

lemma gcd_half: "odd (b :: int) \<Longrightarrow> gcd (2 * a) b = gcd a b"
  by (simp add: gcd_mult_left_left_cancel coprime_commute)

lemma odd_gcd_ok:
  assumes "0 < ival a" and "0 < ival b" and "odd (ival a) \<or> odd (ival b)"
  shows "\<exists>g. odd_gcd a b = ret g \<and> ival g = gcd (ival a) (ival b)"
  using assms
proof (induction "nat (ival a + ival b)" arbitrary: a b rule: less_induct)
  case less
  consider (eq) "ival a = ival b" | (ea) "ival a \<noteq> ival b" "even (ival a)"
    | (eb) "ival a \<noteq> ival b" "odd (ival a)" "even (ival b)"
    | (gr) "ival a > ival b" "odd (ival a)" "odd (ival b)"
    | (le) "ival a < ival b" "odd (ival a)" "odd (ival b)"
    using less.prems(3) by linarith
  then show ?case
  proof cases
    case eq
    then have "odd_gcd a b = ret a" by (subst odd_gcd.simps) simp
    then show ?thesis using eq less.prems by simp
  next
    case ea
    obtain a1 where a1: "bi_divide a (bi_lit 2) = ret a1" "ival a1 = tdiv (ival a) 2" by (rule bi_half_ok)
    then have half: "ival a = 2 * ival a1" using ea less.prems by simp
    have "odd_gcd a b = odd_gcd a1 b" using ea a1(1) by (subst odd_gcd.simps) simp
    moreover have "gcd (ival a) (ival b) = gcd (ival a1) (ival b)"
      using ea less.prems(3) unfolding half by (intro gcd_half) simp
    ultimately show ?thesis using less.hyps [of a1 b] half ea less.prems by simp
  next
    case eb
    obtain b1 where b1: "bi_divide b (bi_lit 2) = ret b1" "ival b1 = tdiv (ival b) 2" by (rule bi_half_ok)
    then have half: "ival b = 2 * ival b1" using eb less.prems by simp
    have "odd_gcd a b = odd_gcd a b1" using eb b1(1) by (subst odd_gcd.simps) simp
    moreover have "gcd (ival b) (ival a) = gcd (ival b1) (ival a)"
      using eb unfolding half by (intro gcd_half) simp
    ultimately show ?thesis using less.hyps [of a b1] half eb less.prems by (simp add: gcd.commute)
  next
    case gr
    obtain s where s: "bi_sub a b = Inr s" "ival s = ival a - ival b" using bi_sub_ok by blast
    obtain a1 where a1: "bi_divide s (bi_lit 2) = ret a1" "ival a1 = tdiv (ival s) 2" by (rule bi_half_ok)
    then have half: "ival a = 2 * ival a1 + ival b" using gr s(2) by simp
    have "odd_gcd a b = odd_gcd a1 b" using gr s(1) a1(1) by (subst odd_gcd.simps) simp
    moreover have "gcd (ival a) (ival b) = gcd (ival a1) (ival b)"
      using gr gcd_half [of "ival b" "ival a1"] unfolding half by (simp add: gcd_add1)
    ultimately show ?thesis using less.hyps [of a1 b] half gr less.prems by simp
  next
    case le
    obtain s where s: "bi_sub b a = Inr s" "ival s = ival b - ival a" using bi_sub_ok by blast
    obtain b1 where b1: "bi_divide s (bi_lit 2) = ret b1" "ival b1 = tdiv (ival s) 2" by (rule bi_half_ok)
    then have half: "ival b = 2 * ival b1 + ival a" using le s(2) by simp
    have "odd_gcd a b = odd_gcd a b1" using le s(1) b1(1) by (subst odd_gcd.simps) simp
    moreover have "gcd (ival b) (ival a) = gcd (ival b1) (ival a)"
      using le gcd_half [of "ival a" "ival b1"] unfolding half by (simp add: gcd_add1)
    ultimately show ?thesis using less.hyps [of a b1] half le less.prems by (simp add: gcd.commute)
  qed
qed

lemma bi_binary_gcd_ok:
  assumes "0 < ival a" and "0 < ival b"
  shows "\<exists>g d. bi_binary_gcd a b = ret (g, d) \<and> 0 \<le> ival d \<and>
    ival g * 2 ^ nat (ival d) = gcd (ival a) (ival b)"
proof -
  obtain a' b' d k where st: "strip_twos a b (bi_lit 0) = ret (a', b', d)" "0 < ival a'" "0 < ival b'"
    "odd (ival a') \<or> odd (ival b')" "ival d = int k" "ival a = 2 ^ k * ival a'" "ival b = 2 ^ k * ival b'"
    using strip_twos_ok [OF assms, of "bi_lit 0"] by auto
  obtain g where g: "odd_gcd a' b' = ret g" "ival g = gcd (ival a') (ival b')"
    using odd_gcd_ok [OF st(2-4)] by blast
  show ?thesis
    using st g by (intro exI [of _ g] exI [of _ d]) (simp add: bi_binary_gcd_def gcd_mult_left)
qed

definition bi_lcm :: "bigint \<Rightarrow> bigint \<Rightarrow> bigint run" where
  "bi_lcm a b = bind_run (lift (bi_mul a b)) (\<lambda>p. bind_run (bi_gcd a b) (\<lambda>g. bi_divide p g))"

lemma bi_lcm_ok:
  assumes "0 < ival a" "0 < ival b" "bi_small a" "bi_small b"
  shows "\<exists>l. bi_lcm a b = ret l \<and> ival l = lcm (ival a) (ival b)"
proof -
  obtain p where p: "bi_mul a b = Inr p" "ival p = ival a * ival b" using bi_mul_ok by blast
  obtain g where g: "bi_gcd a b = ret g" "ival g = gcd (ival a) (ival b)" using bi_gcd_ok [OF assms] by blast
  have g0: "0 < ival g" using g(2) assms by simp
  have "ival g \<le> ival a" unfolding g(2) using assms(1) by (intro gcd_le1_int)
  then have "bi_small g" using g0 by (intro bi_small_mono [OF assms(3)]) simp
  then obtain l where l: "bi_divide p g = ret l" "ival l = tdiv (ival p) (ival g)"
    using g0 bi_divide_ok [of g p] by (metis less_irrefl)
  have "ival l = lcm (ival a) (ival b)"
    using l(2) p(2) g(2) g0 assms by (simp add: lcm_altdef_int)
  then show ?thesis using p g l by (simp add: bi_lcm_def)
qed

section \<open>The extended Euclidean algorithm\<close>

text \<open>The body of \<open>eed\<close>'s \<open>do ... while (true)\<close>; \<open>r\<close> is declared outside the loop and keeps its sign
  flag from turn to turn. The result is \<open>dP\<close> with the two coefficients written through the references.\<close>

partial_function (option) eed_loop ::
  "bigint \<Rightarrow> bigint \<Rightarrow> bigint \<Rightarrow> bigint \<Rightarrow> bigint \<Rightarrow> bigint \<Rightarrow> bigint \<Rightarrow> (bigint \<times> bigint \<times> bigint) run" where
  "eed_loop cP dP aP a bP b r =
     bind_run (bi_div cP dP (Some r)) (\<lambda>(q, r'). case r' of None \<Rightarrow> throw OutOfBounds | Some r \<Rightarrow>
       if bi_is_zero r then ret (dP, a, b)
       else
         bind_run (lift (bi_mul q a)) (\<lambda>qa.
         bind_run (lift (bi_sub aP qa)) (\<lambda>a'.
         bind_run (lift (bi_mul q b)) (\<lambda>qb.
         bind_run (lift (bi_sub bP qb)) (\<lambda>b'.
           eed_loop dP r a a' b b' r)))))"

definition bi_eed :: "bigint \<Rightarrow> bigint \<Rightarrow> (bigint \<times> bigint \<times> bigint) run" where
  "bi_eed c d = eed_loop c d (bi_lit 1) (bi_lit 0) (bi_lit 0) (bi_lit 1) bi_nil"

lemma eed_loop_ok:
  assumes "0 \<le> ival cP" "0 < ival dP" "bi_small dP" "\<not> neg r"
    and "ival aP * c + ival bP * d = ival cP" and "ival a * c + ival b * d = ival dP"
  shows "\<exists>g x y. eed_loop cP dP aP a bP b r = ret (g, x, y) \<and> ival g = gcd (ival cP) (ival dP) \<and>
    ival x * c + ival y * d = ival g"
  using assms
proof (induction "nat (ival dP)" arbitrary: cP dP aP a bP b r rule: less_induct)
  case less
  obtain q r' where qr: "bi_div cP dP (Some r) = ret (q, Some r')" "ival q = tdiv (ival cP) (ival dP)"
    "neg r' = neg r" "\<bar>ival r'\<bar> = \<bar>ival cP\<bar> mod \<bar>ival dP\<bar>"
    using bi_div_ok [OF less.prems(3)] less.prems(2) by (metis less_irrefl)
  have q: "ival q = ival cP div ival dP" using qr(2) less.prems(1,2) by simp
  have r: "ival r' = ival cP mod ival dP"
    using qr(3,4) less.prems(1,2,4) by (simp add: ival_def)
  have r_less: "0 \<le> ival r'" "ival r' < ival dP" using r less.prems(2) by simp_all
  show ?case
  proof (cases "ival r' = 0")
    case True
    then have "gcd (ival cP) (ival dP) = ival dP"
      using r less.prems(2) by (simp add: gcd_proj2_iff mod_eq_0_iff_dvd)
    moreover have "eed_loop cP dP aP a bP b r = ret (dP, a, b)"
      using True qr(1) by (subst eed_loop.simps) simp
    ultimately show ?thesis using less.prems(6) by simp
  next
    case False
    obtain qa where qa: "bi_mul q a = Inr qa" "ival qa = ival q * ival a" using bi_mul_ok by blast
    obtain a' where a': "bi_sub aP qa = Inr a'" "ival a' = ival aP - ival qa" using bi_sub_ok by blast
    obtain qb where qb: "bi_mul q b = Inr qb" "ival qb = ival q * ival b" using bi_mul_ok by blast
    obtain b' where b': "bi_sub bP qb = Inr b'" "ival b' = ival bP - ival qb" using bi_sub_ok by blast
    have step: "eed_loop cP dP aP a bP b r = eed_loop dP r' a a' b b' r'"
      using False qr(1) qa(1) a'(1) qb(1) b'(1) by (subst eed_loop.simps) simp
    have "ival a' * c + ival b' * d = ival cP - ival q * (ival a * c + ival b * d)"
      unfolding a'(2) b'(2) qa(2) qb(2) less.prems(5) [symmetric] by (simp add: algebra_simps)
    also have "\<dots> = ival r'"
      by (simp add: less.prems(6) r q minus_div_mult_eq_mod)
    finally have bez: "ival a' * c + ival b' * d = ival r'" .
    have "bi_small r'" using r_less by (intro bi_small_mono [OF less.prems(3)]) simp
    then obtain g x y where "eed_loop dP r' a a' b b' r' = ret (g, x, y)"
      "ival g = gcd (ival dP) (ival r')" "ival x * c + ival y * d = ival g"
      using less.hyps [where dP = r' and cP = dP and aP = a and a = a' and bP = b and b = b' and r = r'] False r_less less.prems qr(3) bez by auto
    moreover have "gcd (ival dP) (ival r') = gcd (ival cP) (ival dP)"
      using r by (metis gcd.commute gcd_red_int)
    ultimately show ?thesis using step by simp
  qed
qed

lemma bi_eed_ok:
  assumes "0 \<le> ival c" "0 < ival d" "bi_small d"
  shows "\<exists>g x y. bi_eed c d = ret (g, x, y) \<and> ival g = gcd (ival c) (ival d) \<and>
    ival x * ival c + ival y * ival d = ival g"
  using assms unfolding bi_eed_def by (intro eed_loop_ok) (simp_all add: bi_nil_def)

section \<open>Modular inverse\<close>

partial_function (option) inverse_loop ::
  "bigint \<Rightarrow> bigint \<Rightarrow> bigint \<Rightarrow> bigint \<Rightarrow> (bigint \<times> bigint) run" where
  "inverse_loop t newt r newr =
     (if \<not> bi_is_zero newr then
        bind_run (bi_divide r newr) (\<lambda>quotient.
        bind_run (lift (bi_mul quotient newt)) (\<lambda>qt.
        bind_run (lift (bi_sub t qt)) (\<lambda>newt'.
        bind_run (lift (bi_mul quotient newr)) (\<lambda>qr.
        bind_run (lift (bi_sub r qr)) (\<lambda>newr'.
          inverse_loop newt newt' newr newr')))))
      else ret (t, r))"

definition bi_inverse :: "bigint \<Rightarrow> bigint \<Rightarrow> bigint run" where
  "bi_inverse a n =
     bind_run (inverse_loop (bi_lit 0) (bi_lit 1) n a) (\<lambda>(t, r).
       if bi_greater r (bi_make poly_one False)
       then throw (ArithmeticException ''coefficient is not invertible'')
       else if bi_less t (bi_make poly_zero False) then lift (bi_add t n)
       else ret t)"

text \<open>The invariant: the two remainders are multiples of \<open>a\<close> modulo \<open>n\<close>, with coefficients of
  opposite signs that stay below \<open>n\<close>.\<close>

definition inverse_inv :: "int \<Rightarrow> int \<Rightarrow> int \<Rightarrow> int \<Rightarrow> int \<Rightarrow> int \<Rightarrow> bool" where
  "inverse_inv a n t newt r newr \<longleftrightarrow>
     0 < r \<and> 0 \<le> newr \<and> (newr < r \<or> 1 < r) \<and> gcd r newr = gcd n a \<and>
     n dvd (r - t * a) \<and> n dvd (newr - newt * a) \<and>
     t * newt \<le> 0 \<and> \<bar>t\<bar> * newr + \<bar>newt\<bar> * r = n \<and> \<bar>t\<bar> < n"

lemma inverse_inv_step:
  assumes inv: "inverse_inv a n t newt r newr" and pos: "0 < newr" and q: "q = r div newr"
  shows "inverse_inv a n newt (t - q * newt) newr (r - q * newr)"
proof -
  have i: "0 < r" "newr < r \<or> 1 < r" "gcd r newr = gcd n a" "n dvd (r - t * a)" "n dvd (newr - newt * a)"
    "t * newt \<le> 0" "\<bar>t\<bar> * newr + \<bar>newt\<bar> * r = n"
    using inv by (simp_all add: inverse_inv_def)
  have q0: "0 \<le> q" using q i(1) pos by (simp add: pos_imp_zdiv_nonneg_iff)
  have rem: "r - q * newr = r mod newr" by (simp add: q minus_div_mult_eq_mod)
  have sgn: "\<bar>t - q * newt\<bar> = \<bar>t\<bar> + q * \<bar>newt\<bar>"
  proof (cases "0 \<le> newt")
    case True
    then have "t \<le> 0 \<or> newt = 0" using i(6) by (auto simp: mult_le_0_iff)
    moreover have "0 \<le> q * newt" using True q0 by simp
    ultimately show ?thesis using True by auto
  next
    case False
    then have "0 \<le> t" using i(6) by (simp add: mult_le_0_iff)
    then show ?thesis using False q0 mult_nonneg_nonpos [of q newt] by (simp add: abs_if)
  qed
  have prod: "newt * (t - q * newt) \<le> 0"
  proof -
    have "0 \<le> q * (newt * newt)" using q0 by simp
    then show ?thesis using i(6) by (simp add: algebra_simps)
  qed
  have sum: "\<bar>newt\<bar> * (r - q * newr) + \<bar>t - q * newt\<bar> * newr = n"
    unfolding sgn using i(7) by (simp add: algebra_simps)
  have div: "n dvd ((r - q * newr) - (t - q * newt) * a)"
  proof -
    have "(r - q * newr) - (t - q * newt) * a = (r - t * a) - q * (newr - newt * a)"
      by (simp add: algebra_simps)
    moreover have "n dvd (r - t * a) - q * (newr - newt * a)"
      by (rule dvd_diff [OF i(4) dvd_mult [OF i(5)]])
    ultimately show ?thesis by (simp only:)
  qed
  have "1 < r" using i(2) pos by linarith
  then have "\<bar>newt\<bar> * 2 \<le> \<bar>newt\<bar> * r" by (intro mult_left_mono) simp_all
  moreover have "0 \<le> \<bar>t\<bar> * newr" using pos by simp
  moreover have "0 < n"
    using inv by (simp add: inverse_inv_def) linarith
  ultimately have small: "\<bar>newt\<bar> < n" using i(7) by linarith
  have "gcd newr (r mod newr) = gcd n a" using i(3) by (metis gcd.commute gcd_red_int)
  moreover have "0 \<le> r mod newr" "r mod newr < newr" using pos by simp_all
  ultimately show ?thesis
    using pos prod sum div small i(5) unfolding inverse_inv_def rem [symmetric] by auto
qed

lemma inverse_loop_ok:
  assumes "inverse_inv a n (ival t) (ival newt) (ival r) (ival newr)" and "bi_small newr"
  shows "\<exists>t' r' m. inverse_loop t newt r newr = ret (t', r') \<and>
    inverse_inv a n (ival t') m (ival r') 0"
  using assms
proof (induction "nat (ival newr)" arbitrary: t newt r newr rule: less_induct)
  case less
  show ?case
  proof (cases "ival newr = 0")
    case True
    then have "inverse_loop t newt r newr = ret (t, r)" by (subst inverse_loop.simps) simp
    then show ?thesis using less.prems(1) True by auto
  next
    case False
    then have pos: "0 < ival newr" "0 < ival r" using less.prems(1) by (simp_all add: inverse_inv_def)
    obtain q where q: "bi_divide r newr = ret q" "ival q = tdiv (ival r) (ival newr)"
      using bi_divide_ok [OF less.prems(2)] pos(1) by (metis less_irrefl)
    have qv: "ival q = ival r div ival newr" using q(2) pos by simp
    obtain qt where qt: "bi_mul q newt = Inr qt" "ival qt = ival q * ival newt" using bi_mul_ok by blast
    obtain t1 where t1: "bi_sub t qt = Inr t1" "ival t1 = ival t - ival qt" using bi_sub_ok by blast
    obtain qr where qr: "bi_mul q newr = Inr qr" "ival qr = ival q * ival newr" using bi_mul_ok by blast
    obtain r1 where r1: "bi_sub r qr = Inr r1" "ival r1 = ival r - ival qr" using bi_sub_ok by blast
    have step: "inverse_loop t newt r newr = inverse_loop newt t1 newr r1"
      using False q(1) qt(1) t1(1) qr(1) r1(1) by (subst inverse_loop.simps) simp
    have inv: "inverse_inv a n (ival newt) (ival t1) (ival newr) (ival r1)"
      using inverse_inv_step [OF less.prems(1) pos(1) qv] by (simp only: t1(2) r1(2) qt(2) qr(2))
    have r1v: "ival r1 = ival r mod ival newr"
      by (simp add: r1(2) qr(2) qv minus_div_mult_eq_mod)
    then have lt: "0 \<le> ival r1" "ival r1 < ival newr" using pos by simp_all
    then have "bi_small r1" by (intro bi_small_mono [OF less.prems(2)]) simp
    then show ?thesis
      using less.hyps [of r1 newt t1 newr] inv lt pos(1) step by simp
  qed
qed

lemma inverse_loop_start:
  assumes "1 < ival n" "0 \<le> ival a" "bi_small a"
  obtains t r m where "inverse_loop (bi_lit 0) (bi_lit 1) n a = ret (t, r)"
    and "inverse_inv (ival a) (ival n) (ival t) m (ival r) 0"
proof -
  have "inverse_inv (ival a) (ival n) (ival (bi_lit 0)) (ival (bi_lit 1)) (ival n) (ival a)"
    using assms by (simp add: inverse_inv_def)
  then show ?thesis using inverse_loop_ok [OF _ assms(3)] that by blast
qed

lemma inverse_inv_end:
  assumes "inverse_inv a n t m r 0"
  shows "r = gcd n a" and "\<bar>t\<bar> < n" and "n dvd (r - t * a)"
  using assms by (auto simp: inverse_inv_def)

lemma bi_inverse_ok:
  assumes "1 < ival n" "0 \<le> ival a" "bi_small a" "coprime (ival a) (ival n)"
  shows "\<exists>t. bi_inverse a n = ret t \<and> 0 \<le> ival t \<and> ival t < ival n \<and>
    (ival t * ival a) mod ival n = 1"
proof -
  obtain t r m where l: "inverse_loop (bi_lit 0) (bi_lit 1) n a = ret (t, r)"
    "inverse_inv (ival a) (ival n) (ival t) m (ival r) 0"
    by (rule inverse_loop_start [OF assms(1-3)])
  have r: "ival r = 1" and t: "\<bar>ival t\<bar> < ival n" and d: "ival n dvd (ival r - ival t * ival a)"
    using inverse_inv_end [OF l(2)] assms(4) by (simp_all add: gcd.commute coprime_iff_gcd_eq_1)
  have m: "(ival t * ival a) mod ival n = 1"
    using d r assms(1) by (metis mod_eq_dvd_iff mod_pos_pos_trivial zero_le_one)
  obtain s where s: "bi_add t n = Inr s" "ival s = ival t + ival n" using bi_add_ok by blast
  have res: "bi_inverse a n = (if ival t < 0 then ret s else ret t)"
    using l(1) r s(1) by (simp add: bi_inverse_def)
  have "(ival s * ival a) mod ival n = 1" using m by (simp add: s(2) distrib_right)
  then show ?thesis using res t m s(2) by auto
qed

lemma bi_inverse_none:
  assumes "1 < ival n" "0 \<le> ival a" "bi_small a" "\<not> coprime (ival a) (ival n)"
  shows "bi_inverse a n = throw (ArithmeticException ''coefficient is not invertible'')"
proof -
  obtain t r m where l: "inverse_loop (bi_lit 0) (bi_lit 1) n a = ret (t, r)"
    "inverse_inv (ival a) (ival n) (ival t) m (ival r) 0"
    by (rule inverse_loop_start [OF assms(1-3)])
  have "ival r = gcd (ival n) (ival a)" by (rule inverse_inv_end [OF l(2)])
  moreover have "gcd (ival n) (ival a) \<noteq> 1" using assms(4) by (simp add: gcd.commute coprime_iff_gcd_eq_1)
  moreover have "0 < gcd (ival n) (ival a)" using assms(1) by simp
  ultimately have "1 < ival r" by linarith
  then show ?thesis using l(1) by (simp add: bi_inverse_def)
qed

section \<open>Properties\<close>

lemma bi_small_make: "poly_length a < 256 \<Longrightarrow> bi_small (bi_make a s)"
  by (simp add: bi_small_def RECURSIVE_THRESHOLD_def)

text \<open>Signed division truncates towards zero, but the remainder it hands back is that of the
  magnitudes: \<open>%\<close> of a negative dividend is not negative, and quotient and remainder then do not
  recombine to the dividend.\<close>

theorem bi_div_correct:
  assumes "bi_small y" and "ival y \<noteq> 0"
  shows "(\<exists>q. bi_divide x y = ret q \<and> ival q = sgn (ival x) * sgn (ival y) * (\<bar>ival x\<bar> div \<bar>ival y\<bar>)) \<and>
    (\<exists>r. bi_modulo x y = ret r \<and> ival r = \<bar>ival x\<bar> mod \<bar>ival y\<bar>)"
  using bi_divide_ok [OF assms, of x] bi_modulo_ok [OF assms, of x] by (metis tdiv_def)

text \<open>\<open>gcd\<close> of two positive numbers returns their greatest common divisor.\<close>

theorem bi_gcd_correct:
  assumes "0 < ival m" "0 < ival n" "bi_small m" "bi_small n"
  shows "\<exists>g. bi_gcd m n = ret g \<and> ival g = gcd (ival m) (ival n)"
  using assms by (rule bi_gcd_ok)

text \<open>The binary \<open>gcd(a, b, g, d)\<close> returns on all positive numbers, of any size, and splits the
  greatest common divisor into \<open>g * 2 ^ d\<close>.\<close>

theorem bi_binary_gcd_correct:
  assumes "0 < ival a" and "0 < ival b"
  shows "\<exists>g d. bi_binary_gcd a b = ret (g, d) \<and> 0 \<le> ival d \<and>
    ival g * 2 ^ nat (ival d) = gcd (ival a) (ival b)"
  using assms by (rule bi_binary_gcd_ok)

text \<open>\<open>eed\<close> returns the greatest common divisor with Bezout coefficients.\<close>

theorem bi_eed_correct:
  assumes "0 \<le> ival c" "0 < ival d" "bi_small d"
  shows "\<exists>g x y. bi_eed c d = ret (g, x, y) \<and> ival g = gcd (ival c) (ival d) \<and>
    ival x * ival c + ival y * ival d = ival g"
  using assms by (rule bi_eed_ok)

text \<open>\<open>inverse\<close> returns the inverse in the range \<open>0 \<le> t < n\<close> when there is one, and throws
  \<open>coefficient is not invertible\<close> when there is none.\<close>

theorem bi_inverse_correct:
  assumes "1 < ival n" "0 \<le> ival a" "bi_small a"
  shows "if coprime (ival a) (ival n)
    then (\<exists>t. bi_inverse a n = ret t \<and> 0 \<le> ival t \<and> ival t < ival n \<and> (ival t * ival a) mod ival n = 1)
    else bi_inverse a n = throw (ArithmeticException ''coefficient is not invertible'')"
  using bi_inverse_ok [OF assms] bi_inverse_none [OF assms] by simp

end
