(* ===== verification/BigInt_Octets.thy ===== *)
theory BigInt_Octets
  imports BigInt_Number
begin

text \<open>
  \<open>Core/bigint.cpp\<close>, conversions: the big-endian octet constructor, \<open>to_octet_string\<close>, the values
  of the machine-integer constructors, and \<open>rand\<close>, whose entropy (\<open>Utility::random_bytes\<close>) is a
  parameter: the list of words it delivered.
\<close>

section \<open>Octets and words\<close>

text \<open>\<open>w <<= 8; w |= octet[j];\<close> over a range of octets.\<close>

definition octets_word :: "byte list \<Rightarrow> nat \<Rightarrow> nat \<Rightarrow> word_t" where
  "octets_word octet b e = fold (\<lambda>oc w. push_bit 8 w OR ucast oc) (take (e - b) (drop b octet)) 0"

lemma fold_octets:
  "fold (\<lambda>oc w. push_bit 8 w OR ucast (oc :: byte)) bs (word_of_nat v) =
    (word_of_nat (foldl (\<lambda>v b. v * 256 + unat b) v bs) :: word_t)"
proof (induction bs arbitrary: v)
  case (Cons b bs)
  have "push_bit 8 (word_of_nat v) OR ucast b = (word_of_nat (v * 256 + unat b) :: word_t)"
    unfolding shift_or by (simp add: of_nat_unat)
  then show ?case using Cons [of "v * 256 + unat b"] by simp
qed simp

lemma octets_word_value:
  assumes "e - b \<le> 4"
  shows "unat (octets_word octet b e) = be_val (take (e - b) (drop b octet))"
proof -
  let ?bs = "take (e - b) (drop b octet)"
  have "octets_word octet b e = word_of_nat (be_val ?bs)"
    using fold_octets [of ?bs 0] by (simp add: octets_word_def be_val_def)
  moreover have "be_val ?bs < 2 ^ 32"
  proof -
    have "(256 :: nat) ^ length ?bs \<le> 256 ^ 4" using assms by (intro power_increasing) simp_all
    then show ?thesis using be_val_less [of ?bs] by simp
  qed
  ultimately show ?thesis by (simp add: unat_of_nat)
qed

definition bi_of_octets :: "byte list \<Rightarrow> bool \<Rightarrow> bigint" where
  "bi_of_octets octet sign =
     (let len = length octet; words = (len + 3) div 4;
          a = map (\<lambda>i. let e = len - i * 4; b = (if e > 4 then e - 4 else 0) in octets_word octet b e)
                [0..<words] in
      if words > 0 \<and> sign \<and> a ! (words - 1) AND NEG_VAL \<noteq> 0
      then bi_make (a[words - 1 := a ! (words - 1) AND POS_VAL]) True
      else bi_make a False)"

definition word_octets :: "word_t \<Rightarrow> byte list" where
  "word_octets w = map (\<lambda>j. ucast (drop_bit ((4 - j - 1) * 8) w AND 0xff)) [0..<4]"

fun emit_words :: "polynomial \<Rightarrow> word_t \<Rightarrow> nat \<Rightarrow> byte list" where
  "emit_words a w 0 = []"
| "emit_words a w (Suc i) = word_octets w @ emit_words a (if i \<ge> 1 then a ! (i - 1) else w) i"

definition bi_to_octets :: "bool \<Rightarrow> bigint \<Rightarrow> byte list" where
  "bi_to_octets sign x =
     (let a = mag x; a_len = poly_length a; w = a ! (a_len - 1) in
      if a_len > 0 then
        (if sign \<and> w AND NEG_VAL \<noteq> 0
         then (let val = if bi_sign x then NEG_VAL else 0 in
               map (\<lambda>i. ucast (drop_bit (4 - i - 1) val)) [0..<4])
         else []) @
        emit_words a (if sign \<and> bi_sign x \<and> w AND NEG_VAL = 0 then w OR NEG_VAL else w) a_len
      else [])"

section \<open>The octet constructor\<close>

definition octet_words :: "byte list \<Rightarrow> polynomial" where
  "octet_words octet = map (\<lambda>i. let e = length octet - i * 4; b = (if e > 4 then e - 4 else 0) in
     octets_word octet b e) [0..<(length octet + 3) div 4]"

lemma octet_words_snoc:
  assumes "length zs = 4"
  shows "octet_words (ys @ zs) = octets_word zs 0 4 # octet_words ys"
proof -
  have n: "(length (ys @ zs) + 3) div 4 = Suc ((length ys + 3) div 4)" using assms by simp
  have hd: "octets_word (ys @ zs) (length ys) (length ys + 4) = octets_word zs 0 4"
    by (simp add: octets_word_def assms)
  have tl: "octets_word (ys @ zs) b e = octets_word ys b e" if "e \<le> length ys" for b e
    using that by (simp add: octets_word_def)
  show ?thesis
    unfolding octet_words_def n map_upt_Suc
    using assms hd tl by (auto simp: Let_def)
qed

lemma pval_octet_words: "pval (octet_words octet) = be_val octet"
proof (induction "length octet" arbitrary: octet rule: less_induct)
  case less
  show ?case
  proof (cases "length octet \<le> 4")
    case True
    consider "octet = []" | "0 < length octet" by auto
    then show ?thesis
    proof cases
      case 2
      then have "(length octet + 3) div 4 = 1" using True by presburger
      then show ?thesis
        using True octets_word_value [of "length octet" 0 octet] by (simp add: octet_words_def Let_def)
    qed (simp add: octet_words_def)
  next
    case False
    let ?ys = "take (length octet - 4) octet" and ?zs = "drop (length octet - 4) octet"
    have zs: "length ?zs = 4" using False by simp
    have "pval (octet_words (?ys @ ?zs)) = be_val (?ys @ ?zs)"
      using less [of ?ys] False octets_word_value [of 4 0 ?zs]
      by (simp only: octet_words_snoc [OF zs] be_val_append) (simp add: zs BASE_def)
    then show ?thesis by (simp only: append_take_drop_id)
  qed
qed

lemma bi_of_octets_unsigned: "bi_of_octets octet False = bi_make (octet_words octet) False"
  by (simp add: bi_of_octets_def octet_words_def Let_def)

section \<open>Writing octets\<close>

lemma four_digits: "c * 256 + q = b \<Longrightarrow> b * 256 + r = a \<Longrightarrow> a * 256 + s = (u :: nat) \<Longrightarrow>
  c * 2 ^ 24 + q * 2 ^ 16 + r * 2 ^ 8 + s = u"
  by auto

lemma BASE_neq_0: "BASE \<noteq> 0"
  by (simp add: BASE_def)

lemma four_octets: "(u :: nat) < 2 ^ 32 \<Longrightarrow>
  (u div 2 ^ 24 mod 256) * 2 ^ 24 + (u div 2 ^ 16 mod 256) * 2 ^ 16 + (u div 2 ^ 8 mod 256) * 2 ^ 8 + u mod 256 = u"
proof -
  assume "u < 2 ^ 32"
  then have a: "u div 2 ^ 24 mod 256 = u div 2 ^ 16 div 256" by (simp add: div_mult2_eq [symmetric])
  have b: "u div 2 ^ 16 = u div 2 ^ 8 div 256" by (simp add: div_mult2_eq [symmetric])
  have "(u div 2 ^ 16 div 256) * 256 + u div 2 ^ 16 mod 256 = u div 2 ^ 16"
    "(u div 2 ^ 8 div 256) * 256 + u div 2 ^ 8 mod 256 = u div 2 ^ 8"
    "(u div 2 ^ 8) * 256 + u mod 256 = u"
    by (rule div_mult_mod_eq, rule div_mult_mod_eq) (simp add: div_mult_mod_eq)
  then show ?thesis unfolding a b by (rule four_digits)
qed

lemma word_octets_list:
  "word_octets w = [ucast (drop_bit 24 w AND 0xff), ucast (drop_bit 16 w AND 0xff),
     ucast (drop_bit 8 w AND 0xff), ucast (drop_bit 0 w AND 0xff)]"
  by (simp add: word_octets_def upt_rec)

lemma length_word_octets [simp]: "length (word_octets w) = 4"
  by (simp add: word_octets_def)

lemma be_val_word_octets [simp]: "be_val (word_octets w) = unat w"
proof -
  have "unat w < 2 ^ 32" using unsigned_less [of w, where ?'a = nat] by simp
  then show ?thesis
    using four_octets [of "unat w"] unfolding word_octets_list be_val_simps unat_octet_of_word by simp
qed

lemma pow_256: "256 ^ (4 * n) = BASE ^ n"
  by (simp add: power_mult BASE_def)

lemma length_emit_words [simp]: "length (emit_words a w n) = 4 * n"
  by (induction a w n rule: emit_words.induct) simp_all

lemma be_val_emit_words:
  "k \<le> length a \<Longrightarrow> be_val (emit_words a w (Suc k)) = pval (take k a @ [w])"
proof (induction k arbitrary: w)
  case (Suc k)
  have "be_val (emit_words a w (Suc (Suc k))) = unat w * BASE ^ Suc k + be_val (emit_words a (a ! k) (Suc k))"
    by (subst emit_words.simps) (simp only: be_val_append be_val_word_octets length_emit_words pow_256, simp)
  also have "be_val (emit_words a (a ! k) (Suc k)) = pval (take k a @ [a ! k])" using Suc by simp
  also have "take k a @ [a ! k] = take (Suc k) a" using Suc.prems by (simp add: take_Suc_conv_app_nth)
  finally show ?case using Suc.prems by (simp add: pval_append min_absorb2)
qed simp

lemma pval_inj: "length xs = length ys \<Longrightarrow> pval xs = pval ys \<Longrightarrow> xs = ys"
proof (induction xs ys rule: list_induct2)
  case (Cons x xs y ys)
  have "unat x = pval (x # xs) mod BASE" "pval xs = pval (x # xs) div BASE"
    and "unat y = pval (y # ys) mod BASE" "pval ys = pval (y # ys) div BASE"
    by (simp_all only: pval.simps mod_mult_self2 div_mult_self2 BASE_neq_0 not_False_eq_True
        mod_less div_less unat_less_BASE add_0_right)
  then have "unat x = unat y" "pval xs = pval ys" using Cons.prems by (simp_all only:)
  then show ?case using Cons.IH by (simp add: word_unat_eq_iff)
qed simp

lemma length_octet_words [simp]: "length (octet_words octet) = (length octet + 3) div 4"
  by (simp add: octet_words_def)

lemma octet_words_eqI:
  "be_val octet = pval a \<Longrightarrow> length octet = 4 * length a \<Longrightarrow> octet_words octet = a"
  by (rule pval_inj) (simp_all add: pval_octet_words)

lemma octet_words_emit: "k \<le> length a \<Longrightarrow> octet_words (emit_words a w (Suc k)) = take k a @ [w]"
  by (rule octet_words_eqI) (simp_all only: be_val_emit_words length_emit_words, simp)

lemma zeros4: "replicate 4 (0 :: byte) = [0, 0, 0, 0]"
  by (simp add: numeral_eq_Suc)

lemma octet_words_emit_padded:
  "k \<le> length a \<Longrightarrow> octet_words (replicate 4 0 @ emit_words a w (Suc k)) = (take k a @ [w]) @ [0]"
  by (rule octet_words_eqI) (simp_all add: be_val_emit_words pval_append del: emit_words.simps)

section \<open>The round trip\<close>

lemma NEG_VAL_bit: "w AND NEG_VAL \<noteq> 0 \<longleftrightarrow> bit w 31"
  using and_exp_eq_0_iff_not_bit [of w 31] by (simp add: NEG_VAL_def)

lemma POS_of_OR_NEG: "\<not> bit w 31 \<Longrightarrow> (w OR NEG_VAL) AND POS_VAL = w"
proof -
  assume top: "\<not> bit w 31"
  have P: "POS_VAL = mask 31" by (simp add: POS_VAL_def mask_eq_exp_minus_1)
  have N: "bit NEG_VAL n \<longleftrightarrow> n = 31" for n
    using bit_exp_iff [where 'a = "32 word", of 31 n] by (auto simp: NEG_VAL_def)
  show ?thesis
  proof (rule bit_word_eqI)
    fix n
    assume "n < LENGTH(32)"
    then show "bit ((w OR NEG_VAL) AND POS_VAL) n \<longleftrightarrow> bit w n"
      using top by (cases "n = 31") (auto simp: P N bit_simps)
  qed
qed

lemma bit_OR_NEG: "bit (w OR NEG_VAL) 31"
  by (simp add: NEG_VAL_def bit_simps)

abbreviation top_word_of :: "bigint \<Rightarrow> word_t" where
  "top_word_of x \<equiv> mag x ! (poly_length (mag x) - 1)"

lemma bi_of_octets_words:
  assumes "octet_words octet = ws @ [w]"
  shows "bi_of_octets octet sign =
    (if sign \<and> bit w 31 then bi_make (ws @ [w AND POS_VAL]) True else bi_make (ws @ [w]) False)"
proof -
  have n: "(length octet + 3) div 4 = Suc (length ws)"
    using length_octet_words [of octet] by (simp add: assms)
  show ?thesis
    using assms unfolding bi_of_octets_def octet_words_def Let_def n
    by (simp only: NEG_VAL_bit) (simp add: nth_append list_update_append)
qed

lemma take_top: "0 < poly_length xs \<Longrightarrow> take (poly_length xs - 1) xs @ [xs ! (poly_length xs - 1)] = take (poly_length xs) xs"
  using poly_length_le [of xs] take_Suc_conv_app_nth [of "poly_length xs - 1" xs]
  by (cases "poly_length xs") simp_all

lemma pval_trim [simp]: "pval (take (poly_length xs) xs) = pval xs"
  by (simp add: pval_take_poly_length)

lemma octets_roundtrip_unsigned:
  "ival (bi_of_octets (bi_to_octets False x) s') = \<bar>ival x\<bar>" if "s' = False"
proof (cases "poly_length (mag x)")
  case 0
  then have "pval (mag x) = 0" by (simp only: poly_length_0_iff)
  then show ?thesis
    using 0 by (simp add: bi_to_octets_def Let_def bi_of_octets_def ival_def)
next
  case (Suc k)
  have oct: "bi_to_octets False x = emit_words (mag x) (top_word_of x) (Suc k)"
    using Suc by (simp add: bi_to_octets_def Let_def)
  have "octet_words (bi_to_octets False x) = take (Suc k) (mag x)"
    using take_top [of "mag x"] poly_length_le [of "mag x"] Suc
    by (simp only: oct octet_words_emit) (simp add: octet_words_emit del: emit_words.simps)
  then show ?thesis
    using that Suc pval_trim [of "mag x"] by (simp add: bi_of_octets_unsigned pval_mag del: pval_trim)
qed

lemma octets_roundtrip_signed:
  "ival (bi_of_octets (bi_to_octets True x) True) =
    (if ival x < 0 \<and> bit (top_word_of x) 31 then - ival x else ival x)"
proof (cases "poly_length (mag x)")
  case 0
  then have "pval (mag x) = 0" by (simp only: poly_length_0_iff)
  then show ?thesis
    using 0 by (simp add: bi_to_octets_def Let_def bi_of_octets_def ival_def)
next
  case (Suc k)
  let ?a = "mag x" and ?w = "top_word_of x"
  have le: "k \<le> length ?a" using poly_length_le [of ?a] Suc by simp
  have top: "take k ?a @ [?w] = take (poly_length ?a) ?a" using take_top [of ?a] Suc by simp
  consider (wide) "bit ?w 31" | (neg) "\<not> bit ?w 31" "ival x < 0" | (pos) "\<not> bit ?w 31" "0 \<le> ival x"
    by linarith
  then show ?thesis
  proof cases
    case wide
    have "map (\<lambda>i. ucast (drop_bit (4 - i - 1) (if bi_sign x then NEG_VAL else 0)) :: byte) [0..<4] = replicate 4 0"
      unfolding zeros4 by (simp add: upt_rec NEG_VAL_def)
    then have "bi_to_octets True x = replicate 4 0 @ emit_words ?a ?w (Suc k)"
      using wide Suc NEG_VAL_bit [of ?w]
      by (simp only: bi_to_octets_def Let_def) (simp del: emit_words.simps)
    then have "octet_words (bi_to_octets True x) = take (poly_length ?a) ?a @ [0]"
      by (simp only: octet_words_emit_padded [OF le] top)
    then show ?thesis
      using wide by (simp add: bi_of_octets_words pval_append pval_mag)
  next
    case neg
    have "bi_to_octets True x = emit_words ?a (?w OR NEG_VAL) (Suc k)"
      using neg Suc NEG_VAL_bit [of ?w] by (simp add: bi_to_octets_def Let_def)
    then have "octet_words (bi_to_octets True x) = take k ?a @ [?w OR NEG_VAL]"
      by (simp only: octet_words_emit [OF le])
    then show ?thesis
      using neg top by (simp add: bi_of_octets_words bit_OR_NEG POS_of_OR_NEG pval_mag)
  next
    case pos
    have "bi_to_octets True x = emit_words ?a ?w (Suc k)"
      using pos Suc NEG_VAL_bit [of ?w] by (simp add: bi_to_octets_def Let_def)
    then have w: "octet_words (bi_to_octets True x) = take k ?a @ [?w]"
      by (simp only: octet_words_emit [OF le])
    show ?thesis
      unfolding bi_of_octets_words [OF w] using pos top by (simp add: pval_mag)
  qed
qed

lemma length_bi_to_octets: "length (bi_to_octets sign x) = bi_length sign x"
  by (simp add: bi_to_octets_def bi_length_def bi_size_def Let_def)

section \<open>Machine integers\<close>

lemma low_word_scast: "ucast (scast v AND 0xFFFFFFFF :: u64) = (v :: word_t)"
proof -
  have m: "(0xFFFFFFFF :: u64) = mask 32" by (simp add: mask_eq_exp_minus_1)
  show ?thesis
    unfolding m
  proof (rule bit_word_eqI)
    fix n
    assume "n < LENGTH(32)"
    then show "bit (ucast (scast v AND mask 32 :: u64) :: word_t) n \<longleftrightarrow> bit v n"
      by (cases "n = 31") (auto simp: bit_simps)
  qed
qed

lemma high_word_scast:
  "ucast (drop_bit 32 (scast (v :: word_t) :: u64)) = (if bit v 31 then -1 else 0 :: word_t)"
  by (rule bit_word_eqI) (auto simp: bit_simps min_def)

lemma from_uint64_scast:
  "from_uint64 (scast v) = [v, if bit v 31 then -1 else 0]"
  unfolding from_uint64_def poly_of_list_def low_word_scast high_word_scast by simp

lemma unat_minus_one_word: "unat (-1 :: word_t) = BASE - 1"
  by (simp add: BASE_def unsigned_minus_1_eq_mask mask_eq_exp_minus_1)

lemma uint_POS: "uint (w AND POS_VAL) = uint w mod 2 ^ 31"
proof -
  have "POS_VAL = mask 31" by (simp add: POS_VAL_def mask_eq_exp_minus_1)
  then have "w AND POS_VAL = take_bit 31 w" by (simp only: take_bit_eq_mask)
  then have "uint (w AND POS_VAL) = take_bit 31 (uint w)" by (simp only: unsigned_take_bit_eq)
  then show ?thesis by (simp add: take_bit_eq_mod)
qed

lemma uint_split: "uint (w :: word_t) = uint w mod 2 ^ 31 + (if bit w 31 then 2 ^ 31 else 0)"
proof -
  have "take_bit (Suc 31) (uint w) = 2 ^ 31 * of_bool (bit w 31) + take_bit 31 (uint w)"
    by (simp only: take_bit_Suc_from_most bit_uint_iff) simp
  moreover have "take_bit (Suc 31) (uint w) = uint w"
    using unsigned_less [of w, where ?'a = int] by (simp add: take_bit_int_eq_self_iff)
  ultimately show ?thesis by (cases "bit w 31") (simp_all add: take_bit_eq_mod)
qed

lemma sint_split: "sint (w :: word_t) = uint w - (if bit w 31 then 2 ^ 32 else 0)"
proof -
  have "sint w = take_bit (Suc 31) (uint w) - 2 ^ Suc 31 * of_bool (bit w 31)"
    by (simp only: sint_uint signed_take_bit_eq_take_bit_minus bit_uint_iff) simp
  moreover have "take_bit (Suc 31) (uint w) = uint w"
    using unsigned_less [of w, where ?'a = int] by (simp add: take_bit_int_eq_self_iff)
  ultimately show ?thesis by simp
qed

lemma bi_of_int32_value:
  "ival (bi_of_int32 v) =
     (if 0 \<le> sint v then sint v else - ((2 ^ 32 - 1) * 2 ^ 32 + (sint v + 2 ^ 31)))"
proof (cases "bit v 31")
  case True
  then have "bi_of_int32 v = bi_make [v AND POS_VAL, -1] True"
    by (simp add: bi_of_int32_def from_uint64_scast NEG_VAL_bit)
  moreover have "sint v < 0"
    using sint_split [of v] unsigned_less [of v, where ?'a = int] True by simp
  ultimately show ?thesis
    using sint_split [of v] uint_split [of v] True
    by (simp add: unat_minus_one_word uint_POS BASE_def)
next
  case False
  then have "bi_of_int32 v = bi_make [v, 0] False"
    using NEG_VAL_bit [of v] by (simp add: bi_of_int32_def from_uint64_scast)
  then show ?thesis using sint_split [of v] False by simp
qed

lemma bi_of_int64_value:
  "ival (bi_of_int64 v) = (if 0 \<le> sint v then sint v else - (sint v + 2 ^ 63))"
proof -
  let ?h = "ucast (drop_bit 32 v) :: word_t" and ?l = "ucast (v AND 0xFFFFFFFF) :: word_t"
  have h: "uint ?h = uint v div 2 ^ 32" and l: "uint ?l = uint v mod 2 ^ 32"
    unfolding uint_nat unat_ucast_high32 unat_ucast_and_mask32
    by (simp_all add: BASE_def zdiv_int zmod_int)
  have a: "from_uint64 v = [?l, ?h]" by (simp add: from_uint64_def poly_of_list_def)
  have top: "bit ?h 31 \<longleftrightarrow> bit v 63" by (simp add: bit_simps)
  have s: "sint v = uint v - (if bit v 63 then 2 ^ 64 else 0)"
  proof -
    have "sint v = take_bit (Suc 63) (uint v) - 2 ^ Suc 63 * of_bool (bit v 63)"
      by (simp only: sint_uint signed_take_bit_eq_take_bit_minus bit_uint_iff) simp
    moreover have "take_bit (Suc 63) (uint v) = uint v"
      using unsigned_less [of v, where ?'a = int] by (simp add: take_bit_int_eq_self_iff)
    ultimately show ?thesis by simp
  qed
  have v: "uint ?h * 2 ^ 32 + uint ?l = uint v" unfolding h l by (rule div_mult_mod_eq)
  show ?thesis
  proof (cases "bit v 63")
    case True
    then have "bi_of_int64 v = bi_make [?l, ?h AND POS_VAL] True"
      using NEG_VAL_bit [of ?h] top by (simp add: bi_of_int64_def a Let_def)
    moreover have "sint v < 0"
      using s unsigned_less [of v, where ?'a = int] True by simp
    moreover have "uint (?h AND POS_VAL) = uint ?h - 2 ^ 31"
      using uint_split [of ?h] True top unfolding uint_POS by simp
    ultimately show ?thesis using s v True by (simp add: BASE_def)
  next
    case False
    then have "bi_of_int64 v = bi_make [?l, ?h] False"
      using NEG_VAL_bit [of ?h] top by (simp add: bi_of_int64_def a Let_def)
    then show ?thesis using s v False by (simp add: BASE_def)
  qed
qed

section \<open>Random numbers\<close>

text \<open>\<open>words\<close> are the words drawn from \<open>Utility::random_bytes\<close>, one per word of the result.\<close>

definition bi_rand :: "word_t list \<Rightarrow> bigint result" where
  "bi_rand words =
     (let count = length words in
      if count = 0 then Inl (ArithmeticException ''random number of zero words requested'')
      else Inr (bi_make (words[count - 1 := (words ! (count - 1) AND 0x7FFFFFFF) OR 0x40000000]) False))"

partial_function (option) rand_loop :: "bigint \<Rightarrow> bigint \<Rightarrow> bigint \<Rightarrow> bigint run" where
  "rand_loop num r s =
     (if bi_greater num s \<or> bi_less num r then
        bind_run (bi_modulo num s) (\<lambda>m. bind_run (lift (bi_add m r)) (\<lambda>num'. rand_loop num' r s))
      else ret num)"

definition bi_rand_range :: "(nat \<Rightarrow> word_t list) \<Rightarrow> bigint \<Rightarrow> bigint \<Rightarrow> bigint run" where
  "bi_rand_range entropy r s =
     bind_run (lift (bi_rand (entropy (poly_length (mag r))))) (\<lambda>num. rand_loop num r s)"

lemma uint_rand_top: "2 ^ 30 \<le> unat ((w AND 0x7FFFFFFF) OR 0x40000000 :: word_t)"
  "unat ((w AND 0x7FFFFFFF) OR 0x40000000 :: word_t) < 2 ^ 31"
proof -
  let ?r = "(w AND 0x7FFFFFFF) OR 0x40000000 :: word_t"
  have m: "(0x7FFFFFFF :: word_t) = mask 31" by (simp add: mask_eq_exp_minus_1)
  have e: "bit (0x40000000 :: word_t) n \<longleftrightarrow> n = 30" for n
    using bit_exp_iff [where 'a = "32 word", of 30 n] by auto
  have a: "bit (w AND 0x7FFFFFFF) n \<Longrightarrow> n < 31" for n
    unfolding m by (simp only: bit_and_iff bit_mask_iff)
  have gen: "take_bit 31 (a OR c) = a OR c"
    if "\<And>n. bit a n \<Longrightarrow> n < 31" "\<And>n. bit c n \<longleftrightarrow> n = 30" for a c :: word_t
  proof (rule bit_word_eqI)
    fix n
    have "bit a n \<or> bit c n \<Longrightarrow> n < 31" using that(1) [of n] that(2) [of n] by auto
    then show "bit (take_bit 31 (a OR c)) n \<longleftrightarrow> bit (a OR c) n"
      unfolding bit_take_bit_iff bit_or_iff by blast
  qed
  have "take_bit 31 ?r = ?r" by (rule gen [OF a e])
  then have "unat ?r = unat (take_bit 31 ?r)" by (rule arg_cong [OF sym])
  also have "\<dots> = take_bit 31 (unat ?r)" by (rule unsigned_take_bit_eq)
  also have "\<dots> < 2 ^ 31" by (rule take_bit_nat_less_exp)
  finally show "unat ?r < 2 ^ 31" .
  have "0x40000000 \<le> ?r" by (subst or.commute) (rule le_word_or2)
  then show "2 ^ 30 \<le> unat ?r" by (simp add: word_le_nat_alt)
qed

lemma rand_loop_step:
  assumes "ival num > ival s \<or> ival num < ival r" and "0 < ival s" and "bi_small s"
  obtains num' where "rand_loop num r s = rand_loop num' r s"
    and "ival num' = \<bar>ival num\<bar> mod ival s + ival r"
proof -
  obtain m where m: "bi_modulo num s = ret m" "ival m = \<bar>ival num\<bar> mod \<bar>ival s\<bar>"
    using bi_modulo_ok [OF assms(3)] assms(2) by (metis less_irrefl)
  obtain n where n: "bi_add m r = Inr n" "ival n = ival m + ival r" using bi_add_ok by blast
  have "rand_loop num r s = rand_loop n r s"
    using assms(1) m(1) n(1) by (subst rand_loop.simps) auto
  then show ?thesis using that m(2) n(2) assms(2) by simp
qed

lemma rand_loop_near:
  assumes "0 \<le> ival r" "ival r < ival s" "bi_small s" "ival r \<le> ival num" "ival num < ival s + ival r"
  shows "\<exists>x. rand_loop num r s = ret x \<and> ival r \<le> ival x \<and> ival x \<le> ival s"
  using assms
proof (induction "nat (ival num)" arbitrary: num rule: less_induct)
  case less
  show ?case
  proof (cases "ival num \<le> ival s")
    case True
    then have "rand_loop num r s = ret num" using less.prems by (subst rand_loop.simps) simp
    then show ?thesis using True less.prems by simp
  next
    case False
    then obtain n where n: "rand_loop num r s = rand_loop n r s" "ival n = \<bar>ival num\<bar> mod ival s + ival r"
      using rand_loop_step [of s num r] less.prems by (metis not_le le_less_trans)
    have "ival num mod ival s = ival num - ival s"
      using False less.prems mod_pos_pos_trivial [of "ival num - ival s" "ival s"]
      by (simp add: minus_mod_self2)
    then have "ival n = ival num - ival s + ival r" using n(2) less.prems by simp
    then show ?thesis using less.hyps [of n] n(1) False less.prems by simp
  qed
qed

lemma rand_loop_ok:
  assumes "0 \<le> ival r" "ival r < ival s" "bi_small s"
  shows "\<exists>x. rand_loop num r s = ret x \<and> ival r \<le> ival x \<and> ival x \<le> ival s"
proof (cases "ival num > ival s \<or> ival num < ival r")
  case True
  have s0: "0 < ival s" using assms by linarith
  obtain n where n: "rand_loop num r s = rand_loop n r s" "ival n = \<bar>ival num\<bar> mod ival s + ival r"
    by (rule rand_loop_step [OF True s0 assms(3)])
  have "ival r \<le> ival n" "ival n < ival s + ival r" using n(2) s0 by simp_all
  then show ?thesis using rand_loop_near [OF assms] n(1) by simp
next
  case False
  then have "rand_loop num r s = ret num" by (subst rand_loop.simps) auto
  then show ?thesis using False by auto
qed

section \<open>Properties\<close>

text \<open>The unsigned octet round trip is exact, for numbers of any length.\<close>

theorem octets_unsigned_roundtrip:
  "ival (bi_of_octets (bi_to_octets False x) False) = \<bar>ival x\<bar>"
  by (rule octets_roundtrip_unsigned) (rule refl)

text \<open>The signed octet round trip is exact, except for a negative number whose top word has its
  high bit set: the prefix word meant to carry the sign is shifted by bits instead of octets, comes
  out as zero, and the number reads back positive.\<close>

theorem octets_signed_roundtrip:
  "ival (bi_of_octets (bi_to_octets True x) True) =
     (if ival x < 0 \<and> bit (mag x ! (poly_length (mag x) - 1)) 31 then - ival x else ival x)"
  by (rule octets_roundtrip_signed)

text \<open>The big-endian octet constructor reads any number of octets, not only whole words.\<close>

theorem octets_value: "ival (bi_of_octets octet False) = int (be_val octet)"
  by (simp add: bi_of_octets_unsigned pval_octet_words)

text \<open>The constructor from a 32-bit integer is right on non-negative values only: a negative one
  is sign-extended to 64 bits and only the low word's sign bit is cleared.\<close>

theorem bi_of_int32_correct:
  "ival (bi_of_int32 v) =
     (if 0 \<le> sint v then sint v else - ((2 ^ 32 - 1) * 2 ^ 32 + (sint v + 2 ^ 31)))"
  by (rule bi_of_int32_value)

text \<open>\<open>rand(r, s)\<close> returns a number from \<open>r\<close> to \<open>s\<close>, both included, whatever the entropy, when
  \<open>0 < r < s\<close>.\<close>

theorem bi_rand_range_correct:
  assumes "0 < ival r" "ival r < ival s" "bi_small s"
    and "length (entropy (poly_length (mag r))) = poly_length (mag r)"
  shows "\<exists>x. bi_rand_range entropy r s = ret x \<and> ival r \<le> ival x \<and> ival x \<le> ival s"
proof -
  have "pval (mag r) \<noteq> 0" using assms(1) by (simp add: ival_def split: if_splits)
  then have "poly_length (mag r) \<noteq> 0" by (simp only: poly_length_0_iff not_False_eq_True)
  then obtain num where "bi_rand (entropy (poly_length (mag r))) = Inr num"
    using assms(4) by (simp add: bi_rand_def Let_def)
  then show ?thesis using rand_loop_ok [of r s num] assms by (simp add: bi_rand_range_def)
qed

end
