(* ===== verification/DER_Codec.thy ===== *)
theory DER_Codec
  imports Streams BigInt_Octets
begin

text \<open>
  \<open>Encoding/der.cpp\<close>: the encoders and decoders, in the order of the file. An encoder takes the stream
  last and returns it; \<open>swrite [a, b]\<close> is \<open>put(a); put(b)\<close>. A decoder reads with \<open>get()\<close>, whose end of
  file (-1) becomes the octet 0xFF or, in a length, all ones: no decoder checks for it. Lengths are
  64-bit words. Memory for a length is assumed to be available, and what an uninitialised buffer holds
  (\<open>decode_tlv\<close>) is a parameter. The calendar (\<open>Utility::time_to_string\<close> and back, which are \<open>strftime\<close>
  and \<open>strptime\<close>) is a parameter too.
\<close>

section \<open>Tags\<close>

definition TAG_BOOLEAN :: byte where "TAG_BOOLEAN = 0x01"
definition TAG_INTEGER :: byte where "TAG_INTEGER = 0x02"
definition TAG_BIT_STRING :: byte where "TAG_BIT_STRING = 0x03"
definition TAG_OCTET_STRING :: byte where "TAG_OCTET_STRING = 0x04"
definition TAG_NULL :: byte where "TAG_NULL = 0x05"
definition TAG_OID :: byte where "TAG_OID = 0x06"
definition TAG_UTF8_STRING :: byte where "TAG_UTF8_STRING = 0x0C"
definition TAG_PRINTABLE_STRING :: byte where "TAG_PRINTABLE_STRING = 0x13"
definition TAG_IA5_STRING :: byte where "TAG_IA5_STRING = 0x16"
definition TAG_UTC_TIME :: byte where "TAG_UTC_TIME = 0x17"
definition TAG_GENERALIZED_TIME :: byte where "TAG_GENERALIZED_TIME = 0x18"
definition TAG_BMP_STRING :: byte where "TAG_BMP_STRING = 0x1E"
definition TAG_SEQUENCE :: byte where "TAG_SEQUENCE = 0x30"
definition TAG_SET :: byte where "TAG_SET = 0x31"
definition TAG_CONTEXT :: byte where "TAG_CONTEXT = 0xA0"

definition invalid_tag :: exn where "invalid_tag = EncodingException ''DER invalid TAG''"
definition invalid_length :: exn where "invalid_length = EncodingException ''DER invalid LENGTH''"
definition invalid_value :: exn where "invalid_value = EncodingException ''DER invalid VALUE''"

section \<open>Lengths\<close>

definition encode_length :: "u64 \<Rightarrow> stream \<Rightarrow> stream" where
  "encode_length len s =
     (if len < 0x80 then sput (byte_at 0 len) s
      else if len < 0x100 then swrite [0x81, byte_at 0 len] s
      else if len < 0x10000 then swrite [0x82, byte_at 8 len, byte_at 0 len] s
      else if len < 0x1000000 then swrite [0x83, byte_at 16 len, byte_at 8 len, byte_at 0 len] s
      else if len < 0x100000000 then
        swrite [0x84, byte_at 24 len, byte_at 16 len, byte_at 8 len, byte_at 0 len] s
      else if len < 0x10000000000 then
        swrite [0x85, byte_at 32 len, byte_at 24 len, byte_at 16 len, byte_at 8 len, byte_at 0 len] s
      else if len < 0x1000000000000 then
        swrite [0x86, byte_at 40 len, byte_at 32 len, byte_at 24 len, byte_at 16 len, byte_at 8 len,
                byte_at 0 len] s
      else if len < 0x100000000000000 then
        swrite [0x87, byte_at 48 len, byte_at 40 len, byte_at 32 len, byte_at 24 len, byte_at 16 len,
                byte_at 8 len, byte_at 0 len] s
      else
        swrite [0x88, byte_at 56 len, byte_at 48 len, byte_at 40 len, byte_at 32 len, byte_at 24 len,
                byte_at 16 len, byte_at 8 len, byte_at 0 len] s)"

section \<open>Booleans and machine integers\<close>

definition encode_boolean :: "bool \<Rightarrow> stream \<Rightarrow> stream" where
  "encode_boolean value s = swrite [TAG_BOOLEAN, 0x01, if value then 0xFF else 0x00] s"

definition encode_int8 :: "8 word \<Rightarrow> stream \<Rightarrow> stream" where
  "encode_int8 value s = swrite [TAG_INTEGER, 0x01, value] s"

definition encode_uint8 :: "8 word \<Rightarrow> stream \<Rightarrow> stream" where
  "encode_uint8 value s =
     (if value < 0x80 then encode_int8 value s
      else swrite [TAG_INTEGER, 0x02, 0x00, value] s)"

definition encode_int16 :: "16 word \<Rightarrow> stream \<Rightarrow> stream" where
  "encode_int16 value s =
     (if value < 0x80 then encode_int8 (ucast value) s
      else if value < 0x100 then encode_uint8 (ucast value) s
      else swrite [TAG_INTEGER, 0x02, byte_at 8 value, byte_at 0 value] s)"

definition encode_uint16 :: "16 word \<Rightarrow> stream \<Rightarrow> stream" where
  "encode_uint16 value s =
     (if value < 0x80 then encode_int8 (ucast value) s
      else if value < 0x100 then encode_uint8 (ucast value) s
      else if value < 0x8000 then encode_int16 value s
      else swrite [TAG_INTEGER, 0x03, 0x00, byte_at 8 value, byte_at 0 value] s)"

definition encode_int32 :: "32 word \<Rightarrow> stream \<Rightarrow> stream" where
  "encode_int32 value s =
     (if value < 0x80 then encode_int8 (ucast value) s
      else if value < 0x100 then encode_uint8 (ucast value) s
      else if value < 0x8000 then encode_int16 (ucast value) s
      else if value < 0x10000 then encode_uint16 (ucast value) s
      else if value < 0x800000 then
        swrite [TAG_INTEGER, 0x03, byte_at 16 value, byte_at 8 value, byte_at 0 value] s
      else if value < 0x1000000 then
        swrite [TAG_INTEGER, 0x04, 0x00, byte_at 16 value, byte_at 8 value, byte_at 0 value] s
      else
        swrite [TAG_INTEGER, 0x04, byte_at 24 value, byte_at 16 value, byte_at 8 value, byte_at 0 value] s)"

definition encode_uint32 :: "32 word \<Rightarrow> stream \<Rightarrow> stream" where
  "encode_uint32 value s =
     (if value < 0x80 then encode_int8 (ucast value) s
      else if value < 0x100 then encode_uint8 (ucast value) s
      else if value < 0x8000 then encode_int16 (ucast value) s
      else if value < 0x10000 then encode_uint16 (ucast value) s
      else if value < 0x80000000 then encode_int32 value s
      else
        swrite [TAG_INTEGER, 0x05, 0x00, byte_at 24 value, byte_at 16 value, byte_at 8 value,
                byte_at 0 value] s)"

text \<open>The branch for values from \<open>2 ^ 55\<close> to \<open>2 ^ 56\<close> writes no tag.\<close>

definition encode_int64 :: "64 word \<Rightarrow> stream \<Rightarrow> stream" where
  "encode_int64 value s =
     (if value < 0x80 then encode_int8 (ucast value) s
      else if value < 0x100 then encode_uint8 (ucast value) s
      else if value < 0x8000 then encode_int16 (ucast value) s
      else if value < 0x10000 then encode_uint16 (ucast value) s
      else if value < 0x80000000 then encode_int32 (ucast value) s
      else if value < 0x100000000 then encode_uint32 (ucast value) s
      else if value < 0x8000000000 then
        swrite [TAG_INTEGER, 0x05, byte_at 32 value, byte_at 24 value, byte_at 16 value, byte_at 8 value,
                byte_at 0 value] s
      else if value < 0x10000000000 then
        swrite [TAG_INTEGER, 0x06, 0x00, byte_at 32 value, byte_at 24 value, byte_at 16 value,
                byte_at 8 value, byte_at 0 value] s
      else if value < 0x800000000000 then
        swrite [TAG_INTEGER, 0x06, byte_at 40 value, byte_at 32 value, byte_at 24 value, byte_at 16 value,
                byte_at 8 value, byte_at 0 value] s
      else if value < 0x1000000000000 then
        swrite [TAG_INTEGER, 0x07, 0x00, byte_at 40 value, byte_at 32 value, byte_at 24 value,
                byte_at 16 value, byte_at 8 value, byte_at 0 value] s
      else if value < 0x80000000000000 then
        swrite [TAG_INTEGER, 0x07, byte_at 48 value, byte_at 40 value, byte_at 32 value, byte_at 24 value,
                byte_at 16 value, byte_at 8 value, byte_at 0 value] s
      else if value < 0x100000000000000 then
        swrite [0x08, 0x00, byte_at 48 value, byte_at 40 value, byte_at 32 value, byte_at 24 value,
                byte_at 16 value, byte_at 8 value, byte_at 0 value] s
      else
        swrite [TAG_INTEGER, 0x08, byte_at 56 value, byte_at 48 value, byte_at 40 value, byte_at 32 value,
                byte_at 24 value, byte_at 16 value, byte_at 8 value, byte_at 0 value] s)"

definition encode_uint64 :: "64 word \<Rightarrow> stream \<Rightarrow> stream" where
  "encode_uint64 value s =
     (if value < 0x80 then encode_int8 (ucast value) s
      else if value < 0x100 then encode_uint8 (ucast value) s
      else if value < 0x8000 then encode_int16 (ucast value) s
      else if value < 0x10000 then encode_uint16 (ucast value) s
      else if value < 0x80000000 then encode_int32 (ucast value) s
      else if value < 0x100000000 then encode_uint32 (ucast value) s
      else if value < 0x8000000000000000 then encode_int64 value s
      else
        swrite [TAG_INTEGER, 0x09, 0x00, byte_at 56 value, byte_at 48 value, byte_at 40 value,
                byte_at 32 value, byte_at 24 value, byte_at 16 value, byte_at 8 value, byte_at 0 value] s)"

section \<open>Integers of any size\<close>

definition encode_integer_array :: "byte list \<Rightarrow> stream \<Rightarrow> stream" where
  "encode_integer_array array s =
     (let s = sput TAG_INTEGER s; s = encode_length (word_of_nat (length array)) s in swrite array s)"

text \<open>\<open>while (begin + 1 < length && octets.at(begin) == 0x00 && (octets.at(begin + 1) & 0x80) == 0x00)\<close>\<close>

function trim_begin :: "nat \<Rightarrow> stream \<Rightarrow> nat \<Rightarrow> nat \<times> stream" where
  "trim_begin len octets i =
     (if i + 1 < len then
        (let (c, octets) = bs_at (int i) octets in
         if c = 0 then
           (let (d, octets) = bs_at (int (i + 1)) octets in
            if (word_of_int d :: byte) AND 0x80 = 0 then trim_begin len octets (i + 1) else (i, octets))
         else (i, octets))
      else (i, octets))"
  by pat_completeness auto
termination by (relation "measure (\<lambda>(len, _, i). len - i)") auto

declare trim_begin.simps [simp del]

definition encode_integer_stream :: "stream \<Rightarrow> stream \<Rightarrow> stream \<times> stream" where
  "encode_integer_stream integer s =
     (let (len, integer) = bs_length integer;
          (integer, octets) = bs_read_to_at 0 (nat len) integer (new_stream []);
          (i, octets) = trim_begin (nat len) octets 0;
          s = sput TAG_INTEGER s;
          s = encode_length (word_of_int (len - int i)) s;
          (octets, s) = bs_read_to_at (int i) (nat len - i) octets s
      in (integer, s))"

definition encode_bigint :: "bigint \<Rightarrow> stream \<Rightarrow> stream" where
  "encode_bigint number s =
     (let bigint_stream = swrite (bi_to_octets True number) (new_stream []) in
      snd (encode_integer_stream bigint_stream s))"

section \<open>Strings of bits and octets, null\<close>

definition bit_octets :: "nat \<Rightarrow> nat" where
  "bit_octets len = (if len mod 8 = 0 then len div 8 + 1 else len div 8 + 2)"

text \<open>The second octet is \<open>length % 8\<close>, where DER has the number of unused bits.\<close>

definition encode_bit_string :: "byte list \<Rightarrow> nat \<Rightarrow> stream \<Rightarrow> stream result" where
  "encode_bit_string array len s =
     (let octet_length = bit_octets len;
          s = sput TAG_BIT_STRING s;
          s = encode_length (word_of_nat octet_length) s;
          s = sput (word_of_nat (len mod 8)) s in
      bind_res (slice array 0 (octet_length - 1)) (\<lambda>bs. Inr (swrite bs s)))"

definition encode_bit_string_stream :: "stream \<Rightarrow> nat \<Rightarrow> stream \<Rightarrow> stream \<times> stream" where
  "encode_bit_string_stream bits len s =
     (let octet_length = bit_octets len;
          s = sput TAG_BIT_STRING s;
          s = encode_length (word_of_nat octet_length) s;
          s = sput (word_of_nat (len mod 8)) s in
      bs_read_to_at 0 octet_length bits s)"

definition encode_octet_string :: "byte list \<Rightarrow> stream \<Rightarrow> stream" where
  "encode_octet_string array s =
     (let s = sput TAG_OCTET_STRING s; s = encode_length (word_of_nat (length array)) s in swrite array s)"

definition encode_octet_string_stream :: "stream \<Rightarrow> stream \<Rightarrow> stream \<times> stream" where
  "encode_octet_string_stream octets s =
     (let s = sput TAG_OCTET_STRING s; (len, octets) = bs_length octets;
          s = encode_length (word_of_int len) s in
      bs_read_to_at 0 (nat len) octets s)"

definition encode_null :: "stream \<Rightarrow> stream" where
  "encode_null s = swrite [TAG_NULL, 0x00] s"

section \<open>Object identifiers\<close>

text \<open>\<open>0x80 | (uint8_t)((node >> k) & 0x7F)\<close>, and the last one without the flag.\<close>

definition oid_more :: "nat \<Rightarrow> word_t \<Rightarrow> byte" where
  "oid_more k node = 0x80 OR ucast (drop_bit k node AND 0x7F)"

definition oid_last :: "word_t \<Rightarrow> byte" where
  "oid_last node = ucast node AND 0x7F"

definition encode_oid_node :: "word_t \<Rightarrow> stream \<Rightarrow> stream" where
  "encode_oid_node node s =
     (if node < 0x80 then sput (ucast node) s
      else if node < 0x100 then swrite [0x81, oid_last node] s
      else if node < 0x10000 then
        (if drop_bit 14 node > 0
         then swrite [0x80 OR ucast (drop_bit 14 node), oid_more 7 node, oid_last node] s
         else swrite [oid_more 7 node, oid_last node] s)
      else if node < 0x1000000 then
        (if drop_bit 21 node > 0
         then swrite [0x80 OR ucast (drop_bit 21 node), oid_more 14 node, oid_more 7 node, oid_last node] s
         else swrite [oid_more 14 node, oid_more 7 node, oid_last node] s)
      else
        (if drop_bit 28 node > 0
         then swrite [0x80 OR ucast (drop_bit 28 node), oid_more 21 node, oid_more 14 node, oid_more 7 node,
                      oid_last node] s
         else swrite [oid_more 21 node, oid_more 14 node, oid_more 7 node, oid_last node] s))"

text \<open>An identifier needs two arcs at least: the code reads them without looking.\<close>

definition encode_oid :: "word_t list \<Rightarrow> stream \<Rightarrow> stream result" where
  "encode_oid nodes s =
     (if length nodes < 2 then Inl OutOfBounds
      else
        (let s = sput TAG_OID s;
             nodes_stream = encode_oid_node (nodes ! 0 * 40 + nodes ! 1) (new_stream []);
             nodes_stream = fold encode_oid_node (drop 2 nodes) nodes_stream;
             (len, nodes_stream) = bs_length nodes_stream;
             s = encode_length (word_of_int len) s;
             (nodes_stream, s) = bs_read_to_at 0 (nat len) nodes_stream s
         in Inr s))"

text \<open>The overload that takes an array and its length; it reads two arcs even of a shorter array.\<close>

definition encode_oid_array :: "word_t list \<Rightarrow> nat \<Rightarrow> stream \<Rightarrow> stream result" where
  "encode_oid_array nodes len s =
     (if length nodes < max 2 len then Inl OutOfBounds
      else
        (let s = sput TAG_OID s;
             nodes_stream = encode_oid_node (nodes ! 0 * 40 + nodes ! 1) (new_stream []);
             nodes_stream = fold (\<lambda>i. encode_oid_node (nodes ! i)) [2..<len] nodes_stream;
             (octets_length, nodes_stream) = bs_length nodes_stream;
             s = encode_length (word_of_int octets_length) s;
             (nodes_stream, s) = bs_read_to_at 0 (nat octets_length) nodes_stream s
         in Inr s))"

section \<open>Character strings and times\<close>

definition encode_utf8_string :: "byte list \<Rightarrow> stream \<Rightarrow> stream" where
  "encode_utf8_string array s =
     (let s = sput TAG_UTF8_STRING s; s = encode_length (word_of_nat (length array)) s in swrite array s)"

text \<open>The allowed characters: a blank, a quote, parentheses, plus, comma, minus, full stop, slash, colon,
  equals and the question mark. \<open>char\<close> is signed: an octet of 0x80 or more is below \<open>'0'\<close>.\<close>

definition allowed_chars :: "byte list" where
  "allowed_chars = [32, 39, 40, 41, 43, 44, 45, 46, 47, 58, 61, 63]"

definition printable_char :: "byte \<Rightarrow> bool" where
  "printable_char ch \<longleftrightarrow>
     ch \<in> set allowed_chars \<or>
     \<not> (sint ch < 48 \<or> (sint ch > 57 \<and> sint ch < 65) \<or> (sint ch > 90 \<and> sint ch < 97) \<or> sint ch > 122)"

definition unallowed_char :: "byte \<Rightarrow> exn" where
  "unallowed_char ch =
     EncodingException (''DER unallowed PrintableString character '' @ [char_of (39 :: nat), char_of (unat ch), char_of (39 :: nat)])"

text \<open>The characters before the offending one have been written when it throws: the stream is
  returned with the exception.\<close>

fun put_printable :: "byte list \<Rightarrow> stream \<Rightarrow> exn option \<times> stream" where
  "put_printable [] s = (None, s)"
| "put_printable (ch # cs) s =
     (if \<not> printable_char ch then (Some (unallowed_char ch), s) else put_printable cs (sput ch s))"

definition encode_printable_string :: "byte list \<Rightarrow> stream \<Rightarrow> exn option \<times> stream" where
  "encode_printable_string array s =
     (let s = sput TAG_PRINTABLE_STRING s; s = encode_length (word_of_nat (length array)) s in
      put_printable array s)"

definition encode_ia5_string :: "byte list \<Rightarrow> stream \<Rightarrow> stream" where
  "encode_ia5_string array s =
     (let s = sput TAG_IA5_STRING s; s = encode_length (word_of_nat (length array)) s in swrite array s)"

definition encode_utc_time :: "(int \<Rightarrow> string \<Rightarrow> bool \<Rightarrow> byte list) \<Rightarrow> int \<Rightarrow> bool \<Rightarrow> stream \<Rightarrow> stream" where
  "encode_utc_time time_to_string time is_gmt s =
     (let s = sput TAG_UTC_TIME s; s = encode_length 13 s;
          s = swrite (time_to_string time ''%y%m%d%H%M%S'' is_gmt) s in
      sput (if is_gmt then 0x5A else 0x30) s)"

definition encode_generalized_time :: "(int \<Rightarrow> string \<Rightarrow> bool \<Rightarrow> byte list) \<Rightarrow> int \<Rightarrow> bool \<Rightarrow> stream \<Rightarrow> stream" where
  "encode_generalized_time time_to_string time is_gmt s =
     (let s = sput TAG_GENERALIZED_TIME s; s = encode_length 15 s;
          s = swrite (time_to_string time ''%Y%m%d%H%M%S'' is_gmt) s in
      sput (if is_gmt then 0x5A else 0x30) s)"

definition encode_bmp_string :: "byte list \<Rightarrow> stream \<Rightarrow> stream" where
  "encode_bmp_string array s =
     (let s = sput TAG_BMP_STRING s; s = encode_length (word_of_nat (length array)) s in swrite array s)"

section \<open>Containers\<close>

definition encode_content :: "byte \<Rightarrow> stream \<Rightarrow> stream \<Rightarrow> stream \<times> stream" where
  "encode_content tag content s =
     (let s = sput tag s; (len, content) = bs_length content; s = encode_length (word_of_int len) s in
      bs_read_to_at 0 (nat len) content s)"

definition encode_sequence :: "stream \<Rightarrow> stream \<Rightarrow> stream \<times> stream" where
  "encode_sequence content s = encode_content TAG_SEQUENCE content s"

definition encode_set :: "stream \<Rightarrow> stream \<Rightarrow> stream \<times> stream" where
  "encode_set content s = encode_content TAG_SET content s"

definition encode_context :: "stream \<Rightarrow> byte \<Rightarrow> stream \<Rightarrow> stream \<times> stream" where
  "encode_context content number s = encode_content (TAG_CONTEXT OR (number AND 0x1F)) content s"

section \<open>Decoding: tags and lengths\<close>

definition decode_tag :: "stream \<Rightarrow> byte \<times> stream" where
  "decode_tag s = (let (c, s) = sget s in (word_of_int c, s))"

definition length_step :: "nat \<Rightarrow> u64 \<times> stream \<Rightarrow> u64 \<times> stream" where
  "length_step _ st = (case st of (len, s) \<Rightarrow>
     let (c, s) = sget s in (push_bit 8 len OR word_of_int c, s))"

definition decode_length :: "stream \<Rightarrow> u64 \<times> stream" where
  "decode_length s =
     (let (c, s) = sget s; len_byte = (word_of_int c :: byte) in
      if len_byte AND 0x80 = 0 then (ucast len_byte, s)
      else for_loop (unat (len_byte AND 0x7F)) length_step (0, s))"

text \<open>The check every decoder starts with.\<close>

definition expect_tag :: "byte \<Rightarrow> stream \<Rightarrow> stream result" where
  "expect_tag tag s = (let (t, s) = decode_tag s in if t \<noteq> tag then Inl invalid_tag else Inr s)"

definition decode_boolean :: "stream \<Rightarrow> (bool \<times> stream) result" where
  "decode_boolean s =
     bind_res (expect_tag TAG_BOOLEAN s) (\<lambda>s.
     let (len, s) = decode_length s in
     if len \<noteq> 1 then Inl invalid_length
     else
       (let (c, s) = sget s in
        if c = 0x00 then Inr (False, s) else if c = 0xFF then Inr (True, s) else Inl invalid_value))"

section \<open>Decoding: integers\<close>

record der_integer =
  int_array :: "byte list"
  int_sign :: bool

text \<open>\<open>for (i = 0; i < length; i++) array[i] = stream.get();\<close>\<close>

primrec get_octets :: "nat \<Rightarrow> stream \<Rightarrow> byte list \<times> stream" where
  "get_octets 0 s = ([], s)"
| "get_octets (Suc n) s =
     (let (c, s) = sget s; (bs, s) = get_octets n s in (word_of_int c # bs, s))"

definition decode_integer :: "stream \<Rightarrow> (der_integer \<times> stream) result" where
  "decode_integer s =
     bind_res (expect_tag TAG_INTEGER s) (\<lambda>s.
     let (len, s) = decode_length s in
     if len = 0 then Inl invalid_length
     else
       (let (zero, s) = (if len > 1 then (let (c, s) = speek s in (c = 0, s)) else (False, s)) in
        if zero then
          (let (bs, s) = get_octets (unat len) s in Inr (\<lparr>int_array = bs, int_sign = False\<rparr>, s))
        else
          (let (c, s) = speek s; (bs, s) = get_octets (unat len) s in
           Inr (\<lparr>int_array = bs, int_sign = (word_of_int c :: u64) > 0x80\<rparr>, s))))"

definition to_int8 :: "der_integer \<Rightarrow> 8 word" where
  "to_int8 n = last (int_array n)"

text \<open>\<open>integer <<= 8; integer += array[i];\<close> at the width of the result.\<close>

definition fold_octets_word :: "byte list \<Rightarrow> 'a::len word" where
  "fold_octets_word bs = fold (\<lambda>b n. push_bit 8 n + ucast b) (tl bs) (ucast (hd bs))"

definition to_int16 :: "der_integer \<Rightarrow> 16 word" where
  "to_int16 n = fold_octets_word (int_array n)"

definition to_int32 :: "der_integer \<Rightarrow> 32 word" where
  "to_int32 n = fold_octets_word (int_array n)"

definition to_int64 :: "der_integer \<Rightarrow> 64 word" where
  "to_int64 n = fold_octets_word (int_array n)"

definition to_uint8 :: "der_integer \<Rightarrow> 8 word" where
  "to_uint8 n = last (int_array n)"

definition to_uint16 :: "der_integer \<Rightarrow> 16 word" where
  "to_uint16 n = fold_octets_word (int_array n)"

definition to_uint32 :: "der_integer \<Rightarrow> 32 word" where
  "to_uint32 n = fold_octets_word (int_array n)"

definition to_uint64 :: "der_integer \<Rightarrow> 64 word" where
  "to_uint64 n = fold_octets_word (int_array n)"

definition to_bigint :: "der_integer \<Rightarrow> bigint" where
  "to_bigint n = bi_of_octets (int_array n) True"

section \<open>Decoding: strings\<close>

definition decode_bit_string :: "stream \<Rightarrow> stream \<Rightarrow> (u64 \<times> stream \<times> stream) result" where
  "decode_bit_string s bits =
     bind_res (expect_tag TAG_BIT_STRING s) (\<lambda>s.
     let (len, s) = decode_length s;
         (c, s) = sget s;
         pad_len = (word_of_int c :: byte);
         n = (if 0 \<le> sint (len - 1) then unat (len - 1) else 0);
         (s, bits) = bs_read_to n s bits in
     Inr ((len - 1) * 8 - ucast pad_len, s, bits))"

definition decode_octet_string :: "stream \<Rightarrow> stream \<Rightarrow> (u64 \<times> stream \<times> stream) result" where
  "decode_octet_string s octets =
     bind_res (expect_tag TAG_OCTET_STRING s) (\<lambda>s.
     let (len, s) = decode_length s;
         n = (if 0 \<le> sint len then unat len else 0);
         (s, octets) = bs_read_to n s octets in
     Inr (len, s, octets))"

definition decode_null :: "stream \<Rightarrow> stream result" where
  "decode_null s =
     bind_res (expect_tag TAG_NULL s) (\<lambda>s.
     let (c, s) = sget s in if c \<noteq> 0x00 then Inl invalid_length else Inr s)"

text \<open>The arc loop ends at an octet without the continuation flag only; at end of file it never does.\<close>

partial_function (option) oid_node_loop :: "word_t \<Rightarrow> byte \<Rightarrow> stream \<Rightarrow> (word_t \<times> stream) option" where
  "oid_node_loop node octet s =
     (let node = push_bit 7 node + ucast (octet AND 0x7F) in
      case sget s of (c, s) \<Rightarrow>
        let octet = (word_of_int c :: byte) in
        if octet AND 0x80 = 0 then Some (push_bit 7 node + ucast (octet AND 0x7F), s)
        else oid_node_loop node octet s)"

definition decode_oid_node :: "stream \<Rightarrow> (word_t \<times> stream) option" where
  "decode_oid_node s =
     (let (c, s) = sget s; octet = (word_of_int c :: byte) in
      if octet AND 0x80 = 0 then Some (ucast octet, s) else oid_node_loop 0 octet s)"

partial_function (option) oid_loop :: "int \<Rightarrow> word_t list \<Rightarrow> stream \<Rightarrow> (word_t list \<times> stream) option" where
  "oid_loop end_stream nodes s =
     (case stellg s of (pos, s) \<Rightarrow>
        if pos < end_stream then
          Option.bind (decode_oid_node s) (\<lambda>(node, s). oid_loop end_stream (nodes @ [node]) s)
        else Some (nodes, s))"

definition decode_oid :: "stream \<Rightarrow> (word_t list \<times> stream) run" where
  "decode_oid s =
     bind_run (lift (expect_tag TAG_OID s)) (\<lambda>s.
     let (len, s) = decode_length s in
     if len = 0 then throw invalid_length
     else
       (let (pos, s) = stellg s; end_stream = pos + sint len;
            (c, s) = speek s; (d, s) = sget s in
        Option.bind (oid_loop end_stream [word_of_int (c div 40), word_of_int (d mod 40)] s)
          (\<lambda>(nodes, s). ret (nodes, s))))"

text \<open>The overload that fills an array returns the number of arcs with it.\<close>

definition decode_oid_array :: "stream \<Rightarrow> (nat \<times> word_t list \<times> stream) run" where
  "decode_oid_array s =
     bind_run (lift (expect_tag TAG_OID s)) (\<lambda>s.
     let (len, s) = decode_length s in
     if len = 0 then throw invalid_length
     else
       (let (pos, s) = stellg s; end_stream = pos + sint len;
            (c, s) = speek s; (d, s) = sget s in
        Option.bind (oid_loop end_stream [word_of_int (c div 40), word_of_int (d mod 40)] s)
          (\<lambda>(nodes, s). ret (length nodes, nodes, s))))"

text \<open>The three character string decoders write to the caller's array whatever \<open>get()\<close> returns.\<close>

definition decode_chars :: "byte \<Rightarrow> stream \<Rightarrow> (byte list \<times> stream) result" where
  "decode_chars tag s =
     bind_res (expect_tag tag s) (\<lambda>s.
     let (len, s) = decode_length s in Inr (get_octets (unat len) s))"

definition decode_utf8_string :: "stream \<Rightarrow> (byte list \<times> stream) result" where
  "decode_utf8_string s = decode_chars TAG_UTF8_STRING s"

definition decode_printable_string :: "stream \<Rightarrow> (byte list \<times> stream) result" where
  "decode_printable_string s = decode_chars TAG_PRINTABLE_STRING s"

definition decode_ia5_string :: "stream \<Rightarrow> (byte list \<times> stream) result" where
  "decode_ia5_string s = decode_chars TAG_IA5_STRING s"

definition decode_bmp_string :: "stream \<Rightarrow> (byte list \<times> stream) result" where
  "decode_bmp_string s = decode_chars TAG_BMP_STRING s"

definition decode_utc_time ::
  "(byte list \<Rightarrow> string \<Rightarrow> bool \<Rightarrow> int) \<Rightarrow> stream \<Rightarrow> (int \<times> stream) result" where
  "decode_utc_time string_to_time s =
     bind_res (expect_tag TAG_UTC_TIME s) (\<lambda>s.
     let (len, s) = decode_length s in
     if len \<noteq> 13 then Inl invalid_length
     else
       (let (buffer, s) = get_octets 13 s; is_gmt = (last buffer = 0x5A) in
        Inr (string_to_time (butlast buffer) ''%y%m%d%H%M%S'' is_gmt, s)))"

definition decode_generalized_time ::
  "(byte list \<Rightarrow> string \<Rightarrow> bool \<Rightarrow> int) \<Rightarrow> stream \<Rightarrow> (int \<times> stream) result" where
  "decode_generalized_time string_to_time s =
     bind_res (expect_tag TAG_GENERALIZED_TIME s) (\<lambda>s.
     let (len, s) = decode_length s in
     if len \<noteq> 15 then Inl invalid_length
     else
       (let (buffer, s) = get_octets 15 s; is_gmt = (last buffer = 0x5A) in
        Inr (string_to_time (butlast buffer) ''%Y%m%d%H%M%S'' is_gmt, s)))"

section \<open>Decoding: containers\<close>

definition read_content :: "stream \<Rightarrow> stream \<Rightarrow> stream \<times> stream" where
  "read_content s content =
     (let (len, s) = decode_length s; (buffer, s) = sread (unat len) s in (s, swrite buffer content))"

definition decode_sequence :: "stream \<Rightarrow> stream \<Rightarrow> (stream \<times> stream) result" where
  "decode_sequence s content = bind_res (expect_tag TAG_SEQUENCE s) (\<lambda>s. Inr (read_content s content))"

definition decode_set :: "stream \<Rightarrow> stream \<Rightarrow> (stream \<times> stream) result" where
  "decode_set s content = bind_res (expect_tag TAG_SET s) (\<lambda>s. Inr (read_content s content))"

definition decode_context :: "stream \<Rightarrow> stream \<Rightarrow> byte \<Rightarrow> bool \<times> stream \<times> stream" where
  "decode_context s content number =
     (let (start, s) = stellg s; (len, s) = bs_length s in
      if len \<le> start then (False, s, content)
      else
        (let expected = TAG_CONTEXT OR (number AND 0x1F); (t, s) = decode_tag s in
         if t \<noteq> expected then (False, bs_seekg start (sclear s), content)
         else (let (s, content) = read_content s content in (True, s, content))))"

definition decode_tlv :: "byte list \<Rightarrow> stream \<Rightarrow> stream \<Rightarrow> stream \<times> stream" where
  "decode_tlv stack s tlv =
     (let (c, s) = sget s; tlv = sput (word_of_int c) tlv;
          (len, s) = decode_length s; tlv = encode_length len tlv;
          (buffer, s) = sread (unat len) s in
      (s, swrite (buffer @ take (unat len - length buffer) stack) tlv))"

end
