(* ===== verification/DER_Integer.thy ===== *)
theory DER_Integer
  imports DER_Codec
begin

text \<open>
  What \<open>DER_Codec\<close> does: every encoder writes tag, length and content octets, every decoder reads them
  back, and where the two do not fit.
\<close>

section \<open>Reading octets\<close>

lemma get_octets_rest:
  "readable s \<Longrightarrow> n \<le> length (rest s) \<Longrightarrow>
   get_octets n s = (take n (rest s), if n = 0 then s else advance n 1 s)"
proof (induction n arbitrary: s)
  case (Suc n)
  obtain b r where br: "rest s = b # r" using Suc.prems(2) by (cases "rest s") auto
  have "get_octets n (advance 1 1 s) = (take n r, if n = 0 then advance 1 1 s else advance n 1 (advance 1 1 s))"
    using Suc.IH [of "advance 1 1 s"] Suc.prems br by simp
  then show ?case using sget_Cons [OF Suc.prems(1) br] br by simp
qed simp

lemma get_octets_app:
  "readable s \<Longrightarrow> rest s = c @ r \<Longrightarrow> get_octets (length c) s = (c, if c = [] then s else advance (length c) 1 s)"
  using get_octets_rest [of s "length c"] by simp

lemma length_loop:
  assumes "readable s" and "n \<le> length (rest s)"
  shows "for_loop n length_step (word_of_nat v, s) =
    (word_of_nat (foldl (\<lambda>v b. v * 256 + unat b) v (take n (rest s))), if n = 0 then s else advance n 1 s)"
  using assms(2)
proof (induction n)
  case (Suc n)
  let ?s = "if n = 0 then s else advance n 1 s"
  have s: "readable ?s" "rest ?s = rest s ! n # drop (Suc n) (rest s)" "advance 1 1 ?s = advance (Suc n) 1 s"
    using assms(1) Suc.prems by (auto simp: Cons_nth_drop_Suc)
  have t: "take (Suc n) (rest s) = take n (rest s) @ [rest s ! n]"
    using Suc.prems by (simp add: take_Suc_conv_app_nth)
  show ?case
    using Suc sget_Cons [OF s(1,2)] s(3) by (simp add: length_step_def t shift_or)
qed simp

lemma word_of_int_uint_byte [simp]: "word_of_int (uint (b :: byte)) = b"
  by simp

section \<open>Lengths\<close>

definition length_octets :: "u64 \<Rightarrow> byte list" where
  "length_octets len =
     (if len < 0x80 then [byte_at 0 len]
      else if len < 0x100 then 0x81 # be_octets 1 len
      else if len < 0x10000 then 0x82 # be_octets 2 len
      else if len < 0x1000000 then 0x83 # be_octets 3 len
      else if len < 0x100000000 then 0x84 # be_octets 4 len
      else if len < 0x10000000000 then 0x85 # be_octets 5 len
      else if len < 0x1000000000000 then 0x86 # be_octets 6 len
      else if len < 0x100000000000000 then 0x87 # be_octets 7 len
      else 0x88 # be_octets 8 len)"

lemma swrite_single: "swrite [b] s = sput b s"
  by (simp add: swrite_def)

lemma encode_length_octets: "encode_length len s = swrite (length_octets len) s"
  by (simp add: encode_length_def length_octets_def swrite_single)

lemma decode_length_long:
  assumes "readable s" and "rest s = (0x80 + word_of_nat n) # be_octets n len @ r"
    and "unat len < 256 ^ n" and "0 < n" and "n \<le> 8"
  shows "decode_length s = (len, advance (n + 1) 1 s)"
proof -
  let ?b = "0x80 + word_of_nat n :: byte"
  have n: "n = 1 \<or> n = 2 \<or> n = 3 \<or> n = 4 \<or> n = 5 \<or> n = 6 \<or> n = 7 \<or> n = 8"
    using assms(4,5) by presburger
  have b: "?b AND 0x80 \<noteq> 0" "unat (?b AND 0x7F) = n" using n by auto
  let ?s = "advance 1 1 s"
  have s: "readable ?s" "rest ?s = be_octets n len @ r" using assms(1,2) by simp_all
  have "for_loop n length_step (word_of_nat 0, ?s) = (word_of_nat (be_val (be_octets n len)), advance n 1 ?s)"
    using length_loop [OF s(1), of n 0] assms(4) unfolding s(2) be_val_def by simp
  then have "for_loop n length_step (0, ?s) = (len, advance (n + 1) 1 s)"
    using assms(3) by (simp add: be_val_be_octets_small add.commute)
  then show ?thesis
    using sget_Cons [OF assms(1,2)] b by (simp add: decode_length_def)
qed

lemma length_octets_cases:
  obtains "len < 0x80" "length_octets len = [ucast len]"
  | n where "length_octets len = (0x80 + word_of_nat n) # be_octets n len"
      "unat len < 256 ^ n" "0 < n" "n \<le> 8"
proof -
  have u: "unat len < 256 ^ 8" using unsigned_less [of len, where ?'a = nat] by simp
  consider (0) "len < 0x80"
    | (1) "\<not> len < 0x80" "len < 0x100" | (2) "\<not> len < 0x100" "len < 0x10000"
    | (3) "\<not> len < 0x10000" "len < 0x1000000" | (4) "\<not> len < 0x1000000" "len < 0x100000000"
    | (5) "\<not> len < 0x100000000" "len < 0x10000000000"
    | (6) "\<not> len < 0x10000000000" "len < 0x1000000000000"
    | (7) "\<not> len < 0x1000000000000" "len < 0x100000000000000"
    | (8) "\<not> len < 0x100000000000000" by blast
  then show ?thesis
  proof cases
    case 0 then show ?thesis by (intro that(1)) (simp_all add: length_octets_def byte_at_def)
  next
    case 1 then show ?thesis by (intro that(2) [of 1]) (simp_all add: length_octets_def word_less_nat_alt)
  next
    case 2 then show ?thesis by (intro that(2) [of 2]) (simp_all add: length_octets_def word_less_nat_alt)
  next
    case 3 then show ?thesis by (intro that(2) [of 3]) (simp_all add: length_octets_def word_less_nat_alt)
  next
    case 4 then show ?thesis by (intro that(2) [of 4]) (simp_all add: length_octets_def word_less_nat_alt)
  next
    case 5 then show ?thesis by (intro that(2) [of 5]) (simp_all add: length_octets_def word_less_nat_alt)
  next
    case 6 then show ?thesis by (intro that(2) [of 6]) (simp_all add: length_octets_def word_less_nat_alt)
  next
    case 7 then show ?thesis by (intro that(2) [of 7]) (simp_all add: length_octets_def word_less_nat_alt)
  next
    case 8 then show ?thesis using u by (intro that(2) [of 8]) (simp_all add: length_octets_def word_less_nat_alt)
  qed
qed

lemma decode_length_ok:
  assumes "readable s" and "rest s = length_octets len @ r"
  shows "decode_length s = (len, advance (length (length_octets len)) 1 s)"
proof (cases rule: length_octets_cases [of len])
  case 1
  let ?b = "ucast len :: byte"
  have u: "unat len < 128" using 1(1) by (simp add: word_less_nat_alt)
  then have "unat ?b = unat len" by (intro unat_ucast_fits) simp
  then have "?b AND 0x80 = 0" using u by (simp add: and_80_iff word_less_nat_alt)
  moreover have "ucast ?b = len" using u by (intro ucast_ucast_fits) simp
  ultimately show ?thesis
    using sget_Cons [OF assms(1), of ?b r] assms(2) 1(2) by (simp add: decode_length_def)
next
  case (2 n)
  then show ?thesis using decode_length_long [OF assms(1), of n len r] assms(2) by simp
qed

lemma length_octets_short: "n < 0x80 \<Longrightarrow> length_octets (word_of_nat n) = [word_of_nat n]"
  by (simp add: length_octets_def byte_at_def word_less_nat_alt unat_of_nat take_bit_nat_eq_self
      word_unat_eq_iff unsigned_ucast_eq)

text \<open>What an operation writes.\<close>

definition written :: "(stream \<Rightarrow> stream) \<Rightarrow> byte list" where
  "written f = data (f (new_stream []))"

lemma written_swrite: "(\<And>s. f s = swrite bs s) \<Longrightarrow> written f = bs"
  by (simp add: written_def)

section \<open>Integers\<close>

text \<open>An encoder writes an INTEGER whose content, as an unsigned number, is \<open>n\<close>.\<close>

definition writes_integer :: "(stream \<Rightarrow> stream) \<Rightarrow> nat \<Rightarrow> bool" where
  "writes_integer f n \<longleftrightarrow> (\<exists>c. be_val c = n \<and> 0 < length c \<and> length c \<le> 9 \<and>
     (\<forall>s. f s = swrite (TAG_INTEGER # word_of_nat (length c) # c) s))"

lemma writes_exact:
  assumes "\<And>s. f s = swrite (TAG_INTEGER # word_of_nat k # be_octets k v) s"
    and "unat v < 256 ^ k" and "0 < k" and "k \<le> 9"
  shows "writes_integer f (unat v)"
  unfolding writes_integer_def
  using assms by (intro exI [of _ "be_octets k v"]) (simp add: be_val_be_octets_small)

lemma writes_padded:
  assumes "\<And>s. f s = swrite (TAG_INTEGER # word_of_nat (Suc k) # 0 # be_octets k v) s"
    and "unat v < 256 ^ k" and "k \<le> 8"
  shows "writes_integer f (unat v)"
  unfolding writes_integer_def
  using assms by (intro exI [of _ "0 # be_octets k v"]) (simp add: be_val_be_octets_small)

lemma writes_int8: "writes_integer (encode_int8 v) (unat v)"
  using unat_byte_less [of v]
  by (intro writes_exact [of _ 1]) (simp_all add: encode_int8_def byte_at_def)

lemma writes_uint8: "writes_integer (encode_uint8 v) (unat v)"
proof (cases "v < 0x80")
  case True
  then have "encode_uint8 v = encode_int8 v" by (simp add: encode_uint8_def fun_eq_iff)
  then show ?thesis by (simp add: writes_int8)
next
  case False
  then show ?thesis using unat_byte_less [of v]
    by (intro writes_padded [of _ 1]) (simp_all add: encode_uint8_def byte_at_def)
qed

text \<open>A value that fits is encoded as its narrower self.\<close>

lemma writes_narrow:
  assumes "writes_integer (g (ucast v :: 'b::len word)) (unat (ucast v :: 'b word))"
    and "\<And>s. f s = g (ucast v) s" and "unat (v :: 'a::len word) < 2 ^ LENGTH('b)"
  shows "writes_integer f (unat v)"
proof -
  have "f = g (ucast v)" using assms(2) by (rule ext)
  then show ?thesis using assms(1) unat_ucast_fits [OF assms(3)] by simp
qed

lemma writes_int16: "writes_integer (encode_int16 v) (unat v)"
proof -
  have u: "unat v < 2 ^ LENGTH(16)" by (rule unsigned_less)
  consider "v < 0x80"
    | "\<not> v < 0x80" "v < 0x100"
    | "\<not> v < 0x80" "\<not> v < 0x100" by blast
  then show ?thesis
  proof cases
    case 1
    then show ?thesis
      by (intro writes_narrow [where g = encode_int8, OF writes_int8]) (simp_all add: encode_int16_def word_less_nat_alt)
  next
    case 2
    then show ?thesis
      by (intro writes_narrow [where g = encode_uint8, OF writes_uint8]) (simp_all add: encode_int16_def word_less_nat_alt)
  next
    case 3
    then show ?thesis using u
      by (intro writes_exact [of _ 2]) (simp_all add: encode_int16_def word_less_nat_alt)
  qed
qed

lemma writes_uint16: "writes_integer (encode_uint16 v) (unat v)"
proof -
  have u: "unat v < 2 ^ LENGTH(16)" by (rule unsigned_less)
  consider "v < 0x80"
    | "\<not> v < 0x80" "v < 0x100"
    | "\<not> v < 0x80" "\<not> v < 0x100" "v < 0x8000"
    | "\<not> v < 0x80" "\<not> v < 0x100" "\<not> v < 0x8000" by blast
  then show ?thesis
  proof cases
    case 1
    then show ?thesis
      by (intro writes_narrow [where g = encode_int8, OF writes_int8]) (simp_all add: encode_uint16_def word_less_nat_alt)
  next
    case 2
    then show ?thesis
      by (intro writes_narrow [where g = encode_uint8, OF writes_uint8]) (simp_all add: encode_uint16_def word_less_nat_alt)
  next
    case 3
    then show ?thesis
      by (intro writes_narrow [where g = encode_int16, OF writes_int16]) (simp_all add: encode_uint16_def word_less_nat_alt)
  next
    case 4
    then show ?thesis using u
      by (intro writes_padded [of _ 2]) (simp_all add: encode_uint16_def word_less_nat_alt)
  qed
qed

lemma writes_int32: "writes_integer (encode_int32 v) (unat v)"
proof -
  have u: "unat v < 2 ^ LENGTH(32)" by (rule unsigned_less)
  consider "v < 0x80"
    | "\<not> v < 0x80" "v < 0x100"
    | "\<not> v < 0x80" "\<not> v < 0x100" "v < 0x8000"
    | "\<not> v < 0x80" "\<not> v < 0x100" "\<not> v < 0x8000" "v < 0x10000"
    | "\<not> v < 0x80" "\<not> v < 0x100" "\<not> v < 0x8000" "\<not> v < 0x10000" "v < 0x800000"
    | "\<not> v < 0x80" "\<not> v < 0x100" "\<not> v < 0x8000" "\<not> v < 0x10000" "\<not> v < 0x800000" "v < 0x1000000"
    | "\<not> v < 0x80" "\<not> v < 0x100" "\<not> v < 0x8000" "\<not> v < 0x10000" "\<not> v < 0x800000" "\<not> v < 0x1000000" by blast
  then show ?thesis
  proof cases
    case 1
    then show ?thesis
      by (intro writes_narrow [where g = encode_int8, OF writes_int8]) (simp_all add: encode_int32_def word_less_nat_alt)
  next
    case 2
    then show ?thesis
      by (intro writes_narrow [where g = encode_uint8, OF writes_uint8]) (simp_all add: encode_int32_def word_less_nat_alt)
  next
    case 3
    then show ?thesis
      by (intro writes_narrow [where g = encode_int16, OF writes_int16]) (simp_all add: encode_int32_def word_less_nat_alt)
  next
    case 4
    then show ?thesis
      by (intro writes_narrow [where g = encode_uint16, OF writes_uint16]) (simp_all add: encode_int32_def word_less_nat_alt)
  next
    case 5
    then show ?thesis using u
      by (intro writes_exact [of _ 3]) (simp_all add: encode_int32_def word_less_nat_alt)
  next
    case 6
    then show ?thesis using u
      by (intro writes_padded [of _ 3]) (simp_all add: encode_int32_def word_less_nat_alt)
  next
    case 7
    then show ?thesis using u
      by (intro writes_exact [of _ 4]) (simp_all add: encode_int32_def word_less_nat_alt)
  qed
qed

lemma writes_uint32: "writes_integer (encode_uint32 v) (unat v)"
proof -
  have u: "unat v < 2 ^ LENGTH(32)" by (rule unsigned_less)
  consider "v < 0x80"
    | "\<not> v < 0x80" "v < 0x100"
    | "\<not> v < 0x80" "\<not> v < 0x100" "v < 0x8000"
    | "\<not> v < 0x80" "\<not> v < 0x100" "\<not> v < 0x8000" "v < 0x10000"
    | "\<not> v < 0x80" "\<not> v < 0x100" "\<not> v < 0x8000" "\<not> v < 0x10000" "v < 0x80000000"
    | "\<not> v < 0x80" "\<not> v < 0x100" "\<not> v < 0x8000" "\<not> v < 0x10000" "\<not> v < 0x80000000" by blast
  then show ?thesis
  proof cases
    case 1
    then show ?thesis
      by (intro writes_narrow [where g = encode_int8, OF writes_int8]) (simp_all add: encode_uint32_def word_less_nat_alt)
  next
    case 2
    then show ?thesis
      by (intro writes_narrow [where g = encode_uint8, OF writes_uint8]) (simp_all add: encode_uint32_def word_less_nat_alt)
  next
    case 3
    then show ?thesis
      by (intro writes_narrow [where g = encode_int16, OF writes_int16]) (simp_all add: encode_uint32_def word_less_nat_alt)
  next
    case 4
    then show ?thesis
      by (intro writes_narrow [where g = encode_uint16, OF writes_uint16]) (simp_all add: encode_uint32_def word_less_nat_alt)
  next
    case 5
    then show ?thesis
      by (intro writes_narrow [where g = encode_int32, OF writes_int32]) (simp_all add: encode_uint32_def word_less_nat_alt)
  next
    case 6
    then show ?thesis using u
      by (intro writes_padded [of _ 4]) (simp_all add: encode_uint32_def word_less_nat_alt)
  qed
qed

lemma writes_int64:
  assumes "v < 0x80000000000000 \<or> 0x100000000000000 \<le> v"
  shows "writes_integer (encode_int64 v) (unat v)"
proof -
  have u: "unat v < 2 ^ LENGTH(64)" by (rule unsigned_less)
  consider "v < 0x80"
    | "\<not> v < 0x80" "v < 0x100"
    | "\<not> v < 0x80" "\<not> v < 0x100" "v < 0x8000"
    | "\<not> v < 0x80" "\<not> v < 0x100" "\<not> v < 0x8000" "v < 0x10000"
    | "\<not> v < 0x80" "\<not> v < 0x100" "\<not> v < 0x8000" "\<not> v < 0x10000" "v < 0x80000000"
    | "\<not> v < 0x80" "\<not> v < 0x100" "\<not> v < 0x8000" "\<not> v < 0x10000" "\<not> v < 0x80000000" "v < 0x100000000"
    | "\<not> v < 0x80" "\<not> v < 0x100" "\<not> v < 0x8000" "\<not> v < 0x10000" "\<not> v < 0x80000000" "\<not> v < 0x100000000" "v < 0x8000000000"
    | "\<not> v < 0x80" "\<not> v < 0x100" "\<not> v < 0x8000" "\<not> v < 0x10000" "\<not> v < 0x80000000" "\<not> v < 0x100000000" "\<not> v < 0x8000000000" "v < 0x10000000000"
    | "\<not> v < 0x80" "\<not> v < 0x100" "\<not> v < 0x8000" "\<not> v < 0x10000" "\<not> v < 0x80000000" "\<not> v < 0x100000000" "\<not> v < 0x8000000000" "\<not> v < 0x10000000000" "v < 0x800000000000"
    | "\<not> v < 0x80" "\<not> v < 0x100" "\<not> v < 0x8000" "\<not> v < 0x10000" "\<not> v < 0x80000000" "\<not> v < 0x100000000" "\<not> v < 0x8000000000" "\<not> v < 0x10000000000" "\<not> v < 0x800000000000" "v < 0x1000000000000"
    | "\<not> v < 0x80" "\<not> v < 0x100" "\<not> v < 0x8000" "\<not> v < 0x10000" "\<not> v < 0x80000000" "\<not> v < 0x100000000" "\<not> v < 0x8000000000" "\<not> v < 0x10000000000" "\<not> v < 0x800000000000" "\<not> v < 0x1000000000000" "v < 0x80000000000000"
    | "\<not> v < 0x80" "\<not> v < 0x100" "\<not> v < 0x8000" "\<not> v < 0x10000" "\<not> v < 0x80000000" "\<not> v < 0x100000000" "\<not> v < 0x8000000000" "\<not> v < 0x10000000000" "\<not> v < 0x800000000000" "\<not> v < 0x1000000000000" "\<not> v < 0x80000000000000" "v < 0x100000000000000"
    | "\<not> v < 0x80" "\<not> v < 0x100" "\<not> v < 0x8000" "\<not> v < 0x10000" "\<not> v < 0x80000000" "\<not> v < 0x100000000" "\<not> v < 0x8000000000" "\<not> v < 0x10000000000" "\<not> v < 0x800000000000" "\<not> v < 0x1000000000000" "\<not> v < 0x80000000000000" "\<not> v < 0x100000000000000" by blast
  then show ?thesis
  proof cases
    case 1
    then show ?thesis
      by (intro writes_narrow [where g = encode_int8, OF writes_int8]) (simp_all add: encode_int64_def word_less_nat_alt)
  next
    case 2
    then show ?thesis
      by (intro writes_narrow [where g = encode_uint8, OF writes_uint8]) (simp_all add: encode_int64_def word_less_nat_alt)
  next
    case 3
    then show ?thesis
      by (intro writes_narrow [where g = encode_int16, OF writes_int16]) (simp_all add: encode_int64_def word_less_nat_alt)
  next
    case 4
    then show ?thesis
      by (intro writes_narrow [where g = encode_uint16, OF writes_uint16]) (simp_all add: encode_int64_def word_less_nat_alt)
  next
    case 5
    then show ?thesis
      by (intro writes_narrow [where g = encode_int32, OF writes_int32]) (simp_all add: encode_int64_def word_less_nat_alt)
  next
    case 6
    then show ?thesis
      by (intro writes_narrow [where g = encode_uint32, OF writes_uint32]) (simp_all add: encode_int64_def word_less_nat_alt)
  next
    case 7
    then show ?thesis using u
      by (intro writes_exact [of _ 5]) (simp_all add: encode_int64_def word_less_nat_alt)
  next
    case 8
    then show ?thesis using u
      by (intro writes_padded [of _ 5]) (simp_all add: encode_int64_def word_less_nat_alt)
  next
    case 9
    then show ?thesis using u
      by (intro writes_exact [of _ 6]) (simp_all add: encode_int64_def word_less_nat_alt)
  next
    case 10
    then show ?thesis using u
      by (intro writes_padded [of _ 6]) (simp_all add: encode_int64_def word_less_nat_alt)
  next
    case 11
    then show ?thesis using u
      by (intro writes_exact [of _ 7]) (simp_all add: encode_int64_def word_less_nat_alt)
  next
    case 12
    then show ?thesis using assms by simp
  next
    case 13
    then show ?thesis using u
      by (intro writes_exact [of _ 8]) (simp_all add: encode_int64_def word_less_nat_alt)
  qed
qed

lemma writes_uint64:
  assumes "v < 0x80000000000000 \<or> 0x100000000000000 \<le> v"
  shows "writes_integer (encode_uint64 v) (unat v)"
proof -
  have u: "unat v < 2 ^ LENGTH(64)" by (rule unsigned_less)
  consider "v < 0x80"
    | "\<not> v < 0x80" "v < 0x100"
    | "\<not> v < 0x80" "\<not> v < 0x100" "v < 0x8000"
    | "\<not> v < 0x80" "\<not> v < 0x100" "\<not> v < 0x8000" "v < 0x10000"
    | "\<not> v < 0x80" "\<not> v < 0x100" "\<not> v < 0x8000" "\<not> v < 0x10000" "v < 0x80000000"
    | "\<not> v < 0x80" "\<not> v < 0x100" "\<not> v < 0x8000" "\<not> v < 0x10000" "\<not> v < 0x80000000" "v < 0x100000000"
    | "\<not> v < 0x80" "\<not> v < 0x100" "\<not> v < 0x8000" "\<not> v < 0x10000" "\<not> v < 0x80000000" "\<not> v < 0x100000000" "v < 0x8000000000000000"
    | "\<not> v < 0x80" "\<not> v < 0x100" "\<not> v < 0x8000" "\<not> v < 0x10000" "\<not> v < 0x80000000" "\<not> v < 0x100000000" "\<not> v < 0x8000000000000000" by blast
  then show ?thesis
  proof cases
    case 1
    then show ?thesis
      by (intro writes_narrow [where g = encode_int8, OF writes_int8]) (simp_all add: encode_uint64_def word_less_nat_alt)
  next
    case 2
    then show ?thesis
      by (intro writes_narrow [where g = encode_uint8, OF writes_uint8]) (simp_all add: encode_uint64_def word_less_nat_alt)
  next
    case 3
    then show ?thesis
      by (intro writes_narrow [where g = encode_int16, OF writes_int16]) (simp_all add: encode_uint64_def word_less_nat_alt)
  next
    case 4
    then show ?thesis
      by (intro writes_narrow [where g = encode_uint16, OF writes_uint16]) (simp_all add: encode_uint64_def word_less_nat_alt)
  next
    case 5
    then show ?thesis
      by (intro writes_narrow [where g = encode_int32, OF writes_int32]) (simp_all add: encode_uint64_def word_less_nat_alt)
  next
    case 6
    then show ?thesis
      by (intro writes_narrow [where g = encode_uint32, OF writes_uint32]) (simp_all add: encode_uint64_def word_less_nat_alt)
  next
    case 7
    then have "encode_uint64 v = encode_int64 v" by (simp add: encode_uint64_def fun_eq_iff)
    then show ?thesis using writes_int64 [OF assms] by simp
  next
    case 8
    then show ?thesis using u
      by (intro writes_padded [of _ 8]) (simp_all add: encode_uint64_def word_less_nat_alt)
  qed
qed

lemma length_step_index: "length_step i = length_step 0"
  by (simp add: length_step_def fun_eq_iff)

lemma fold_octets_word: "bs \<noteq> [] \<Longrightarrow> fold_octets_word bs = (word_of_nat (be_val bs) :: 'a::len word)"
proof -
  have step: "fold (\<lambda>b n. push_bit 8 n + ucast b) bs (word_of_nat v) =
      (word_of_nat (foldl (\<lambda>v b. v * 256 + unat b) v bs) :: 'a word)" for bs :: "byte list" and v
  proof (induction bs arbitrary: v)
    case (Cons b bs)
    then show ?case using Cons [of "v * 256 + unat b"] by (simp add: push_bit_eq_mult)
  qed simp
  assume "bs \<noteq> []"
  then show ?thesis using step [of "tl bs" "unat (hd bs)"]
    by (cases bs) (simp_all add: fold_octets_word_def be_val_def)
qed

lemma expect_tag_ok: "readable s \<Longrightarrow> rest s = t # r \<Longrightarrow> expect_tag t s = Inr (advance 1 1 s)"
  using sget_Cons [of s t r] by (simp add: expect_tag_def decode_tag_def)

lemma expect_tag_bad: "readable s \<Longrightarrow> rest s = t' # r \<Longrightarrow> t' \<noteq> t \<Longrightarrow> expect_tag t s = Inl invalid_tag"
  using sget_Cons [of s t' r] by (simp add: expect_tag_def decode_tag_def)

text \<open>A tag and a length written by an encoder are consumed.\<close>

lemma tag_length_ok:
  assumes "readable s" and "rest s = t # length_octets len @ r"
  shows "expect_tag t s = Inr (advance 1 1 s)"
    and "decode_length (advance 1 1 s) = (len, advance (Suc (length (length_octets len))) 1 s)"
    and "readable (advance (Suc (length (length_octets len))) c s)"
    and "rest (advance (Suc (length (length_octets len))) c s) = r"
  using expect_tag_ok [OF assms] decode_length_ok [of "advance 1 1 s" len r] assms by simp_all

lemma decode_integer_ok:
  assumes "readable s" and "rest s = TAG_INTEGER # length_octets (word_of_nat (length c)) @ c @ r"
    and "c \<noteq> []" and "length c < 2 ^ 64"
  shows "decode_integer s =
    Inr (\<lparr>int_array = c, int_sign = (hd c > 0x80)\<rparr>,
         advance (Suc (length (length_octets (word_of_nat (length c)))) + length c) 1 s)"
proof -
  let ?l = "word_of_nat (length c) :: u64" and ?k = "Suc (length (length_octets (word_of_nat (length c))))"
  note t = tag_length_ok [OF assms(1,2)]
  have t3: "readable (advance ?k d s)" and t4: "rest (advance ?k d s) = c @ r" for d by (rule t(3), rule t(4))
  have u: "unat ?l = length c" using assms(4) by (simp add: unat_of_nat take_bit_nat_eq_self)
  then have l: "?l \<noteq> 0" using assms(3) by (metis length_0_conv unat_0)
  obtain b c' where c: "c = b # c'" using assms(3) by (cases c) auto
  have peek: "speek (advance ?k d s) = (uint b, advance ?k 0 s)" for d
    using speek_Cons [OF t3, of d b "c' @ r"] t4 [of d] c by simp
  have get: "get_octets (length c) (advance ?k d s) = (c, advance (?k + length c) 1 s)" for d
    using get_octets_app [OF t3 [of d] t4 [of d]] assms(3) by (simp add: add.commute)
  have b: "(word_of_int (uint b) :: u64) > 0x80 \<longleftrightarrow> b > 0x80"
    using unat_ucast_fits [of b, where 'b = 64] unat_byte_less [of b] by (simp add: word_less_nat_alt)
  have z: "uint b = 0 \<Longrightarrow> \<not> b > 0x80" by (simp add: uint_0_iff)
  show ?thesis
    using t(1,2) l u peek get b z c by (simp add: decode_integer_def Let_def)
qed

lemma decode_writes:
  assumes "writes_integer f n" and "readable s" and "rest s = written f @ r"
  shows "\<exists>i. decode_integer s = Inr (i, advance (length (written f)) 1 s) \<and>
     int_array i \<noteq> [] \<and> be_val (int_array i) = n"
proof -
  obtain c where c: "be_val c = n" "0 < length c" "length c \<le> 9"
    and f: "\<And>s. f s = swrite (TAG_INTEGER # word_of_nat (length c) # c) s"
    using assms(1) unfolding writes_integer_def by blast
  have w: "written f = TAG_INTEGER # length_octets (word_of_nat (length c)) @ c"
    using c(3) by (simp add: written_swrite [OF f] length_octets_short)
  have "decode_integer s = Inr (\<lparr>int_array = c, int_sign = (hd c > 0x80)\<rparr>, advance (length (written f)) 1 s)"
    using decode_integer_ok [OF assms(2), of c r] assms(3) c w by simp
  then show ?thesis using c by auto
qed

section \<open>Big integers\<close>

lemma pval_butlast: "xs \<noteq> [] \<Longrightarrow> pval xs = pval (butlast xs) + BASE ^ (length xs - 1) * unat (last xs)"
  using pval_append [of "butlast xs" "[last xs]"] by simp

lemma bi_of_octets_signed:
  assumes "c \<noteq> []"
  shows "ival (bi_of_octets c True) =
    (if be_val c < 2 ^ (32 * ((length c + 3) div 4) - 1) then int (be_val c)
     else 2 ^ (32 * ((length c + 3) div 4) - 1) - int (be_val c))"
proof -
  let ?ws = "octet_words c"
  define n where "n = (length c + 3) div 4 - 1"
  have len: "length ?ws = Suc n" using assms by (cases c) (auto simp: n_def)
  have ne: "?ws \<noteq> []" by (intro length_greater_0_conv [THEN iffD1]) (simp only: len zero_less_Suc)
  let ?b = "butlast ?ws" and ?w = "last ?ws"
  have split: "?ws = ?b @ [?w]" using ne by simp
  have k: "32 * ((length c + 3) div 4) - 1 = 32 * n + 31" using len by simp
  have p: "be_val c = pval ?b + BASE ^ n * unat ?w"
    using pval_butlast [OF ne] len by (simp add: pval_octet_words)
  have b: "pval ?b < BASE ^ n" using pval_less [of ?b] len by simp
  have pow: "(2 :: nat) ^ (32 * n + 31) = BASE ^ n * 2 ^ 31"
    by (simp add: BASE_def power_add power_mult)
  have m: "0 \<le> uint ?w mod 2 ^ 31" "uint ?w mod 2 ^ 31 < 2 ^ 31" by simp_all
  have u: "bit ?w 31 \<Longrightarrow> uint ?w = uint ?w mod 2 ^ 31 + 2 ^ 31" "\<not> bit ?w 31 \<Longrightarrow> uint ?w = uint ?w mod 2 ^ 31"
    using uint_split [of ?w] by (simp_all only: if_True if_False)
  have "bit ?w 31 \<longleftrightarrow> 2 ^ 31 \<le> uint ?w" using u m by linarith
  moreover have "2 ^ 31 \<le> int k \<longleftrightarrow> 2 ^ 31 \<le> k" for k
    by (metis of_nat_le_iff of_nat_numeral of_nat_power)
  ultimately have bit: "bit ?w 31 \<longleftrightarrow> 2 ^ 31 \<le> unat ?w" by (simp only: uint_nat)
  have lt: "be_val c < 2 ^ (32 * n + 31) \<longleftrightarrow> unat ?w < 2 ^ 31"
  proof
    assume "be_val c < 2 ^ (32 * n + 31)"
    then have "BASE ^ n * unat ?w < BASE ^ n * 2 ^ 31" using p pow by linarith
    then show "unat ?w < 2 ^ 31" by simp
  next
    assume "unat ?w < 2 ^ 31"
    then have "BASE ^ n * Suc (unat ?w) \<le> BASE ^ n * 2 ^ 31" by (intro mult_le_mono2) simp
    then show "be_val c < 2 ^ (32 * n + 31)" using p b unfolding pow mult_Suc_right by linarith
  qed
  show ?thesis
  proof (cases "bit ?w 31")
    case False
    then have "bi_of_octets c True = bi_make ?ws False"
      using bi_of_octets_words [OF split, of True] split by simp
    then show ?thesis using False bit lt k by (simp add: pval_octet_words)
  next
    case True
    have "uint (?w AND POS_VAL) = uint ?w - 2 ^ 31"
      unfolding uint_POS using u(1) [OF True] by linarith
    then have "int (unat (?w AND POS_VAL) + 2 ^ 31) = int (unat ?w)" unfolding uint_nat by simp
    then have "unat (?w AND POS_VAL) + 2 ^ 31 = unat ?w" by (simp only: of_nat_eq_iff)
    then have "be_val c = pval ?b + BASE ^ n * unat (?w AND POS_VAL) + BASE ^ n * 2 ^ 31"
      using p by (metis add.assoc add_mult_distrib2)
    moreover have "ival (bi_of_octets c True) = - int (pval ?b + BASE ^ n * unat (?w AND POS_VAL))"
      using bi_of_octets_words [OF split, of True] True len by (simp add: pval_append)
    moreover have "(2 :: int) ^ (32 * n + 31) = int BASE ^ n * 2 ^ 31"
      by (simp add: BASE_def power_add power_mult)
    ultimately show ?thesis using True bit lt k by simp
  qed
qed

text \<open>Leading zeros are cut as long as the next octet cannot be read as a sign.\<close>

lemma trim_begin_ok:
  assumes "readable s" and "i < length (data s)"
  shows "\<exists>j s'. trim_begin (length (data s)) s i = (j, s') \<and> readable s' \<and> data s' = data s \<and>
    i \<le> j \<and> j < length (data s) \<and> (\<forall>k. i \<le> k \<longrightarrow> k < j \<longrightarrow> data s ! k = 0) \<and> (j = i \<or> data s ! j < 0x80)"
  using assms
proof (induction "length (data s) - i" arbitrary: i s rule: less_induct)
  case less
  let ?n = "length (data s)" and ?s = "s\<lparr>gcount := 1\<rparr>"
  have s': "readable ?s" "data ?s = data s" using less.prems(1) by (simp_all add: readable_def good_def)
  have at: "bs_at (int i) s = (uint (data s ! i), ?s)" using bs_at_ok [OF less.prems] .
  have at': "bs_at (int (i + 1)) ?s = (uint (data s ! (i + 1)), ?s)" if "i + 1 < ?n"
    using bs_at_ok [OF s'(1), of "i + 1"] that by simp
  consider (last) "\<not> i + 1 < ?n" | (nonzero) "i + 1 < ?n" "data s ! i \<noteq> 0"
    | (sign) "i + 1 < ?n" "data s ! i = 0" "\<not> data s ! (i + 1) < 0x80"
    | (step) "i + 1 < ?n" "data s ! i = 0" "data s ! (i + 1) < 0x80" by blast
  then show ?case
  proof cases
    case last
    then have "trim_begin ?n s i = (i, s)" by (subst trim_begin.simps) simp
    then show ?thesis using less.prems by simp
  next
    case nonzero
    then have "trim_begin ?n s i = (i, ?s)"
      using at by (subst trim_begin.simps) (simp add: uint_0_iff)
    then show ?thesis using less.prems s' by simp
  next
    case sign
    then have "trim_begin ?n s i = (i, ?s)"
      using at at' by (subst trim_begin.simps) (simp add: and_80_iff)
    then show ?thesis using less.prems s' by simp
  next
    case step
    then have t: "trim_begin ?n s i = trim_begin ?n ?s (i + 1)"
      using at at' by (subst trim_begin.simps) (simp add: and_80_iff)
    obtain j s'' where j: "trim_begin ?n ?s (i + 1) = (j, s'')" "readable s''" "data s'' = data s"
      "i + 1 \<le> j" "j < ?n" "\<forall>k. i + 1 \<le> k \<longrightarrow> k < j \<longrightarrow> data s ! k = 0" "j = i + 1 \<or> data s ! j < 0x80"
      using less.hyps [of ?s "i + 1"] s' step(1) diff_less_mono2 [of i "i + 1" ?n] by auto
    have "data s ! k = 0" if "i \<le> k" "k < j" for k using that j(6) step(2) by (cases "k = i") auto
    then show ?thesis using t j step(3) by auto
  qed
qed

lemma be_val_drop_zeros: "(\<forall>k<j. c ! k = 0) \<Longrightarrow> j \<le> length c \<Longrightarrow> be_val (drop j c) = be_val c"
proof -
  assume z: "\<forall>k<j. c ! k = 0" and j: "j \<le> length c"
  have "take j c = replicate j 0" using z j by (auto intro!: nth_equalityI)
  then have "c = replicate j 0 @ drop j c" by (metis append_take_drop_id)
  then have "be_val c = be_val (replicate j 0 @ drop j c)" by simp
  then show ?thesis by (simp only: be_val_append be_val_zeros)
qed

text \<open>Trimming keeps the value that the signed constructor reads.\<close>

lemma be_val_small_head:
  assumes "c \<noteq> []" and "hd c < 0x80"
  shows "be_val c < 2 ^ (32 * ((length c + 3) div 4) - 1)"
proof -
  obtain b d where c: "c = b # d" using assms(1) by (cases c) auto
  have "unat b + 1 \<le> 2 ^ 7" using assms(2) c by (simp add: word_less_nat_alt)
  then have "be_val c < 2 ^ 7 * 256 ^ length d"
    using be_val_less [of d] c mult_le_mono1 [of "unat b + 1" "2 ^ 7" "256 ^ length d"]
    unfolding c be_val_simps add_mult_distrib by linarith
  also have "\<dots> = 2 ^ (7 + 8 * length d)" by (simp add: power_add power_mult)
  also have "\<dots> \<le> 2 ^ (32 * ((length c + 3) div 4) - 1)" using c by (intro power_increasing) simp_all
  finally show ?thesis .
qed

lemma trimmed_value:
  assumes "j < length c" and "\<forall>k<j. c ! k = 0" and "j = 0 \<or> c ! j < 0x80"
  shows "ival (bi_of_octets (drop j c) True) = ival (bi_of_octets c True)"
proof (cases "j = 0")
  case False
  have ne: "c \<noteq> []" "drop j c \<noteq> []" using assms(1) by auto
  have "hd c = 0" using assms(2) False ne by (simp add: hd_conv_nth)
  moreover have "hd (drop j c) < 0x80" using assms(1,3) False by (simp add: hd_drop_conv_nth)
  ultimately show ?thesis
    using be_val_small_head [of c] be_val_small_head [OF ne(2)] ne be_val_drop_zeros [OF assms(2)] assms(1)
    by (simp add: bi_of_octets_signed del: length_drop)
qed simp

lemma encode_bigint_written:
  assumes "bi_to_octets True x \<noteq> []"
  obtains c where "written (encode_bigint x) = TAG_INTEGER # length_octets (word_of_nat (length c)) @ c"
    and "c \<noteq> []" and "length c \<le> length (bi_to_octets True x)"
    and "ival (bi_of_octets c True) = ival (bi_of_octets (bi_to_octets True x) True)"
proof -
  let ?o = "bi_to_octets True x"
  let ?s = "append ?o (new_stream [])"
  have n: "0 < length ?o" using assms by simp
  have read: "bs_read_to_at 0 (length ?o) ?s (new_stream []) = (?s\<lparr>gcount := length ?o\<rparr>, ?s)"
    using bs_read_to_at_ok [of ?s "new_stream []" 0 "length ?o"] n by simp
  obtain j s' where j: "trim_begin (length ?o) ?s 0 = (j, s')" "readable s'" "data s' = ?o" "j < length ?o"
    "\<forall>k<j. ?o ! k = 0" "j = 0 \<or> ?o ! j < 0x80"
    using trim_begin_ok [of ?s 0] n by auto
  let ?c = "drop j ?o"
  have "encode_bigint x s = swrite (TAG_INTEGER # length_octets (word_of_nat (length ?c)) @ ?c) s" 
    if "appending s" for s
    using that j n read bs_read_to_at_ok [OF j(2), of "append X s" j "length ?o - j" for X]
    by (simp add: encode_bigint_def encode_integer_stream_def Let_def encode_length_octets of_nat_diff)
  then have "written (encode_bigint x) = TAG_INTEGER # length_octets (word_of_nat (length ?c)) @ ?c"
    by (simp add: written_def)
  then show ?thesis using that [of ?c] j trimmed_value [OF j(4,5,6)] by simp
qed

lemma decode_bigint_ok:
  assumes "bi_to_octets True x \<noteq> []" and "length (bi_to_octets True x) < 2 ^ 64"
    and "readable s" and "rest s = written (encode_bigint x) @ r"
  shows "\<exists>n. decode_integer s = Inr (n, advance (length (written (encode_bigint x))) 1 s) \<and>
    ival (to_bigint n) = ival (bi_of_octets (bi_to_octets True x) True)"
proof -
  obtain c where c: "written (encode_bigint x) = TAG_INTEGER # length_octets (word_of_nat (length c)) @ c"
    "c \<noteq> []" "length c \<le> length (bi_to_octets True x)"
    "ival (bi_of_octets c True) = ival (bi_of_octets (bi_to_octets True x) True)"
    by (rule encode_bigint_written [OF assms(1)])
  then show ?thesis
    using decode_integer_ok [OF assms(3), of c r] assms(2,4) by (simp add: to_bigint_def)
qed

lemma bi_to_octets_Nil: "bi_to_octets True x = [] \<longleftrightarrow> ival x = 0"
proof -
  have "poly_length (mag x) = 0 \<longleftrightarrow> ival x = 0"
    using pval_mag [of x] unfolding poly_length_0_iff by linarith
  then show ?thesis by (cases "poly_length (mag x)") (auto simp: bi_to_octets_def Let_def word_octets_def)
qed

lemma last_octet: "c \<noteq> [] \<Longrightarrow> last c = word_of_nat (be_val c)"
proof -
  assume "c \<noteq> []"
  then have "be_val c = be_val (butlast c) * 256 + unat (last c)"
    by (metis be_val_snoc append_butlast_last_id)
  then have "be_val c mod 256 = unat (last c)" using unat_byte_less [of "last c"] by simp
  then show ?thesis by (simp add: word_unat_eq_iff unat_of_nat)
qed

lemma decode_new:
  assumes "writes_integer f n"
  shows "\<exists>i t. decode_integer (new_stream (written f @ r)) = Inr (i, t) \<and> rest t = r \<and>
    int_array i \<noteq> [] \<and> be_val (int_array i) = n"
  using decode_writes [OF assms, of "new_stream (written f @ r)" r] by auto

section \<open>Properties\<close>

text \<open>C5. What \<open>encode_integer\<close> writes for a 64-bit value, \<open>decode_integer\<close> reads back with the same
  value, for the signed and the unsigned encoder, and consumes exactly. Values from \<open>2 ^ 55\<close> to
  \<open>2 ^ 56\<close> are left out.\<close>

theorem der_int64_roundtrip:
  assumes "v < 0x80000000000000 \<or> 0x100000000000000 \<le> v"
    and "f = encode_int64 v \<or> f = encode_uint64 v"
    and "readable s" and "rest s = written f @ r"
  shows "\<exists>n. decode_integer s = Inr (n, advance (length (written f)) 1 s) \<and> to_int64 n = v \<and> to_uint64 n = v"
proof -
  have "writes_integer f (unat v)"
    using assms(2) writes_int64 [OF assms(1)] writes_uint64 [OF assms(1)] by auto
  then obtain n where "decode_integer s = Inr (n, advance (length (written f)) 1 s)"
    "int_array n \<noteq> []" "be_val (int_array n) = unat v"
    using decode_writes [OF _ assms(3,4)] by blast
  then show ?thesis by (intro exI [of _ n]) (simp add: to_int64_def to_uint64_def fold_octets_word)
qed

theorem der_int64_roundtrip_witness:
  "\<exists>n. decode_integer (new_stream (written (encode_uint64 0xFEDCBA9876543210))) =
     Inr (n, advance (length (written (encode_uint64 0xFEDCBA9876543210))) 1
       (new_stream (written (encode_uint64 0xFEDCBA9876543210)))) \<and>
     to_int64 n = 0xFEDCBA9876543210 \<and> to_uint64 n = 0xFEDCBA9876543210"
  by (rule der_int64_roundtrip [where r = "[]"]) simp_all

text \<open>A 64-bit value from \<open>2 ^ 55\<close> to \<open>2 ^ 56\<close> is written without the INTEGER tag: the octet 8 of its
  length stands in its place, and the decoder rejects it.\<close>

theorem der_int64_gap:
  assumes "0x80000000000000 \<le> v" and "v < 0x100000000000000"
  shows "decode_integer (new_stream (written (encode_int64 v) @ r)) = Inl invalid_tag \<and>
    decode_integer (new_stream (written (encode_uint64 v) @ r)) = Inl invalid_tag"
proof -
  have "\<And>s. encode_int64 v s = swrite (8 # 0 # be_octets 7 v) s"
    using assms by (simp add: encode_int64_def word_less_nat_alt word_le_nat_alt)
  then have i: "written (encode_int64 v) = 8 # 0 # be_octets 7 v" by (rule written_swrite)
  have "encode_uint64 v = encode_int64 v"
    using assms by (simp add: encode_uint64_def fun_eq_iff word_less_nat_alt word_le_nat_alt)
  with i show ?thesis by (simp add: decode_integer_def expect_tag_bad [where t' = 8] TAG_INTEGER_def)
qed

text \<open>The narrower integers round trip on all values, through encoders of their own width that
  hand small values on to one another.\<close>

theorem der_small_roundtrip:
  "(\<exists>n t. decode_integer (new_stream (written (encode_int8 v8) @ r)) = Inr (n, t) \<and>
       rest t = r \<and> to_int8 n = v8) \<and>
     (\<exists>n t. decode_integer (new_stream (written (encode_uint8 v8) @ r)) = Inr (n, t) \<and>
       rest t = r \<and> to_uint8 n = v8) \<and>
     (\<exists>n t. decode_integer (new_stream (written (encode_int16 v16) @ r)) = Inr (n, t) \<and>
       rest t = r \<and> to_int16 n = v16) \<and>
     (\<exists>n t. decode_integer (new_stream (written (encode_uint16 v16) @ r)) = Inr (n, t) \<and>
       rest t = r \<and> to_uint16 n = v16) \<and>
     (\<exists>n t. decode_integer (new_stream (written (encode_int32 v32) @ r)) = Inr (n, t) \<and>
       rest t = r \<and> to_int32 n = v32) \<and>
     (\<exists>n t. decode_integer (new_stream (written (encode_uint32 v32) @ r)) = Inr (n, t) \<and>
       rest t = r \<and> to_uint32 n = v32)"
  using decode_new [OF writes_int8, of v8 r] decode_new [OF writes_uint8, of v8 r]
    decode_new [OF writes_int16, of v16 r] decode_new [OF writes_uint16, of v16 r]
    decode_new [OF writes_int32, of v32 r] decode_new [OF writes_uint32, of v32 r]
  unfolding to_int8_def to_int16_def to_int32_def to_uint8_def to_uint16_def to_uint32_def
  by (intro conjI) (fastforce simp: fold_octets_word last_octet)+

text \<open>A big integer other than zero round trips, the padding to whole words trimmed on the way out;
  a negative one whose top word has its high bit set loses its sign.\<close>

theorem der_bigint_roundtrip:
  assumes "ival x \<noteq> 0" and "length (bi_to_octets True x) < 2 ^ 64"
    and "readable s" and "rest s = written (encode_bigint x) @ r"
  shows "\<exists>n. decode_integer s = Inr (n, advance (length (written (encode_bigint x))) 1 s) \<and>
    ival (to_bigint n) = (if ival x < 0 \<and> bit (top_word_of x) 31 then - ival x else ival x)"
  using decode_bigint_ok [OF _ assms(2,3,4)] assms(1) bi_to_octets_Nil [of x]
  by (simp add: octets_roundtrip_signed)

text \<open>Zero is encoded as an INTEGER without content, which the decoder rejects.\<close>

theorem der_bigint_zero:
  assumes "ival x = 0"
  shows "written (encode_bigint x) = [TAG_INTEGER, 0] \<and>
    decode_integer (new_stream (written (encode_bigint x))) = Inl invalid_length"
proof -
  have "bi_to_octets True x = []" using assms by (simp add: bi_to_octets_Nil)
  then have "written (encode_bigint x) = TAG_INTEGER # length_octets 0"
    by (simp add: written_def encode_bigint_def encode_integer_stream_def bs_read_to_at_def bs_read_to_def
        trim_begin.simps encode_length_octets Let_def)
  moreover from this have "decode_length (advance 1 1 (new_stream (written (encode_bigint x)))) =
      (0, advance (Suc (Suc 0)) 1 (new_stream (written (encode_bigint x))))"
    using tag_length_ok(2) [of "new_stream (written (encode_bigint x))" TAG_INTEGER 0 "[]"]
    by (simp add: length_octets_def)
  ultimately show ?thesis
    by (simp add: decode_integer_def expect_tag_ok length_octets_def byte_at_def)
qed

end
