(* ===== verification/DER.thy ===== *)
theory DER
  imports DER_Integer
begin

text \<open>
  \<open>Encoding/der.cpp\<close>: what the encoders of object identifiers, strings and containers write, the
  decoders read back, and where the two do not fit.
\<close>

section \<open>Object identifiers\<close>

text \<open>The number a sequence of 7-bit digits denotes, most significant first, flags ignored.\<close>

definition sevens :: "nat \<Rightarrow> byte list \<Rightarrow> nat" where
  "sevens v bs = foldl (\<lambda>v b. v * 128 + unat b mod 128) v bs"

lemma sevens_simps [simp]: "sevens v [] = v" "sevens v (b # bs) = sevens (v * 128 + unat b mod 128) bs"
  by (simp_all add: sevens_def)

lemma unat_and_7F: "unat (w AND 0x7F :: 'a::len word) = unat w mod 128"
proof -
  have "(0x7F :: 'a word) = mask 7" by (simp add: mask_eq_exp_minus_1)
  then have "w AND 0x7F = take_bit 7 w" by (simp only: take_bit_eq_mask)
  then have "unat (w AND 0x7F) = take_bit 7 (unat w)" by (simp only: unsigned_take_bit_eq)
  also have "\<dots> = unat w mod 2 ^ 7" by (rule take_bit_eq_mod)
  finally show ?thesis by simp
qed

lemma unat_flag: "b < 0x80 \<Longrightarrow> unat (0x80 OR b :: byte) = 128 + unat b"
proof -
  assume b: "b < 0x80"
  then have "0x80 AND b = 0" using and_80_iff [of b] by (simp add: and.commute)
  then have "0x80 OR b = 0x80 + b" by (simp add: disjunctive_add_eq_or)
  then show ?thesis using b by (simp add: unat_word_ariths word_less_nat_alt)
qed

lemma unat_oid_more: "unat (oid_more k node) = 128 + unat node div 2 ^ k mod 128"
proof -
  let ?x = "drop_bit k node AND 0x7F"
  have x: "unat ?x = unat node div 2 ^ k mod 128"
    by (simp only: unat_and_7F unat_drop_bit_div)
  then have "unat (ucast ?x :: byte) = unat node div 2 ^ k mod 128"
    using unat_ucast_fits [of ?x, where 'b = 8] by (simp only:) simp
  then show ?thesis by (simp add: oid_more_def unat_flag word_less_nat_alt)
qed

lemma unat_oid_last: "unat (oid_last node) = unat node mod 128"
  by (simp add: oid_last_def unat_and_7F unsigned_ucast_eq take_bit_eq_mod)
     (simp add: mod_mod_cancel)

lemma unat_oid_first:
  "unat node div 2 ^ k < 128 \<Longrightarrow> unat (0x80 OR ucast (drop_bit k node) :: byte) = 128 + unat node div 2 ^ k"
proof -
  assume k: "unat node div 2 ^ k < 128"
  have "unat (ucast (drop_bit k node) :: byte) = unat node div 2 ^ k"
    using k unat_ucast_fits [of "drop_bit k node", where 'b = 8] unfolding unat_drop_bit_div by simp
  then show ?thesis using k by (simp add: unat_flag word_less_nat_alt)
qed

definition oid_octets :: "word_t \<Rightarrow> byte list" where
  "oid_octets node = written (encode_oid_node node)"

lemma encode_oid_node_octets: "encode_oid_node node s = swrite (oid_octets node) s"
proof -
  have "oid_octets node =
     (if node < 0x80 then [ucast node]
      else if node < 0x100 then [0x81, oid_last node]
      else if node < 0x10000 then
        (if drop_bit 14 node > 0 then [0x80 OR ucast (drop_bit 14 node), oid_more 7 node, oid_last node]
         else [oid_more 7 node, oid_last node])
      else if node < 0x1000000 then
        (if drop_bit 21 node > 0
         then [0x80 OR ucast (drop_bit 21 node), oid_more 14 node, oid_more 7 node, oid_last node]
         else [oid_more 14 node, oid_more 7 node, oid_last node])
      else
        (if drop_bit 28 node > 0
         then [0x80 OR ucast (drop_bit 28 node), oid_more 21 node, oid_more 14 node, oid_more 7 node,
               oid_last node]
         else [oid_more 21 node, oid_more 14 node, oid_more 7 node, oid_last node]))"
    by (simp add: oid_octets_def encode_oid_node_def written_def)
  then show ?thesis by (simp add: encode_oid_node_def swrite_single)
qed

text \<open>The octets of a node: flagged ones, then one without the flag, denoting the node.\<close>

definition node_octets :: "word_t \<Rightarrow> byte list \<Rightarrow> bool" where
  "node_octets node bs \<longleftrightarrow> bs \<noteq> [] \<and> length bs \<le> 5 \<and> (\<forall>b \<in> set (butlast bs). 0x80 \<le> b) \<and>
     last bs < 0x80 \<and> sevens 0 bs = unat node"

lemma split_7: "u div 2 ^ (k + 7) * 128 + u div 2 ^ k mod 128 = (u :: nat) div 2 ^ k"
  using div_mult_mod_eq [of "u div 2 ^ k" 128] by (simp add: power_add div_mult2_eq)

lemma oid_octets_simps:
  "node < 0x80 \<Longrightarrow> oid_octets node = [ucast node]"
  "\<not> node < 0x80 \<Longrightarrow> node < 0x100 \<Longrightarrow> oid_octets node = [0x81, oid_last node]"
  "\<not> node < 0x100 \<Longrightarrow> node < 0x10000 \<Longrightarrow> oid_octets node =
     (if drop_bit 14 node > 0 then [0x80 OR ucast (drop_bit 14 node)] else []) @ [oid_more 7 node, oid_last node]"
  "\<not> node < 0x10000 \<Longrightarrow> node < 0x1000000 \<Longrightarrow> oid_octets node =
     (if drop_bit 21 node > 0 then [0x80 OR ucast (drop_bit 21 node)] else []) @
     [oid_more 14 node, oid_more 7 node, oid_last node]"
  "\<not> node < 0x1000000 \<Longrightarrow> oid_octets node =
     (if drop_bit 28 node > 0 then [0x80 OR ucast (drop_bit 28 node)] else []) @
     [oid_more 21 node, oid_more 14 node, oid_more 7 node, oid_last node]"
  by (simp_all add: oid_octets_def encode_oid_node_def written_def word_less_nat_alt)

text \<open>Only the leading digit depends on the size of the node.\<close>

lemma lead_digit:
  assumes "unat node < 2 ^ (k + 7)"
  shows "sevens 0 ((if drop_bit k node > 0 then [0x80 OR ucast (drop_bit k node)] else []) @ bs) =
      sevens (unat node div 2 ^ k) bs"
    and "\<forall>b \<in> set (if drop_bit k node > 0 then [0x80 OR ucast (drop_bit k node) :: byte] else []). 0x80 \<le> b"
proof -
  have k: "unat node div 2 ^ k < 128" using assms by (simp add: power_add less_mult_imp_div_less mult.commute)
  have "drop_bit k node > 0 \<longleftrightarrow> unat node div 2 ^ k \<noteq> 0"
    by (simp only: word_less_nat_alt unat_drop_bit_div) simp
  then show "sevens 0 ((if drop_bit k node > 0 then [0x80 OR ucast (drop_bit k node)] else []) @ bs) =
      sevens (unat node div 2 ^ k) bs"
    using unat_oid_first [OF k] k by simp
  show "\<forall>b \<in> set (if drop_bit k node > 0 then [0x80 OR ucast (drop_bit k node) :: byte] else []). 0x80 \<le> b"
    by (simp add: le_word_or2)
qed

lemma digit_bounds: "0x80 \<le> oid_more k node" "oid_last node < 0x80"
  by (simp_all add: word_le_nat_alt word_less_nat_alt unat_oid_more unat_oid_last)

lemma node_octets_ok: "node_octets node (oid_octets node)"
proof -
  let ?u = "unat node"
  have u: "?u < 2 ^ 32" using unsigned_less [of node, where ?'a = nat] by simp
  have d: "?u div 2 ^ 28 * 128 + ?u div 2 ^ 21 mod 128 = ?u div 2 ^ 21"
    "?u div 2 ^ 21 * 128 + ?u div 2 ^ 14 mod 128 = ?u div 2 ^ 14"
    "?u div 2 ^ 14 * 128 + ?u div 2 ^ 7 mod 128 = ?u div 2 ^ 7"
    "?u div 2 ^ 7 * 128 + ?u mod 128 = ?u"
    using split_7 [of ?u 21] split_7 [of ?u 14] split_7 [of ?u 7] split_7 [of ?u 0] by simp_all
  note digits = unat_oid_more unat_oid_last digit_bounds d
  consider "?u < 2 ^ 7" | "2 ^ 7 \<le> ?u" "?u < 2 ^ 8" | "2 ^ 8 \<le> ?u" "?u < 2 ^ 16"
    | "2 ^ 16 \<le> ?u" "?u < 2 ^ 24" | "2 ^ 24 \<le> ?u" by linarith
  then show ?thesis
  proof cases
    case 1
    then have "oid_octets node = [ucast node]" by (simp add: oid_octets_simps word_less_nat_alt)
    then show ?thesis using 1 unat_ucast_fits [of node, where 'b = 8]
      by (simp add: node_octets_def word_less_nat_alt)
  next
    case 2
    then have "oid_octets node = [0x81, oid_last node]" by (simp add: oid_octets_simps word_less_nat_alt)
    moreover have "?u div 2 ^ 7 = 1" using 2 by (intro div_nat_eqI) simp_all
    ultimately show ?thesis using d(4) by (simp add: node_octets_def digits del: d)
  next
    case 3
    then have o: "oid_octets node = (if drop_bit 14 node > 0 then [0x80 OR ucast (drop_bit 14 node)] else []) @
        [oid_more 7 node, oid_last node]"
      by (simp add: oid_octets_simps word_less_nat_alt)
    show ?thesis
      unfolding node_octets_def o
      using lead_digit [of node 14] 3 digits by simp
  next
    case 4
    then have o: "oid_octets node = (if drop_bit 21 node > 0 then [0x80 OR ucast (drop_bit 21 node)] else []) @
        [oid_more 14 node, oid_more 7 node, oid_last node]"
      by (simp add: oid_octets_simps word_less_nat_alt)
    show ?thesis
      unfolding node_octets_def o
      using lead_digit [of node 21] 4 digits by simp
  next
    case 5
    then have o: "oid_octets node = (if drop_bit 28 node > 0 then [0x80 OR ucast (drop_bit 28 node)] else []) @
        [oid_more 21 node, oid_more 14 node, oid_more 7 node, oid_last node]"
      by (simp add: oid_octets_simps word_less_nat_alt)
    show ?thesis
      unfolding node_octets_def o
      using lead_digit [of node 28] u digits by simp
  qed
qed

lemma oid_step:
  "push_bit 7 (word_of_nat v) + ucast (x AND 0x7F) = (word_of_nat (v * 128 + unat (x :: byte) mod 128) :: word_t)"
proof -
  have "ucast (x AND 0x7F) = (word_of_nat (unat (x AND 0x7F)) :: word_t)" by (rule of_nat_unat [symmetric])
  then show ?thesis by (simp add: unat_and_7F push_bit_eq_mult)
qed

lemma oid_node_loop_ok:
  assumes "readable s" and "rest s = bs @ l # r" and "\<forall>b \<in> set bs. 0x80 \<le> b" and "l < 0x80"
  shows "oid_node_loop (word_of_nat v) x s =
    Some (word_of_nat (sevens v (x # bs @ [l])), advance (Suc (length bs)) 1 s)"
  using assms(1-3)
proof (induction bs arbitrary: v x s)
  case Nil
  then show ?case
    using sget_Cons [OF Nil(1), of l r] assms(4) oid_step
    by (subst oid_node_loop.simps) (simp add: and_80_iff Let_def del: of_nat_add of_nat_mult)
next
  case (Cons b bs)
  have "oid_node_loop (word_of_nat (v * 128 + unat x mod 128)) b (advance 1 1 s) =
      Some (word_of_nat (sevens (v * 128 + unat x mod 128) (b # bs @ [l])), advance (Suc (length bs)) 1 (advance 1 1 s))"
    using Cons by (intro Cons.IH) simp_all
  moreover have "\<not> b < 0x80" using Cons.prems(3) by (simp add: not_less)
  ultimately show ?case
    using sget_Cons [OF Cons.prems(1), of b "bs @ l # r"] Cons.prems(2) oid_step
    by (subst oid_node_loop.simps) (simp add: and_80_iff Let_def del: of_nat_add of_nat_mult)
qed

lemma decode_oid_node_ok:
  assumes "readable s" and "rest s = bs @ r" and "node_octets node bs"
  shows "decode_oid_node s = Some (node, advance (length bs) 1 s)"
proof -
  have n: "bs \<noteq> []" "last bs < 0x80" "\<forall>b \<in> set (butlast bs). 0x80 \<le> b" "sevens 0 bs = unat node"
    using assms(3) by (simp_all add: node_octets_def)
  show ?thesis
  proof (cases "butlast bs")
    case Nil
    then obtain l where bs: "bs = [l]" using n(1) by (cases bs rule: rev_cases) auto
    then have "unat l = unat node" using n(2,4) by (simp add: word_less_nat_alt)
    moreover have "unat (ucast l :: word_t) = unat l"
      using unat_byte_less [of l] by (intro unat_ucast_fits) simp
    ultimately have "ucast l = node" by (simp only: word_unat_eq_iff)
    moreover have "l AND 0x80 = 0" using n(2) bs by (simp add: and_80_iff)
    ultimately show ?thesis
      using sget_Cons [OF assms(1), of l r] assms(2) bs by (simp add: decode_oid_node_def)
  next
    case (Cons b cs)
    then obtain l where bs: "bs = b # cs @ [l]" using n(1) by (cases bs rule: rev_cases) auto
    have r: "rest s = b # cs @ l # r" using assms(2) bs by simp
    have "oid_node_loop (word_of_nat 0) b (advance 1 1 s) =
        Some (word_of_nat (sevens 0 (b # cs @ [l])), advance (Suc (length cs)) 1 (advance 1 1 s))"
      using assms(1) r n(2,3) bs by (intro oid_node_loop_ok) simp_all
    moreover have "sevens 0 (b # cs @ [l]) = unat node" using bs n(4) by simp
    moreover have "\<not> b < 0x80" using n(3) Cons by (simp add: not_less)
    ultimately show ?thesis
      using sget_Cons [OF assms(1) r] bs by (simp add: decode_oid_node_def and_80_iff)
  qed
qed

lemma sget_end: "\<not> good s \<or> rest s = [] \<Longrightarrow> \<exists>t. sget s = (-1, t) \<and> \<not> good t"
  by (auto simp: sget_def rest_def good_def)

text \<open>The loop ends at an octet without the flag only.\<close>

lemma oid_node_loop_ends:
  assumes "oid_node_loop node x s = Some y"
  shows "good s \<and> (\<exists>b \<in> set (rest s). b < 0x80)"
proof (rule oid_node_loop.raw_induct [where P = "\<lambda>node x s y. good s \<and> (\<exists>b \<in> set (rest s). b < 0x80)", OF _ assms])
  fix f node x s y
  assume ih: "\<And>node x s y. f node x s = Some y \<Longrightarrow> good s \<and> (\<exists>b \<in> set (rest s). b < 0x80)"
    and run: "(let node = push_bit 7 node + ucast (x AND 0x7F)
      in case sget s of (c, s) \<Rightarrow>
           let octet = word_of_int c :: byte
           in if octet AND 0x80 = 0 then Some (push_bit 7 node + ucast (octet AND 0x7F), s)
              else f node octet s) = Some y"
  show "good s \<and> (\<exists>b \<in> set (rest s). b < 0x80)"
  proof (cases "\<not> good s \<or> rest s = []")
    case True
    then obtain t where "sget s = (-1, t)" "\<not> good t" using sget_end by blast
    then show ?thesis using run ih by (auto simp: Let_def)
  next
    case False
    then obtain b r where br: "rest s = b # r" by (cases "rest s") auto
    then have "readable s" using False rest_Cons [OF br] by (simp add: readable_def)
    then have g: "sget s = (uint b, advance 1 1 s)" using sget_Cons br by blast
    show ?thesis
    proof (cases "b < 0x80")
      case True
      then show ?thesis using False br by simp
    next
      case nf: False
      then have "f (push_bit 7 node + ucast (x AND 0x7F)) b (advance 1 1 s) = Some y"
        using run g by (simp add: Let_def and_80_iff)
      then show ?thesis using ih br False by fastforce
    qed
  qed
qed

section \<open>Whole identifiers\<close>

lemma oid_nodes_written:
  "appending s \<Longrightarrow> fold encode_oid_node ns s = append (concat (map oid_octets ns)) s"
  by (induction ns arbitrary: s) (simp_all add: encode_oid_node_octets)

abbreviation oid_content :: "word_t list \<Rightarrow> byte list" where
  "oid_content nodes \<equiv> concat (map oid_octets ((nodes ! 0 * 40 + nodes ! 1) # drop 2 nodes))"

lemma encode_oid_written:
  assumes "2 \<le> length nodes" and "appending s"
  shows "encode_oid nodes s =
    Inr (append (TAG_OID # length_octets (word_of_nat (length (oid_content nodes))) @ oid_content nodes) s)"
proof -
  define c where "c = oid_content nodes"
  have c: "fold encode_oid_node (drop 2 nodes) (encode_oid_node (nodes ! 0 * 40 + nodes ! 1) (new_stream [])) =
      append c (new_stream [])"
    using oid_nodes_written [of "append (oid_octets (nodes ! 0 * 40 + nodes ! 1)) (new_stream [])" "drop 2 nodes"]
    by (simp add: encode_oid_node_octets c_def)
  have read: "snd (bs_read_to_at 0 (length c) (append c (new_stream [])) t) = append c t" if "appending t" for t
    using bs_read_to_at_ok [of "append c (new_stream [])" t 0 "length c"] that by simp
  show ?thesis
    unfolding c_def [symmetric] using assms read
    by (simp add: encode_oid_def c [simplified] encode_length_octets Let_def split_def)
qed

lemma length_oid_content: "length (concat (map oid_octets ns)) \<le> 5 * length ns"
  using node_octets_ok by (induction ns) (auto simp: node_octets_def intro: add_mono)

lemma oid_loop_ok:
  assumes "readable s" and "rest s = concat (map oid_octets ns) @ r"
  shows "\<exists>t. oid_loop (int (gpos s + length (concat (map oid_octets ns)))) nodes s = Some (nodes @ ns, t) \<and>
    readable t \<and> rest t = r"
  using assms
proof (induction ns arbitrary: nodes s)
  case Nil
  then show ?case by (subst oid_loop.simps) (simp add: readable_def)
next
  case (Cons n ns)
  have r: "rest s = oid_octets n @ (concat (map oid_octets ns) @ r)" using Cons.prems(2) by simp
  have "0 < length (oid_octets n)" using node_octets_ok [of n] by (simp add: node_octets_def)
  then have l: "0 < int (length (oid_octets n)) + int (length (concat (map oid_octets ns)))" by linarith
  note d = decode_oid_node_ok [OF Cons.prems(1) r node_octets_ok]
  let ?t = "advance (length (oid_octets n)) 1 s"
  have "readable ?t" "rest ?t = concat (map oid_octets ns) @ r" using Cons.prems(1) r by simp_all
  from Cons.IH [OF this, of "nodes @ [n]"] show ?case
    using d l Cons.prems(1) by (subst oid_loop.simps) (simp add: readable_def add.assoc)
qed

lemma sint_of_length: "n < 2 ^ 63 \<Longrightarrow> sint (word_of_nat n :: u64) = int n"
proof -
  assume "n < 2 ^ 63"
  then have "signed_take_bit 63 (int n) = int n" by (intro signed_take_bit_int_eq_self) simp_all
  then show ?thesis by (simp add: signed_of_nat)
qed

lemma decode_oid_ok:
  assumes "readable s" and "rest s = TAG_OID # length_octets (word_of_nat (length c)) @ c @ r"
    and "c = b # concat (map oid_octets ns)" and "length c < 2 ^ 63"
  shows "\<exists>t. decode_oid s = ret ([word_of_int (uint b div 40), word_of_int (uint b mod 40)] @ ns, t) \<and> rest t = r"
proof -
  let ?l = "word_of_nat (length c) :: u64" and ?k = "Suc (length (length_octets (word_of_nat (length c))))"
  note t = tag_length_ok [OF assms(1,2)]
  let ?s = "advance ?k 1 s" and ?t = "advance 1 1 (advance (Suc (length (length_octets (word_of_nat (length c))))) 1 s)"
  have l: "sint ?l = int (length c)" by (rule sint_of_length [OF assms(4)])
  then have l0: "?l \<noteq> 0" using assms(3) by force
  have s: "readable ?s" "rest ?s = b # concat (map oid_octets ns) @ r"
    using t(3,4) [of 1] assms(3) by simp_all
  then have tt: "readable ?t" "rest ?t = concat (map oid_octets ns) @ r"
    using readable_advance [OF s(1), of 1 1] rest_advance [of 1 1 ?s] by (simp_all del: rest_advance advance_advance)
  have g: "good ?s" using s(1) by (simp only: readable_def)
  have e: "int (gpos ?t + length (concat (map oid_octets ns))) = int (gpos ?s) + sint ?l"
    using l assms(3) by simp
  have get: "sget (advance ?k 0 s) = (uint b, ?t)"
    using sget_Cons [OF t(3) [of 0], of b "concat (map oid_octets ns) @ r"] t(4) [of 0] assms(3) by simp
  show ?thesis
    using oid_loop_ok [OF tt, of "[word_of_int (uint b div 40), word_of_int (uint b mod 40)]"]
      t(2) speek_Cons [OF s] get g l0
    unfolding e decode_oid_def t(1) by auto
qed

section \<open>Contents\<close>

text \<open>What is left after consuming \<open>c\<close>, with the positions hidden.\<close>

lemma consume:
  assumes "readable s" and "rest s = c @ r"
  shows "\<exists>u. sread (length c) s = (c, u) \<and> readable u \<and> rest u = r"
    and "\<exists>u. get_octets (length c) s = (c, u) \<and> readable u \<and> rest u = r"
proof -
  have a: "readable (advance (length c) k s)" "rest (advance (length c) k s) = r" for k
    using assms readable_advance [OF assms(1), of "length c" k] by simp_all
  show "\<exists>u. sread (length c) s = (c, u) \<and> readable u \<and> rest u = r"
    using sread_rest [OF assms(1), of "length c"] assms(2) a by simp
  show "\<exists>u. get_octets (length c) s = (c, u) \<and> readable u \<and> rest u = r"
    using get_octets_app [OF assms] a [of 1] assms by (cases "c = []") auto
qed

lemma tag_length:
  assumes "readable s" and "rest s = t # length_octets len @ r"
  obtains v u where "expect_tag t s = Inr v" and "decode_length v = (len, u)" and "readable u" and "rest u = r"
  using that tag_length_ok [OF assms] by blast

lemma unat_length: "n < 2 ^ 64 \<Longrightarrow> unat (word_of_nat n :: u64) = n"
  by (simp add: unat_of_nat take_bit_nat_eq_self)

lemma decode_chars_ok:
  assumes "readable s" and "rest s = t # length_octets (word_of_nat (length c)) @ c @ r" and "length c < 2 ^ 64"
  shows "\<exists>u. decode_chars t s = Inr (c, u) \<and> readable u \<and> rest u = r"
proof -
  obtain v u where u: "expect_tag t s = Inr v" "decode_length v = (word_of_nat (length c), u)"
    "readable u" "rest u = c @ r" by (rule tag_length [OF assms(1,2)])
  then show ?thesis using consume(2) [OF u(3,4)] by (simp add: decode_chars_def unat_length [OF assms(3)])
qed

lemma read_content_ok:
  assumes "readable s" and "rest s = t # length_octets (word_of_nat (length c)) @ c @ r" and "length c < 2 ^ 64"
    and "appending out"
  shows "\<exists>v u. expect_tag t s = Inr v \<and> read_content v out = (u, append c out) \<and> readable u \<and> rest u = r"
proof -
  obtain v u where u: "expect_tag t s = Inr v" "decode_length v = (word_of_nat (length c), u)"
    "readable u" "rest u = c @ r" by (rule tag_length [OF assms(1,2)])
  obtain w where "sread (length c) u = (c, w)" "readable w" "rest w = r" using consume(1) [OF u(3,4)] by blast
  then show ?thesis using u assms(4) by (simp add: read_content_def unat_length [OF assms(3)])
qed

lemma bs_read_to_app:
  assumes "readable s" and "rest s = c @ r" and "appending out"
  shows "\<exists>u. bs_read_to (length c) s out = (u, append c out) \<and> readable u \<and> rest u = r"
  using bs_read_to_ok [OF assms(1,3), of "length c"] readable_advance [OF assms(1), of "length c" "length c"] assms
  by auto

lemma encode_content_written:
  assumes "appending s"
  shows "snd (encode_content t (new_stream c) s) = append (t # length_octets (word_of_nat (length c)) @ c) s"
  using assms bs_read_to_at_ok [of "new_stream c" "append X s" 0 "length c" for X]
  by (simp add: encode_content_def encode_length_octets)

section \<open>Properties\<close>

text \<open>Every 32-bit node of an object identifier round trips through its base-128 octets.\<close>

theorem der_oid_node_roundtrip:
  "decode_oid_node (new_stream (written (encode_oid_node node) @ r)) =
     Some (node, advance (length (written (encode_oid_node node))) 1 (new_stream (written (encode_oid_node node) @ r)))"
  unfolding oid_octets_def [symmetric]
  by (rule decode_oid_node_ok [OF readable_new _ node_octets_ok]) simp

text \<open>C6. On input whose octets all carry the continuation flag, the empty input included, decoding a
  node never returns: at end of file \<open>get()\<close> delivers -1, the octet 0xFF, for ever.\<close>

theorem der_oid_node_stuck:
  assumes "\<forall>b \<in> set (rest s). 0x80 \<le> b"
  shows "decode_oid_node s = None"
proof (rule ccontr)
  assume "decode_oid_node s \<noteq> None"
  then obtain y where y: "decode_oid_node s = Some y" by auto
  show False
  proof (cases "\<not> good s \<or> rest s = []")
    case True
    then obtain t where "sget s = (-1, t)" "\<not> good t" using sget_end by blast
    then show False using y oid_node_loop_ends by (fastforce simp: decode_oid_node_def)
  next
    case False
    then obtain b r where br: "rest s = b # r" by (cases "rest s") auto
    then have "readable s" using False rest_Cons [OF br] by (simp add: readable_def)
    moreover have "\<not> b < 0x80" using br assms by (simp add: not_less)
    ultimately have "oid_node_loop 0 b (advance 1 1 s) = Some y"
      using y sget_Cons [of s b r] br by (simp add: decode_oid_node_def and_80_iff)
    then show False using oid_node_loop_ends [of 0 b "advance 1 1 s" y] br assms by (auto simp: not_less)
  qed
qed

theorem der_oid_node_stuck_witness: "decode_oid_node (new_stream [0x86, 0xF7]) = None"
  by (rule der_oid_node_stuck) simp



text \<open>Sequences, sets, octet strings and character strings of any length read back the content they
  were written with, and consume exactly it.\<close>

theorem der_content_roundtrip:
  assumes "length c < 2 ^ 63"
  shows "(\<exists>u v. decode_sequence (new_stream (data (snd (encode_sequence (new_stream c) (new_stream []))) @ r))
      (new_stream []) = Inr (u, v) \<and> data v = c \<and> rest u = r) \<and>
    (\<exists>u v. decode_set (new_stream (data (snd (encode_set (new_stream c) (new_stream []))) @ r))
      (new_stream []) = Inr (u, v) \<and> data v = c \<and> rest u = r) \<and>
    (\<exists>u v. decode_octet_string (new_stream (written (encode_octet_string c) @ r)) (new_stream []) =
      Inr (word_of_nat (length c), u, v) \<and> data v = c \<and> rest u = r) \<and>
    (\<exists>u. decode_utf8_string (new_stream (written (encode_utf8_string c) @ r)) = Inr (c, u) \<and> rest u = r) \<and>
    (\<exists>u. decode_ia5_string (new_stream (written (encode_ia5_string c) @ r)) = Inr (c, u) \<and> rest u = r)"
proof (intro conjI)
  have l: "length c < 2 ^ 64" using assms by simp
  note enc = encode_sequence_def encode_set_def encode_content_written
  show "\<exists>u v. decode_sequence (new_stream (data (snd (encode_sequence (new_stream c) (new_stream []))) @ r))
      (new_stream []) = Inr (u, v) \<and> data v = c \<and> rest u = r"
    using read_content_ok [of "new_stream (TAG_SEQUENCE # length_octets (word_of_nat (length c)) @ c @ r)"
        TAG_SEQUENCE c r "new_stream []"] l
    by (auto simp: enc decode_sequence_def)
  show "\<exists>u v. decode_set (new_stream (data (snd (encode_set (new_stream c) (new_stream []))) @ r))
      (new_stream []) = Inr (u, v) \<and> data v = c \<and> rest u = r"
    using read_content_ok [of "new_stream (TAG_SET # length_octets (word_of_nat (length c)) @ c @ r)"
        TAG_SET c r "new_stream []"] l
    by (auto simp: enc decode_set_def)
  show "\<exists>u v. decode_octet_string (new_stream (written (encode_octet_string c) @ r)) (new_stream []) =
      Inr (word_of_nat (length c), u, v) \<and> data v = c \<and> rest u = r"
  proof -
    let ?s = "new_stream (TAG_OCTET_STRING # length_octets (word_of_nat (length c)) @ c @ r)"
    have w: "new_stream (written (encode_octet_string c) @ r) = ?s"
      by (simp add: written_def encode_octet_string_def encode_length_octets)
    obtain v u where u: "expect_tag TAG_OCTET_STRING ?s = Inr v" "decode_length v = (word_of_nat (length c), u)"
      "readable u" "rest u = c @ r" by (rule tag_length [of ?s]) simp_all
    have "0 \<le> sint (word_of_nat (length c) :: u64)" by (simp only: sint_of_length [OF assms] of_nat_0_le_iff)
    then show ?thesis
      unfolding w decode_octet_string_def u(1)
      using bs_read_to_app [OF u(3,4), of "new_stream []"] by (auto simp: u(2) unat_length [OF l])
  qed
  show "\<exists>u. decode_utf8_string (new_stream (written (encode_utf8_string c) @ r)) = Inr (c, u) \<and> rest u = r"
    using decode_chars_ok [of "new_stream (TAG_UTF8_STRING # length_octets (word_of_nat (length c)) @ c @ r)"
        TAG_UTF8_STRING c r] l
    by (auto simp: decode_utf8_string_def written_def encode_utf8_string_def encode_length_octets)
  show "\<exists>u. decode_ia5_string (new_stream (written (encode_ia5_string c) @ r)) = Inr (c, u) \<and> rest u = r"
    using decode_chars_ok [of "new_stream (TAG_IA5_STRING # length_octets (word_of_nat (length c)) @ c @ r)"
        TAG_IA5_STRING c r] l
    by (auto simp: decode_ia5_string_def written_def encode_ia5_string_def encode_length_octets)
qed

lemma padding:
  "m < 8 \<Longrightarrow> 8 * q + m = len \<Longrightarrow> k = (if m = 0 then q else q + 1) \<Longrightarrow>
     m \<le> 8 * k \<and> (8 * k - m = len \<longleftrightarrow> m = 0 \<or> m = (4 :: nat))"
  by (cases "m = 0") auto

text \<open>The number of bits a bit string is read with is the number it was written with exactly when
  that is a multiple of 4: the encoder writes the bits used in the last octet where the decoder, as the
  standard, has the bits unused.\<close>

theorem der_bit_string_length:
  assumes "len < 2 ^ 60" and "(len + 7) div 8 \<le> length bs"
  shows "\<exists>t n u v. encode_bit_string bs len (new_stream []) = Inr t \<and>
    decode_bit_string (new_stream (data t)) (new_stream []) = Inr (n, u, v) \<and>
    data v = take ((len + 7) div 8) bs \<and> (unat n = len \<longleftrightarrow> len mod 4 = 0)"
proof -
  define k where "k = (len + 7) div 8"
  have k: "bit_octets len = k + 1" unfolding bit_octets_def k_def by presburger
  have bits: "len mod 8 \<le> 8 * k" "8 * k - len mod 8 = len \<longleftrightarrow> len mod 4 = 0"
  proof -
    let ?m = "len mod 8"
    have m: "8 * (len div 8) + ?m = len" "len mod 4 = ?m mod 4" "?m < 8"
      by (simp_all add: mod_mod_cancel)
    have "k = (if ?m = 0 then len div 8 else len div 8 + 1)" using k by (simp add: bit_octets_def split: if_splits)
    moreover have "?m mod 4 = 0 \<longleftrightarrow> ?m = 0 \<or> ?m = 4" using m(3) by presburger
    ultimately show "len mod 8 \<le> 8 * k" "8 * k - len mod 8 = len \<longleftrightarrow> len mod 4 = 0"
      using m padding [of ?m "len div 8" len k] by simp_all
  qed
  let ?c = "word_of_nat (len mod 8) # take k bs" and ?l = "word_of_nat (k + 1) :: u64"
  define t where "t = append (TAG_BIT_STRING # length_octets ?l @ ?c) (new_stream [])"
  have e: "encode_bit_string bs len (new_stream []) = Inr t"
    using assms(2) by (simp add: encode_bit_string_def k encode_length_octets t_def k_def)
  obtain v u where u: "expect_tag TAG_BIT_STRING (new_stream (data t)) = Inr v" "decode_length v = (?l, u)"
    "readable u" "rest u = ?c @ []" by (rule tag_length [of "new_stream (data t)"]) (simp_all add: t_def)
  have get: "sget u = (uint (word_of_nat (len mod 8) :: byte), advance 1 1 u)"
    using sget_Cons [OF u(3)] u(4) by simp
  have lk: "length (take k bs) = k" using assms(2) by (simp add: k_def)
  obtain w where w: "bs_read_to k (advance 1 1 u) (new_stream []) = (w, append (take k bs) (new_stream []))"
    using bs_read_to_app [of "advance 1 1 u" "take k bs" "[]" "new_stream []"] u(3,4) lk by auto
  have small: "k < 2 ^ 60" using assms(1) unfolding k_def by linarith
  have l1: "?l - 1 = word_of_nat k" by simp
  have n: "0 \<le> sint (word_of_nat k :: u64)" "unat (word_of_nat k :: u64) = k"
    using small sint_of_length [of k] unat_length [of k] by simp_all
  define n where "n = (word_of_nat k * 8 - ucast (word_of_nat (len mod 8) :: byte) :: u64)"
  have "unat (word_of_nat (len mod 8) :: byte) = len mod 8" by (simp add: unat_of_nat take_bit_nat_eq_self)
  then have "ucast (word_of_nat (len mod 8) :: byte) = (word_of_nat (len mod 8) :: u64)"
    by (metis of_nat_unat)
  then have "n = word_of_nat (8 * k - len mod 8)" using bits(1) by (simp add: n_def of_nat_diff mult.commute)
  then have "unat n = 8 * k - len mod 8" using small unat_length [of "8 * k - len mod 8"] by simp
  then have "unat n = len \<longleftrightarrow> len mod 4 = 0" using bits(2) by simp
  moreover have "decode_bit_string (new_stream (data t)) (new_stream []) = Inr (n, w, append (take k bs) (new_stream []))"
    unfolding decode_bit_string_def u(1) using get w n by (simp add: u(2) l1 n_def)
  ultimately show ?thesis using e by (auto simp: k_def)
qed

end
