(* ===== verification/Typed_Streams.thy ===== *)
theory Typed_Streams
  imports Streams
begin

text \<open>
  The typed input and output of \<open>StreamIO/binarystream.cpp\<close>, \<open>nbostream.cpp\<close> (network byte order)
  and \<open>hbostream.cpp\<close> (host byte order).

  An object is its value, a word of the object's width; a \<open>float\<close>, \<open>double\<close> or \<open>long double\<close> is the
  word of its representation. \<open>load\<close> and \<open>store\<close> are the representation in memory: the host's byte
  order is the parameter \<open>big\<close>. A read that comes up short leaves the octets it did not get as they
  were: what the object held before, or what the stack held for an object that is not initialised
  (the parameter \<open>old\<close>). Each method is one definition; \<open>_ref\<close> marks the overloads that load into an
  object, \<open>_rv\<close> those that store from an rvalue.
\<close>

section \<open>Objects in memory\<close>

definition size_of :: "'a::len word \<Rightarrow> nat" where
  "size_of (v :: 'a word) = LENGTH('a) div 8"

definition load :: "bool \<Rightarrow> byte list \<Rightarrow> 'a::len word" where
  "load big bs = word_of_nat (be_val (if big then bs else rev bs))"

definition store :: "bool \<Rightarrow> 'a::len word \<Rightarrow> byte list" where
  "store big v = (if big then be_octets (size_of v) v else rev (be_octets (size_of v) v))"

text \<open>\<open>this->read(reinterpret_cast<char*>(&object), sizeof(T))\<close> and its counterpart.\<close>

definition read_object :: "bool \<Rightarrow> 'a::len word \<Rightarrow> stream \<Rightarrow> 'a word \<times> stream" where
  "read_object big old s =
     (let (bs, s) = sread (size_of old) s in (load big (bs @ drop (length bs) (store big old)), s))"

definition write_object :: "bool \<Rightarrow> 'a::len word \<Rightarrow> stream \<Rightarrow> stream" where
  "write_object big object s = swrite (store big object) s"

section \<open>binarystream: octets and strings\<close>

definition bs_read_std_bool :: "bool \<Rightarrow> byte \<Rightarrow> stream \<Rightarrow> byte \<times> stream" where
  "bs_read_std_bool big old s = (let (object, s) = read_object big old s in (object, s))"

definition bs_read_std_char :: "bool \<Rightarrow> byte \<Rightarrow> stream \<Rightarrow> byte \<times> stream" where
  "bs_read_std_char big old s = (let (object, s) = read_object big old s in (object, s))"

definition bs_read_std_byte :: "bool \<Rightarrow> byte \<Rightarrow> stream \<Rightarrow> byte \<times> stream" where
  "bs_read_std_byte big old s = (let (object, s) = read_object big old s in (object, s))"

definition bs_read_std_ubyte :: "bool \<Rightarrow> byte \<Rightarrow> stream \<Rightarrow> byte \<times> stream" where
  "bs_read_std_ubyte big old s = (let (object, s) = read_object big old s in (object, s))"

text \<open>A string is preceded by its length. The buffer of \<open>length\<close> octets on the stack is read into and
  copied whole; \<open>stack\<close> is what it held. The 16-bit length of a text is read by the subclass.\<close>

definition read_buffer_of :: "nat \<Rightarrow> byte list \<Rightarrow> stream \<Rightarrow> byte list \<times> stream" where
  "read_buffer_of n stack s = (let (bs, s) = sread n s in (bs @ drop (length bs) (take n stack), s))"

definition bs_read_std_string :: "bool \<Rightarrow> byte \<Rightarrow> byte list \<Rightarrow> stream \<Rightarrow> byte list \<times> stream" where
  "bs_read_std_string big old stack s =
     (let (len, s) = bs_read_std_ubyte big old s in
      if len = 0 then ([], s) else read_buffer_of (unat len) stack s)"

definition bs_read_std_text ::
  "(stream \<Rightarrow> 16 word \<times> stream) \<Rightarrow> byte list \<Rightarrow> stream \<Rightarrow> byte list \<times> stream" where
  "bs_read_std_text read_std_ushort stack s =
     (let (len, s) = read_std_ushort s in
      if len = 0 then ([], s) else read_buffer_of (unat len) stack s)"

definition bs_read_std_bool_ref :: "bool \<Rightarrow> byte \<Rightarrow> stream \<Rightarrow> byte \<times> stream" where
  "bs_read_std_bool_ref big object s = read_object big object s"

definition bs_read_std_char_ref :: "bool \<Rightarrow> byte \<Rightarrow> stream \<Rightarrow> byte \<times> stream" where
  "bs_read_std_char_ref big object s = read_object big object s"

definition bs_read_std_byte_ref :: "bool \<Rightarrow> byte \<Rightarrow> stream \<Rightarrow> byte \<times> stream" where
  "bs_read_std_byte_ref big object s = read_object big object s"

definition bs_read_std_ubyte_ref :: "bool \<Rightarrow> byte \<Rightarrow> stream \<Rightarrow> byte \<times> stream" where
  "bs_read_std_ubyte_ref big object s = read_object big object s"

definition bs_read_std_string_ref :: "bool \<Rightarrow> byte \<Rightarrow> byte list \<Rightarrow> byte list \<Rightarrow> stream \<Rightarrow> byte list \<times> stream" where
  "bs_read_std_string_ref big old stack object s =
     (let (len, s) = bs_read_std_ubyte big old s in
      if len = 0 then (let object = [] in (object, s))
      else (let (buffer, s) = read_buffer_of (unat len) stack s; object = buffer in (object, s)))"

definition bs_read_std_text_ref ::
  "(stream \<Rightarrow> 16 word \<times> stream) \<Rightarrow> byte list \<Rightarrow> byte list \<Rightarrow> stream \<Rightarrow> byte list \<times> stream" where
  "bs_read_std_text_ref read_std_ushort stack object s =
     (let (len, s) = read_std_ushort s in
      if len = 0 then (let object = [] in (object, s))
      else (let (buffer, s) = read_buffer_of (unat len) stack s; object = buffer in (object, s)))"

definition bs_write_std_bool :: "bool \<Rightarrow> byte \<Rightarrow> stream \<Rightarrow> stream" where
  "bs_write_std_bool big object s = write_object big object s"

definition bs_write_std_char :: "bool \<Rightarrow> byte \<Rightarrow> stream \<Rightarrow> stream" where
  "bs_write_std_char big object s = write_object big object s"

definition bs_write_std_byte :: "bool \<Rightarrow> byte \<Rightarrow> stream \<Rightarrow> stream" where
  "bs_write_std_byte big object s = write_object big object s"

definition bs_write_std_ubyte :: "bool \<Rightarrow> byte \<Rightarrow> stream \<Rightarrow> stream" where
  "bs_write_std_ubyte big object s = write_object big object s"

text \<open>\<open>object.length() << shift_count >> shift_count\<close> keeps the low 8 (16) bits of a 64-bit length.\<close>

definition bs_write_std_string :: "bool \<Rightarrow> byte list \<Rightarrow> stream \<Rightarrow> stream" where
  "bs_write_std_string big object s =
     (let shift_count = 8 * 8 - 8;
          len = (ucast (drop_bit shift_count (push_bit shift_count (word_of_nat (length object) :: u64))) :: byte);
          s = bs_write_std_ubyte big len s in
      if len > 0 then swrite (take (unat len) object) s else s)"

definition bs_write_std_text :: "(16 word \<Rightarrow> stream \<Rightarrow> stream) \<Rightarrow> byte list \<Rightarrow> stream \<Rightarrow> stream" where
  "bs_write_std_text write_std_ushort object s =
     (let shift_count = 8 * 8 - 16;
          len = (ucast (drop_bit shift_count (push_bit shift_count (word_of_nat (length object) :: u64))) :: 16 word);
          s = write_std_ushort len s in
      if len > 0 then swrite (take (unat len) object) s else s)"

definition bs_write_std_bool_rv :: "bool \<Rightarrow> byte \<Rightarrow> stream \<Rightarrow> stream" where
  "bs_write_std_bool_rv big object s = write_object big object s"

definition bs_write_std_char_rv :: "bool \<Rightarrow> byte \<Rightarrow> stream \<Rightarrow> stream" where
  "bs_write_std_char_rv big object s = write_object big object s"

definition bs_write_std_byte_rv :: "bool \<Rightarrow> byte \<Rightarrow> stream \<Rightarrow> stream" where
  "bs_write_std_byte_rv big object s = write_object big object s"

definition bs_write_std_ubyte_rv :: "bool \<Rightarrow> byte \<Rightarrow> stream \<Rightarrow> stream" where
  "bs_write_std_ubyte_rv big object s = write_object big object s"

definition bs_write_std_string_rv :: "bool \<Rightarrow> byte list \<Rightarrow> stream \<Rightarrow> stream" where
  "bs_write_std_string_rv big object s =
     (let shift_count = 8 * 8 - 8;
          len = (ucast (drop_bit shift_count (push_bit shift_count (word_of_nat (length object) :: u64))) :: byte);
          s = bs_write_std_ubyte big len s in
      if len > 0 then swrite (take (unat len) object) s else s)"

definition bs_write_std_text_rv :: "(16 word \<Rightarrow> stream \<Rightarrow> stream) \<Rightarrow> byte list \<Rightarrow> stream \<Rightarrow> stream" where
  "bs_write_std_text_rv write_std_ushort object s =
     (let shift_count = 8 * 8 - 16;
          len = (ucast (drop_bit shift_count (push_bit shift_count (word_of_nat (length object) :: u64))) :: 16 word);
          s = write_std_ushort len s in
      if len > 0 then swrite (take (unat len) object) s else s)"

section \<open>nbostream\<close>

text \<open>The probe: the first octet in memory of the 16-bit number 1.\<close>

definition host_is_big_endian :: "bool \<Rightarrow> bool" where
  "host_is_big_endian big \<longleftrightarrow> (let probe = (0x0001 :: 16 word) in hd (store big probe) = 0x00)"

definition reorder :: "bool \<Rightarrow> 'a::len word \<Rightarrow> 'a word" where
  "reorder big object =
     (let swapping = \<not> host_is_big_endian big in
      if swapping then load big (rev (store big object)) else object)"

definition nbo_read_std_short :: "bool \<Rightarrow> 16 word \<Rightarrow> stream \<Rightarrow> 16 word \<times> stream" where
  "nbo_read_std_short big old s = (let (object, s) = read_object big old s in (reorder big object, s))"

definition nbo_read_std_ushort :: "bool \<Rightarrow> 16 word \<Rightarrow> stream \<Rightarrow> 16 word \<times> stream" where
  "nbo_read_std_ushort big old s = (let (object, s) = read_object big old s in (reorder big object, s))"

definition nbo_read_std_int :: "bool \<Rightarrow> 32 word \<Rightarrow> stream \<Rightarrow> 32 word \<times> stream" where
  "nbo_read_std_int big old s = (let (object, s) = read_object big old s in (reorder big object, s))"

definition nbo_read_std_uint :: "bool \<Rightarrow> 32 word \<Rightarrow> stream \<Rightarrow> 32 word \<times> stream" where
  "nbo_read_std_uint big old s = (let (object, s) = read_object big old s in (reorder big object, s))"

definition nbo_read_std_long :: "bool \<Rightarrow> 64 word \<Rightarrow> stream \<Rightarrow> 64 word \<times> stream" where
  "nbo_read_std_long big old s = (let (object, s) = read_object big old s in (reorder big object, s))"

definition nbo_read_std_ulong :: "bool \<Rightarrow> 64 word \<Rightarrow> stream \<Rightarrow> 64 word \<times> stream" where
  "nbo_read_std_ulong big old s = (let (object, s) = read_object big old s in (reorder big object, s))"

definition nbo_read_std_float :: "bool \<Rightarrow> 32 word \<Rightarrow> stream \<Rightarrow> 32 word \<times> stream" where
  "nbo_read_std_float big old s = (let (object, s) = read_object big old s in (reorder big object, s))"

definition nbo_read_std_double :: "bool \<Rightarrow> 64 word \<Rightarrow> stream \<Rightarrow> 64 word \<times> stream" where
  "nbo_read_std_double big old s = (let (object, s) = read_object big old s in (reorder big object, s))"

definition nbo_read_std_real :: "bool \<Rightarrow> 128 word \<Rightarrow> stream \<Rightarrow> 128 word \<times> stream" where
  "nbo_read_std_real big old s = (let (object, s) = read_object big old s in (reorder big object, s))"

definition nbo_read_std_size :: "bool \<Rightarrow> 64 word \<Rightarrow> stream \<Rightarrow> 64 word \<times> stream" where
  "nbo_read_std_size big old s = (let (object, s) = read_object big old s in (reorder big object, s))"

definition nbo_read_std_time :: "bool \<Rightarrow> 64 word \<Rightarrow> stream \<Rightarrow> 64 word \<times> stream" where
  "nbo_read_std_time big old s = (let (object, s) = read_object big old s in (reorder big object, s))"

definition nbo_read_std_clock :: "bool \<Rightarrow> 64 word \<Rightarrow> stream \<Rightarrow> 64 word \<times> stream" where
  "nbo_read_std_clock big old s = (let (object, s) = read_object big old s in (reorder big object, s))"

definition nbo_read_std_short_ref :: "bool \<Rightarrow> 16 word \<Rightarrow> stream \<Rightarrow> 16 word \<times> stream" where
  "nbo_read_std_short_ref big object s =
     (let (object, s) = read_object big object s; object = reorder big object in (object, s))"

definition nbo_read_std_ushort_ref :: "bool \<Rightarrow> 16 word \<Rightarrow> stream \<Rightarrow> 16 word \<times> stream" where
  "nbo_read_std_ushort_ref big object s =
     (let (object, s) = read_object big object s; object = reorder big object in (object, s))"

definition nbo_read_std_int_ref :: "bool \<Rightarrow> 32 word \<Rightarrow> stream \<Rightarrow> 32 word \<times> stream" where
  "nbo_read_std_int_ref big object s =
     (let (object, s) = read_object big object s; object = reorder big object in (object, s))"

definition nbo_read_std_uint_ref :: "bool \<Rightarrow> 32 word \<Rightarrow> stream \<Rightarrow> 32 word \<times> stream" where
  "nbo_read_std_uint_ref big object s =
     (let (object, s) = read_object big object s; object = reorder big object in (object, s))"

definition nbo_read_std_long_ref :: "bool \<Rightarrow> 64 word \<Rightarrow> stream \<Rightarrow> 64 word \<times> stream" where
  "nbo_read_std_long_ref big object s =
     (let (object, s) = read_object big object s; object = reorder big object in (object, s))"

definition nbo_read_std_ulong_ref :: "bool \<Rightarrow> 64 word \<Rightarrow> stream \<Rightarrow> 64 word \<times> stream" where
  "nbo_read_std_ulong_ref big object s =
     (let (object, s) = read_object big object s; object = reorder big object in (object, s))"

definition nbo_read_std_float_ref :: "bool \<Rightarrow> 32 word \<Rightarrow> stream \<Rightarrow> 32 word \<times> stream" where
  "nbo_read_std_float_ref big object s =
     (let (object, s) = read_object big object s; object = reorder big object in (object, s))"

definition nbo_read_std_double_ref :: "bool \<Rightarrow> 64 word \<Rightarrow> stream \<Rightarrow> 64 word \<times> stream" where
  "nbo_read_std_double_ref big object s =
     (let (object, s) = read_object big object s; object = reorder big object in (object, s))"

definition nbo_read_std_real_ref :: "bool \<Rightarrow> 128 word \<Rightarrow> stream \<Rightarrow> 128 word \<times> stream" where
  "nbo_read_std_real_ref big object s =
     (let (object, s) = read_object big object s; object = reorder big object in (object, s))"

definition nbo_read_std_size_ref :: "bool \<Rightarrow> 64 word \<Rightarrow> stream \<Rightarrow> 64 word \<times> stream" where
  "nbo_read_std_size_ref big object s =
     (let (object, s) = read_object big object s; object = reorder big object in (object, s))"

definition nbo_read_std_time_ref :: "bool \<Rightarrow> 64 word \<Rightarrow> stream \<Rightarrow> 64 word \<times> stream" where
  "nbo_read_std_time_ref big object s =
     (let (object, s) = read_object big object s; object = reorder big object in (object, s))"

definition nbo_read_std_clock_ref :: "bool \<Rightarrow> 64 word \<Rightarrow> stream \<Rightarrow> 64 word \<times> stream" where
  "nbo_read_std_clock_ref big object s =
     (let (object, s) = read_object big object s; object = reorder big object in (object, s))"

definition nbo_write_std_short_rv :: "bool \<Rightarrow> 16 word \<Rightarrow> stream \<Rightarrow> stream" where
  "nbo_write_std_short_rv big object s = (let ordered = reorder big object in write_object big ordered s)"

definition nbo_write_std_ushort_rv :: "bool \<Rightarrow> 16 word \<Rightarrow> stream \<Rightarrow> stream" where
  "nbo_write_std_ushort_rv big object s = (let ordered = reorder big object in write_object big ordered s)"

definition nbo_write_std_int_rv :: "bool \<Rightarrow> 32 word \<Rightarrow> stream \<Rightarrow> stream" where
  "nbo_write_std_int_rv big object s = (let ordered = reorder big object in write_object big ordered s)"

definition nbo_write_std_uint_rv :: "bool \<Rightarrow> 32 word \<Rightarrow> stream \<Rightarrow> stream" where
  "nbo_write_std_uint_rv big object s = (let ordered = reorder big object in write_object big ordered s)"

definition nbo_write_std_long_rv :: "bool \<Rightarrow> 64 word \<Rightarrow> stream \<Rightarrow> stream" where
  "nbo_write_std_long_rv big object s = (let ordered = reorder big object in write_object big ordered s)"

definition nbo_write_std_ulong_rv :: "bool \<Rightarrow> 64 word \<Rightarrow> stream \<Rightarrow> stream" where
  "nbo_write_std_ulong_rv big object s = (let ordered = reorder big object in write_object big ordered s)"

definition nbo_write_std_float_rv :: "bool \<Rightarrow> 32 word \<Rightarrow> stream \<Rightarrow> stream" where
  "nbo_write_std_float_rv big object s = (let ordered = reorder big object in write_object big ordered s)"

definition nbo_write_std_double_rv :: "bool \<Rightarrow> 64 word \<Rightarrow> stream \<Rightarrow> stream" where
  "nbo_write_std_double_rv big object s = (let ordered = reorder big object in write_object big ordered s)"

definition nbo_write_std_real_rv :: "bool \<Rightarrow> 128 word \<Rightarrow> stream \<Rightarrow> stream" where
  "nbo_write_std_real_rv big object s = (let ordered = reorder big object in write_object big ordered s)"

definition nbo_write_std_size_rv :: "bool \<Rightarrow> 64 word \<Rightarrow> stream \<Rightarrow> stream" where
  "nbo_write_std_size_rv big object s = (let ordered = reorder big object in write_object big ordered s)"

definition nbo_write_std_time_rv :: "bool \<Rightarrow> 64 word \<Rightarrow> stream \<Rightarrow> stream" where
  "nbo_write_std_time_rv big object s = (let ordered = reorder big object in write_object big ordered s)"

definition nbo_write_std_clock_rv :: "bool \<Rightarrow> 64 word \<Rightarrow> stream \<Rightarrow> stream" where
  "nbo_write_std_clock_rv big object s = (let ordered = reorder big object in write_object big ordered s)"

definition nbo_write_std_short :: "bool \<Rightarrow> 16 word \<Rightarrow> stream \<Rightarrow> stream" where
  "nbo_write_std_short big object s = (let ordered = reorder big object in write_object big ordered s)"

definition nbo_write_std_ushort :: "bool \<Rightarrow> 16 word \<Rightarrow> stream \<Rightarrow> stream" where
  "nbo_write_std_ushort big object s = (let ordered = reorder big object in write_object big ordered s)"

definition nbo_write_std_int :: "bool \<Rightarrow> 32 word \<Rightarrow> stream \<Rightarrow> stream" where
  "nbo_write_std_int big object s = (let ordered = reorder big object in write_object big ordered s)"

definition nbo_write_std_uint :: "bool \<Rightarrow> 32 word \<Rightarrow> stream \<Rightarrow> stream" where
  "nbo_write_std_uint big object s = (let ordered = reorder big object in write_object big ordered s)"

definition nbo_write_std_long :: "bool \<Rightarrow> 64 word \<Rightarrow> stream \<Rightarrow> stream" where
  "nbo_write_std_long big object s = (let ordered = reorder big object in write_object big ordered s)"

definition nbo_write_std_ulong :: "bool \<Rightarrow> 64 word \<Rightarrow> stream \<Rightarrow> stream" where
  "nbo_write_std_ulong big object s = (let ordered = reorder big object in write_object big ordered s)"

definition nbo_write_std_float :: "bool \<Rightarrow> 32 word \<Rightarrow> stream \<Rightarrow> stream" where
  "nbo_write_std_float big object s = (let ordered = reorder big object in write_object big ordered s)"

definition nbo_write_std_double :: "bool \<Rightarrow> 64 word \<Rightarrow> stream \<Rightarrow> stream" where
  "nbo_write_std_double big object s = (let ordered = reorder big object in write_object big ordered s)"

definition nbo_write_std_real :: "bool \<Rightarrow> 128 word \<Rightarrow> stream \<Rightarrow> stream" where
  "nbo_write_std_real big object s = (let ordered = reorder big object in write_object big ordered s)"

definition nbo_write_std_size :: "bool \<Rightarrow> 64 word \<Rightarrow> stream \<Rightarrow> stream" where
  "nbo_write_std_size big object s = (let ordered = reorder big object in write_object big ordered s)"

definition nbo_write_std_time :: "bool \<Rightarrow> 64 word \<Rightarrow> stream \<Rightarrow> stream" where
  "nbo_write_std_time big object s = (let ordered = reorder big object in write_object big ordered s)"

definition nbo_write_std_clock :: "bool \<Rightarrow> 64 word \<Rightarrow> stream \<Rightarrow> stream" where
  "nbo_write_std_clock big object s = (let ordered = reorder big object in write_object big ordered s)"

section \<open>hbostream\<close>

definition hbo_read_std_short :: "bool \<Rightarrow> 16 word \<Rightarrow> stream \<Rightarrow> 16 word \<times> stream" where
  "hbo_read_std_short big old s = (let (object, s) = read_object big old s in (object, s))"

definition hbo_read_std_ushort :: "bool \<Rightarrow> 16 word \<Rightarrow> stream \<Rightarrow> 16 word \<times> stream" where
  "hbo_read_std_ushort big old s = (let (object, s) = read_object big old s in (object, s))"

definition hbo_read_std_int :: "bool \<Rightarrow> 32 word \<Rightarrow> stream \<Rightarrow> 32 word \<times> stream" where
  "hbo_read_std_int big old s = (let (object, s) = read_object big old s in (object, s))"

definition hbo_read_std_uint :: "bool \<Rightarrow> 32 word \<Rightarrow> stream \<Rightarrow> 32 word \<times> stream" where
  "hbo_read_std_uint big old s = (let (object, s) = read_object big old s in (object, s))"

definition hbo_read_std_long :: "bool \<Rightarrow> 64 word \<Rightarrow> stream \<Rightarrow> 64 word \<times> stream" where
  "hbo_read_std_long big old s = (let (object, s) = read_object big old s in (object, s))"

definition hbo_read_std_ulong :: "bool \<Rightarrow> 64 word \<Rightarrow> stream \<Rightarrow> 64 word \<times> stream" where
  "hbo_read_std_ulong big old s = (let (object, s) = read_object big old s in (object, s))"

definition hbo_read_std_float :: "bool \<Rightarrow> 32 word \<Rightarrow> stream \<Rightarrow> 32 word \<times> stream" where
  "hbo_read_std_float big old s = (let (object, s) = read_object big old s in (object, s))"

definition hbo_read_std_double :: "bool \<Rightarrow> 64 word \<Rightarrow> stream \<Rightarrow> 64 word \<times> stream" where
  "hbo_read_std_double big old s = (let (object, s) = read_object big old s in (object, s))"

definition hbo_read_std_real :: "bool \<Rightarrow> 128 word \<Rightarrow> stream \<Rightarrow> 128 word \<times> stream" where
  "hbo_read_std_real big old s = (let (object, s) = read_object big old s in (object, s))"

definition hbo_read_std_size :: "bool \<Rightarrow> 64 word \<Rightarrow> stream \<Rightarrow> 64 word \<times> stream" where
  "hbo_read_std_size big old s = (let (object, s) = read_object big old s in (object, s))"

definition hbo_read_std_time :: "bool \<Rightarrow> 64 word \<Rightarrow> stream \<Rightarrow> 64 word \<times> stream" where
  "hbo_read_std_time big old s = (let (object, s) = read_object big old s in (object, s))"

definition hbo_read_std_clock :: "bool \<Rightarrow> 64 word \<Rightarrow> stream \<Rightarrow> 64 word \<times> stream" where
  "hbo_read_std_clock big old s = (let (object, s) = read_object big old s in (object, s))"

definition hbo_read_std_short_ref :: "bool \<Rightarrow> 16 word \<Rightarrow> stream \<Rightarrow> 16 word \<times> stream" where
  "hbo_read_std_short_ref big object s = read_object big object s"

definition hbo_read_std_ushort_ref :: "bool \<Rightarrow> 16 word \<Rightarrow> stream \<Rightarrow> 16 word \<times> stream" where
  "hbo_read_std_ushort_ref big object s = read_object big object s"

definition hbo_read_std_int_ref :: "bool \<Rightarrow> 32 word \<Rightarrow> stream \<Rightarrow> 32 word \<times> stream" where
  "hbo_read_std_int_ref big object s = read_object big object s"

definition hbo_read_std_uint_ref :: "bool \<Rightarrow> 32 word \<Rightarrow> stream \<Rightarrow> 32 word \<times> stream" where
  "hbo_read_std_uint_ref big object s = read_object big object s"

definition hbo_read_std_long_ref :: "bool \<Rightarrow> 64 word \<Rightarrow> stream \<Rightarrow> 64 word \<times> stream" where
  "hbo_read_std_long_ref big object s = read_object big object s"

definition hbo_read_std_ulong_ref :: "bool \<Rightarrow> 64 word \<Rightarrow> stream \<Rightarrow> 64 word \<times> stream" where
  "hbo_read_std_ulong_ref big object s = read_object big object s"

definition hbo_read_std_float_ref :: "bool \<Rightarrow> 32 word \<Rightarrow> stream \<Rightarrow> 32 word \<times> stream" where
  "hbo_read_std_float_ref big object s = read_object big object s"

definition hbo_read_std_double_ref :: "bool \<Rightarrow> 64 word \<Rightarrow> stream \<Rightarrow> 64 word \<times> stream" where
  "hbo_read_std_double_ref big object s = read_object big object s"

definition hbo_read_std_real_ref :: "bool \<Rightarrow> 128 word \<Rightarrow> stream \<Rightarrow> 128 word \<times> stream" where
  "hbo_read_std_real_ref big object s = read_object big object s"

definition hbo_read_std_size_ref :: "bool \<Rightarrow> 64 word \<Rightarrow> stream \<Rightarrow> 64 word \<times> stream" where
  "hbo_read_std_size_ref big object s = read_object big object s"

definition hbo_read_std_time_ref :: "bool \<Rightarrow> 64 word \<Rightarrow> stream \<Rightarrow> 64 word \<times> stream" where
  "hbo_read_std_time_ref big object s = read_object big object s"

definition hbo_read_std_clock_ref :: "bool \<Rightarrow> 64 word \<Rightarrow> stream \<Rightarrow> 64 word \<times> stream" where
  "hbo_read_std_clock_ref big object s = read_object big object s"

definition hbo_write_std_short_rv :: "bool \<Rightarrow> 16 word \<Rightarrow> stream \<Rightarrow> stream" where
  "hbo_write_std_short_rv big object s = write_object big object s"

definition hbo_write_std_ushort_rv :: "bool \<Rightarrow> 16 word \<Rightarrow> stream \<Rightarrow> stream" where
  "hbo_write_std_ushort_rv big object s = write_object big object s"

definition hbo_write_std_int_rv :: "bool \<Rightarrow> 32 word \<Rightarrow> stream \<Rightarrow> stream" where
  "hbo_write_std_int_rv big object s = write_object big object s"

definition hbo_write_std_uint_rv :: "bool \<Rightarrow> 32 word \<Rightarrow> stream \<Rightarrow> stream" where
  "hbo_write_std_uint_rv big object s = write_object big object s"

definition hbo_write_std_long_rv :: "bool \<Rightarrow> 64 word \<Rightarrow> stream \<Rightarrow> stream" where
  "hbo_write_std_long_rv big object s = write_object big object s"

definition hbo_write_std_ulong_rv :: "bool \<Rightarrow> 64 word \<Rightarrow> stream \<Rightarrow> stream" where
  "hbo_write_std_ulong_rv big object s = write_object big object s"

definition hbo_write_std_float_rv :: "bool \<Rightarrow> 32 word \<Rightarrow> stream \<Rightarrow> stream" where
  "hbo_write_std_float_rv big object s = write_object big object s"

definition hbo_write_std_double_rv :: "bool \<Rightarrow> 64 word \<Rightarrow> stream \<Rightarrow> stream" where
  "hbo_write_std_double_rv big object s = write_object big object s"

definition hbo_write_std_real_rv :: "bool \<Rightarrow> 128 word \<Rightarrow> stream \<Rightarrow> stream" where
  "hbo_write_std_real_rv big object s = write_object big object s"

definition hbo_write_std_size_rv :: "bool \<Rightarrow> 64 word \<Rightarrow> stream \<Rightarrow> stream" where
  "hbo_write_std_size_rv big object s = write_object big object s"

definition hbo_write_std_time_rv :: "bool \<Rightarrow> 64 word \<Rightarrow> stream \<Rightarrow> stream" where
  "hbo_write_std_time_rv big object s = write_object big object s"

definition hbo_write_std_clock_rv :: "bool \<Rightarrow> 64 word \<Rightarrow> stream \<Rightarrow> stream" where
  "hbo_write_std_clock_rv big object s = write_object big object s"

definition hbo_write_std_short :: "bool \<Rightarrow> 16 word \<Rightarrow> stream \<Rightarrow> stream" where
  "hbo_write_std_short big object s = write_object big object s"

definition hbo_write_std_ushort :: "bool \<Rightarrow> 16 word \<Rightarrow> stream \<Rightarrow> stream" where
  "hbo_write_std_ushort big object s = write_object big object s"

definition hbo_write_std_int :: "bool \<Rightarrow> 32 word \<Rightarrow> stream \<Rightarrow> stream" where
  "hbo_write_std_int big object s = write_object big object s"

definition hbo_write_std_uint :: "bool \<Rightarrow> 32 word \<Rightarrow> stream \<Rightarrow> stream" where
  "hbo_write_std_uint big object s = write_object big object s"

definition hbo_write_std_long :: "bool \<Rightarrow> 64 word \<Rightarrow> stream \<Rightarrow> stream" where
  "hbo_write_std_long big object s = write_object big object s"

definition hbo_write_std_ulong :: "bool \<Rightarrow> 64 word \<Rightarrow> stream \<Rightarrow> stream" where
  "hbo_write_std_ulong big object s = write_object big object s"

definition hbo_write_std_float :: "bool \<Rightarrow> 32 word \<Rightarrow> stream \<Rightarrow> stream" where
  "hbo_write_std_float big object s = write_object big object s"

definition hbo_write_std_double :: "bool \<Rightarrow> 64 word \<Rightarrow> stream \<Rightarrow> stream" where
  "hbo_write_std_double big object s = write_object big object s"

definition hbo_write_std_real :: "bool \<Rightarrow> 128 word \<Rightarrow> stream \<Rightarrow> stream" where
  "hbo_write_std_real big object s = write_object big object s"

definition hbo_write_std_size :: "bool \<Rightarrow> 64 word \<Rightarrow> stream \<Rightarrow> stream" where
  "hbo_write_std_size big object s = write_object big object s"

definition hbo_write_std_time :: "bool \<Rightarrow> 64 word \<Rightarrow> stream \<Rightarrow> stream" where
  "hbo_write_std_time big object s = write_object big object s"

definition hbo_write_std_clock :: "bool \<Rightarrow> 64 word \<Rightarrow> stream \<Rightarrow> stream" where
  "hbo_write_std_clock big object s = write_object big object s"

end
