(* ===== verification/Byte_Order.thy ===== *)
theory Byte_Order
  imports Typed_Streams
begin

text \<open>
  What the typed streams promise: \<open>object_io\<close> is the contract between a writer and a reader of one type,
  kept by every method of \<open>nbostream\<close> and \<open>hbostream\<close>; network order is the same on both kinds of host,
  host order is not.
\<close>

section \<open>The contract\<close>

text \<open>\<open>rep\<close> is what an object looks like in the stream.\<close>

locale object_io =
  fixes wr :: "'a::len word \<Rightarrow> stream \<Rightarrow> stream"
    and rd :: "'a word \<Rightarrow> stream \<Rightarrow> 'a word \<times> stream"
    and rep :: "'a word \<Rightarrow> byte list"
  assumes wr_rep: "wr v s = swrite (rep v) s"
    and rd_rep: "readable s \<Longrightarrow> rest s = rep v @ r \<Longrightarrow>
      rd old s = (v, advance (length (rep v)) (length (rep v)) s)"
begin

lemma wr_appends: "appending s \<Longrightarrow> wr v s = append (rep v) s"
  by (simp add: wr_rep)

lemma wr_rd: "rd old (new_stream (data (wr v (new_stream [])) @ r)) =
    (v, advance (length (rep v)) (length (rep v)) (new_stream (rep v @ r)))"
  using rd_rep [of "new_stream (rep v @ r)" v r old] by (simp add: wr_appends)

text \<open>Objects written one after the other come back in their order.\<close>

lemma wr_list: "appending s \<Longrightarrow> fold wr vs s = append (concat (map rep vs)) s"
  by (induction vs arbitrary: s) (simp_all add: wr_appends)

lemma rd_list:
  assumes "readable s" and "rest s = concat (map rep vs) @ r"
  shows "\<exists>t. fold (\<lambda>old (xs, s). let (x, s) = rd old s in (xs @ [x], s)) (replicate (length vs) old) (acc, s) =
    (acc @ vs, t) \<and> rest t = r"
  using assms
proof (induction vs arbitrary: s acc)
  case (Cons v vs)
  let ?t = "advance (length (rep v)) (length (rep v)) s"
  have "rest s = rep v @ (concat (map rep vs) @ r)" using Cons.prems(2) by simp
  then have "rd old s = (v, ?t)" "readable ?t" "rest ?t = concat (map rep vs) @ r"
    using rd_rep Cons.prems(1) by simp_all
  then show ?case using Cons.IH [of ?t "acc @ [v]"] by simp
qed simp

end

section \<open>Objects in memory\<close>

lemma length_store [simp]: "length (store big v) = size_of v"
  by (simp add: store_def)

lemma load_store:
  assumes "8 * size_of (v :: 'a::len word) = LENGTH('a)"
  shows "load big (store big v) = v"
proof -
  have "(256 :: nat) ^ size_of v = 2 ^ LENGTH('a)" by (simp add: power_mult flip: assms)
  then have "be_val (be_octets (size_of v) v) = unat v"
    by (intro be_val_be_octets_small) (simp add: unsigned_less)
  then show ?thesis by (simp add: load_def store_def)
qed

lemma size_of_same: "size_of (v :: 'a::len word) = size_of (w :: 'a word)"
  by (simp add: size_of_def)

lemma store_load:
  assumes "8 * size_of (v :: 'a::len word) = LENGTH('a)" and "length bs = size_of v"
  shows "store big (load big bs :: 'a word) = bs"
proof -
  have p: "(256 :: nat) ^ size_of v = 2 ^ LENGTH('a)" by (simp add: power_mult flip: assms(1))
  have oct: "be_octets (size_of v) (word_of_nat (be_val cs) :: 'a word) = cs" if "length cs = size_of v" for cs
  proof (rule be_val_inj)
    show "be_val (be_octets (size_of v) (word_of_nat (be_val cs) :: 'a word)) = be_val cs"
      using be_val_less [of cs] that p
      by (simp add: be_val_be_octets unat_of_nat take_bit_eq_mod)
  qed (simp add: that)
  show ?thesis
    using oct [of bs] oct [of "rev bs"] assms(2) size_of_same [of "word_of_nat (be_val bs)" v]
      size_of_same [of "word_of_nat (be_val (rev bs))" v]
    by (simp add: load_def store_def)
qed

lemma host_probe [simp]: "host_is_big_endian big \<longleftrightarrow> big"
  by (simp add: host_is_big_endian_def store_def size_of_def byte_at_def numeral_2_eq_2)

lemma reorder_store:
  assumes "8 * size_of (v :: 'a::len word) = LENGTH('a)"
  shows "store big (reorder big v) = be_octets (size_of v) v"
proof (cases big)
  case False
  have "store False (load False (rev (store False v)) :: 'a word) = rev (store False v)"
    by (rule store_load [OF assms]) simp
  then show ?thesis using False by (simp add: reorder_def store_def)
qed (simp add: reorder_def store_def)

lemma reorder_reorder:
  assumes "8 * size_of (v :: 'a::len word) = LENGTH('a)"
  shows "reorder big (reorder big v) = v"
proof (cases big)
  case False
  then show ?thesis
    using reorder_store [OF assms, of False] load_store [OF assms, of False]
    by (simp add: reorder_def [of False "reorder False v"] store_def)
qed (simp add: reorder_def)

lemma read_object_ok:
  assumes "readable s" and "rest s = store big v @ r" and "8 * size_of (v :: 'a::len word) = LENGTH('a)"
  shows "read_object big old s = (v, advance (size_of v) (size_of v) s)"
  using sread_rest [OF assms(1), of "size_of v"] assms(2) load_store [OF assms(3)] size_of_same [of old v]
  by (simp add: read_object_def)

lemma object_io_nbo:
  assumes "8 * size_of (0 :: 'a::len word) = LENGTH('a)"
    and "\<And>v s. wr v s = write_object big (reorder big v) s"
    and "\<And>old s. rd old s = (let (v, s) = read_object big old s in (reorder big v, s))"
  shows "object_io wr rd (be_octets (size_of (0 :: 'a word)) :: 'a word \<Rightarrow> _)"
proof
  fix v :: "'a word" and old s r
  have sz: "8 * size_of v = LENGTH('a)" using assms(1) by (simp add: size_of_def)
  show "wr v s = swrite (be_octets (size_of (0 :: 'a word)) v) s"
    using reorder_store [OF sz] size_of_same [of v 0] by (simp add: assms(2) write_object_def)
  assume "readable s" and "rest s = be_octets (size_of (0 :: 'a word)) v @ r"
  then have "read_object big old s = (reorder big v, advance (size_of (reorder big v)) (size_of (reorder big v)) s)"
    using reorder_store [OF sz, of big] size_of_same [of v 0] assms(1) size_of_same [of "reorder big v" 0]
    by (intro read_object_ok) simp_all
  then show "rd old s = (v, advance (length (be_octets (size_of (0 :: 'a word)) v))
      (length (be_octets (size_of (0 :: 'a word)) v)) s)"
    using size_of_same [of "reorder big v" 0] by (simp add: assms(3) reorder_reorder [OF sz])
qed

lemma object_io_hbo:
  assumes "8 * size_of (0 :: 'a::len word) = LENGTH('a)"
    and "\<And>v s. wr v s = write_object big v s"
    and "\<And>old s. rd old s = read_object big old s"
  shows "object_io wr rd (store big :: 'a word \<Rightarrow> _)"
proof
  fix v :: "'a word" and old s r
  have sz: "8 * size_of v = LENGTH('a)" using assms(1) by (simp add: size_of_def)
  show "wr v s = swrite (store big v) s" by (simp add: assms(2) write_object_def)
  assume "readable s" and "rest s = store big v @ r"
  then show "rd old s = (v, advance (length (store big v)) (length (store big v)) s)"
    using read_object_ok [of s big v r old] sz by (simp add: assms(3))
qed

section \<open>Every method keeps it\<close>

interpretation nbo_short: object_io "nbo_write_std_short big" "nbo_read_std_short big" "be_octets (size_of (0 :: 16 word))" for big
  by (rule object_io_nbo [where big = big]) (simp_all add: size_of_def nbo_write_std_short_def nbo_read_std_short_def)

interpretation nbo_ushort: object_io "nbo_write_std_ushort big" "nbo_read_std_ushort big" "be_octets (size_of (0 :: 16 word))" for big
  by (rule object_io_nbo [where big = big]) (simp_all add: size_of_def nbo_write_std_ushort_def nbo_read_std_ushort_def)

interpretation nbo_int: object_io "nbo_write_std_int big" "nbo_read_std_int big" "be_octets (size_of (0 :: 32 word))" for big
  by (rule object_io_nbo [where big = big]) (simp_all add: size_of_def nbo_write_std_int_def nbo_read_std_int_def)

interpretation nbo_uint: object_io "nbo_write_std_uint big" "nbo_read_std_uint big" "be_octets (size_of (0 :: 32 word))" for big
  by (rule object_io_nbo [where big = big]) (simp_all add: size_of_def nbo_write_std_uint_def nbo_read_std_uint_def)

interpretation nbo_long: object_io "nbo_write_std_long big" "nbo_read_std_long big" "be_octets (size_of (0 :: 64 word))" for big
  by (rule object_io_nbo [where big = big]) (simp_all add: size_of_def nbo_write_std_long_def nbo_read_std_long_def)

interpretation nbo_ulong: object_io "nbo_write_std_ulong big" "nbo_read_std_ulong big" "be_octets (size_of (0 :: 64 word))" for big
  by (rule object_io_nbo [where big = big]) (simp_all add: size_of_def nbo_write_std_ulong_def nbo_read_std_ulong_def)

interpretation nbo_float: object_io "nbo_write_std_float big" "nbo_read_std_float big" "be_octets (size_of (0 :: 32 word))" for big
  by (rule object_io_nbo [where big = big]) (simp_all add: size_of_def nbo_write_std_float_def nbo_read_std_float_def)

interpretation nbo_double: object_io "nbo_write_std_double big" "nbo_read_std_double big" "be_octets (size_of (0 :: 64 word))" for big
  by (rule object_io_nbo [where big = big]) (simp_all add: size_of_def nbo_write_std_double_def nbo_read_std_double_def)

interpretation nbo_real: object_io "nbo_write_std_real big" "nbo_read_std_real big" "be_octets (size_of (0 :: 128 word))" for big
  by (rule object_io_nbo [where big = big]) (simp_all add: size_of_def nbo_write_std_real_def nbo_read_std_real_def)

interpretation nbo_size: object_io "nbo_write_std_size big" "nbo_read_std_size big" "be_octets (size_of (0 :: 64 word))" for big
  by (rule object_io_nbo [where big = big]) (simp_all add: size_of_def nbo_write_std_size_def nbo_read_std_size_def)

interpretation nbo_time: object_io "nbo_write_std_time big" "nbo_read_std_time big" "be_octets (size_of (0 :: 64 word))" for big
  by (rule object_io_nbo [where big = big]) (simp_all add: size_of_def nbo_write_std_time_def nbo_read_std_time_def)

interpretation nbo_clock: object_io "nbo_write_std_clock big" "nbo_read_std_clock big" "be_octets (size_of (0 :: 64 word))" for big
  by (rule object_io_nbo [where big = big]) (simp_all add: size_of_def nbo_write_std_clock_def nbo_read_std_clock_def)

lemmas nbo_defs = nbo_read_std_short_ref_def nbo_write_std_short_rv_def nbo_read_std_short_def nbo_write_std_short_def nbo_read_std_ushort_ref_def nbo_write_std_ushort_rv_def nbo_read_std_ushort_def nbo_write_std_ushort_def nbo_read_std_int_ref_def nbo_write_std_int_rv_def nbo_read_std_int_def nbo_write_std_int_def nbo_read_std_uint_ref_def nbo_write_std_uint_rv_def nbo_read_std_uint_def nbo_write_std_uint_def nbo_read_std_long_ref_def nbo_write_std_long_rv_def nbo_read_std_long_def nbo_write_std_long_def nbo_read_std_ulong_ref_def nbo_write_std_ulong_rv_def nbo_read_std_ulong_def nbo_write_std_ulong_def nbo_read_std_float_ref_def nbo_write_std_float_rv_def nbo_read_std_float_def nbo_write_std_float_def nbo_read_std_double_ref_def nbo_write_std_double_rv_def nbo_read_std_double_def nbo_write_std_double_def nbo_read_std_real_ref_def nbo_write_std_real_rv_def nbo_read_std_real_def nbo_write_std_real_def nbo_read_std_size_ref_def nbo_write_std_size_rv_def nbo_read_std_size_def nbo_write_std_size_def nbo_read_std_time_ref_def nbo_write_std_time_rv_def nbo_read_std_time_def nbo_write_std_time_def nbo_read_std_clock_ref_def nbo_write_std_clock_rv_def nbo_read_std_clock_def nbo_write_std_clock_def

interpretation hbo_short: object_io "hbo_write_std_short big" "hbo_read_std_short big" "store big" for big
  by (rule object_io_hbo [where big = big]) (simp_all add: size_of_def hbo_write_std_short_def hbo_read_std_short_def)

interpretation hbo_ushort: object_io "hbo_write_std_ushort big" "hbo_read_std_ushort big" "store big" for big
  by (rule object_io_hbo [where big = big]) (simp_all add: size_of_def hbo_write_std_ushort_def hbo_read_std_ushort_def)

interpretation hbo_int: object_io "hbo_write_std_int big" "hbo_read_std_int big" "store big" for big
  by (rule object_io_hbo [where big = big]) (simp_all add: size_of_def hbo_write_std_int_def hbo_read_std_int_def)

interpretation hbo_uint: object_io "hbo_write_std_uint big" "hbo_read_std_uint big" "store big" for big
  by (rule object_io_hbo [where big = big]) (simp_all add: size_of_def hbo_write_std_uint_def hbo_read_std_uint_def)

interpretation hbo_long: object_io "hbo_write_std_long big" "hbo_read_std_long big" "store big" for big
  by (rule object_io_hbo [where big = big]) (simp_all add: size_of_def hbo_write_std_long_def hbo_read_std_long_def)

interpretation hbo_ulong: object_io "hbo_write_std_ulong big" "hbo_read_std_ulong big" "store big" for big
  by (rule object_io_hbo [where big = big]) (simp_all add: size_of_def hbo_write_std_ulong_def hbo_read_std_ulong_def)

interpretation hbo_float: object_io "hbo_write_std_float big" "hbo_read_std_float big" "store big" for big
  by (rule object_io_hbo [where big = big]) (simp_all add: size_of_def hbo_write_std_float_def hbo_read_std_float_def)

interpretation hbo_double: object_io "hbo_write_std_double big" "hbo_read_std_double big" "store big" for big
  by (rule object_io_hbo [where big = big]) (simp_all add: size_of_def hbo_write_std_double_def hbo_read_std_double_def)

interpretation hbo_real: object_io "hbo_write_std_real big" "hbo_read_std_real big" "store big" for big
  by (rule object_io_hbo [where big = big]) (simp_all add: size_of_def hbo_write_std_real_def hbo_read_std_real_def)

interpretation hbo_size: object_io "hbo_write_std_size big" "hbo_read_std_size big" "store big" for big
  by (rule object_io_hbo [where big = big]) (simp_all add: size_of_def hbo_write_std_size_def hbo_read_std_size_def)

interpretation hbo_time: object_io "hbo_write_std_time big" "hbo_read_std_time big" "store big" for big
  by (rule object_io_hbo [where big = big]) (simp_all add: size_of_def hbo_write_std_time_def hbo_read_std_time_def)

interpretation hbo_clock: object_io "hbo_write_std_clock big" "hbo_read_std_clock big" "store big" for big
  by (rule object_io_hbo [where big = big]) (simp_all add: size_of_def hbo_write_std_clock_def hbo_read_std_clock_def)

lemmas hbo_defs = hbo_read_std_short_ref_def hbo_write_std_short_rv_def hbo_read_std_short_def hbo_write_std_short_def hbo_read_std_ushort_ref_def hbo_write_std_ushort_rv_def hbo_read_std_ushort_def hbo_write_std_ushort_def hbo_read_std_int_ref_def hbo_write_std_int_rv_def hbo_read_std_int_def hbo_write_std_int_def hbo_read_std_uint_ref_def hbo_write_std_uint_rv_def hbo_read_std_uint_def hbo_write_std_uint_def hbo_read_std_long_ref_def hbo_write_std_long_rv_def hbo_read_std_long_def hbo_write_std_long_def hbo_read_std_ulong_ref_def hbo_write_std_ulong_rv_def hbo_read_std_ulong_def hbo_write_std_ulong_def hbo_read_std_float_ref_def hbo_write_std_float_rv_def hbo_read_std_float_def hbo_write_std_float_def hbo_read_std_double_ref_def hbo_write_std_double_rv_def hbo_read_std_double_def hbo_write_std_double_def hbo_read_std_real_ref_def hbo_write_std_real_rv_def hbo_read_std_real_def hbo_write_std_real_def hbo_read_std_size_ref_def hbo_write_std_size_rv_def hbo_read_std_size_def hbo_write_std_size_def hbo_read_std_time_ref_def hbo_write_std_time_rv_def hbo_read_std_time_def hbo_write_std_time_def hbo_read_std_clock_ref_def hbo_write_std_clock_rv_def hbo_read_std_clock_def hbo_write_std_clock_def

text \<open>The overloads for rvalues do the same.\<close>

lemma nbo_rv_same:
  "nbo_write_std_short_rv = nbo_write_std_short"
  "nbo_write_std_ushort_rv = nbo_write_std_ushort"
  "nbo_write_std_int_rv = nbo_write_std_int"
  "nbo_write_std_uint_rv = nbo_write_std_uint"
  "nbo_write_std_long_rv = nbo_write_std_long"
  "nbo_write_std_ulong_rv = nbo_write_std_ulong"
  "nbo_write_std_float_rv = nbo_write_std_float"
  "nbo_write_std_double_rv = nbo_write_std_double"
  "nbo_write_std_real_rv = nbo_write_std_real"
  "nbo_write_std_size_rv = nbo_write_std_size"
  "nbo_write_std_time_rv = nbo_write_std_time"
  "nbo_write_std_clock_rv = nbo_write_std_clock"
  by (simp_all add: nbo_defs fun_eq_iff)

lemma nbo_same_host:
  "nbo_write_std_short big = nbo_write_std_short big'"
  "nbo_write_std_ushort big = nbo_write_std_ushort big'"
  "nbo_write_std_int big = nbo_write_std_int big'"
  "nbo_write_std_uint big = nbo_write_std_uint big'"
  "nbo_write_std_long big = nbo_write_std_long big'"
  "nbo_write_std_ulong big = nbo_write_std_ulong big'"
  "nbo_write_std_float big = nbo_write_std_float big'"
  "nbo_write_std_double big = nbo_write_std_double big'"
  "nbo_write_std_real big = nbo_write_std_real big'"
  "nbo_write_std_size big = nbo_write_std_size big'"
  "nbo_write_std_time big = nbo_write_std_time big'"
  "nbo_write_std_clock big = nbo_write_std_clock big'"
  by (simp_all add: fun_eq_iff nbo_short.wr_rep nbo_ushort.wr_rep nbo_int.wr_rep nbo_uint.wr_rep nbo_long.wr_rep nbo_ulong.wr_rep nbo_float.wr_rep nbo_double.wr_rep nbo_real.wr_rep nbo_size.wr_rep nbo_time.wr_rep nbo_clock.wr_rep)

section \<open>Strings\<close>

lemma drop_push: "drop_bit (64 - k) (push_bit (64 - k) (w :: u64)) = take_bit k w" if "k \<le> 64"
  using that by (intro bit_word_eqI) (auto simp: bit_simps)

lemma low_length: "unat (ucast (drop_bit 56 (push_bit 56 (word_of_nat n :: u64))) :: byte) = n mod 256"
proof -
  have "unat (ucast (take_bit 8 (word_of_nat n :: u64)) :: byte) = take_bit 8 (take_bit 8 (take_bit 64 n))"
    by (simp only: unsigned_ucast_eq unsigned_take_bit_eq unsigned_of_nat) simp
  then show ?thesis using drop_push [of 8 "word_of_nat n"] by (simp add: take_bit_eq_mod mod_mod_cancel)
qed

lemma low_length16: "unat (ucast (drop_bit 48 (push_bit 48 (word_of_nat n :: u64))) :: 16 word) = n mod 65536"
proof -
  have "unat (ucast (take_bit 16 (word_of_nat n :: u64)) :: 16 word) = take_bit 16 (take_bit 16 (take_bit 64 n))"
    by (simp only: unsigned_ucast_eq unsigned_take_bit_eq unsigned_of_nat) simp
  then show ?thesis using drop_push [of 16 "word_of_nat n"] by (simp add: take_bit_eq_mod mod_mod_cancel)
qed

lemma store_byte: "store big (v :: byte) = [v]"
  by (simp add: store_def size_of_def byte_at_def)

lemma read_buffer_of_ok: "readable s \<Longrightarrow> rest s = c @ r \<Longrightarrow>
  \<exists>t. read_buffer_of (length c) stack s = (c, t) \<and> rest t = r"
  using sread_rest [of s "length c"] by (simp add: read_buffer_of_def)

lemma bs_write_string_ok:
  assumes "appending s"
  shows "bs_write_std_string big c s =
    append (word_of_nat (length c) # take (length c mod 256) c) s"
proof -
  let ?l = "ucast (drop_bit 56 (push_bit 56 (word_of_nat (length c) :: u64))) :: byte"
  have l: "unat ?l = length c mod 256" by (rule low_length)
  then have "?l = word_of_nat (length c)"
    by (simp only: word_unat_eq_iff) (simp add: unat_of_nat take_bit_eq_mod)
  moreover have "0 < ?l \<longleftrightarrow> 0 < length c mod 256" by (simp add: l word_less_nat_alt)
  ultimately show ?thesis
    using assms l
    by (simp add: bs_write_std_string_def bs_write_std_ubyte_def write_object_def store_byte Let_def)
qed

lemma bs_read_string_ok:
  assumes "readable s" and "rest s = word_of_nat (length c) # take (length c mod 256) c @ r"
  shows "\<exists>t. bs_read_std_string big old stack s = (take (length c mod 256) c, t) \<and> rest t = r"
proof -
  let ?l = "word_of_nat (length c) :: byte" and ?t = "advance 1 1 s"
  have l: "unat ?l = length c mod 256" by (simp add: unat_of_nat take_bit_eq_mod)
  have t: "readable ?t" "rest ?t = take (length c mod 256) c @ r" using assms by simp_all
  have "read_object big old s = (?l, ?t)"
    using read_object_ok [of s big ?l "take (length c mod 256) c @ r" old] assms
    by (simp add: store_byte size_of_def)
  moreover have "length (take (length c mod 256) c) = length c mod 256" by simp
  moreover have "?l = 0 \<longleftrightarrow> length c mod 256 = 0" using l by (simp only: word_unat_eq_iff unat_0)
  ultimately show ?thesis
    using read_buffer_of_ok [OF t, of stack] t(2) l
    by (auto simp: bs_read_std_string_def bs_read_std_ubyte_def)
qed

lemma bs_text_ok:
  assumes "length c < 65536"
  shows "\<exists>t. bs_read_std_text (nbo_read_std_ushort big' old) stack
      (new_stream (data (bs_write_std_text (nbo_write_std_ushort big) c (new_stream [])) @ r)) = (c, t) \<and> rest t = r"
proof -
  let ?l = "ucast (drop_bit 48 (push_bit 48 (word_of_nat (length c) :: u64))) :: 16 word"
  have l: "unat ?l = length c" using low_length16 [of "length c"] assms by simp
  have w: "bs_write_std_text (nbo_write_std_ushort big) c (new_stream []) =
      append (be_octets (size_of (0 :: 16 word)) ?l @ c) (new_stream [])"
    using l by (auto simp: bs_write_std_text_def nbo_ushort.wr_appends word_less_nat_alt Let_def)
  let ?s = "new_stream ((be_octets (size_of (0 :: 16 word)) ?l @ c) @ r)"
  obtain t where t: "nbo_read_std_ushort big' old ?s = (?l, t)" "readable t" "rest t = c @ r"
    using nbo_ushort.rd_rep [of ?s ?l "c @ r" big' old] by simp
  have "?l = 0 \<longleftrightarrow> length c = 0" using l by (simp only: word_unat_eq_iff unat_0)
  then show ?thesis
    using read_buffer_of_ok [OF t(2,3), of stack] t l w by (auto simp: bs_read_std_text_def)
qed

lemma hbo_cross:
  assumes "8 * size_of (v :: 'a::len word) = LENGTH('a)"
  shows "be_octets (size_of v) (fst (read_object big' (old :: 'a word) (new_stream (data (write_object big v (new_stream [])))))) =
    (if big = big' then be_octets (size_of v) v else rev (be_octets (size_of v) v))"
proof -
  have o: "size_of old = size_of v" by (rule size_of_same)
  have "fst (read_object big' old (new_stream (store big v))) = load big' (store big v)"
    using sread_rest [of "new_stream (store big v)" "size_of old"] o by (simp add: read_object_def)
  moreover have "store big' (load big' (store big v) :: 'a word) = store big v"
    by (rule store_load [OF assms]) simp
  ultimately show ?thesis
    using size_of_same [of "load big' (store big v) :: 'a word" v]
    by (cases big; cases big') (auto simp: write_object_def store_def rev_swap)
qed

section \<open>Properties\<close>

text \<open>Every \<open>nbostream\<close> writer puts the most significant octet first, the same octets on a big-endian
  and on a little-endian host, for rvalues as for lvalues.\<close>

theorem nbo_network_order:
  "nbo_write_std_short big v1 s = swrite (be_octets 2 v1) s \<and>
   nbo_write_std_ushort big v2 s = swrite (be_octets 2 v2) s \<and>
   nbo_write_std_int big v3 s = swrite (be_octets 4 v3) s \<and>
   nbo_write_std_uint big v4 s = swrite (be_octets 4 v4) s \<and>
   nbo_write_std_long big v5 s = swrite (be_octets 8 v5) s \<and>
   nbo_write_std_ulong big v6 s = swrite (be_octets 8 v6) s \<and>
   nbo_write_std_float big v7 s = swrite (be_octets 4 v7) s \<and>
   nbo_write_std_double big v8 s = swrite (be_octets 8 v8) s \<and>
   nbo_write_std_real big v9 s = swrite (be_octets 16 v9) s \<and>
   nbo_write_std_size big v10 s = swrite (be_octets 8 v10) s \<and>
   nbo_write_std_time big v11 s = swrite (be_octets 8 v11) s \<and>
   nbo_write_std_clock big v12 s = swrite (be_octets 8 v12) s \<and>
   nbo_write_std_short_rv big v1 s = swrite (be_octets 2 v1) s \<and>
   nbo_write_std_ushort_rv big v2 s = swrite (be_octets 2 v2) s \<and>
   nbo_write_std_int_rv big v3 s = swrite (be_octets 4 v3) s \<and>
   nbo_write_std_uint_rv big v4 s = swrite (be_octets 4 v4) s \<and>
   nbo_write_std_long_rv big v5 s = swrite (be_octets 8 v5) s \<and>
   nbo_write_std_ulong_rv big v6 s = swrite (be_octets 8 v6) s \<and>
   nbo_write_std_float_rv big v7 s = swrite (be_octets 4 v7) s \<and>
   nbo_write_std_double_rv big v8 s = swrite (be_octets 8 v8) s \<and>
   nbo_write_std_real_rv big v9 s = swrite (be_octets 16 v9) s \<and>
   nbo_write_std_size_rv big v10 s = swrite (be_octets 8 v10) s \<and>
   nbo_write_std_time_rv big v11 s = swrite (be_octets 8 v11) s \<and>
   nbo_write_std_clock_rv big v12 s = swrite (be_octets 8 v12) s"
  unfolding nbo_short.wr_rep nbo_ushort.wr_rep nbo_int.wr_rep nbo_uint.wr_rep nbo_long.wr_rep nbo_ulong.wr_rep
    nbo_float.wr_rep nbo_double.wr_rep nbo_real.wr_rep nbo_size.wr_rep nbo_time.wr_rep nbo_clock.wr_rep
    nbo_rv_same
  by (simp add: size_of_def)

text \<open>What one host writes through an \<open>nbostream\<close>, a host of either byte order reads back.\<close>

theorem nbo_across_hosts:
  "fst (nbo_read_std_short big' old1 (new_stream (data (nbo_write_std_short big v1 (new_stream [])) @ r))) = v1 \<and>
   fst (nbo_read_std_ushort big' old2 (new_stream (data (nbo_write_std_ushort big v2 (new_stream [])) @ r))) = v2 \<and>
   fst (nbo_read_std_int big' old3 (new_stream (data (nbo_write_std_int big v3 (new_stream [])) @ r))) = v3 \<and>
   fst (nbo_read_std_uint big' old4 (new_stream (data (nbo_write_std_uint big v4 (new_stream [])) @ r))) = v4 \<and>
   fst (nbo_read_std_long big' old5 (new_stream (data (nbo_write_std_long big v5 (new_stream [])) @ r))) = v5 \<and>
   fst (nbo_read_std_ulong big' old6 (new_stream (data (nbo_write_std_ulong big v6 (new_stream [])) @ r))) = v6 \<and>
   fst (nbo_read_std_float big' old7 (new_stream (data (nbo_write_std_float big v7 (new_stream [])) @ r))) = v7 \<and>
   fst (nbo_read_std_double big' old8 (new_stream (data (nbo_write_std_double big v8 (new_stream [])) @ r))) = v8 \<and>
   fst (nbo_read_std_real big' old9 (new_stream (data (nbo_write_std_real big v9 (new_stream [])) @ r))) = v9 \<and>
   fst (nbo_read_std_size big' old10 (new_stream (data (nbo_write_std_size big v10 (new_stream [])) @ r))) = v10 \<and>
   fst (nbo_read_std_time big' old11 (new_stream (data (nbo_write_std_time big v11 (new_stream [])) @ r))) = v11 \<and>
   fst (nbo_read_std_clock big' old12 (new_stream (data (nbo_write_std_clock big v12 (new_stream [])) @ r))) = v12"
  unfolding nbo_same_host [of big big']
  by (simp add: nbo_short.wr_rd nbo_ushort.wr_rd nbo_int.wr_rd nbo_uint.wr_rd nbo_long.wr_rd nbo_ulong.wr_rd
    nbo_float.wr_rd nbo_double.wr_rd nbo_real.wr_rd nbo_size.wr_rd nbo_time.wr_rd nbo_clock.wr_rd)

text \<open>An \<open>hbostream\<close> file does not cross byte orders: a host of the other order reads every object with
  its octets reversed.\<close>

theorem hbo_across_hosts:
  "be_octets 2 (fst (hbo_read_std_short big' old1 (new_stream (data (hbo_write_std_short big v1 (new_stream [])))))) =
     (if big = big' then be_octets 2 v1 else rev (be_octets 2 v1)) \<and>
   be_octets 2 (fst (hbo_read_std_ushort big' old2 (new_stream (data (hbo_write_std_ushort big v2 (new_stream [])))))) =
     (if big = big' then be_octets 2 v2 else rev (be_octets 2 v2)) \<and>
   be_octets 4 (fst (hbo_read_std_int big' old3 (new_stream (data (hbo_write_std_int big v3 (new_stream [])))))) =
     (if big = big' then be_octets 4 v3 else rev (be_octets 4 v3)) \<and>
   be_octets 4 (fst (hbo_read_std_uint big' old4 (new_stream (data (hbo_write_std_uint big v4 (new_stream [])))))) =
     (if big = big' then be_octets 4 v4 else rev (be_octets 4 v4)) \<and>
   be_octets 8 (fst (hbo_read_std_long big' old5 (new_stream (data (hbo_write_std_long big v5 (new_stream [])))))) =
     (if big = big' then be_octets 8 v5 else rev (be_octets 8 v5)) \<and>
   be_octets 8 (fst (hbo_read_std_ulong big' old6 (new_stream (data (hbo_write_std_ulong big v6 (new_stream [])))))) =
     (if big = big' then be_octets 8 v6 else rev (be_octets 8 v6)) \<and>
   be_octets 4 (fst (hbo_read_std_float big' old7 (new_stream (data (hbo_write_std_float big v7 (new_stream [])))))) =
     (if big = big' then be_octets 4 v7 else rev (be_octets 4 v7)) \<and>
   be_octets 8 (fst (hbo_read_std_double big' old8 (new_stream (data (hbo_write_std_double big v8 (new_stream [])))))) =
     (if big = big' then be_octets 8 v8 else rev (be_octets 8 v8)) \<and>
   be_octets 16 (fst (hbo_read_std_real big' old9 (new_stream (data (hbo_write_std_real big v9 (new_stream [])))))) =
     (if big = big' then be_octets 16 v9 else rev (be_octets 16 v9)) \<and>
   be_octets 8 (fst (hbo_read_std_size big' old10 (new_stream (data (hbo_write_std_size big v10 (new_stream [])))))) =
     (if big = big' then be_octets 8 v10 else rev (be_octets 8 v10)) \<and>
   be_octets 8 (fst (hbo_read_std_time big' old11 (new_stream (data (hbo_write_std_time big v11 (new_stream [])))))) =
     (if big = big' then be_octets 8 v11 else rev (be_octets 8 v11)) \<and>
   be_octets 8 (fst (hbo_read_std_clock big' old12 (new_stream (data (hbo_write_std_clock big v12 (new_stream [])))))) =
     (if big = big' then be_octets 8 v12 else rev (be_octets 8 v12))"
  using hbo_cross [of v1 big' old1 big]
    hbo_cross [of v2 big' old2 big]
    hbo_cross [of v3 big' old3 big]
    hbo_cross [of v4 big' old4 big]
    hbo_cross [of v5 big' old5 big]
    hbo_cross [of v6 big' old6 big]
    hbo_cross [of v7 big' old7 big]
    hbo_cross [of v8 big' old8 big]
    hbo_cross [of v9 big' old9 big]
    hbo_cross [of v10 big' old10 big]
    hbo_cross [of v11 big' old11 big]
    hbo_cross [of v12 big' old12 big]
  by (simp add: size_of_def hbo_defs del: be_octets_numeral)

text \<open>A string of up to 255 octets round trips; of a longer one only the first \<open>length mod 256\<close> octets
  are written, without an error. A text of up to 65535 octets round trips between hosts of any order.\<close>

theorem std_string_roundtrip:
  assumes "length t < 65536"
  shows "(\<exists>u. bs_read_std_string big' old stack
      (new_stream (data (bs_write_std_string big c (new_stream [])) @ r)) = (take (length c mod 256) c, u) \<and>
      rest u = r) \<and>
    (\<exists>u. bs_read_std_text (nbo_read_std_ushort big' old') stack
      (new_stream (data (bs_write_std_text (nbo_write_std_ushort big) t (new_stream [])) @ r)) = (t, u) \<and> rest u = r)"
  using bs_read_string_ok [of "new_stream (data (bs_write_std_string big c (new_stream [])) @ r)" c r]
    bs_text_ok [OF assms] by (simp add: bs_write_string_ok)

end
