(* ===== verification/AES.thy ===== *)
theory AES
  imports Streams
begin

text \<open>
  \<open>Cryptography/aes.cpp\<close>: the class template \<open>AES<Nk, Nb, Nr>\<close>, in the order of the file. \<open>Nb\<close> is 4 in
  the three instances, and the template itself relies on it (\<open>AddRoundKey\<close> names four rows), so it is a
  constant here; \<open>Nk\<close> and \<open>Nr\<close> are arguments. A \<open>word_t\<close> is a list of four octets, a \<open>block_t\<close> a list
  of four words, a \<open>schedule_t\<close> a list of \<open>Nr + 1\<close> blocks. Arrays passed by reference are returned.
\<close>

section \<open>Tables\<close>

definition SBOX :: "byte list list" where
  "SBOX =
   [[0x63, 0x7c, 0x77, 0x7b, 0xf2, 0x6b, 0x6f, 0xc5, 0x30, 0x01, 0x67, 0x2b, 0xfe, 0xd7, 0xab, 0x76],
    [0xca, 0x82, 0xc9, 0x7d, 0xfa, 0x59, 0x47, 0xf0, 0xad, 0xd4, 0xa2, 0xaf, 0x9c, 0xa4, 0x72, 0xc0],
    [0xb7, 0xfd, 0x93, 0x26, 0x36, 0x3f, 0xf7, 0xcc, 0x34, 0xa5, 0xe5, 0xf1, 0x71, 0xd8, 0x31, 0x15],
    [0x04, 0xc7, 0x23, 0xc3, 0x18, 0x96, 0x05, 0x9a, 0x07, 0x12, 0x80, 0xe2, 0xeb, 0x27, 0xb2, 0x75],
    [0x09, 0x83, 0x2c, 0x1a, 0x1b, 0x6e, 0x5a, 0xa0, 0x52, 0x3b, 0xd6, 0xb3, 0x29, 0xe3, 0x2f, 0x84],
    [0x53, 0xd1, 0x00, 0xed, 0x20, 0xfc, 0xb1, 0x5b, 0x6a, 0xcb, 0xbe, 0x39, 0x4a, 0x4c, 0x58, 0xcf],
    [0xd0, 0xef, 0xaa, 0xfb, 0x43, 0x4d, 0x33, 0x85, 0x45, 0xf9, 0x02, 0x7f, 0x50, 0x3c, 0x9f, 0xa8],
    [0x51, 0xa3, 0x40, 0x8f, 0x92, 0x9d, 0x38, 0xf5, 0xbc, 0xb6, 0xda, 0x21, 0x10, 0xff, 0xf3, 0xd2],
    [0xcd, 0x0c, 0x13, 0xec, 0x5f, 0x97, 0x44, 0x17, 0xc4, 0xa7, 0x7e, 0x3d, 0x64, 0x5d, 0x19, 0x73],
    [0x60, 0x81, 0x4f, 0xdc, 0x22, 0x2a, 0x90, 0x88, 0x46, 0xee, 0xb8, 0x14, 0xde, 0x5e, 0x0b, 0xdb],
    [0xe0, 0x32, 0x3a, 0x0a, 0x49, 0x06, 0x24, 0x5c, 0xc2, 0xd3, 0xac, 0x62, 0x91, 0x95, 0xe4, 0x79],
    [0xe7, 0xc8, 0x37, 0x6d, 0x8d, 0xd5, 0x4e, 0xa9, 0x6c, 0x56, 0xf4, 0xea, 0x65, 0x7a, 0xae, 0x08],
    [0xba, 0x78, 0x25, 0x2e, 0x1c, 0xa6, 0xb4, 0xc6, 0xe8, 0xdd, 0x74, 0x1f, 0x4b, 0xbd, 0x8b, 0x8a],
    [0x70, 0x3e, 0xb5, 0x66, 0x48, 0x03, 0xf6, 0x0e, 0x61, 0x35, 0x57, 0xb9, 0x86, 0xc1, 0x1d, 0x9e],
    [0xe1, 0xf8, 0x98, 0x11, 0x69, 0xd9, 0x8e, 0x94, 0x9b, 0x1e, 0x87, 0xe9, 0xce, 0x55, 0x28, 0xdf],
    [0x8c, 0xa1, 0x89, 0x0d, 0xbf, 0xe6, 0x42, 0x68, 0x41, 0x99, 0x2d, 0x0f, 0xb0, 0x54, 0xbb, 0x16]]"

definition Rcon :: "byte list" where
  "Rcon =
   [0x8d, 0x01, 0x02, 0x04, 0x08, 0x10, 0x20, 0x40, 0x80, 0x1b, 0x36, 0x6c, 0xd8, 0xab, 0x4d, 0x9a,
    0x2f, 0x5e, 0xbc, 0x63, 0xc6, 0x97, 0x35, 0x6a, 0xd4, 0xb3, 0x7d, 0xfa, 0xef, 0xc5, 0x91, 0x39,
    0x72, 0xe4, 0xd3, 0xbd, 0x61, 0xc2, 0x9f, 0x25, 0x4a, 0x94, 0x33, 0x66, 0xcc, 0x83, 0x1d, 0x3a,
    0x74, 0xe8, 0xcb, 0x8d, 0x01, 0x02, 0x04, 0x08, 0x10, 0x20, 0x40, 0x80, 0x1b, 0x36, 0x6c, 0xd8,
    0xab, 0x4d, 0x9a, 0x2f, 0x5e, 0xbc, 0x63, 0xc6, 0x97, 0x35, 0x6a, 0xd4, 0xb3, 0x7d, 0xfa, 0xef,
    0xc5, 0x91, 0x39, 0x72, 0xe4, 0xd3, 0xbd, 0x61, 0xc2, 0x9f, 0x25, 0x4a, 0x94, 0x33, 0x66, 0xcc,
    0x83, 0x1d, 0x3a, 0x74, 0xe8, 0xcb, 0x8d, 0x01, 0x02, 0x04, 0x08, 0x10, 0x20, 0x40, 0x80, 0x1b,
    0x36, 0x6c, 0xd8, 0xab, 0x4d, 0x9a, 0x2f, 0x5e, 0xbc, 0x63, 0xc6, 0x97, 0x35, 0x6a, 0xd4, 0xb3,
    0x7d, 0xfa, 0xef, 0xc5, 0x91, 0x39, 0x72, 0xe4, 0xd3, 0xbd, 0x61, 0xc2, 0x9f, 0x25, 0x4a, 0x94,
    0x33, 0x66, 0xcc, 0x83, 0x1d, 0x3a, 0x74, 0xe8, 0xcb, 0x8d, 0x01, 0x02, 0x04, 0x08, 0x10, 0x20,
    0x40, 0x80, 0x1b, 0x36, 0x6c, 0xd8, 0xab, 0x4d, 0x9a, 0x2f, 0x5e, 0xbc, 0x63, 0xc6, 0x97, 0x35,
    0x6a, 0xd4, 0xb3, 0x7d, 0xfa, 0xef, 0xc5, 0x91, 0x39, 0x72, 0xe4, 0xd3, 0xbd, 0x61, 0xc2, 0x9f,
    0x25, 0x4a, 0x94, 0x33, 0x66, 0xcc, 0x83, 0x1d, 0x3a, 0x74, 0xe8, 0xcb, 0x8d, 0x01, 0x02, 0x04,
    0x08, 0x10, 0x20, 0x40, 0x80, 0x1b, 0x36, 0x6c, 0xd8, 0xab, 0x4d, 0x9a, 0x2f, 0x5e, 0xbc, 0x63,
    0xc6, 0x97, 0x35, 0x6a, 0xd4, 0xb3, 0x7d, 0xfa, 0xef, 0xc5, 0x91, 0x39, 0x72, 0xe4, 0xd3, 0xbd,
    0x61, 0xc2, 0x9f, 0x25, 0x4a, 0x94, 0x33, 0x66, 0xcc, 0x83, 0x1d, 0x3a, 0x74, 0xe8, 0xcb]"

definition ISBOX :: "byte list list" where
  "ISBOX =
   [[0x52, 0x09, 0x6a, 0xd5, 0x30, 0x36, 0xa5, 0x38, 0xbf, 0x40, 0xa3, 0x9e, 0x81, 0xf3, 0xd7, 0xfb],
    [0x7c, 0xe3, 0x39, 0x82, 0x9b, 0x2f, 0xff, 0x87, 0x34, 0x8e, 0x43, 0x44, 0xc4, 0xde, 0xe9, 0xcb],
    [0x54, 0x7b, 0x94, 0x32, 0xa6, 0xc2, 0x23, 0x3d, 0xee, 0x4c, 0x95, 0x0b, 0x42, 0xfa, 0xc3, 0x4e],
    [0x08, 0x2e, 0xa1, 0x66, 0x28, 0xd9, 0x24, 0xb2, 0x76, 0x5b, 0xa2, 0x49, 0x6d, 0x8b, 0xd1, 0x25],
    [0x72, 0xf8, 0xf6, 0x64, 0x86, 0x68, 0x98, 0x16, 0xd4, 0xa4, 0x5c, 0xcc, 0x5d, 0x65, 0xb6, 0x92],
    [0x6c, 0x70, 0x48, 0x50, 0xfd, 0xed, 0xb9, 0xda, 0x5e, 0x15, 0x46, 0x57, 0xa7, 0x8d, 0x9d, 0x84],
    [0x90, 0xd8, 0xab, 0x00, 0x8c, 0xbc, 0xd3, 0x0a, 0xf7, 0xe4, 0x58, 0x05, 0xb8, 0xb3, 0x45, 0x06],
    [0xd0, 0x2c, 0x1e, 0x8f, 0xca, 0x3f, 0x0f, 0x02, 0xc1, 0xaf, 0xbd, 0x03, 0x01, 0x13, 0x8a, 0x6b],
    [0x3a, 0x91, 0x11, 0x41, 0x4f, 0x67, 0xdc, 0xea, 0x97, 0xf2, 0xcf, 0xce, 0xf0, 0xb4, 0xe6, 0x73],
    [0x96, 0xac, 0x74, 0x22, 0xe7, 0xad, 0x35, 0x85, 0xe2, 0xf9, 0x37, 0xe8, 0x1c, 0x75, 0xdf, 0x6e],
    [0x47, 0xf1, 0x1a, 0x71, 0x1d, 0x29, 0xc5, 0x89, 0x6f, 0xb7, 0x62, 0x0e, 0xaa, 0x18, 0xbe, 0x1b],
    [0xfc, 0x56, 0x3e, 0x4b, 0xc6, 0xd2, 0x79, 0x20, 0x9a, 0xdb, 0xc0, 0xfe, 0x78, 0xcd, 0x5a, 0xf4],
    [0x1f, 0xdd, 0xa8, 0x33, 0x88, 0x07, 0xc7, 0x31, 0xb1, 0x12, 0x10, 0x59, 0x27, 0x80, 0xec, 0x5f],
    [0x60, 0x51, 0x7f, 0xa9, 0x19, 0xb5, 0x4a, 0x0d, 0x2d, 0xe5, 0x7a, 0x9f, 0x93, 0xc9, 0x9c, 0xef],
    [0xa0, 0xe0, 0x3b, 0x4d, 0xae, 0x2a, 0xf5, 0xb0, 0xc8, 0xeb, 0xbb, 0x3c, 0x83, 0x53, 0x99, 0x61],
    [0x17, 0x2b, 0x04, 0x7e, 0xba, 0x77, 0xd6, 0x26, 0xe1, 0x69, 0x14, 0x63, 0x55, 0x21, 0x0c, 0x7d]]"

definition WORD_SIZE :: nat where "WORD_SIZE = 4"
definition Nb :: nat where "Nb = 4"
definition BLOCK_SIZE :: nat where "BLOCK_SIZE = WORD_SIZE * Nb"

type_synonym aes_word = "byte list"
type_synonym block = "aes_word list"
type_synonym schedule = "block list"

section \<open>Arithmetic in the field\<close>

definition dot_step :: "nat \<Rightarrow> byte \<times> byte \<times> byte \<Rightarrow> byte \<times> byte \<times> byte" where
  "dot_step _ st = (case st of (p, a, b) \<Rightarrow>
     let p = (if b AND 1 \<noteq> 0 then p XOR a else p);
         hi_bit_set = (a AND 0x80 \<noteq> 0);
         a = push_bit 1 a;
         a = (if hi_bit_set then a XOR 0x1B else a);
         b = drop_bit 1 b
     in (p, a, b))"

definition DOT :: "byte \<Rightarrow> byte \<Rightarrow> byte" where
  "DOT a b = fst (for_loop 8 dot_step (0, a, b))"

function xtime :: "byte \<Rightarrow> int \<Rightarrow> byte" where
  "xtime b x = (if x > 1 then xtime (push_bit 1 b XOR 0x1B) (x - 1) else push_bit 1 b XOR 0x1B)"
  by pat_completeness auto
termination by (relation "measure (\<lambda>(b, x). nat x)") auto

declare xtime.simps [simp del]

definition ADD :: "aes_word \<Rightarrow> aes_word \<Rightarrow> aes_word \<Rightarrow> aes_word" where
  "ADD a b c = for_loop WORD_SIZE (\<lambda>i c. c[i := a ! i XOR b ! i]) c"

definition MUL :: "aes_word \<Rightarrow> aes_word \<Rightarrow> aes_word \<Rightarrow> aes_word" where
  "MUL a b d =
     for_loop WORD_SIZE (\<lambda>i. for_loop WORD_SIZE (\<lambda>j d.
       d[i := DOT (a ! ((WORD_SIZE - j) mod WORD_SIZE)) (b ! j) XOR d ! i])) d"

section \<open>The round functions\<close>

text \<open>\<open>s[r][c] = x\<close>\<close>

definition upd :: "block \<Rightarrow> nat \<Rightarrow> nat \<Rightarrow> byte \<Rightarrow> block" where
  "upd s r c x = s[r := (s ! r)[c := x]]"

definition box :: "byte list list \<Rightarrow> byte \<Rightarrow> byte" where
  "box t x = t ! unat (drop_bit 4 x) ! unat (x AND 0x0F)"

definition SubBytes :: "block \<Rightarrow> block" where
  "SubBytes s = for_loop Nb (\<lambda>r. for_loop WORD_SIZE (\<lambda>c s. upd s r c (box SBOX (s ! r ! c)))) s"

definition rotate_up :: "nat \<Rightarrow> block \<Rightarrow> block" where
  "rotate_up c s =
     (let tmp = s ! 0 ! c;
          s = for_loop (Nb - 1) (\<lambda>r s. upd s r c (s ! (r + 1) ! c)) s
      in upd s (Nb - 1) c tmp)"

definition ShiftRows :: "block \<Rightarrow> block" where
  "ShiftRows s = for_loop (WORD_SIZE - 1) (\<lambda>k. for_loop (k + 1) (\<lambda>_. rotate_up (k + 1))) s"

definition mix_word :: "aes_word \<Rightarrow> aes_word" where
  "mix_word w =
     [DOT 0x02 (w ! 0) XOR DOT 0x03 (w ! 1) XOR w ! 2 XOR w ! 3,
      w ! 0 XOR DOT 0x02 (w ! 1) XOR DOT 0x03 (w ! 2) XOR w ! 3,
      w ! 0 XOR w ! 1 XOR DOT 0x02 (w ! 2) XOR DOT 0x03 (w ! 3),
      DOT 0x03 (w ! 0) XOR w ! 1 XOR w ! 2 XOR DOT 0x02 (w ! 3)]"

definition MixColumns :: "block \<Rightarrow> block" where
  "MixColumns s = map (\<lambda>r. mix_word (s ! r)) [0..<Nb]"

definition AddRoundKey :: "block \<Rightarrow> block \<Rightarrow> block" where
  "AddRoundKey s w = for_loop WORD_SIZE (\<lambda>c s.
     let s = upd s 0 c (s ! 0 ! c XOR w ! 0 ! c);
         s = upd s 1 c (s ! 1 ! c XOR w ! 1 ! c);
         s = upd s 2 c (s ! 2 ! c XOR w ! 2 ! c);
         s = upd s 3 c (s ! 3 ! c XOR w ! 3 ! c)
     in s) s"

definition cipher_round :: "schedule \<Rightarrow> nat \<Rightarrow> block \<Rightarrow> block" where
  "cipher_round w round s = AddRoundKey (MixColumns (ShiftRows (SubBytes s))) (w ! round)"

definition Cipher :: "nat \<Rightarrow> block \<Rightarrow> schedule \<Rightarrow> block" where
  "Cipher Nr input w =
     (let s = AddRoundKey input (w ! 0);
          s = for_loop (Nr - 1) (\<lambda>k. cipher_round w (k + 1)) s;
          s = ShiftRows (SubBytes s)
      in AddRoundKey s (w ! Nr))"

section \<open>Key expansion\<close>

definition SubWord :: "aes_word \<Rightarrow> aes_word" where
  "SubWord input = map (\<lambda>i. box SBOX (input ! i)) [0..<WORD_SIZE]"

definition RotWord :: "aes_word \<Rightarrow> aes_word" where
  "RotWord input = map (\<lambda>i. input ! (i + 1)) [0..<WORD_SIZE - 1] @ [input ! 0]"

text \<open>\<open>w_ptr\<close> sees the schedule as an array of words. The words after the key are not initialised; none
  is read before it is written.\<close>

definition expand_step :: "nat \<Rightarrow> nat \<Rightarrow> aes_word list \<Rightarrow> aes_word list" where
  "expand_step Nk i w =
     (let temp = w ! (i - 1);
          temp =
            (if i mod Nk = 0 then
               (let tmp1 = RotWord temp; temp = SubWord tmp1 in temp[0 := temp ! 0 XOR Rcon ! (i div Nk)])
             else if Nk > 6 \<and> i mod Nk = 4 then SubWord temp
             else temp)
      in w @ [[w ! (i - Nk) ! 0 XOR temp ! 0, w ! (i - Nk) ! 1 XOR temp ! 1,
               w ! (i - Nk) ! 2 XOR temp ! 2, w ! (i - Nk) ! 3 XOR temp ! 3]])"

definition expand_words :: "nat \<Rightarrow> nat \<Rightarrow> aes_word list \<Rightarrow> aes_word list" where
  "expand_words Nk Nr key = for_loop (Nb * (Nr + 1) - Nk) (\<lambda>k. expand_step Nk (Nk + k)) key"

definition KeyExpansion :: "nat \<Rightarrow> nat \<Rightarrow> aes_word list \<Rightarrow> schedule" where
  "KeyExpansion Nk Nr key =
     (let w = expand_words Nk Nr key in map (\<lambda>i. take Nb (drop (Nb * i) w)) [0..<Nr + 1])"

section \<open>The inverse cipher\<close>

definition InvSubBytes :: "block \<Rightarrow> block" where
  "InvSubBytes s = for_loop Nb (\<lambda>r. for_loop WORD_SIZE (\<lambda>c s. upd s r c (box ISBOX (s ! r ! c)))) s"

definition rotate_down :: "nat \<Rightarrow> block \<Rightarrow> block" where
  "rotate_down c s =
     (let tmp = s ! (Nb - 1) ! c;
          s = for_down (Nb - 1) (\<lambda>k s. upd s (k + 1) c (s ! k ! c)) s
      in upd s 0 c tmp)"

definition InvShiftRows :: "block \<Rightarrow> block" where
  "InvShiftRows s = for_loop (WORD_SIZE - 1) (\<lambda>k. for_loop (k + 1) (\<lambda>_. rotate_down (k + 1))) s"

definition inv_mix_word :: "aes_word \<Rightarrow> aes_word" where
  "inv_mix_word w =
     [DOT 0x0E (w ! 0) XOR DOT 0x0B (w ! 1) XOR DOT 0x0D (w ! 2) XOR DOT 0x09 (w ! 3),
      DOT 0x09 (w ! 0) XOR DOT 0x0E (w ! 1) XOR DOT 0x0B (w ! 2) XOR DOT 0x0D (w ! 3),
      DOT 0x0D (w ! 0) XOR DOT 0x09 (w ! 1) XOR DOT 0x0E (w ! 2) XOR DOT 0x0B (w ! 3),
      DOT 0x0B (w ! 0) XOR DOT 0x0D (w ! 1) XOR DOT 0x09 (w ! 2) XOR DOT 0x0E (w ! 3)]"

definition InvMixColumns :: "block \<Rightarrow> block" where
  "InvMixColumns s = map (\<lambda>r. inv_mix_word (s ! r)) [0..<Nb]"

definition inverse_round :: "schedule \<Rightarrow> nat \<Rightarrow> block \<Rightarrow> block" where
  "inverse_round w round s = InvMixColumns (AddRoundKey (InvSubBytes (InvShiftRows s)) (w ! round))"

definition InverseCipher :: "nat \<Rightarrow> block \<Rightarrow> schedule \<Rightarrow> block" where
  "InverseCipher Nr input w =
     (let s = AddRoundKey input (w ! Nr);
          s = for_down (Nr - 1) (\<lambda>k. inverse_round w (k + 1)) s;
          s = InvSubBytes (InvShiftRows s)
      in AddRoundKey s (w ! 0))"

section \<open>Streams of blocks\<close>

text \<open>A block in memory is its octets, word by word.\<close>

definition block_of :: "byte list \<Rightarrow> block" where
  "block_of bs = map (\<lambda>r. take WORD_SIZE (drop (WORD_SIZE * r) bs)) [0..<Nb]"

definition octets_of :: "block \<Rightarrow> byte list" where
  "octets_of b = concat b"

text \<open>The electronic code book: the loop watches \<open>eof()\<close> only, and pads a short block with zeros.\<close>

partial_function (option) ecb_loop ::
  "(block \<Rightarrow> block) \<Rightarrow> stream \<Rightarrow> stream \<Rightarrow> (stream \<times> stream) option" where
  "ecb_loop f input out =
     (if \<not> eofbit input then
        (case sread BLOCK_SIZE input of (buffer, input') \<Rightarrow>
           let buffer = buffer @ replicate (BLOCK_SIZE - gcount input') 0x00;
               out = swrite (octets_of (f (block_of buffer))) out
           in ecb_loop f input' out)
      else Some (input, out))"

definition Cipher_stream :: "nat \<Rightarrow> stream \<Rightarrow> schedule \<Rightarrow> stream \<Rightarrow> (stream \<times> stream) option" where
  "Cipher_stream Nr input w out = ecb_loop (\<lambda>b. Cipher Nr b w) input out"

definition InverseCipher_stream :: "nat \<Rightarrow> stream \<Rightarrow> schedule \<Rightarrow> stream \<Rightarrow> (stream \<times> stream) option" where
  "InverseCipher_stream Nr input w out = ecb_loop (\<lambda>b. InverseCipher Nr b w) input out"

definition xor_octets :: "byte list \<Rightarrow> byte list \<Rightarrow> byte list" where
  "xor_octets a chain = map (\<lambda>i. a ! i XOR chain ! i) [0..<BLOCK_SIZE]"

definition whole_blocks :: exn where
  "whole_blocks = CryptographyException ''cipher block chaining needs whole blocks''"

text \<open>Cipher block chaining. The blocks before a short one have been written when it throws.\<close>

partial_function (option) cbc_loop ::
  "(block \<Rightarrow> block) \<Rightarrow> byte list \<Rightarrow> stream \<Rightarrow> stream \<Rightarrow> (exn option \<times> stream \<times> stream) option" where
  "cbc_loop f chain input out =
     (case sread BLOCK_SIZE input of (buffer_in, input) \<Rightarrow>
        let len = gcount input in
        if len = 0 then Some (None, input, out)
        else if len < BLOCK_SIZE then Some (Some whole_blocks, input, out)
        else
          (let buffer_in = xor_octets buffer_in chain;
               buffer_out = octets_of (f (block_of buffer_in));
               out = swrite buffer_out out;
               chain = buffer_out
           in cbc_loop f chain input out))"

definition CipherCBC ::
  "nat \<Rightarrow> stream \<Rightarrow> schedule \<Rightarrow> byte list \<Rightarrow> stream \<Rightarrow> (exn option \<times> stream \<times> stream) option" where
  "CipherCBC Nr input w iv out = cbc_loop (\<lambda>b. Cipher Nr b w) iv input out"

partial_function (option) inverse_cbc_loop ::
  "(block \<Rightarrow> block) \<Rightarrow> byte list \<Rightarrow> stream \<Rightarrow> stream \<Rightarrow> (exn option \<times> stream \<times> stream) option" where
  "inverse_cbc_loop f chain input out =
     (case sread BLOCK_SIZE input of (buffer_in, input) \<Rightarrow>
        let len = gcount input in
        if len = 0 then Some (None, input, out)
        else if len < BLOCK_SIZE then Some (Some whole_blocks, input, out)
        else
          (let next = buffer_in;
               buffer_out = xor_octets (octets_of (f (block_of buffer_in))) chain;
               out = swrite buffer_out out;
               chain = next
           in inverse_cbc_loop f chain input out))"

definition InverseCipherCBC ::
  "nat \<Rightarrow> stream \<Rightarrow> schedule \<Rightarrow> byte list \<Rightarrow> stream \<Rightarrow> (exn option \<times> stream \<times> stream) option" where
  "InverseCipherCBC Nr input w iv out = inverse_cbc_loop (\<lambda>b. InverseCipher Nr b w) iv input out"

end
