(* ===== verification/AES_Cipher.thy ===== *)
theory AES_Cipher
  imports AES
begin

text \<open>
  \<open>Cryptography/aes.cpp\<close>: each inverse round function undoes its counterpart on every block, so the
  inverse cipher undoes the cipher under every schedule; the stream modes follow in \<open>AES_Modes\<close>.
\<close>

lemma for_loop_numeral [simp]:
  "for_loop (numeral k) f s = f (pred_numeral k) (for_loop (pred_numeral k) f s)"
  by (simp add: numeral_eq_Suc)

lemma for_down_numeral [simp]:
  "for_down (numeral k) f s = for_down (pred_numeral k) f (f (pred_numeral k) s)"
  by (simp add: numeral_eq_Suc)

section \<open>The substitution boxes\<close>

lemma all_bytes: "list_all P (map word_of_nat [0..<256]) \<Longrightarrow> P (x :: byte)"
proof -
  assume "list_all P (map word_of_nat [0..<256])"
  then have "\<And>n. n < 256 \<Longrightarrow> P (word_of_nat n)" by (simp add: list_all_iff)
  then have "P (word_of_nat (unat x))" using unat_byte_less by blast
  then show ?thesis by simp
qed

lemma inverse_box [simp]: "box ISBOX (box SBOX x) = x"
proof (rule all_bytes [where P = "\<lambda>x. box ISBOX (box SBOX x) = x"])
  show "list_all (\<lambda>x. box ISBOX (box SBOX x) = x) (map word_of_nat [0..<256])" by code_simp
qed

section \<open>Multiplication in the field\<close>

definition twice :: "byte \<Rightarrow> byte" where
  "twice a = (if a AND 0x80 \<noteq> 0 then push_bit 1 a XOR 0x1B else push_bit 1 a)"

primrec dots :: "nat \<Rightarrow> byte \<Rightarrow> byte \<Rightarrow> byte" where
  "dots 0 a b = 0"
| "dots (Suc n) a b = dots n a b XOR (if bit b n then (twice ^^ n) a else 0)"

lemma dot_step_twice: "dot_step i (p, a, b) = (if b AND 1 \<noteq> 0 then p XOR a else p, twice a, drop_bit 1 b)"
  by (simp add: dot_step_def twice_def Let_def)

lemma dot_loop: "for_loop n dot_step (0, a, b) = (dots n a b, (twice ^^ n) a, drop_bit n b)"
proof (induction n)
  case (Suc n)
  have "drop_bit n b AND 1 \<noteq> 0 \<longleftrightarrow> bit b n"
    by (simp add: and_one_eq bit_iff_odd_drop_bit odd_iff_mod_2_eq_one)
  then show ?case using Suc by (simp add: dot_step_twice)
qed simp

lemma DOT_dots: "DOT a b = dots 8 a b"
  by (simp only: DOT_def dot_loop fst_conv)

lemma dots_xor: "dots n a (x XOR y) = dots n a x XOR dots n a y"
  by (induction n) (auto simp: bit_xor_iff ac_simps)

lemma DOT_xor: "DOT a (x XOR y) = DOT a x XOR DOT a y"
  by (simp only: DOT_dots dots_xor)

lemma xor_cancel: "(a :: byte) XOR (a XOR b) = b"
  by (simp flip: xor.assoc)

lemma twice_xor: "twice (x XOR y) = twice x XOR twice y"
proof -
  have k: "z AND 0x80 \<noteq> 0 \<longleftrightarrow> bit z 7" for z :: byte
    using and_exp_eq_0_iff_not_bit [of z 7] by simp
  have t: "twice z = push_bit 1 z XOR (if bit z 7 then 0x1B else 0)" for z
    by (simp only: twice_def k) simp
  show ?thesis
    by (cases "bit x 7"; cases "bit y 7")
       (simp_all only: t push_bit_xor bit_xor_iff if_True if_False simp_thms xor.right_neutral xor.left_neutral xor_self_eq
         xor_cancel ac_simps)
qed

text \<open>Two functions that respect XOR agree when they agree on the eight bits.\<close>

lemma octet_bits: "x = (x AND 1) XOR (x AND 2) XOR (x AND 4) XOR (x AND 8) XOR (x AND 16) XOR (x AND 32) XOR
    (x AND 64) XOR (x AND 128)" for x :: byte
  by (rule all_bytes [where P = "\<lambda>x. x = (x AND 1) XOR (x AND 2) XOR (x AND 4) XOR (x AND 8) XOR (x AND 16) XOR
    (x AND 32) XOR (x AND 64) XOR (x AND 128)"]) code_simp

lemma and_exp_cases: "x AND 2 ^ k \<in> {0, 2 ^ k}" for x :: byte
proof -
  have "x AND 2 ^ k = (if bit x k then 2 ^ k else 0)"
    by (rule bit_word_eqI) (auto simp: bit_simps)
  then show ?thesis by simp
qed

lemma octet_and: "x AND 1 \<in> {0, 1}" "x AND 2 \<in> {0, 2}" "x AND 4 \<in> {0, 4}" "x AND 8 \<in> {0, 8}"
  "x AND 16 \<in> {0, 16}" "x AND 32 \<in> {0, 32}" "x AND 64 \<in> {0, 64}" "x AND 128 \<in> {0, 128}" for x :: byte
  using and_exp_cases [of x 0] and_exp_cases [of x 1] and_exp_cases [of x 2] and_exp_cases [of x 3]
    and_exp_cases [of x 4] and_exp_cases [of x 5] and_exp_cases [of x 6] and_exp_cases [of x 7]
  by (simp_all only: power_0 power_one_right) simp_all

lemma xor_linear_eq:
  assumes f: "\<And>x y. f (x XOR y) = f x XOR f y" and g: "\<And>x y. g (x XOR y) = g x XOR (g y :: byte)"
    and "list_all (\<lambda>x. f x = g x) [0, 1, 2, 4, 8, 16, 32, 64, 128]"
  shows "f x = g (x :: byte)"
proof -
  have e: "f y = g y" if "y \<in> {0, k}" "k \<in> {1, 2, 4, 8, 16, 32, 64, 128}" for y k
    using that assms(3) by auto
  show ?thesis
    by (subst (1 2) octet_bits) (simp only: f g e [OF octet_and(1)] e [OF octet_and(2)] e [OF octet_and(3)]
      e [OF octet_and(4)] e [OF octet_and(5)] e [OF octet_and(6)] e [OF octet_and(7)] e [OF octet_and(8)] insert_iff simp_thms)
qed

text \<open>The constants of the two matrices, by doubling.\<close>

lemma DOT_2: "DOT 0x02 x = twice x"
  by (rule xor_linear_eq [where f = "DOT 0x02" and g = "\<lambda>x. twice x"], rule DOT_xor, simp add: twice_xor ac_simps, code_simp)

lemma DOT_3: "DOT 0x03 x = twice x XOR x"
  by (rule xor_linear_eq [where f = "DOT 0x03" and g = "\<lambda>x. twice x XOR x"], rule DOT_xor, simp add: twice_xor ac_simps, code_simp)

lemma DOT_9: "DOT 0x09 x = twice (twice (twice x)) XOR x"
  by (rule xor_linear_eq [where f = "DOT 0x09" and g = "\<lambda>x. twice (twice (twice x)) XOR x"], rule DOT_xor, simp add: twice_xor ac_simps, code_simp)

lemma DOT_B: "DOT 0x0B x = twice (twice (twice x)) XOR twice x XOR x"
  by (rule xor_linear_eq [where f = "DOT 0x0B" and g = "\<lambda>x. twice (twice (twice x)) XOR twice x XOR x"], rule DOT_xor, simp add: twice_xor ac_simps, code_simp)

lemma DOT_D: "DOT 0x0D x = twice (twice (twice x)) XOR twice (twice x) XOR x"
  by (rule xor_linear_eq [where f = "DOT 0x0D" and g = "\<lambda>x. twice (twice (twice x)) XOR twice (twice x) XOR x"], rule DOT_xor, simp add: twice_xor ac_simps, code_simp)

lemma DOT_E: "DOT 0x0E x = twice (twice (twice x)) XOR twice (twice x) XOR twice x"
  by (rule xor_linear_eq [where f = "DOT 0x0E" and g = "\<lambda>x. twice (twice (twice x)) XOR twice (twice x) XOR twice x"], rule DOT_xor, simp add: twice_xor ac_simps, code_simp)

lemma inv_mix_word_mix_word: "length w = 4 \<Longrightarrow> inv_mix_word (mix_word w) = w"
proof -
  assume "length w = 4"
  then obtain a b c d where w: "w = [a, b, c, d]" by (auto simp: numeral_eq_Suc length_Suc_conv)
  show ?thesis
    unfolding w mix_word_def inv_mix_word_def
    by (simp add: DOT_2 DOT_3 DOT_9 DOT_B DOT_D DOT_E twice_xor ac_simps xor_cancel)
qed

section \<open>Blocks\<close>

definition wf_block :: "block \<Rightarrow> bool" where
  "wf_block s \<longleftrightarrow> length s = Nb \<and> (\<forall>w \<in> set s. length w = WORD_SIZE)"

definition wf_schedule :: "nat \<Rightarrow> schedule \<Rightarrow> bool" where
  "wf_schedule Nr w \<longleftrightarrow> length w = Nr + 1 \<and> (\<forall>b \<in> set w. wf_block b)"

lemma four: "length w = 4 \<Longrightarrow> \<exists>a b c d. w = [a, b, c, d]"
  by (auto simp: numeral_eq_Suc length_Suc_conv)

lemma wf_block_cases:
  assumes "wf_block s"
  obtains a b c d where "s = [a, b, c, d]"
    and "length a = 4" "length b = 4" "length c = 4" "length d = 4"
proof -
  obtain a b c d where "s = [a, b, c, d]" using assms four [of s] by (auto simp: wf_block_def Nb_def)
  then show ?thesis using assms that by (auto simp: wf_block_def WORD_SIZE_def)
qed

lemma wf_block_words:
  assumes "wf_block s"
  obtains a b c d e f g h i j k l m n p q where "s = [[a, b, c, d], [e, f, g, h], [i, j, k, l], [m, n, p, q]]"
  using wf_block_cases [OF assms] four by metis

lemma wf_schedule_nth: "wf_schedule Nr w \<Longrightarrow> i \<le> Nr \<Longrightarrow> wf_block (w ! i)"
  by (simp add: wf_schedule_def)

lemmas block_defs = upd_def Nb_def WORD_SIZE_def

lemma SubBytes_map: "wf_block s \<Longrightarrow> SubBytes s = map (map (box SBOX)) s"
  by (erule wf_block_words) (simp add: SubBytes_def block_defs)

lemma InvSubBytes_map: "wf_block s \<Longrightarrow> InvSubBytes s = map (map (box ISBOX)) s"
  by (erule wf_block_words) (simp add: InvSubBytes_def block_defs)

lemma wf_block_map: "(\<And>w. length (f w) = length w) \<Longrightarrow> wf_block s \<Longrightarrow> wf_block (map f s)"
  by (simp add: wf_block_def)

lemma wf_SubBytes [simp]: "wf_block s \<Longrightarrow> wf_block (SubBytes s)"
  by (simp add: SubBytes_map wf_block_map)

lemma InvSubBytes_SubBytes [simp]: "wf_block s \<Longrightarrow> InvSubBytes (SubBytes s) = s"
  using InvSubBytes_map [OF wf_SubBytes] by (simp add: SubBytes_map o_def)

text \<open>The shift: row \<open>c\<close> of the transposed block moves by \<open>c\<close>.\<close>

lemma ShiftRows_words:
  "ShiftRows [[a, b, c, d], [e, f, g, h], [i, j, k, l], [m, n, p, q]] =
     [[a, f, k, q], [e, j, p, d], [i, n, c, h], [m, b, g, l]]"
  by (simp add: ShiftRows_def rotate_up_def block_defs)

lemma InvShiftRows_words:
  "InvShiftRows [[a, f, k, q], [e, j, p, d], [i, n, c, h], [m, b, g, l]] =
     [[a, b, c, d], [e, f, g, h], [i, j, k, l], [m, n, p, q]]"
  by (simp add: InvShiftRows_def rotate_down_def block_defs)

lemma wf_ShiftRows [simp]: "wf_block s \<Longrightarrow> wf_block (ShiftRows s)"
  by (erule wf_block_words) (simp add: ShiftRows_words wf_block_def block_defs)

lemma InvShiftRows_ShiftRows [simp]: "wf_block s \<Longrightarrow> InvShiftRows (ShiftRows s) = s"
  by (erule wf_block_words) (simp add: ShiftRows_words InvShiftRows_words)

lemma wf_MixColumns [simp]: "wf_block (MixColumns s)"
  by (simp add: wf_block_def MixColumns_def mix_word_def Nb_def WORD_SIZE_def)

lemma InvMixColumns_MixColumns [simp]: "wf_block s \<Longrightarrow> InvMixColumns (MixColumns s) = s"
  by (erule wf_block_cases)
     (simp add: InvMixColumns_def MixColumns_def Nb_def upt_rec inv_mix_word_mix_word)

lemma AddRoundKey_words: "wf_block s \<Longrightarrow> wf_block k \<Longrightarrow> AddRoundKey s k = map2 (map2 (XOR)) s k"
  by (erule wf_block_words, erule wf_block_words) (simp add: AddRoundKey_def block_defs Let_def)

lemma wf_AddRoundKey [simp]: "wf_block s \<Longrightarrow> wf_block k \<Longrightarrow> wf_block (AddRoundKey s k)"
  by (simp add: AddRoundKey_words)
     (erule wf_block_words, erule wf_block_words, simp add: wf_block_def block_defs)

lemma AddRoundKey_twice [simp]: "wf_block s \<Longrightarrow> wf_block k \<Longrightarrow> AddRoundKey (AddRoundKey s k) k = s"
  using AddRoundKey_words [OF wf_AddRoundKey]
  by (simp only: AddRoundKey_words)
     (erule wf_block_words, erule wf_block_words, simp add: xor.assoc)

section \<open>The cipher and its inverse\<close>

text \<open>The state after \<open>n\<close> rounds.\<close>

definition after_rounds :: "schedule \<Rightarrow> block \<Rightarrow> nat \<Rightarrow> block" where
  "after_rounds w input n = for_loop n (\<lambda>k. cipher_round w (k + 1)) (AddRoundKey input (w ! 0))"

lemma wf_after_rounds:
  assumes "wf_schedule Nr w" and "wf_block input" and "n \<le> Nr"
  shows "wf_block (after_rounds w input n)"
  using assms(3)
proof (induction n)
  case 0
  then show ?case using assms wf_schedule_nth [OF assms(1), of 0] by (simp add: after_rounds_def)
next
  case (Suc n)
  then have "wf_block (w ! Suc n)" using wf_schedule_nth [OF assms(1)] by simp
  then show ?case using Suc by (simp add: after_rounds_def cipher_round_def)
qed

lemma inverse_rounds:
  assumes "wf_schedule Nr w" and "wf_block input" and "n \<le> Nr"
  shows "for_down n (\<lambda>k. inverse_round w (k + 1)) (ShiftRows (SubBytes (after_rounds w input n))) =
    ShiftRows (SubBytes (AddRoundKey input (w ! 0)))"
  using assms(3)
proof (induction n)
  case 0
  then show ?case by (simp add: after_rounds_def)
next
  case (Suc n)
  let ?t = "after_rounds w input n" and ?k = "w ! Suc n"
  have t: "wf_block ?t" using wf_after_rounds [OF assms(1,2)] Suc.prems by simp
  have k: "wf_block ?k" using wf_schedule_nth [OF assms(1)] Suc.prems by simp
  have step: "after_rounds w input (Suc n) = AddRoundKey (MixColumns (ShiftRows (SubBytes ?t))) ?k"
    by (simp add: after_rounds_def cipher_round_def)
  have "inverse_round w (Suc n) (ShiftRows (SubBytes (after_rounds w input (Suc n)))) = ShiftRows (SubBytes ?t)"
    unfolding step inverse_round_def using t k by simp
  then show ?case using Suc by simp
qed

lemma Cipher_rounds:
  "Cipher Nr input w = AddRoundKey (ShiftRows (SubBytes (after_rounds w input (Nr - 1)))) (w ! Nr)"
  by (simp add: Cipher_def after_rounds_def)

lemma wf_Cipher:
  assumes "wf_schedule Nr w" and "wf_block input"
  shows "wf_block (Cipher Nr input w)"
  using wf_after_rounds [OF assms, of "Nr - 1"] wf_schedule_nth [OF assms(1), of Nr]
  by (simp add: Cipher_rounds)

lemma InverseCipher_Cipher:
  assumes "wf_schedule Nr w" and "wf_block input"
  shows "InverseCipher Nr (Cipher Nr input w) w = input"
proof -
  let ?t = "after_rounds w input (Nr - 1)"
  have t: "wf_block ?t" using wf_after_rounds [OF assms] by simp
  have k: "wf_block (w ! Nr)" "wf_block (w ! 0)" using wf_schedule_nth [OF assms(1)] by simp_all
  show ?thesis
    using t k assms(2) inverse_rounds [OF assms, of "Nr - 1"] by (simp add: Cipher_rounds InverseCipher_def)
qed

section \<open>Key expansion\<close>

lemma expand_step_ok:
  assumes "\<forall>v \<in> set w. length v = WORD_SIZE" and "length w = i"
  shows "length (expand_step Nk i w) = Suc i" and "\<forall>v \<in> set (expand_step Nk i w). length v = WORD_SIZE"
    and "take i (expand_step Nk i w) = w"
  using assms by (auto simp: expand_step_def Let_def WORD_SIZE_def)

lemma expand_loop_ok:
  assumes "\<forall>v \<in> set key. length v = WORD_SIZE" and "length key = Nk"
  shows "length (for_loop n (\<lambda>k. expand_step Nk (Nk + k)) key) = Nk + n \<and>
    (\<forall>v \<in> set (for_loop n (\<lambda>k. expand_step Nk (Nk + k)) key). length v = WORD_SIZE)"
proof (induction n)
  case 0
  then show ?case using assms by simp
next
  case (Suc n)
  then show ?case using expand_step_ok [of "for_loop n (\<lambda>k. expand_step Nk (Nk + k)) key" "Nk + n" Nk] by simp
qed

lemma wf_KeyExpansion:
  assumes "\<forall>v \<in> set key. length v = WORD_SIZE" and "length key = Nk" and "Nk \<le> Nb * (Nr + 1)"
  shows "wf_schedule Nr (KeyExpansion Nk Nr key)"
proof -
  let ?w = "expand_words Nk Nr key"
  have w: "length ?w = Nb * (Nr + 1)" "\<forall>v \<in> set ?w. length v = WORD_SIZE"
    using expand_loop_ok [OF assms(1,2), of "Nb * (Nr + 1) - Nk"] assms(3) by (simp_all add: expand_words_def)
  have "wf_block (take Nb (drop (Nb * i) ?w))" if "i < Nr + 1" for i
  proof -
    have "Nb * i + Nb \<le> length ?w" using that w(1) by (simp add: Nb_def)
    then show ?thesis using w(2) by (auto simp: wf_block_def dest: in_set_takeD in_set_dropD)
  qed
  then show ?thesis by (auto simp add: KeyExpansion_def wf_schedule_def Let_def simp del: upt_Suc)
qed

lemma concat_chunks: "concat (map (\<lambda>i. take k (drop (k * i) w)) [0..<n]) = take (k * n) w"
proof (induction n)
  case (Suc n)
  then show ?case using take_add [of "k * n" k w] by (simp add: add.commute)
qed simp

lemma expand_keeps_key:
  assumes "\<forall>v \<in> set key. length v = WORD_SIZE" and "length key = Nk"
  shows "take Nk (for_loop n (\<lambda>k. expand_step Nk (Nk + k)) key) = key"
proof (induction n)
  case 0
  then show ?case using assms by simp
next
  case (Suc n)
  let ?w = "for_loop n (\<lambda>k. expand_step Nk (Nk + k)) key"
  have "take (Nk + n) (expand_step Nk (Nk + n) ?w) = ?w"
    using expand_step_ok(3) [of ?w "Nk + n"] expand_loop_ok [OF assms, of n] by blast
  then have "take Nk (take (Nk + n) (expand_step Nk (Nk + n) ?w)) = take Nk ?w" by (rule arg_cong)
  then have "take Nk (expand_step Nk (Nk + n) ?w) = take Nk ?w" by (simp only: take_take min.absorb1 le_add1)
  then show ?case using Suc by simp
qed

lemma key_at_head:
  assumes "\<forall>v \<in> set key. length v = WORD_SIZE" and "length key = Nk" and "Nk \<le> Nb * (Nr + 1)"
  shows "take Nk (concat (KeyExpansion Nk Nr key)) = key"
proof -
  have "concat (KeyExpansion Nk Nr key) = take (Nb * (Nr + 1)) (expand_words Nk Nr key)"
    unfolding KeyExpansion_def Let_def by (rule concat_chunks)
  then show ?thesis
    using expand_keeps_key [OF assms(1,2), of "Nb * (Nr + 1) - Nk"] assms(3)
    by (simp add: expand_words_def min.absorb1)
qed

end
