(* ===== verification/AES_Modes.thy ===== *)
theory AES_Modes
  imports AES_Cipher
begin

text \<open>
  \<open>Cryptography/aes.cpp\<close>: the stream modes over any block cipher (\<open>block_cipher\<close>), and AES-128, AES-192
  and AES-256 as its instances, with the schedule that \<open>KeyExpansion\<close> computes.
\<close>

section \<open>Blocks and octets\<close>

lemma sixteen: "length bs = 16 \<Longrightarrow> \<exists>a b c d e f g h i j k l m n p q. bs = [a, b, c, d, e, f, g, h, i, j, k, l, m, n, p, q]"
  by (auto simp: numeral_eq_Suc length_Suc_conv)

lemma wf_block_of: "length bs = 16 \<Longrightarrow> wf_block (block_of bs)"
  by (auto dest!: sixteen simp: block_of_def wf_block_def block_defs numeral_eq_Suc)

lemma octets_of_block_of: "length bs = 16 \<Longrightarrow> octets_of (block_of bs) = bs"
  by (drule sixteen) (auto simp: block_of_def octets_of_def block_defs upt_rec)

lemma block_of_octets_of: "wf_block b \<Longrightarrow> block_of (octets_of b) = b"
  by (erule wf_block_words) (simp add: block_of_def octets_of_def block_defs numeral_eq_Suc)

lemma length_octets_of: "wf_block b \<Longrightarrow> length (octets_of b) = 16"
  by (erule wf_block_words) (simp add: octets_of_def)

lemma BLOCK_SIZE_16 [simp]: "BLOCK_SIZE = 16"
  by (simp add: BLOCK_SIZE_def WORD_SIZE_def Nb_def)

lemma length_xor_octets [simp]: "length (xor_octets a b) = 16"
  by (simp add: xor_octets_def)

lemma xor_octets_twice: "length a = 16 \<Longrightarrow> xor_octets (xor_octets a b) b = a"
  by (auto simp: xor_octets_def xor.assoc intro!: nth_equalityI)

section \<open>Reading blocks\<close>

lemma sread_block:
  assumes "readable s" and "rest s = p @ r" and "length p = 16"
  shows "sread BLOCK_SIZE s = (p, advance 16 16 s)" and "readable (advance 16 16 s)" and "rest (advance 16 16 s) = r"
  using sread_rest [OF assms(1), of 16] readable_advance [OF assms(1), of 16 16] assms by simp_all

lemma sread_short:
  assumes "readable s" and "length (rest s) < 16"
  shows "\<exists>t. sread BLOCK_SIZE s = (rest s, t) \<and> gcount t = length (rest s) \<and> eofbit t"
  using assms by (auto simp: sread_def readable_def rest_def Let_def)

lemma length_blocks: "\<forall>b \<in> set bs. length b = 16 \<Longrightarrow> length (concat bs) = 16 * length bs"
  by (induction bs) auto

section \<open>Any block cipher\<close>

text \<open>Chaining, as a function of the list of blocks.\<close>

primrec cbc_blocks :: "(block \<Rightarrow> block) \<Rightarrow> byte list \<Rightarrow> byte list list \<Rightarrow> byte list list" where
  "cbc_blocks f chain [] = []"
| "cbc_blocks f chain (p # ps) =
     (let c = octets_of (f (block_of (xor_octets p chain))) in c # cbc_blocks f c ps)"

primrec inverse_cbc_blocks :: "(block \<Rightarrow> block) \<Rightarrow> byte list \<Rightarrow> byte list list \<Rightarrow> byte list list" where
  "inverse_cbc_blocks f chain [] = []"
| "inverse_cbc_blocks f chain (c # cs) =
     xor_octets (octets_of (f (block_of c))) chain # inverse_cbc_blocks f c cs"

lemma cbc_loop_ok:
  assumes "readable s" and "rest s = concat ps @ r" and "\<forall>p \<in> set ps. length p = 16" and "length r < 16"
    and "appending out"
  shows "\<exists>t. cbc_loop f chain s out =
    Some (if r = [] then None else Some whole_blocks, t, append (concat (cbc_blocks f chain ps)) out)"
  using assms(1-3,5)
proof (induction ps arbitrary: chain s out)
  case Nil
  then obtain t where "sread BLOCK_SIZE s = (r, t)" "gcount t = length r" using sread_short [of s] assms(4) by auto
  then show ?case using assms(4) by (subst cbc_loop.simps) simp
next
  case (Cons p ps)
  let ?c = "octets_of (f (block_of (xor_octets p chain)))"
  have s: "rest s = p @ (concat ps @ r)" "length p = 16" using Cons.prems by simp_all
  note rd = sread_block [OF Cons.prems(1) s]
  obtain t where "cbc_loop f ?c (advance 16 16 s) (append ?c out) =
      Some (if r = [] then None else Some whole_blocks, t, append (concat (cbc_blocks f ?c ps)) (append ?c out))"
    using Cons.IH [OF rd(2,3), of "append ?c out" ?c] Cons.prems by auto
  then show ?case using rd(1) Cons.prems by (subst cbc_loop.simps) (simp add: Let_def)
qed

lemma inverse_cbc_loop_ok:
  assumes "readable s" and "rest s = concat ps @ r" and "\<forall>p \<in> set ps. length p = 16" and "length r < 16"
    and "appending out"
  shows "\<exists>t. inverse_cbc_loop f chain s out =
    Some (if r = [] then None else Some whole_blocks, t, append (concat (inverse_cbc_blocks f chain ps)) out)"
  using assms(1-3,5)
proof (induction ps arbitrary: chain s out)
  case Nil
  then obtain t where "sread BLOCK_SIZE s = (r, t)" "gcount t = length r" using sread_short [of s] assms(4) by auto
  then show ?case using assms(4) by (subst inverse_cbc_loop.simps) simp
next
  case (Cons p ps)
  let ?c = "xor_octets (octets_of (f (block_of p))) chain"
  have s: "rest s = p @ (concat ps @ r)" "length p = 16" using Cons.prems by simp_all
  note rd = sread_block [OF Cons.prems(1) s]
  obtain t where "inverse_cbc_loop f p (advance 16 16 s) (append ?c out) =
      Some (if r = [] then None else Some whole_blocks, t, append (concat (inverse_cbc_blocks f p ps)) (append ?c out))"
    using Cons.IH [OF rd(2,3), of "append ?c out" p] Cons.prems by auto
  then show ?case using rd(1) Cons.prems by (subst inverse_cbc_loop.simps) (simp add: Let_def)
qed

text \<open>The code book: the blocks of the input, and one more that holds what is left, zeros after it.\<close>

definition ecb_blocks :: "(block \<Rightarrow> block) \<Rightarrow> byte list list \<Rightarrow> byte list" where
  "ecb_blocks f ps = concat (map (\<lambda>p. octets_of (f (block_of p))) ps)"

lemma ecb_loop_ok:
  assumes "readable s" and "rest s = concat ps @ r" and "\<forall>p \<in> set ps. length p = 16" and "length r < 16"
    and "appending out"
  shows "\<exists>t. ecb_loop f s out = Some (t, append (ecb_blocks f (ps @ [r @ replicate (16 - length r) 0])) out)"
  using assms(1-3,5)
proof (induction ps arbitrary: s out)
  case Nil
  then obtain t where "sread BLOCK_SIZE s = (r, t)" "gcount t = length r" "eofbit t"
    using sread_short [of s] assms(4) by auto
  moreover have "\<not> eofbit s" using Nil.prems(1) by (simp add: readable_def good_def)
  ultimately show ?case using Nil.prems
    by (subst ecb_loop.simps, simp add: Let_def, subst ecb_loop.simps, simp add: ecb_blocks_def)
next
  case (Cons p ps)
  have s: "rest s = p @ (concat ps @ r)" "length p = 16" using Cons.prems by simp_all
  note rd = sread_block [OF Cons.prems(1) s]
  have "\<not> eofbit s" using Cons.prems(1) by (simp add: readable_def good_def)
  then show ?case using Cons.IH [OF rd(2,3), of "append (octets_of (f (block_of p))) out"] rd(1) Cons.prems s(2)
    by (subst ecb_loop.simps) (simp add: Let_def ecb_blocks_def)
qed

text \<open>Every list of octets is whole blocks and a rest.\<close>

lemma split_blocks:
  obtains ps r where "bs = concat ps @ r" and "\<forall>p \<in> set ps. length p = 16" and "length r = length bs mod 16"
    and "length ps = length bs div 16"
proof -
  have "\<exists>ps r. bs = concat ps @ r \<and> (\<forall>p \<in> set ps. length p = 16) \<and> length r = length bs mod 16 \<and>
    length ps = length bs div 16"
  proof (induction "length bs" arbitrary: bs rule: less_induct)
    case less
    show ?case
    proof (cases "length bs < 16")
      case True
      then show ?thesis by (intro exI [of _ "[]"] exI [of _ bs]) simp
    next
      case False
      then have "length (drop 16 bs) < length bs" by simp
      then obtain ps r where d: "drop 16 bs = concat ps @ r" "\<forall>p \<in> set ps. length p = 16"
        "length r = length (drop 16 bs) mod 16" "length ps = length (drop 16 bs) div 16"
        using less.hyps by blast
      have "bs = concat (take 16 bs # ps) @ r" using d(1) append_take_drop_id [of 16 bs] by simp
      moreover have "length r = length bs mod 16" "length (take 16 bs # ps) = length bs div 16"
        using d(3,4) False by (simp_all add: le_mod_geq le_div_geq)
      ultimately show ?thesis using d(2) False by (intro exI [of _ "take 16 bs # ps"] exI [of _ r]) auto
    qed
  qed
  then show ?thesis using that by blast
qed

locale block_cipher =
  fixes enc dec :: "'k \<Rightarrow> block \<Rightarrow> block" and ok :: "'k \<Rightarrow> bool"
  assumes enc_wf: "ok k \<Longrightarrow> wf_block b \<Longrightarrow> wf_block (enc k b)"
    and dec_enc: "ok k \<Longrightarrow> wf_block b \<Longrightarrow> dec k (enc k b) = b"
begin

lemma enc_octets: "ok k \<Longrightarrow> length p = 16 \<Longrightarrow> length (octets_of (enc k (block_of p))) = 16"
  by (simp add: length_octets_of enc_wf wf_block_of)

lemma dec_octets:
  "ok k \<Longrightarrow> length p = 16 \<Longrightarrow> octets_of (dec k (block_of (octets_of (enc k (block_of p))))) = p"
  by (simp add: block_of_octets_of enc_wf dec_enc wf_block_of octets_of_block_of)

lemma cbc_blocks_length:
  "ok k \<Longrightarrow> (\<forall>c \<in> set (cbc_blocks (enc k) chain ps). length c = 16) \<and>
    length (concat (cbc_blocks (enc k) chain ps)) = 16 * length ps"
  by (induction ps arbitrary: chain) (auto simp: Let_def enc_octets)

lemma inverse_cbc_blocks:
  "ok k \<Longrightarrow> \<forall>p \<in> set ps. length p = 16 \<Longrightarrow>
    inverse_cbc_blocks (dec k) chain (cbc_blocks (enc k) chain ps) = ps"
  by (induction ps arbitrary: chain) (auto simp: Let_def dec_octets xor_octets_twice)

text \<open>Chaining is undone, octet for octet, and a rest that is no whole block is refused.\<close>

lemma cbc_roundtrip:
  assumes "ok k" and "length p mod 16 = 0"
  shows "\<exists>t u out out'. cbc_loop (enc k) iv (new_stream p) (new_stream []) = Some (None, t, out) \<and>
    length (data out) = length p \<and>
    inverse_cbc_loop (dec k) iv (new_stream (data out)) (new_stream []) = Some (None, u, out') \<and> data out' = p"
proof -
  obtain ps r where p: "p = concat ps @ r" "\<forall>p \<in> set ps. length p = 16" "length r = length p mod 16"
    "length ps = length p div 16" by (rule split_blocks)
  then have r: "r = []" using assms(2) by simp
  let ?cs = "cbc_blocks (enc k) iv ps"
  have rest: "rest (new_stream p) = concat ps @ []" using p(1) r by simp
  obtain t where t: "cbc_loop (enc k) iv (new_stream p) (new_stream []) = Some (None, t, append (concat ?cs) (new_stream []))"
    using cbc_loop_ok [OF readable_new rest p(2) _ appending_new, of "enc k" iv] by auto
  have rest': "rest (new_stream (concat ?cs)) = concat ?cs @ []" by simp
  have cs: "\<forall>c \<in> set ?cs. length c = 16" using cbc_blocks_length [OF assms(1)] by blast
  obtain u where "inverse_cbc_loop (dec k) iv (new_stream (concat ?cs)) (new_stream []) =
      Some (None, u, append (concat ps) (new_stream []))"
    using inverse_cbc_loop_ok [OF readable_new rest' cs _ appending_new, of "dec k" iv]
      inverse_cbc_blocks [OF assms(1) p(2)] by auto
  moreover have "length (concat ?cs) = length p"
    using cbc_blocks_length [OF assms(1), of iv ps] p(4) assms(2) by (simp add: mod_0_imp_dvd)
  ultimately show ?thesis using t p(1) r by simp
qed

lemma cbc_refuses:
  assumes "ok k" and "length p mod 16 \<noteq> 0"
  shows "\<exists>t out. cbc_loop (enc k) iv (new_stream p) (new_stream []) = Some (Some whole_blocks, t, out) \<and>
    length (data out) = 16 * (length p div 16)"
proof -
  obtain ps r where p: "p = concat ps @ r" "\<forall>p \<in> set ps. length p = 16" "length r = length p mod 16"
    "length ps = length p div 16" by (rule split_blocks)
  have r: "r \<noteq> []" "length r < 16" using assms(2) p(3) by auto
  have rest: "rest (new_stream p) = concat ps @ r" using p(1) by simp
  obtain t where "cbc_loop (enc k) iv (new_stream p) (new_stream []) =
      Some (Some whole_blocks, t, append (concat (cbc_blocks (enc k) iv ps)) (new_stream []))"
    using cbc_loop_ok [OF readable_new rest p(2) r(2) appending_new, of "enc k" iv] r(1) by auto
  then show ?thesis using cbc_blocks_length [OF assms(1), of iv ps] p(4) by simp
qed

text \<open>The code book gives back the text, then the zeros that filled the last block, which is a whole block
  of zeros when there was nothing to fill, and then one block deciphered from nothing.\<close>

lemma ecb_roundtrip:
  assumes "ok k"
  shows "\<exists>t u out out'. ecb_loop (enc k) (new_stream p) (new_stream []) = Some (t, out) \<and>
    length (data out) = 16 * (length p div 16 + 1) \<and>
    ecb_loop (dec k) (new_stream (data out)) (new_stream []) = Some (u, out') \<and>
    data out' = p @ replicate (16 - length p mod 16) 0 @ octets_of (dec k (block_of (replicate 16 0)))"
proof -
  obtain ps r where p: "p = concat ps @ r" "\<forall>p \<in> set ps. length p = 16" "length r = length p mod 16"
    "length ps = length p div 16" by (rule split_blocks)
  have r: "length r < 16" using p(3) by simp
  let ?qs = "ps @ [r @ replicate (16 - length r) 0]"
  let ?cs = "map (\<lambda>p. octets_of (enc k (block_of p))) ?qs"
  have q: "\<forall>q \<in> set ?qs. length q = 16" using p(2) r by auto
  then have c: "\<forall>c \<in> set ?cs. length c = 16" using enc_octets [OF assms] by auto
  have undo: "map (\<lambda>p. octets_of (dec k (block_of p))) ?cs = ?qs"
    unfolding map_map
  proof (rule map_idI)
    fix x assume "x \<in> set ?qs"
    then have "length x = 16" using q by blast
    then show "((\<lambda>p. octets_of (dec k (block_of p))) \<circ> (\<lambda>p. octets_of (enc k (block_of p)))) x = x"
      by (simp only: o_apply dec_octets [OF assms])
  qed
  have rest: "rest (new_stream p) = concat ps @ r" using p(1) by simp
  define out where "out = append (concat ?cs) (new_stream [])"
  then have d: "data out = concat ?cs" by simp
  obtain t where t: "ecb_loop (enc k) (new_stream p) (new_stream []) = Some (t, out)"
    using ecb_loop_ok [OF readable_new rest p(2) r appending_new, of "enc k"] by (auto simp: ecb_blocks_def out_def)
  have len: "length (data out) = 16 * (length p div 16 + 1)"
    unfolding d length_blocks [OF c] length_map length_append p(4) by simp
  define out' where "out' = append (concat ?qs @ octets_of (dec k (block_of (replicate 16 0)))) (new_stream [])"
  have rest': "rest (new_stream (data out)) = concat ?cs @ []" by (simp add: d)
  obtain u where u: "ecb_loop (dec k) (new_stream (data out)) (new_stream []) = Some (u, out')"
    using ecb_loop_ok [OF readable_new rest' c _ appending_new, of "dec k"] undo
    by (simp only: ecb_blocks_def map_append concat_append out'_def) auto
  have "data out' = p @ replicate (16 - length p mod 16) 0 @ octets_of (dec k (block_of (replicate 16 0)))"
    unfolding out'_def p(3) [symmetric] by (simp add: p(1))
  with t len u show ?thesis by blast
qed

end

section \<open>The three instances\<close>

definition key_ok :: "nat \<Rightarrow> aes_word list \<Rightarrow> bool" where
  "key_ok Nk key \<longleftrightarrow> length key = Nk \<and> (\<forall>v \<in> set key. length v = WORD_SIZE)"

lemma aes_cipher:
  assumes "Nk \<le> Nb * (Nr + 1)"
  shows "block_cipher (\<lambda>key b. Cipher Nr b (KeyExpansion Nk Nr key))
    (\<lambda>key b. InverseCipher Nr b (KeyExpansion Nk Nr key)) (key_ok Nk)"
proof
  fix key b assume "key_ok Nk key" and b: "wf_block b"
  then have "wf_schedule Nr (KeyExpansion Nk Nr key)" using wf_KeyExpansion assms by (simp add: key_ok_def)
  then show "wf_block (Cipher Nr b (KeyExpansion Nk Nr key))"
    "InverseCipher Nr (Cipher Nr b (KeyExpansion Nk Nr key)) (KeyExpansion Nk Nr key) = b"
    using wf_Cipher InverseCipher_Cipher b by blast+
qed

interpretation aes128: block_cipher "\<lambda>key b. Cipher 10 b (KeyExpansion 4 10 key)"
  "\<lambda>key b. InverseCipher 10 b (KeyExpansion 4 10 key)" "key_ok 4"
  by (rule aes_cipher) (simp add: Nb_def)

interpretation aes192: block_cipher "\<lambda>key b. Cipher 12 b (KeyExpansion 6 12 key)"
  "\<lambda>key b. InverseCipher 12 b (KeyExpansion 6 12 key)" "key_ok 6"
  by (rule aes_cipher) (simp add: Nb_def)

interpretation aes256: block_cipher "\<lambda>key b. Cipher 14 b (KeyExpansion 8 14 key)"
  "\<lambda>key b. InverseCipher 14 b (KeyExpansion 8 14 key)" "key_ok 8"
  by (rule aes_cipher) (simp add: Nb_def)

section \<open>Properties\<close>

text \<open>The instances of the template: AES-128, AES-192 and AES-256.\<close>

definition aes_sizes :: "(nat \<times> nat) set" where
  "aes_sizes = {(4, 10), (6, 12), (8, 14)}"

lemma aes_sizes_cases:
  assumes "(Nk, Nr) \<in> aes_sizes"
  obtains "Nk = 4" "Nr = 10" | "Nk = 6" "Nr = 12" | "Nk = 8" "Nr = 14"
  using assms by (auto simp: aes_sizes_def)

text \<open>The inverse cipher deciphers what the cipher enciphered, for every key and block of the three key
  sizes, and a block stays four words of four octets.\<close>

theorem aes_inverse:
  assumes "(Nk, Nr) \<in> aes_sizes" and "key_ok Nk key" and "wf_block b"
  shows "InverseCipher Nr (Cipher Nr b (KeyExpansion Nk Nr key)) (KeyExpansion Nk Nr key) = b \<and>
    wf_block (Cipher Nr b (KeyExpansion Nk Nr key))"
  using assms aes128.dec_enc aes192.dec_enc aes256.dec_enc aes128.enc_wf aes192.enc_wf aes256.enc_wf
  by (auto simp: aes_sizes_def)



text \<open>C9. Chained blocks decipher to the text they were enciphered from, under any initial vector, and the
  cipher text is as long as the text.\<close>

theorem aes_cbc_roundtrip:
  assumes "(Nk, Nr) \<in> aes_sizes" and "key_ok Nk key" and "length p mod 16 = 0"
  shows "\<exists>t u out out'.
    CipherCBC Nr (new_stream p) (KeyExpansion Nk Nr key) iv (new_stream []) = Some (None, t, out) \<and>
    length (data out) = length p \<and>
    InverseCipherCBC Nr (new_stream (data out)) (KeyExpansion Nk Nr key) iv (new_stream []) = Some (None, u, out') \<and>
    data out' = p"
proof (cases rule: aes_sizes_cases [OF assms(1)])
  case 1
  show ?thesis unfolding 1 CipherCBC_def InverseCipherCBC_def by (rule aes128.cbc_roundtrip) (use assms 1 in simp_all)
next
  case 2
  show ?thesis unfolding 2 CipherCBC_def InverseCipherCBC_def by (rule aes192.cbc_roundtrip) (use assms 2 in simp_all)
next
  case 3
  show ?thesis unfolding 3 CipherCBC_def InverseCipherCBC_def by (rule aes256.cbc_roundtrip) (use assms 3 in simp_all)
qed

theorem aes_cbc_roundtrip_witness:
  "\<exists>t u out out'.
    CipherCBC 10 (new_stream (replicate 32 7)) (KeyExpansion 4 10 (replicate 4 [5, 6, 7, 8])) (replicate 16 1)
      (new_stream []) = Some (None, t, out) \<and>
    length (data out) = length (replicate 32 (7 :: byte)) \<and>
    InverseCipherCBC 10 (new_stream (data out)) (KeyExpansion 4 10 (replicate 4 [5, 6, 7, 8])) (replicate 16 1)
      (new_stream []) = Some (None, u, out') \<and>
    data out' = replicate 32 7"
  by (rule aes_cbc_roundtrip) (simp_all add: aes_sizes_def key_ok_def WORD_SIZE_def)

text \<open>A text that is not a whole number of blocks is refused with an exception, after the whole blocks
  in front have been written.\<close>

theorem aes_cbc_refuses:
  assumes "(Nk, Nr) \<in> aes_sizes" and "key_ok Nk key" and "length p mod 16 \<noteq> 0"
  shows "\<exists>t out. CipherCBC Nr (new_stream p) (KeyExpansion Nk Nr key) iv (new_stream []) =
    Some (Some (CryptographyException ''cipher block chaining needs whole blocks''), t, out) \<and>
    length (data out) = 16 * (length p div 16)"
proof (cases rule: aes_sizes_cases [OF assms(1)])
  case 1
  show ?thesis unfolding 1 CipherCBC_def whole_blocks_def [symmetric] by (rule aes128.cbc_refuses) (use assms 1 in simp_all)
next
  case 2
  show ?thesis unfolding 2 CipherCBC_def whole_blocks_def [symmetric] by (rule aes192.cbc_refuses) (use assms 2 in simp_all)
next
  case 3
  show ?thesis unfolding 3 CipherCBC_def whole_blocks_def [symmetric] by (rule aes256.cbc_refuses) (use assms 3 in simp_all)
qed

text \<open>The code book loop runs until \<open>eof()\<close>, so it enciphers one block after the last whole one in every
  case: a text of whole blocks grows by a block of zeros, and deciphering adds one block of noise more.\<close>

theorem aes_ecb_grows:
  assumes "(Nk, Nr) \<in> aes_sizes" and "key_ok Nk key"
  shows "\<exists>t u out out'.
    Cipher_stream Nr (new_stream p) (KeyExpansion Nk Nr key) (new_stream []) = Some (t, out) \<and>
    length (data out) = 16 * (length p div 16 + 1) \<and>
    InverseCipher_stream Nr (new_stream (data out)) (KeyExpansion Nk Nr key) (new_stream []) = Some (u, out') \<and>
    data out' = p @ replicate (16 - length p mod 16) 0 @
      octets_of (InverseCipher Nr (block_of (replicate 16 0)) (KeyExpansion Nk Nr key))"
proof (cases rule: aes_sizes_cases [OF assms(1)])
  case 1
  show ?thesis unfolding 1 Cipher_stream_def InverseCipher_stream_def by (rule aes128.ecb_roundtrip) (use assms 1 in simp_all)
next
  case 2
  show ?thesis unfolding 2 Cipher_stream_def InverseCipher_stream_def by (rule aes192.ecb_roundtrip) (use assms 2 in simp_all)
next
  case 3
  show ?thesis unfolding 3 Cipher_stream_def InverseCipher_stream_def by (rule aes256.ecb_roundtrip) (use assms 3 in simp_all)
qed

end
