(* ===== verification/Utility.thy ===== *)
theory Utility
  imports Byte_Order
begin

text \<open>
  \<open>Core/utility.cpp\<close>: strings, byte order and randomness. A \<open>std::string\<close> is a list of characters, a
  \<open>std::vector\<close> a list; \<open>npos\<close> is \<open>None\<close>. What the operating system answers is a parameter: the
  environment and the files of \<open>config_path\<close>, the reads of \<open>random_bytes\<close>. The functions that only
  ask it (\<open>os_name\<close>, \<open>user_home\<close>, files and directories, the calendar, \<open>generate_id\<close>) are not modelled.
\<close>

section \<open>Searching\<close>

definition util_in :: "char \<Rightarrow> string \<Rightarrow> bool" where
  "util_in ch s \<longleftrightarrow> ch \<in> set s"

text \<open>\<open>find_first_not_of\<close>, \<open>find_last_not_of\<close> and \<open>find(pattern, from)\<close>.\<close>

fun first_not :: "char \<Rightarrow> string \<Rightarrow> nat option" where
  "first_not c [] = None"
| "first_not c (x # xs) = (if x = c then map_option Suc (first_not c xs) else Some 0)"

definition last_not :: "char \<Rightarrow> string \<Rightarrow> nat option" where
  "last_not c s = map_option (\<lambda>i. length s - 1 - i) (first_not c (rev s))"

fun starts_with :: "string \<Rightarrow> string \<Rightarrow> bool" where
  "starts_with [] s = True"
| "starts_with (p # ps) [] = False"
| "starts_with (p # ps) (x # xs) = (p = x \<and> starts_with ps xs)"

fun find_in :: "string \<Rightarrow> string \<Rightarrow> nat option" where
  "find_in p [] = (if p = [] then Some 0 else None)"
| "find_in p (x # xs) = (if starts_with p (x # xs) then Some 0 else map_option Suc (find_in p xs))"

definition find_from :: "string \<Rightarrow> string \<Rightarrow> nat \<Rightarrow> nat option" where
  "find_from p s from = (if from \<le> length s then map_option (\<lambda>i. i + from) (find_in p (drop from s)) else None)"

definition substr :: "string \<Rightarrow> nat \<Rightarrow> nat \<Rightarrow> string" where
  "substr s pos n = take n (drop pos s)"

section \<open>Trimming, splitting, padding\<close>

definition trim_left :: "string \<Rightarrow> char \<Rightarrow> string" where
  "trim_left str chr =
     (case first_not chr str of
        None \<Rightarrow> str
      | Some first \<Rightarrow> substr str first (length str - first + 1))"

text \<open>\<open>npos + 1\<close> is 0.\<close>

definition trim_right :: "string \<Rightarrow> char \<Rightarrow> string" where
  "trim_right str chr = substr str 0 (case last_not chr str of None \<Rightarrow> 0 | Some pos \<Rightarrow> pos + 1)"

definition trim :: "string \<Rightarrow> char \<Rightarrow> string" where
  "trim str chr =
     (case first_not chr str of
        None \<Rightarrow> []
      | Some first \<Rightarrow> (case last_not chr str of None \<Rightarrow> [] | Some pos \<Rightarrow> substr str first (pos - first + 1)))"

definition split_chars :: "string \<Rightarrow> string list" where
  "split_chars s = map (\<lambda>ch. [ch]) s"

fun split_loop :: "string \<Rightarrow> char \<Rightarrow> string \<Rightarrow> string list \<Rightarrow> string list" where
  "split_loop [] delim tmp splits = splits @ [tmp]"
| "split_loop (ch # cs) delim tmp splits =
     (if ch = delim then split_loop cs delim [] (splits @ [tmp]) else split_loop cs delim (tmp @ [ch]) splits)"

definition split :: "string \<Rightarrow> char \<Rightarrow> string list" where
  "split s delim = split_loop s delim [] []"

text \<open>\<open>std::tolower\<close> and \<open>std::toupper\<close> in the C locale.\<close>

definition lower_char :: "char \<Rightarrow> char" where
  "lower_char c = (if (65 :: nat) \<le> of_char c \<and> of_char c \<le> (90 :: nat) then char_of (of_char c + 32 :: nat) else c)"

definition upper_char :: "char \<Rightarrow> char" where
  "upper_char c = (if (97 :: nat) \<le> of_char c \<and> of_char c \<le> (122 :: nat) then char_of (of_char c - 32 :: nat) else c)"

definition to_lower :: "string \<Rightarrow> string" where
  "to_lower s = fold (\<lambda>c result. result @ [lower_char c]) s []"

definition to_upper :: "string \<Rightarrow> string" where
  "to_upper s = fold (\<lambda>c result. result @ [upper_char c]) s []"

definition pad_left :: "string \<Rightarrow> nat \<Rightarrow> char \<Rightarrow> string" where
  "pad_left word count ch =
     (if count < length word then word else replicate (count - length word) ch @ word)"

definition pad_right :: "string \<Rightarrow> nat \<Rightarrow> char \<Rightarrow> string" where
  "pad_right word count ch =
     (if count < length word then word else word @ replicate (count - length word) ch)"

section \<open>Where the configuration is\<close>

text \<open>\<open>env\<close> is the environment (an unset variable is empty), \<open>home\<close> the user's directory, \<open>exists\<close> whether
  a file opens.\<close>

definition with_slash :: "string \<Rightarrow> string" where
  "with_slash p = (if last p \<noteq> CHR ''/'' then p @ ''/'' else p)"

definition config_path :: "(string \<Rightarrow> string) \<Rightarrow> string \<Rightarrow> (string \<Rightarrow> bool) \<Rightarrow> string \<Rightarrow> string" where
  "config_path env home exists conf_name =
     (let system = (let etc_path = ''/etc/ZiguratIP/'' in
                    if exists (etc_path @ conf_name) then etc_path @ conf_name else []);
          user = (if length home > 0 then
                    (let user_home_path = with_slash home @ ''ZiguratIP/'' in
                     if exists (user_home_path @ ''etc/'' @ conf_name)
                     then user_home_path @ ''etc/'' @ conf_name else system)
                  else system);
          zigurat_home_path = env ''ZIGURATIP_HOME''
      in if length zigurat_home_path > 0 then
           (let zigurat_home_path = with_slash zigurat_home_path in
            if exists (zigurat_home_path @ ''etc/'' @ conf_name)
            then zigurat_home_path @ ''etc/'' @ conf_name else user)
         else user)"

section \<open>Octets\<close>

definition hex_alphabet :: string where "hex_alphabet = ''0123456789abcdef''"

definition octet_as_hex :: "byte list \<Rightarrow> string" where
  "octet_as_hex octet =
     for_loop (length octet)
       (\<lambda>i hex_string. hex_string
          [2 * i := hex_alphabet ! (unat (octet ! i) div 16),
           (2 * i) + 1 := hex_alphabet ! (unat (octet ! i) mod 16)])
       (replicate (length octet * 2) CHR ''0'')"

definition htons :: "bool \<Rightarrow> 16 word \<Rightarrow> 16 word" where
  "htons big d =
     (if host_is_big_endian big then d
      else push_bit 8 (d AND 0x00FF) OR drop_bit 8 (d AND 0xFF00))"

definition ntohs :: "bool \<Rightarrow> 16 word \<Rightarrow> 16 word" where
  "ntohs big d = htons big d"

definition htonl :: "bool \<Rightarrow> 32 word \<Rightarrow> 32 word" where
  "htonl big d =
     (if host_is_big_endian big then d
      else push_bit 24 (d AND 0x000000FF) OR push_bit 8 (d AND 0x0000FF00) OR
           drop_bit 8 (d AND 0x00FF0000) OR drop_bit 24 (d AND 0xFF000000))"

definition ntohl :: "bool \<Rightarrow> 32 word \<Rightarrow> 32 word" where
  "ntohl big d = htonl big d"

definition htonll :: "bool \<Rightarrow> u64 \<Rightarrow> u64" where
  "htonll big d =
     (if host_is_big_endian big then d
      else push_bit 32 (ucast (htonl big (ucast (d AND 0xFFFFFFFF)))) OR
           ucast (htonl big (ucast (drop_bit 32 d))))"

definition ntohll :: "bool \<Rightarrow> u64 \<Rightarrow> u64" where
  "ntohll big d = htonll big d"

section \<open>Randomness\<close>

text \<open>What a system call answers: octets (at most as many as asked for), \<open>EINTR\<close>, or another failure, an
  end of file included. \<open>sysread t n\<close> is the answer to the \<open>t\<close>-th read, of \<open>n\<close> octets.\<close>

datatype os_answer = Octets "byte list" | Interrupted | Failed

definition read_failed :: exn where "read_failed = ZiguratException 1 ''short read from /dev/urandom''"

partial_function (option) random_loop ::
  "(nat \<Rightarrow> nat \<Rightarrow> os_answer) \<Rightarrow> nat \<Rightarrow> nat \<Rightarrow> byte list \<Rightarrow> byte list run" where
  "random_loop sysread len t out =
     (if length out < len then
        (case sysread t (len - length out) of
           Octets bs \<Rightarrow> (if bs \<noteq> [] then random_loop sysread len (t + 1) (out @ bs) else throw read_failed)
         | Interrupted \<Rightarrow> random_loop sysread len (t + 1) out
         | Failed \<Rightarrow> throw read_failed)
      else ret out)"

text \<open>The descriptor is held open for the life of the thread; \<open>sysopen t\<close> answers the \<open>t\<close>-th attempt.\<close>

datatype open_answer = Opened | Open_interrupted | Open_failed

partial_function (option) open_loop :: "(nat \<Rightarrow> open_answer) \<Rightarrow> nat \<Rightarrow> bool run" where
  "open_loop sysopen t =
     (case sysopen t of
        Opened \<Rightarrow> ret True
      | Open_interrupted \<Rightarrow> open_loop sysopen (t + 1)
      | Open_failed \<Rightarrow> ret False)"

definition random_bytes ::
  "(nat \<Rightarrow> open_answer) \<Rightarrow> (nat \<Rightarrow> nat \<Rightarrow> os_answer) \<Rightarrow> bool \<Rightarrow> bool \<Rightarrow> nat \<Rightarrow> (byte list \<times> bool) run" where
  "random_bytes sysopen sysread fd destination len =
     (if len = 0 then ret ([], fd)
      else if \<not> destination then throw (ZiguratException 1 ''random_bytes called with no destination'')
      else bind_run (if fd then ret True else open_loop sysopen 0) (\<lambda>fd.
        if \<not> fd then throw (ZiguratException 1 ''cannot open /dev/urandom'')
        else bind_run (random_loop sysread len 0 []) (\<lambda>out. ret (out, fd))))"

definition random_uint64 ::
  "bool \<Rightarrow> (nat \<Rightarrow> open_answer) \<Rightarrow> (nat \<Rightarrow> nat \<Rightarrow> os_answer) \<Rightarrow> bool \<Rightarrow> (u64 \<times> bool) run" where
  "random_uint64 big sysopen sysread fd =
     bind_run (random_bytes sysopen sysread fd True 8) (\<lambda>(value, fd). ret (load big value, fd))"

section \<open>HTML\<close>

definition html_char :: "char \<Rightarrow> string" where
  "html_char c =
     (if c = CHR ''&'' then ''&amp;''
      else if c = CHR ''<'' then ''&lt;''
      else if c = CHR ''>'' then ''&gt;''
      else if c = CHR 0x22 then ''&quot;''
      else if c = CHR 0x27 then ''&#39;''
      else [c])"

definition escape_html :: "string \<Rightarrow> string" where
  "escape_html text = fold (\<lambda>c safe. safe @ html_char c) text []"

section \<open>Trimming\<close>

abbreviation blank_prefix :: "char \<Rightarrow> string \<Rightarrow> string" where
  "blank_prefix c s \<equiv> takeWhile (\<lambda>x. x = c) s"

abbreviation strip_left :: "char \<Rightarrow> string \<Rightarrow> string" where
  "strip_left c s \<equiv> dropWhile (\<lambda>x. x = c) s"

definition strip :: "char \<Rightarrow> string \<Rightarrow> string" where
  "strip c s = rev (strip_left c (rev (strip_left c s)))"

lemma first_not_takeWhile:
  "first_not c s = (if set s \<subseteq> {c} then None else Some (length (blank_prefix c s)))"
  by (induction s) auto

lemma last_not_takeWhile:
  "last_not c s = (if set s \<subseteq> {c} then None else Some (length s - 1 - length (blank_prefix c (rev s))))"
  by (simp add: last_not_def first_not_takeWhile)

lemma drop_blank: "drop (length (blank_prefix c s)) s = strip_left c s"
  by (simp add: dropWhile_eq_drop)

lemma rev_strip: "rev (strip_left c (rev s)) = take (length s - length (blank_prefix c (rev s))) s"
  by (simp add: dropWhile_eq_drop rev_drop)

lemma blank_less: "\<not> set s \<subseteq> {c} \<Longrightarrow> length (blank_prefix c s) < length s"
  by (induction s) auto

lemma trim_left_strip: "trim_left s c = (if set s \<subseteq> {c} then s else strip_left c s)"
  by (simp add: trim_left_def first_not_takeWhile substr_def flip: drop_blank)

lemma trim_right_strip: "trim_right s c = rev (strip_left c (rev s))"
proof (cases "set s \<subseteq> {c}")
  case True
  then have "strip_left c (rev s) = []" unfolding dropWhile_eq_Nil_conv by auto
  then show ?thesis using True by (simp add: trim_right_def last_not_takeWhile substr_def)
next
  case False
  then have "length (blank_prefix c (rev s)) < length s" using blank_less [of "rev s" c] by simp
  then have "Suc (length s - Suc (length (blank_prefix c (rev s)))) = length s - length (blank_prefix c (rev s))"
    by linarith
  then show ?thesis using False by (simp add: trim_right_def last_not_takeWhile substr_def rev_strip)
qed

lemma trim_strip: "trim s c = strip c s"
proof (cases "set s \<subseteq> {c}")
  case True
  then have "strip_left c s = []" unfolding dropWhile_eq_Nil_conv by auto
  then have "strip c s = []" by (simp only: strip_def rev.simps dropWhile.simps)
  then show ?thesis using True by (simp add: trim_def first_not_takeWhile)
next
  case False
  let ?a = "length (blank_prefix c s)" and ?d = "strip_left c s" and ?b = "length (blank_prefix c (rev s))"
  have s: "s = blank_prefix c s @ ?d" by simp
  have d: "\<not> set ?d \<subseteq> {c}"
  proof
    assume "set ?d \<subseteq> {c}"
    moreover have "set (blank_prefix c s) \<subseteq> {c}" by (auto dest: set_takeWhileD)
    ultimately have "set s \<subseteq> {c}" by (subst s) (simp only: set_append Un_subset_iff)
    then show False using False by simp
  qed
  then obtain x where x: "x \<in> set (rev ?d)" "x \<noteq> c" by auto
  have "rev s = rev ?d @ rev (blank_prefix c s)" by (subst s) (simp only: rev_append)
  then have b: "blank_prefix c (rev s) = blank_prefix c (rev ?d)"
    using takeWhile_append1 [OF x(1), of "\<lambda>x. x = c"] x(2) by simp
  have len: "length ?d = length s - ?a" by (simp add: dropWhile_eq_drop)
  have lt: "?b < length ?d" using blank_less [of "rev ?d" c] d b by simp
  then have n: "Suc (length s - Suc ?b - ?a) = length ?d - ?b" unfolding len by linarith
  show ?thesis
    using False n by (simp add: trim_def first_not_takeWhile last_not_takeWhile substr_def drop_blank strip_def
      rev_strip [of c ?d] b)
qed

section \<open>Splitting\<close>

fun join :: "char \<Rightarrow> string list \<Rightarrow> string" where
  "join d [] = []"
| "join d [x] = x"
| "join d (x # y # zs) = x @ d # join d (y # zs)"

lemma join_snoc: "xs \<noteq> [] \<Longrightarrow> join d (xs @ [y]) = join d xs @ d # y"
  by (induction xs rule: join.induct) simp_all

lemma join_last: "join d (xs @ [tmp @ u]) = join d (xs @ [tmp]) @ u"
  by (cases "xs = []") (simp_all add: join_snoc)

lemma split_loop_join: "join d (split_loop s d tmp splits) = join d (splits @ [tmp]) @ s"
proof (induction s d tmp splits rule: split_loop.induct)
  case (2 ch cs delim tmp splits)
  then show ?case
    using join_snoc [of "splits @ [tmp]" delim "[]"] join_last [of delim splits tmp "[ch]"] by simp
qed simp

lemma split_loop_clean:
  "\<forall>x \<in> set splits. d \<notin> set x \<Longrightarrow> d \<notin> set tmp \<Longrightarrow> \<forall>x \<in> set (split_loop s d tmp splits). d \<notin> set x"
  by (induction s d tmp splits rule: split_loop.induct) auto

lemma split_loop_not_nil: "split_loop s d tmp splits \<noteq> []"
  by (induction s d tmp splits rule: split_loop.induct) simp_all

section \<open>Case\<close>

lemma fold_snoc: "fold (\<lambda>c r. r @ f c) s r = r @ concat (map f s)"
  by (induction s arbitrary: r) simp_all

lemma to_upper_map: "to_upper s = map upper_char s"
  using fold_snoc [of "\<lambda>c. [upper_char c]" s "[]"] by (simp add: to_upper_def)

lemma to_lower_map: "to_lower s = map lower_char s"
  using fold_snoc [of "\<lambda>c. [lower_char c]" s "[]"] by (simp add: to_lower_def)

lemma escape_html_concat: "escape_html s = concat (map html_char s)"
  using fold_snoc [of html_char s "[]"] by (simp add: escape_html_def)

lemma html_char_safe: "set (html_char c) \<inter> {CHR ''<'', CHR ''>'', CHR 0x22, CHR 0x27} = {}"
  by (simp add: html_char_def)

lemma html_char_unique: "html_char x @ r = html_char y @ s \<Longrightarrow> x = y \<and> r = s"
  by (auto simp: html_char_def split: if_splits)

lemma escape_html_inj: "escape_html s = escape_html t \<Longrightarrow> s = t"
proof (induction s arbitrary: t)
  case Nil
  then show ?case by (cases t) (auto simp: escape_html_concat html_char_def split: if_splits)
next
  case (Cons c s)
  then obtain d u where t: "t = d # u" by (cases t) (auto simp: escape_html_concat html_char_def split: if_splits)
  then have "html_char c @ escape_html s = html_char d @ escape_html u"
    using Cons.prems by (simp add: escape_html_concat)
  then show ?case using html_char_unique Cons.IH t by blast
qed

section \<open>Byte order\<close>

text \<open>The octet \<open>k\<close> of a word, as a mask and as a range of its bits.\<close>

lemma bit_octet_mask: "bit (w AND push_bit k (mask 8)) n \<longleftrightarrow> bit (w :: 'a::len word) n \<and> k \<le> n \<and> n < k + 8"
  using bit_imp_le_length [of w n] by (auto simp: bit_and_iff bit_push_bit_iff bit_mask_iff)

lemma bit_octet_mask0: "bit (w AND mask 8) n \<longleftrightarrow> bit (w :: 'a::len word) n \<and> n < 8"
  using bit_octet_mask [of w 0 n] by simp

lemma bit_byte_at: "bit (byte_at k w) n \<longleftrightarrow> n < 8 \<and> bit w (k + n)"
  by (auto simp: byte_at_def bit_ucast_iff bit_drop_bit_eq)

lemma bit_left: "bit (push_bit k (w :: 'a::len word)) n \<longleftrightarrow> k \<le> n \<and> n < LENGTH('a) \<and> bit w (n - k)"
  by (auto simp: bit_push_bit_iff)

lemmas word_bits = o_apply bit_or_iff bit_left bit_drop_bit_eq bit_octet_mask bit_octet_mask0 bit_byte_at

lemma htons_bits: "htons False d = push_bit 8 (d AND mask 8) OR drop_bit 8 (d AND push_bit 8 (mask 8))"
  by (simp add: htons_def mask_eq_exp_minus_1)

lemma htonl_bits: "htonl False d =
    push_bit 24 (d AND mask 8) OR push_bit 8 (d AND push_bit 8 (mask 8)) OR
    drop_bit 8 (d AND push_bit 16 (mask 8)) OR drop_bit 24 (d AND push_bit 24 (mask 8))"
  by (simp add: htonl_def mask_eq_exp_minus_1)

lemma byte_at_eqI: "(\<And>n. n < 8 \<Longrightarrow> bit v (j + n) \<longleftrightarrow> bit w (k + n)) \<Longrightarrow> byte_at j v = byte_at k w"
  by (rule bit_word_eqI) (auto simp: bit_byte_at)

lemma htons_octets: "be_octets 2 (htons False d) = rev (be_octets 2 d)"
proof -
  have "byte_at 8 (htons False d) = byte_at 0 d" "byte_at 0 (htons False d) = byte_at 8 d"
    by (rule byte_at_eqI, simp only: htons_bits word_bits, auto simp add: add.commute dest: bit_imp_le_length)+
  then show ?thesis by simp
qed

lemma htonl_octets: "be_octets 4 (htonl False d) = rev (be_octets 4 d)"
proof -
  have "byte_at 24 (htonl False d) = byte_at 0 d" "byte_at 16 (htonl False d) = byte_at 8 d"
    "byte_at 8 (htonl False d) = byte_at 16 d" "byte_at 0 (htonl False d) = byte_at 24 d"
    by (rule byte_at_eqI, simp only: htonl_bits word_bits, auto simp add: add.commute dest: bit_imp_le_length)+
  then show ?thesis by simp
qed

lemma htonll_octets: "be_octets 8 (htonll False d) = rev (be_octets 8 d)"
proof -
  let ?lo = "ucast (d AND 0xFFFFFFFF) :: 32 word" and ?hi = "ucast (drop_bit 32 d) :: 32 word"
  have m: "(0xFFFFFFFF :: u64) = mask 32" by (simp add: mask_eq_exp_minus_1)
  have e: "htonll False d = push_bit 32 (ucast (htonl False ?lo)) OR ucast (htonl False ?hi)"
    by (simp add: htonll_def)
  have hi: "byte_at (32 + j) (htonll False d) = byte_at j (htonl False ?lo)" if "j \<le> 24" for j
    by (rule byte_at_eqI, simp only: e word_bits bit_ucast_iff) (use that in \<open>auto dest: bit_imp_le_length\<close>)
  have lo: "byte_at j (htonll False d) = byte_at j (htonl False ?hi)" if "j \<le> 24" for j
    by (rule byte_at_eqI, simp only: e word_bits bit_ucast_iff) (use that in \<open>auto dest: bit_imp_le_length\<close>)
  have l: "byte_at j ?lo = byte_at j d" if "j \<le> 24" for j
    by (rule byte_at_eqI, simp only: m bit_ucast_iff bit_and_iff bit_mask_iff) (use that in auto)
  have h: "byte_at j ?hi = byte_at (32 + j) d" if "j \<le> 24" for j
    by (rule byte_at_eqI, simp only: word_bits bit_ucast_iff) (use that in \<open>auto simp: add.assoc\<close>)
  have "be_octets 4 (htonl False ?lo) @ be_octets 4 (htonl False ?hi) = rev (be_octets 4 ?lo) @ rev (be_octets 4 ?hi)"
    by (simp only: htonl_octets)
  then show ?thesis
    using hi [of 0] hi [of 8] hi [of 16] hi [of 24] lo [of 0] lo [of 8] lo [of 16] lo [of 24]
      l [of 0] l [of 8] l [of 16] l [of 24] h [of 0] h [of 8] h [of 16] h [of 24]
    by simp
qed

lemma be_octets_inj:
  assumes "8 * n = LENGTH('a)" and "be_octets n v = be_octets n (w :: 'a::len word)"
  shows "v = w"
proof -
  have "(256 :: nat) ^ n = 2 ^ LENGTH('a)" by (simp add: power_mult flip: assms(1))
  then have "unat v = unat w"
    using arg_cong [OF assms(2), of be_val] unsigned_less [of v, where ?'a = nat] unsigned_less [of w, where ?'a = nat]
    by (simp only: be_val_be_octets_small)
  then show ?thesis by (simp only: word_unat_eq_iff)
qed

section \<open>Randomness\<close>

lemma bind_run_Some: "bind_run x f = Some r \<longleftrightarrow>
    (\<exists>e. x = Some (Inl e) \<and> r = Inl e) \<or> (\<exists>v. x = Some (Inr v) \<and> f v = Some r)"
  by (cases x) (auto simp: bind_run_def split: sum.splits)

definition full_or_failed :: "(nat \<Rightarrow> nat \<Rightarrow> os_answer) \<Rightarrow> nat \<Rightarrow> nat \<Rightarrow> byte list \<Rightarrow> byte list result \<Rightarrow> bool" where
  "full_or_failed sysread len t out r \<longleftrightarrow>
     (\<forall>t n bs. sysread t n = Octets bs \<longrightarrow> length bs \<le> n) \<longrightarrow> length out \<le> len \<longrightarrow>
     (case r of Inl e \<Rightarrow> e = read_failed | Inr bs \<Rightarrow> length bs = len)"

lemma random_loop_full:
  assumes "random_loop sysread len t out = Some r"
  shows "full_or_failed sysread len t out r"
proof (rule random_loop.raw_induct [where P = full_or_failed, OF _ assms])
  fix f sysread len t out r
  assume ih: "\<And>sysread len t out r. f sysread len t out = Some r \<Longrightarrow> full_or_failed sysread len t out r"
    and run: "(if length out < len
      then case sysread t (len - length out) of
             Octets bs \<Rightarrow> if bs \<noteq> [] then f sysread len (t + 1) (out @ bs) else throw read_failed
           | Interrupted \<Rightarrow> f sysread len (t + 1) out | Failed \<Rightarrow> throw read_failed
      else ret out) = Some r"
  show "full_or_failed sysread len t out r"
  proof (cases "length out < len")
    case False
    then show ?thesis using run by (auto simp: full_or_failed_def ret_def)
  next
    case True
    show ?thesis
    proof (cases "sysread t (len - length out)")
      case (Octets bs)
      then show ?thesis
        using run True ih [of sysread len "t + 1" "out @ bs" r]
        by (fastforce simp: full_or_failed_def throw_def split: if_splits)
    qed (use run True ih [of sysread len "t + 1" out r] in \<open>auto simp: full_or_failed_def throw_def\<close>)
  qed
qed

lemma random_loop_full':
  assumes "\<And>t n bs. sysread t n = Octets bs \<Longrightarrow> length bs \<le> n"
  shows "random_loop sysread len 0 [] = Some (Inl e) \<Longrightarrow> e = read_failed"
    and "random_loop sysread len 0 [] = Some (Inr bs) \<Longrightarrow> length bs = len"
  using random_loop_full [of sysread len 0 "[]"] assms by (fastforce simp: full_or_failed_def)+

lemma random_loop_returns:
  assumes "\<And>t n. 0 < n \<Longrightarrow> \<exists>bs. sysread t n = Octets bs \<and> bs \<noteq> [] \<and> length bs \<le> n" and "length out \<le> len"
  shows "\<exists>bs. random_loop sysread len t out = ret bs \<and> length bs = len"
  using assms(2)
proof (induction "len - length out" arbitrary: t out rule: less_induct)
  case less
  show ?case
  proof (cases "length out < len")
    case True
    then obtain bs where "sysread t (len - length out) = Octets bs" "bs \<noteq> []" "length bs \<le> len - length out"
      using assms(1) [of "len - length out" t] by auto
    then show ?thesis
      using less.hyps [of "out @ bs" "t + 1"] True by (subst random_loop.simps) (simp add: less_diff_conv)
  next
    case False
    then show ?thesis using less.prems by (subst random_loop.simps) simp
  qed
qed

lemma open_loop_no_throw:
  assumes "open_loop sysopen t = Some r"
  shows "isl r = False"
proof (rule open_loop.raw_induct [where P = "\<lambda>_ _ r. isl r = False", OF _ assms])
  fix f sysopen t r
  assume "\<And>sysopen t r. f sysopen t = Some r \<Longrightarrow> isl r = False"
    and "(case sysopen t of Opened \<Rightarrow> ret True | Open_interrupted \<Rightarrow> f sysopen (t + 1)
      | Open_failed \<Rightarrow> ret False) = Some r"
  then show "isl r = False" by (auto simp: ret_def split: open_answer.splits)
qed

lemma open_loop_returns: "(\<And>i. i < n \<Longrightarrow> sysopen (t + i) = Open_interrupted) \<Longrightarrow> sysopen (t + n) = Opened \<Longrightarrow>
    open_loop sysopen t = ret True"
proof (induction n arbitrary: t)
  case (Suc n)
  have "sysopen t = Open_interrupted" using Suc.prems(1) [of 0] by simp
  moreover have "open_loop sysopen (t + 1) = ret True"
    by (rule Suc.IH) (use Suc.prems(1) [of "Suc i" for i] Suc.prems(2) in simp_all)
  ultimately show ?case by (subst open_loop.simps) simp
qed (simp add: open_loop.simps)

section \<open>Properties\<close>

text \<open>\<open>trim\<close> and \<open>trim_right\<close> take the padding off both ends and off the right end. \<open>trim_left\<close> takes
  it off the left end, except that a string of nothing but padding comes back unchanged.\<close>

theorem trim_correct:
  "trim s c = rev (dropWhile (\<lambda>x. x = c) (rev (dropWhile (\<lambda>x. x = c) s))) \<and>
   trim_right s c = rev (dropWhile (\<lambda>x. x = c) (rev s)) \<and>
   trim_left s c = (if set s \<subseteq> {c} then s else dropWhile (\<lambda>x. x = c) s)"
  using trim_strip [of s c] trim_right_strip [of s c] trim_left_strip [of s c] by (simp only: strip_def)

text \<open>Splitting at a delimiter gives pieces free of it, and joining them with it gives the string back,
  leading, trailing and repeated delimiters included.\<close>

theorem split_join: "join d (split s d) = s \<and> list_all (\<lambda>piece. d \<notin> set piece) (split s d) \<and> split s d \<noteq> []"
  using split_loop_join [of d s "[]" "[]"] split_loop_clean [of "[]" d "[]" s] split_loop_not_nil [of s d]
  by (simp add: split_def list_all_iff)

text \<open>C14. Escaped text holds no angle bracket and no quote, so it cannot leave the attribute or the element it is
  put in; and no two texts are escaped to the same one.\<close>

theorem escape_html_safe:
  "set (escape_html s) \<inter> {CHR ''<'', CHR ''>'', CHR 0x22, CHR 0x27} = {} \<and> (escape_html s = escape_html t \<longleftrightarrow> s = t)"
  using html_char_safe escape_html_inj [of s t] by (auto simp: escape_html_concat)

text \<open>On a host of either byte order, the memory of a converted integer is the integer with its most
  significant octet first, and converting back gives the integer.\<close>

theorem network_order_conversion:
  "store big (htons big v) = be_octets 2 v \<and> ntohs big (htons big v) = v \<and>
   store big (htonl big w) = be_octets 4 w \<and> ntohl big (htonl big w) = w \<and>
   store big (htonll big x) = be_octets 8 x \<and> ntohll big (htonll big x) = x"
proof (cases big)
  case False
  have "htons False (htons False v) = v" by (rule be_octets_inj [of 2]) (simp_all only: htons_octets rev_rev_ident, simp)
  moreover have "htonl False (htonl False w) = w"
    by (rule be_octets_inj [of 4]) (simp_all only: htonl_octets rev_rev_ident, simp)
  moreover have "htonll False (htonll False x) = x"
    by (rule be_octets_inj [of 8]) (simp_all only: htonll_octets rev_rev_ident, simp)
  ultimately show ?thesis
    using False htons_octets [of v] htonl_octets [of w] htonll_octets [of x]
    by (simp add: store_def size_of_def ntohs_def ntohl_def ntohll_def del: be_octets_numeral)
qed (simp add: store_def size_of_def ntohs_def ntohl_def ntohll_def htons_def htonl_def htonll_def del: be_octets_numeral)

text \<open>\<open>random_bytes\<close> never returns with part of its destination unwritten: when it returns, all of it is
  filled, and every other outcome is one of its three exceptions. A device that opens and answers every read with at
  least one octet fills it.\<close>

theorem random_bytes_full:
  assumes "\<And>t n bs. sysread t n = Octets bs \<Longrightarrow> length bs \<le> n"
  shows "(\<forall>r. random_bytes sysopen sysread fd True len = Some r \<longrightarrow>
      (case r of Inl e \<Rightarrow> e \<in> {read_failed, ZiguratException 1 ''cannot open /dev/urandom''}
       | Inr (bs, _) \<Rightarrow> length bs = len)) \<and>
    ((\<forall>t n. 0 < n \<longrightarrow> (\<exists>bs. sysread t n = Octets bs \<and> bs \<noteq> [])) \<longrightarrow> fd \<or> sysopen 0 = Opened \<longrightarrow>
      (\<exists>bs fd'. random_bytes sysopen sysread fd True len = ret (bs, fd') \<and> length bs = len))"
proof (intro conjI allI impI)
  fix r
  assume "random_bytes sysopen sysread fd True len = Some r"
  then show "case r of Inl e \<Rightarrow> e \<in> {read_failed, ZiguratException 1 ''cannot open /dev/urandom''}
    | Inr (bs, _) \<Rightarrow> length bs = len"
    using random_loop_full' [of sysread len] open_loop_no_throw [of sysopen 0] assms
    by (auto simp: random_bytes_def bind_run_Some ret_def throw_def split: if_splits sum.splits)
next
  assume answers: "\<forall>t n. 0 < n \<longrightarrow> (\<exists>bs. sysread t n = Octets bs \<and> bs \<noteq> [])" and "fd \<or> sysopen 0 = Opened"
  then have "(if fd then ret True else open_loop sysopen 0) = ret True"
    using open_loop_returns [of 0 sysopen 0] by auto
  moreover have "\<exists>bs. sysread t n = Octets bs \<and> bs \<noteq> [] \<and> length bs \<le> n" if "0 < n" for t n
    using answers assms that by blast
  then obtain bs where "random_loop sysread len 0 [] = ret bs" "length bs = len"
    using random_loop_returns [of sysread "[]" len 0] by auto
  ultimately show "\<exists>bs fd'. random_bytes sysopen sysread fd True len = ret (bs, fd') \<and> length bs = len"
    by (cases "len = 0") (auto simp: random_bytes_def)
qed

end
