(* ===== verification/Permissions.thy ===== *)
theory Permissions
  imports Utility "HOL-Library.Sublist"
begin

text \<open>
  \<open>Compiler/globals.cpp\<close> and the connection scope of \<open>ziguratip/loadzigurat.cpp\<close>: who is at the other end of
  a thread's connection and what the peer may reach. The model holds the shared settings and a record per thread for
  the \<open>thread_local\<close> members; a pointer is an address or \<open>None\<close>. \<open>authority\<close> is the abstract specification.
\<close>

section \<open>The globals\<close>

datatype isolation_level = READ_UNCOMMITTED | READ_COMMITTED | REPEATABLE_READ | SNAPSHOT | SERIALIZABLE

record thread_globals =
  tg_client_stream :: "nat option"
  tg_echo_stream :: "nat option"
  tg_identified :: bool
  tg_peer_subject :: string
  tg_peer_permissions :: "string list"

record globals =
  g_reset_mode :: bool
  g_trace_mode :: bool
  g_permissions_mode :: bool
  g_default_autocommit_mode :: bool
  g_default_isolation_level :: isolation_level
  g_parser :: "nat option"
  g_compiler :: "nat option"
  g_threads :: "nat \<Rightarrow> thread_globals"

definition initial_thread :: thread_globals where
  "initial_thread = \<lparr>tg_client_stream = None, tg_echo_stream = None, tg_identified = False,
     tg_peer_subject = [], tg_peer_permissions = []\<rparr>"

definition initial_globals :: globals where
  "initial_globals = \<lparr>g_reset_mode = False, g_trace_mode = False, g_permissions_mode = False,
     g_default_autocommit_mode = False, g_default_isolation_level = READ_COMMITTED,
     g_parser = None, g_compiler = None, g_threads = (\<lambda>_. initial_thread)\<rparr>"

definition on_thread :: "nat \<Rightarrow> (thread_globals \<Rightarrow> thread_globals) \<Rightarrow> globals \<Rightarrow> globals" where
  "on_thread t f g = g\<lparr>g_threads := (g_threads g)(t := f (g_threads g t))\<rparr>"

section \<open>Reading and setting\<close>

definition reset_mode :: "globals \<Rightarrow> bool" where "reset_mode g = g_reset_mode g"
definition trace_mode :: "globals \<Rightarrow> bool" where "trace_mode g = g_trace_mode g"
definition permissions_mode :: "globals \<Rightarrow> bool" where "permissions_mode g = g_permissions_mode g"
definition default_autocommit_mode :: "globals \<Rightarrow> bool" where
  "default_autocommit_mode g = g_default_autocommit_mode g"
definition default_isolation_level :: "globals \<Rightarrow> isolation_level" where
  "default_isolation_level g = g_default_isolation_level g"

definition client_stream :: "globals \<Rightarrow> nat \<Rightarrow> nat run" where
  "client_stream g t =
     (case tg_client_stream (g_threads g t) of
        None \<Rightarrow> throw (ZiguratException 7802 ''no connection is bound to this thread'')
      | Some s \<Rightarrow> ret s)"

definition echo_stream :: "globals \<Rightarrow> nat \<Rightarrow> nat option" where
  "echo_stream g t = tg_echo_stream (g_threads g t)"
definition global_parser :: "globals \<Rightarrow> nat option" where "global_parser g = g_parser g"
definition global_compiler :: "globals \<Rightarrow> nat option" where "global_compiler g = g_compiler g"

definition set_reset_mode :: "bool \<Rightarrow> globals \<Rightarrow> globals" where "set_reset_mode b g = g\<lparr>g_reset_mode := b\<rparr>"
definition set_trace_mode :: "bool \<Rightarrow> globals \<Rightarrow> globals" where "set_trace_mode b g = g\<lparr>g_trace_mode := b\<rparr>"
definition set_permissions_mode :: "bool \<Rightarrow> globals \<Rightarrow> globals" where
  "set_permissions_mode b g = g\<lparr>g_permissions_mode := b\<rparr>"
definition set_default_autocommit_mode :: "bool \<Rightarrow> globals \<Rightarrow> globals" where
  "set_default_autocommit_mode b g = g\<lparr>g_default_autocommit_mode := b\<rparr>"
definition set_default_isolation_level :: "isolation_level \<Rightarrow> globals \<Rightarrow> globals" where
  "set_default_isolation_level l g = g\<lparr>g_default_isolation_level := l\<rparr>"

definition identified :: "globals \<Rightarrow> nat \<Rightarrow> bool" where "identified g t = tg_identified (g_threads g t)"
definition peer_subject :: "globals \<Rightarrow> nat \<Rightarrow> string" where "peer_subject g t = tg_peer_subject (g_threads g t)"
definition peer_permissions :: "globals \<Rightarrow> nat \<Rightarrow> string list" where
  "peer_permissions g t = tg_peer_permissions (g_threads g t)"

definition set_client_stream :: "nat \<Rightarrow> nat option \<Rightarrow> globals \<Rightarrow> globals" where
  "set_client_stream t s = on_thread t (\<lambda>th. th\<lparr>tg_client_stream := s\<rparr>)"
definition set_echo_stream :: "nat \<Rightarrow> nat option \<Rightarrow> globals \<Rightarrow> globals" where
  "set_echo_stream t s = on_thread t (\<lambda>th. th\<lparr>tg_echo_stream := s\<rparr>)"

definition set_peer :: "nat \<Rightarrow> string \<Rightarrow> string list \<Rightarrow> globals \<Rightarrow> globals" where
  "set_peer t subject permissions =
     on_thread t (\<lambda>th. th\<lparr>tg_identified := True, tg_peer_subject := subject, tg_peer_permissions := permissions\<rparr>)"

definition clear_peer :: "nat \<Rightarrow> globals \<Rightarrow> globals" where
  "clear_peer t =
     on_thread t (\<lambda>th. th\<lparr>tg_identified := False, tg_peer_subject := [], tg_peer_permissions := []\<rparr>)"

definition set_parser :: "nat option \<Rightarrow> globals \<Rightarrow> globals" where "set_parser p g = g\<lparr>g_parser := p\<rparr>"
definition set_compiler :: "nat option \<Rightarrow> globals \<Rightarrow> globals" where "set_compiler c g = g\<lparr>g_compiler := c\<rparr>"

section \<open>Permissions\<close>

lemma find_from_ge: "find_from p s b = Some e \<Longrightarrow> b \<le> e"
  by (auto simp: find_from_def split: if_splits)

function path_loop :: "string \<Rightarrow> nat \<Rightarrow> string list \<Rightarrow> string list" where
  "path_loop name pos path =
     (if pos \<le> length name then
        (let e = (case find_from ''::'' name pos of None \<Rightarrow> length name | Some e \<Rightarrow> e);
             level = trim (substr name pos (e - pos)) (CHR '' '');
             path = (if level \<noteq> [] then path @ [level] else path)
         in if e = length name then path else path_loop name (e + 2) path)
      else path)"
  by pat_completeness auto
termination
  by (relation "measure (\<lambda>(name, b, _). Suc (length name) - b)") (auto split: option.splits dest: find_from_ge)

declare path_loop.simps [simp del]

definition as_path :: "string \<Rightarrow> string list" where
  "as_path qualified_name = path_loop (to_upper (trim qualified_name (CHR '' ''))) 0 []"

function covers_from :: "string list \<Rightarrow> string list \<Rightarrow> nat \<Rightarrow> bool" where
  "covers_from permission obj i =
     (if i < length permission then
        (if permission ! i \<noteq> obj ! i then False else covers_from permission obj (i + 1))
      else True)"
  by pat_completeness auto
termination
  by (relation "measure (\<lambda>(permission, _, i). length permission - i)") auto

declare covers_from.simps [simp del]

fun permits_loop :: "string list \<Rightarrow> string list \<Rightarrow> bool" where
  "permits_loop [] obj = False"
| "permits_loop (granted # others) obj =
     (let permission = as_path granted in
      if permission = [] then permits_loop others obj
      else if length permission = 1 \<and> permission ! 0 = ''*'' then True
      else if length permission > length obj then permits_loop others obj
      else if covers_from permission obj 0 then True
      else permits_loop others obj)"

definition permits :: "globals \<Rightarrow> nat \<Rightarrow> string \<Rightarrow> bool" where
  "permits g t qualified_name =
     (if \<not> g_permissions_mode g then True
      else if \<not> tg_identified (g_threads g t) then True
      else (let obj = as_path qualified_name in
            if obj = [] then False else permits_loop (tg_peer_permissions (g_threads g t)) obj))"

definition require_permission :: "globals \<Rightarrow> nat \<Rightarrow> string \<Rightarrow> unit run" where
  "require_permission g t qualified_name =
     (if permits g t qualified_name then ret ()
      else throw (ZiguratException 7800
        ([CHR 0x27] @ tg_peer_subject (g_threads g t) @ [CHR 0x27] @ '' has no permission for '' @ [CHR 0x27] @
         qualified_name @ [CHR 0x27])))"

section \<open>Connections\<close>

text \<open>What a handler binds to its thread, and what the destructor of \<open>ConnectionScope\<close> unbinds. The transaction it
  rolls back is the storage engine's, whose state is not part of the model.\<close>

definition close_scope :: "nat \<Rightarrow> globals \<Rightarrow> globals" where
  "close_scope t g = set_client_stream t None (clear_peer t g)"

definition open_plain :: "nat \<Rightarrow> nat \<Rightarrow> globals \<Rightarrow> globals" where
  "open_plain t s g = set_client_stream t (Some s) g"

definition open_tls :: "nat \<Rightarrow> nat \<Rightarrow> string \<Rightarrow> string list \<Rightarrow> globals \<Rightarrow> globals" where
  "open_tls t s subject permissions g = set_peer t subject permissions (set_client_stream t (Some s) g)"

text \<open>The connections the worker threads serve, in any interleaving.\<close>

datatype connection = Plain nat | Secure nat string "string list"

type_synonym server = "globals \<times> (nat \<Rightarrow> connection option)"

inductive server_step :: "server \<Rightarrow> server \<Rightarrow> bool" where
  accept_plain: "serving t = None \<Longrightarrow>
    server_step (g, serving) (open_plain t s g, serving(t \<mapsto> Plain s))"
| accept_tls: "serving t = None \<Longrightarrow>
    server_step (g, serving) (open_tls t s subject permissions g, serving(t \<mapsto> Secure s subject permissions))"
| closed: "serving t = Some c \<Longrightarrow>
    server_step (g, serving) (close_scope t g, serving(t := None))"
| echo: "serving t = Some c \<Longrightarrow> server_step (g, serving) (set_echo_stream t e g, serving)"
| modes: "g' \<in> {set_reset_mode b g, set_trace_mode b g, set_permissions_mode b g, set_default_autocommit_mode b g,
      set_default_isolation_level l g, set_parser p g, set_compiler p g} \<Longrightarrow>
    server_step (g, serving) (g', serving)"

inductive server_reachable :: "server \<Rightarrow> bool" where
  start: "server_reachable (initial_globals, \<lambda>_. None)"
| step: "server_reachable s \<Longrightarrow> server_step s s' \<Longrightarrow> server_reachable s'"

inductive_cases server_stepE: "server_step (g, serving) (g', serving')"

section \<open>Names as paths\<close>

text \<open>The levels of a name, by structural recursion.\<close>

fun levels :: "string \<Rightarrow> string \<Rightarrow> string list" where
  "levels acc [] = [acc]"
| "levels acc [c] = [acc @ [c]]"
| "levels acc (c # d # r) =
     (if c = CHR '':'' \<and> d = CHR '':'' then acc # levels [] r else levels (acc @ [c]) (d # r))"

definition path_of :: "string \<Rightarrow> string list" where
  "path_of name = filter (\<lambda>l. l \<noteq> []) (map (\<lambda>l. strip (CHR '' '') l) (levels [] (map upper_char name)))"

lemma levels_find: "levels acc s =
    (case find_in ''::'' s of None \<Rightarrow> [acc @ s] | Some e \<Rightarrow> (acc @ take e s) # levels [] (drop (e + 2) s))"
  by (induction acc s rule: levels.induct) (auto split: option.splits)

lemma find_in_bound: "find_in p s = Some e \<Longrightarrow> e + length p \<le> length s"
proof (induction p s arbitrary: e rule: find_in.induct)
  case (2 p x xs)
  have "starts_with p s \<Longrightarrow> length p \<le> length s" for p s
    by (induction p s rule: starts_with.induct) auto
  then show ?case using 2 by (fastforce split: if_splits)
qed (simp split: if_splits)

lemma path_loop_levels:
  "pos \<le> length name \<Longrightarrow> path_loop name pos path =
    path @ filter (\<lambda>l. l \<noteq> []) (map (\<lambda>l. trim l (CHR '' '')) (levels [] (drop pos name)))"
proof (induction name pos path rule: path_loop.induct)
  case (1 name pos path)
  show ?case
  proof (cases "find_in ''::'' (drop pos name)")
    case None
    then show ?thesis
      using 1(2) by (simp add: path_loop.simps [of name pos] find_from_def levels_find [of _ "drop pos name"] substr_def)
  next
    case (Some e)
    then have "find_from ''::'' name pos = Some (e + pos)" using 1(2) by (simp add: find_from_def)
    moreover have "e + pos + 2 \<le> length name" using find_in_bound [OF Some] 1(2) by simp
    ultimately show ?thesis
      using 1(1) [OF 1(2) refl refl refl] 1(2) Some
      by (cases "trim (take e (drop pos name)) (CHR '' '') = []")
        (simp_all add: path_loop.simps [of name pos] levels_find [of _ "drop pos name"] substr_def add.commute)
  qed
qed

text \<open>Blanks around a name change none of its levels.\<close>

lemma takeWhile_replicate_eq: "takeWhile (\<lambda>x. x = c) s = replicate (length (takeWhile (\<lambda>x. x = c) s)) c"
  by (induction s) auto

lemma strip_decomp: "\<exists>a b. s = replicate a c @ strip c s @ replicate b c"
proof -
  let ?d = "strip_left c s"
  have "s = replicate (length (blank_prefix c s)) c @ ?d"
    using takeWhile_replicate_eq [of c s] takeWhile_dropWhile_id [of "\<lambda>x. x = c" s] by simp
  moreover have "rev ?d = replicate (length (blank_prefix c (rev ?d))) c @ strip_left c (rev ?d)"
    using takeWhile_replicate_eq [of c "rev ?d"] takeWhile_dropWhile_id [of "\<lambda>x. x = c" "rev ?d"] by simp
  then have "?d = strip c s @ replicate (length (blank_prefix c (rev ?d))) c"
    unfolding strip_def by (metis rev_append rev_replicate rev_rev_ident)
  ultimately show ?thesis by metis
qed

lemma strip_left_replicate [simp]: "strip_left c (replicate n c @ s) = strip_left c s"
  by (induction n) simp_all

lemma strip_blanks [simp]: "strip c (replicate a c @ s) = strip c s"
  by (simp add: strip_def)

lemma strip_left_append: "strip_left c (s @ t) = (if set s \<subseteq> {c} then strip_left c t else strip_left c s @ t)"
  by (induction s) auto

lemma strip_blanks_right [simp]: "strip c (s @ replicate b c) = strip c s"
proof (cases "set s \<subseteq> {c}")
  case True
  then have "strip_left c s = []" unfolding dropWhile_eq_Nil_conv by auto
  moreover have "strip_left c (replicate b c) = []" by (induction b) simp_all
  ultimately show ?thesis using True by (auto simp: strip_def strip_left_append dest: set_dropWhileD)
qed (auto simp: strip_def strip_left_append)

lemma levels_acc: "levels acc s = (acc @ hd (levels [] s)) # tl (levels [] s)"
  unfolding levels_find [of acc s] levels_find [of "[]" s] by (simp split: option.splits)

lemma levels_not_nil [simp]: "levels acc s \<noteq> []"
  unfolding levels_find [of acc s] by (simp split: option.splits)

lemma levels_step [simp]: "c \<noteq> CHR '':'' \<Longrightarrow> levels acc (c # r) = levels (acc @ [c]) r"
  by (cases r) simp_all

lemma levels_blanks: "levels acc (replicate n (CHR '' '') @ s) = levels (acc @ replicate n (CHR '' '')) s"
  by (induction n arbitrary: acc) simp_all

lemma levels_last: "levels acc (c # replicate n (CHR '' '')) = [acc @ c # replicate n (CHR '' '')]"
  using levels_blanks [of "acc @ [c]" n "[]"] by (cases n) simp_all

lemma levels_blanks_right: "levels acc (s @ replicate n (CHR '' '')) =
    butlast (levels acc s) @ [List.last (levels acc s) @ replicate n (CHR '' '')]"
  using levels_blanks [of _ n "[]", simplified] levels_last by (induction acc s rule: levels.induct) auto

lemma path_of_blanks: "path_of (replicate a (CHR '' '') @ name @ replicate b (CHR '' '')) = path_of name"
proof -
  let ?u = "map upper_char name" and ?strips = "map (\<lambda>l. strip (CHR '' '') l)"
  have blank: "upper_char (CHR '' '') = CHR '' ''" by code_simp
  have "?strips (levels [] (replicate a (CHR '' '') @ s)) = ?strips (levels [] s)" for s
    using levels_acc [of "replicate a (CHR '' '')" s] hd_Cons_tl [OF levels_not_nil, of "[]" s]
      list.map(2) [of "strip (CHR '' '')" "hd (levels [] s)" "tl (levels [] s)"]
    by (simp add: levels_blanks [of "[]" a s, simplified])
  moreover have "?strips (levels [] (?u @ replicate b (CHR '' ''))) = ?strips (levels [] ?u)"
    using append_butlast_last_id [of "?strips (levels [] ?u)"]
    by (simp add: levels_blanks_right map_butlast last_map)
  ultimately show ?thesis by (simp add: path_of_def blank)
qed

lemma as_path_path_of: "as_path name = path_of name"
proof -
  obtain a b where "name = replicate a (CHR '' '') @ strip (CHR '' '') name @ replicate b (CHR '' '')"
    using strip_decomp by blast
  then have "path_of name = path_of (strip (CHR '' '') name)" using path_of_blanks by metis
  then show ?thesis by (simp add: as_path_def path_of_def path_loop_levels trim_strip to_upper_map)
qed

section \<open>The decision\<close>

lemma covers_from_prefix:
  "length permission \<le> length obj \<Longrightarrow> i \<le> length permission \<Longrightarrow> take i permission = take i obj \<Longrightarrow>
    covers_from permission obj i \<longleftrightarrow> prefix permission obj"
proof (induction permission obj i rule: covers_from.induct)
  case (1 permission obj i)
  show ?case
  proof (cases "i < length permission")
    case True
    moreover have "\<not> prefix permission obj" if "permission ! i \<noteq> obj ! i"
      using that True by (auto simp: prefix_def nth_append)
    moreover have "take (Suc i) permission = take (Suc i) obj" if "permission ! i = obj ! i"
      using that True 1(2,4) by (simp add: take_Suc_conv_app_nth)
    ultimately show ?thesis using 1 by (simp add: covers_from.simps [of permission obj i])
  next
    case False
    then have "permission = take i obj" using 1(3,4) by simp
    then have "prefix permission obj" by (simp add: take_is_prefix)
    then show ?thesis using False by (simp add: covers_from.simps [of permission obj i])
  qed
qed

text \<open>The abstract specification: what a thread may reach, and which operations change it.\<close>

datatype authority = Everything | Paths "string list set"

definition authority :: "globals \<Rightarrow> nat \<Rightarrow> authority" where
  "authority g t =
     (if \<not> g_permissions_mode g \<or> \<not> identified g t then Everything
      else Paths (path_of ` set (peer_permissions g t)))"

fun allows :: "authority \<Rightarrow> string list \<Rightarrow> bool" where
  "allows Everything obj = True"
| "allows (Paths P) obj = (obj \<noteq> [] \<and> ([''*''] \<in> P \<or> (\<exists>p \<in> P. p \<noteq> [] \<and> prefix p obj)))"

lemma permits_loop_allows: "obj \<noteq> [] \<Longrightarrow> permits_loop ps obj \<longleftrightarrow> allows (Paths (path_of ` set ps)) obj"
proof (induction ps)
  case (Cons granted ps)
  let ?p = "path_of granted"
  have star: "length ?p = 1 \<and> ?p ! 0 = ''*'' \<longleftrightarrow> ?p = [''*'']" by (cases ?p) auto
  have "length obj < length ?p \<Longrightarrow> \<not> prefix ?p obj" by (auto dest: prefix_length_le)
  then show ?case
    using Cons covers_from_prefix [of ?p obj 0] star
    by (simp only: permits_loop.simps Let_def as_path_path_of) auto
qed simp

lemma permits_allows: "permits g t name \<longleftrightarrow> allows (authority g t) (path_of name)"
  by (cases "path_of name = []")
    (auto simp: permits_def authority_def identified_def peer_permissions_def as_path_path_of permits_loop_allows Let_def)

text \<open>Components of the state that an operation of a thread leaves alone.\<close>

lemma on_thread_simps [simp]:
  "g_threads (on_thread t f g) = (g_threads g)(t := f (g_threads g t))"
  "g_permissions_mode (on_thread t f g) = g_permissions_mode g"
  by (simp_all add: on_thread_def)

lemmas thread_defs = set_client_stream_def set_echo_stream_def set_peer_def clear_peer_def close_scope_def
  open_plain_def open_tls_def identified_def peer_subject_def peer_permissions_def

lemmas mode_defs = set_reset_mode_def set_trace_mode_def set_permissions_mode_def set_default_autocommit_mode_def
  set_default_isolation_level_def set_parser_def set_compiler_def

text \<open>What a thread holds is what its connection brought, and nothing when it serves none.\<close>

definition bound_to :: "thread_globals \<Rightarrow> connection option \<Rightarrow> bool" where
  "bound_to th c \<longleftrightarrow>
     (case c of
        None \<Rightarrow> tg_client_stream th = None \<and> \<not> tg_identified th \<and> tg_peer_subject th = [] \<and> tg_peer_permissions th = []
      | Some (Plain s) \<Rightarrow>
          tg_client_stream th = Some s \<and> \<not> tg_identified th \<and> tg_peer_subject th = [] \<and> tg_peer_permissions th = []
      | Some (Secure s subject permissions) \<Rightarrow>
          tg_client_stream th = Some s \<and> tg_identified th \<and> tg_peer_subject th = subject \<and>
          tg_peer_permissions th = permissions)"

definition connections_inv :: "server \<Rightarrow> bool" where
  "connections_inv s \<longleftrightarrow> (\<forall>t. bound_to (g_threads (fst s) t) (snd s t))"

lemma connections_inv_update:
  assumes "connections_inv (g, serving)" and "bound_to (g_threads g t) (serving t) \<Longrightarrow> bound_to (f (g_threads g t)) c"
  shows "connections_inv (on_thread t f g, serving(t := c))"
  using assms by (simp add: connections_inv_def)

lemma connections_inv_step:
  assumes "server_step s s'" and "connections_inv s"
  shows "connections_inv s'"
  using assms
proof (cases rule: server_step.cases)
  case (accept_plain serving t g st)
  then show ?thesis
    using assms(2) by (auto simp: bound_to_def thread_defs intro!: connections_inv_update)
next
  case (accept_tls serving t g st subject permissions)
  then have "s' = (on_thread t (\<lambda>th. th\<lparr>tg_client_stream := Some st, tg_identified := True,
      tg_peer_subject := subject, tg_peer_permissions := permissions\<rparr>) g, serving(t \<mapsto> Secure st subject permissions))"
    by (simp add: thread_defs on_thread_def)
  then show ?thesis
    using assms(2) accept_tls by (auto simp: bound_to_def intro!: connections_inv_update)
next
  case (closed serving t c g)
  then have "s' = (on_thread t (\<lambda>th. th\<lparr>tg_identified := False, tg_peer_subject := [], tg_peer_permissions := [],
      tg_client_stream := None\<rparr>) g, serving(t := None))"
    by (simp add: thread_defs on_thread_def)
  then show ?thesis
    using assms(2) closed by (auto simp: bound_to_def intro!: connections_inv_update)
next
  case (echo serving t c g e)
  have "connections_inv (on_thread t (\<lambda>th. th\<lparr>tg_echo_stream := e\<rparr>) g, serving(t := serving t))"
    by (rule connections_inv_update)
      (use assms(2) echo in \<open>auto simp: bound_to_def split: option.splits connection.splits\<close>)
  then show ?thesis using echo(1,2) by (simp only: thread_defs fun_upd_triv)
next
  case modes
  then have "g_threads (fst s') = g_threads (fst s)" by (auto simp: mode_defs)
  then show ?thesis using assms(2) modes by (simp add: connections_inv_def)
qed

lemma connections_inv_reachable: "server_reachable s \<Longrightarrow> connections_inv s"
proof (induction rule: server_reachable.induct)
  case start
  then show ?case by (simp add: connections_inv_def bound_to_def initial_globals_def initial_thread_def)
next
  case (step s s')
  then show ?case by (blast intro: connections_inv_step)
qed

text \<open>Paths of qualified names.\<close>

lemma levels_qualified:
  "s = [] \<or> List.last s \<noteq> CHR '':'' \<Longrightarrow> levels acc (s @ CHR '':'' # CHR '':'' # t) = levels acc s @ levels [] t"
  by (induction acc s rule: levels.induct) (auto split: if_splits)

lemma path_of_qualified:
  assumes "s \<noteq> []" and "List.last s \<noteq> CHR '':''"
  shows "path_of (s @ ''::'' @ t) = path_of s @ path_of t"
proof -
  have colon: "upper_char c = CHR '':'' \<longleftrightarrow> c = CHR '':''" for c
    by (auto simp: upper_char_def char_of_eq_iff take_bit_eq_mod)
  show ?thesis
    using levels_qualified [of "map upper_char s" "[]" "map upper_char t"] assms
    by (simp add: path_of_def last_map colon colon [of "CHR '':''", simplified])
qed

section \<open>Properties\<close>

text \<open>C10. The decision refines its specification: a name is a path of levels, upper case and without blanks; a thread
  reaches everything when permissions are off or its peer is unidentified, and otherwise exactly the objects at or
  under a path it was granted, or every named object when it was granted the star. Binding a peer grants its
  permissions, clearing it takes them away, and neither touches another thread.\<close>

theorem permits_refines:
  "(permits g t name \<longleftrightarrow> allows (authority g t) (path_of name)) \<and>
   authority (set_peer t subject permissions g) u =
     (if u = t then (if g_permissions_mode g then Paths (path_of ` set permissions) else Everything) else authority g u) \<and>
   authority (clear_peer t g) u = (if u = t then Everything else authority g u) \<and>
   authority (set_client_stream t s g) u = authority g u"
  using permits_allows [of g t name] by (simp add: authority_def thread_defs)



text \<open>A permission reaches downwards: who may reach a schema may reach everything qualified by it. A stray
  separator widens nothing, and neither case nor surrounding blanks matter.\<close>

theorem permission_inherited:
  assumes "name \<noteq> []" and "List.last name \<noteq> CHR '':''"
  shows "(permits g t name \<longrightarrow> permits g t (name @ ''::'' @ member)) \<and>
    permits g t (name @ ''::'') = permits g t name \<and>
    permits g t (to_upper name) = permits g t name \<and>
    permits g t (replicate m (CHR '' '') @ name @ replicate n (CHR '' '')) = permits g t name"
proof -
  have "allows a (path_of name) \<Longrightarrow> allows a (path_of name @ p)" for a p
    by (cases a) auto
  moreover have "path_of [] = []" by (simp add: path_of_def strip_def)
  moreover have "upper_char (upper_char c) = upper_char c" for c
    using mod_less [of "of_char c - 32 :: nat" 256] by (auto simp: upper_char_def of_char_of take_bit_eq_mod)
  then have "path_of (to_upper name) = path_of name" by (simp add: path_of_def to_upper_map o_def)
  moreover have "path_of (replicate m (CHR '' '') @ name @ replicate n (CHR '' '')) = path_of name"
    using path_of_blanks by simp
  ultimately show ?thesis
    using path_of_qualified [OF assms, of member] path_of_qualified [OF assms, of "[]"] by (simp add: permits_allows)
qed

end
