(* ===== verification/Thread_Pool.thy ===== *)
theory Thread_Pool
  imports Zig_Prelude "HOL-Library.Multiset"
begin

text \<open>
  \<open>Threading/threadpool.cpp\<close>: the pool of workers and its queue. Whatever the code does under \<open>_queue_guard\<close> is
  one step; a worker waits, runs a job or has returned; \<open>wait(lock, p)\<close> lets a waiting worker on when \<open>p\<close> holds.
  \<open>discharge\<close> is two steps, before and after it joins the workers. A job is a number, and \<open>does\<close> says how it ends.
\<close>

section \<open>The pool\<close>

datatype worker = Waiting | Running nat | Returned

datatype outcome = Done | Exception string | Foreign_exception

record pool =
  tp_size :: nat
  tp_workers :: "worker list"
  tp_queue :: "nat list"
  tp_discharged :: bool
  tp_stopping :: bool
  tp_limit :: nat

abbreviation threading_exception :: "string \<Rightarrow> exn" where
  "threading_exception msg \<equiv> ZiguratException 7219 msg"

definition new_pool :: pool where
  "new_pool = \<lparr>tp_size = 0, tp_workers = [], tp_queue = [], tp_discharged = True, tp_stopping = False, tp_limit = 0\<rparr>"

definition charge :: "nat \<Rightarrow> pool \<Rightarrow> pool result" where
  "charge n p =
     (if \<not> tp_discharged p then Inl (threading_exception ''thread pool is charged'')
      else if n = 0 then Inl (threading_exception ''thread pool size must be positive'')
      else Inr (p\<lparr>tp_stopping := False, tp_queue := [], tp_size := n, tp_discharged := False,
        tp_workers := tp_workers p @ replicate n Waiting\<rparr>))"

text \<open>One round of \<open>_handler\<close> up to the job, when worker \<open>w\<close> gets past \<open>wait\<close>.\<close>

definition handler_take :: "nat \<Rightarrow> pool \<Rightarrow> pool option" where
  "handler_take w p =
     (if w < length (tp_workers p) \<and> tp_workers p ! w = Waiting \<and> (tp_stopping p \<or> tp_queue p \<noteq> []) then
        (case tp_queue p of
           [] \<Rightarrow> Some (p\<lparr>tp_workers := (tp_workers p)[w := Returned]\<rparr>)
         | job # queue \<Rightarrow> Some (p\<lparr>tp_queue := queue, tp_workers := (tp_workers p)[w := Running job]\<rparr>))
      else None)"

text \<open>The rest of the round: the job ends, and what it threw is logged.\<close>

definition job_log :: "outcome \<Rightarrow> string list" where
  "job_log r =
     (case r of
        Done \<Rightarrow> []
      | Exception what \<Rightarrow> [''[ThreadPool] job failed: '' @ what]
      | Foreign_exception \<Rightarrow> [''[ThreadPool] job failed with a foreign exception''])"

definition handler_run :: "(nat \<Rightarrow> outcome) \<Rightarrow> nat \<Rightarrow> pool \<Rightarrow> (pool \<times> string list) option" where
  "handler_run does w p =
     (if w < length (tp_workers p) then
        (case tp_workers p ! w of
           Running job \<Rightarrow> Some (p\<lparr>tp_workers := (tp_workers p)[w := Waiting]\<rparr>, job_log (does job))
         | _ \<Rightarrow> None)
      else None)"

definition pool_size :: "pool \<Rightarrow> nat" where "pool_size p = tp_size p"

definition set_limit :: "nat \<Rightarrow> pool \<Rightarrow> pool" where "set_limit n p = p\<lparr>tp_limit := n\<rparr>"

definition queued :: "pool \<Rightarrow> nat" where "queued p = length (tp_queue p)"

definition execute :: "nat \<Rightarrow> pool \<Rightarrow> pool result" where
  "execute job p =
     (if tp_stopping p then Inl (threading_exception ''thread pool is discharging'')
      else if tp_limit p > 0 \<and> length (tp_queue p) \<ge> tp_limit p
      then Inl (threading_exception ''thread pool queue is full'')
      else Inr (p\<lparr>tp_queue := tp_queue p @ [job]\<rparr>))"

definition discharge_begin :: "bool \<Rightarrow> pool \<Rightarrow> pool" where
  "discharge_begin force p =
     (let p = p\<lparr>tp_stopping := True\<rparr> in if force then p\<lparr>tp_queue := []\<rparr> else p)"

definition discharge_end :: "pool \<Rightarrow> pool option" where
  "discharge_end p =
     (if \<forall>w \<in> set (tp_workers p). w = Returned
      then Some (p\<lparr>tp_workers := [], tp_size := 0, tp_discharged := True\<rparr>)
      else None)"

section \<open>Runs\<close>

text \<open>What happened so far. \<open>Dropped\<close> is a queue that was cleared.\<close>

datatype event = Accepted nat | Started nat | Finished nat | Dropped "nat list"

record system =
  pool_of :: pool
  joining :: bool
  trace :: "event list"
  logged :: "string list"

definition new_system :: system where
  "new_system = \<lparr>pool_of = new_pool, joining = False, trace = [], logged = []\<rparr>"

definition begin_discharge :: "bool \<Rightarrow> system \<Rightarrow> system" where
  "begin_discharge force s = s\<lparr>pool_of := discharge_begin force (pool_of s), joining := True,
     trace := trace s @ (if force then [Dropped (tp_queue (pool_of s))] else [])\<rparr>"

inductive worker_step :: "(nat \<Rightarrow> outcome) \<Rightarrow> system \<Rightarrow> system \<Rightarrow> bool" for does where
  takes: "handler_take w (pool_of s) = Some p \<Longrightarrow> tp_queue (pool_of s) = job # queue \<Longrightarrow>
    worker_step does s (s\<lparr>pool_of := p, trace := trace s @ [Started job]\<rparr>)"
| returns: "handler_take w (pool_of s) = Some p \<Longrightarrow> tp_queue (pool_of s) = [] \<Longrightarrow>
    worker_step does s (s\<lparr>pool_of := p\<rparr>)"
| finishes: "handler_run does w (pool_of s) = Some (p, lines) \<Longrightarrow> tp_workers (pool_of s) ! w = Running job \<Longrightarrow>
    worker_step does s (s\<lparr>pool_of := p, trace := trace s @ [Finished job], logged := logged s @ lines\<rparr>)"

text \<open>The owner charges and discharges, any thread executes and sets the limit, the workers work.\<close>

inductive pool_step :: "(nat \<Rightarrow> outcome) \<Rightarrow> system \<Rightarrow> system \<Rightarrow> bool" for does where
  charges: "\<not> joining s \<Longrightarrow> charge n (pool_of s) = Inr p \<Longrightarrow>
    pool_step does s (s\<lparr>pool_of := p, trace := trace s @ [Dropped (tp_queue (pool_of s))]\<rparr>)"
| executes: "execute job (pool_of s) = Inr p \<Longrightarrow>
    pool_step does s (s\<lparr>pool_of := p, trace := trace s @ [Accepted job]\<rparr>)"
| limits: "pool_step does s (s\<lparr>pool_of := set_limit n (pool_of s)\<rparr>)"
| discharges: "\<not> joining s \<Longrightarrow> \<not> tp_discharged (pool_of s) \<Longrightarrow> pool_step does s (begin_discharge force s)"
| joined: "joining s \<Longrightarrow> discharge_end (pool_of s) = Some p \<Longrightarrow>
    pool_step does s (s\<lparr>pool_of := p, joining := False\<rparr>)"
| works: "worker_step does s s' \<Longrightarrow> pool_step does s s'"

inductive pool_reachable :: "(nat \<Rightarrow> outcome) \<Rightarrow> system \<Rightarrow> bool" for does where
  start: "pool_reachable does new_system"
| step: "pool_reachable does s \<Longrightarrow> pool_step does s s' \<Longrightarrow> pool_reachable does s'"

inductive_cases worker_stepE: "worker_step does s s'"
inductive_cases pool_stepE: "pool_step does s s'"

section \<open>The invariant\<close>

fun accepted :: "event \<Rightarrow> nat list" where
  "accepted (Accepted j) = [j]" | "accepted e = []"

fun left_queue :: "event \<Rightarrow> nat list" where
  "left_queue (Started j) = [j]" | "left_queue (Dropped js) = js" | "left_queue e = []"

fun started :: "event \<Rightarrow> nat list" where
  "started (Started j) = [j]" | "started e = []"

fun finished :: "event \<Rightarrow> nat list" where
  "finished (Finished j) = [j]" | "finished e = []"

definition all_of :: "(event \<Rightarrow> nat list) \<Rightarrow> event list \<Rightarrow> nat list" where
  "all_of f tr = concat (map f tr)"

fun running :: "worker \<Rightarrow> nat list" where
  "running (Running j) = [j]" | "running w = []"

definition in_hand :: "pool \<Rightarrow> nat multiset" where
  "in_hand p = mset (concat (map running (tp_workers p)))"

definition pool_inv :: "system \<Rightarrow> bool" where
  "pool_inv s \<longleftrightarrow>
     length (tp_workers (pool_of s)) = tp_size (pool_of s) \<and>
     (tp_discharged (pool_of s) \<longleftrightarrow> tp_workers (pool_of s) = []) \<and>
     (joining s \<longleftrightarrow> \<not> tp_discharged (pool_of s) \<and> tp_stopping (pool_of s)) \<and>
     (Returned \<in> set (tp_workers (pool_of s)) \<longrightarrow> tp_stopping (pool_of s) \<and> tp_queue (pool_of s) = []) \<and>
     all_of accepted (trace s) = all_of left_queue (trace s) @ tp_queue (pool_of s) \<and>
     mset (all_of started (trace s)) = mset (all_of finished (trace s)) + in_hand (pool_of s)"

lemma all_of_simps [simp]: "all_of f [] = []" "all_of f (xs @ ys) = all_of f xs @ all_of f ys" "all_of f [e] = f e"
  by (simp_all add: all_of_def)

lemma in_hand_update: "w < length ws \<Longrightarrow>
    mset (concat (map running (ws[w := v]))) + mset (running (ws ! w)) = mset (concat (map running ws)) + mset (running v)"
proof (induction ws arbitrary: w)
  case (Cons x ws)
  then show ?case by (cases w) (fastforce simp: ac_simps)+
qed simp

lemma pool_inv_new: "pool_inv new_system"
  by (simp add: pool_inv_def new_system_def new_pool_def in_hand_def)

lemma pool_inv_take:
  assumes "pool_inv s" and "handler_take w (pool_of s) = Some p" and "tp_queue (pool_of s) = job # queue"
  shows "pool_inv (s\<lparr>pool_of := p, trace := trace s @ [Started job]\<rparr>)"
proof -
  let ?ws = "tp_workers (pool_of s)"
  have w: "w < length ?ws" "?ws ! w = Waiting" and p: "p = (pool_of s)\<lparr>tp_queue := queue, tp_workers := ?ws[w := Running job]\<rparr>"
    using assms(2,3) by (auto simp: handler_take_def split: if_splits)
  have "Returned \<notin> set (?ws[w := Running job])"
    using assms(1,3) set_update_subset_insert [of ?ws w "Running job"] by (auto simp: pool_inv_def)
  then show ?thesis
    using assms(1,3) in_hand_update [OF w(1), of "Running job"] w by (auto simp: pool_inv_def p in_hand_def)
qed

lemma pool_inv_return:
  assumes "pool_inv s" and "handler_take w (pool_of s) = Some p" and "tp_queue (pool_of s) = []"
  shows "pool_inv (s\<lparr>pool_of := p\<rparr>)"
proof -
  let ?ws = "tp_workers (pool_of s)"
  have w: "w < length ?ws" "?ws ! w = Waiting" "tp_stopping (pool_of s)"
    and p: "p = (pool_of s)\<lparr>tp_workers := ?ws[w := Returned]\<rparr>"
    using assms(2,3) by (auto simp: handler_take_def split: if_splits)
  then show ?thesis
    using assms(1,3) in_hand_update [OF w(1), of Returned] by (auto simp: pool_inv_def in_hand_def)
qed

lemma pool_inv_run:
  assumes "pool_inv s" and "handler_run does w (pool_of s) = Some (p, lines)"
    and "tp_workers (pool_of s) ! w = Running job"
  shows "pool_inv (s\<lparr>pool_of := p, trace := trace s @ [Finished job], logged := logged s @ lines\<rparr>)"
proof -
  let ?ws = "tp_workers (pool_of s)"
  have w: "w < length ?ws" and p: "p = (pool_of s)\<lparr>tp_workers := ?ws[w := Waiting]\<rparr>"
    using assms(2,3) by (auto simp: handler_run_def split: if_splits)
  have "Returned \<in> set ?ws" if "Returned \<in> set (?ws[w := Waiting])"
    using that set_update_subset_insert [of ?ws w Waiting] by auto
  then show ?thesis
    using assms(1,3) in_hand_update [OF w, of Waiting] by (auto simp: pool_inv_def p in_hand_def)
qed

lemma pool_inv_worker: "worker_step does s s' \<Longrightarrow> pool_inv s \<Longrightarrow> pool_inv s'"
  by (erule worker_stepE) (auto intro: pool_inv_take pool_inv_return pool_inv_run)

lemma pool_inv_step:
  assumes "pool_step does s s'" and "pool_inv s"
  shows "pool_inv s'"
  using assms(1)
proof (cases rule: pool_step.cases)
  case (charges n p)
  then show ?thesis
    using assms(2) by (auto simp: charge_def pool_inv_def in_hand_def split: if_splits)
next
  case (executes job p)
  then show ?thesis
    using assms(2) by (auto simp: execute_def pool_inv_def in_hand_def split: if_splits)
next
  case (limits n)
  then show ?thesis using assms(2) by (simp add: set_limit_def pool_inv_def in_hand_def)
next
  case (discharges force)
  then show ?thesis
    using assms(2) by (auto simp: begin_discharge_def discharge_begin_def pool_inv_def in_hand_def)
next
  case (joined p)
  have "concat (map running ws) = []" if "\<forall>w \<in> set ws. w = Returned" for ws
    using that by auto
  then show ?thesis
    using joined assms(2) by (auto simp: discharge_end_def pool_inv_def in_hand_def split: if_splits)
next
  case works
  then show ?thesis using assms(2) pool_inv_worker by blast
qed

lemma pool_inv_reachable: "pool_reachable does s \<Longrightarrow> pool_inv s"
  by (induction rule: pool_reachable.induct) (blast intro: pool_inv_new pool_inv_step)+

section \<open>Draining\<close>

text \<open>What the workers of a stopping pool still have to do: two steps a queued job, one a running one, one a worker.\<close>

fun worker_weight :: "worker \<Rightarrow> nat" where
  "worker_weight Waiting = 1" | "worker_weight (Running j) = 2" | "worker_weight Returned = 0"

definition work_left :: "system \<Rightarrow> nat" where
  "work_left s = 2 * length (tp_queue (pool_of s)) + sum_list (map worker_weight (tp_workers (pool_of s)))"

lemma weight_update: "w < length ws \<Longrightarrow>
    sum_list (map worker_weight (ws[w := v])) + worker_weight (ws ! w) = sum_list (map worker_weight ws) + worker_weight v"
proof (induction ws arbitrary: w)
  case (Cons x ws)
  then show ?case by (cases w) (fastforce simp: ac_simps)+
qed simp

lemma worker_step_less: "worker_step does s s' \<Longrightarrow> work_left s' < work_left s"
proof (erule worker_stepE)
  fix w p job queue
  assume "handler_take w (pool_of s) = Some p" "tp_queue (pool_of s) = job # queue"
    "s' = s\<lparr>pool_of := p, trace := trace s @ [Started job]\<rparr>"
  then show ?thesis
    using weight_update [of w "tp_workers (pool_of s)" "Running job"]
    by (auto simp: handler_take_def work_left_def split: if_splits)
next
  fix w p
  assume "handler_take w (pool_of s) = Some p" "tp_queue (pool_of s) = []" "s' = s\<lparr>pool_of := p\<rparr>"
  then show ?thesis
    using weight_update [of w "tp_workers (pool_of s)" Returned]
    by (auto simp: handler_take_def work_left_def split: if_splits)
next
  fix w p lines job
  assume "handler_run does w (pool_of s) = Some (p, lines)" "tp_workers (pool_of s) ! w = Running job"
    "s' = s\<lparr>pool_of := p, trace := trace s @ [Finished job], logged := logged s @ lines\<rparr>"
  then show ?thesis
    using weight_update [of w "tp_workers (pool_of s)" Waiting]
    by (auto simp: handler_run_def work_left_def split: if_splits)
qed

lemma worker_step_enabled:
  assumes "tp_stopping (pool_of s)" and "w \<in> set (tp_workers (pool_of s))" and "w \<noteq> Returned"
  shows "\<exists>s'. worker_step does s s'"
proof -
  obtain i where i: "i < length (tp_workers (pool_of s))" "tp_workers (pool_of s) ! i = w"
    using assms(2) by (auto simp: in_set_conv_nth)
  show ?thesis
  proof (cases w)
    case Waiting
    then have "\<exists>p. handler_take i (pool_of s) = Some p"
      using i assms(1) by (auto simp: handler_take_def split: list.splits)
    then show ?thesis
      by (cases "tp_queue (pool_of s)") (blast intro: worker_step.intros)+
  next
    case (Running job)
    then have "\<exists>p lines. handler_run does i (pool_of s) = Some (p, lines)"
      using i by (auto simp: handler_run_def)
    then show ?thesis using Running i by (blast intro: worker_step.intros)
  qed (use assms(3) in simp)
qed

section \<open>Properties\<close>

text \<open>C12. In every interleaving, jobs leave the queue in the order they were accepted, each exactly once: to a worker,
  or with the whole queue when the pool is charged or discharged by force. Every started job has finished or is in the
  hands of a worker, however the jobs before it ended: a job that throws takes no worker with it.\<close>

theorem pool_fifo:
  assumes "pool_reachable does s"
  shows "all_of accepted (trace s) = all_of left_queue (trace s) @ tp_queue (pool_of s) \<and>
    mset (all_of started (trace s)) = mset (all_of finished (trace s)) + in_hand (pool_of s) \<and>
    length (tp_workers (pool_of s)) = pool_size (pool_of s) \<and>
    (\<not> tp_stopping (pool_of s) \<longrightarrow> Returned \<notin> set (tp_workers (pool_of s)))"
  using pool_inv_reachable [OF assms] by (auto simp: pool_inv_def pool_size_def)

theorem pool_fifo_witness:
  "\<exists>s. pool_reachable (\<lambda>_. Foreign_exception) s \<and> trace s = [Dropped [], Accepted 7, Started 7, Finished 7] \<and>
     all_of accepted (trace s) = all_of left_queue (trace s) @ tp_queue (pool_of s) \<and>
     length (tp_workers (pool_of s)) = 1"
proof -
  let ?does = "\<lambda>_. Foreign_exception"
  let ?p = "new_pool\<lparr>tp_size := 1, tp_discharged := False, tp_workers := [Waiting]\<rparr>"
  let ?s1 = "new_system\<lparr>pool_of := ?p, trace := [Dropped []]\<rparr>"
  let ?s2 = "?s1\<lparr>pool_of := ?p\<lparr>tp_queue := [7]\<rparr>, trace := [Dropped [], Accepted 7]\<rparr>"
  let ?s3 = "?s2\<lparr>pool_of := ?p\<lparr>tp_workers := [Running 7]\<rparr>, trace := [Dropped [], Accepted 7, Started 7]\<rparr>"
  let ?s4 = "?s3\<lparr>pool_of := ?p, trace := [Dropped [], Accepted 7, Started 7, Finished 7],
    logged := job_log Foreign_exception\<rparr>"
  note defs = new_system_def new_pool_def charge_def execute_def handler_take_def handler_run_def
  have "pool_step ?does new_system ?s1"
    using charges [of new_system 1 ?p ?does] by (simp add: defs)
  then have 1: "pool_reachable ?does ?s1" by (rule step [OF start])
  have "pool_step ?does ?s1 ?s2"
    using executes [of 7 ?s1 "?p\<lparr>tp_queue := [7]\<rparr>" ?does] by (simp add: defs)
  then have 2: "pool_reachable ?does ?s2" by (rule step [OF 1])
  have "worker_step ?does ?s2 ?s3"
    using takes [of 0 ?s2 "?p\<lparr>tp_workers := [Running 7]\<rparr>" 7 "[]" ?does] by (simp add: defs)
  then have 3: "pool_reachable ?does ?s3" by (rule step [OF 2 works])
  have "worker_step ?does ?s3 ?s4"
    using finishes [of ?does 0 ?s3 ?p "job_log Foreign_exception" 7] by (simp add: defs)
  then have 4: "pool_reachable ?does ?s4" by (rule step [OF 3 works])
  show ?thesis using pool_fifo [OF 4] 4 by (intro exI [of _ ?s4]) (simp add: new_pool_def pool_size_def)
qed



text \<open>A queue within its limit stays within it, whatever step is taken, until the limit is set anew; a pool whose
  queue is full or that is stopping refuses the job.\<close>

theorem pool_queue_bounded:
  assumes "pool_step does s s'" and "tp_limit (pool_of s') = tp_limit (pool_of s)"
    and "queued (pool_of s) \<le> tp_limit (pool_of s)" and "0 < tp_limit (pool_of s)"
  shows "queued (pool_of s') \<le> tp_limit (pool_of s') \<and>
    (queued (pool_of s) = tp_limit (pool_of s) \<or> tp_stopping (pool_of s) \<longrightarrow> (\<exists>e. execute job (pool_of s) = Inl e))"
proof -
  have "queued (pool_of s') \<le> tp_limit (pool_of s')"
    using assms(1)
  proof (cases rule: pool_step.cases)
    case works
    then show ?thesis
      using assms(2,3) by cases (auto simp: handler_take_def handler_run_def queued_def split: if_splits list.splits worker.splits)
  qed (use assms(2-4) in \<open>auto simp: charge_def execute_def begin_discharge_def discharge_begin_def discharge_end_def
      set_limit_def queued_def split: if_splits\<close>)
  then show ?thesis using assms(3,4) by (simp add: execute_def queued_def)
qed

text \<open>A pool that was never charged accepts jobs, and the charge that would give it workers drops them without
  running any.\<close>

theorem pool_uncharged_drops:
  "\<exists>p p'. execute job new_pool = Inr p \<and> charge (Suc n) p = Inr p' \<and> tp_queue p = [job] \<and> tp_queue p' = [] \<and>
    tp_workers p' = replicate (Suc n) Waiting"
  by (simp add: execute_def charge_def new_pool_def)

end
