(* ===== verification/HTTP_Request.thy ===== *)
theory HTTP_Request
  imports Utility
begin

unbundle bit_operations_syntax

text \<open>
  \<open>HTTP/httprequest.cpp\<close>: the request a page is given. A \<open>std::map\<close> is a partial map; the \<open>String\<close> of an
  argument is its value. The exceptions of \<open>at\<close> on a missing key are \<open>OutOfBounds\<close>.
\<close>

section \<open>Variables\<close>

definition http_exception :: "string \<Rightarrow> exn" where "http_exception msg = ZiguratException 8779 msg"

definition bad_request :: exn where "bad_request = http_exception ''400 Bad Request''"

definition hex_digit :: "char \<Rightarrow> int" where
  "hex_digit ch =
     (let c = of_char ch in
      if 48 \<le> c \<and> c \<le> 57 then c - 48
      else if 97 \<le> c \<and> c \<le> 102 then c - 97 + 10
      else if 65 \<le> c \<and> c \<le> 70 then c - 65 + 10
      else -1)"

type_synonym vars = "(string \<rightharpoonup> string) \<times> (string \<rightharpoonup> string list)"

definition load_var :: "string \<Rightarrow> string \<Rightarrow> vars \<Rightarrow> vars" where
  "load_var name v vs =
     (case vs of (vars, array_vars) \<Rightarrow>
        let name = to_lower name in
        if length name > 2 \<and> name ! (length name - 2) = CHR ''['' \<and> name ! (length name - 1) = CHR '']'' then
          (case array_vars name of
             None \<Rightarrow> (vars, array_vars(name \<mapsto> [v]))
           | Some arr \<Rightarrow> (vars, array_vars(name \<mapsto> arr @ [v])))
        else (vars(name \<mapsto> v), array_vars))"

record query_state =
  q_path :: string
  q_fragment :: string
  q_name :: string
  q_value :: string
  q_vars :: vars

definition push_value :: "char \<Rightarrow> query_state \<Rightarrow> query_state" where
  "push_value c s = s\<lparr>q_value := q_value s @ [c]\<rparr>"

definition end_var :: "query_state \<Rightarrow> query_state" where
  "end_var s = s\<lparr>q_vars := load_var (q_name s) (q_value s) (q_vars s), q_name := [], q_value := []\<rparr>"

definition escaped_char :: "int \<Rightarrow> int \<Rightarrow> char" where
  "escaped_char hi lo = char_of (nat (push_bit 4 hi OR lo))"

function query_loop :: "string \<Rightarrow> query_state \<Rightarrow> query_state result" where
  "query_loop [] s = Inr s"
| "query_loop (ch # cs) s =
     (if ch = CHR ''+'' then query_loop cs (push_value (CHR '' '') s)
      else if ch = CHR ''%'' then
        (if length (ch # cs) < 3 then Inl bad_request
         else (let hi = hex_digit (cs ! 0); lo = hex_digit (cs ! 1) in
               if hi < 0 \<or> lo < 0 then Inl bad_request
               else query_loop (drop 2 cs) (push_value (escaped_char hi lo) s)))
      else if ch = CHR ''?'' then query_loop cs (s\<lparr>q_path := q_value s, q_value := []\<rparr>)
      else if ch = CHR ''='' then query_loop cs (s\<lparr>q_name := q_value s, q_value := []\<rparr>)
      else if ch = CHR ''&'' then query_loop cs (end_var s)
      else if ch = CHR ''#'' then
        (let s = (if length (q_path s) = 0 then s\<lparr>q_path := q_value s, q_value := []\<rparr> else end_var s)
         in Inr (s\<lparr>q_fragment := q_value s @ cs, q_value := []\<rparr>))
      else query_loop cs (push_value ch s))"
  by pat_completeness auto
termination
  by (relation "measure (\<lambda>(r, _). length r)") auto

definition load_query_vars :: "string \<Rightarrow> query_state result" where
  "load_query_vars uri =
     bind_res (query_loop uri \<lparr>q_path = [], q_fragment = [], q_name = [], q_value = [], q_vars = (Map.empty, Map.empty)\<rparr>)
       (\<lambda>s. Inr (if length (q_path s) = 0 then s\<lparr>q_path := q_value s, q_name := [], q_value := []\<rparr>
                 else if length (q_name s) > 0 then end_var s
                 else s))"

function post_loop :: "string \<Rightarrow> string \<times> string \<times> vars \<Rightarrow> (string \<times> string \<times> vars) result" where
  "post_loop [] s = Inr s"
| "post_loop (ch # cs) (var_name, var_value, vars) =
     (if ch = CHR ''+'' then post_loop cs (var_name, var_value @ [CHR '' ''], vars)
      else if ch = CHR ''%'' then
        (if length (ch # cs) < 3 then Inl bad_request
         else (let hi = hex_digit (cs ! 0); lo = hex_digit (cs ! 1) in
               if hi < 0 \<or> lo < 0 then Inl bad_request
               else post_loop (drop 2 cs) (var_name, var_value @ [escaped_char hi lo], vars)))
      else if ch = CHR ''='' then post_loop cs (var_value, [], vars)
      else if ch = CHR ''&'' then post_loop cs ([], [], load_var var_name var_value vars)
      else post_loop cs (var_name, var_value @ [ch], vars))"
  by pat_completeness auto
termination
  by (relation "measure (\<lambda>(r, _). length r)") auto

text \<open>No content is \<open>None\<close>.\<close>

definition load_post_vars :: "string option \<Rightarrow> vars result" where
  "load_post_vars content =
     (case content of
        None \<Rightarrow> Inr (Map.empty, Map.empty)
      | Some body \<Rightarrow>
          if length body = 0 then Inr (Map.empty, Map.empty)
          else bind_res (post_loop body ([], [], Map.empty, Map.empty)) (\<lambda>(var_name, var_value, vars).
            Inr (if length var_name > 0 then load_var var_name var_value vars else vars)))"

section \<open>The request\<close>

record http_request =
  r_method :: string
  r_uri :: string
  r_protocol :: string
  r_headers :: "string \<rightharpoonup> string"
  r_host :: string
  r_port :: string
  r_content :: "string option"
  r_content_length :: nat
  r_path :: string
  r_fragment :: string
  r_content_type :: string
  r_cookies :: "string \<rightharpoonup> string"
  r_query :: vars
  r_post :: vars

abbreviation trim_blanks :: "string \<Rightarrow> string" where
  "trim_blanks s \<equiv> trim s (CHR '' '')"

text \<open>The parameters of a content type become headers; the value is taken from \<open>parts[1]\<close> whatever the
  parameter.\<close>

definition type_parameters :: "string list \<Rightarrow> (string \<rightharpoonup> string) \<Rightarrow> (string \<rightharpoonup> string)" where
  "type_parameters parts headers =
     fold (\<lambda>part headers.
         let con_parts = split part (CHR ''='')
         in headers(trim_blanks (to_upper (con_parts ! 0)) \<mapsto> trim_blanks (parts ! 1)))
       (drop 1 parts) headers"

definition content_type_of :: "(string \<rightharpoonup> string) \<Rightarrow> string \<times> (string \<rightharpoonup> string)" where
  "content_type_of headers =
     (case headers ''CONTENT-TYPE'' of
        None \<Rightarrow> ([], headers)
      | Some content_type \<Rightarrow>
          let parts = split content_type (CHR '';'');
              content_type = trim_blanks (to_lower (parts ! 0));
              headers = headers(''CONTENT-TYPE'' \<mapsto> content_type)
          in (content_type, type_parameters parts headers))"

definition insert_cookie :: "string \<Rightarrow> (string \<rightharpoonup> string) \<Rightarrow> (string \<rightharpoonup> string)" where
  "insert_cookie cookie cookies =
     (let name_value = split cookie (CHR ''='');
          name = trim_blanks (name_value ! 0);
          v = (if length name_value > 1 then name_value ! 1 else [])
      in case cookies name of None \<Rightarrow> cookies(name \<mapsto> v) | Some _ \<Rightarrow> cookies)"

definition load_cookies :: "(string \<rightharpoonup> string) \<Rightarrow> (string \<rightharpoonup> string)" where
  "load_cookies headers =
     (case headers ''COOKIE'' of
        None \<Rightarrow> Map.empty
      | Some line \<Rightarrow> fold insert_cookie (split line (CHR '';'')) Map.empty)"

definition new_request :: "string \<Rightarrow> string \<Rightarrow> string \<Rightarrow> (string \<rightharpoonup> string) \<Rightarrow> string \<Rightarrow> string \<Rightarrow>
    string option \<Rightarrow> nat \<Rightarrow> http_request result" where
  "new_request method uri protocol headers host port content content_length =
     bind_res (load_query_vars uri) (\<lambda>q.
     let posted = (method = ''POST'' \<or> method = ''PUT'');
         (content_type, headers) = (if posted then content_type_of headers else ([], headers));
         form = (to_lower content_type \<in> {''application/x-www-form-urlencoded'', ''multipart/form-data''})
     in bind_res (if posted \<and> form then load_post_vars content else Inr (Map.empty, Map.empty)) (\<lambda>post.
       Inr \<lparr>r_method = method, r_uri = uri, r_protocol = protocol, r_headers = headers, r_host = host, r_port = port,
         r_content = content, r_content_length = content_length, r_path = q_path q, r_fragment = q_fragment q,
         r_content_type = content_type, r_cookies = load_cookies headers, r_query = q_vars q, r_post = post\<rparr>))"

section \<open>What a page asks\<close>

definition HEADER :: "http_request \<Rightarrow> string \<Rightarrow> string" where
  "HEADER r header =
     (let header = to_upper (trim_blanks header) in
      case r_headers r header of None \<Rightarrow> [] | Some v \<Rightarrow> v)"

definition HAS_HEADER :: "http_request \<Rightarrow> string \<Rightarrow> bool" where
  "HAS_HEADER r header = (let header = to_upper (trim_blanks header) in r_headers r header \<noteq> None)"

text \<open>\<open>operator[]\<close> inserts an empty value for a missing cookie.\<close>

definition COOKIE :: "http_request \<Rightarrow> string \<Rightarrow> string \<times> http_request" where
  "COOKIE r cookie =
     (case r_cookies r cookie of
        None \<Rightarrow> ([], r\<lparr>r_cookies := (r_cookies r)(cookie \<mapsto> [])\<rparr>)
      | Some v \<Rightarrow> (v, r))"

definition HAS_COOKIE :: "http_request \<Rightarrow> string \<Rightarrow> bool" where
  "HAS_COOKIE r cookie = (r_cookies r cookie \<noteq> None)"

definition at_key :: "(string \<rightharpoonup> 'a) \<Rightarrow> string \<Rightarrow> 'a result" where
  "at_key m k = (case m k of None \<Rightarrow> Inl OutOfBounds | Some v \<Rightarrow> Inr v)"

definition QUERY :: "http_request \<Rightarrow> string \<Rightarrow> string result" where
  "QUERY r name = at_key (fst (r_query r)) (to_lower name)"

definition HAS_QUERY :: "http_request \<Rightarrow> string \<Rightarrow> bool" where
  "HAS_QUERY r name = (fst (r_query r) name \<noteq> None)"

definition POST :: "http_request \<Rightarrow> string \<Rightarrow> string result" where
  "POST r name = at_key (fst (r_post r)) (to_lower (trim_blanks name))"

definition HAS_POST :: "http_request \<Rightarrow> string \<Rightarrow> bool" where
  "HAS_POST r name = (fst (r_post r) name \<noteq> None)"

definition ARRAY_QUERY :: "http_request \<Rightarrow> string \<Rightarrow> string list result" where
  "ARRAY_QUERY r name = at_key (snd (r_query r)) (to_lower name)"

definition HAS_ARRAY_QUERY :: "http_request \<Rightarrow> string \<Rightarrow> bool" where
  "HAS_ARRAY_QUERY r name = (snd (r_query r) name \<noteq> None)"

definition ARRAY_POST :: "http_request \<Rightarrow> string \<Rightarrow> string list result" where
  "ARRAY_POST r name = at_key (snd (r_post r)) (to_lower (trim_blanks name))"

definition HAS_ARRAY_POST :: "http_request \<Rightarrow> string \<Rightarrow> bool" where
  "HAS_ARRAY_POST r name = (snd (r_post r) name \<noteq> None)"

section \<open>Escapes\<close>

lemma hex_digit_range: "0 \<le> hex_digit c \<Longrightarrow> hex_digit c < 16"
  by (simp add: hex_digit_def Let_def split: if_splits)

lemma hex_digit_percent [simp]: "hex_digit (CHR ''%'') = - 1"
  by (simp add: hex_digit_def)

text \<open>Where a body has an escape that is none.\<close>

definition bad_escape_at :: "string \<Rightarrow> nat \<Rightarrow> bool" where
  "bad_escape_at body i \<longleftrightarrow>
     i < length body \<and> body ! i = CHR ''%'' \<and>
     \<not> (i + 2 < length body \<and> 0 \<le> hex_digit (body ! (i + 1)) \<and> 0 \<le> hex_digit (body ! (i + 2)))"

definition bad_escape :: "string \<Rightarrow> bool" where
  "bad_escape body \<longleftrightarrow> (\<exists>i < length body. bad_escape_at body i)"

lemma bad_escape_iff: "bad_escape body \<longleftrightarrow> (\<exists>i. bad_escape_at body i)"
  by (auto simp: bad_escape_def bad_escape_at_def)

lemma bad_escape_Cons: "bad_escape (c # cs) \<longleftrightarrow>
    c = CHR ''%'' \<and> \<not> (2 \<le> length cs \<and> 0 \<le> hex_digit (cs ! 0) \<and> 0 \<le> hex_digit (cs ! 1)) \<or> bad_escape cs"
proof -
  have "(\<exists>i. bad_escape_at (c # cs) i) \<longleftrightarrow> bad_escape_at (c # cs) 0 \<or> (\<exists>i. bad_escape_at (c # cs) (Suc i))"
    by (metis not0_implies_Suc)
  moreover have "bad_escape_at (c # cs) (Suc i) \<longleftrightarrow> bad_escape_at cs i" for i
    by (auto simp: bad_escape_at_def)
  ultimately show ?thesis
    by (auto simp: bad_escape_iff bad_escape_at_def)
qed

lemma bad_escape_drop:
  assumes "2 \<le> length cs" "0 \<le> hex_digit (cs ! 0)" "0 \<le> hex_digit (cs ! 1)"
  shows "bad_escape (drop 2 cs) \<longleftrightarrow> bad_escape cs"
proof -
  obtain a b r where cs: "cs = a # b # r"
    using assms(1) by (cases cs; cases "tl cs") auto
  have "a \<noteq> CHR ''%''" "b \<noteq> CHR ''%''" using assms(2,3) by (auto simp: cs)
  then show ?thesis by (simp add: cs bad_escape_Cons)
qed

lemma post_loop_escapes:
  "(case post_loop body s of Inl e \<Rightarrow> e = bad_request \<and> bad_escape body | Inr _ \<Rightarrow> \<not> bad_escape body)"
proof (induction body s rule: post_loop.induct)
  case (1 s)
  then show ?case by (simp add: bad_escape_def)
next
  case (2 ch cs var_name var_value vars)
  show ?case
  proof (cases "ch = CHR ''%''")
    case False
    then have same: "bad_escape (ch # cs) = bad_escape cs" by (simp add: bad_escape_Cons)
    consider "ch = CHR ''+''" | "ch = CHR ''=''" | "ch = CHR ''&''"
      | "ch \<noteq> CHR ''+''" "ch \<noteq> CHR ''=''" "ch \<noteq> CHR ''&''" by blast
    then show ?thesis by cases (use 2(1,3-5) False same in \<open>simp_all split: sum.splits\<close>)
  next
    case True
    then show ?thesis
      using 2(2) [OF _ _ _ refl refl] bad_escape_drop [of cs] by (auto simp: bad_escape_Cons Let_def split: sum.splits)
  qed
qed

section \<open>Forms\<close>

text \<open>\<open>application/x-www-form-urlencoded\<close>, as a browser writes it.\<close>

definition hex_char :: "nat \<Rightarrow> char" where
  "hex_char n = (if n < 10 then char_of (48 + n) else char_of (55 + n))"

definition plain_char :: "char \<Rightarrow> bool" where
  "plain_char c \<longleftrightarrow>
     (48 :: nat) \<le> of_char c \<and> of_char c \<le> (57 :: nat) \<or> (65 :: nat) \<le> of_char c \<and> of_char c \<le> (90 :: nat) \<or>
     (97 :: nat) \<le> of_char c \<and> of_char c \<le> (122 :: nat) \<or> c \<in> {CHR ''-'', CHR ''_'', CHR ''.'', CHR ''*''}"

definition form_char :: "char \<Rightarrow> string" where
  "form_char c =
     (if plain_char c then [c]
      else if c = CHR '' '' then [CHR ''+'']
      else [CHR ''%'', hex_char (of_char c div 16), hex_char (of_char c mod 16)])"

definition form_text :: "string \<Rightarrow> string" where
  "form_text s = concat (map form_char s)"

fun form_fields :: "(string \<times> string) list \<Rightarrow> string" where
  "form_fields [] = []"
| "form_fields [(n, v)] = form_text n @ CHR ''='' # form_text v"
| "form_fields ((n, v) # f # fs) = form_text n @ CHR ''='' # form_text v @ CHR ''&'' # form_fields (f # fs)"

lemma plain_char_special: "plain_char c \<Longrightarrow> c \<notin> {CHR ''+'', CHR ''%'', CHR ''?'', CHR ''='', CHR ''&'', CHR ''#''}"
  by (auto simp: plain_char_def)

lemma hex_char_digit: "n < 16 \<Longrightarrow> hex_digit (hex_char n) = int n"
proof -
  have "list_all (\<lambda>n. hex_digit (hex_char n) = int n) [0..<16]" by code_simp
  then show "n < 16 \<Longrightarrow> hex_digit (hex_char n) = int n" by (simp only: list_all_iff set_upt) simp
qed

lemma form_char_escape:
  assumes "\<not> plain_char c" and "c \<noteq> CHR '' ''"
  shows "hex_digit (hex_char (of_char c div 16)) = int (of_char c div 16)"
    and "hex_digit (hex_char (of_char c mod 16)) = int (of_char c mod 16)"
    and "escaped_char (int (of_char c div 16)) (int (of_char c mod 16)) = c"
proof -
  have "of_char c < (256 :: nat)" by (rule nat_of_char_less_256)
  then have "of_char c div 16 < (16 :: nat)" by linarith
  then show "hex_digit (hex_char (of_char c div 16)) = int (of_char c div 16)" by (rule hex_char_digit)
  show "hex_digit (hex_char (of_char c mod 16)) = int (of_char c mod 16)" by (rule hex_char_digit) simp
  have "push_bit 4 (int (of_char c div 16)) OR int (of_char c mod 16) = push_bit 4 (int (of_char c div 16)) + int (of_char c mod 16)"
    by (rule disjunctive_add [symmetric])
      (auto simp: bit_push_bit_iff bit_of_nat_iff_bit bit_take_bit_iff simp flip: take_bit_eq_mod [of 4, simplified])
  then show "escaped_char (int (of_char c div 16)) (int (of_char c mod 16)) = c"
    by (simp add: escaped_char_def push_bit_eq_mult nat_add_distrib nat_mult_distrib)
qed

lemma post_loop_plain: "plain_char c \<Longrightarrow> post_loop (c # cs) (n, v, vs) = post_loop cs (n, v @ [c], vs)"
  by (auto dest: plain_char_special)

lemma post_loop_text: "post_loop (form_text t @ cs) (n, v, vs) = post_loop cs (n, v @ t, vs)"
proof (induction t arbitrary: v)
  case (Cons c t)
  show ?case
  proof (cases "plain_char c \<or> c = CHR '' ''")
    case True
    then show ?thesis using Cons post_loop_plain [of c "form_text t @ cs" n v vs] by (auto simp: form_text_def form_char_def)
  next
    case False
    then show ?thesis using Cons form_char_escape [of c] by (simp add: form_text_def form_char_def Let_def)
  qed
qed (simp add: form_text_def)

lemma post_loop_fields:
  "fs \<noteq> [] \<Longrightarrow> post_loop (form_fields fs) ([], [], vs) =
    Inr (fst (List.last fs), snd (List.last fs), fold (\<lambda>(n, v). load_var n v) (butlast fs) vs)"
proof (induction fs arbitrary: vs rule: form_fields.induct)
  case (2 n v)
  then show ?case
    using post_loop_text [of n "CHR ''='' # form_text v" "[]" "[]" vs] post_loop_text [of v "[]" n "[]" vs] by simp
next
  case (3 n v f fs)
  then show ?case
    using post_loop_text [of n "CHR ''='' # form_text v @ CHR ''&'' # form_fields (f # fs)" "[]" "[]" vs]
      post_loop_text [of v "CHR ''&'' # form_fields (f # fs)" n "[]" vs] by simp
qed simp

lemma query_loop_plain: "plain_char c \<Longrightarrow> query_loop (c # cs) s = query_loop cs (push_value c s)"
  by (auto dest: plain_char_special)

lemma query_loop_text: "query_loop (form_text t @ cs) s = query_loop cs (s\<lparr>q_value := q_value s @ t\<rparr>)"
proof (induction t arbitrary: s)
  case (Cons c t)
  show ?case
  proof (cases "plain_char c \<or> c = CHR '' ''")
    case True
    then show ?thesis
      using Cons query_loop_plain [of c "form_text t @ cs" s] by (auto simp: form_text_def form_char_def push_value_def)
  next
    case False
    then show ?thesis
      using Cons form_char_escape [of c] by (simp add: form_text_def form_char_def Let_def push_value_def)
  qed
qed (simp add: form_text_def)

lemma query_loop_fields:
  "fs \<noteq> [] \<Longrightarrow> query_loop (form_fields fs) (s\<lparr>q_name := [], q_value := []\<rparr>) =
    Inr (s\<lparr>q_name := fst (List.last fs), q_value := snd (List.last fs),
      q_vars := fold (\<lambda>(n, v). load_var n v) (butlast fs) (q_vars s)\<rparr>)"
proof (induction fs arbitrary: s rule: form_fields.induct)
  case (2 n v)
  then show ?case
    using query_loop_text [of n "CHR ''='' # form_text v" "s\<lparr>q_name := [], q_value := []\<rparr>"]
      query_loop_text [of v "[]" "s\<lparr>q_name := n, q_value := []\<rparr>"] by simp
next
  case (3 n v f fs)
  then show ?case
    using query_loop_text [of n "CHR ''='' # form_text v @ CHR ''&'' # form_fields (f # fs)" "s\<lparr>q_name := [], q_value := []\<rparr>"]
      query_loop_text [of v "CHR ''&'' # form_fields (f # fs)" "s\<lparr>q_name := n, q_value := []\<rparr>"]
      3(1) [of "s\<lparr>q_vars := load_var n v (q_vars s)\<rparr>"]
    by (simp add: end_var_def)
qed simp

lemma fold_last: "fs \<noteq> [] \<Longrightarrow> f (List.last fs) (fold f (butlast fs) a) = fold f fs a"
  by (induction fs rule: rev_induct) simp_all

section \<open>Properties\<close>

text \<open>A body is refused with 400 exactly when one of its percent signs is not followed by two hexadecimal digits,
  and accepted otherwise; an escape at the very end of the body is as good as any other.\<close>

theorem post_escapes:
  "(load_post_vars (Some body) = Inl bad_request \<longleftrightarrow> bad_escape body) \<and>
   ((\<exists>vs. load_post_vars (Some body) = Inr vs) \<longleftrightarrow> \<not> bad_escape body)"
  using post_loop_escapes [of body "([], [], Map.empty, Map.empty)"]
  by (cases "body = []") (auto simp: load_post_vars_def bad_escape_def split: sum.splits)

text \<open>Fields written as a browser writes them are read back: the names and values of a posted form, and of the query
  of an address, whatever octets they hold, in their order, an equal name replacing the former value and an array name
  adding to it. The path of the address is the one written.\<close>

theorem form_roundtrip:
  assumes "fs \<noteq> []" and "fst (List.last fs) \<noteq> []" and "path \<noteq> []"
  shows "load_post_vars (Some (form_fields fs)) = Inr (fold (\<lambda>(n, v). load_var n v) fs (Map.empty, Map.empty)) \<and>
    load_query_vars (form_text path @ CHR ''?'' # form_fields fs) =
      Inr \<lparr>q_path = path, q_fragment = [], q_name = [], q_value = [],
        q_vars = fold (\<lambda>(n, v). load_var n v) fs (Map.empty, Map.empty)\<rparr>"
proof -
  let ?load = "\<lambda>(n, v). load_var n v"
  have "form_fields fs \<noteq> []" using assms(1) by (cases fs rule: form_fields.cases) simp_all
  then have "load_post_vars (Some (form_fields fs)) =
      Inr (load_var (fst (List.last fs)) (snd (List.last fs)) (fold ?load (butlast fs) (Map.empty, Map.empty)))"
    using assms(2) by (simp add: load_post_vars_def post_loop_fields [OF assms(1)])
  moreover have "load_query_vars (form_text path @ CHR ''?'' # form_fields fs) =
      Inr \<lparr>q_path = path, q_fragment = [], q_name = [], q_value = [],
        q_vars = load_var (fst (List.last fs)) (snd (List.last fs)) (fold ?load (butlast fs) (Map.empty, Map.empty))\<rparr>"
    using assms(2,3) query_loop_fields [OF assms(1),
        of "\<lparr>q_path = path, q_fragment = [], q_name = [], q_value = [], q_vars = (Map.empty, Map.empty)\<rparr>"]
    by (simp add: load_query_vars_def query_loop_text end_var_def)
  ultimately show ?thesis
    using fold_last [OF assms(1), of ?load "(Map.empty, Map.empty)"] by (simp add: case_prod_unfold)
qed

text \<open>The path of a request is not the text before its first question mark: every further question mark makes the
  text between it and the last separator the path, and an equals sign before the first one cuts the path at its
  left.\<close>

theorem path_confusion:
  assumes "list_all plain_char x" and "x \<noteq> []" and "list_all plain_char y" and "list_all plain_char p"
  shows "map_sum id q_path (load_query_vars (p @ CHR ''?'' # x @ CHR ''?'' # y)) = Inr x \<and>
    map_sum id q_path (load_query_vars (p @ CHR ''='' # x @ CHR ''?'' # y)) = Inr x"
proof -
  have t: "form_text t = t" if "list_all plain_char t" for t
    using that by (induction t) (simp_all add: form_text_def form_char_def)
  show ?thesis
    using query_loop_text [of x] query_loop_text [of y "[]"] query_loop_text [of p] assms(2)
    by (simp add: load_query_vars_def t [OF assms(1)] t [OF assms(3)] t [OF assms(4)] end_var_def)
qed

end
