(* ===== verification/HTTP_Server.thy ===== *)
theory HTTP_Server
  imports HTTP_Request
begin

text \<open>
  \<open>HTTPServer::handle_client\<close> of \<open>HTTP/httpserver.cpp\<close>: the conversation on one connection. The input is what the
  peer sends before it closes; the result is the requests handed to the handler, in their order, and how the
  conversation ended. The handler is not part of the model, and what it answers with is in \<open>HTTP_Response\<close>; what is answered to a
  refused request is here.
\<close>

section \<open>Reading\<close>

text \<open>\<open>std::getline\<close> on a good stream: the line, what follows it, and whether the end was met.\<close>

fun getline :: "string \<Rightarrow> string \<times> string \<times> bool" where
  "getline [] = ([], [], True)"
| "getline (c # cs) =
     (if c = CHR 0x0A then ([], cs, False)
      else (case getline cs of (line, r, eof) \<Rightarrow> (c # line, r, eof)))"

lemma getline_length: "getline cs = (line, r, False) \<Longrightarrow> length r < length cs"
  by (induction cs arbitrary: line) (auto split: if_splits prod.splits)

text \<open>\<open>strtoull\<close> of a string of digits.\<close>

definition strtoull :: "string \<Rightarrow> nat" where
  "strtoull s = min (foldl (\<lambda>n c. 10 * n + (of_char c - 48)) 0 s) (2 ^ 64 - 1)"

definition digits :: string where "digits = ''0123456789''"

definition drop_CR :: "string \<Rightarrow> string" where
  "drop_CR line = (if length line > 0 \<and> line ! (length line - 1) = CHR 0x0D then take (length line - 1) line else line)"

section \<open>One connection\<close>

record limits =
  max_uri_length :: nat
  max_headers_length :: nat
  max_content_length :: nat

text \<open>What is known of the request being read.\<close>

record head =
  hd_method :: string
  hd_uri :: string
  hd_protocol :: string
  hd_headers :: "string \<rightharpoonup> string"
  hd_headers_length :: nat
  hd_authority :: string

definition new_head :: head where
  "new_head = \<lparr>hd_method = [], hd_uri = [], hd_protocol = [], hd_headers = Map.empty, hd_headers_length = 0,
     hd_authority = []\<rparr>"

definition absolute_form :: "string \<Rightarrow> string option \<times> string" where
  "absolute_form uri =
     (let scheme = (if take 7 uri = ''http://'' then 7 else if take 8 uri = ''https://'' then 8 else 0) in
      if scheme > 0 then
        (case find_from ''/'' uri scheme of
           None \<Rightarrow> (Some (substr uri scheme (length uri)), ''/'')
         | Some slash \<Rightarrow> (Some (substr uri scheme (slash - scheme)), drop slash uri))
      else (None, uri))"

definition request_line :: "limits \<Rightarrow> string \<Rightarrow> head \<Rightarrow> head result" where
  "request_line lim line h =
     (let parts = split line (CHR '' '') in
      if length parts = 3 then
        (let method = trim_blanks (parts ! 0);
             uri = trim_blanks (parts ! 1);
             protocol = trim_blanks (parts ! 2);
             (authority, uri) = (case absolute_form uri of (None, u) \<Rightarrow> (hd_authority h, u) | (Some a, u) \<Rightarrow> (a, u))
         in if method \<notin> {''GET'', ''HEAD'', ''POST'', ''PUT'', ''DELETE''} then Inl (http_exception ''501 Not Implemented'')
            else if length method = 0 \<or> length uri = 0 \<or> length protocol = 0 then Inl bad_request
            else if length uri > max_uri_length lim then Inl (http_exception ''414 URI Too Long'')
            else Inr (h\<lparr>hd_method := method, hd_uri := uri, hd_protocol := protocol, hd_authority := authority\<rparr>))
      else Inl bad_request)"

definition field_value_of :: "string list \<Rightarrow> string" where
  "field_value_of parts =
     (if length parts = 2 then trim_blanks (parts ! 1)
      else fold (\<lambda>part ss. ss @ CHR '':'' # trim_blanks part) (drop 2 parts) (trim_blanks (parts ! 1)))"

definition header_line :: "string \<Rightarrow> head \<Rightarrow> head result" where
  "header_line line h =
     (let parts = split line (CHR '':'') in
      if length parts > 1 then
        (let field_name = to_upper (parts ! 0) in
         if field_name = [] then Inl OutOfBounds
         else if field_name ! (length field_name - 1) = CHR '' '' \<or> field_name ! (length field_name - 1) = CHR 0x09
         then Inl bad_request
         else
           (let field_value = field_value_of parts in
            case hd_headers h field_name of
              None \<Rightarrow> Inr (h\<lparr>hd_headers := (hd_headers h)(field_name \<mapsto> field_value)\<rparr>)
            | Some v \<Rightarrow>
                if field_name = ''HOST'' \<or> field_name = ''CONTENT_LENGTH'' then Inl bad_request
                else Inr (h\<lparr>hd_headers := (hd_headers h)(field_name \<mapsto> v @ '','' @ field_value)\<rparr>)))
      else Inl bad_request)"

text \<open>The body of a POST: its length and its octets, \<open>available\<close> being what the stream still gives.\<close>

definition read_payload :: "limits \<Rightarrow> (string \<rightharpoonup> string) \<Rightarrow> string \<Rightarrow> (nat \<times> string) result" where
  "read_payload lim headers available =
     (case headers ''CONTENT-LENGTH'' of
        None \<Rightarrow> Inl (http_exception ''411 Length Required'')
      | Some declared \<Rightarrow>
          if declared = [] \<or> \<not> set declared \<subseteq> set digits then Inl bad_request
          else
            (let content_length = strtoull declared in
             if content_length > max_content_length lim then Inl (http_exception ''413 Payload Too Large'')
             else if length available < content_length then Inl bad_request
             else Inr (content_length, take content_length available)))"

text \<open>The end of the headers: the request, and how many octets of the input were its body.\<close>

definition end_of_headers :: "limits \<Rightarrow> head \<Rightarrow> string \<Rightarrow> (http_request \<times> nat) result" where
  "end_of_headers lim h available =
     (let headers = (if hd_authority h \<noteq> [] then (hd_headers h)(''HOST'' \<mapsto> hd_authority h) else hd_headers h) in
      case headers ''HOST'' of
        None \<Rightarrow> Inl bad_request
      | Some host_port \<Rightarrow>
          (let parts = split host_port (CHR '':'');
               host = parts ! 0;
               port = (if length parts = 2 then parts ! 1 else [])
           in bind_res
                (if hd_method h = ''GET'' then Inr (None, 0)
                 else if hd_method h = ''POST'' then
                   bind_res (read_payload lim headers available) (\<lambda>(n, payload). Inr (Some payload, n))
                 else Inl (http_exception ''501 Not Implemented''))
                (\<lambda>(content, content_length).
                  bind_res (new_request (hd_method h) (hd_uri h) (hd_protocol h) headers host port content content_length)
                    (\<lambda>request. Inr (request, content_length)))))"

text \<open>What a line leads to: the head that is read next, a request to serve, and the octets its body took.\<close>

definition handle_line ::
  "limits \<Rightarrow> string \<Rightarrow> string \<Rightarrow> head \<Rightarrow> (head \<times> http_request list \<times> nat) result" where
  "handle_line lim line available h =
     (let line = drop_CR line;
          h = h\<lparr>hd_headers_length := hd_headers_length h + length line + 2\<rparr>
      in if max_headers_length lim > 0 \<and> hd_headers_length h > max_headers_length lim
         then Inl (http_exception ''431 Request Header Fields Too Large'')
         else if length line = 0 then
           bind_res (end_of_headers lim h available) (\<lambda>(request, n). Inr (new_head, [request], n))
         else if length (hd_method h) = 0 then bind_res (request_line lim line h) (\<lambda>h. Inr (h, [], 0))
         else bind_res (header_line line h) (\<lambda>h. Inr (h, [], 0)))"

datatype ending = Closed | Refused exn

function handle_client :: "limits \<Rightarrow> head \<Rightarrow> string \<Rightarrow> http_request list \<times> ending" where
  "handle_client lim h input =
     (case getline input of (line, following, eof) \<Rightarrow>
        if line = [] \<and> eof then ([], Closed)
        else
          (case handle_line lim line (if eof then [] else following) h of
             Inl e \<Rightarrow> ([], Refused e)
           | Inr (h, requests, n) \<Rightarrow>
               if eof then (requests, Closed)
               else (case handle_client lim h (drop n following) of (others, ending) \<Rightarrow> (requests @ others, ending))))"
  by pat_completeness auto
termination
  by (relation "measure (\<lambda>(_, _, input). length input)") (auto dest!: getline_length [OF sym])

declare handle_client.simps [simp del]

text \<open>The answer to a refused request, from the status of the exception.\<close>

fun decimal :: "nat \<Rightarrow> string" where
  "decimal n = (if n < 10 then [digits ! n] else decimal (n div 10) @ [digits ! (n mod 10)])"

declare decimal.simps [simp del]

definition refusal :: "string \<Rightarrow> string" where
  "refusal status =
     (let crlf = [CHR 0x0D, CHR 0x0A]; body = status @ [CHR 0x0A] in
      ''HTTP/1.1 '' @ status @ crlf @ ''Content-Type: text/plain; charset=utf-8'' @ crlf @
      ''Content-Length: '' @ decimal (length body) @ crlf @ ''Connection: close'' @ crlf @ crlf @ body)"

section \<open>Limits\<close>

definition head_within :: "limits \<Rightarrow> head \<Rightarrow> bool" where
  "head_within lim h \<longleftrightarrow>
     (hd_method h \<noteq> [] \<longrightarrow> hd_method h \<in> {''GET'', ''HEAD'', ''POST'', ''PUT'', ''DELETE''} \<and> hd_uri h \<noteq> [] \<and>
       length (hd_uri h) \<le> max_uri_length lim \<and> hd_protocol h \<noteq> [])"

definition request_within :: "limits \<Rightarrow> http_request \<Rightarrow> bool" where
  "request_within lim r \<longleftrightarrow>
     r_method r \<in> {''GET'', ''POST''} \<and> r_uri r \<noteq> [] \<and> length (r_uri r) \<le> max_uri_length lim \<and>
     r_headers r ''HOST'' \<noteq> None \<and> r_content_length r \<le> max_content_length lim \<and>
     (case r_content r of
        None \<Rightarrow> r_method r = ''GET'' \<and> r_content_length r = 0
      | Some body \<Rightarrow> r_method r = ''POST'' \<and> length body = r_content_length r)"

lemma type_parameters_keeps: "headers k \<noteq> None \<Longrightarrow> type_parameters parts headers k \<noteq> None"
proof -
  have "headers k \<noteq> None \<Longrightarrow>
      fold (\<lambda>part headers. headers(f part \<mapsto> v)) ps headers k \<noteq> None" for f ps and v :: string
    by (induction ps arbitrary: headers) simp_all
  then show "headers k \<noteq> None \<Longrightarrow> type_parameters parts headers k \<noteq> None"
    unfolding type_parameters_def Let_def .
qed

lemma content_type_of_keeps: "headers k \<noteq> None \<Longrightarrow> snd (content_type_of headers) k \<noteq> None"
proof (cases "headers ''CONTENT-TYPE''")
  case (Some v)
  assume "headers k \<noteq> None"
  then have "(headers(''CONTENT-TYPE'' \<mapsto> u)) k \<noteq> None" for u by simp
  then show ?thesis
    using Some type_parameters_keeps [of "headers(''CONTENT-TYPE'' \<mapsto> u)" k for u] by (simp add: content_type_of_def Let_def)
qed (simp add: content_type_of_def)

lemma new_request_Inr:
  assumes "new_request method uri protocol headers host port content n = Inr r"
  shows "r_method r = method" "r_uri r = uri" "r_content r = content" "r_content_length r = n"
    and "headers k \<noteq> None \<Longrightarrow> r_headers r k \<noteq> None"
proof -
  let ?h = "if method = ''POST'' \<or> method = ''PUT'' then content_type_of headers else ([], headers)"
  have "headers k \<noteq> None \<Longrightarrow> snd ?h k \<noteq> None" using content_type_of_keeps by simp
  then show "r_method r = method" "r_uri r = uri" "r_content r = content" "r_content_length r = n"
    and "headers k \<noteq> None \<Longrightarrow> r_headers r k \<noteq> None"
    using assms by (cases "method = ''POST'' \<or> method = ''PUT''";
      auto simp: new_request_def bind_res_Inr_iff Let_def split: prod.splits)+
qed

lemma read_payload_within:
  "read_payload lim headers available = Inr (n, body) \<Longrightarrow> length body = n \<and> n \<le> max_content_length lim"
  by (auto simp: read_payload_def Let_def split: option.splits if_splits)

lemma end_of_headers_within:
  assumes "end_of_headers lim h available = Inr (r, n)" and "head_within lim h"
  shows "request_within lim r"
proof -
  let ?headers = "if hd_authority h \<noteq> [] then (hd_headers h)(''HOST'' \<mapsto> hd_authority h) else hd_headers h"
  obtain host port content m where
    host: "?headers ''HOST'' \<noteq> None" and
    content: "(if hd_method h = ''GET'' then Inr (None, 0)
       else if hd_method h = ''POST'' then
         bind_res (read_payload lim ?headers available) (\<lambda>(n, payload). Inr (Some payload, n))
       else Inl (http_exception ''501 Not Implemented'')) = Inr (content, m)" and
    request: "new_request (hd_method h) (hd_uri h) (hd_protocol h) ?headers host port content m = Inr r"
    using assms(1) by (auto simp: end_of_headers_def bind_res_Inr_iff Let_def simp del: if_split split: option.splits)
  show ?thesis
    using content assms(2) host new_request_Inr [OF request] read_payload_within
    by (auto simp: request_within_def head_within_def bind_res_Inr_iff simp del: if_split split: if_splits option.splits)
      (metis)+
qed

lemma handle_line_within:
  assumes "handle_line lim line available h = Inr (h', rs, n)" and "head_within lim h"
  shows "head_within lim h' \<and> (\<forall>r \<in> set rs. request_within lim r)"
proof -
  let ?h = "h\<lparr>hd_headers_length := hd_headers_length h + length (drop_CR line) + 2\<rparr>"
  have h: "head_within lim ?h" using assms(2) by (simp add: head_within_def)
  have request: "head_within lim h'" if "request_line lim l ?h = Inr h'" for l
    using that by (auto simp: request_line_def head_within_def Let_def split: if_splits prod.splits)
  have header: "head_within lim h'" if "header_line l ?h = Inr h'" for l
    using that h by (auto simp: header_line_def head_within_def Let_def split: if_splits option.splits)
  show ?thesis
    using assms(1) h request header end_of_headers_within [of lim ?h available _ n]
    by (auto simp: handle_line_def Let_def bind_res_Inr_iff new_head_def split: if_splits)
      (auto simp: head_within_def)
qed

lemma handle_client_within:
  "head_within lim h \<Longrightarrow> \<forall>r \<in> set (fst (handle_client lim h input)). request_within lim r"
proof (induction lim h input rule: handle_client.induct)
  case (1 lim h input)
  obtain line following eof where g: "getline input = (line, following, eof)" by (cases "getline input") auto
  show ?case
  proof (cases "handle_line lim line (if eof then [] else following) h")
    case (Inr res)
    obtain h' rs n where res: "res = (h', rs, n)" by (cases res) auto
    have "head_within lim h'" "\<forall>r \<in> set rs. request_within lim r"
      using handle_line_within [OF Inr [unfolded res] 1(2)] by auto
    then show ?thesis
      using 1(1) [OF g [symmetric] refl _ Inr [unfolded res] refl refl] g Inr
      by (auto simp: handle_client.simps [of lim h input] res split: prod.splits)
  qed (simp add: handle_client.simps [of lim h input] g)
qed

section \<open>A conversation\<close>

text \<open>What a client writes: a request line, header lines and a body, one after the other.\<close>

record wire_request =
  w_method :: string
  w_uri :: string
  w_headers :: "(string \<times> string) list"
  w_body :: string

definition crlf :: string where "crlf = [CHR 0x0D, CHR 0x0A]"

definition wire_header :: "string \<times> string \<Rightarrow> string" where
  "wire_header f = fst f @ CHR '':'' # snd f @ crlf"

definition wire :: "wire_request \<Rightarrow> string" where
  "wire w = w_method w @ CHR '' '' # w_uri w @ CHR '' '' # ''HTTP/1.1'' @ crlf @
     concat (map wire_header (w_headers w)) @ crlf @ w_body w"

text \<open>The value a header line is read as: blanks around it and around its colons are lost.\<close>

definition read_value :: "string \<Rightarrow> string" where
  "read_value v = field_value_of ([] # split v (CHR '':''))"

definition store_field :: "string \<times> string \<Rightarrow> (string \<rightharpoonup> string) \<Rightarrow> (string \<rightharpoonup> string)" where
  "store_field f m = m(fst f \<mapsto> read_value (snd f))"

definition headers_of :: "wire_request \<Rightarrow> (string \<rightharpoonup> string)" where
  "headers_of w = fold store_field (w_headers w) Map.empty"

definition head_length :: "wire_request \<Rightarrow> nat" where
  "head_length w = length (wire w) - length (w_body w)"

definition field_ok :: "string \<times> string \<Rightarrow> bool" where
  "field_ok f \<longleftrightarrow>
     fst f \<noteq> [] \<and> to_upper (fst f) = fst f \<and> set (fst f) \<inter> {CHR '':'', CHR 0x0A, CHR '' '', CHR 0x09} = {} \<and>
     CHR 0x0A \<notin> set (snd f)"

definition wire_ok :: "limits \<Rightarrow> wire_request \<Rightarrow> bool" where
  "wire_ok lim w \<longleftrightarrow>
     w_uri w \<noteq> [] \<and> List.hd (w_uri w) = CHR ''/'' \<and> set (w_uri w) \<inter> {CHR '' '', CHR 0x0A} = {} \<and>
     length (w_uri w) \<le> max_uri_length lim \<and>
     distinct (map fst (w_headers w)) \<and> list_all field_ok (w_headers w) \<and>
     ''HOST'' \<in> set (map fst (w_headers w)) \<and>
     (max_headers_length lim = 0 \<or> head_length w \<le> max_headers_length lim) \<and>
     (w_method w = ''GET'' \<and> w_body w = [] \<or>
      w_method w = ''POST'' \<and> headers_of w ''CONTENT-LENGTH'' = Some (decimal (length (w_body w))) \<and>
        length (w_body w) \<le> max_content_length lim \<and> max_content_length lim < 2 ^ 64)"

definition request_of :: "wire_request \<Rightarrow> http_request result" where
  "request_of w =
     (let parts = split (the (headers_of w ''HOST'')) (CHR '':'') in
      new_request (w_method w) (w_uri w) ''HTTP/1.1'' (headers_of w) (parts ! 0)
        (if length parts = 2 then parts ! 1 else [])
        (if w_method w = ''POST'' then Some (w_body w) else None) (length (w_body w)))"

text \<open>Lines.\<close>

lemma getline_line: "CHR 0x0A \<notin> set l \<Longrightarrow> getline (l @ CHR 0x0A # r) = (l, r, False)"
  by (induction l) auto

lemma drop_CR_line [simp]: "drop_CR (l @ [CHR 0x0D]) = l"
  by (simp add: drop_CR_def nth_append)

lemma split_loop_piece: "d \<notin> set a \<Longrightarrow> split_loop (a @ d # b) d tmp splits = split_loop b d [] (splits @ [tmp @ a])"
  by (induction a arbitrary: tmp) auto

lemma split_loop_acc: "split_loop s d tmp splits = splits @ split_loop s d tmp []"
proof (induction s arbitrary: tmp splits)
  case (Cons c s)
  show ?case
  proof (cases "c = d")
    case True
    then show ?thesis using Cons [of "[]" "[tmp]"] by (simp add: Cons [of "[]" "splits @ [tmp]"])
  next
    case False
    then show ?thesis using Cons [of "tmp @ [c]" splits] by simp
  qed
qed simp

lemma split_piece: "d \<notin> set a \<Longrightarrow> split (a @ d # b) d = a # split b d"
  using split_loop_piece [of d a b "[]" "[]"] split_loop_acc [of b d "[]" "[a]"] by (simp add: split_def)

lemma split_last_piece: "d \<notin> set a \<Longrightarrow> split a d = [a]"
proof -
  have "d \<notin> set a \<Longrightarrow> split_loop a d tmp splits = splits @ [tmp @ a]" for tmp splits
    by (induction a arbitrary: tmp) auto
  then show "d \<notin> set a \<Longrightarrow> split a d = [a]" by (simp add: split_def)
qed

text \<open>Numbers.\<close>

lemma decimal_digits: "set (decimal n) \<subseteq> set digits \<and> decimal n \<noteq> []"
proof (induction n rule: decimal.induct)
  case (1 n)
  have "m < 10 \<Longrightarrow> digits ! m \<in> set digits" for m by (rule nth_mem) (simp add: digits_def)
  then show ?case using 1 by (subst (1 2) decimal.simps) auto
qed

lemma digit_value: "m < 10 \<Longrightarrow> of_char (digits ! m) = (m + 48 :: nat)"
proof -
  have "list_all (\<lambda>m. of_char (digits ! m) = (m + 48 :: nat)) [0..<10]" by code_simp
  then show "m < 10 \<Longrightarrow> of_char (digits ! m) = (m + 48 :: nat)" by (simp only: list_all_iff set_upt) simp
qed

lemma decimal_value: "foldl (\<lambda>n c. 10 * n + (of_char c - 48)) 0 (decimal n) = (n :: nat)"
proof (induction n rule: decimal.induct)
  case (1 n)
  then show ?case using digit_value by (subst decimal.simps) auto
qed

lemma strtoull_decimal: "n < 2 ^ 64 \<Longrightarrow> strtoull (decimal n) = n"
  by (simp add: strtoull_def decimal_value)

lemma handle_client_line:
  assumes "CHR 0x0A \<notin> set l"
  shows "handle_client lim h (l @ crlf @ r) =
    (case handle_line lim (l @ [CHR 0x0D]) r h of
       Inl e \<Rightarrow> ([], Refused e)
     | Inr (h', rs, n) \<Rightarrow> (case handle_client lim h' (drop n r) of (others, ending) \<Rightarrow> (rs @ others, ending)))"
proof -
  have "getline (l @ crlf @ r) = (l @ [CHR 0x0D], r, False)"
    using getline_line [of "l @ [CHR 0x0D]" r] assms by (simp add: crlf_def)
  then show ?thesis by (simp add: handle_client.simps [of lim h] split: sum.splits prod.splits)
qed

lemma handle_line_step:
  assumes "max_headers_length lim = 0 \<or> hd_headers_length h + length l + 2 \<le> max_headers_length lim" and "l \<noteq> []"
  shows "handle_line lim (l @ [CHR 0x0D]) r h =
    bind_res ((if length (hd_method h) = 0 then request_line lim l else header_line l)
        (h\<lparr>hd_headers_length := hd_headers_length h + length l + 2\<rparr>)) (\<lambda>h. Inr (h, [], 0))"
  using assms by (auto simp: handle_line_def Let_def)

lemma trim_no_blank: "CHR '' '' \<notin> set s \<Longrightarrow> trim_blanks s = s"
proof -
  have "CHR '' '' \<notin> set t \<Longrightarrow> dropWhile (\<lambda>x. x = CHR '' '') t = t" for t
    by (cases t) auto
  then show "CHR '' '' \<notin> set s \<Longrightarrow> trim_blanks s = s" by (simp add: trim_strip strip_def)
qed

lemma request_line_ok:
  assumes "wire_ok lim w"
  shows "request_line lim (w_method w @ CHR '' '' # w_uri w @ CHR '' '' # ''HTTP/1.1'') h =
    Inr (h\<lparr>hd_method := w_method w, hd_uri := w_uri w, hd_protocol := ''HTTP/1.1''\<rparr>)"
proof -
  have m: "w_method w = ''GET'' \<or> w_method w = ''POST''" using assms by (auto simp: wire_ok_def)
  then have m': "CHR '' '' \<notin> set (w_method w)" by auto
  have p: "CHR '' '' \<notin> set ''HTTP/1.1''" by simp
  have u: "CHR '' '' \<notin> set (w_uri w)" "w_uri w \<noteq> []" "List.hd (w_uri w) = CHR ''/''"
    "length (w_uri w) \<le> max_uri_length lim"
    using assms by (auto simp: wire_ok_def)
  have "split (w_method w @ CHR '' '' # w_uri w @ CHR '' '' # ''HTTP/1.1'') (CHR '' '') = [w_method w, w_uri w, ''HTTP/1.1'']"
    by (simp only: split_piece [OF m'] split_piece [OF u(1)] split_last_piece [OF p])
  moreover have "absolute_form (w_uri w) = (None, w_uri w)"
    using u(2,3) by (cases "w_uri w") (simp_all add: absolute_form_def)
  moreover have "trim_blanks (w_method w) = w_method w" using m by (auto intro: trim_no_blank)
  moreover have "trim_blanks ''HTTP/1.1'' = ''HTTP/1.1''" by (rule trim_no_blank) simp
  ultimately show ?thesis
    using m u by (auto simp: request_line_def Let_def trim_no_blank)
qed

lemma header_line_ok:
  assumes "field_ok f" and "hd_headers h (fst f) = None"
  shows "header_line (fst f @ CHR '':'' # snd f) h = Inr (h\<lparr>hd_headers := (hd_headers h)(fst f \<mapsto> read_value (snd f))\<rparr>)"
proof -
  have f: "fst f \<noteq> []" "to_upper (fst f) = fst f" "CHR '':'' \<notin> set (fst f)"
    and "fst f ! (length (fst f) - 1) \<in> set (fst f)" "CHR '' '' \<notin> set (fst f)" "CHR 0x09 \<notin> set (fst f)"
    using assms(1) by (auto simp: field_ok_def)
  then have c: "fst f ! (length (fst f) - 1) \<noteq> CHR '' ''" "fst f ! (length (fst f) - 1) \<noteq> CHR 0x09" by metis+
  have "split (fst f @ CHR '':'' # snd f) (CHR '':'') = fst f # split (snd f) (CHR '':'')" by (rule split_piece [OF f(3)])
  moreover have "split (snd f) (CHR '':'') \<noteq> []" by (simp add: split_def split_loop_not_nil)
  moreover have "field_value_of (fst f # ps) = field_value_of ([] # ps)" for ps by (simp add: field_value_of_def)
  ultimately show ?thesis
    using f c assms(2) by (simp add: header_line_def read_value_def Let_def)
qed

lemma handle_headers:
  "list_all field_ok fs \<Longrightarrow> distinct (map fst fs) \<Longrightarrow> set (map fst fs) \<inter> dom (hd_headers h) = {} \<Longrightarrow> hd_method h \<noteq> [] \<Longrightarrow>
   max_headers_length lim = 0 \<or> hd_headers_length h + length (concat (map wire_header fs)) \<le> max_headers_length lim \<Longrightarrow>
   handle_client lim h (concat (map wire_header fs) @ r) =
     handle_client lim (h\<lparr>hd_headers := fold store_field fs (hd_headers h),
       hd_headers_length := hd_headers_length h + length (concat (map wire_header fs))\<rparr>) r"
proof (induction fs arbitrary: h)
  case (Cons f fs)
  let ?l = "fst f @ CHR '':'' # snd f"
  let ?h = "h\<lparr>hd_headers := (hd_headers h)(fst f \<mapsto> read_value (snd f)),
    hd_headers_length := hd_headers_length h + length (wire_header f)\<rparr>"
  have len: "length (wire_header f) = length ?l + 2" by (simp add: wire_header_def crlf_def)
  have "hd_headers h (fst f) = None" using Cons.prems(3) by auto
  then have "header_line ?l (h\<lparr>hd_headers_length := hd_headers_length h + length ?l + 2\<rparr>) = Inr ?h"
    using header_line_ok [of f "h\<lparr>hd_headers_length := hd_headers_length h + length ?l + 2\<rparr>"] Cons.prems(1) len
    by simp
  moreover have "max_headers_length lim = 0 \<or> hd_headers_length h + length ?l + 2 \<le> max_headers_length lim"
    using Cons.prems(5) len by auto
  ultimately have line: "handle_line lim (?l @ [CHR 0x0D]) t h = Inr (?h, [], 0)" for t
    using handle_line_step [of lim h ?l t] Cons.prems(4) by simp
  have "CHR 0x0A \<notin> set ?l" using Cons.prems(1) by (auto simp: field_ok_def)
  then have "handle_client lim h (wire_header f @ t) = handle_client lim ?h t" for t
    using handle_client_line [of ?l lim h t] line by (simp add: wire_header_def)
  moreover have dom: "set (map fst fs) \<inter> dom (hd_headers ?h) = {}" using Cons.prems(2,3) by auto
  ultimately have "handle_client lim h (concat (map wire_header (f # fs)) @ r) =
      handle_client lim ?h (concat (map wire_header fs) @ r)" by simp
  also have "\<dots> = handle_client lim (?h\<lparr>hd_headers := fold store_field fs (hd_headers ?h),
      hd_headers_length := hd_headers_length ?h + length (concat (map wire_header fs))\<rparr>) r"
    by (rule Cons.IH [OF _ _ dom]) (use Cons.prems in auto)
  finally show ?case by (simp add: add.assoc store_field_def [symmetric])
qed simp

lemma handle_line_blank:
  "max_headers_length lim = 0 \<or> hd_headers_length h + 2 \<le> max_headers_length lim \<Longrightarrow>
    handle_line lim [CHR 0x0D] t h =
      bind_res (end_of_headers lim (h\<lparr>hd_headers_length := hd_headers_length h + 2\<rparr>) t)
        (\<lambda>(request, n). Inr (new_head, [request], n))"
  using drop_CR_line [of "[]"] by (auto simp: handle_line_def Let_def)

lemma dom_headers_of: "dom (headers_of w) = set (map fst (w_headers w))"
proof -
  have "dom (fold store_field fs m) = set (map fst fs) \<union> dom m" for fs m
    by (induction fs arbitrary: m) (auto simp: store_field_def)
  then show ?thesis by (simp add: headers_of_def)
qed

lemma end_of_headers_ok:
  assumes "wire_ok lim w" and "hd_method h = w_method w" "hd_uri h = w_uri w" "hd_protocol h = ''HTTP/1.1''"
    "hd_headers h = headers_of w" "hd_authority h = []"
  shows "end_of_headers lim h (w_body w @ t) = bind_res (request_of w) (\<lambda>request. Inr (request, length (w_body w)))"
proof -
  obtain host where host: "headers_of w ''HOST'' = Some host"
    using assms(1) dom_headers_of [of w] by (auto simp: wire_ok_def)
  show ?thesis
  proof (cases "w_method w = ''POST''")
    case True
    then have "read_payload lim (headers_of w) (w_body w @ t) = Inr (length (w_body w), w_body w)"
      using assms(1) decimal_digits [of "length (w_body w)"] by (auto simp: wire_ok_def read_payload_def strtoull_decimal)
    then show ?thesis using True assms(2-) host by (simp add: end_of_headers_def request_of_def Let_def)
  next
    case False
    then have "w_method w = ''GET''" "w_body w = []" using assms(1) by (auto simp: wire_ok_def)
    then show ?thesis using assms(2-) host by (simp add: end_of_headers_def request_of_def Let_def)
  qed
qed

lemma handle_client_wire:
  assumes "wire_ok lim w"
  shows "handle_client lim new_head (wire w @ r) =
    (case request_of w of
       Inl e \<Rightarrow> ([], Refused e)
     | Inr request \<Rightarrow> (case handle_client lim new_head r of (others, ending) \<Rightarrow> (request # others, ending)))"
proof -
  let ?l = "w_method w @ CHR '' '' # w_uri w @ CHR '' '' # ''HTTP/1.1''"
  let ?fs = "concat (map wire_header (w_headers w))"
  let ?h1 = "new_head\<lparr>hd_method := w_method w, hd_uri := w_uri w, hd_protocol := ''HTTP/1.1'', hd_headers_length := length ?l + 2\<rparr>"
  let ?h2 = "?h1\<lparr>hd_headers := headers_of w, hd_headers_length := length ?l + 2 + length ?fs\<rparr>"
  have head: "head_length w = length ?l + length ?fs + 4" by (simp add: head_length_def wire_def crlf_def)
  have limit: "max_headers_length lim = 0 \<or> length ?l + length ?fs + 4 \<le> max_headers_length lim"
    using assms head by (simp add: wire_ok_def)
  have m: "w_method w = ''GET'' \<or> w_method w = ''POST''" using assms by (auto simp: wire_ok_def)
  have nl: "CHR 0x0A \<notin> set ?l" using m assms by (auto simp: wire_ok_def)
  have "handle_line lim (?l @ [CHR 0x0D]) t new_head = Inr (?h1, [], 0)" for t
    using handle_line_step [of lim new_head ?l t] request_line_ok [OF assms, of "new_head\<lparr>hd_headers_length := length ?l + 2\<rparr>"] limit
    by (auto simp: new_head_def)
  then have 1: "handle_client lim new_head (?l @ crlf @ t) = handle_client lim ?h1 t" for t
    using handle_client_line [OF nl] by simp
  have 2: "handle_client lim ?h1 (?fs @ t) = handle_client lim ?h2 t" for t
    using handle_headers [of "w_headers w" ?h1 lim t] assms limit m
    by (auto simp: wire_ok_def headers_of_def new_head_def)
  have "handle_line lim [CHR 0x0D] t ?h2 =
      bind_res (end_of_headers lim (?h2\<lparr>hd_headers_length := hd_headers_length ?h2 + 2\<rparr>) t)
        (\<lambda>(request, n). Inr (new_head, [request], n))" for t
    by (rule handle_line_blank) (use limit in auto)
  moreover have "end_of_headers lim (?h2\<lparr>hd_headers_length := hd_headers_length ?h2 + 2\<rparr>) (w_body w @ t) =
      bind_res (request_of w) (\<lambda>request. Inr (request, length (w_body w)))" for t
    by (rule end_of_headers_ok [OF assms]) (simp_all add: new_head_def)
  ultimately have 3: "handle_client lim ?h2 (crlf @ w_body w @ r) =
      (case request_of w of
         Inl e \<Rightarrow> ([], Refused e)
       | Inr request \<Rightarrow> (case handle_client lim new_head r of (others, ending) \<Rightarrow> (request # others, ending)))"
    using handle_client_line [of "[]" lim ?h2 "w_body w @ r"] by (cases "request_of w") simp_all
  have "wire w @ r = ?l @ crlf @ ?fs @ crlf @ w_body w @ r" by (simp add: wire_def)
  then show ?thesis using 1 2 3 by simp
qed

section \<open>Properties\<close>


text \<open>C16. Requests written one after the other on a connection are read back one by one, in their order, each with its
  own headers and its own body, whatever octets the bodies hold: none runs into the next, and nothing is left over.\<close>

theorem pipeline_roundtrip:
  assumes "list_all (\<lambda>w. wire_ok lim w) ws" and "map request_of ws = map Inr rs"
  shows "handle_client lim new_head (concat (map wire ws)) = (rs, Closed)"
  using assms
proof (induction ws arbitrary: rs)
  case (Cons w ws)
  then obtain r rs' where "rs = r # rs'" "request_of w = Inr r" "map request_of ws = map Inr rs'"
    by (cases rs) auto
  then show ?case using Cons handle_client_wire [of lim w "concat (map wire ws)"] by simp
qed (simp add: handle_client.simps)

theorem pipeline_roundtrip_witness:
  "\<exists>rs. length rs = 2 \<and> handle_client \<lparr>max_uri_length = 100, max_headers_length = 200, max_content_length = 50\<rparr> new_head
      (concat (map wire
        [\<lparr>w_method = ''POST'', w_uri = ''/a?b=1'', w_headers = [(''HOST'', ''x:80''), (''CONTENT-LENGTH'', ''3'')], w_body = ''z'' @ crlf\<rparr>,
         \<lparr>w_method = ''GET'', w_uri = ''/'', w_headers = [(''HOST'', ''x'')], w_body = []\<rparr>])) = (rs, Closed)"
proof -
  let ?lim = "\<lparr>max_uri_length = 100, max_headers_length = 200, max_content_length = 50\<rparr>"
  let ?a = "\<lparr>w_method = ''POST'', w_uri = ''/a?b=1'', w_headers = [(''HOST'', ''x:80''), (''CONTENT-LENGTH'', ''3'')], w_body = ''z'' @ crlf\<rparr>"
  let ?b = "\<lparr>w_method = ''GET'', w_uri = ''/'', w_headers = [(''HOST'', ''x'')], w_body = []\<rparr>"
  have "to_upper ''HOST'' = ''HOST''" "to_upper ''CONTENT-LENGTH'' = ''CONTENT-LENGTH''"
    "headers_of ?a ''CONTENT-LENGTH'' = Some (decimal 3)" by code_simp+
  then have ok: "list_all (\<lambda>w. wire_ok ?lim w) [?a, ?b]"
    by (simp add: wire_ok_def field_ok_def head_length_def wire_def wire_header_def crlf_def numeral_3_eq_3)
  have "\<not> isl (request_of ?a) \<and> \<not> isl (request_of ?b)" by code_simp
  then obtain r s where "map request_of [?a, ?b] = map Inr [r, s]"
    by (cases "request_of ?a"; cases "request_of ?b") auto
  then show ?thesis using pipeline_roundtrip [OF ok] by (intro exI [of _ "[r, s]"]) simp
qed

text \<open>A header line whose name is empty is read outside the name: the check for a blank at its end looks at the octet
  before the first.\<close>

theorem empty_header_name:
  assumes "hd_method h \<noteq> []" and "max_headers_length lim = 0" and "CHR 0x0A \<notin> set v"
  shows "snd (handle_client lim h (CHR '':'' # v @ crlf @ r)) = Refused OutOfBounds"
proof -
  have "header_line (CHR '':'' # v) h' = Inl OutOfBounds" for h'
    using split_piece [of "CHR '':''" "[]" v] split_loop_not_nil [of v "CHR '':''" "[]" "[]"]
    by (simp add: header_line_def Let_def to_upper_def split_def)
  then show ?thesis
    using handle_client_line [of "CHR '':'' # v" lim h r] handle_line_step [of lim h "CHR '':'' # v" r] assms by simp
qed

end
