(* ===== verification/Session.thy ===== *)
theory Session
  imports HTTP_Request
begin

text \<open>
  \<open>HTTP/session.cpp\<close>: sessions. The store is shared and each thread is bound to at most one session, by its
  identifier; the empty string is no session. A call is a step: what it does under \<open>_store_access\<close> is one critical
  section, but for \<open>INITIALIZE\<close>, which lets go of the lock only to draw an identifier of its own and to write the
  response. Parameters are the clock, and the identifier \<open>_new_id\<close> draws (a digest of random octets).
\<close>

section \<open>The store\<close>

record session =
  s_values :: "string \<rightharpoonup> string"
  s_created :: int
  s_accessed :: int

record sessions =
  ss_store :: "string \<rightharpoonup> session"
  ss_current :: "nat \<Rightarrow> string"

definition COOKIE_NAME :: string where "COOKIE_NAME = ''ZIPSESSID''"

definition no_session :: exn where
  "no_session = ZiguratException 7806
     ''no session: call Session::INITIALIZE(request, response) before using one''"

text \<open>What a call asks of the response.\<close>

datatype cookie_call =
    Set_cookie string string
  | Cookie_attribute string string "string option"
  | Remove_cookie string

definition INITIALIZE :: "nat \<Rightarrow> http_request \<Rightarrow> int \<Rightarrow> string \<Rightarrow> sessions \<Rightarrow> sessions \<times> cookie_call list" where
  "INITIALIZE t request now new_id s =
     (let sid = (if HAS_COOKIE request COOKIE_NAME then trim_blanks (fst (COOKIE request COOKIE_NAME)) else []) in
      if sid = [] \<or> ss_store s sid = None then
        (let sid = new_id in
         (s\<lparr>ss_store := (ss_store s)(sid \<mapsto> \<lparr>s_values = Map.empty, s_created = now, s_accessed = now\<rparr>),
            ss_current := (ss_current s)(t := sid)\<rparr>,
          [Set_cookie COOKIE_NAME sid, Cookie_attribute COOKIE_NAME ''Path'' (Some ''/''),
           Cookie_attribute COOKIE_NAME ''HttpOnly'' None, Cookie_attribute COOKIE_NAME ''SameSite'' (Some ''Lax'')]))
      else
        (s\<lparr>ss_store := (ss_store s)(sid := map_option (s_accessed_update (\<lambda>_. now)) (ss_store s sid)),
           ss_current := (ss_current s)(t := sid)\<rparr>, []))"

definition session_ID :: "nat \<Rightarrow> sessions \<Rightarrow> string" where "session_ID t s = ss_current s t"

definition IS_INITIALIZED :: "nat \<Rightarrow> sessions \<Rightarrow> bool" where "IS_INITIALIZED t s = (ss_current s t \<noteq> [])"

definition set_raw :: "nat \<Rightarrow> string \<Rightarrow> string \<Rightarrow> int \<Rightarrow> sessions \<Rightarrow> sessions result" where
  "set_raw t key v now s =
     (if ss_current s t = [] then Inl no_session
      else (case ss_store s (ss_current s t) of
              None \<Rightarrow> Inr s
            | Some st \<Rightarrow> Inr (s\<lparr>ss_store := (ss_store s)(ss_current s t \<mapsto>
                st\<lparr>s_values := (s_values st)(key \<mapsto> v), s_accessed := now\<rparr>)\<rparr>)))"

definition get_raw :: "nat \<Rightarrow> string \<Rightarrow> int \<Rightarrow> sessions \<Rightarrow> (string option \<times> sessions) result" where
  "get_raw t key now s =
     (if ss_current s t = [] then Inl no_session
      else (case ss_store s (ss_current s t) of
              None \<Rightarrow> Inr (None, s)
            | Some st \<Rightarrow>
                (case s_values st key of
                   None \<Rightarrow> Inr (None, s)
                 | Some v \<Rightarrow> Inr (Some v, s\<lparr>ss_store := (ss_store s)(ss_current s t \<mapsto> st\<lparr>s_accessed := now\<rparr>)\<rparr>))))"

definition session_HAS :: "nat \<Rightarrow> string \<Rightarrow> int \<Rightarrow> sessions \<Rightarrow> (bool \<times> sessions) result" where
  "session_HAS t key now s = bind_res (get_raw t key now s) (\<lambda>(v, s). Inr (v \<noteq> None, s))"

definition update_values ::
  "nat \<Rightarrow> ((string \<rightharpoonup> string) \<Rightarrow> (string \<rightharpoonup> string)) \<Rightarrow> sessions \<Rightarrow> sessions result" where
  "update_values t f s =
     (if ss_current s t = [] then Inl no_session
      else Inr (s\<lparr>ss_store := (ss_store s)(ss_current s t :=
        map_option (s_values_update f) (ss_store s (ss_current s t)))\<rparr>))"

definition session_REMOVE :: "nat \<Rightarrow> string \<Rightarrow> sessions \<Rightarrow> sessions result" where
  "session_REMOVE t key s = update_values t (\<lambda>vs. vs(key := None)) s"

definition session_CLEAR :: "nat \<Rightarrow> sessions \<Rightarrow> sessions result" where
  "session_CLEAR t s = update_values t (\<lambda>_. Map.empty) s"

definition session_RELEASE :: "nat \<Rightarrow> sessions \<Rightarrow> sessions" where
  "session_RELEASE t s = s\<lparr>ss_current := (ss_current s)(t := [])\<rparr>"

definition session_DESTROY :: "nat \<Rightarrow> sessions \<Rightarrow> sessions result" where
  "session_DESTROY t s =
     (if ss_current s t = [] then Inl no_session
      else Inr (s\<lparr>ss_store := (ss_store s)(ss_current s t := None), ss_current := (ss_current s)(t := [])\<rparr>))"

definition DESTROY_response :: "nat \<Rightarrow> sessions \<Rightarrow> sessions result \<times> cookie_call list" where
  "DESTROY_response t s =
     (session_DESTROY t s, if ss_current s t \<noteq> [] then [Remove_cookie COOKIE_NAME] else [])"

definition session_COUNT :: "sessions \<Rightarrow> nat" where "session_COUNT s = card (dom (ss_store s))"

definition session_EXPIRE :: "int \<Rightarrow> int \<Rightarrow> sessions \<Rightarrow> sessions" where
  "session_EXPIRE max_idle_seconds now s =
     (if max_idle_seconds \<le> 0 then s
      else s\<lparr>ss_store := (\<lambda>sid. case ss_store s sid of
                None \<Rightarrow> None
              | Some st \<Rightarrow> if now - s_accessed st \<ge> max_idle_seconds then None else Some st)\<rparr>)"

definition session_EXPIRE_ALL :: "sessions \<Rightarrow> sessions" where
  "session_EXPIRE_ALL s = s\<lparr>ss_store := Map.empty\<rparr>"

section \<open>A server\<close>

text \<open>The identifiers drawn and the values written so far, as (session, key, value).\<close>

record history =
  h_sessions :: sessions
  h_issued :: "string set"
  h_written :: "(string \<times> string \<times> string) set"

definition no_history :: history where
  "no_history = \<lparr>h_sessions = \<lparr>ss_store = Map.empty, ss_current = (\<lambda>_. [])\<rparr>, h_issued = {}, h_written = {}\<rparr>"

definition initialized :: "nat \<Rightarrow> http_request \<Rightarrow> int \<Rightarrow> string \<Rightarrow> history \<Rightarrow> history" where
  "initialized t request now new_id h =
     h\<lparr>h_sessions := fst (INITIALIZE t request now new_id (h_sessions h)), h_issued := insert new_id (h_issued h)\<rparr>"

inductive session_step :: "history \<Rightarrow> history \<Rightarrow> bool" where
  initialize: "new_id \<noteq> [] \<Longrightarrow> new_id \<notin> h_issued h \<Longrightarrow> session_step h (initialized t request now new_id h)"
| set_value: "set_raw t key v now (h_sessions h) = Inr s \<Longrightarrow>
    session_step h (h\<lparr>h_sessions := s, h_written := insert (ss_current (h_sessions h) t, key, v) (h_written h)\<rparr>)"
| get_value: "get_raw t key now (h_sessions h) = Inr (v, s) \<Longrightarrow> session_step h (h\<lparr>h_sessions := s\<rparr>)"
| remove_value: "session_REMOVE t key (h_sessions h) = Inr s \<Longrightarrow> session_step h (h\<lparr>h_sessions := s\<rparr>)"
| clear_values: "session_CLEAR t (h_sessions h) = Inr s \<Longrightarrow> session_step h (h\<lparr>h_sessions := s\<rparr>)"
| release: "session_step h (h\<lparr>h_sessions := session_RELEASE t (h_sessions h)\<rparr>)"
| destroy: "session_DESTROY t (h_sessions h) = Inr s \<Longrightarrow> session_step h (h\<lparr>h_sessions := s\<rparr>)"
| expire: "session_step h (h\<lparr>h_sessions := session_EXPIRE max_idle now (h_sessions h)\<rparr>)"
| expire_all: "session_step h (h\<lparr>h_sessions := session_EXPIRE_ALL (h_sessions h)\<rparr>)"

inductive session_reachable :: "history \<Rightarrow> bool" where
  start: "session_reachable no_history"
| step: "session_reachable h \<Longrightarrow> session_step h h' \<Longrightarrow> session_reachable h'"

text \<open>The abstract store: a value for a session and a key.\<close>

definition contents :: "sessions \<Rightarrow> string \<Rightarrow> string \<Rightarrow> string option" where
  "contents s sid key = Option.bind (ss_store s sid) (\<lambda>st. s_values st key)"

lemma contents_None [simp]: "ss_store s sid = None \<Longrightarrow> contents s sid = (\<lambda>_. None)"
  by (rule ext) (simp add: contents_def)

lemma contents_Some [simp]: "ss_store s sid = Some st \<Longrightarrow> contents s sid = s_values st"
  by (rule ext) (simp add: contents_def)

definition session_inv :: "history \<Rightarrow> bool" where
  "session_inv h \<longleftrightarrow>
     [] \<notin> h_issued h \<and>
     dom (ss_store (h_sessions h)) \<subseteq> h_issued h \<and>
     (\<forall>t. ss_current (h_sessions h) t \<in> insert [] (h_issued h)) \<and>
     (\<forall>sid key v. contents (h_sessions h) sid key = Some v \<longrightarrow> (sid, key, v) \<in> h_written h)"

lemma session_inv_start: "session_inv no_history"
  by (simp add: session_inv_def no_history_def)

text \<open>What a call must keep of the store, for the invariant to be kept.\<close>

lemma session_invI:
  assumes "session_inv h" and "h_issued h \<subseteq> issued" "h_written h \<subseteq> written" "[] \<notin> issued"
    and "dom (ss_store s) \<subseteq> issued" and "\<And>t. ss_current s t \<in> insert [] issued"
    and "\<And>sid key v. contents s sid key = Some v \<Longrightarrow> contents (h_sessions h) sid key = Some v \<or> (sid, key, v) \<in> written"
  shows "session_inv (h\<lparr>h_sessions := s, h_issued := issued, h_written := written\<rparr>)"
proof -
  have "(sid, key, v) \<in> written" if "contents s sid key = Some v" for sid key v
    using assms(7) [OF that] assms(1,3) by (auto simp: session_inv_def)
  then show ?thesis using assms(4-6) by (simp add: session_inv_def)
qed

lemma contents_INITIALIZE:
  "contents (fst (INITIALIZE t request now new_id s)) sid key = Some v \<Longrightarrow> contents s sid key = Some v"
  by (auto simp: contents_def INITIALIZE_def Let_def bind_eq_Some_conv split: if_splits)

lemma contents_set_raw: "set_raw t key v now s = Inr s' \<Longrightarrow> contents s' sid k =
    (if sid = ss_current s t \<and> k = key \<and> ss_store s sid \<noteq> None then Some v else contents s sid k)"
  by (auto simp: contents_def set_raw_def bind_eq_Some_conv split: if_splits option.splits)

lemma contents_get_raw: "get_raw t key now s = Inr (v, s') \<Longrightarrow>
    v = contents s (ss_current s t) key \<and> contents s' = contents s"
  by (auto simp: contents_def get_raw_def fun_eq_iff split: if_splits option.splits)

text \<open>Calls that bind no thread and add no session.\<close>

definition keeps :: "sessions \<Rightarrow> sessions \<Rightarrow> bool" where
  "keeps s s' \<longleftrightarrow> dom (ss_store s') \<subseteq> dom (ss_store s) \<and> (\<forall>t. ss_current s' t \<in> {[], ss_current s t})"

lemma keeps_calls:
  "set_raw t key v now s = Inr s' \<Longrightarrow> keeps s s'"
  "get_raw t key now s = Inr (r, s') \<Longrightarrow> keeps s s'"
  "update_values t f s = Inr s' \<Longrightarrow> keeps s s'"
  "session_DESTROY t s = Inr s' \<Longrightarrow> keeps s s'"
  "keeps s (session_RELEASE t s)"
  "keeps s (session_EXPIRE max_idle now s)"
  "keeps s (session_EXPIRE_ALL s)"
  by (auto simp: keeps_def set_raw_def get_raw_def update_values_def session_DESTROY_def session_RELEASE_def
      session_EXPIRE_def session_EXPIRE_ALL_def split: if_splits option.splits)

lemma session_inv_keeps:
  assumes "session_inv h" and "keeps (h_sessions h) s" and "h_written h \<subseteq> written"
    and "\<And>sid key v. contents s sid key = Some v \<Longrightarrow> contents (h_sessions h) sid key = Some v \<or> (sid, key, v) \<in> written"
  shows "session_inv (h\<lparr>h_sessions := s, h_written := written\<rparr>)"
proof -
  have "dom (ss_store s) \<subseteq> h_issued h" using assms(1,2) by (auto simp: session_inv_def keeps_def)
  moreover have "ss_current s t \<in> insert [] (h_issued h)" for t
    using assms(1,2) by (fastforce simp: session_inv_def keeps_def)
  ultimately show ?thesis
    using session_invI [OF assms(1) subset_refl assms(3) _ _ _ assms(4)] assms(1) by (simp add: session_inv_def)
qed

lemma session_inv_keeps_contents:
  assumes "session_inv h" and "keeps (h_sessions h) s"
    and "\<And>sid key v. contents s sid key = Some v \<Longrightarrow> contents (h_sessions h) sid key = Some v"
  shows "session_inv (h\<lparr>h_sessions := s\<rparr>)"
  using session_inv_keeps [OF assms(1,2) subset_refl] assms(3) by simp

lemma session_inv_step:
  assumes "session_step h h'" and "session_inv h"
  shows "session_inv h'"
  using assms(1)
proof (cases rule: session_step.cases)
  case (initialize new_id t request now)
  let ?s = "fst (INITIALIZE t request now new_id (h_sessions h))"
  have "dom (ss_store ?s) \<subseteq> insert new_id (dom (ss_store (h_sessions h)))"
    by (auto simp: INITIALIZE_def Let_def split: if_splits)
  then have "dom (ss_store ?s) \<subseteq> insert new_id (h_issued h)" using assms(2) by (auto simp: session_inv_def)
  moreover have "ss_current ?s u \<in> insert new_id (dom (ss_store (h_sessions h))) \<or> ss_current ?s u = ss_current (h_sessions h) u" for u
    by (auto simp: INITIALIZE_def Let_def)
  then have "ss_current ?s u \<in> insert [] (insert new_id (h_issued h))" for u
    using assms(2) by (fastforce simp: session_inv_def)
  moreover have "[] \<notin> insert new_id (h_issued h)" using assms(2) initialize(2) by (auto simp: session_inv_def)
  ultimately have "session_inv (h\<lparr>h_sessions := ?s, h_issued := insert new_id (h_issued h), h_written := h_written h\<rparr>)"
    by (intro session_invI [OF assms(2)]) (auto dest: contents_INITIALIZE)
  then show ?thesis by (simp add: initialize initialized_def)
next
  case (set_value t key v now s)
  show ?thesis unfolding set_value
    by (rule session_inv_keeps [OF assms(2) keeps_calls(1) [OF set_value(2)]])
      (auto simp: contents_set_raw [OF set_value(2)] split: if_splits)
next
  case (get_value t key now v s)
  show ?thesis unfolding get_value
    by (rule session_inv_keeps_contents [OF assms(2) keeps_calls(2) [OF get_value(2)]])
      (simp add: contents_get_raw [OF get_value(2)])
next
  case (remove_value t key s)
  then show ?thesis
    by (auto simp: session_REMOVE_def intro!: session_inv_keeps_contents [OF assms(2) keeps_calls(3)])
      (auto simp: update_values_def contents_def bind_eq_Some_conv split: if_splits)
next
  case (clear_values t s)
  then show ?thesis
    by (auto simp: session_CLEAR_def intro!: session_inv_keeps_contents [OF assms(2) keeps_calls(3)])
      (auto simp: update_values_def contents_def bind_eq_Some_conv split: if_splits)
next
  case (release t)
  show ?thesis unfolding release
    by (rule session_inv_keeps_contents [OF assms(2) keeps_calls(5)]) (simp add: contents_def session_RELEASE_def)
next
  case (destroy t s)
  show ?thesis unfolding destroy
    by (rule session_inv_keeps_contents [OF assms(2) keeps_calls(4) [OF destroy(2)]])
      (use destroy(2) in \<open>auto simp: session_DESTROY_def contents_def bind_eq_Some_conv split: if_splits\<close>)
next
  case (expire max_idle now)
  show ?thesis unfolding expire
    by (rule session_inv_keeps_contents [OF assms(2) keeps_calls(6)])
      (auto simp: session_EXPIRE_def contents_def bind_eq_Some_conv split: if_splits option.splits)
next
  case expire_all
  show ?thesis unfolding expire_all
    by (rule session_inv_keeps_contents [OF assms(2) keeps_calls(7)]) (simp add: session_EXPIRE_ALL_def contents_def)
qed

lemma session_inv_reachable: "session_reachable h \<Longrightarrow> session_inv h"
  by (induction rule: session_reachable.induct) (blast intro: session_inv_start session_inv_step)+

section \<open>Properties\<close>

text \<open>C15. Whatever the threads of the server call, in any order, a thread reads a value only from the session it is bound
  to, and only one that was written under that session and key. A visitor cannot choose a session: whatever cookie it
  sends, it is bound to an identifier this server drew.\<close>

theorem session_isolation:
  assumes "session_reachable h"
  shows "(\<forall>s v. get_raw t key now (h_sessions h) = Inr (Some v, s) \<longrightarrow>
      ss_current (h_sessions h) t \<in> h_issued h \<and> (ss_current (h_sessions h) t, key, v) \<in> h_written h) \<and>
    ss_current (fst (INITIALIZE t request now new_id (h_sessions h))) t \<in> insert new_id (h_issued h)"
proof (intro conjI allI impI)
  have inv: "session_inv h" using assms by (rule session_inv_reachable)
  fix s v
  assume get: "get_raw t key now (h_sessions h) = Inr (Some v, s)"
  then have "contents (h_sessions h) (ss_current (h_sessions h) t) key = Some v" using contents_get_raw by metis
  then show "(ss_current (h_sessions h) t, key, v) \<in> h_written h" using inv by (simp add: session_inv_def)
  show "ss_current (h_sessions h) t \<in> h_issued h"
    using inv get by (auto simp: session_inv_def get_raw_def split: if_splits)
next
  have "session_inv h" using assms by (rule session_inv_reachable)
  then show "ss_current (fst (INITIALIZE t request now new_id (h_sessions h))) t \<in> insert new_id (h_issued h)"
    by (auto simp: INITIALIZE_def Let_def session_inv_def)
qed

theorem session_isolation_witness:
  "ss_current (fst (INITIALIZE 3
      \<lparr>r_method = ''GET'', r_uri = ''/'', r_protocol = ''HTTP/1.1'', r_headers = Map.empty, r_host = [], r_port = [],
        r_content = None, r_content_length = 0, r_path = ''/'', r_fragment = [], r_content_type = [],
        r_cookies = [COOKIE_NAME \<mapsto> ''chosen''], r_query = (Map.empty, Map.empty), r_post = (Map.empty, Map.empty)\<rparr>
      7 ''drawn'' (h_sessions no_history))) 3 = ''drawn''"
  using session_isolation [OF start, of 3 key 7
      "\<lparr>r_method = ''GET'', r_uri = ''/'', r_protocol = ''HTTP/1.1'', r_headers = Map.empty, r_host = [], r_port = [],
        r_content = None, r_content_length = 0, r_path = ''/'', r_fragment = [], r_content_type = [],
        r_cookies = [COOKIE_NAME \<mapsto> ''chosen''], r_query = (Map.empty, Map.empty), r_post = (Map.empty, Map.empty)\<rparr>"
      "''drawn''"]
  by (simp add: no_history_def)

text \<open>The store refines a map from sessions and keys to values: a write through one thread is what every thread bound
  to the same session reads from then on, and changes no other value; a read changes none; but a write to a session
  that expired under its thread succeeds and is lost.\<close>

theorem session_values:
  assumes "set_raw t key v now s = Inr s'"
  shows "(ss_store s (ss_current s t) \<noteq> None \<longrightarrow>
      contents s' = (contents s)(ss_current s t := (contents s (ss_current s t))(key \<mapsto> v))) \<and>
    (ss_store s (ss_current s t) = None \<longrightarrow> s' = s) \<and>
    (\<forall>u k now' r s''. get_raw u k now' s' = Inr (r, s'') \<longrightarrow> r = contents s' (ss_current s u) k \<and> contents s'' = contents s')"
proof -
  have "ss_current s' = ss_current s" using assms by (auto simp: set_raw_def split: if_splits option.splits)
  then have "\<forall>u k now' r s''. get_raw u k now' s' = Inr (r, s'') \<longrightarrow>
      r = contents s' (ss_current s u) k \<and> contents s'' = contents s'"
    using contents_get_raw by metis
  moreover have "contents s' = (contents s)(ss_current s t := (contents s (ss_current s t))(key \<mapsto> v))"
    if "ss_store s (ss_current s t) \<noteq> None"
    using contents_set_raw [OF assms] that by (intro ext) simp
  moreover have "s' = s" if "ss_store s (ss_current s t) = None"
    using assms that by (simp add: set_raw_def split: if_splits)
  ultimately show ?thesis by blast
qed

end
