(* ===== verification/Tokenizer.thy ===== *)
theory Tokenizer
  imports Utility
begin

text \<open>
  \<open>Compiler/tokenizer.cpp\<close>: the text of a program as tokens. An iterator is an index into the code, which the loop
  shortens when it takes the backslash off an escaped quote; \<open>bmode\<close> starts out singular and is \<open>None\<close>. Line and
  column are \<open>size_t\<close>, and \<open>int\<close> in a token. What the code does with a singular iterator is \<open>Undefined\<close>.
\<close>

section \<open>Tokens\<close>

datatype token_type = T_BOOL | T_INT | T_FLOAT | T_STR | T_NAME | T_OP | T_LPAR | T_RPAR | T_EOF

record token =
  tk_type :: token_type
  tk_value :: string
  tk_line :: "32 word"
  tk_column :: "32 word"

definition new_token :: "token_type \<Rightarrow> string \<Rightarrow> u64 \<Rightarrow> u64 \<Rightarrow> token" where
  "new_token ty v line column = \<lparr>tk_type = ty, tk_value = v, tk_line = ucast line, tk_column = ucast column\<rparr>"

datatype tokenize_error = Tokenize_exception string "32 word" "32 word" char | Undefined

definition DIGITS :: string where "DIGITS = ''0123456789''"

definition ALPHABETS :: string where "ALPHABETS = ''_abcdefghijklmnopqrstuvwxyzABCDEFGHIJKLMNOPQRSTUVWXYZ''"

definition OPERATORS :: string where "OPERATORS = ''+-*/%&|^<=>,.:;()''"

definition SPACES :: string where "SPACES = [CHR '' '', CHR 0x0D, CHR 0x0A, CHR 0x09, CHR 0x0B]"

definition MIXED_OPERATORS :: "string list" where "MIXED_OPERATORS = [''::'', ''<='', ''=='', ''<>'', ''>='']"

definition NAME_OPERATORS :: "string list" where
  "NAME_OPERATORS = [''NOT'', ''AND'', ''OR'', ''IS'', ''LIKE'', ''BETWEEN'']"

abbreviation quote_char :: char where "quote_char \<equiv> CHR 0x27"
abbreviation dquote_char :: char where "dquote_char \<equiv> CHR 0x22"
abbreviation backslash :: char where "backslash \<equiv> CHR 0x5C"
abbreviation newline :: char where "newline \<equiv> CHR 0x0A"
abbreviation return :: char where "return \<equiv> CHR 0x0D"

section \<open>The state of the loop\<close>

record tok =
  t_code :: string
  t_iter :: nat
  t_mode :: char
  t_lineno :: u64
  t_colno :: u64
  t_blineno :: u64
  t_bcolno :: u64
  t_bmode :: "nat option"
  t_tokens :: "token list"

definition at_offset :: "tok \<Rightarrow> nat \<Rightarrow> char" where
  "at_offset s i = (if i < length (t_code s) then t_code s ! i else CHR 0x00)"

definition next_char :: "tok \<Rightarrow> char" where "next_char s = at_offset s (t_iter s + 1)"

definition prev_char :: "tok \<Rightarrow> char" where "prev_char s = at_offset s (t_iter s - 1)"

text \<open>\<open>std::string(bmode, emode)\<close> with \<open>emode\<close> at the iterator.\<close>

definition lexeme :: "nat \<Rightarrow> tok \<Rightarrow> string" where
  "lexeme b s = take (t_iter s - b) (drop b (t_code s))"

definition begin_mode :: "char \<Rightarrow> tok \<Rightarrow> tok" where
  "begin_mode m s = s\<lparr>t_mode := m, t_bmode := Some (t_iter s), t_blineno := t_lineno s, t_bcolno := t_colno s\<rparr>"

definition emit :: "token_type \<Rightarrow> string \<Rightarrow> tok \<Rightarrow> tok" where
  "emit ty v s = s\<lparr>t_tokens := t_tokens s @ [new_token ty v (t_blineno s) (t_bcolno s)]\<rparr>"

definition syntax_error :: "tok \<Rightarrow> char \<Rightarrow> tokenize_error + tok" where
  "syntax_error s wch = Inl (Tokenize_exception ''syntax error'' (ucast (t_lineno s)) (ucast (t_colno s)) wch)"

text \<open>\<open>iter++\<close> of the loop; \<open>iter--; colno--\<close> before it.\<close>

definition advance_iter :: "tok \<Rightarrow> tok" where "advance_iter s = s\<lparr>t_iter := t_iter s + 1\<rparr>"

definition again :: "tok \<Rightarrow> tok" where "again s = s\<lparr>t_colno := t_colno s - 1\<rparr>"

definition erase_previous :: "tok \<Rightarrow> tok" where
  "erase_previous s = s\<lparr>t_code := take (t_iter s - 1) (t_code s) @ drop (t_iter s) (t_code s)\<rparr>"

definition raw_literal :: "string \<Rightarrow> string" where
  "raw_literal text = ''R'' @ [dquote_char] @ ''ZIP0ML0S0('' @ text @ '')ZIP0ML0S0'' @ [dquote_char]"

definition escape_quotes :: "string \<Rightarrow> string" where
  "escape_quotes text = concat (map (\<lambda>c. if c = quote_char then [backslash, quote_char] else [c]) text)"

section \<open>Names\<close>

text \<open>The name between the iterators: upper case, unless it starts with a backquote, which is dropped.\<close>

fun name_loop :: "string \<Rightarrow> bool \<Rightarrow> string \<Rightarrow> string" where
  "name_loop [] up name = name"
| "name_loop (c # cs) up name =
     (if c = CHR ''`'' then name_loop cs False name
      else if up then name_loop cs up (name @ [upper_char c])
      else name_loop cs up (name @ [c]))"

definition name_type :: "string \<Rightarrow> token_type" where
  "name_type name =
     (if name = ''TRUE'' \<or> name = ''FALSE'' then T_BOOL
      else if name \<in> set NAME_OPERATORS then T_OP
      else T_NAME)"

text \<open>\<open>find_first_not_of\<close> and \<open>find_last_not_of\<close> of the blanks of a line.\<close>

definition line_blanks :: "char set" where "line_blanks = {CHR '' '', CHR 0x09, return}"

fun first_not_blank :: "string \<Rightarrow> nat \<Rightarrow> nat option" where
  "first_not_blank [] i = None"
| "first_not_blank (c # cs) i = (if c \<in> line_blanks then first_not_blank cs (i + 1) else Some i)"

fun last_not_blank :: "string \<Rightarrow> nat \<Rightarrow> nat option" where
  "last_not_blank code 0 = (if code \<noteq> [] \<and> code ! 0 \<notin> line_blanks then Some 0 else None)"
| "last_not_blank code (Suc i) = (if code ! Suc i \<notin> line_blanks then Some (Suc i) else last_not_blank code i)"

definition find_newline :: "string \<Rightarrow> nat \<Rightarrow> nat option" where
  "find_newline code from = find_from [newline] code from"

definition trimmed_line :: "string \<Rightarrow> nat \<Rightarrow> nat \<Rightarrow> string" where
  "trimmed_line code scan eol =
     (case first_not_blank (drop scan code) scan of
        None \<Rightarrow> []
      | Some from \<Rightarrow>
          if from < eol then
            (case last_not_blank code (eol - 1) of
               None \<Rightarrow> []
             | Some to \<Rightarrow> if to \<ge> from then to_upper (substr code from (to - from + 1)) else [])
          else [])"

lemma find_from_bounds: "find_from p s b = Some e \<Longrightarrow> b \<le> e \<and> b \<le> length s"
  by (auto simp: find_from_def split: if_splits)

text \<open>The end of the block: where its body ends, where the tokenizer resumes, and how many lines it has.\<close>

function block_scan :: "string \<Rightarrow> nat \<Rightarrow> nat \<Rightarrow> u64 \<Rightarrow> (nat \<times> nat \<times> u64) option" where
  "block_scan code body_begin scan lns =
     (if scan \<le> length code then
        (let eol = (case find_newline code scan of None \<Rightarrow> length code | Some e \<Rightarrow> e) in
         if trimmed_line code scan eol = ''END'' then
           Some (if scan > body_begin then scan - 1 else body_begin, eol, lns)
         else if eol = length code then None
         else block_scan code body_begin (eol + 1) (lns + 1))
      else None)"
  by pat_completeness auto
termination
  by (relation "measure (\<lambda>(code, _, scan, _). length code + 1 - scan)")
    (auto simp: find_newline_def split: option.splits dest: find_from_bounds)

declare block_scan.simps [simp del]

text \<open>After \<open>BEGIN HPP\<close> or \<open>BEGIN CPP\<close>: the text up to a line that is nothing but \<open>END\<close> is one string.\<close>

definition take_block :: "string \<Rightarrow> char \<Rightarrow> tok \<Rightarrow> tokenize_error + tok" where
  "take_block name wch s =
     (case find_newline (t_code s) (t_iter s) of
        None \<Rightarrow> Inl (Tokenize_exception (''BEGIN '' @ name @ '' runs to the end of the source'')
                  (ucast (t_blineno s)) (ucast (t_bcolno s)) wch)
      | Some nl \<Rightarrow>
          (let body_begin = nl + 1 in
           case block_scan (t_code s) body_begin body_begin 0 of
             None \<Rightarrow> Inl (Tokenize_exception (''BEGIN '' @ name @ '' has no END on a line of its own'')
                       (ucast (t_blineno s)) (ucast (t_bcolno s)) wch)
           | Some (body_end, resume, lns) \<Rightarrow>
               (let s = emit T_STR (raw_literal (substr (t_code s) body_begin (body_end - body_begin))) s;
                    s = s\<lparr>t_tokens := t_tokens s @ [new_token T_NAME ''END'' (t_blineno s + lns + 1) 1]\<rparr>;
                    resume = (if resume \<ge> length (t_code s) then length (t_code s) - 1 else resume)
                in Inr (advance_iter (s\<lparr>t_lineno := t_blineno s + lns + 1, t_colno := 0,
                          t_iter := (if resume > 0 then resume - 1 else 0), t_mode := CHR ''?''\<rparr>)))))"

definition opens_block :: "string \<Rightarrow> token list \<Rightarrow> bool" where
  "opens_block name ts \<longleftrightarrow>
     (name = ''HPP'' \<or> name = ''CPP'') \<and> length ts \<ge> 2 \<and> tk_type (ts ! (length ts - 2)) = T_NAME \<and>
     tk_value (ts ! (length ts - 2)) = ''BEGIN''"

definition end_name :: "char \<Rightarrow> tok \<Rightarrow> tokenize_error + tok" where
  "end_name wch s =
     (case t_bmode s of
        None \<Rightarrow> Inl Undefined
      | Some b \<Rightarrow>
          (let name = name_loop (lexeme b s) True [];
               s = emit (name_type name) name (s\<lparr>t_mode := CHR ''?'', t_bmode := Some (t_iter s)\<rparr>)
           in if opens_block name (t_tokens s) then take_block name wch s
              else if wch \<noteq> return \<and> wch \<noteq> newline then Inr (again s)
              else Inr (advance_iter s)))"

definition end_operator :: "char \<Rightarrow> tok \<Rightarrow> tokenize_error + tok" where
  "end_operator wch s =
     (case t_bmode s of
        None \<Rightarrow> Inl Undefined
      | Some b \<Rightarrow>
          (let opr = map upper_char (lexeme b s);
               s = s\<lparr>t_mode := CHR ''?'', t_bmode := Some (t_iter s)\<rparr>
           in if length opr = 1 \<or> opr \<in> set MIXED_OPERATORS then
                (if wch \<noteq> return \<and> wch \<noteq> newline then Inr (again (emit T_OP opr s)) else Inr (advance_iter (emit T_OP opr s)))
              else syntax_error s wch))"

section \<open>Numbers and strings\<close>

definition end_number :: "token_type \<Rightarrow> tok \<Rightarrow> tokenize_error + tok" where
  "end_number ty s =
     (case t_bmode s of
        None \<Rightarrow> Inl Undefined
      | Some b \<Rightarrow> Inr (again ((emit ty (lexeme b s) s)\<lparr>t_mode := CHR ''?''\<rparr>)))"

definition in_integer :: "char \<Rightarrow> tok \<Rightarrow> tokenize_error + tok" where
  "in_integer wch s =
     (if wch = CHR ''l'' \<or> wch = CHR ''L'' then
        (if prev_char s \<in> {CHR ''l'', CHR ''L''} then syntax_error s wch else Inr (advance_iter s))
      else if wch = CHR ''u'' \<or> wch = CHR ''U'' then
        (if prev_char s \<in> {CHR ''l'', CHR ''L'', CHR ''u'', CHR ''U''} then syntax_error s wch else Inr (advance_iter s))
      else end_number T_INT s)"

definition in_float :: "char \<Rightarrow> tok \<Rightarrow> tokenize_error + tok" where
  "in_float wch s =
     (if wch = CHR ''f'' then (if prev_char s = CHR ''f'' then syntax_error s wch else Inr (advance_iter s))
      else end_number T_FLOAT s)"

definition end_string :: "(string \<Rightarrow> string) \<Rightarrow> tok \<Rightarrow> tokenize_error + tok" where
  "end_string literal s =
     (case t_bmode s of
        None \<Rightarrow> Inl Undefined
      | Some b \<Rightarrow>
          Inr (advance_iter (emit T_STR (literal (lexeme (b + 1) s)) (s\<lparr>t_bmode := Some (b + 1), t_mode := CHR ''?''\<rparr>))))"

definition in_character :: "char \<Rightarrow> tok \<Rightarrow> tokenize_error + tok" where
  "in_character wch s =
     (case t_bmode s of
        None \<Rightarrow> Inl Undefined
      | Some b \<Rightarrow> if t_iter s - b > 1 then syntax_error s wch else Inr (advance_iter s))"

section \<open>The loop\<close>

definition count_position :: "char \<Rightarrow> tok \<Rightarrow> tok" where
  "count_position wch s =
     (if wch = newline then
        s\<lparr>t_lineno := t_lineno s + 1, t_colno := 0, t_mode := (if t_mode s = CHR ''#'' then CHR ''?'' else t_mode s)\<rparr>
      else if wch = return then s
      else s\<lparr>t_colno := t_colno s + 1\<rparr>)"

definition tok_step :: "tok \<Rightarrow> tokenize_error + tok" where
  "tok_step s =
     (let wch = t_code s ! t_iter s;
          s = count_position wch s;
          mode = t_mode s
      in
      if mode = CHR ''?'' \<and> wch = CHR ''-'' \<and> next_char s = CHR ''-'' then Inr (advance_iter (s\<lparr>t_mode := CHR ''#''\<rparr>))
      else if mode = CHR ''?'' \<and> wch = CHR ''/'' \<and> next_char s = CHR ''*'' then Inr (advance_iter (s\<lparr>t_mode := CHR ''/''\<rparr>))
      else if mode = CHR ''/'' \<and> wch = CHR ''*'' \<and> next_char s = CHR ''/'' then
        Inr (advance_iter (advance_iter (s\<lparr>t_mode := CHR ''?''\<rparr>)))
      else if mode = CHR ''#'' \<or> mode = CHR ''/'' then Inr (advance_iter s)
      else if mode = CHR ''?'' \<and> wch = quote_char \<and> (t_iter s = 0 \<or> prev_char s \<noteq> backslash) then
        Inr (advance_iter (begin_mode (CHR ''s'') s))
      else if mode = CHR ''s'' \<and> wch = quote_char \<and> prev_char s = backslash then Inr (erase_previous s)
      else if mode = CHR ''s'' \<and> wch = quote_char then end_string raw_literal s
      else if mode = CHR ''?'' \<and> wch = dquote_char \<and> (t_iter s = 0 \<or> prev_char s \<noteq> backslash) then
        Inr (advance_iter (begin_mode (CHR ''c'') s))
      else if mode = CHR ''c'' \<and> wch = dquote_char \<and> prev_char s = backslash then Inr (erase_previous s)
      else if mode = CHR ''c'' \<and> wch = dquote_char then
        end_string (\<lambda>text. [quote_char] @ escape_quotes text @ [quote_char]) s
      else if mode = CHR ''c'' then in_character wch s
      else if mode = CHR ''?'' \<and> wch \<in> set DIGITS then Inr (advance_iter (begin_mode (CHR ''i'') s))
      else if mode = CHR ''i'' \<and> wch = CHR ''.'' then Inr (advance_iter (s\<lparr>t_mode := CHR ''f''\<rparr>))
      else if mode = CHR ''i'' \<and> wch \<notin> set DIGITS then in_integer wch s
      else if mode = CHR ''f'' \<and> wch \<notin> set DIGITS then in_float wch s
      else if mode = CHR ''?'' \<and> (wch = CHR ''@'' \<or> wch \<in> set ALPHABETS) then Inr (advance_iter (begin_mode (CHR ''n'') s))
      else if mode = CHR ''?'' \<and> (wch = CHR ''`'' \<or> wch \<in> set ALPHABETS) then Inr (advance_iter (begin_mode (CHR ''n'') s))
      else if mode = CHR ''n'' \<and> wch \<notin> set ALPHABETS \<and> wch \<notin> set DIGITS then end_name wch s
      else if mode = CHR ''?'' \<and> wch \<in> set OPERATORS then
        (if wch = CHR ''('' then
           Inr (advance_iter (s\<lparr>t_tokens := t_tokens s @ [new_token T_LPAR ''('' (t_lineno s) (t_colno s)]\<rparr>))
         else if wch = CHR '')'' then
           Inr (advance_iter (s\<lparr>t_tokens := t_tokens s @ [new_token T_RPAR '')'' (t_lineno s) (t_colno s)]\<rparr>))
         else Inr (advance_iter (begin_mode (CHR ''o'') s)))
      else if mode = CHR ''o'' \<and>
        (wch = CHR ''*'' \<or> wch = CHR '','' \<or> wch = CHR '';'' \<or> wch = CHR ''('' \<or> wch = CHR '')'' \<or> wch \<notin> set OPERATORS)
      then end_operator wch s
      else if mode = CHR ''?'' \<and> wch \<notin> set SPACES then syntax_error s wch
      else Inr (advance_iter s))"

text \<open>Every step takes the iterator on, shortens the code, or ends a mode.\<close>

definition tok_weight :: "tok \<Rightarrow> nat" where
  "tok_weight s = 2 * (length (t_code s) - t_iter s) + (if t_mode s = CHR ''?'' then 0 else 1)"

lemma block_scan_resume: "block_scan code body_begin scan lns = Some (body_end, resume, n) \<Longrightarrow> scan \<le> resume \<and> scan < length code"
proof (induction code body_begin scan lns rule: block_scan.induct)
  case (1 code body_begin scan lns)
  let ?eol = "case find_newline code scan of None \<Rightarrow> length code | Some e \<Rightarrow> e"
  have le: "scan \<le> ?eol" if "scan \<le> length code"
    using that by (auto simp: find_newline_def split: option.splits dest: find_from_bounds)
  have "trimmed_line code (length code) e = []" for e by (simp add: trimmed_line_def)
  then have "scan < length code" if "scan \<le> length code" "trimmed_line code scan ?eol = ''END''"
    using that by (cases "scan = length code") auto
  then show ?case
    using 1 le by (fastforce simp: block_scan.simps [of code body_begin scan] Let_def split: if_splits)
qed

lemma tok_weight_advance: "t_iter s < length (t_code s) \<Longrightarrow> tok_weight (advance_iter (s\<lparr>t_mode := m\<rparr>)) < 2 * (length (t_code s) - t_iter s)"
  by (auto simp: tok_weight_def advance_iter_def)

lemma take_block_weight:
  assumes "take_block name wch s = Inr s'" and "t_iter s < length (t_code s)"
  shows "tok_weight s' < 2 * (length (t_code s) - t_iter s)"
proof -
  obtain nl body_end resume lns where nl: "find_newline (t_code s) (t_iter s) = Some nl"
    and b: "block_scan (t_code s) (nl + 1) (nl + 1) 0 = Some (body_end, resume, lns)"
    using assms(1) by (auto simp: take_block_def Let_def split: option.splits)
  have "t_iter s \<le> nl" using nl by (auto simp: find_newline_def dest: find_from_bounds)
  moreover have "nl + 1 \<le> resume" "nl + 1 < length (t_code s)" using block_scan_resume [OF b] by auto
  ultimately show ?thesis
    using assms(1) nl b by (auto simp: take_block_def Let_def tok_weight_def advance_iter_def emit_def split: if_splits)
qed

lemma emit_simps [simp]:
  "t_code (emit ty v s) = t_code s" "t_iter (emit ty v s) = t_iter s" "t_mode (emit ty v s) = t_mode s"
  by (simp_all add: emit_def)

lemma count_position_simps [simp]:
  "t_code (count_position wch s) = t_code s" "t_iter (count_position wch s) = t_iter s"
  "t_bmode (count_position wch s) = t_bmode s" "t_tokens (count_position wch s) = t_tokens s"
  by (simp_all add: count_position_def)

lemma count_position_mode: "t_mode (count_position wch s) \<noteq> CHR ''?'' \<Longrightarrow> t_mode s \<noteq> CHR ''?''"
  by (auto simp: count_position_def split: if_splits)

lemma end_name_weight:
  "end_name wch s = Inr s' \<Longrightarrow> t_iter s < length (t_code s) \<Longrightarrow>
    tok_weight s' < 2 * (length (t_code s) - t_iter s) + 1"
  by (fastforce simp: end_name_def Let_def tok_weight_def again_def advance_iter_def dest: take_block_weight
      split: option.splits if_splits)

lemma ends_weight:
  assumes "t_iter s < length (t_code s)"
  shows "end_operator wch s = Inr s' \<Longrightarrow> tok_weight s' < 2 * (length (t_code s) - t_iter s) + 1"
    and "in_integer wch s = Inr s' \<Longrightarrow> tok_weight s' < 2 * (length (t_code s) - t_iter s) + 1"
    and "in_float wch s = Inr s' \<Longrightarrow> tok_weight s' < 2 * (length (t_code s) - t_iter s) + 1"
    and "end_string literal s = Inr s' \<Longrightarrow> tok_weight s' < 2 * (length (t_code s) - t_iter s) + 1"
    and "in_character wch s = Inr s' \<Longrightarrow> tok_weight s' < 2 * (length (t_code s) - t_iter s) + 1"
  using assms
  by (auto simp: end_operator_def in_integer_def in_float_def end_string_def in_character_def end_number_def
      syntax_error_def Let_def tok_weight_def again_def advance_iter_def split: option.splits if_splits)

lemma advances_weight:
  assumes "t_iter s < length (t_code s)"
  shows "t_code s' = t_code s \<Longrightarrow> t_iter s' = t_iter s \<Longrightarrow>
      tok_weight (advance_iter s') < 2 * (length (t_code s) - t_iter s)"
    and "t_code s' = t_code s \<Longrightarrow> t_iter s' = t_iter s \<Longrightarrow>
      tok_weight (advance_iter (advance_iter s')) < 2 * (length (t_code s) - t_iter s)"
    and "0 < t_iter s \<Longrightarrow> tok_weight (erase_previous s) < 2 * (length (t_code s) - t_iter s) + 1"
  using assms by (auto simp: tok_weight_def advance_iter_def erase_previous_def)

definition lighter :: "tok \<Rightarrow> tokenize_error + tok \<Rightarrow> bool" where
  "lighter s r \<longleftrightarrow> (case r of Inl e \<Rightarrow> True | Inr s' \<Rightarrow> tok_weight s' < tok_weight s)"

lemma lighter_if: "(c \<Longrightarrow> lighter s a) \<Longrightarrow> (\<not> c \<Longrightarrow> lighter s b) \<Longrightarrow> lighter s (if c then a else b)"
  by simp

lemma tok_step_lighter:
  assumes "t_iter s < length (t_code s)"
  shows "lighter s (tok_step s)"
proof -
  define wch where "wch = t_code s ! t_iter s"
  define u where "u = count_position wch s"
  have u: "t_iter u < length (t_code u)" "t_code u = t_code s" "t_iter u = t_iter s" using assms by (simp_all add: u_def)
  have ge: "2 * (length (t_code u) - t_iter u) \<le> tok_weight s" by (simp add: tok_weight_def u)
  have gt: "2 * (length (t_code u) - t_iter u) + 1 \<le> tok_weight s" if "t_mode u \<noteq> CHR ''?''"
    using count_position_mode [of wch s] that by (simp add: tok_weight_def u flip: u_def)
  have adv2: "lighter s (Inr (advance_iter (advance_iter (u\<lparr>t_mode := m\<rparr>))))" for m
    using advances_weight(2) [OF u(1), of "u\<lparr>t_mode := m\<rparr>"] ge by (simp add: lighter_def)
  have adv: "lighter s (Inr (advance_iter v))" if "t_code v = t_code u" "t_iter v = t_iter u" for v
    using advances_weight(1) [OF u(1) that] ge by (simp add: lighter_def)
  have erase: "lighter s (Inr (erase_previous u))"
    if "t_mode u = m \<and> wch = c \<and> prev_char u = backslash" "m \<noteq> CHR ''?''" "c \<noteq> backslash" for m c
  proof -
    have "t_iter u \<noteq> 0"
    proof
      assume "t_iter u = 0"
      then show False using that assms by (auto simp: prev_char_def at_offset_def u wch_def)
    qed
    then show ?thesis using advances_weight(3) [OF u(1)] gt that by (simp add: lighter_def)
  qed
  have ends: "lighter s r" if "\<And>s'. r = Inr s' \<Longrightarrow> tok_weight s' < 2 * (length (t_code u) - t_iter u) + 1"
    "t_mode u \<noteq> CHR ''?''" for r
    using that gt by (fastforce simp: lighter_def split: sum.splits)
  show ?thesis
    unfolding tok_step_def Let_def wch_def [symmetric] u_def [symmetric]
    by (intro lighter_if; (rule adv2)?; (rule erase, assumption)?; (rule ends, erule ends_weight [OF u(1)])?;
        (rule ends, erule end_name_weight [OF _ u(1)])?; (rule adv)?)
      (auto simp: begin_mode_def syntax_error_def lighter_def)
qed

lemma tok_step_less: "tok_step s = Inr s' \<Longrightarrow> t_iter s < length (t_code s) \<Longrightarrow> tok_weight s' < tok_weight s"
  using tok_step_lighter [of s] by (simp add: lighter_def)

function tok_loop :: "tok \<Rightarrow> tokenize_error + tok" where
  "tok_loop s =
     (if t_iter s < length (t_code s) then
        (case tok_step s of Inl e \<Rightarrow> Inl e | Inr s' \<Rightarrow> tok_loop s')
      else Inr s)"
  by pat_completeness auto
termination
  by (relation "measure tok_weight") (auto simp: tok_step_less)

declare tok_loop.simps [simp del]

definition start_tok :: "string \<Rightarrow> tok" where
  "start_tok code = \<lparr>t_code = code @ [newline], t_iter = 0, t_mode = CHR ''?'', t_lineno = 1, t_colno = 0,
     t_blineno = 1, t_bcolno = 0, t_bmode = None, t_tokens = []\<rparr>"

definition tokenize :: "string \<Rightarrow> tokenize_error + token list" where
  "tokenize code =
     (case tok_loop (start_tok code) of
        Inl e \<Rightarrow> Inl e
      | Inr s \<Rightarrow>
          if t_mode s \<noteq> CHR ''?'' then
            (case t_bmode s of
               None \<Rightarrow> Inl Undefined
             | Some b \<Rightarrow> Inl (Tokenize_exception ''syntax error'' (ucast (t_blineno s)) (ucast (t_bcolno s)) (at_offset s b)))
          else Inr (t_tokens s @ [\<lparr>tk_type = T_EOF, tk_value = [], tk_line = 0, tk_column = 0\<rparr>]))"

section \<open>Reading one token\<close>

lemma DIGITS_other: "c \<in> set DIGITS \<Longrightarrow> c \<notin> {CHR ''-'', CHR ''/'', CHR ''*'', CHR ''.'', quote_char, dquote_char, newline, return}"
  by (auto simp: DIGITS_def)

lemma ALPHABETS_other:
  "c \<in> set ALPHABETS \<Longrightarrow> c \<notin> {CHR ''-'', CHR ''/'', quote_char, dquote_char, newline, return, CHR ''`''} \<and> c \<notin> set DIGITS"
  by (auto simp: ALPHABETS_def DIGITS_def)

lemma OPERATORS_other:
  "c \<in> set OPERATORS \<Longrightarrow> c \<notin> {quote_char, dquote_char, newline, return, CHR ''@'', CHR ''`''} \<and>
    c \<notin> set DIGITS \<and> c \<notin> set ALPHABETS"
  by (auto simp: OPERATORS_def ALPHABETS_def DIGITS_def)

lemma blank_other:
  "CHR '' '' \<notin> set DIGITS \<and> CHR '' '' \<notin> set ALPHABETS \<and> CHR '' '' \<notin> set OPERATORS \<and> CHR '' '' \<in> set SPACES"
  by (simp add: DIGITS_def ALPHABETS_def OPERATORS_def SPACES_def)

text \<open>What is ahead of the iterator.\<close>

definition ahead :: "tok \<Rightarrow> string \<Rightarrow> bool" where
  "ahead s cs \<longleftrightarrow> t_iter s \<le> length (t_code s) \<and> drop (t_iter s) (t_code s) = cs"

lemma aheadD:
  assumes "ahead s (c # cs)"
  shows "t_iter s < length (t_code s)" and "t_code s ! t_iter s = c"
    and "t_code u = t_code s \<Longrightarrow> t_iter u = t_iter s + 1 \<Longrightarrow> ahead u cs"
    and "cs = d # ds \<Longrightarrow> t_code u = t_code s \<Longrightarrow> t_iter u = t_iter s \<Longrightarrow> next_char u = d"
proof -
  show lt: "t_iter s < length (t_code s)" using assms by (cases "t_iter s = length (t_code s)") (auto simp: ahead_def)
  have d: "drop (t_iter s) (t_code s) = t_code s ! t_iter s # drop (t_iter s + 1) (t_code s)"
    using Cons_nth_drop_Suc [OF lt] by simp
  then show "t_code s ! t_iter s = c" using assms by (simp add: ahead_def)
  show a: "t_code u = t_code s \<Longrightarrow> t_iter u = t_iter s + 1 \<Longrightarrow> ahead u cs"
    using assms d lt by (simp add: ahead_def)
  assume "cs = d # ds" "t_code u = t_code s" "t_iter u = t_iter s"
  moreover from this have "drop (t_iter s + 1) (t_code s) = d # ds" using assms d by (simp add: ahead_def)
  then have "t_iter s + 1 < length (t_code s) \<and> t_code s ! (t_iter s + 1) = d"
    by (metis hd_drop_conv_nth list.distinct(1) list.sel(1) drop_eq_Nil not_le)
  ultimately show "next_char u = d" by (simp add: next_char_def at_offset_def)
qed

definition moved :: "nat \<Rightarrow> tok \<Rightarrow> tok" where
  "moved k s = s\<lparr>t_iter := t_iter s + k, t_colno := t_colno s + of_nat k\<rparr>"

lemma moved_simps [simp]:
  "t_code (moved k s) = t_code s" "t_iter (moved k s) = t_iter s + k" "t_mode (moved k s) = t_mode s"
  "t_lineno (moved k s) = t_lineno s" "t_colno (moved k s) = t_colno s + of_nat k" "t_bmode (moved k s) = t_bmode s"
  "t_blineno (moved k s) = t_blineno s" "t_bcolno (moved k s) = t_bcolno s" "t_tokens (moved k s) = t_tokens s"
  "moved j (moved k s) = moved (k + j) s"
  by (simp_all add: moved_def ac_simps)

lemma tok_loop_step: "t_iter s < length (t_code s) \<Longrightarrow> tok_step s = Inr s' \<Longrightarrow> tok_loop s = tok_loop s'"
  by (simp add: tok_loop.simps [of s])

text \<open>The characters of which a mode takes no notice.\<close>

definition passes :: "char \<Rightarrow> char \<Rightarrow> bool" where
  "passes m c \<longleftrightarrow>
     c \<notin> {newline, return} \<and>
     (m = CHR ''n'' \<and> (c \<in> set ALPHABETS \<or> c \<in> set DIGITS) \<or> m = CHR ''i'' \<and> c \<in> set DIGITS \<or>
      m = CHR ''s'' \<and> c \<noteq> quote_char \<or>
      m = CHR ''o'' \<and> c \<in> set OPERATORS \<and> c \<notin> {CHR ''*'', CHR '','', CHR '';'', CHR ''('', CHR '')''})"

lemma passes_step:
  assumes "t_code s ! t_iter s = c" and "passes (t_mode s) c"
  shows "tok_step s = Inr (moved 1 s)"
proof -
  have u: "count_position c s = s\<lparr>t_colno := t_colno s + 1\<rparr>" using assms(2) by (auto simp: passes_def count_position_def)
  consider "t_mode s = CHR ''n''" "c \<in> set ALPHABETS" | "t_mode s = CHR ''n''" "c \<in> set DIGITS"
    | "t_mode s = CHR ''i''" "c \<in> set DIGITS" "c \<noteq> CHR ''.''" | "t_mode s = CHR ''s''" "c \<noteq> quote_char"
    | "t_mode s = CHR ''o''" "c \<in> set OPERATORS" "c \<notin> {CHR ''*'', CHR '','', CHR '';'', CHR ''('', CHR '')''}"
    using assms(2) DIGITS_other [of c] by (auto simp: passes_def)
  then show ?thesis
    by cases (simp_all add: tok_step_def assms(1) u Let_def advance_iter_def moved_def)
qed

lemma passes_loop: "list_all (passes (t_mode s)) xs \<Longrightarrow> ahead s (xs @ cs) \<Longrightarrow> tok_loop s = tok_loop (moved (length xs) s) \<and>
    ahead (moved (length xs) s) cs"
proof (induction xs arbitrary: s)
  case Nil
  then show ?case by (simp add: moved_def)
next
  case (Cons x xs)
  have h: "ahead s (x # xs @ cs)" using Cons.prems(2) by simp
  have "tok_loop s = tok_loop (moved 1 s)"
    by (rule tok_loop_step [OF aheadD(1) [OF h] passes_step]) (use aheadD(2) [OF h] Cons.prems(1) in auto)
  moreover have "ahead (moved 1 s) (xs @ cs)" by (rule aheadD(3) [OF h]) simp_all
  ultimately show ?case using Cons.IH [of "moved 1 s"] Cons.prems(1) by simp
qed

lemma lexeme_ahead:
  "ahead s (xs @ cs) \<Longrightarrow> t_code u = t_code s \<Longrightarrow> t_iter u = t_iter s + length xs \<Longrightarrow> lexeme (t_iter s) u = xs"
  by (simp add: lexeme_def ahead_def)

lemma blank_step:
  assumes "ahead s (CHR '' '' # cs)" and "t_mode s = CHR ''?''"
  shows "tok_loop s = tok_loop (moved 1 s)"
proof (rule tok_loop_step [OF aheadD(1) [OF assms(1)]])
  have "count_position (CHR '' '') s = s\<lparr>t_colno := t_colno s + 1\<rparr>" by (simp add: count_position_def)
  then show "tok_step s = Inr (moved 1 s)"
    using assms(2) blank_other by (simp add: tok_step_def aheadD(2) [OF assms(1)] Let_def advance_iter_def moved_def)
qed

text \<open>The loop read \<open>k\<close> characters of the line and the tokens \<open>ts\<close>.\<close>

definition reads :: "tok \<Rightarrow> nat \<Rightarrow> token list \<Rightarrow> tok \<Rightarrow> bool" where
  "reads s k ts s' \<longleftrightarrow>
     tok_loop s = tok_loop s' \<and> t_mode s' = CHR ''?'' \<and> t_code s' = t_code s \<and> t_iter s' = t_iter s + k \<and>
     t_lineno s' = t_lineno s \<and> t_colno s' = t_colno s + of_nat k \<and> t_tokens s' = t_tokens s @ ts"

definition word_ok :: "string \<Rightarrow> bool" where
  "word_ok n \<longleftrightarrow>
     n \<noteq> [] \<and> List.hd n \<in> set ALPHABETS \<and> set n \<subseteq> set ALPHABETS \<union> set DIGITS \<and> map upper_char n \<notin> {''HPP'', ''CPP''}"

lemma name_loop_upper: "CHR ''`'' \<notin> set n \<Longrightarrow> name_loop n True name = name @ map upper_char n"
  by (induction n arbitrary: name) auto

lemma begin_word:
  assumes "ahead s (c # cs)" and "t_mode s = CHR ''?''" and "c \<in> set ALPHABETS"
  shows "tok_step s = Inr (advance_iter (begin_mode (CHR ''n'') (s\<lparr>t_colno := t_colno s + 1\<rparr>)))"
proof -
  have "count_position c s = s\<lparr>t_colno := t_colno s + 1\<rparr>"
    using ALPHABETS_other [OF assms(3)] by (simp add: count_position_def)
  then show ?thesis
    using ALPHABETS_other [OF assms(3)] assms(2,3) by (simp add: tok_step_def aheadD(2) [OF assms(1)] Let_def)
qed

text \<open>A token that a blank ends: \<open>fin\<close> is what the blank does in its mode.\<close>

lemma read_run:
  assumes h: "ahead s (c # m @ CHR '' '' # cs)"
    and "begin": "tok_step s = Inr (advance_iter (begin_mode md (s\<lparr>t_colno := t_colno s + 1\<rparr>)))"
    and m: "list_all (passes md) m"
    and fin: "\<And>u. t_mode u = md \<Longrightarrow> t_bmode u = Some (t_iter s) \<Longrightarrow> lexeme (t_iter s) u = c # m \<Longrightarrow>
      t_code u ! t_iter u = CHR '' '' \<Longrightarrow>
      \<exists>b. tok_step u = Inr (again (emit ty v (u\<lparr>t_colno := t_colno u + 1, t_mode := CHR ''?'', t_bmode := b\<rparr>)))"
  shows "\<exists>s'. reads s (length m + 2) [new_token ty v (t_lineno s) (t_colno s + 1)] s'"
proof -
  let ?s1 = "advance_iter (begin_mode md (s\<lparr>t_colno := t_colno s + 1\<rparr>))"
  let ?s2 = "moved (length m) ?s1"
  have 1: "tok_loop s = tok_loop ?s1" by (rule tok_loop_step [OF aheadD(1) [OF h] "begin"])
  have "ahead ?s1 (m @ CHR '' '' # cs)"
    by (rule aheadD(3) [OF h]) (simp_all add: begin_mode_def advance_iter_def)
  then have 2: "tok_loop ?s1 = tok_loop ?s2" and a: "ahead ?s2 (CHR '' '' # cs)"
    using passes_loop [of ?s1 m "CHR '' '' # cs"] m by (simp_all add: begin_mode_def advance_iter_def)
  have "lexeme (t_iter s) ?s2 = c # m"
    by (rule lexeme_ahead [of s _ "CHR '' '' # cs"]) (use h in \<open>simp_all add: begin_mode_def advance_iter_def\<close>)
  then obtain b where "tok_step ?s2 =
      Inr (again (emit ty v (?s2\<lparr>t_colno := t_colno ?s2 + 1, t_mode := CHR ''?'', t_bmode := b\<rparr>)))" (is "_ = Inr ?s3")
    using fin [of ?s2] aheadD(2) [OF a] by (auto simp: begin_mode_def advance_iter_def)
  then have 3: "tok_loop ?s2 = tok_loop ?s3" by (rule tok_loop_step [OF aheadD(1) [OF a]])
  have "tok_loop ?s3 = tok_loop (moved 1 ?s3)"
    by (rule blank_step) (use a in \<open>simp_all add: ahead_def again_def emit_def\<close>)
  then have "tok_loop s = tok_loop (moved 1 ?s3)" using 1 2 3 by simp
  then have "reads s (length m + 2) [new_token ty v (t_lineno s) (t_colno s + 1)] (moved 1 ?s3)"
    by (simp add: reads_def again_def emit_def begin_mode_def advance_iter_def)
  then show ?thesis ..
qed

lemma count_blank: "count_position (CHR '' '') u = u\<lparr>t_colno := t_colno u + 1\<rparr>"
  by (simp add: count_position_def)

lemma lexeme_colno [simp]: "lexeme b (u\<lparr>t_colno := c\<rparr>) = lexeme b u"
  by (simp add: lexeme_def)

lemma read_word:
  assumes "ahead s (n @ CHR '' '' # cs)" and "t_mode s = CHR ''?''" and "word_ok n"
  shows "\<exists>s'. reads s (length n + 1)
    [new_token (name_type (map upper_char n)) (map upper_char n) (t_lineno s) (t_colno s + 1)] s'"
proof -
  obtain c m where n: "n = c # m" using assms(3) by (cases n) (auto simp: word_ok_def)
  let ?N = "map upper_char n"
  have h: "ahead s (c # m @ CHR '' '' # cs)" using assms(1) n by simp
  have b: "tok_step s = Inr (advance_iter (begin_mode (CHR ''n'') (s\<lparr>t_colno := t_colno s + 1\<rparr>)))"
    by (rule begin_word [OF h assms(2)]) (use assms(3) n in \<open>simp add: word_ok_def\<close>)
  have m: "list_all (passes (CHR ''n'')) m"
    using assms(3) DIGITS_other ALPHABETS_other by (auto simp: n word_ok_def list_all_iff passes_def)
  have q: "CHR ''`'' \<notin> set n" using assms(3) by (auto simp: word_ok_def ALPHABETS_def DIGITS_def)
  have fin: "\<exists>b. tok_step u = Inr (again (emit (name_type ?N) ?N (u\<lparr>t_colno := t_colno u + 1, t_mode := CHR ''?'', t_bmode := b\<rparr>)))"
    if u: "t_mode u = CHR ''n''" "t_bmode u = Some (t_iter s)" "lexeme (t_iter s) u = c # m" "t_code u ! t_iter u = CHR '' ''" for u
  proof -
    let ?u = "u\<lparr>t_colno := t_colno u + 1\<rparr>"
    have "tok_step u = end_name (CHR '' '') ?u"
      using u(1) blank_other by (simp add: tok_step_def u(4) Let_def count_blank)
    moreover have "\<not> opens_block ?N ts" for ts using assms(3) by (simp add: word_ok_def opens_block_def)
    ultimately show ?thesis
      using u(2,3) name_loop_upper [OF q, of "[]"]
      by (intro exI [of _ "Some (t_iter u)"]) (simp add: end_name_def Let_def n)
  qed
  have "\<exists>s'. reads s (length m + 2) [new_token (name_type ?N) ?N (t_lineno s) (t_colno s + 1)] s'"
    by (rule read_run [OF h b m], rule fin)
  then show ?thesis by (simp add: n)
qed

lemma read_number:
  assumes "ahead s (n @ CHR '' '' # cs)" and "t_mode s = CHR ''?''" and "n \<noteq> []" and "set n \<subseteq> set DIGITS"
  shows "\<exists>s'. reads s (length n + 1) [new_token T_INT n (t_lineno s) (t_colno s + 1)] s'"
proof -
  obtain c m where n: "n = c # m" using assms(3) by (cases n) auto
  have c: "c \<in> set DIGITS" using assms(4) n by simp
  have h: "ahead s (c # m @ CHR '' '' # cs)" using assms(1) n by simp
  have "count_position c s = s\<lparr>t_colno := t_colno s + 1\<rparr>" using DIGITS_other [OF c] by (simp add: count_position_def)
  then have b: "tok_step s = Inr (advance_iter (begin_mode (CHR ''i'') (s\<lparr>t_colno := t_colno s + 1\<rparr>)))"
    using DIGITS_other [OF c] assms(2) c by (simp add: tok_step_def aheadD(2) [OF h] Let_def)
  have m: "list_all (passes (CHR ''i'')) m"
    using assms(4) DIGITS_other by (auto simp: n list_all_iff passes_def)
  have fin: "\<exists>b. tok_step u = Inr (again (emit T_INT n (u\<lparr>t_colno := t_colno u + 1, t_mode := CHR ''?'', t_bmode := b\<rparr>)))"
    if u: "t_mode u = CHR ''i''" "t_bmode u = Some (t_iter s)" "lexeme (t_iter s) u = c # m" "t_code u ! t_iter u = CHR '' ''" for u
  proof -
    have "tok_step u = end_number T_INT (u\<lparr>t_colno := t_colno u + 1\<rparr>)"
      using u(1) blank_other by (simp add: tok_step_def u(4) Let_def count_blank in_integer_def)
    then have "tok_step u = Inr (again ((emit T_INT n (u\<lparr>t_colno := t_colno u + 1\<rparr>))\<lparr>t_mode := CHR ''?''\<rparr>))"
      using u(2,3) by (simp add: end_number_def n)
    moreover have "(emit T_INT n (u\<lparr>t_colno := t_colno u + 1\<rparr>))\<lparr>t_mode := CHR ''?''\<rparr> =
        emit T_INT n (u\<lparr>t_colno := t_colno u + 1, t_mode := CHR ''?'', t_bmode := t_bmode u\<rparr>)"
      by (rule tok.equality) (simp_all add: emit_def)
    ultimately show ?thesis by metis
  qed
  have "\<exists>s'. reads s (length m + 2) [new_token T_INT n (t_lineno s) (t_colno s + 1)] s'"
    by (rule read_run [OF h b m], rule fin)
  then show ?thesis by (simp add: n)
qed

definition symbol_ok :: "string \<Rightarrow> bool" where
  "symbol_ok p \<longleftrightarrow> p \<in> set MIXED_OPERATORS \<or> length p = 1 \<and> List.hd p \<in> set OPERATORS - {CHR ''('', CHR '')''}"

lemma mixed_operators_ok:
  "list_all (\<lambda>p. p \<noteq> [] \<and> List.hd p \<in> set OPERATORS \<and> List.hd p \<notin> {CHR ''('', CHR '')'', CHR ''-'', CHR ''/''} \<and>
     list_all (passes (CHR ''o'')) (tl p) \<and> map upper_char p = p) MIXED_OPERATORS"
  by code_simp

lemma operators_upper: "list_all (\<lambda>c. upper_char c = c) OPERATORS"
  by code_simp

lemma symbol_okD:
  assumes "symbol_ok p"
  obtains c m where "p = c # m" and "c \<in> set OPERATORS" and "c \<noteq> CHR ''(''" and "c \<noteq> CHR '')''"
    and "list_all (passes (CHR ''o'')) m" and "map upper_char p = p" and "length p = 1 \<or> p \<in> set MIXED_OPERATORS"
    and "c = CHR ''-'' \<longrightarrow> m = []" and "c = CHR ''/'' \<longrightarrow> m = []"
proof -
  have "\<exists>c m. p = c # m \<and> c \<in> set OPERATORS \<and> c \<noteq> CHR ''('' \<and> c \<noteq> CHR '')'' \<and> list_all (passes (CHR ''o'')) m \<and>
    map upper_char p = p \<and> (c = CHR ''-'' \<longrightarrow> m = []) \<and> (c = CHR ''/'' \<longrightarrow> m = [])"
  proof (cases "p \<in> set MIXED_OPERATORS")
    case True
    then have "p \<noteq> [] \<and> List.hd p \<in> set OPERATORS \<and> List.hd p \<notin> {CHR ''('', CHR '')'', CHR ''-'', CHR ''/''} \<and>
        list_all (passes (CHR ''o'')) (tl p) \<and> map upper_char p = p"
      using mixed_operators_ok by (simp add: list_all_iff [of _ MIXED_OPERATORS])
    then show ?thesis by (cases p) auto
  next
    case False
    then obtain c where "p = [c]" "c \<in> set OPERATORS" "c \<noteq> CHR ''(''" "c \<noteq> CHR '')''"
      using assms by (cases p) (auto simp: symbol_ok_def)
    then show ?thesis using operators_upper by (simp add: list_all_iff)
  qed
  then show thesis using that assms by (auto simp: symbol_ok_def)
qed

lemma read_symbol:
  assumes "ahead s (p @ CHR '' '' # cs)" and "t_mode s = CHR ''?''" and "symbol_ok p"
  shows "\<exists>s'. reads s (length p + 1) [new_token T_OP p (t_lineno s) (t_colno s + 1)] s'"
proof -
  obtain c m where p: "p = c # m" and c: "c \<in> set OPERATORS" "c \<noteq> CHR ''(''" "c \<noteq> CHR '')''"
    and m: "list_all (passes (CHR ''o'')) m" and up: "map upper_char p = p"
    and known: "length p = 1 \<or> p \<in> set MIXED_OPERATORS"
    and comment: "c = CHR ''-'' \<longrightarrow> m = []" "c = CHR ''/'' \<longrightarrow> m = []"
    using assms(3) by (rule symbol_okD)
  have h: "ahead s (c # m @ CHR '' '' # cs)" using assms(1) p by simp
  have "next_char (s\<lparr>t_colno := t_colno s + 1\<rparr>) = CHR '' ''" if "m = []"
    by (rule aheadD(4) [OF h]) (use that in simp_all)
  then have nxt: "\<not> (c = CHR ''-'' \<and> next_char (s\<lparr>t_colno := t_colno s + 1\<rparr>) = CHR ''-'')"
    "\<not> (c = CHR ''/'' \<and> next_char (s\<lparr>t_colno := t_colno s + 1\<rparr>) = CHR ''*'')"
    using comment by auto
  have "count_position c s = s\<lparr>t_colno := t_colno s + 1\<rparr>" using OPERATORS_other [OF c(1)] by (simp add: count_position_def)
  then have b: "tok_step s = Inr (advance_iter (begin_mode (CHR ''o'') (s\<lparr>t_colno := t_colno s + 1\<rparr>)))"
    using OPERATORS_other [OF c(1)] assms(2) c nxt by (simp add: tok_step_def aheadD(2) [OF h] Let_def) blast
  have fin: "\<exists>b. tok_step u = Inr (again (emit T_OP p (u\<lparr>t_colno := t_colno u + 1, t_mode := CHR ''?'', t_bmode := b\<rparr>)))"
    if u: "t_mode u = CHR ''o''" "t_bmode u = Some (t_iter s)" "lexeme (t_iter s) u = c # m" "t_code u ! t_iter u = CHR '' ''" for u
  proof -
    have "tok_step u = end_operator (CHR '' '') (u\<lparr>t_colno := t_colno u + 1\<rparr>)"
      using u(1) blank_other by (simp add: tok_step_def u(4) Let_def count_blank)
    then show ?thesis
      using u(2,3) known up by (intro exI [of _ "Some (t_iter u)"]) (auto simp: end_operator_def Let_def p)
  qed
  have "\<exists>s'. reads s (length m + 2) [new_token T_OP p (t_lineno s) (t_colno s + 1)] s'"
    by (rule read_run [OF h b m], rule fin)
  then show ?thesis by (simp add: p)
qed

lemma read_paren:
  assumes h: "ahead s (c # CHR '' '' # cs)" and "t_mode s = CHR ''?''"
    and "c = CHR ''('' \<and> ty = T_LPAR \<or> c = CHR '')'' \<and> ty = T_RPAR"
  shows "\<exists>s'. reads s 2 [new_token ty [c] (t_lineno s) (t_colno s + 1)] s'"
proof -
  let ?s1 = "advance_iter (s\<lparr>t_colno := t_colno s + 1,
    t_tokens := t_tokens s @ [new_token ty [c] (t_lineno s) (t_colno s + 1)]\<rparr>)"
  have c: "c \<in> set OPERATORS" using assms(3) by (auto simp: OPERATORS_def)
  have "count_position c s = s\<lparr>t_colno := t_colno s + 1\<rparr>" using OPERATORS_other [OF c] by (simp add: count_position_def)
  then have "tok_step s = Inr ?s1"
    using assms(3) OPERATORS_other [OF c] assms(2) c
    by (elim disjE conjE) (simp_all add: tok_step_def aheadD(2) [OF h] Let_def)
  then have 1: "tok_loop s = tok_loop ?s1" by (rule tok_loop_step [OF aheadD(1) [OF h]])
  have "tok_loop ?s1 = tok_loop (moved 1 ?s1)"
    by (rule blank_step [OF aheadD(3) [OF h]]) (simp_all add: advance_iter_def assms(2))
  then have "reads s 2 [new_token ty [c] (t_lineno s) (t_colno s + 1)] (moved 1 ?s1)"
    using 1 assms(2) by (simp add: reads_def advance_iter_def)
  then show ?thesis ..
qed

lemma ahead_nth: "ahead s xs \<Longrightarrow> k < length xs \<Longrightarrow> t_iter s + k < length (t_code s) \<and> t_code s ! (t_iter s + k) = xs ! k"
  by (auto simp: ahead_def)

lemma ahead_drop:
  "ahead s (xs @ cs) \<Longrightarrow> t_code u = t_code s \<Longrightarrow> t_iter u = t_iter s + length xs \<Longrightarrow> ahead u cs"
  by (cases "t_iter s + length xs \<le> length (t_code s)") (auto simp: ahead_def add.commute drop_drop [symmetric] simp del: drop_drop
      dest: arg_cong [of _ _ length])

definition text_ok :: "string \<Rightarrow> bool" where
  "text_ok t \<longleftrightarrow> set t \<inter> {quote_char, newline, return} = {} \<and> (t \<noteq> [] \<longrightarrow> List.last t \<noteq> backslash)"

lemma read_text:
  assumes h: "ahead s (quote_char # t @ quote_char # CHR '' '' # cs)" and q: "t_mode s = CHR ''?''"
    and before: "t_iter s = 0 \<or> prev_char s \<noteq> backslash" and t: "text_ok t"
  shows "\<exists>s'. reads s (length t + 3) [new_token T_STR (raw_literal t) (t_lineno s) (t_colno s + 1)] s'"
proof -
  let ?s1 = "advance_iter (begin_mode (CHR ''s'') (s\<lparr>t_colno := t_colno s + 1\<rparr>))"
  let ?s2 = "moved (length t) ?s1"
  let ?s3 = "advance_iter (emit T_STR (raw_literal t)
    (?s2\<lparr>t_colno := t_colno ?s2 + 1, t_bmode := Some (t_iter s + 1), t_mode := CHR ''?''\<rparr>))"
  have "t_iter s = 0 \<or> prev_char (s\<lparr>t_colno := t_colno s + 1\<rparr>) \<noteq> backslash"
    using before by (auto simp: prev_char_def at_offset_def)
  moreover have "count_position quote_char s = s\<lparr>t_colno := t_colno s + 1\<rparr>" by (simp add: count_position_def)
  ultimately have "tok_step s = Inr ?s1" using q by (simp add: tok_step_def aheadD(2) [OF h] Let_def)
  then have 1: "tok_loop s = tok_loop ?s1" by (rule tok_loop_step [OF aheadD(1) [OF h]])
  have a1: "ahead ?s1 (t @ quote_char # CHR '' '' # cs)"
    by (rule aheadD(3) [OF h]) (simp_all add: begin_mode_def advance_iter_def)
  have "list_all (passes (t_mode ?s1)) t"
    using t by (auto simp: text_ok_def passes_def list_all_iff begin_mode_def advance_iter_def)
  from passes_loop [OF this a1] have 2: "tok_loop ?s1 = tok_loop ?s2" and a2: "ahead ?s2 (quote_char # CHR '' '' # cs)"
    by simp_all
  define s2 where "s2 = ?s2"
  have s2: "t_mode s2 = CHR ''s''" "t_bmode s2 = Some (t_iter s)" "t_code s2 = t_code s" "t_iter s2 = t_iter s + 1 + length t"
    by (simp_all add: s2_def begin_mode_def advance_iter_def)
  let ?u = "s2\<lparr>t_colno := t_colno s2 + 1\<rparr>"
  have "(quote_char # t @ quote_char # CHR '' '' # cs) ! length t \<noteq> backslash"
    using t by (cases t rule: rev_cases) (auto simp: text_ok_def nth_append nth_Cons split: nat.splits)
  then have "prev_char ?u \<noteq> backslash"
    using ahead_nth [OF h, of "length t"] by (simp add: prev_char_def at_offset_def s2)
  moreover have "count_position quote_char s2 = ?u" by (simp add: count_position_def)
  moreover note a = a2 [folded s2_def]
  ultimately have "tok_step s2 = end_string raw_literal ?u"
    by (simp add: tok_step_def aheadD(2) [OF a] Let_def s2(1))
  moreover have "lexeme (t_iter ?s1) s2 = t" by (rule lexeme_ahead [OF a1]) (simp_all add: s2_def)
  then have "lexeme (t_iter s + 1) s2 = t" by (simp add: begin_mode_def advance_iter_def)
  then have "end_string raw_literal ?u = Inr ?s3"
    by (simp add: end_string_def s2(2) lexeme_def flip: s2_def)
  ultimately have "tok_step s2 = Inr ?s3" by simp
  then have 3: "tok_loop ?s2 = tok_loop ?s3" unfolding s2_def by (rule tok_loop_step [OF aheadD(1) [OF a2]])
  have "tok_loop ?s3 = tok_loop (moved 1 ?s3)"
    by (rule blank_step [OF aheadD(3) [OF a2]]) (simp_all add: advance_iter_def emit_def)
  then have "tok_loop s = tok_loop (moved 1 ?s3)" using 1 2 3 by simp
  then have "reads s (length t + 3) [new_token T_STR (raw_literal t) (t_lineno s) (t_colno s + 1)] (moved 1 ?s3)"
    by (simp add: reads_def emit_def begin_mode_def advance_iter_def)
  then show ?thesis ..
qed

section \<open>A line of tokens\<close>

datatype lexical = Word string | Number string | Symbol string | Opening | Closing | Text string

fun written :: "lexical \<Rightarrow> string" where
  "written (Word n) = n"
| "written (Number n) = n"
| "written (Symbol p) = p"
| "written Opening = ''(''"
| "written Closing = '')''"
| "written (Text t) = [quote_char] @ t @ [quote_char]"

fun lexical_ok :: "lexical \<Rightarrow> bool" where
  "lexical_ok (Word n) = word_ok n"
| "lexical_ok (Number n) = (n \<noteq> [] \<and> set n \<subseteq> set DIGITS)"
| "lexical_ok (Symbol p) = symbol_ok p"
| "lexical_ok Opening = True"
| "lexical_ok Closing = True"
| "lexical_ok (Text t) = text_ok t"

fun lexical_token :: "lexical \<Rightarrow> u64 \<Rightarrow> u64 \<Rightarrow> token" where
  "lexical_token (Word n) = new_token (name_type (map upper_char n)) (map upper_char n)"
| "lexical_token (Number n) = new_token T_INT n"
| "lexical_token (Symbol p) = new_token T_OP p"
| "lexical_token Opening = new_token T_LPAR ''(''"
| "lexical_token Closing = new_token T_RPAR '')''"
| "lexical_token (Text t) = new_token T_STR (raw_literal t)"

definition spaced :: "lexical list \<Rightarrow> string" where
  "spaced xs = concat (map (\<lambda>x. written x @ '' '') xs)"

fun tokens_at :: "u64 \<Rightarrow> nat \<Rightarrow> lexical list \<Rightarrow> token list" where
  "tokens_at line k [] = []"
| "tokens_at line k (x # xs) =
     lexical_token x line (of_nat (k + 1)) # tokens_at line (k + length (written x) + 1) xs"

definition eof_token :: token where
  "eof_token = \<lparr>tk_type = T_EOF, tk_value = [], tk_line = 0, tk_column = 0\<rparr>"

text \<open>Where a token can start.\<close>

definition ready :: "tok \<Rightarrow> string \<Rightarrow> bool" where
  "ready s cs \<longleftrightarrow> ahead s cs \<and> t_mode s = CHR ''?'' \<and> (t_iter s = 0 \<or> prev_char s \<noteq> backslash)"

lemma reads_ready:
  assumes "reads s (length w + 1) ts s'" and "ready s (w @ CHR '' '' # cs)"
  shows "ready s' cs"
proof -
  have a: "ahead s (w @ CHR '' '' # cs)" using assms(2) by (simp add: ready_def)
  have "ahead s' cs"
    by (rule ahead_drop [of s "w @ '' ''"]) (use a assms(1) in \<open>simp_all add: reads_def\<close>)
  moreover have "prev_char s' = CHR '' ''"
    using ahead_nth [OF a, of "length w"] assms(1) by (simp add: reads_def prev_char_def at_offset_def)
  ultimately show ?thesis using assms(1) by (simp add: ready_def reads_def)
qed

lemma read_lexical:
  assumes "ready s (written x @ CHR '' '' # cs)" and "lexical_ok x"
  obtains s' where "reads s (length (written x) + 1) [lexical_token x (t_lineno s) (t_colno s + 1)] s'" and "ready s' cs"
proof -
  have "\<exists>s'. reads s (length (written x) + 1) [lexical_token x (t_lineno s) (t_colno s + 1)] s'"
  proof (cases x)
    case (Word n)
    then show ?thesis using assms read_word [of s n cs] by (simp add: ready_def)
  next
    case (Number n)
    then show ?thesis using assms read_number [of s n cs] by (simp add: ready_def)
  next
    case (Symbol p)
    then show ?thesis using assms read_symbol [of s p cs] by (simp add: ready_def)
  next
    case Opening
    then show ?thesis using assms read_paren [of s "CHR ''(''" cs] by (simp add: ready_def numeral_2_eq_2)
  next
    case Closing
    then show ?thesis using assms read_paren [of s "CHR '')''" cs] by (simp add: ready_def numeral_2_eq_2)
  next
    case (Text t)
    then show ?thesis using assms read_text [of s t cs] by (simp add: ready_def numeral_3_eq_3)
  qed
  with reads_ready [OF _ assms(1)] show thesis using that by blast
qed

lemma read_line:
  "ready s (spaced xs @ cs) \<Longrightarrow> list_all lexical_ok xs \<Longrightarrow> t_colno s = of_nat k \<Longrightarrow>
    \<exists>s'. reads s (length (spaced xs)) (tokens_at (t_lineno s) k xs) s' \<and> ready s' cs"
proof (induction xs arbitrary: s k)
  case Nil
  then show ?case by (intro exI [of _ s]) (simp add: reads_def spaced_def ready_def)
next
  case (Cons x xs)
  have "ready s (written x @ CHR '' '' # (spaced xs @ cs))" using Cons.prems(1) by (simp add: spaced_def)
  then obtain s1 where 1: "reads s (length (written x) + 1) [lexical_token x (t_lineno s) (t_colno s + 1)] s1"
    and r: "ready s1 (spaced xs @ cs)"
    using Cons.prems(2) by (auto elim: read_lexical)
  have "t_colno s1 = of_nat (k + length (written x) + 1)" using 1 Cons.prems(3) by (simp add: reads_def add_ac)
  from Cons.IH [OF r _ this] Cons.prems(2) obtain s2 where
    2: "reads s1 (length (spaced xs)) (tokens_at (t_lineno s1) (k + length (written x) + 1) xs) s2" and "ready s2 cs" by auto
  moreover have "reads s (length (spaced (x # xs))) (tokens_at (t_lineno s) k (x # xs)) s2"
    using 1 2 Cons.prems(3) by (simp add: reads_def spaced_def add_ac)
  ultimately show ?case by blast
qed

lemma start_ready: "ready (start_tok code) (code @ [newline])"
  by (simp add: ready_def ahead_def start_tok_def)

lemma newline_step:
  assumes "ready s (newline # cs)"
  shows "tok_loop s = tok_loop (s\<lparr>t_lineno := t_lineno s + 1, t_colno := 0, t_iter := t_iter s + 1\<rparr>)"
    and "ready (s\<lparr>t_lineno := t_lineno s + 1, t_colno := 0, t_iter := t_iter s + 1\<rparr>) cs"
proof -
  have a: "ahead s (newline # cs)" and q: "t_mode s = CHR ''?''" using assms by (simp_all add: ready_def)
  have n: "newline \<notin> set DIGITS \<and> newline \<notin> set ALPHABETS \<and> newline \<notin> set OPERATORS \<and> newline \<in> set SPACES"
    by (simp add: DIGITS_def ALPHABETS_def OPERATORS_def SPACES_def)
  have "count_position newline s = s\<lparr>t_lineno := t_lineno s + 1, t_colno := 0\<rparr>"
    using q by (cases s) (simp add: count_position_def)
  then have "tok_step s = Inr (s\<lparr>t_lineno := t_lineno s + 1, t_colno := 0, t_iter := t_iter s + 1\<rparr>)"
    using q n by (simp add: tok_step_def aheadD(2) [OF a] Let_def advance_iter_def)
  then show "tok_loop s = tok_loop (s\<lparr>t_lineno := t_lineno s + 1, t_colno := 0, t_iter := t_iter s + 1\<rparr>)"
    by (rule tok_loop_step [OF aheadD(1) [OF a]])
  show "ready (s\<lparr>t_lineno := t_lineno s + 1, t_colno := 0, t_iter := t_iter s + 1\<rparr>) cs"
    using aheadD(2) [OF a] aheadD(1) [OF a] q aheadD(3) [OF a, of "s\<lparr>t_lineno := t_lineno s + 1, t_colno := 0, t_iter := t_iter s + 1\<rparr>"]
    by (simp add: ready_def prev_char_def at_offset_def)
qed

lemma loop_end: "ready s [] \<Longrightarrow> tok_loop s = Inr s"
  by (simp add: ready_def ahead_def tok_loop.simps [of s])

definition program :: "lexical list list \<Rightarrow> string" where
  "program ls = concat (map (\<lambda>l. spaced l @ [newline]) ls)"

fun lines_at :: "u64 \<Rightarrow> lexical list list \<Rightarrow> token list" where
  "lines_at n [] = []"
| "lines_at n (l # ls) = tokens_at n 0 l @ lines_at (n + 1) ls"

text \<open>The state at the start of a line.\<close>

definition at_line :: "tok \<Rightarrow> u64 \<Rightarrow> token list \<Rightarrow> string \<Rightarrow> bool" where
  "at_line s n ts cs \<longleftrightarrow> ready s cs \<and> t_lineno s = n \<and> t_colno s = 0 \<and> t_tokens s = ts"

lemma at_line_start: "at_line (start_tok code) 1 [] (code @ [newline])"
  using start_ready [of code] by (simp add: at_line_def start_tok_def)

lemma read_whole_line:
  assumes "at_line s n ts (spaced l @ newline # cs)" and "list_all lexical_ok l"
  obtains s' where "tok_loop s = tok_loop s'" and "at_line s' (n + 1) (ts @ tokens_at n 0 l) cs"
proof -
  have "\<exists>u. reads s (length (spaced l)) (tokens_at (t_lineno s) 0 l) u \<and> ready u (newline # cs)"
    by (rule read_line) (use assms in \<open>simp_all add: at_line_def\<close>)
  then obtain u where 1: "reads s (length (spaced l)) (tokens_at n 0 l) u" and r: "ready u (newline # cs)"
    using assms(1) by (auto simp: at_line_def)
  let ?v = "u\<lparr>t_lineno := t_lineno u + 1, t_colno := 0, t_iter := t_iter u + 1\<rparr>"
  have "tok_loop s = tok_loop ?v" using 1 newline_step(1) [OF r] by (simp add: reads_def)
  moreover have "at_line ?v (n + 1) (ts @ tokens_at n 0 l) cs"
    using 1 newline_step(2) [OF r] assms(1) by (simp add: reads_def at_line_def)
  ultimately show thesis by (rule that)
qed

lemma read_program:
  "at_line s n ts (program ls @ cs) \<Longrightarrow> list_all (list_all lexical_ok) ls \<Longrightarrow>
    \<exists>s'. tok_loop s = tok_loop s' \<and> at_line s' (n + of_nat (length ls)) (ts @ lines_at n ls) cs"
proof (induction ls arbitrary: s n ts)
  case Nil
  then show ?case by (auto simp: program_def)
next
  case (Cons l ls)
  have "at_line s n ts (spaced l @ newline # (program ls @ cs))" using Cons.prems(1) by (simp add: program_def)
  then obtain s1 where 1: "tok_loop s = tok_loop s1" "at_line s1 (n + 1) (ts @ tokens_at n 0 l) (program ls @ cs)"
    using Cons.prems(2) by (auto elim: read_whole_line)
  show ?case using Cons.IH [OF 1(2)] Cons.prems(2) 1(1) by (simp add: add_ac)
qed

lemma tokenize_end:
  assumes "tok_loop (start_tok code) = tok_loop s" and "at_line s n ts [newline]"
  shows "tokenize code = Inr (ts @ [eof_token])"
proof -
  have r: "ready s [newline]" using assms(2) by (simp add: at_line_def)
  have "tok_loop (start_tok code) = Inr (s\<lparr>t_lineno := t_lineno s + 1, t_colno := 0, t_iter := t_iter s + 1\<rparr>)"
    using assms(1) newline_step [OF r] loop_end by simp
  then show ?thesis using assms(2) by (simp add: tokenize_def eof_token_def at_line_def ready_def)
qed

text \<open>C18. Tokens written on lines, each followed by a blank (names, numbers, operators, parentheses and quoted texts), are
  read back: every one with its type, its value (names in upper case, a text as a raw C++ literal), its line and the
  column it starts at, and then the end of the file.\<close>

theorem token_roundtrip:
  assumes "list_all (list_all lexical_ok) ls"
  shows "tokenize (program ls) = Inr (lines_at 1 ls @ [eof_token])"
proof -
  obtain s where "tok_loop (start_tok (program ls)) = tok_loop s" "at_line s (1 + of_nat (length ls)) ([] @ lines_at 1 ls) [newline]"
    using read_program [OF at_line_start assms] by auto
  from tokenize_end [OF this] show ?thesis by simp
qed

lemma token_roundtrip_witness:
  "tokenize (''select ( a1 , 42 ) '' @ [newline] @ ''<= 'x y' or t ; '' @ [newline]) =
     Inr (lines_at 1 [[Word ''select'', Opening, Word ''a1'', Symbol '','', Number ''42'', Closing],
       [Symbol ''<='', Text ''x y'', Word ''or'', Word ''t'', Symbol '';'']] @ [eof_token])"
proof -
  let ?ls = "[[Word ''select'', Opening, Word ''a1'', Symbol '','', Number ''42'', Closing],
    [Symbol ''<='', Text ''x y'', Word ''or'', Word ''t'', Symbol '';'']]"
  have "program ?ls = ''select ( a1 , 42 ) '' @ [newline] @ ''<= 'x y' or t ; '' @ [newline]" by code_simp
  moreover have "list_all (list_all lexical_ok) ?ls" by code_simp
  ultimately show ?thesis using token_roundtrip by metis
qed

section \<open>A number at the end of a line\<close>

lemma read_number_newline:
  assumes l: "at_line s n ts (d @ newline # cs)" and d: "d \<noteq> []" "set d \<subseteq> set DIGITS"
  obtains s' where "tok_loop s = tok_loop s'" and "at_line s' (n + 2) (ts @ [new_token T_INT d n 1]) cs"
proof -
  obtain c m where dm: "d = c # m" using d(1) by (cases d) auto
  have c: "c \<in> set DIGITS" using d(2) dm by simp
  have h: "ahead s (c # m @ newline # cs)" using l dm by (simp add: at_line_def ready_def)
  let ?s1 = "advance_iter (begin_mode (CHR ''i'') (s\<lparr>t_colno := t_colno s + 1\<rparr>))"
  have "count_position c s = s\<lparr>t_colno := t_colno s + 1\<rparr>" using DIGITS_other [OF c] by (simp add: count_position_def)
  then have "tok_step s = Inr ?s1"
    using DIGITS_other [OF c] l c by (simp add: tok_step_def aheadD(2) [OF h] Let_def at_line_def ready_def)
  then have 1: "tok_loop s = tok_loop ?s1" by (rule tok_loop_step [OF aheadD(1) [OF h]])
  have a1: "ahead ?s1 (m @ newline # cs)" by (rule aheadD(3) [OF h]) (simp_all add: begin_mode_def advance_iter_def)
  have "list_all (passes (t_mode ?s1)) m"
    using d(2) DIGITS_other by (auto simp: dm list_all_iff passes_def begin_mode_def advance_iter_def)
  from passes_loop [OF this a1] have 2: "tok_loop ?s1 = tok_loop (moved (length m) ?s1)"
    and a2: "ahead (moved (length m) ?s1) (newline # cs)" by simp_all
  define s2 where "s2 = moved (length m) ?s1"
  have s2: "t_mode s2 = CHR ''i''" "t_bmode s2 = Some (t_iter s)" "t_lineno s2 = n" "t_tokens s2 = ts" "t_blineno s2 = n"
    "t_bcolno s2 = 1" "t_iter s2 = t_iter s + length d" "t_code s2 = t_code s"
    using l by (simp_all add: s2_def begin_mode_def advance_iter_def at_line_def dm)
  let ?s3 = "s2\<lparr>t_lineno := n + 1, t_colno := - 1, t_mode := CHR ''?'', t_tokens := ts @ [new_token T_INT d n 1]\<rparr>"
  note a = a2 [folded s2_def]
  have lx: "lexeme (t_iter s) s2 = d"
    by (rule lexeme_ahead [of s d "newline # cs"]) (use h in \<open>simp_all add: dm s2\<close>)
  have "count_position newline s2 = s2\<lparr>t_lineno := n + 1, t_colno := 0\<rparr>"
    using s2 by (cases s2) (simp add: count_position_def)
  moreover have "newline \<notin> set DIGITS" by (simp add: DIGITS_def)
  ultimately have "tok_step s2 = end_number T_INT (s2\<lparr>t_lineno := n + 1, t_colno := 0\<rparr>)"
    using s2(1) by (simp add: tok_step_def aheadD(2) [OF a] Let_def in_integer_def)
  also have "\<dots> = Inr ?s3" using lx by (simp add: end_number_def s2 lexeme_def again_def emit_def)
  finally have 3: "tok_loop s2 = tok_loop ?s3" by (rule tok_loop_step [OF aheadD(1) [OF a]])
  have "d ! length m \<in> set DIGITS" using d(2) nth_mem [of "length m" d] dm by auto
  then have "d ! length m \<noteq> backslash" by (auto simp: DIGITS_def)
  moreover have "(c # m @ newline # cs) ! length m = d ! length m"
    unfolding dm by (cases m rule: rev_cases) (simp_all add: nth_append)
  ultimately have "prev_char ?s3 \<noteq> backslash"
    using ahead_nth [OF h, of "length m"] by (simp add: prev_char_def at_offset_def s2) (simp add: dm)
  then have r: "ready ?s3 (newline # cs)" using a by (simp add: ready_def ahead_def)
  let ?v = "?s3\<lparr>t_lineno := t_lineno ?s3 + 1, t_colno := 0, t_iter := t_iter ?s3 + 1\<rparr>"
  have "tok_loop s = tok_loop ?v" using 1 2 3 newline_step(1) [OF r] unfolding s2_def [symmetric] by (rule trans [OF trans [OF trans]])
  moreover have "at_line ?v (n + 2) (ts @ [new_token T_INT d n 1]) cs"
    using newline_step(2) [OF r] by (simp add: at_line_def)
  ultimately show thesis by (rule that)
qed

text \<open>A number that ends its line costs a line: the newline is looked at again when the number is over, but it has
  been counted already, so what stands on line 2 is reported on line 3.\<close>

theorem number_newline_twice:
  assumes "d \<noteq> []" and "set d \<subseteq> set DIGITS" and "list_all lexical_ok xs"
  shows "tokenize (d @ [newline] @ spaced xs @ [newline]) = Inr (new_token T_INT d 1 1 # tokens_at 3 0 xs @ [eof_token])"
proof -
  let ?c = "d @ [newline] @ spaced xs @ [newline]"
  have "at_line (start_tok ?c) 1 [] (d @ newline # (spaced xs @ newline # [newline]))"
    using at_line_start [of ?c] by simp
  then obtain s1 where 1: "tok_loop (start_tok ?c) = tok_loop s1"
    "at_line s1 (1 + 2) ([] @ [new_token T_INT d 1 1]) (spaced xs @ newline # [newline])"
    using assms(1,2) by (rule read_number_newline)
  from 1(2) assms(3) obtain s2 where "tok_loop s1 = tok_loop s2"
    "at_line s2 (1 + 2 + 1) (([] @ [new_token T_INT d 1 1]) @ tokens_at (1 + 2) 0 xs) [newline]"
    by (rule read_whole_line)
  from tokenize_end [OF trans [OF 1(1) this(1)] this(2)] show ?thesis by simp
qed

section \<open>A comment that is not closed\<close>

lemma comment_loop:
  assumes "\<forall>c \<in> set cs. c \<noteq> CHR ''*''" and "ahead s cs" and "t_mode s = CHR ''/''"
  shows "\<exists>s'. tok_loop s = Inr s' \<and> t_mode s' = CHR ''/'' \<and> t_bmode s' = t_bmode s"
  using assms
proof (induction cs arbitrary: s)
  case Nil
  then show ?case by (auto simp: ahead_def tok_loop.simps [of s])
next
  case (Cons c cs)
  let ?s1 = "advance_iter (count_position c s)"
  have m: "t_mode (count_position c s) = CHR ''/''" using Cons.prems(3) by (simp add: count_position_def)
  then have "tok_step s = Inr ?s1"
    using Cons.prems(1) by (simp add: tok_step_def aheadD(2) [OF Cons.prems(2)] Let_def)
  then have "tok_loop s = tok_loop ?s1" by (rule tok_loop_step [OF aheadD(1) [OF Cons.prems(2)]])
  moreover have "ahead ?s1 cs" by (rule aheadD(3) [OF Cons.prems(2)]) (simp_all add: advance_iter_def)
  ultimately show ?case using Cons.IH [of ?s1] Cons.prems(1) m by (simp add: advance_iter_def)
qed

text \<open>A source that is a comment which is never closed does not raise the syntax error meant for it: no token has begun,
  so the error takes its character through a singular iterator, which is undefined.\<close>

theorem unclosed_comment:
  assumes "list_all (\<lambda>c. c \<noteq> CHR ''*'') cs" and "take 1 cs \<noteq> ''/''"
  shows "tokenize (''/*'' @ cs) = Inl Undefined"
proof -
  define s where "s = start_tok (''/*'' @ cs)"
  have s: "t_mode s = CHR ''?''" "t_bmode s = None" by (simp_all add: s_def start_tok_def)
  obtain d ds where d: "cs @ [newline] = d # ds" by (cases "cs @ [newline]") auto
  have nd: "d \<noteq> CHR ''/''" using d assms(2) by (cases cs) auto
  have h: "ahead s (CHR ''/'' # CHR ''*'' # cs @ [newline])" by (simp add: s_def ahead_def start_tok_def)
  let ?s1 = "advance_iter (s\<lparr>t_colno := t_colno s + 1, t_mode := CHR ''/''\<rparr>)"
  have "count_position (CHR ''/'') s = s\<lparr>t_colno := t_colno s + 1\<rparr>" by (simp add: count_position_def)
  moreover have "next_char (s\<lparr>t_colno := t_colno s + 1\<rparr>) = CHR ''*''" by (rule aheadD(4) [OF h]) simp_all
  ultimately have "tok_step s = Inr ?s1" using s by (simp add: tok_step_def aheadD(2) [OF h] Let_def)
  then have 1: "tok_loop s = tok_loop ?s1" by (rule tok_loop_step [OF aheadD(1) [OF h]])
  have h1: "ahead ?s1 (CHR ''*'' # cs @ [newline])" by (rule aheadD(3) [OF h]) (simp_all add: advance_iter_def)
  define s1 where "s1 = ?s1"
  have s1: "t_mode s1 = CHR ''/''" "t_bmode s1 = None" by (simp_all add: s1_def advance_iter_def s)
  note h1 = h1 [folded s1_def]
  let ?s2 = "advance_iter (s1\<lparr>t_colno := t_colno s1 + 1\<rparr>)"
  have "count_position (CHR ''*'') s1 = s1\<lparr>t_colno := t_colno s1 + 1\<rparr>" by (simp add: count_position_def)
  moreover have "next_char (s1\<lparr>t_colno := t_colno s1 + 1\<rparr>) = d" by (rule aheadD(4) [OF h1 d]) simp_all
  ultimately have "tok_step s1 = Inr ?s2" using nd s1 by (simp add: tok_step_def aheadD(2) [OF h1] Let_def)
  then have 2: "tok_loop s1 = tok_loop ?s2" by (rule tok_loop_step [OF aheadD(1) [OF h1]])
  have "ahead ?s2 (cs @ [newline])" by (rule aheadD(3) [OF h1]) (simp_all add: advance_iter_def)
  moreover have "\<forall>c \<in> set (cs @ [newline]). c \<noteq> CHR ''*''" using assms(1) by (simp add: list_all_iff)
  moreover have "t_mode ?s2 = CHR ''/''" "t_bmode ?s2 = None" by (simp_all add: advance_iter_def s1)
  ultimately obtain s' where "tok_loop ?s2 = Inr s'" "t_mode s' = CHR ''/''" "t_bmode s' = None"
    using comment_loop [of "cs @ [newline]" ?s2] by auto
  then show ?thesis using 1 2 by (simp add: tokenize_def s1_def s_def)
qed

end
