(* ===== verification/SHA.thy ===== *)
theory SHA
  imports Utility BigInt_Octets
begin

text \<open>
  \<open>Cryptography/shahelper.cpp\<close>: the digests, which OpenSSL computes. \<open>evp v octets\<close> and \<open>hmac v key text\<close>, what its
  \<open>EVP_Digest\<close> and \<open>HMAC\<close> answer, are parameters; \<open>None\<close> is their failure. That they answer with a digest of the length
  of their version is the hypothesis \<open>digests\<close>.
\<close>

datatype sha_version = SHA1 | SHA224 | SHA256 | SHA384 | SHA512

fun sha_size :: "sha_version \<Rightarrow> nat" where
  "sha_size SHA1 = 20"
| "sha_size SHA224 = 28"
| "sha_size SHA256 = 32"
| "sha_size SHA384 = 48"
| "sha_size SHA512 = 64"

fun sha_name :: "sha_version \<Rightarrow> string" where
  "sha_name SHA1 = ''SHA1''"
| "sha_name SHA224 = ''SHA224''"
| "sha_name SHA256 = ''SHA256''"
| "sha_name SHA384 = ''SHA384''"
| "sha_name SHA512 = ''SHA512''"

type_synonym evp = "sha_version \<Rightarrow> byte list \<Rightarrow> byte list option"

definition sha_checksum :: "evp \<Rightarrow> sha_version \<Rightarrow> byte list \<Rightarrow> byte list result" where
  "sha_checksum evp version octets =
     (case evp version octets of
        None \<Rightarrow> Inl (CryptographyException ''sha error'')
      | Some digest \<Rightarrow>
          if length digest \<noteq> sha_size version then Inl (CryptographyException ''sha error'') else Inr digest)"

text \<open>The stream is read in pieces of \<open>CHUNK\<close> octets until \<open>length\<close> of them were digested.\<close>

definition CHUNK :: nat where "CHUNK = 64 * 1024"

function sha_pieces :: "byte list \<Rightarrow> nat \<Rightarrow> byte list \<Rightarrow> byte list result" where
  "sha_pieces octets remaining ctx =
     (if remaining > 0 then
        (let want = (if remaining < CHUNK then remaining else CHUNK);
             got = take want octets
         in if got = [] then Inl (CryptographyException ''sha short read'')
            else sha_pieces (drop want octets) (remaining - length got) (ctx @ got))
      else Inr ctx)"
  by pat_completeness auto
termination
  by (relation "measure (\<lambda>(_, remaining, _). remaining)") (auto simp: CHUNK_def)

declare sha_pieces.simps [simp del]

definition sha_checksum_stream :: "evp \<Rightarrow> sha_version \<Rightarrow> byte list \<Rightarrow> nat \<Rightarrow> byte list result" where
  "sha_checksum_stream evp version octets len =
     bind_res (sha_pieces octets len []) (\<lambda>ctx.
       case evp version ctx of None \<Rightarrow> Inl (CryptographyException ''sha error'') | Some digest \<Rightarrow> Inr digest)"

definition sha_checksum_string :: "evp \<Rightarrow> sha_version \<Rightarrow> string \<Rightarrow> string result" where
  "sha_checksum_string evp version txt =
     bind_res (sha_checksum evp version (map of_char txt)) (\<lambda>digest. Inr (octet_as_hex (take (sha_size version) digest)))"

definition sha_hmac ::
  "(sha_version \<Rightarrow> byte list \<Rightarrow> byte list \<Rightarrow> byte list option) \<Rightarrow> sha_version \<Rightarrow> byte list \<Rightarrow> byte list \<Rightarrow> byte list result" where
  "sha_hmac hmac version key txt =
     (case hmac version key txt of
        None \<Rightarrow> Inl (CryptographyException ''hmac error'')
      | Some digest \<Rightarrow>
          if length digest \<noteq> sha_size version then Inl (CryptographyException ''hmac error'') else Inr digest)"

definition sha_hmac_stream ::
  "(sha_version \<Rightarrow> byte list \<Rightarrow> byte list \<Rightarrow> byte list option) \<Rightarrow> sha_version \<Rightarrow> byte list \<Rightarrow> nat \<Rightarrow> byte list \<Rightarrow> nat \<Rightarrow>
    byte list result" where
  "sha_hmac_stream hmac version key key_length txt text_length =
     (if key_length > 0 \<and> length (take key_length key) < key_length
      then Inl (CryptographyException ''hmac short read'')
      else if text_length > 0 \<and> length (take text_length txt) < text_length
      then Inl (CryptographyException ''hmac short read'')
      else sha_hmac hmac version (take key_length key) (take text_length txt))"

section \<open>Facts\<close>

definition digests :: "evp \<Rightarrow> bool" where
  "digests evp \<longleftrightarrow> (\<forall>v octets. \<exists>d. evp v octets = Some d \<and> length d = sha_size v)"

lemma digests_checksum: "digests evp \<Longrightarrow> \<exists>d. sha_checksum evp v octets = Inr d \<and> length d = sha_size v"
  by (auto simp: digests_def sha_checksum_def dest!: spec [of _ v] spec [of _ octets])

lemma sha_size_bounds: "0 < sha_size v \<and> sha_size v \<le> 64"
  by (cases v) simp_all

text \<open>Reading in pieces digests the first \<open>len\<close> octets of the stream, or fails when it has fewer.\<close>

lemma sha_pieces_take:
  "sha_pieces octets remaining ctx =
     (if length octets < remaining then Inl (CryptographyException ''sha short read'')
      else Inr (ctx @ take remaining octets))"
proof (induction octets remaining ctx rule: sha_pieces.induct)
  case (1 octets remaining ctx)
  let ?want = "if remaining < CHUNK then remaining else CHUNK"
  show ?case
  proof (cases "0 < remaining \<and> take ?want octets \<noteq> []")
    case True
    have "sha_pieces octets remaining ctx =
        sha_pieces (drop ?want octets) (remaining - length (take ?want octets)) (ctx @ take ?want octets)"
      using True by (simp add: sha_pieces.simps [of octets] Let_def)
    also have "\<dots> = (if length (drop ?want octets) < remaining - length (take ?want octets)
        then Inl (CryptographyException ''sha short read'')
        else Inr ((ctx @ take ?want octets) @ take (remaining - length (take ?want octets)) (drop ?want octets)))"
      using True by (intro 1) simp_all
    also have "\<dots> = (if length octets < remaining then Inl (CryptographyException ''sha short read'')
        else Inr (ctx @ take remaining octets))"
      using take_add [of ?want "remaining - ?want" octets]
      by (cases "length octets < remaining") (auto simp: min_def split: if_splits)
    finally show ?thesis .
  next
    case False
    then show ?thesis by (auto simp: sha_pieces.simps [of octets] CHUNK_def Let_def)
  qed
qed

lemma sha_stream_checksum:
  "digests evp \<Longrightarrow> sha_checksum_stream evp v octets len =
    (if length octets < len then Inl (CryptographyException ''sha short read'') else sha_checksum evp v (take len octets))"
  using digests_checksum [of evp v "take len octets"]
  by (auto simp: sha_checksum_stream_def sha_pieces_take sha_checksum_def split: option.splits if_splits)

end
