(* ===== verification/Prime_Numbers.thy ===== *)
theory Prime_Numbers
  imports Complex_Main
begin

text \<open>
  Facts about prime numbers that the correctness of RSA rests on: the little theorem of Fermat, what it says of powers
  modulo a product of two primes, and the square roots of one that the Miller-Rabin test looks for.
\<close>

section \<open>Primes\<close>

definition is_prime :: "nat \<Rightarrow> bool" where
  "is_prime p \<longleftrightarrow> 1 < p \<and> (\<forall>d. d dvd p \<longrightarrow> d = 1 \<or> d = p)"

lemma is_primeI: "1 < p \<Longrightarrow> list_all (\<lambda>d. \<not> d dvd p) [2..<p] \<Longrightarrow> is_prime p"
proof -
  assume p: "1 < p" "list_all (\<lambda>d. \<not> d dvd p) [2..<p]"
  have "d = 1 \<or> d = p" if d: "d dvd p" for d
  proof -
    have "d \<le> p" "0 < d" using d p(1) dvd_pos_nat [of p d] by (auto dest: dvd_imp_le)
    then show ?thesis using d p(2) by (force simp: list_all_iff)
  qed
  then show ?thesis using p(1) by (simp add: is_prime_def)
qed

lemma prime_gt_1: "is_prime p \<Longrightarrow> 1 < p"
  by (simp add: is_prime_def)

lemma prime_coprime: "is_prime p \<Longrightarrow> \<not> p dvd a \<Longrightarrow> coprime p a"
  by (metis coprime_iff_gcd_eq_1 gcd_dvd1 gcd_dvd2 is_prime_def)

lemma prime_dvd_mult: "is_prime p \<Longrightarrow> p dvd a * b \<longleftrightarrow> p dvd a \<or> p dvd b"
  by (metis coprime_dvd_mult_right_iff dvd_mult dvd_mult2 prime_coprime)

lemma primes_coprime: "is_prime p \<Longrightarrow> is_prime q \<Longrightarrow> p \<noteq> q \<Longrightarrow> coprime p q"
  by (metis is_prime_def less_irrefl prime_coprime)

section \<open>The little theorem of Fermat\<close>

lemma prime_dvd_binomial:
  assumes "is_prime p" and "0 < k" and "k < p"
  shows "p dvd (p choose k)"
proof -
  obtain j m where k: "k = Suc j" and p: "p = Suc m" using assms(2,3) by (metis Suc_pred less_trans)
  have "Suc j * (Suc m choose Suc j) = Suc m * (m choose j)" by (rule Suc_times_binomial)
  then have "p dvd k * (p choose k)" using k p by (metis dvd_triv_left)
  moreover have "\<not> p dvd k" using assms(2,3) by (auto dest: dvd_imp_le)
  ultimately show ?thesis using prime_dvd_mult [OF assms(1)] by blast
qed

lemma mod_cong_cancel: "(p :: nat) dvd x \<Longrightarrow> (a + x) mod p = a mod p"
  by (metis add.right_neutral dvd_imp_mod_0 mod_add_right_eq)

lemma fermat_step:
  assumes "is_prime p"
  shows "(a + 1) ^ p mod p = (a ^ p + 1) mod p"
proof -
  have p1: "1 < p" using assms by (rule prime_gt_1)
  have s: "{..p} = insert 0 (insert p {1..<p})" using p1 by auto
  have "(a + 1) ^ p = (\<Sum>k\<le>p. (p choose k) * a ^ k)" using binomial [of a 1 p] by simp
  also have "\<dots> = a ^ p + 1 + (\<Sum>k \<in> {1..<p}. (p choose k) * a ^ k)"
    unfolding s using p1 by (subst sum.insert; simp)+
  finally have e: "(a + 1) ^ p = a ^ p + 1 + (\<Sum>k \<in> {1..<p}. (p choose k) * a ^ k)" .
  have "p dvd (\<Sum>k \<in> {1..<p}. (p choose k) * a ^ k)"
    by (rule dvd_sum) (use prime_dvd_binomial [OF assms] in auto)
  then show ?thesis unfolding e by (rule mod_cong_cancel)
qed

lemma fermat:
  assumes "is_prime p"
  shows "a ^ p mod p = a mod p"
proof (induction a)
  case 0
  then show ?case using prime_gt_1 [OF assms] by (simp add: power_0_left)
next
  case (Suc a)
  have "(a ^ p + 1) mod p = (a + 1) mod p" using Suc by (metis mod_add_left_eq)
  then show ?case using fermat_step [OF assms, of a] by simp
qed

lemma mod_cancel:
  assumes "coprime p c" and "(c * a) mod p = (c * b) mod (p :: nat)"
  shows "a mod p = b mod p"
proof -
  have "int p dvd int c * (int a - int b)"
    using assms(2) by (metis mod_eq_dvd_iff of_nat_mult right_diff_distrib zmod_int)
  moreover have "coprime (int p) (int c)" using assms(1) by simp
  ultimately have "int p dvd int a - int b" by (simp add: coprime_dvd_mult_right_iff)
  then show ?thesis by (metis mod_eq_dvd_iff of_nat_eq_iff zmod_int)
qed

lemma fermat_one:
  assumes "is_prime p" and "\<not> p dvd a"
  shows "a ^ (p - 1) mod p = 1"
proof -
  have p1: "1 < p" using assms(1) by (rule prime_gt_1)
  have "a * a ^ (p - 1) = a ^ p" using p1 by (cases p) simp_all
  then have "(a * a ^ (p - 1)) mod p = (a * 1) mod p" using fermat [OF assms(1), of a] by simp
  from mod_cancel [OF prime_coprime [OF assms] this] show ?thesis using p1 by simp
qed

lemma fermat_exponent:
  assumes "is_prime p" and "0 < e" and "e mod (p - 1) = 1 mod (p - 1)"
  shows "m ^ e mod p = m mod p"
proof (cases "p dvd m")
  case True
  then have "p dvd m ^ e" using assms(2) by (meson dvd_power dvd_trans)
  then show ?thesis using True by (simp add: dvd_imp_mod_0)
next
  case False
  have p1: "1 < p" using assms(1) by (rule prime_gt_1)
  have "\<exists>t. e = 1 + t * (p - 1)"
  proof -
    have "(p - 1) dvd e - 1" using assms(2,3) by (metis Suc_leI mod_eq_dvd_iff_nat One_nat_def)
    then show ?thesis using assms(2) by (metis Suc_diff_1 add.commute dvd_def mult.commute plus_1_eq_Suc)
  qed
  then obtain t where t: "e = 1 + t * (p - 1)" by blast
  have "m ^ e = m * (m ^ (p - 1)) ^ t" by (simp add: t power_add mult.commute [of t] power_mult)
  also have "\<dots> mod p = m * ((m ^ (p - 1)) ^ t mod p) mod p" by (simp add: mod_mult_right_eq)
  also have "(m ^ (p - 1)) ^ t mod p = (m ^ (p - 1) mod p) ^ t mod p" by (simp add: power_mod)
  also have "m ^ (p - 1) mod p = 1" using assms(1) False by (rule fermat_one)
  finally show ?thesis using p1 by simp
qed

section \<open>Two primes\<close>

lemma mod_two_primes:
  assumes "coprime p q" and "a mod p = b mod p" and "a mod q = b mod (q :: nat)"
  shows "a mod (p * q) = b mod (p * q)"
proof -
  have "int p dvd int a - int b" "int q dvd int a - int b"
    using assms(2,3) by (metis mod_eq_dvd_iff zmod_int)+
  moreover have "coprime (int p) (int q)" using assms(1) by simp
  ultimately have "int p * int q dvd int a - int b" by (rule divides_mult)
  then show ?thesis by (metis mod_eq_dvd_iff of_nat_eq_iff of_nat_mult zmod_int)
qed

lemma mod_dvd_one: "a dvd l \<Longrightarrow> e mod l = 1 mod l \<Longrightarrow> e mod a = 1 mod (a :: nat)"
  by (metis mod_mod_cancel)

lemma rsa_power:
  assumes "is_prime p" and "is_prime q" and "p \<noteq> q" and "0 < e * d"
    and "(e * d) mod lcm (p - 1) (q - 1) = 1 mod lcm (p - 1) (q - 1)" and "m < p * q"
  shows "(m ^ e mod (p * q)) ^ d mod (p * q) = m"
proof -
  have "m ^ (e * d) mod p = m mod p"
    by (rule fermat_exponent [OF assms(1,4) mod_dvd_one [OF _ assms(5)]]) simp
  moreover have "m ^ (e * d) mod q = m mod q"
    by (rule fermat_exponent [OF assms(2,4) mod_dvd_one [OF _ assms(5)]]) simp
  ultimately have "m ^ (e * d) mod (p * q) = m mod (p * q)"
    using primes_coprime [OF assms(1-3)] by (intro mod_two_primes)
  then show ?thesis using assms(6) by (simp add: power_mod power_mult)
qed

section \<open>Square roots of one\<close>

lemma prime_sqrt_one:
  assumes "is_prime p" and "x < p" and "x * x mod p = 1"
  shows "x = 1 \<or> x = p - 1"
proof -
  have p1: "1 < p" using assms(1) by (rule prime_gt_1)
  have x0: "x \<noteq> 0" using assms(3) p1 by (auto intro: ccontr)
  have "p dvd x * x - 1"
    using assms(3) p1 x0 mod_eq_dvd_iff_nat [of 1 "x * x" p] by simp
  moreover have "x * x - 1 = (x - 1) * (x + 1)" using x0 by (cases x) (simp_all add: algebra_simps)
  ultimately consider "p dvd x - 1" | "p dvd x + 1" using prime_dvd_mult [OF assms(1), of "x - 1" "x + 1"] by metis
  then show ?thesis
  proof cases
    case 1
    then have "x - 1 = 0" using assms(2) by (meson dvd_imp_le leD less_imp_diff_less not_gr_zero)
    then show ?thesis using x0 by simp
  next
    case 2
    then have "x + 1 = p" using assms(2) by (metis Suc_eq_plus1 Suc_leI dvd_imp_le le_antisym zero_less_Suc)
    then show ?thesis by auto
  qed
qed

end
