(* ===== verification/RSA.thy ===== *)
theory RSA
  imports SHA Prime_Numbers
begin

text \<open>
  \<open>Cryptography/rsa.cpp\<close>, the primitives: integers and octets, and the powers modulo the key. An operation that writes
  into an array of its caller takes its contents and returns the new ones. The lengths of the code are \<open>int64_t\<close>; here
  they are natural numbers, all of them far below the bound.
\<close>

record rsa =
  rsa_N :: nat
  rsa_k :: nat
  rsa_HV :: sha_version
  rsa_hLen :: nat
  rsa_sLen :: nat

definition new_rsa :: "nat \<Rightarrow> sha_version \<Rightarrow> rsa" where
  "new_rsa bit_length hash_version =
     \<lparr>rsa_N = bit_length, rsa_k = bit_length div 8, rsa_HV = hash_version, rsa_hLen = sha_size hash_version,
       rsa_sLen = sha_size hash_version\<rparr>"

section \<open>Octets\<close>

text \<open>\<open>memcpy\<close> to an offset of an array.\<close>

definition put_octets :: "byte list \<Rightarrow> nat \<Rightarrow> byte list \<Rightarrow> byte list run" where
  "put_octets X off bs =
     (if off + length bs \<le> length X then ret (take off X @ bs @ drop (off + length bs) X) else throw OutOfBounds)"

definition I2OSP :: "bigint \<Rightarrow> nat \<Rightarrow> byte list \<Rightarrow> byte list run" where
  "I2OSP x xLen X =
     bind_run (bi_pow (bi_lit 0x100) (bi_of_int64 (of_nat xLen))) (\<lambda>bound.
       if bi_greater_eq x bound then throw (CryptographyException ''integer to large'')
       else put_octets X 0 (bi_to_octets False x))"

definition OS2IP :: "byte list \<Rightarrow> bigint" where
  "OS2IP X = bi_of_octets X False"

section \<open>Powers\<close>

definition out_of_range :: "bigint \<Rightarrow> bigint \<Rightarrow> bool run" where
  "out_of_range m n = bind_run (lift (bi_sub n (bi_lit 1))) (\<lambda>n_1. ret (bi_sign m \<or> bi_greater m n_1))"

definition RSAEP :: "bigint \<Rightarrow> bigint \<Rightarrow> bigint \<Rightarrow> bigint run" where
  "RSAEP n e m =
     bind_run (out_of_range m n) (\<lambda>bad.
       if bad then throw (CryptographyException ''message representative out of range'') else bi_mod_pow m e n)"

definition RSADP :: "bigint \<Rightarrow> bigint \<Rightarrow> bigint \<Rightarrow> bigint run" where
  "RSADP n d c =
     bind_run (out_of_range c n) (\<lambda>bad.
       if bad then throw (CryptographyException ''ciphertext representative out of range'') else bi_mod_pow c d n)"

definition crt_power :: "bigint \<Rightarrow> bigint \<Rightarrow> bigint \<Rightarrow> bigint \<Rightarrow> bigint \<Rightarrow> bigint \<Rightarrow> bigint run" where
  "crt_power p q dP dQ qInv c =
     bind_run (bi_mod_pow c dP p) (\<lambda>m1.
     bind_run (bi_mod_pow c dQ q) (\<lambda>m2.
     bind_run (lift (bi_sub m1 m2)) (\<lambda>diff.
     bind_run (lift (bi_mul diff qInv)) (\<lambda>prod.
     bind_run (bi_modulo prod p) (\<lambda>h.
     bind_run (lift (bi_mul q h)) (\<lambda>qh.
       lift (bi_add m2 qh)))))))"

definition RSADP_crt :: "bigint \<Rightarrow> bigint \<Rightarrow> bigint \<Rightarrow> bigint \<Rightarrow> bigint \<Rightarrow> bigint \<Rightarrow> bigint run" where
  "RSADP_crt p q dP dQ qInv c =
     bind_run (lift (bi_mul p q)) (\<lambda>n.
     bind_run (out_of_range c n) (\<lambda>bad.
       if bad then throw (CryptographyException ''ciphertext representative out of range'')
       else crt_power p q dP dQ qInv c))"

definition RSASP1 :: "bigint \<Rightarrow> bigint \<Rightarrow> bigint \<Rightarrow> bigint run" where
  "RSASP1 n d m =
     bind_run (out_of_range m n) (\<lambda>bad.
       if bad then throw (CryptographyException ''message representative out of range'') else bi_mod_pow m d n)"

definition RSASP1_crt :: "bigint \<Rightarrow> bigint \<Rightarrow> bigint \<Rightarrow> bigint \<Rightarrow> bigint \<Rightarrow> bigint \<Rightarrow> bigint run" where
  "RSASP1_crt p q dP dQ qInv m =
     bind_run (lift (bi_mul p q)) (\<lambda>n.
     bind_run (out_of_range m n) (\<lambda>bad.
       if bad then throw (CryptographyException ''message representative out of range'')
       else crt_power p q dP dQ qInv m))"

definition RSAVP1 :: "bigint \<Rightarrow> bigint \<Rightarrow> bigint \<Rightarrow> bigint run" where
  "RSAVP1 n e s =
     bind_run (out_of_range s n) (\<lambda>bad.
       if bad then throw (CryptographyException ''signature representative out of range'') else bi_mod_pow s e n)"

section \<open>What they compute\<close>

lemma ival_lit_256 [simp]: "ival (bi_lit 0x100) = 256"
  by (simp add: bi_lit_def bi_of_int32_def from_uint64_def poly_of_list_def NEG_VAL_def Let_def)

lemma ival_of_int64_nat: "n < 2 ^ 63 \<Longrightarrow> ival (bi_of_int64 (of_nat n)) = int n"
  by (simp add: bi_of_int64_value sint_uint uint_nat unat_of_nat take_bit_nat_eq_self signed_take_bit_int_eq_self)

lemma bi_pow_ok:
  assumes "0 \<le> ival b" and "0 \<le> ival e"
  obtains r where "bi_pow b e = ret r" and "ival r = ival b ^ nat (ival e)"
proof -
  obtain p where p: "poly_pow (mag b) (mag e) = ret p" "pval p = pval (mag b) ^ pval (mag e)"
    using poly_pow_correct by blast
  have "int (pval p) = ival b ^ nat (ival e)" using assms by (simp add: p(2) pval_mag pval_mag_nat)
  then show thesis using that [of "bi_make p False"] p(1) by (simp add: bi_pow_def)
qed

lemma I2OSP_value:
  assumes "xLen < 2 ^ 63"
  shows "I2OSP x xLen X =
    (if 256 ^ xLen \<le> ival x then throw (CryptographyException ''integer to large'')
     else put_octets X 0 (bi_to_octets False x))"
proof -
  obtain b where "bi_pow (bi_lit 0x100) (bi_of_int64 (of_nat xLen)) = ret b" "ival b = 256 ^ xLen"
    using bi_pow_ok [of "bi_lit 0x100" "bi_of_int64 (of_nat xLen)"] ival_of_int64_nat [OF assms] by force
  then show ?thesis by (simp add: I2OSP_def)
qed

lemma ival_OS2IP: "ival (OS2IP X) = int (be_val X)"
  by (simp add: OS2IP_def octets_value)

lemma out_of_range_ok: "out_of_range m n = ret (ival m < 0 \<or> ival n \<le> ival m)"
proof -
  obtain d where "bi_sub n (bi_lit 1) = Inr d" "ival d = ival n - 1" using bi_sub_ok [of n "bi_lit 1"] by auto
  then show ?thesis by (auto simp: out_of_range_def)
qed

lemma bi_mod_pow_ok:
  assumes "0 < ival n" and "bi_small n" and "0 < ival e" and "0 \<le> ival m"
  obtains r where "bi_mod_pow m e n = ret r" and "ival r = ival m ^ nat (ival e) mod ival n"
    and "ival r = int (nat (ival m) ^ nat (ival e) mod nat (ival n))"
proof -
  have "0 < pval (mag n)" "poly_length (mag n) < RECURSIVE_THRESHOLD"
    using assms(1,2) by (auto simp: pval_mag_nat bi_small_def)
  then obtain p where p: "poly_mod_pow (mag m) (mag e) (mag n) = ret p"
    "pval p = (if pval (mag e) = 0 then 1 else pval (mag m) ^ pval (mag e) mod pval (mag n))"
    using poly_mod_pow_ok by blast
  have v: "pval p = nat (ival m) ^ nat (ival e) mod nat (ival n)"
    using assms by (simp add: p(2) pval_mag_nat)
  then have "int (pval p) = ival m ^ nat (ival e) mod ival n"
    using assms by (simp add: zmod_int)
  then show thesis using that [of "bi_make p False"] p(1) v by (simp add: bi_mod_pow_def)
qed

text \<open>One check and one power: the shape of \<open>RSAEP\<close>, \<open>RSADP\<close>, \<open>RSASP1\<close> and \<open>RSAVP1\<close>.\<close>

lemma rsa_power_ok:
  assumes "0 < ival n" and "bi_small n" and "0 < ival e" and "0 \<le> ival m" and "ival m < ival n"
  shows "\<exists>r. bind_run (out_of_range m n) (\<lambda>bad. if bad then throw x else bi_mod_pow m e n) = ret r \<and>
    0 \<le> ival r \<and> ival r < ival n \<and> ival r = int (nat (ival m) ^ nat (ival e) mod nat (ival n))"
proof -
  obtain r where r: "bi_mod_pow m e n = ret r" "ival r = ival m ^ nat (ival e) mod ival n"
    "ival r = int (nat (ival m) ^ nat (ival e) mod nat (ival n))"
    using bi_mod_pow_ok [OF assms(1-4)] by blast
  have "0 \<le> ival r" "ival r < ival n" unfolding r(2) using assms(1) by simp_all
  then show ?thesis using r assms by (simp add: out_of_range_ok)
qed

text \<open>A key: \<open>e\<close> and \<open>d\<close> are inverse to each other modulo \<open>lcm (p - 1) (q - 1)\<close>, as key generation makes them.\<close>

definition rsa_key :: "nat \<Rightarrow> nat \<Rightarrow> bigint \<Rightarrow> bigint \<Rightarrow> bigint \<Rightarrow> bool" where
  "rsa_key p q n e d \<longleftrightarrow>
     is_prime p \<and> is_prime q \<and> p \<noteq> q \<and> ival n = int (p * q) \<and> bi_small n \<and> 0 < ival e \<and> 0 < ival d \<and>
     nat (ival e * ival d) mod lcm (p - 1) (q - 1) = 1 mod lcm (p - 1) (q - 1)"

lemma rsa_keyD:
  assumes "rsa_key p q n e d"
  shows "is_prime p" and "is_prime q" and "p \<noteq> q" and "ival n = int (p * q)" and "bi_small n" and "0 < ival e"
    and "0 < ival d" and "nat (ival e * ival d) mod lcm (p - 1) (q - 1) = 1 mod lcm (p - 1) (q - 1)"
  using assms unfolding rsa_key_def by blast+

lemma rsa_key_swap: "rsa_key p q n e d \<Longrightarrow> rsa_key p q n d e"
  unfolding rsa_key_def by (metis mult.commute)

lemma rsa_key_pos:
  assumes "rsa_key p q n e d"
  shows "0 < ival n" and "nat (ival n) = p * q"
proof -
  show "nat (ival n) = p * q" using rsa_keyD(4) [OF assms] by (simp only: nat_int)
  show "0 < ival n" using rsa_keyD(1,2,4) [OF assms] prime_gt_1 [of p] prime_gt_1 [of q] by simp
qed

lemma rsa_key_nat:
  assumes "rsa_key p q n e d" and "m < nat (ival n)"
  shows "(m ^ nat (ival e) mod nat (ival n)) ^ nat (ival d) mod nat (ival n) = m"
proof -
  note key = rsa_keyD [OF assms(1)]
  have e: "nat (ival e * ival d) = nat (ival e) * nat (ival d)" using key(6) by (simp add: nat_mult_distrib)
  have "0 < nat (ival e) * nat (ival d)" using key(6,7) by simp
  from rsa_power [OF key(1-3) this key(8) [unfolded e], of m] assms(2)
  show ?thesis unfolding rsa_key_pos(2) [OF assms(1)] .
qed

lemma rsa_key_power:
  assumes "rsa_key p q n e d" and "0 \<le> ival m" and "ival m < ival n"
  shows "(nat (ival m) ^ nat (ival e) mod nat (ival n)) ^ nat (ival d) mod nat (ival n) = nat (ival m)"
  using assms(2,3) by (intro rsa_key_nat [OF assms(1)]) simp

lemma rsa_there_and_back:
  assumes "rsa_key p q n e d" and "0 \<le> ival m" and "ival m < ival n"
  obtains c r where
    "bind_run (out_of_range m n) (\<lambda>bad. if bad then throw x else bi_mod_pow m e n) = ret c"
    "bind_run (out_of_range c n) (\<lambda>bad. if bad then throw y else bi_mod_pow c d n) = ret r"
    "0 \<le> ival c" "ival c < ival n" "ival c = int (nat (ival m) ^ nat (ival e) mod nat (ival n))" "ival r = ival m"
proof -
  note k = rsa_key_pos(1) [OF assms(1)] rsa_keyD(5-7) [OF assms(1)]
  obtain c where c: "bind_run (out_of_range m n) (\<lambda>bad. if bad then throw x else bi_mod_pow m e n) = ret c"
    "0 \<le> ival c" "ival c < ival n" "ival c = int (nat (ival m) ^ nat (ival e) mod nat (ival n))"
    using rsa_power_ok [OF k(1-3) assms(2,3), of x] by (elim exE conjE) (rule that)
  obtain r where r: "bind_run (out_of_range c n) (\<lambda>bad. if bad then throw y else bi_mod_pow c d n) = ret r"
    "ival r = int (nat (ival c) ^ nat (ival d) mod nat (ival n))"
    using rsa_power_ok [OF k(1,2,4) c(2,3), of y] by (elim exE conjE) (rule that)
  have "ival r = int (nat (ival m))"
    using r(2) c(4) rsa_key_power [OF assms] by simp
  then show thesis using that [OF c(1) r(1) c(2-4)] assms(2) by simp
qed



section \<open>The Chinese remainder theorem\<close>

definition crt_key :: "nat \<Rightarrow> nat \<Rightarrow> bigint \<Rightarrow> bigint \<Rightarrow> bigint \<Rightarrow> bigint \<Rightarrow> bool" where
  "crt_key p q e dP dQ qInv \<longleftrightarrow>
     0 < ival dP \<and> 0 < ival dQ \<and> 0 \<le> ival qInv \<and>
     (nat (ival e) * nat (ival dP)) mod (p - 1) = 1 mod (p - 1) \<and>
     (nat (ival e) * nat (ival dQ)) mod (q - 1) = 1 mod (q - 1) \<and> (q * nat (ival qInv)) mod p = 1"

text \<open>What \<open>crt_power\<close> computes, in numbers.\<close>

definition crt_number :: "nat \<Rightarrow> nat \<Rightarrow> nat \<Rightarrow> nat \<Rightarrow> nat \<Rightarrow> nat" where
  "crt_number p q qInv a b = b + q * ((if b \<le> a then a - b else b - a) * qInv mod p)"

lemma crt_number_mod_p:
  assumes "(q * qInv) mod p = 1"
  shows "crt_number p q qInv a b mod p = (if b \<le> a then a else b + (b - a)) mod p"
proof -
  let ?D = "if b \<le> a then a - b else b - a"
  have "q * (?D * qInv mod p) mod p = ?D * (q * qInv) mod p"
    by (simp add: mod_mult_right_eq ac_simps)
  also have "\<dots> = ?D * ((q * qInv) mod p) mod p" by (simp add: mod_mult_right_eq)
  finally have "q * (?D * qInv mod p) mod p = ?D mod p" by (simp add: assms)
  then have "(b + q * (?D * qInv mod p)) mod p = (b + ?D) mod p" by (metis mod_add_right_eq)
  then show ?thesis by (simp add: crt_number_def)
qed

lemma crt_number_less:
  assumes "0 < p" and "b < q"
  shows "crt_number p q qInv a b < p * q"
proof -
  let ?h = "(if b \<le> a then a - b else b - a) * qInv mod p"
  have "?h \<le> p - 1" using assms(1) mod_less_divisor [of p] by (metis Suc_diff_1 less_Suc_eq_le)
  then have "q * ?h \<le> q * (p - 1)" by (rule mult_le_mono2)
  moreover have "q * (p - 1) + q = p * q" using assms(1) by (cases p) simp_all
  ultimately show ?thesis using assms(2) unfolding crt_number_def by linarith
qed

lemma crt_number_right:
  assumes "is_prime p" and "is_prime q" and "p \<noteq> q" and "p \<noteq> 2" and "(q * qInv) mod p = 1" and "m < p * q"
  shows "crt_number p q qInv (m mod p) (m mod q) = m \<longleftrightarrow> m mod q \<le> m mod p \<or> p dvd (m mod q - m mod p)"
proof -
  let ?a = "m mod p" and ?b = "m mod q"
  let ?r = "crt_number p q qInv ?a ?b"
  have p1: "1 < p" "1 < q" using prime_gt_1 [OF assms(1)] prime_gt_1 [OF assms(2)] by simp_all
  have q: "?r mod q = m mod q" by (simp add: crt_number_def)
  have P: "?r mod p = (if ?b \<le> ?a then ?a else ?b + (?b - ?a)) mod p" by (rule crt_number_mod_p [OF assms(5)])
  have "?r < p * q" by (rule crt_number_less) (use p1 in simp_all)
  then have r: "?r = m \<longleftrightarrow> ?r mod p = m mod p"
    using mod_two_primes [OF primes_coprime [OF assms(1-3)] _ q] assms(6) by (metis mod_less)
  show ?thesis
  proof (cases "?b \<le> ?a")
    case True
    then show ?thesis using r P by simp
  next
    case False
    let ?D = "?b - ?a"
    have e: "?b + ?D = ?a + 2 * ?D" using False by simp
    have "(?a + 2 * ?D) mod p = ?a mod p \<longleftrightarrow> p dvd 2 * ?D"
      using mod_eq_dvd_iff_nat [of ?a "?a + 2 * ?D" p] by (metis add_diff_cancel_left' le_add1)
    also have "\<dots> \<longleftrightarrow> p dvd ?D"
    proof -
      have "\<not> p dvd 2" using assms(4) p1 by (auto dest: dvd_imp_le)
      then show ?thesis using prime_dvd_mult [OF assms(1), of 2 ?D] by blast
    qed
    finally show ?thesis using r P e False by simp
  qed
qed

lemma bi_small_prime:
  assumes "ival n = int (p * q)" and "bi_small n" and "0 < q" and "ival P = int p"
  shows "bi_small P"
  using assms(1,3,4) by (intro bi_small_mono [OF assms(2)]) (cases q, simp_all)

lemma crt_power_number:
  assumes "ival P = int p" and "ival Q = int q" and "bi_small P" and "bi_small Q" and "0 < p" and "0 < q"
    and "0 < ival dP" and "0 < ival dQ" and "0 \<le> ival qInv" and "0 \<le> ival c"
  shows "\<exists>r. crt_power P Q dP dQ qInv c = ret r \<and>
    ival r = int (crt_number p q (nat (ival qInv)) (nat (ival c) ^ nat (ival dP) mod p) (nat (ival c) ^ nat (ival dQ) mod q))"
proof -
  let ?a = "nat (ival c) ^ nat (ival dP) mod p" and ?b = "nat (ival c) ^ nat (ival dQ) mod q"
  obtain m1 where m1: "bi_mod_pow c dP P = ret m1" "ival m1 = int ?a"
    by (rule bi_mod_pow_ok [of P dP c]) (use assms in simp_all)
  obtain m2 where m2: "bi_mod_pow c dQ Q = ret m2" "ival m2 = int ?b"
    by (rule bi_mod_pow_ok [of Q dQ c]) (use assms in simp_all)
  obtain f where f: "bi_sub m1 m2 = Inr f" "ival f = int ?a - int ?b" using bi_sub_ok [of m1 m2] m1 m2 by auto
  obtain g where g: "bi_mul f qInv = Inr g" "ival g = ival f * ival qInv" using bi_mul_ok [of f qInv] by auto
  obtain h where h: "bi_modulo g P = ret h" "ival h = \<bar>ival g\<bar> mod \<bar>ival P\<bar>"
    using bi_modulo_ok [OF assms(3), of g] assms(1,5) by auto
  obtain k where k: "bi_mul Q h = Inr k" "ival k = ival Q * ival h" using bi_mul_ok [of Q h] by auto
  obtain r where r: "bi_add m2 k = Inr r" "ival r = ival m2 + ival k" using bi_add_ok [of m2 k] by auto
  have "\<bar>ival f\<bar> = int (if ?b \<le> ?a then ?a - ?b else ?b - ?a)" using f(2) by (simp add: of_nat_diff)
  then have "\<bar>ival g\<bar> = int ((if ?b \<le> ?a then ?a - ?b else ?b - ?a) * nat (ival qInv))"
    using g(2) assms(9) by (simp only: abs_mult of_nat_mult int_nat_eq abs_of_nonneg if_True)
  then have "ival h = int ((if ?b \<le> ?a then ?a - ?b else ?b - ?a) * nat (ival qInv) mod p)"
    using h(2) assms(1) by (simp only: zmod_int abs_of_nat)
  then have "ival r = int (crt_number p q (nat (ival qInv)) ?a ?b)"
    using r(2) m2(2) k(2) assms(2) by (simp only: crt_number_def of_nat_add of_nat_mult)
  moreover have "crt_power P Q dP dQ qInv c = ret r" using m1(1) m2(1) f(1) g(1) h(1) k(1) r(1) by (simp add: crt_power_def)
  ultimately show ?thesis by blast
qed

lemma crt_residue:
  assumes "is_prime p" and "p dvd n" and "0 < e * d" and "(e * d) mod (p - 1) = 1 mod (p - 1)"
  shows "(m ^ e mod n) ^ d mod p = m mod (p :: nat)"
proof -
  have "(m ^ e mod n) ^ d mod p = (m ^ e mod n mod p) ^ d mod p" by (simp add: power_mod)
  also have "\<dots> = (m ^ e) ^ d mod p" using assms(2) by (simp add: mod_mod_cancel power_mod)
  also have "\<dots> = m ^ (e * d) mod p" by (simp add: power_mult)
  finally show ?thesis using fermat_exponent [OF assms(1,3,4)] by simp
qed

text \<open>C20. Decryption by the Chinese remainder theorem is right only for the messages whose residue modulo \<open>p\<close> is not below
  the one modulo \<open>q\<close> (or differs from it by a multiple of \<open>p\<close>): where \<open>m1 - m2\<close> is negative, \<open>%\<close> takes the remainder of
  its magnitude, and another number comes back.\<close>

theorem rsa_crt_half:
  assumes "rsa_key p q n e d" and "crt_key p q e dP dQ qInv" and "p \<noteq> 2" and "ival P = int p" and "ival Q = int q"
    and "0 \<le> ival m" and "ival m < ival n"
  shows "\<exists>c r. RSAEP n e m = ret c \<and> RSADP_crt P Q dP dQ qInv c = ret r \<and>
    (ival r = ival m \<longleftrightarrow>
       nat (ival m) mod q \<le> nat (ival m) mod p \<or> p dvd (nat (ival m) mod q - nat (ival m) mod p))"
proof -
  note key = rsa_keyD [OF assms(1)] and n = rsa_key_pos [OF assms(1)]
  have p1: "1 < p" "1 < q" using prime_gt_1 [OF key(1)] prime_gt_1 [OF key(2)] by simp_all
  have crt: "0 < ival dP" "0 < ival dQ" "0 \<le> ival qInv" "(q * nat (ival qInv)) mod p = 1"
    "(nat (ival e) * nat (ival dP)) mod (p - 1) = 1 mod (p - 1)"
    "(nat (ival e) * nat (ival dQ)) mod (q - 1) = 1 mod (q - 1)"
    using assms(2) unfolding crt_key_def by blast+
  have small: "bi_small P" "bi_small Q"
    using bi_small_prime [OF key(4,5), of P] bi_small_prime [of n q p Q] key(4,5) assms(4,5) p1 by (simp_all add: mult.commute)
  obtain c where c: "RSAEP n e m = ret c" "0 \<le> ival c" "ival c < ival n"
    "ival c = int (nat (ival m) ^ nat (ival e) mod nat (ival n))"
    using rsa_power_ok [OF n(1) key(5,6) assms(6,7), of "CryptographyException ''message representative out of range''",
      folded RSAEP_def] by (elim exE conjE) (rule that)
  let ?m = "nat (ival m)"
  have C: "nat (ival c) = ?m ^ nat (ival e) mod (p * q)" using c(4) n(2) by (simp only: nat_int)
  have ed: "0 < nat (ival e) * nat (ival dP)" "0 < nat (ival e) * nat (ival dQ)" using key(6) crt(1,2) by simp_all
  have a: "nat (ival c) ^ nat (ival dP) mod p = ?m mod p"
    unfolding C by (rule crt_residue [OF key(1) _ ed(1) crt(5)]) simp
  have b: "nat (ival c) ^ nat (ival dQ) mod q = ?m mod q"
    unfolding C by (rule crt_residue [OF key(2) _ ed(2) crt(6)]) simp
  obtain r where r: "crt_power P Q dP dQ qInv c = ret r" "ival r = int (crt_number p q (nat (ival qInv)) (?m mod p) (?m mod q))"
    using crt_power_number [OF assms(4,5) small _ _ crt(1-3) c(2)] p1 a b by auto
  obtain N where N: "bi_mul P Q = Inr N" "ival N = ival P * ival Q" using bi_mul_ok [of P Q] by auto
  have "ival N = ival n" using N(2) assms(4,5) key(4) by simp
  then have "RSADP_crt P Q dP dQ qInv c = ret r"
    using N(1) c(2,3) r(1) by (simp add: RSADP_crt_def out_of_range_ok)
  moreover have "?m < p * q" using assms(6,7) by (simp flip: n(2))
  then have "ival r = ival m \<longleftrightarrow> ?m mod q \<le> ?m mod p \<or> p dvd (?m mod q - ?m mod p)"
    using crt_number_right [OF key(1-3) assms(3) crt(4), of ?m] assms(6) r(2) by (metis int_nat_eq of_nat_eq_iff)
  ultimately show ?thesis using c(1) by blast
qed

lemma rsa_crt_half_witness:
  "\<exists>c r. RSAEP (bi_make [143] False) (bi_make [7] False) (bi_make [22] False) = ret c \<and>
     RSADP_crt (bi_make [11] False) (bi_make [13] False) (bi_make [3] False) (bi_make [7] False) (bi_make [6] False) c = ret r \<and>
     ival r \<noteq> 22"
proof -
  have "is_prime 11" "is_prime 13" by (rule is_primeI; simp add: upt_rec)+
  moreover have "lcm 10 12 = (60 :: nat)" by (simp add: lcm_nat_def gcd_non_0_nat)
  ultimately have "rsa_key 11 13 (bi_make [143] False) (bi_make [7] False) (bi_make [43] False)"
    by (simp add: rsa_key_def bi_small_make poly_length_def)
  moreover have "crt_key 11 13 (bi_make [7] False) (bi_make [3] False) (bi_make [7] False) (bi_make [6] False)"
    by (simp add: crt_key_def)
  ultimately show ?thesis
    using rsa_crt_half [of 11 13 "bi_make [143] False" "bi_make [7] False" "bi_make [43] False" "bi_make [3] False"
      "bi_make [7] False" "bi_make [6] False" "bi_make [11] False" "bi_make [13] False" "bi_make [22] False"] by simp
qed

end
