(* ===== verification/RSA_Padding.thy ===== *)
theory RSA_Padding
  imports RSA
begin

text \<open>
  \<open>Cryptography/rsa.cpp\<close>, the paddings: PKCS #1 v1.5 for encryption and signatures, the mask generation function, OAEP
  and PSS. \<open>stack name n\<close> is what an array of \<open>n\<close> octets of that name holds before it is written; \<open>draw t n\<close> is what
  the \<open>t\<close>-th call of \<open>Utility::random_bytes\<close> gives for \<open>n\<close> octets (its model is in \<open>Utility\<close>).
\<close>

type_synonym stack = "string \<Rightarrow> nat \<Rightarrow> byte list"
type_synonym source = "nat \<Rightarrow> nat \<Rightarrow> byte list run"

definition catch :: "'a run \<Rightarrow> (exn \<Rightarrow> 'a run) \<Rightarrow> 'a run" where
  "catch x handler = Option.bind x (\<lambda>r. case r of Inl e \<Rightarrow> handler e | Inr v \<Rightarrow> ret v)"

lemma catch_simps [simp]: "catch (ret v) h = ret v" "catch (throw e) h = h e" "catch None h = None"
  by (simp_all add: catch_def ret_def throw_def)

definition crypto :: "string \<Rightarrow> 'a run" where "crypto msg = throw (CryptographyException msg)"

section \<open>Hash, exclusive or, random octets\<close>

definition Hash :: "evp \<Rightarrow> rsa \<Rightarrow> byte list \<Rightarrow> byte list run" where
  "Hash evp r octets =
     (if length octets > 2 ^ 61 - 1 then crypto ''message too long'' else lift (sha_checksum evp (rsa_HV r) octets))"

definition XOR_octets :: "byte list \<Rightarrow> byte list \<Rightarrow> byte list" where
  "XOR_octets lhs rhs = map2 (\<lambda>x y. x XOR y) lhs rhs"

definition SGF :: "source \<Rightarrow> nat \<Rightarrow> nat \<Rightarrow> byte list run" where
  "SGF draw t seedLen = (if seedLen = 0 then ret [] else draw t seedLen)"

partial_function (option) redraw :: "source \<Rightarrow> nat \<Rightarrow> byte \<Rightarrow> (byte \<times> nat) run" where
  "redraw draw t b =
     (if b = 0 then bind_run (draw t 1) (\<lambda>bs. redraw draw (t + 1) (bs ! 0)) else ret (b, t))"

fun nonzero_loop :: "source \<Rightarrow> nat \<Rightarrow> byte list \<Rightarrow> (byte list \<times> nat) run" where
  "nonzero_loop draw t [] = ret ([], t)"
| "nonzero_loop draw t (b # bs) =
     bind_run (redraw draw t b) (\<lambda>(b, t). bind_run (nonzero_loop draw t bs) (\<lambda>(bs, t). ret (b # bs, t)))"

definition SGF_nonzero :: "source \<Rightarrow> nat \<Rightarrow> nat \<Rightarrow> (byte list \<times> nat) run" where
  "SGF_nonzero draw t psLen =
     (if psLen = 0 then ret ([], t) else bind_run (draw t psLen) (\<lambda>PS. nonzero_loop draw (t + 1) PS))"

section \<open>Encryption, PKCS #1 v1.5\<close>

definition RSAES_PKCS1_V1_5_Encrypt ::
  "source \<Rightarrow> nat \<Rightarrow> rsa \<Rightarrow> bigint \<Rightarrow> bigint \<Rightarrow> byte list \<Rightarrow> byte list \<Rightarrow> (byte list \<times> nat) run" where
  "RSAES_PKCS1_V1_5_Encrypt draw t r n e M C =
     (let k = rsa_k r; mLen = length M in
      if mLen + 11 > k then crypto ''message too long''
      else
        (let psLen = k - mLen - 3 in
         bind_run (SGF_nonzero draw t psLen) (\<lambda>(PS, t).
         let EM = [0x00, 0x02] @ PS @ [0x00] @ M in
         bind_run (RSAEP n e (OS2IP EM)) (\<lambda>c.
         bind_run (I2OSP c k C) (\<lambda>C. ret (C, t))))))"

text \<open>\<open>while (EM[emCounter] != 0x00) emCounter++\<close> with a counter of eight bits.\<close>

partial_function (option) pad_loop :: "byte list \<Rightarrow> byte \<Rightarrow> byte run" where
  "pad_loop EM emCounter =
     (if length EM \<le> unat emCounter then throw OutOfBounds
      else if EM ! unat emCounter \<noteq> 0 then pad_loop EM (emCounter + 1)
      else ret emCounter)"

text \<open>The result is the message; \<open>cap\<close> is the size of the caller's array for it.\<close>

definition RSAES_PKCS1_V1_5_Decrypt ::
  "stack \<Rightarrow> rsa \<Rightarrow> bigint \<Rightarrow> bigint \<Rightarrow> byte list \<Rightarrow> nat \<Rightarrow> byte list run" where
  "RSAES_PKCS1_V1_5_Decrypt stack r n d C cap =
     (let k = rsa_k r in
      if k < 11 then crypto ''decryption error''
      else
        bind_run (catch (RSADP n d (OS2IP (take k C)))
          (\<lambda>e. case e of CryptographyException _ \<Rightarrow> crypto ''decryption error'' | _ \<Rightarrow> throw e)) (\<lambda>m.
        bind_run (I2OSP m k (stack ''EM'' k)) (\<lambda>EM.
        if EM ! 0 \<noteq> 0x00 then crypto ''decryption error''
        else if EM ! 1 \<noteq> 0x02 then crypto ''decryption error''
        else
          bind_run (pad_loop EM 2) (\<lambda>emCounter.
          let emCounter = emCounter + 1; mLen = k - unat emCounter in
          if mLen > cap then throw OutOfBounds else ret (take mLen (drop (unat emCounter) EM))))))"

section \<open>Signatures, PKCS #1 v1.5\<close>

text \<open>The rows of SHA-2 differ in the length of the whole, the last arc of the identifier and the length of the digest.\<close>

definition sha2_info :: "byte \<Rightarrow> byte \<Rightarrow> byte \<Rightarrow> byte list" where
  "sha2_info whole arc digest =
     [0x30, whole] @ [0x30, 0x0d] @ [0x06, 0x09, 0x60, 0x86, 0x48, 0x01, 0x65, 0x03, 0x04, 0x02, arc] @ [0x05, 0x00] @ [0x04, digest]"

declare sha2_info_def [simp]

fun digest_info :: "sha_version \<Rightarrow> byte list" where
  "digest_info SHA1 = [0x30, 0x21] @ [0x30, 0x09] @ [0x06, 0x05, 0x2b, 0x0e, 0x03, 0x02, 0x1a] @ [0x05, 0x00] @ [0x04, 0x14]"
| "digest_info SHA224 = sha2_info 0x2d 0x04 0x1c"
| "digest_info SHA256 = sha2_info 0x31 0x01 0x20"
| "digest_info SHA384 = sha2_info 0x41 0x02 0x30"
| "digest_info SHA512 = sha2_info 0x51 0x03 0x40"

definition EMSA_PKCS1_V1_5_Encode :: "evp \<Rightarrow> rsa \<Rightarrow> byte list \<Rightarrow> nat \<Rightarrow> byte list run" where
  "EMSA_PKCS1_V1_5_Encode evp r M emLen =
     bind_run (Hash evp r M) (\<lambda>H.
       let T = digest_info (rsa_HV r) @ H; tLen = length T in
       if emLen < tLen + 11 then crypto ''intended encoded message length too short''
       else ret ([0x00, 0x01] @ replicate (emLen - tLen - 3) 0xff @ [0x00] @ T))"

text \<open>What the two signing operations and the verification make of the exceptions inside them.\<close>

definition modulus_too_short :: "exn \<Rightarrow> exn" where
  "modulus_too_short e =
     (if e = CryptographyException ''intended encoded message length too short''
      then CryptographyException ''RSA modulus too short'' else e)"

definition RSASSA_PKCS1_V1_5_Sign :: "evp \<Rightarrow> rsa \<Rightarrow> bigint \<Rightarrow> bigint \<Rightarrow> byte list \<Rightarrow> byte list \<Rightarrow> byte list run" where
  "RSASSA_PKCS1_V1_5_Sign evp r n d M S =
     bind_run (catch (EMSA_PKCS1_V1_5_Encode evp r M (rsa_k r)) (\<lambda>e. throw (modulus_too_short e))) (\<lambda>EM.
     bind_run (RSASP1 n d (OS2IP EM)) (\<lambda>s. I2OSP s (rsa_k r) S))"

definition RSASSA_PKCS1_V1_5_Sign_stream ::
  "evp \<Rightarrow> stack \<Rightarrow> rsa \<Rightarrow> bigint \<Rightarrow> bigint \<Rightarrow> byte list \<Rightarrow> nat \<Rightarrow> byte list run" where
  "RSASSA_PKCS1_V1_5_Sign_stream evp stack r n d Mb mLen =
     (let M = take mLen Mb @ drop (length Mb) (stack ''M'' mLen) in
      RSASSA_PKCS1_V1_5_Sign evp r n d M (stack ''S'' (rsa_k r)))"

definition RSASSA_PKCS1_V1_5_Sign_crt ::
  "evp \<Rightarrow> rsa \<Rightarrow> bigint \<Rightarrow> bigint \<Rightarrow> bigint \<Rightarrow> bigint \<Rightarrow> bigint \<Rightarrow> byte list \<Rightarrow> byte list \<Rightarrow> byte list run" where
  "RSASSA_PKCS1_V1_5_Sign_crt evp r p q dP dQ qInv M S =
     catch
       (bind_run (EMSA_PKCS1_V1_5_Encode evp r M (rsa_k r)) (\<lambda>EM.
        bind_run (RSASP1_crt p q dP dQ qInv (OS2IP EM)) (\<lambda>s. I2OSP s (rsa_k r) S)))
       (\<lambda>e. throw (modulus_too_short e))"

definition RSASSA_PKCS1_V1_5_Verify ::
  "evp \<Rightarrow> stack \<Rightarrow> rsa \<Rightarrow> bigint \<Rightarrow> bigint \<Rightarrow> byte list \<Rightarrow> byte list \<Rightarrow> unit run" where
  "RSASSA_PKCS1_V1_5_Verify evp stack r n e M S =
     catch
       (bind_run (RSAVP1 n e (OS2IP (take (rsa_k r) S))) (\<lambda>m.
        bind_run (I2OSP m (rsa_k r) (stack ''EM'' (rsa_k r))) (\<lambda>EM.
        bind_run (EMSA_PKCS1_V1_5_Encode evp r M (rsa_k r)) (\<lambda>EMP.
          if \<exists>i < rsa_k r. EM ! i \<noteq> EMP ! i then crypto ''invalid signature'' else ret ()))))
       (\<lambda>e. throw (modulus_too_short e))"

definition RSASSA_PKCS1_V1_5_Verify_stream ::
  "evp \<Rightarrow> stack \<Rightarrow> rsa \<Rightarrow> bigint \<Rightarrow> bigint \<Rightarrow> byte list \<Rightarrow> nat \<Rightarrow> byte list \<Rightarrow> unit run" where
  "RSASSA_PKCS1_V1_5_Verify_stream evp stack r n e Mb mLen Sb =
     (let M = take mLen Mb @ drop (length Mb) (stack ''M'' mLen);
          S = take (rsa_k r) Sb @ drop (length Sb) (stack ''S'' (rsa_k r)) in
      RSASSA_PKCS1_V1_5_Verify evp stack r n e M S)"

section \<open>The mask generation function\<close>

text \<open>The loop runs while \<open>counter <= count\<close>; \<open>T\<close> has room for \<open>count\<close> blocks. \<open>tmp\<close> is the seed and the four octets
  of the counter, which \<open>I2OSP\<close> writes as far as the counter has words.\<close>

fun mgf_loop :: "evp \<Rightarrow> rsa \<Rightarrow> nat \<Rightarrow> nat \<Rightarrow> nat \<Rightarrow> byte list \<Rightarrow> byte list \<Rightarrow> byte list run" where
  "mgf_loop evp r seedLen counter 0 tmp T = ret T"
| "mgf_loop evp r seedLen counter (Suc rounds) tmp T =
     bind_run (I2OSP (bi_of_int64 (of_nat counter)) 4 (drop seedLen tmp)) (\<lambda>c.
     let tmp = take seedLen tmp @ c in
     bind_run (Hash evp r tmp) (\<lambda>h.
     bind_run (put_octets T (counter * rsa_hLen r) h) (\<lambda>T.
       mgf_loop evp r seedLen (counter + 1) rounds tmp T)))"

definition MGF :: "evp \<Rightarrow> stack \<Rightarrow> rsa \<Rightarrow> byte list \<Rightarrow> nat \<Rightarrow> byte list run" where
  "MGF evp stack r mgfSeed maskLen =
     (if maskLen > 2 ^ 32 * rsa_hLen r then crypto ''mask too long''
      else
        (let count = maskLen div rsa_hLen r;
             tmp = mgfSeed @ drop (length mgfSeed) (stack ''mgfSeedTmp'' (length mgfSeed + 4)) in
         bind_run (mgf_loop evp r (length mgfSeed) 0 (count + 1) tmp (stack ''T'' (rsa_hLen r * count)))
           (\<lambda>T. if length T < maskLen then throw OutOfBounds else ret (take maskLen T))))"

section \<open>OAEP\<close>

definition EME_OAEP_Encode :: "evp \<Rightarrow> stack \<Rightarrow> source \<Rightarrow> nat \<Rightarrow> rsa \<Rightarrow> byte list \<Rightarrow> byte list \<Rightarrow> byte list run" where
  "EME_OAEP_Encode evp stack draw t r M L =
     (let k = rsa_k r; hLen = rsa_hLen r; mLen = length M in
      if mLen + 2 * hLen + 2 > k then crypto ''message too long''
      else
        bind_run (Hash evp r L) (\<lambda>lHash.
        let psLen = k - mLen - (2 * hLen) - 2; dbLen = k - hLen - 1;
            DB = lHash @ replicate psLen 0x00 @ [0x01] @ M in
        bind_run (SGF draw t hLen) (\<lambda>seed.
        bind_run (MGF evp stack r seed dbLen) (\<lambda>dbMask.
        let maskedDB = XOR_octets DB dbMask in
        bind_run (MGF evp stack r maskedDB hLen) (\<lambda>seedMask.
        let maskedSeed = XOR_octets seed seedMask in
          ret ([0x00] @ maskedSeed @ maskedDB))))))"

text \<open>\<open>std::strncmp(...) == 0\<close>: the comparison ends at an octet that is zero in both.\<close>

fun strncmp_eq :: "byte list \<Rightarrow> byte list \<Rightarrow> bool" where
  "strncmp_eq (x # xs) (y # ys) = (if x \<noteq> y then False else if x = 0 then True else strncmp_eq xs ys)"
| "strncmp_eq xs ys = True"

partial_function (option) zero_loop :: "byte list \<Rightarrow> byte \<Rightarrow> byte run" where
  "zero_loop DB dbCounter =
     (if length DB \<le> unat dbCounter then throw OutOfBounds
      else if DB ! unat dbCounter = 0 then zero_loop DB (dbCounter + 1)
      else ret dbCounter)"

definition EME_OAEP_Decode :: "evp \<Rightarrow> stack \<Rightarrow> rsa \<Rightarrow> byte list \<Rightarrow> byte list \<Rightarrow> nat \<Rightarrow> byte list run" where
  "EME_OAEP_Decode evp stack r EM L cap =
     (let k = rsa_k r; hLen = rsa_hLen r in
      if k < 2 * hLen + 2 then crypto ''decryption error''
      else
        (let dbLen = k - hLen - 1; Y = EM ! 0; maskedSeed = take hLen (drop 1 EM); maskedDB = take dbLen (drop (hLen + 1) EM) in
         if Y \<noteq> 0x00 then crypto ''decryption error''
         else
           bind_run (MGF evp stack r maskedDB hLen) (\<lambda>seedMask.
           let seed = XOR_octets maskedSeed seedMask in
           bind_run (MGF evp stack r seed dbLen) (\<lambda>dbMask.
           let DB = XOR_octets maskedDB dbMask in
           bind_run (Hash evp r L) (\<lambda>lHash.
           if \<not> strncmp_eq (take hLen DB) lHash then crypto ''decryption error''
           else
             bind_run (zero_loop DB (of_nat hLen)) (\<lambda>dbCounter.
             if DB ! unat dbCounter \<noteq> 0x01 then crypto ''decryption error''
             else
               (let dbCounter = dbCounter + 1; mLen = dbLen - unat dbCounter in
                if mLen > cap then throw OutOfBounds else ret (take mLen (drop (unat dbCounter) DB)))))))))"

definition RSAES_OAEP_Encrypt ::
  "evp \<Rightarrow> stack \<Rightarrow> source \<Rightarrow> nat \<Rightarrow> rsa \<Rightarrow> bigint \<Rightarrow> bigint \<Rightarrow> byte list \<Rightarrow> byte list \<Rightarrow> byte list \<Rightarrow> byte list run" where
  "RSAES_OAEP_Encrypt evp stack draw t r n e M L C =
     bind_run (EME_OAEP_Encode evp stack draw t r M L) (\<lambda>EM.
     bind_run (RSAEP n e (OS2IP EM)) (\<lambda>c. I2OSP c (rsa_k r) C))"

definition RSAES_OAEP_Decrypt ::
  "evp \<Rightarrow> stack \<Rightarrow> rsa \<Rightarrow> bigint \<Rightarrow> bigint \<Rightarrow> byte list \<Rightarrow> byte list \<Rightarrow> nat \<Rightarrow> byte list run" where
  "RSAES_OAEP_Decrypt evp stack r n d C L cap =
     catch
       (bind_run (RSADP n d (OS2IP (take (rsa_k r) C))) (\<lambda>m.
        bind_run (I2OSP m (rsa_k r) (stack ''EM'' (rsa_k r))) (\<lambda>EM. EME_OAEP_Decode evp stack r EM L cap)))
       (\<lambda>e. case e of CryptographyException _ \<Rightarrow> crypto ''decryption error'' | _ \<Rightarrow> throw e)"

section \<open>PSS\<close>

text \<open>\<open>lldiv((8 * emLen) - emBits, 8)\<close> truncates; \<open>x << rem >> rem\<close> is a shift of an \<open>int\<close>.\<close>

definition pss_quot :: "nat \<Rightarrow> nat \<Rightarrow> int" where
  "pss_quot emLen emBits = (let x = 8 * int emLen - int emBits in sgn x * (\<bar>x\<bar> div 8))"

definition pss_rem :: "nat \<Rightarrow> nat \<Rightarrow> int" where
  "pss_rem emLen emBits = (let x = 8 * int emLen - int emBits in sgn x * (\<bar>x\<bar> mod 8))"

definition shift_pair :: "int \<Rightarrow> byte \<Rightarrow> byte run" where
  "shift_pair n x =
     (if n < 0 then throw BadShift
      else ret (ucast (drop_bit (nat n) (push_bit (nat n) (ucast x :: 32 word)))))"

definition clear_top :: "nat \<Rightarrow> nat \<Rightarrow> byte list \<Rightarrow> byte list run" where
  "clear_top emLen emBits DB =
     (let quot = pss_quot emLen emBits; rm = pss_rem emLen emBits in
      if quot < 0 \<or> nat quot \<ge> length DB then throw OutOfBounds
      else
        (let DB = replicate (nat quot) 0x00 @ drop (nat quot) DB in
         bind_run (shift_pair rm (DB ! nat quot)) (\<lambda>x. ret (DB[nat quot := x]))))"

definition EMSA_PSS_Encode ::
  "evp \<Rightarrow> stack \<Rightarrow> source \<Rightarrow> nat \<Rightarrow> rsa \<Rightarrow> byte list \<Rightarrow> nat \<Rightarrow> nat \<Rightarrow> byte list run" where
  "EMSA_PSS_Encode evp stack draw t r M emBits emLen =
     (let hLen = rsa_hLen r; sLen = rsa_sLen r in
      bind_run (Hash evp r M) (\<lambda>mHash.
      if emLen < hLen + sLen + 2 then crypto ''encoding error''
      else
        bind_run (SGF draw t sLen) (\<lambda>salt.
        bind_run (Hash evp r (replicate 8 0x00 @ mHash @ salt)) (\<lambda>H.
        let psLen = emLen - sLen - hLen - 2; dbLen = emLen - hLen - 1;
            DB = replicate psLen 0x00 @ [0x01] @ salt in
        bind_run (MGF evp stack r H dbLen) (\<lambda>dbMask.
        bind_run (clear_top emLen emBits (XOR_octets DB dbMask)) (\<lambda>maskedDB.
          ret (maskedDB @ H @ [0xbc])))))))"

definition EMSA_PSS_Verify :: "evp \<Rightarrow> stack \<Rightarrow> rsa \<Rightarrow> byte list \<Rightarrow> nat \<Rightarrow> nat \<Rightarrow> byte list \<Rightarrow> unit run" where
  "EMSA_PSS_Verify evp stack r M emBits emLen EM =
     (let hLen = rsa_hLen r; sLen = rsa_sLen r in
      bind_run (Hash evp r M) (\<lambda>mHash.
      if emLen < hLen + sLen + 2 then crypto ''inconsistent''
      else if EM ! (emLen - 1) \<noteq> 0xbc then crypto ''inconsistent''
      else
        (let dbLen = emLen - hLen - 1; maskedDB = take dbLen EM; H = take hLen (drop dbLen EM);
             quot = pss_quot emLen emBits; rm = pss_rem emLen emBits in
         if \<exists>i < nat quot. EM ! i \<noteq> 0x00 then crypto ''inconsistent''
         else if quot < 0 then throw OutOfBounds
         else if drop_bit (nat (8 - rm)) (EM ! nat quot) \<noteq> 0x00 then crypto ''inconsistent''
         else
           bind_run (MGF evp stack r H dbLen) (\<lambda>dbMask.
           bind_run (clear_top emLen emBits (XOR_octets maskedDB dbMask)) (\<lambda>DB.
           let zeroLen = emLen - hLen - sLen - 2 in
           if \<exists>i < zeroLen. DB ! i \<noteq> 0x00 then crypto ''inconsistent''
           else if DB ! (emLen - hLen - sLen - 1) \<noteq> 0x01 then crypto ''inconsistent''
           else
             (let salt = drop (dbLen - sLen) DB in
              bind_run (Hash evp r (replicate 8 0x00 @ mHash @ salt)) (\<lambda>HP.
                if \<exists>i < hLen. H ! i \<noteq> HP ! i then crypto ''inconsistent'' else ret ())))))))"

definition RSASSA_PSS_Sign ::
  "evp \<Rightarrow> stack \<Rightarrow> source \<Rightarrow> nat \<Rightarrow> rsa \<Rightarrow> bigint \<Rightarrow> bigint \<Rightarrow> byte list \<Rightarrow> byte list \<Rightarrow> byte list run" where
  "RSASSA_PSS_Sign evp stack draw t r n d M S =
     (let emLen = (rsa_k r - 1) div 8 in
      bind_run (EMSA_PSS_Encode evp stack draw t r M (rsa_k r - 1) emLen) (\<lambda>EM.
      bind_run (RSASP1 n d (OS2IP EM)) (\<lambda>s. I2OSP s (rsa_k r) S)))"

definition RSASSA_PSS_Sign_crt ::
  "evp \<Rightarrow> stack \<Rightarrow> source \<Rightarrow> nat \<Rightarrow> rsa \<Rightarrow> bigint \<Rightarrow> bigint \<Rightarrow> bigint \<Rightarrow> bigint \<Rightarrow> bigint \<Rightarrow> byte list \<Rightarrow> byte list \<Rightarrow>
    byte list run" where
  "RSASSA_PSS_Sign_crt evp stack draw t r p q dP dQ qInv M S =
     (let emLen = (rsa_k r - 1) div 8 in
      bind_run (EMSA_PSS_Encode evp stack draw t r M (rsa_k r - 1) emLen) (\<lambda>EM.
      bind_run (RSASP1_crt p q dP dQ qInv (OS2IP EM)) (\<lambda>s. I2OSP s (rsa_k r) S)))"

definition RSASSA_PSS_Verify ::
  "evp \<Rightarrow> stack \<Rightarrow> rsa \<Rightarrow> bigint \<Rightarrow> bigint \<Rightarrow> byte list \<Rightarrow> byte list \<Rightarrow> unit run" where
  "RSASSA_PSS_Verify evp stack r n e M S =
     catch
       (bind_run (RSAVP1 n e (OS2IP (take (rsa_k r) S))) (\<lambda>m.
        let emLen = (rsa_k r - 1) div 8 in
        bind_run (I2OSP m emLen (stack ''EM'' emLen)) (\<lambda>EM. EMSA_PSS_Verify evp stack r M (rsa_k r - 1) emLen EM)))
       (\<lambda>e. case e of CryptographyException _ \<Rightarrow> crypto ''invalid signature'' | _ \<Rightarrow> throw e)"

section \<open>Octets of a number as wide as the modulus\<close>

definition wide :: "nat \<Rightarrow> nat \<Rightarrow> bool" where
  "wide k x \<longleftrightarrow> 4 dvd k \<and> 256 ^ (k - 4) \<le> x \<and> x < 256 ^ k"

lemma wide_length:
  assumes "wide k (nat (ival x))" and "0 < k"
  shows "length (bi_to_octets False x) = k"
proof -
  obtain w where w: "k = 4 * Suc w"
  proof -
    have "4 dvd k" using assms(1) by (simp add: wide_def)
    then show thesis using that assms(2) by (metis dvd_def mult_0_right not0_implies_Suc not_gr_zero)
  qed
  have x: "nat (ival x) = pval (mag x)"
    using assms(1) by (cases "0 < ival x") (auto simp: pval_mag_nat wide_def)
  have "pval (mag x) < BASE ^ Suc w" "BASE ^ w \<le> pval (mag x)"
    using assms(1) pow_256 [of "Suc w"] pow_256 [of w] unfolding wide_def x w by simp_all
  then have "poly_length (mag x) \<le> Suc w" "\<not> poly_length (mag x) \<le> w"
    unfolding poly_length_le_iff by simp_all
  then have "poly_length (mag x) = Suc w" by simp
  then show ?thesis by (simp add: length_bi_to_octets bi_length_def bi_size_def w)
qed

lemma be_val_to_octets: "0 \<le> ival x \<Longrightarrow> be_val (bi_to_octets False x) = nat (ival x)"
  using octets_unsigned_roundtrip [of x] octets_value [of "bi_to_octets False x"] by simp

lemma I2OSP_wide:
  assumes "wide k (nat (ival x))" and "length X = k" and "0 < k" and "k < 2 ^ 63"
  shows "\<exists>Y. I2OSP x k X = ret Y \<and> length Y = k \<and> be_val Y = nat (ival x)"
proof -
  have p: "0 < nat (ival x)" "nat (ival x) < 256 ^ k"
    using assms(1) by (auto simp: wide_def intro: less_le_trans [of 0 "256 ^ (k - 4)"])
  then have x: "0 \<le> ival x" "\<not> 256 ^ k \<le> ival x" by (simp_all add: nat_less_iff)
  show ?thesis
    using wide_length [OF assms(1,3)] be_val_to_octets [OF x(1)] x(2) assms(2)
    by (simp add: I2OSP_value [OF assms(4)] put_octets_def)
qed

text \<open>Integers and octet strings: \<open>OS2IP\<close> undoes \<open>I2OSP\<close> for every number whose top word is not zero; a shorter
  number is written at the front of the array instead of its end, and the last octets stay those of the caller.\<close>

theorem i2osp_roundtrip:
  assumes "4 dvd xLen" and "0 < xLen" and "xLen < 2 ^ 63" and "length X = xLen" and "0 \<le> ival x" and "ival x < 256 ^ xLen"
  shows "if 256 ^ (xLen - 4) \<le> ival x then (\<exists>Y. I2OSP x xLen X = ret Y \<and> ival (OS2IP Y) = ival x)
    else (\<exists>Y. I2OSP x xLen X = ret Y \<and> drop (xLen - 4) Y = drop (xLen - 4) X)"
proof (cases "256 ^ (xLen - 4) \<le> ival x")
  case True
  then have "wide xLen (nat (ival x))" using assms by (simp add: wide_def le_nat_iff nat_less_iff)
  then show ?thesis using True I2OSP_wide [of xLen x X] assms by (auto simp: ival_OS2IP)
next
  case False
  obtain w where w: "xLen = 4 * Suc w" using assms(1,2) by (metis dvd_def mult_0_right not0_implies_Suc not_gr_zero)
  have "nat (ival x) < 256 ^ (xLen - 4)" using False assms(5) by (simp add: nat_less_iff)
  then have "pval (mag x) < BASE ^ w" using pow_256 [of w] assms(5) by (simp add: pval_mag_nat w)
  then have "poly_length (mag x) \<le> w" by (simp only: poly_length_le_iff)
  then have l: "length (bi_to_octets False x) \<le> xLen - 4" by (simp add: length_bi_to_octets bi_length_def bi_size_def w)
  have "I2OSP x xLen X = ret (bi_to_octets False x @ drop (length (bi_to_octets False x)) X)"
    using assms l by (simp add: I2OSP_value put_octets_def)
  moreover have "drop (xLen - 4) (bi_to_octets False x @ drop (length (bi_to_octets False x)) X) = drop (xLen - 4) X"
    using l le_add_diff_inverse2 [OF l] by (simp del: diff_diff_left)
  ultimately show ?thesis using False by auto
qed

section \<open>Key pairs\<close>

text \<open>Two exponents that undo each other; those of an RSA key do.\<close>

definition key_pair :: "bigint \<Rightarrow> bigint \<Rightarrow> bigint \<Rightarrow> bool" where
  "key_pair n e d \<longleftrightarrow>
     0 < ival n \<and> bi_small n \<and> 0 < ival e \<and> 0 < ival d \<and>
     (\<forall>m < nat (ival n). (m ^ nat (ival e) mod nat (ival n)) ^ nat (ival d) mod nat (ival n) = m \<and>
       (m ^ nat (ival d) mod nat (ival n)) ^ nat (ival e) mod nat (ival n) = m)"

lemma key_pairD:
  assumes "key_pair n e d"
  shows "0 < ival n" and "bi_small n" and "0 < ival e" and "0 < ival d"
    and "m < nat (ival n) \<Longrightarrow> (m ^ nat (ival e) mod nat (ival n)) ^ nat (ival d) mod nat (ival n) = m"
    and "m < nat (ival n) \<Longrightarrow> (m ^ nat (ival d) mod nat (ival n)) ^ nat (ival e) mod nat (ival n) = m"
  using assms unfolding key_pair_def by blast+

lemma rsa_key_pair: "rsa_key p q n e d \<Longrightarrow> key_pair n e d"
proof -
  assume k: "rsa_key p q n e d"
  have "(m ^ nat (ival e) mod nat (ival n)) ^ nat (ival d) mod nat (ival n) = m \<and>
      (m ^ nat (ival d) mod nat (ival n)) ^ nat (ival e) mod nat (ival n) = m" if "m < nat (ival n)" for m
    using rsa_key_nat [OF k that] rsa_key_nat [OF rsa_key_swap [OF k] that] by (rule conjI)
  then show ?thesis using rsa_key_pos(1) [OF k] rsa_keyD(5-7) [OF k] unfolding key_pair_def by blast
qed

text \<open>The largest modulus of a number of words, for examples.\<close>

definition full_modulus :: "nat \<Rightarrow> bigint" where
  "full_modulus w = bi_make (replicate w (- 1)) False"

lemma full_modulus_value: "ival (full_modulus w) = int (256 ^ (4 * w) - 1)"
proof -
  have "pval (replicate w (- 1)) + 1 = BASE ^ w"
    by (induction w) (simp_all add: unat_minus_one_word BASE_def)
  then have "pval (replicate w (- 1)) = BASE ^ w - 1" by simp
  then show ?thesis by (simp add: full_modulus_def pow_256)
qed

lemma full_modulus_bounds:
  assumes "0 < w"
  shows "256 ^ (4 * w - 1) \<le> ival (full_modulus w)" and "ival (full_modulus w) \<le> 256 ^ (4 * w)"
    and "0 < ival (full_modulus w)"
proof -
  obtain k where k: "4 * w = Suc k" using assms by (cases w) auto
  have "(1 :: nat) \<le> 256 ^ k" by (rule one_le_power) simp
  then have "(256 :: nat) ^ k \<le> 256 ^ (4 * w) - 1" unfolding k power_Suc by linarith
  then show 1: "256 ^ (4 * w - 1) \<le> ival (full_modulus w)"
    unfolding full_modulus_value k by (metis diff_Suc_1 of_nat_le_iff of_nat_numeral of_nat_power)
  show "ival (full_modulus w) \<le> 256 ^ (4 * w)"
    unfolding full_modulus_value by (metis diff_le_self of_nat_le_iff of_nat_numeral of_nat_power)
  have "(0 :: int) < 256 ^ (4 * w - 1)" by simp
  then show "0 < ival (full_modulus w)" using 1 by linarith
qed

lemma full_modulus_pair:
  assumes "0 < w" and "w < 256"
  shows "key_pair (full_modulus w) (bi_lit 1) (bi_lit 1)"
proof -
  have "poly_length (replicate w (- 1)) \<le> w" by (simp add: poly_length_le_iff) (rule less_le_trans [OF pval_less], simp)
  then have "bi_small (full_modulus w)" unfolding full_modulus_def by (intro bi_small_make) (use assms(2) in simp)
  then show ?thesis using full_modulus_bounds(3) [OF assms(1)] by (simp add: key_pair_def)
qed

definition sample_evp :: evp where "sample_evp v octets = Some (replicate (sha_size v) 0)"
definition sample_stack :: stack where "sample_stack name n = replicate n 0xcd"
definition sample_source :: source where "sample_source t n = ret (replicate n 1)"

lemma sample_digests: "digests sample_evp"
  by (simp add: digests_def sample_evp_def)

lemma sample_redraw [simp]: "b \<noteq> 0 \<Longrightarrow> redraw draw t b = ret (b, t)"
  by (subst redraw.simps) simp

lemma sample_nonzero [simp]: "nonzero_loop draw t (replicate n 1) = ret (replicate n 1, t)"
  by (induction n) simp_all

section \<open>Signatures\<close>

lemma length_digest_info: "length (digest_info v) \<le> 19"
  by (cases v) simp_all

lemma Hash_ok:
  assumes "digests evp" and "length M < 2 ^ 61"
  obtains H where "Hash evp r M = ret H" and "length H = sha_size (rsa_HV r)"
  using assms digests_checksum [of evp "rsa_HV r" M] by (auto simp: Hash_def)

text \<open>The block that is signed.\<close>

definition signature_block :: "evp \<Rightarrow> rsa \<Rightarrow> byte list \<Rightarrow> byte list" where
  "signature_block evp r M =
     (let T = digest_info (rsa_HV r) @ the (evp (rsa_HV r) M) in
      [0x00, 0x01] @ replicate (rsa_k r - length T - 3) 0xff @ [0x00] @ T)"

definition signs :: "evp \<Rightarrow> rsa \<Rightarrow> byte list \<Rightarrow> bool" where
  "signs evp r M \<longleftrightarrow>
     digests evp \<and> length M < 2 ^ 61 \<and> length (digest_info (rsa_HV r)) + sha_size (rsa_HV r) + 11 \<le> rsa_k r \<and> rsa_k r < 2 ^ 63"

lemma encode_ok:
  assumes "signs evp r M"
  shows "EMSA_PKCS1_V1_5_Encode evp r M (rsa_k r) = ret (signature_block evp r M)"
    and "length (signature_block evp r M) = rsa_k r"
proof -
  obtain H where H: "evp (rsa_HV r) M = Some H" "length H = sha_size (rsa_HV r)"
    using assms by (auto simp: signs_def digests_def)
  then show "EMSA_PKCS1_V1_5_Encode evp r M (rsa_k r) = ret (signature_block evp r M)"
    "length (signature_block evp r M) = rsa_k r"
    using assms by (simp_all add: signs_def EMSA_PKCS1_V1_5_Encode_def Hash_def sha_checksum_def signature_block_def Let_def, linarith?)
qed

lemma block_value:
  fixes t :: byte
  assumes "k = length xs + 2" and "t \<noteq> 0"
  shows "256 ^ (k - 2) \<le> be_val (0 # t # xs)" and "be_val (0 # t # xs) < 256 ^ (k - 1)"
proof -
  have "1 \<le> unat t" using assms(2) by (simp add: unat_gt_0 Suc_le_eq)
  then have "1 * 256 ^ length xs \<le> unat t * 256 ^ length xs" by (rule mult_le_mono1)
  then show "256 ^ (k - 2) \<le> be_val (0 # t # xs)"
    unfolding assms(1) by (simp only: be_val_simps unsigned_0 mult_zero_left add_0 add_diff_cancel_right')
  show "be_val (0 # t # xs) < 256 ^ (k - 1)" using be_val_less [of "t # xs"] assms(1) by simp
qed

lemma signature_block_shape: "\<exists>xs. signature_block evp r M = 0 # 1 # xs"
  by (simp add: signature_block_def Let_def)

lemma signature_block_value:
  assumes "signs evp r M"
  shows "256 ^ (rsa_k r - 2) \<le> be_val (signature_block evp r M)" and "be_val (signature_block evp r M) < 256 ^ (rsa_k r - 1)"
proof -
  obtain xs where xs: "signature_block evp r M = 0 # 1 # xs" using signature_block_shape by blast
  have "rsa_k r = length xs + 2" using encode_ok(2) [OF assms] xs by simp
  from block_value [OF this, of 1] show "256 ^ (rsa_k r - 2) \<le> be_val (signature_block evp r M)"
    and "be_val (signature_block evp r M) < 256 ^ (rsa_k r - 1)" by (simp_all add: xs)
qed

lemma sign_value:
  assumes "signs evp r M"
  shows "RSASSA_PKCS1_V1_5_Sign evp r n d M S =
    bind_run (RSASP1 n d (OS2IP (signature_block evp r M))) (\<lambda>s. I2OSP s (rsa_k r) S)"
  by (simp add: RSASSA_PKCS1_V1_5_Sign_def encode_ok [OF assms])

lemma list_differs: "length xs = k \<Longrightarrow> length ys = k \<Longrightarrow> (\<exists>i < k. xs ! i \<noteq> ys ! i) \<longleftrightarrow> xs \<noteq> ys"
  by (metis nth_equalityI)

text \<open>The octets of a number are its only string of whole words whose first one is not zero.\<close>

lemma to_octets_unique:
  assumes "0 \<le> ival x" and "nat (ival x) = be_val bs" and "length bs = 4 * j" and "0 < j \<longrightarrow> 256 ^ (4 * (j - 1)) \<le> be_val bs"
  shows "bi_to_octets False x = bs"
proof -
  have v: "pval (mag x) = be_val bs" using assms(1,2) by (simp add: pval_mag_nat)
  have "be_val bs < BASE ^ j" using be_val_less [of bs] by (simp add: assms(3) pow_256)
  then have "poly_length (mag x) \<le> j" unfolding poly_length_le_iff v .
  moreover have "\<not> poly_length (mag x) \<le> i" if "j = Suc i" for i
    unfolding poly_length_le_iff v using assms(4) pow_256 [of i] that by simp
  ultimately have "poly_length (mag x) = j" by (cases j) (auto simp: not_le intro: le_antisym)
  then have "length (bi_to_octets False x) = length bs" by (simp add: length_bi_to_octets bi_length_def bi_size_def assms(3))
  then show ?thesis using be_val_inj be_val_to_octets [OF assms(1)] assms(2) by metis
qed

lemma to_octets_words: "length (bi_to_octets False x) = 4 * poly_length (mag x)"
  by (simp add: length_bi_to_octets bi_length_def bi_size_def)

lemma signature_block_prefix:
  assumes "signs evp r M" and "4 * j \<le> rsa_k r" and "0 < j"
  shows "256 ^ (4 * (j - 1)) \<le> be_val (take (4 * j) (signature_block evp r M))"
proof -
  obtain xs where xs: "signature_block evp r M = 0 # 1 # xs" using signature_block_shape by blast
  have l: "rsa_k r = length xs + 2" using encode_ok(2) [OF assms(1)] xs by simp
  obtain i where i: "4 * j = Suc (Suc i)" using assms(3) by (cases j) auto
  have t: "take (4 * j) (signature_block evp r M) = 0 # 1 # take (4 * j - 2) xs" by (simp add: xs i)
  have "4 * j = length (take (4 * j - 2) xs) + 2" using assms(2,3) l by simp
  from block_value(1) [OF this, of 1] have "256 ^ (4 * j - 2) \<le> be_val (take (4 * j) (signature_block evp r M))" by (simp add: t)
  moreover have "(256 :: nat) ^ (4 * (j - 1)) \<le> 256 ^ (4 * j - 2)" by (rule power_increasing) simp_all
  ultimately show ?thesis by (rule le_trans [rotated])
qed

lemma verify_value:
  assumes "signs evp r M" and "length (stack ''EM'' (rsa_k r)) = rsa_k r" and "RSAVP1 n e (OS2IP (take (rsa_k r) S)) = ret m"
    and "0 \<le> ival m" and "ival m < 256 ^ rsa_k r" and "4 dvd rsa_k r"
  shows "RSASSA_PKCS1_V1_5_Verify evp stack r n e M S =
    (if bi_to_octets False m @ drop (length (bi_to_octets False m)) (stack ''EM'' (rsa_k r)) = signature_block evp r M
     then ret () else crypto ''invalid signature'')"
proof -
  let ?o = "bi_to_octets False m" and ?k = "rsa_k r"
  have k: "?k < 2 ^ 63" using assms(1) by (simp add: signs_def)
  obtain w where w: "?k = 4 * w" using assms(6) by blast
  have "nat (ival m) < 256 ^ (4 * w)" using assms(4,5) w by (simp add: nat_less_iff)
  then have "poly_length (mag m) \<le> w" unfolding pow_256 using assms(4) by (simp add: poly_length_le_iff pval_mag_nat)
  then have l: "length ?o \<le> ?k" using w by (simp add: to_octets_words)
  then have "I2OSP m ?k (stack ''EM'' ?k) = ret (?o @ drop (length ?o) (stack ''EM'' ?k))"
    using assms(2,5) by (simp add: I2OSP_value [OF k] put_octets_def)
  moreover have "length (?o @ drop (length ?o) (stack ''EM'' ?k)) = ?k" using l assms(2) by simp
  ultimately show ?thesis
    using encode_ok [OF assms(1)] assms(3)
    by (simp add: RSASSA_PKCS1_V1_5_Verify_def list_differs crypto_def modulus_too_short_def)
qed

lemma verify_exact:
  assumes "signs evp r M" and "length (stack ''EM'' (rsa_k r)) = rsa_k r" and "4 dvd rsa_k r"
    and "0 < ival n" and "ival n \<le> 256 ^ rsa_k r" and "bi_small n" and "0 < ival e" and "length S = rsa_k r"
  shows "RSASSA_PKCS1_V1_5_Verify evp stack r n e M S = ret () \<longleftrightarrow>
    int (be_val S) < ival n \<and>
    (\<exists>j. 4 * j \<le> rsa_k r \<and> be_val S ^ nat (ival e) mod nat (ival n) = be_val (take (4 * j) (signature_block evp r M)) \<and>
       drop (4 * j) (stack ''EM'' (rsa_k r)) = drop (4 * j) (signature_block evp r M))"
proof (cases "int (be_val S) < ival n")
  case False
  then have "RSAVP1 n e (OS2IP (take (rsa_k r) S)) = crypto ''signature representative out of range''"
    using assms(8) by (simp add: RSAVP1_def out_of_range_ok ival_OS2IP crypto_def)
  then show ?thesis
    using False by (simp add: RSASSA_PKCS1_V1_5_Verify_def crypto_def)
next
  case True
  let ?k = "rsa_k r" and ?block = "signature_block evp r M"
  obtain m where m: "RSAVP1 n e (OS2IP (take ?k S)) = ret m" "0 \<le> ival m" "ival m < ival n"
    "ival m = int (be_val S ^ nat (ival e) mod nat (ival n))"
    using rsa_power_ok [OF assms(4,6,7), of "OS2IP (take ?k S)" "CryptographyException ''signature representative out of range''",
        folded RSAVP1_def] True assms(8) by (auto simp: ival_OS2IP)
  let ?o = "bi_to_octets False m"
  have V: "RSASSA_PKCS1_V1_5_Verify evp stack r n e M S = ret () \<longleftrightarrow> ?o @ drop (length ?o) (stack ''EM'' ?k) = ?block"
  proof -
    have "ival m < 256 ^ ?k" using m(3) assms(5) by simp
    from verify_value [of evp r M stack n e S m, OF assms(1,2) m(1,2) this assms(3)] show ?thesis by (simp add: crypto_def)
  qed
  have lb: "length ?block = ?k" by (rule encode_ok(2) [OF assms(1)])
  have v: "be_val ?o = be_val S ^ nat (ival e) mod nat (ival n)" using be_val_to_octets [OF m(2)] m(4) by simp
  show ?thesis
  proof
    assume "RSASSA_PKCS1_V1_5_Verify evp stack r n e M S = ret ()"
    then have b: "?o @ drop (length ?o) (stack ''EM'' ?k) = ?block" using V by simp
    let ?j = "poly_length (mag m)"
    have "take (4 * ?j) ?block = ?o" "drop (4 * ?j) ?block = drop (4 * ?j) (stack ''EM'' ?k)" "4 * ?j \<le> ?k"
      using to_octets_words [of m] lb by (simp_all flip: b)
    then show "int (be_val S) < ival n \<and> (\<exists>j. 4 * j \<le> ?k \<and>
        be_val S ^ nat (ival e) mod nat (ival n) = be_val (take (4 * j) ?block) \<and>
        drop (4 * j) (stack ''EM'' ?k) = drop (4 * j) ?block)"
      using True v by (intro conjI exI [of _ ?j]) simp_all
  next
    assume "int (be_val S) < ival n \<and> (\<exists>j. 4 * j \<le> ?k \<and>
        be_val S ^ nat (ival e) mod nat (ival n) = be_val (take (4 * j) ?block) \<and>
        drop (4 * j) (stack ''EM'' ?k) = drop (4 * j) ?block)"
    then obtain j where j: "4 * j \<le> ?k" "nat (ival m) = be_val (take (4 * j) ?block)"
      "drop (4 * j) (stack ''EM'' ?k) = drop (4 * j) ?block" using m(4) by auto
    have "?o = take (4 * j) ?block"
      by (rule to_octets_unique [OF m(2) j(2)]) (use j(1) lb signature_block_prefix [OF assms(1) j(1)] in \<open>simp, blast\<close>)
    then show "RSASSA_PKCS1_V1_5_Verify evp stack r n e M S = ret ()"
      using V j(1,3) lb by (simp add: min_absorb2)
  qed
qed

text \<open>What signature verification accepts: exactly the strings below the modulus whose power is the value of the
  block for the message, or of the first words of that block where the stack happens to hold the others. An array left
  over from an earlier verification of the message makes such a signature valid.\<close>

theorem pkcs1_verify_exact:
  assumes "signs evp r M" and "length (stack ''EM'' (rsa_k r)) = rsa_k r" and "4 dvd rsa_k r"
    and "0 < ival n" and "ival n \<le> 256 ^ rsa_k r" and "bi_small n" and "0 < ival e" and "length S = rsa_k r"
  shows "RSASSA_PKCS1_V1_5_Verify evp stack r n e M S = ret () \<longleftrightarrow>
    int (be_val S) < ival n \<and>
    (\<exists>j. 4 * j \<le> rsa_k r \<and> be_val S ^ nat (ival e) mod nat (ival n) = be_val (take (4 * j) (signature_block evp r M)) \<and>
       drop (4 * j) (stack ''EM'' (rsa_k r)) = drop (4 * j) (signature_block evp r M))"
  using assms by (rule verify_exact)

lemma sample_signs: "signs sample_evp (new_rsa 384 SHA1) []"
  by (simp add: signs_def sample_digests new_rsa_def)

lemma sign_ok:
  assumes "signs evp r M" and "key_pair n e d" and "256 ^ (rsa_k r - 1) \<le> ival n"
  obtains s where "RSASP1 n d (OS2IP (signature_block evp r M)) = ret s" and "0 \<le> ival s" and "ival s < ival n"
    and "nat (ival s) = be_val (signature_block evp r M) ^ nat (ival d) mod nat (ival n)"
    and "nat (ival s) ^ nat (ival e) mod nat (ival n) = be_val (signature_block evp r M)"
proof -
  let ?b = "be_val (signature_block evp r M)"
  have b: "int ?b < ival n"
  proof -
    have "int ?b < int (256 ^ (rsa_k r - 1))" using signature_block_value(2) [OF assms(1)] by (rule iffD2 [OF of_nat_less_iff])
    also have "\<dots> \<le> ival n" using assms(3) by simp
    finally show ?thesis .
  qed
  obtain s where s: "RSASP1 n d (OS2IP (signature_block evp r M)) = ret s" "0 \<le> ival s" "ival s < ival n"
    "ival s = int (?b ^ nat (ival d) mod nat (ival n))"
    using rsa_power_ok [OF key_pairD(1,2,4) [OF assms(2)], of "OS2IP (signature_block evp r M)"
        "CryptographyException ''message representative out of range''", folded RSASP1_def] b by (auto simp: ival_OS2IP)
  have "nat (ival s) ^ nat (ival e) mod nat (ival n) = ?b"
    using key_pairD(6) [OF assms(2), of ?b] b s(4) by simp
  then show thesis using that s by simp
qed



text \<open>A modulus with more than 16 bits to spare in its octets neither signs nor encrypts anything: the block is always
  out of its range. The 4098-bit keys of the certificate tool are such.\<close>

theorem pkcs1_narrow_modulus:
  assumes "signs evp r M" and "ival n \<le> 256 ^ (rsa_k r - 2)" and "draw t (rsa_k r - length M' - 3) = ret PS0"
    and "nonzero_loop draw (t + 1) PS0 = ret (PS, t')" and "length PS = rsa_k r - length M' - 3" and "length M' + 11 \<le> rsa_k r"
  shows "RSASSA_PKCS1_V1_5_Sign evp r n d M S = crypto ''message representative out of range'' \<and>
    RSAES_PKCS1_V1_5_Encrypt draw t r n e M' C = crypto ''message representative out of range''"
proof
  have out: "out_of_range (OS2IP X) n = ret True" if "256 ^ (rsa_k r - 2) \<le> be_val X" for X
  proof -
    have "ival n \<le> int (256 ^ (rsa_k r - 2))" using assms(2) by simp
    also have "\<dots> \<le> int (be_val X)" using that by (rule iffD2 [OF of_nat_le_iff])
    finally show ?thesis by (simp add: out_of_range_ok ival_OS2IP)
  qed
  show "RSASSA_PKCS1_V1_5_Sign evp r n d M S = crypto ''message representative out of range''"
    using out [OF signature_block_value(1) [OF assms(1)]] by (simp add: sign_value [OF assms(1)] RSASP1_def crypto_def)
  have "256 ^ (rsa_k r - 2) \<le> be_val (0 # 2 # (PS @ 0 # M'))"
    by (rule block_value(1)) (use assms(5,6) in simp_all)
  from out [OF this] show "RSAES_PKCS1_V1_5_Encrypt draw t r n e M' C = crypto ''message representative out of range''"
    using assms(3-6) by (simp add: RSAES_PKCS1_V1_5_Encrypt_def SGF_nonzero_def RSAEP_def crypto_def Let_def)
qed

text \<open>The shape of a 4098-bit key, two bits in a word of their own, with a smaller key.\<close>

section \<open>Decryption\<close>

lemma pad_loop_run:
  assumes "unat c \<le> z" and "z \<le> 255" and "z < length EM" and "\<forall>i. unat c \<le> i \<and> i < z \<longrightarrow> EM ! i \<noteq> 0" and "EM ! z = 0"
  shows "pad_loop EM c = ret (of_nat z)"
  using assms
proof (induction "z - unat c" arbitrary: c)
  case 0
  then have z: "unat c = z" by simp
  then have "of_nat z = c" by (simp flip: z)
  then show ?case using 0 by (subst pad_loop.simps) auto
next
  case (Suc x)
  have lt: "unat c < z" using Suc.hyps(2) by simp
  then have "unat (c + 1) = unat c + 1" using Suc.prems(2) by (simp add: unat_word_ariths)
  then have "pad_loop EM (c + 1) = ret (of_nat z)" using Suc by (intro Suc.hyps(1)) auto
  then show ?case using Suc.prems lt by (subst pad_loop.simps) simp
qed

lemma pad_loop_wrap:
  assumes "255 < length EM" and "\<forall>i. unat c \<le> i \<and> i \<le> 255 \<longrightarrow> EM ! i \<noteq> 0" and "EM ! 0 = 0" and "c \<noteq> 0"
  shows "pad_loop EM c = ret 0"
  using assms
proof (induction "255 - unat c" arbitrary: c)
  case 0
  have "unat c < 256" by (rule unat_byte_less)
  then have c: "unat c = 255" using 0 by simp
  then have "unat (c + 1) = 0" by (simp add: unat_word_ariths)
  then have "c + 1 = 0" by (simp add: unat_eq_0)
  moreover have "pad_loop EM 0 = ret 0" using 0 by (subst pad_loop.simps) auto
  ultimately show ?case using 0 c by (subst pad_loop.simps) simp
next
  case (Suc x)
  then have u: "unat (c + 1) = unat c + 1" by (simp add: unat_word_ariths)
  then have "c + 1 \<noteq> 0" by (metis Suc_eq_plus1 nat.distinct(1) unsigned_0)
  then have "pad_loop EM (c + 1) = ret 0" using Suc u by (intro Suc.hyps(1)) auto
  then show ?case using Suc by (subst pad_loop.simps) simp
qed

definition draws :: "source \<Rightarrow> bool" where
  "draws draw \<longleftrightarrow> (\<forall>t n bs. draw t n = ret bs \<longrightarrow> length bs = n)"

lemma redraw_nonzero:
  assumes "redraw draw t b = Some res"
  shows "case res of Inl e \<Rightarrow> True | Inr (b', t') \<Rightarrow> b' \<noteq> 0"
proof (rule redraw.raw_induct [where P = "\<lambda>draw t b res. case res of Inl e \<Rightarrow> True | Inr (b', t') \<Rightarrow> b' \<noteq> 0", OF _ assms])
  fix rec draw t b res
  assume IH: "\<And>draw t b res. rec draw t b = Some res \<Longrightarrow> case res of Inl e \<Rightarrow> True | Inr (b', t') \<Rightarrow> b' \<noteq> 0"
    and h: "(if b = 0 then bind_run (draw t 1) (\<lambda>bs. rec draw (t + 1) (bs ! 0)) else ret (b, t)) = Some res"
  show "case res of Inl e \<Rightarrow> True | Inr (b', t') \<Rightarrow> b' \<noteq> 0"
  proof (cases "b = 0")
    case True
    then have "bind_run (draw t 1) (\<lambda>bs. rec draw (t + 1) (bs ! 0)) = Some res" using h by simp
    then obtain y where "draw t 1 = Some y" "(case y of Inl e \<Rightarrow> Some (Inl e) | Inr bs \<Rightarrow> rec draw (t + 1) (bs ! 0)) = Some res"
      by (cases "draw t 1") (auto simp: bind_run_def)
    then show ?thesis using IH by (cases y) auto
  qed (use h in \<open>auto simp: ret_def\<close>)
qed

lemma nonzero_loop_nonzero:
  "nonzero_loop draw t bs = ret (PS, t') \<Longrightarrow> length PS = length bs \<and> 0 \<notin> set PS"
proof (induction draw t bs arbitrary: PS t' rule: nonzero_loop.induct)
  case (2 draw t b bs)
  obtain res where r: "redraw draw t b = Some res" using 2(2) by (cases "redraw draw t b") (auto simp: ret_def)
  obtain b1 t1 where 1: "res = Inr (b1, t1)" using 2(2) r by (cases res) (auto simp: throw_def ret_def)
  then have b1: "b1 \<noteq> 0" using redraw_nonzero [OF r] by simp
  have "bind_run (nonzero_loop draw t1 bs) (\<lambda>(bs, t). ret (b1 # bs, t)) = ret (PS, t')"
    using 2(2) r 1 by (simp flip: ret_def)
  then obtain PS1 where "nonzero_loop draw t1 bs = ret (PS1, t')" "PS = b1 # PS1"
    by (cases "nonzero_loop draw t1 bs") (auto simp: bind_run_def ret_def split: sum.splits)
  then show ?case using b1 by (auto dest: 2(1))
qed (simp add: ret_def)

lemma SGF_nonzero_ok:
  assumes "draws draw" and "SGF_nonzero draw t n = ret (PS, t')"
  shows "length PS = n" and "0 \<notin> set PS"
proof -
  have "length PS = n \<and> 0 \<notin> set PS"
  proof (cases "n = 0")
    case False
    then obtain bs where "draw t n = ret bs" "nonzero_loop draw (t + 1) bs = ret (PS, t')"
      using assms(2) by (cases "draw t n") (auto simp: SGF_nonzero_def bind_run_def ret_def split: sum.splits)
    then show ?thesis using nonzero_loop_nonzero assms(1) by (auto simp: draws_def)
  qed (use assms(2) in \<open>simp add: SGF_nonzero_def\<close>)
  then show "length PS = n" and "0 \<notin> set PS" by simp_all
qed

text \<open>The block that is encrypted, and what is taken back out of it.\<close>

definition encryption_block :: "byte list \<Rightarrow> byte list \<Rightarrow> byte list" where
  "encryption_block PS M = [0x00, 0x02] @ PS @ [0x00] @ M"

lemma unpad_block:
  assumes "0 \<notin> set PS" and "k = length PS + length M + 3" and "k \<le> cap" and "8 \<le> length PS"
  shows "bind_run (pad_loop (encryption_block PS M) 2) (\<lambda>emCounter.
      let emCounter = emCounter + 1; mLen = k - unat emCounter in
      if mLen > cap then throw OutOfBounds else ret (take mLen (drop (unat emCounter) (encryption_block PS M)))) =
    ret (if k \<le> length M + 255 then M else if k = length M + 256 then encryption_block PS M
      else tl (encryption_block PS M))"
proof -
  let ?EM = "encryption_block PS M" and ?z = "length PS + 2"
  have len: "length ?EM = k" by (simp add: encryption_block_def assms(2))
  have nz: "?EM ! i \<noteq> 0" if i: "2 \<le> i" "i < ?z" for i
  proof -
    obtain j where j: "i = 2 + j" using le_Suc_ex [OF i(1)] by blast
    then have jl: "j < length PS" using i(2) by simp
    then have "(PS @ 0 # M) ! j = PS ! j" by (simp add: nth_append)
    then have "?EM ! i = PS ! j" unfolding j encryption_block_def by simp
    then show ?thesis using assms(1) nth_mem [OF jl] by auto
  qed
  have z: "?EM ! ?z = 0" "?EM ! 0 = 0" by (simp_all add: encryption_block_def nth_append)
  have d: "drop (?z + 1) ?EM = M" by (simp add: encryption_block_def)
  show ?thesis
  proof (cases "?z \<le> 255")
    case True
    have p: "pad_loop ?EM 2 = ret (of_nat ?z)"
    proof (rule pad_loop_run [OF _ True])
      show "?z < length ?EM" unfolding len using assms(2) by simp
      show "\<forall>i. unat (2 :: byte) \<le> i \<and> i < ?z \<longrightarrow> ?EM ! i \<noteq> 0" using nz by simp
    qed (rule z | simp)+
    show ?thesis
    proof (cases "?z = 255")
      case True
      then have "unat (of_nat ?z + 1 :: byte) = 0" by simp
      moreover have "k = length M + 256" using True assms(2) by simp
      ultimately show ?thesis using p len assms(3) by (simp add: Let_def)
    next
      case False
      then have u: "unat (of_nat ?z + 1 :: byte) = ?z + 1"
        using \<open>?z \<le> 255\<close> by (simp add: unat_word_ariths unat_of_nat)
      moreover have "k - (?z + 1) = length M" "k \<le> length M + 255" using assms(2) False \<open>?z \<le> 255\<close> by simp_all
      ultimately show ?thesis using p d assms(2,3) by (simp add: Let_def del: drop_append)
    qed
  next
    case False
    have "pad_loop ?EM 2 = ret 0"
    proof (rule pad_loop_wrap)
      show "255 < length ?EM" unfolding len using assms(2) False by simp
      show "\<forall>i. unat (2 :: byte) \<le> i \<and> i \<le> 255 \<longrightarrow> ?EM ! i \<noteq> 0" using nz False by simp
    qed (rule z | simp)+
    moreover have "\<not> k \<le> length M + 255" "k \<noteq> length M + 256" using False assms(2) by simp_all
    ultimately show ?thesis using len assms(3) by (simp add: Let_def drop_Suc)
  qed
qed

text \<open>Decryption gives the message back when it is at most 255 octets shorter than the modulus: the counter of the
  padding has eight bits. One octet shorter and the whole block comes back; any shorter, all of it but its first octet.
  With a key of 3072 bits that is every message of up to 128 octets, and with one of 2048 bits the empty one.\<close>

theorem pkcs1_decrypt_counter:
  assumes "key_pair n e d" and "256 ^ (rsa_k r - 1) \<le> ival n" and "ival n \<le> 256 ^ rsa_k r" and "rsa_k r < 2 ^ 63"
    and "draws draw" and "SGF_nonzero draw t (rsa_k r - length M - 3) = ret (PS, t')" and "length M + 11 \<le> rsa_k r"
    and "wide (rsa_k r) (be_val (encryption_block PS M) ^ nat (ival e) mod nat (ival n))"
    and "length C0 = rsa_k r" and "length (stack ''EM'' (rsa_k r)) = rsa_k r" and "rsa_k r \<le> cap"
  shows "\<exists>C. RSAES_PKCS1_V1_5_Encrypt draw t r n e M C0 = ret (C, t') \<and>
    RSAES_PKCS1_V1_5_Decrypt stack r n d C cap =
      ret (if rsa_k r \<le> length M + 255 then M else if rsa_k r = length M + 256 then encryption_block PS M
        else tl (encryption_block PS M))"
proof -
  let ?k = "rsa_k r" and ?EM = "encryption_block PS M"
  have PS: "length PS = ?k - length M - 3" "0 \<notin> set PS" using SGF_nonzero_ok [OF assms(5,6)] by simp_all
  then have k: "?k = length PS + length M + 3" "8 \<le> length PS" "0 < ?k" using assms(7) by simp_all
  have k2: "?k = length (PS @ 0 # M) + 2" using k(1) by simp
  have EM: "?EM = 0 # 2 # (PS @ 0 # M)" by (simp add: encryption_block_def)
  have "be_val ?EM < 256 ^ (?k - 1)" "256 ^ (?k - 2) \<le> be_val ?EM"
    unfolding EM by (rule block_value [OF k2]; simp)+
  then have b: "int (be_val ?EM) < int (256 ^ (?k - 1))" and b2: "256 ^ (?k - 4) \<le> be_val ?EM"
    using le_trans [OF power_increasing [of "?k - 4" "?k - 2" "256 :: nat"]] by simp_all
  have "int (256 ^ (?k - 1)) \<le> ival n" using assms(2) by simp
  with b have bn: "int (be_val ?EM) < ival n" by (rule less_le_trans)
  obtain c where c: "RSAEP n e (OS2IP ?EM) = ret c" "0 \<le> ival c" "ival c < ival n"
    "ival c = int (be_val ?EM ^ nat (ival e) mod nat (ival n))"
    using rsa_power_ok [OF key_pairD(1-3) [OF assms(1)], of "OS2IP ?EM"
        "CryptographyException ''message representative out of range''", folded RSAEP_def] bn by (auto simp: ival_OS2IP)
  obtain C where C: "I2OSP c ?k C0 = ret C" "length C = ?k" "be_val C = nat (ival c)"
    using I2OSP_wide [of ?k c C0] assms(8,9,4) k(3) c(4) by auto
  have "RSAES_PKCS1_V1_5_Encrypt draw t r n e M C0 = ret (C, t')"
    using assms(6,7) c(1) C(1) by (simp add: RSAES_PKCS1_V1_5_Encrypt_def Let_def encryption_block_def)
  moreover have "RSAES_PKCS1_V1_5_Decrypt stack r n d C cap =
      ret (if ?k \<le> length M + 255 then M else if ?k = length M + 256 then ?EM else tl ?EM)"
  proof -
    have Cc: "ival (OS2IP C) = ival c" using C(3) c(2) by (simp add: ival_OS2IP)
    obtain m where m: "RSADP n d (OS2IP C) = ret m" "0 \<le> ival m"
      "ival m = int (nat (ival c) ^ nat (ival d) mod nat (ival n))"
      using rsa_power_ok [OF key_pairD(1,2,4) [OF assms(1)], of "OS2IP C"
          "CryptographyException ''ciphertext representative out of range''", folded RSADP_def] c(2,3) by (auto simp: Cc)
    have mv: "nat (ival m) = be_val ?EM"
      using m(3) c(4) key_pairD(5) [OF assms(1), of "be_val ?EM"] bn by simp
    have w: "wide ?k (nat (ival m))"
    proof -
      have "length ?EM = ?k" using k(1) by (simp add: encryption_block_def)
      then show ?thesis using b2 be_val_less [of ?EM] assms(8) unfolding wide_def mv by simp
    qed
    obtain Y where Y: "I2OSP m ?k (stack ''EM'' ?k) = ret Y" "length Y = ?k" "be_val Y = nat (ival m)"
      using I2OSP_wide [OF w assms(10) k(3) assms(4)] by auto
    have "Y = ?EM" using Y(2,3) mv k(1) by (intro be_val_inj) (simp_all add: encryption_block_def)
    then have Y: "I2OSP m ?k (stack ''EM'' ?k) = ret ?EM" using Y(1) by simp
    have e: "?EM ! 0 = 0" "?EM ! 1 = 2" "take ?k C = C" "\<not> ?k < 11" using C(2) assms(7) by (simp_all add: EM)
    have "RSAES_PKCS1_V1_5_Decrypt stack r n d C cap = bind_run (pad_loop ?EM 2) (\<lambda>emCounter.
        let emCounter = emCounter + 1; mLen = ?k - unat emCounter in
        if mLen > cap then throw OutOfBounds else ret (take mLen (drop (unat emCounter) ?EM)))"
      unfolding RSAES_PKCS1_V1_5_Decrypt_def Let_def e(3) m(1) catch_simps bind_run_simps Y using e by simp
    then show ?thesis unfolding unpad_block [OF PS(2) k(1) assms(11) k(2)] .
  qed
  ultimately show ?thesis by blast
qed

section \<open>The masked paddings\<close>

lemma I2OSP_counter:
  assumes "counter < 2 ^ 32" and "length X = 4"
  shows "\<exists>Y. I2OSP (bi_of_int64 (of_nat counter)) 4 X = ret Y \<and> length Y = 4"
proof -
  let ?c = "bi_of_int64 (of_nat counter)"
  have v: "ival ?c = int counter" using assms(1) by (intro ival_of_int64_nat) simp
  then have "pval (mag ?c) < BASE ^ 1" using assms(1) by (simp add: pval_mag_nat BASE_def)
  then have "poly_length (mag ?c) \<le> 1" unfolding poly_length_le_iff .
  then have "length (bi_to_octets False ?c) \<le> 4" by (simp add: length_bi_to_octets bi_length_def bi_size_def)
  moreover have "int counter < int (2 ^ 32)" by (rule iffD2 [OF of_nat_less_iff assms(1)])
  ultimately show ?thesis using assms(2) by (simp add: I2OSP_value v put_octets_def)
qed

lemma mgf_loop_fails:
  assumes "digests evp" and "rsa_hLen r = sha_size (rsa_HV r)" and "seedLen + 4 < 2 ^ 61"
  shows "0 < rounds \<Longrightarrow> counter + rounds \<le> 2 ^ 32 \<Longrightarrow> length tmp = seedLen + 4 \<Longrightarrow>
    length T = rsa_hLen r * (counter + rounds - 1) \<Longrightarrow> mgf_loop evp r seedLen counter rounds tmp T = throw OutOfBounds"
proof (induction rounds arbitrary: counter tmp T)
  case (Suc n)
  obtain c where c: "I2OSP (bi_of_int64 (of_nat counter)) 4 (drop seedLen tmp) = ret c" "length c = 4"
    using I2OSP_counter [of counter "drop seedLen tmp"] Suc.prems by auto
  let ?tmp = "take seedLen tmp @ c"
  have t: "length ?tmp = seedLen + 4" using Suc.prems(3) c(2) by simp
  obtain h where h: "Hash evp r ?tmp = ret h" "length h = rsa_hLen r"
    using Hash_ok [OF assms(1), of ?tmp r] t assms(2,3) by auto
  have T: "length T = rsa_hLen r * (counter + n)" using Suc.prems(4) by simp
  show ?case
  proof (cases n)
    case 0
    then have "put_octets T (counter * rsa_hLen r) h = throw OutOfBounds"
      using T h(2) assms(2) sha_size_bounds [of "rsa_HV r"] by (simp add: put_octets_def mult.commute)
    then show ?thesis using c(1) h(1) by (simp add: Let_def)
  next
    case (Suc n')
    then have "counter * rsa_hLen r + length h \<le> length T" unfolding T h(2) by (simp add: algebra_simps)
    then obtain T' where T': "put_octets T (counter * rsa_hLen r) h = ret T'" "length T' = length T"
      by (auto simp: put_octets_def)
    have "mgf_loop evp r seedLen (counter + 1) n ?tmp T' = throw OutOfBounds"
      using Suc.IH [of "counter + 1" ?tmp T'] Suc Suc.prems(2) t T T'(2) by simp
    then show ?thesis using c(1) h(1) T'(1) by (simp add: Let_def)
  qed
qed simp

lemma MGF_fails:
  assumes "digests evp" and "rsa_hLen r = sha_size (rsa_HV r)" and "length seed + 4 < 2 ^ 61" and "maskLen < 2 ^ 32"
    and "\<And>name n. length (stack name n) = n"
  shows "MGF evp stack r seed maskLen = throw OutOfBounds"
proof -
  have h: "0 < rsa_hLen r" using sha_size_bounds assms(2) by simp
  have "maskLen \<le> 2 ^ 32 * rsa_hLen r" "maskLen div rsa_hLen r < 2 ^ 32"
    using h assms(4) le_trans [OF less_imp_le [OF assms(4)], of "2 ^ 32 * rsa_hLen r"] div_le_dividend [of maskLen "rsa_hLen r"]
    by (simp_all, linarith)
  then show ?thesis using mgf_loop_fails [OF assms(1-3)] assms(5) by (simp add: MGF_def Let_def del: mgf_loop.simps)
qed

text \<open>C22. The masked paddings never come about: the mask is made of whole digests, one more than the array that collects
  them has room for. OAEP writes beyond its array for every message it accepts; PSS reports an encoding error when an
  eighth of the octets of the modulus is too few for its block, and writes beyond its array otherwise.\<close>

theorem masked_paddings_fail:
  assumes "digests evp" and "r = new_rsa N v" and "rsa_k r < 2 ^ 32" and "length L < 2 ^ 61" and "length M' < 2 ^ 61"
    and "length M + 2 * sha_size v + 2 \<le> rsa_k r" and "draws draw"
    and "draw t (sha_size v) = ret seed" and "\<And>name n. length (stack name n) = n"
  shows "RSAES_OAEP_Encrypt evp stack draw t r n e M L C = throw OutOfBounds \<and>
    RSASSA_PSS_Sign evp stack draw t r n d M' S =
      (if (rsa_k r - 1) div 8 < 2 * sha_size v + 2 then crypto ''encoding error'' else throw OutOfBounds)"
proof
  have r: "rsa_hLen r = sha_size v" "rsa_sLen r = sha_size v" "rsa_HV r = v" using assms(2) by (simp_all add: new_rsa_def)
  have v: "0 < sha_size v" "sha_size v \<le> 64" using sha_size_bounds [of v] by simp_all
  have seed: "length seed = sha_size v" "SGF draw t (sha_size v) = ret seed"
    using assms(7,8) v by (auto simp: draws_def SGF_def)
  note F = MGF_fails [OF assms(1) _ _ _ assms(9)]
  obtain H where H: "Hash evp r L = ret H" using Hash_ok [OF assms(1,4)] by blast
  have "MGF evp stack r seed (rsa_k r - sha_size v - 1) = throw OutOfBounds"
    by (rule F) (use r v seed assms(3) in simp_all)
  then show "RSAES_OAEP_Encrypt evp stack draw t r n e M L C = throw OutOfBounds"
    using H seed(2) assms(6) by (simp add: RSAES_OAEP_Encrypt_def EME_OAEP_Encode_def r Let_def)
  obtain mH where mH: "Hash evp r M' = ret mH" "length mH = sha_size v" using Hash_ok [OF assms(1,5), of r] r(3) by auto
  have "length (replicate 8 0 @ mH @ seed) < 2 ^ 61" using mH(2) seed(1) v(2) by simp
  then obtain H' where H': "Hash evp r (replicate 8 0 @ mH @ seed) = ret H'" "length H' = sha_size v"
    using Hash_ok [OF assms(1)] r(3) by metis
  have "MGF evp stack r H' ((rsa_k r - 1) div 8 - sha_size v - 1) = throw OutOfBounds"
    by (rule F) (use r v H' assms(3) in simp_all)
  then show "RSASSA_PSS_Sign evp stack draw t r n d M' S =
      (if (rsa_k r - 1) div 8 < 2 * sha_size v + 2 then crypto ''encoding error'' else throw OutOfBounds)"
    using mH(1) seed(2) H'(1) by (simp add: RSASSA_PSS_Sign_def EMSA_PSS_Encode_def r Let_def crypto_def)
qed

lemma masked_paddings_fail_witness:
  "RSAES_OAEP_Encrypt sample_evp sample_stack sample_source 0 (new_rsa 1024 SHA1) (full_modulus 32) (bi_lit 1) [] []
     (replicate 128 0) = throw OutOfBounds \<and>
   RSASSA_PSS_Sign sample_evp sample_stack sample_source 0 (new_rsa 1024 SHA1) (full_modulus 32) (bi_lit 1) [] (replicate 128 0) =
     crypto ''encoding error''"
  using masked_paddings_fail [OF sample_digests refl, of 1024 SHA1 "[]" "[]" "[]" sample_source 0 "replicate 20 1" sample_stack]
  by (simp add: new_rsa_def draws_def sample_source_def sample_stack_def)

end
