(* ===== verification/RSA_Keys.thy ===== *)
theory RSA_Keys
  imports RSA_Padding
begin

text \<open>
  \<open>Cryptography/rsa.cpp\<close>, the keys: the search for a prime and the two generators. The words the searches draw are
  \<open>entropy t n\<close>, the \<open>n\<close> words of the draw number \<open>t\<close>; \<open>tries\<close> counts the candidates, as a natural number.
\<close>

section \<open>The table of small primes\<close>

definition prime_numbers :: "nat list" where
  "prime_numbers = [
    2, 3, 5, 7, 11, 13, 17, 19, 23, 29, 31, 37, 41, 43, 47, 53, 59, 61, 67, 71, 73, 79, 83, 89, 97, 101, 103, 107,
    109, 113, 127, 131, 137, 139, 149, 151, 157, 163, 167, 173, 179, 181, 191, 193, 197, 199, 211, 223, 227, 229, 233,
    239, 241, 251, 257, 263, 269, 271, 277, 281, 283, 293, 307, 311, 313, 317, 331, 337, 347, 349, 353, 359, 367, 373,
    379, 383, 389, 397, 401, 409, 419, 421, 431, 433, 439, 443, 449, 457, 461, 463, 467, 479, 487, 491, 499, 503, 509,
    521, 523, 541, 547, 557, 563, 569, 571, 577, 587, 593, 599, 601, 607, 613, 617, 619, 631, 641, 643, 647, 653, 659,
    661, 673, 677, 683, 691, 701, 709, 719, 727, 733, 739, 743, 751, 757, 761, 769, 773, 787, 797, 809, 811, 821, 823,
    827, 829, 839, 853, 857, 859, 863, 877, 881, 883, 887, 907, 911, 919, 929, 937, 941, 947, 953, 967, 971, 977, 983,
    991, 997, 1009, 1013, 1019, 1021, 1031, 1033, 1039, 1049, 1051, 1061, 1063, 1069, 1087, 1091, 1093, 1097, 1103,
    1109, 1117, 1123, 1129, 1151, 1153, 1163, 1171, 1181, 1187, 1193, 1201, 1213, 1217, 1223, 1229, 1231, 1237, 1249,
    1259, 1277, 1279, 1283, 1289, 1291, 1297, 1301, 1303, 1307, 1319, 1321, 1327, 1361, 1367, 1373, 1381, 1399, 1409,
    1423, 1427, 1429, 1433, 1439, 1447, 1451, 1453, 1459, 1471, 1481, 1483, 1487, 1489, 1493, 1499, 1511, 1523, 1531,
    1543, 1549, 1553, 1559, 1567, 1571, 1579, 1583, 1597, 1601, 1607, 1609, 1613, 1619, 1621, 1627, 1637, 1657, 1663,
    1667, 1669, 1693, 1697, 1699, 1709, 1721, 1723, 1733, 1741, 1747, 1753, 1759, 1777, 1783, 1787, 1789, 1801, 1811,
    1823, 1831, 1847, 1861, 1867, 1871, 1873, 1877, 1879, 1889, 1901, 1907, 1913, 1931, 1933, 1949, 1951, 1973, 1979,
    1987, 1993, 1997, 1999, 2003, 2011, 2017, 2027, 2029, 2039, 2053, 2063, 2069, 2081, 2083, 2087, 2089, 2099, 2111,
    2113, 2129, 2131, 2137, 2141, 2143, 2153, 2161, 2179, 2203, 2207, 2213, 2221, 2237, 2239, 2243, 2251, 2267, 2269,
    2273, 2281, 2287, 2293, 2297, 2309, 2311, 2333, 2339, 2341, 2347, 2351, 2357, 2371, 2377, 2381, 2383, 2389, 2393,
    2399, 2411, 2417, 2423, 2437, 2441, 2447, 2459, 2467, 2473, 2477, 2503, 2521, 2531, 2539, 2543, 2549, 2551, 2557,
    2579, 2591, 2593, 2609, 2617, 2621, 2633, 2647, 2657, 2659, 2663, 2671, 2677, 2683, 2687, 2689, 2693, 2699, 2707,
    2711, 2713, 2719, 2729, 2731, 2741, 2749, 2753, 2767, 2777, 2789, 2791, 2797, 2801, 2803, 2819, 2833, 2837, 2843,
    2851, 2857, 2861, 2879, 2887, 2897, 2903, 2909, 2917, 2927, 2939, 2953, 2957, 2963, 2969, 2971, 2999, 3001, 3011,
    3019, 3023, 3037, 3041, 3049, 3061, 3067, 3079, 3083, 3089, 3109, 3119, 3121, 3137, 3163, 3167, 3169, 3181, 3187,
    3191, 3203, 3209, 3217, 3221, 3229, 3251, 3253, 3257, 3259, 3271, 3299, 3301, 3307, 3313, 3319, 3323, 3329, 3331,
    3343, 3347, 3359, 3361, 3371, 3373, 3389, 3391, 3407, 3413, 3433, 3449, 3457, 3461, 3463, 3467, 3469, 3491, 3499,
    3511, 3517, 3527, 3529, 3533, 3539, 3541, 3547, 3557, 3559, 3571, 3581, 3583, 3593, 3607, 3613, 3617, 3623, 3631,
    3637, 3643, 3659, 3671, 3673, 3677, 3691, 3697, 3701, 3709, 3719, 3727, 3733, 3739, 3761, 3767, 3769, 3779, 3793,
    3797, 3803, 3821, 3823, 3833, 3847, 3851, 3853, 3863, 3877, 3881, 3889, 3907, 3911, 3917, 3919, 3923, 3929, 3931,
    3943, 3947, 3967, 3989, 4001, 4003, 4007, 4013, 4019, 4021, 4027, 4049, 4051, 4057, 4073, 4079, 4091, 4093, 4099,
    4111, 4127, 4129, 4133, 4139, 4153, 4157, 4159, 4177, 4201, 4211, 4217, 4219, 4229, 4231, 4241, 4243, 4253, 4259,
    4261, 4271, 4273, 4283, 4289, 4297, 4327, 4337, 4339, 4349, 4357, 4363, 4373, 4391, 4397, 4409, 4421, 4423, 4441,
    4447, 4451, 4457, 4463, 4481, 4483, 4493, 4507, 4513, 4517, 4519, 4523, 4547, 4549, 4561, 4567, 4583, 4591, 4597,
    4603, 4621, 4637, 4639, 4643, 4649, 4651, 4657, 4663, 4673, 4679, 4691, 4703, 4721, 4723, 4729, 4733, 4751, 4759,
    4783, 4787, 4789, 4793, 4799, 4801, 4813, 4817, 4831, 4861, 4871, 4877, 4889, 4903, 4909, 4919, 4931, 4933, 4937,
    4943, 4951, 4957, 4967, 4969, 4973, 4987, 4993, 4999, 5003, 5009, 5011, 5021, 5023, 5039, 5051, 5059, 5077, 5081,
    5087, 5099, 5101, 5107, 5113, 5119, 5147, 5153, 5167, 5171, 5179, 5189, 5197, 5209, 5227, 5231, 5233, 5237, 5261,
    5273, 5279, 5281, 5297, 5303, 5309, 5323, 5333, 5347, 5351, 5381, 5387, 5393, 5399, 5407, 5413, 5417, 5419, 5431,
    5437, 5441, 5443, 5449, 5471, 5477, 5479, 5483, 5501, 5503, 5507, 5519, 5521, 5527, 5531, 5557, 5563, 5569, 5573,
    5581, 5591, 5623, 5639, 5641, 5647, 5651, 5653, 5657, 5659, 5669, 5683, 5689, 5693, 5701, 5711, 5717, 5737, 5741,
    5743, 5749, 5779, 5783, 5791, 5801, 5807, 5813, 5821, 5827, 5839, 5843, 5849, 5851, 5857, 5861, 5867, 5869, 5879,
    5881, 5897, 5903, 5923, 5927, 5939, 5953, 5981, 5987, 6007, 6011, 6029, 6037, 6043, 6047, 6053, 6067, 6073, 6079,
    6089, 6091, 6101, 6113, 6121, 6131, 6133, 6143, 6151, 6163, 6173, 6197, 6199, 6203, 6211, 6217, 6221, 6229, 6247,
    6257, 6263, 6269, 6271, 6277, 6287, 6299, 6301, 6311, 6317, 6323, 6329, 6337, 6343, 6353, 6359, 6361, 6367, 6373,
    6379, 6389, 6397, 6421, 6427, 6449, 6451, 6469, 6473, 6481, 6491, 6521, 6529, 6547, 6551, 6553, 6563, 6569, 6571,
    6577, 6581, 6599, 6607, 6619, 6637, 6653, 6659, 6661, 6673, 6679, 6689, 6691, 6701, 6703, 6709, 6719, 6733, 6737,
    6761, 6763, 6779, 6781, 6791, 6793, 6803, 6823, 6827, 6829, 6833, 6841, 6857, 6863, 6869, 6871, 6883, 6899, 6907,
    6911, 6917, 6947, 6949, 6959, 6961, 6967, 6971, 6977, 6983, 6991, 6997, 7001, 7013, 7019, 7027, 7039, 7043, 7057,
    7069, 7079, 7103, 7109, 7121, 7127, 7129, 7151, 7159, 7177, 7187, 7193, 7207, 7211, 7213, 7219, 7229, 7237, 7243,
    7247, 7253, 7283, 7297, 7307, 7309, 7321, 7331, 7333, 7349, 7351, 7369, 7393, 7411, 7417, 7433, 7451, 7457, 7459,
    7477, 7481, 7487, 7489, 7499, 7507, 7517, 7523, 7529, 7537, 7541, 7547, 7549, 7559, 7561, 7573, 7577, 7583, 7589,
    7591, 7603, 7607, 7621, 7639, 7643, 7649, 7669, 7673, 7681, 7687, 7691, 7699, 7703, 7717, 7723, 7727, 7741, 7753,
    7757, 7759, 7789, 7793, 7817, 7823, 7829, 7841, 7853, 7867, 7873, 7877, 7879, 7883, 7901, 7907, 7919, 7927, 7933,
    7937, 7949, 7951, 7963, 7993, 8009, 8011, 8017, 8039, 8053, 8059, 8069, 8081, 8087, 8089, 8093, 8101, 8111, 8117,
    8123, 8147, 8161, 8167, 8171, 8179, 8191, 8209, 8219, 8221, 8231, 8233, 8237, 8243, 8263, 8269, 8273, 8287, 8291,
    8293, 8297, 8311, 8317, 8329, 8353, 8363, 8369, 8377, 8387, 8389, 8419, 8423, 8429, 8431, 8443, 8447, 8461, 8467,
    8501, 8513, 8521, 8527, 8537, 8539, 8543, 8563, 8573, 8581, 8597, 8599, 8609, 8623, 8627, 8629, 8641, 8647, 8663,
    8669, 8677, 8681, 8689, 8693, 8699, 8707, 8713, 8719, 8731, 8737, 8741, 8747, 8753, 8761, 8779, 8783, 8803, 8807,
    8819, 8821, 8831, 8837, 8839, 8849, 8861, 8863, 8867, 8887, 8893, 8923, 8929, 8933, 8941, 8951, 8963, 8969, 8971,
    8999, 9001, 9007, 9011, 9013, 9029, 9041, 9043, 9049, 9059, 9067, 9091, 9103, 9109, 9127, 9133, 9137, 9151, 9157,
    9161, 9173, 9181, 9187, 9199, 9203, 9209, 9221, 9227, 9239, 9241, 9257, 9277, 9281, 9283, 9293, 9311, 9319, 9323,
    9337, 9341, 9343, 9349, 9371, 9377, 9391, 9397, 9403, 9413, 9419, 9421, 9431, 9433, 9437, 9439, 9461, 9463, 9467,
    9473, 9479, 9491, 9497, 9511, 9521, 9533, 9539, 9547, 9551, 9587, 9601, 9613, 9619, 9623, 9629, 9631, 9643, 9649,
    9661, 9677, 9679, 9689, 9697, 9719, 9721, 9733, 9739, 9743, 9749, 9767, 9769, 9781, 9787, 9791, 9803, 9811, 9817,
    9829, 9833, 9839, 9851, 9857, 9859, 9871, 9883, 9887, 9901, 9907, 9923, 9929, 9931, 9941, 9949, 9967, 9973, 10007,
    10009, 10037, 10039, 10061, 10067, 10069, 10079, 10091, 10093, 10099, 10103, 10111, 10133, 10139, 10141, 10151,
    10159, 10163, 10169, 10177, 10181, 10193, 10211, 10223, 10243, 10247, 10253, 10259, 10267, 10271, 10273, 10289,
    10301, 10303, 10313, 10321, 10331, 10333, 10337, 10343, 10357, 10369, 10391, 10399, 10427, 10429, 10433, 10453,
    10457, 10459, 10463, 10477, 10487, 10499, 10501, 10513, 10529, 10531, 10559, 10567, 10589, 10597, 10601, 10607,
    10613, 10627, 10631, 10639, 10651, 10657, 10663, 10667, 10687, 10691, 10709, 10711, 10723, 10729, 10733, 10739,
    10753, 10771, 10781, 10789, 10799, 10831, 10837, 10847, 10853, 10859, 10861, 10867, 10883, 10889, 10891, 10903,
    10909, 10937, 10939, 10949, 10957, 10973, 10979, 10987, 10993, 11003, 11027, 11047, 11057, 11059, 11069, 11071,
    11083, 11087, 11093, 11113, 11117, 11119, 11131, 11149, 11159, 11161, 11171, 11173, 11177, 11197, 11213, 11239,
    11243, 11251, 11257, 11261, 11273, 11279, 11287, 11299, 11311, 11317, 11321, 11329, 11351, 11353, 11369, 11383,
    11393, 11399, 11411, 11423, 11437, 11443, 11447, 11467, 11471, 11483, 11489, 11491, 11497, 11503, 11519, 11527,
    11549, 11551, 11579, 11587, 11593, 11597, 11617, 11621, 11633, 11657, 11677, 11681, 11689, 11699, 11701, 11717,
    11719, 11731, 11743, 11777, 11779, 11783, 11789, 11801, 11807, 11813, 11821, 11827, 11831, 11833, 11839, 11863,
    11867, 11887, 11897, 11903, 11909, 11923, 11927, 11933, 11939, 11941, 11953, 11959, 11969, 11971, 11981, 11987,
    12007, 12011, 12037, 12041, 12043, 12049, 12071, 12073, 12097, 12101, 12107, 12109, 12113, 12119, 12143, 12149,
    12157, 12161, 12163, 12197, 12203, 12211, 12227, 12239, 12241, 12251, 12253, 12263, 12269, 12277, 12281, 12289,
    12301, 12323, 12329, 12343, 12347, 12373, 12377, 12379, 12391, 12401, 12409, 12413, 12421, 12433, 12437, 12451,
    12457, 12473, 12479, 12487, 12491, 12497, 12503, 12511, 12517, 12527, 12539, 12541, 12547, 12553, 12569, 12577,
    12583, 12589, 12601, 12611, 12613, 12619, 12637, 12641, 12647, 12653, 12659, 12671, 12689, 12697, 12703, 12713,
    12721, 12739, 12743, 12757, 12763, 12781, 12791, 12799, 12809, 12821, 12823, 12829, 12841, 12853, 12889, 12893,
    12899, 12907, 12911, 12917, 12919, 12923, 12941, 12953, 12959, 12967, 12973, 12979, 12983, 13001, 13003, 13007,
    13009, 13033, 13037, 13043, 13049, 13063, 13093, 13099, 13103, 13109, 13121, 13127, 13147, 13151, 13159, 13163,
    13171, 13177, 13183, 13187, 13217, 13219, 13229, 13241, 13249, 13259, 13267, 13291, 13297, 13309, 13313, 13327,
    13331, 13337, 13339, 13367, 13381, 13397, 13399, 13411, 13417, 13421, 13441, 13451, 13457, 13463, 13469, 13477,
    13487, 13499, 13513, 13523, 13537, 13553, 13567, 13577, 13591, 13597, 13613, 13619, 13627, 13633, 13649, 13669,
    13679, 13681, 13687, 13691, 13693, 13697, 13709, 13711, 13721, 13723, 13729, 13751, 13757, 13759, 13763, 13781,
    13789, 13799, 13807, 13829, 13831, 13841, 13859, 13873, 13877, 13879, 13883, 13901, 13903, 13907, 13913, 13921,
    13931, 13933, 13963, 13967, 13997, 13999, 14009, 14011, 14029, 14033, 14051, 14057, 14071, 14081, 14083, 14087,
    14107, 14143, 14149, 14153, 14159, 14173, 14177, 14197, 14207, 14221, 14243, 14249, 14251, 14281, 14293, 14303,
    14321, 14323, 14327, 14341, 14347, 14369, 14387, 14389, 14401, 14407, 14411, 14419, 14423, 14431, 14437, 14447,
    14449, 14461, 14479, 14489, 14503, 14519, 14533, 14537, 14543, 14549, 14551, 14557, 14561, 14563, 14591, 14593,
    14621, 14627, 14629, 14633, 14639, 14653, 14657, 14669, 14683, 14699, 14713, 14717, 14723, 14731, 14737, 14741,
    14747, 14753, 14759, 14767, 14771, 14779, 14783, 14797, 14813, 14821, 14827, 14831, 14843, 14851, 14867, 14869,
    14879, 14887, 14891, 14897, 14923, 14929, 14939, 14947, 14951, 14957, 14969, 14983, 15013, 15017, 15031, 15053,
    15061, 15073, 15077, 15083, 15091, 15101, 15107, 15121, 15131, 15137, 15139, 15149, 15161, 15173, 15187, 15193,
    15199, 15217, 15227, 15233, 15241, 15259, 15263, 15269, 15271, 15277, 15287, 15289, 15299, 15307, 15313, 15319,
    15329, 15331, 15349, 15359, 15361, 15373, 15377, 15383, 15391, 15401, 15413, 15427, 15439, 15443, 15451, 15461,
    15467, 15473, 15493, 15497, 15511, 15527, 15541, 15551, 15559, 15569, 15581, 15583, 15601, 15607, 15619, 15629,
    15641, 15643, 15647, 15649, 15661, 15667, 15671, 15679, 15683, 15727, 15731, 15733, 15737, 15739, 15749, 15761,
    15767, 15773, 15787, 15791, 15797, 15803, 15809, 15817, 15823, 15859, 15877, 15881, 15887, 15889, 15901, 15907,
    15913, 15919, 15923, 15937, 15959, 15971, 15973, 15991, 16001, 16007, 16033, 16057, 16061, 16063, 16067, 16069,
    16073, 16087, 16091, 16097, 16103, 16111, 16127, 16139, 16141, 16183, 16187, 16189, 16193, 16217, 16223, 16229,
    16231, 16249, 16253, 16267, 16273, 16301, 16319, 16333, 16339, 16349, 16361, 16363, 16369, 16381, 16411, 16417,
    16421, 16427, 16433, 16447, 16451, 16453, 16477, 16481, 16487, 16493, 16519, 16529, 16547, 16553, 16561, 16567,
    16573, 16603, 16607, 16619, 16631, 16633, 16649, 16651, 16657, 16661, 16673, 16691, 16693, 16699, 16703, 16729,
    16741, 16747, 16759, 16763, 16787, 16811, 16823, 16829, 16831, 16843, 16871, 16879, 16883, 16889, 16901, 16903,
    16921, 16927, 16931, 16937, 16943, 16963, 16979, 16981, 16987, 16993, 17011, 17021, 17027, 17029, 17033, 17041,
    17047, 17053, 17077, 17093, 17099, 17107, 17117, 17123, 17137, 17159, 17167, 17183, 17189, 17191, 17203, 17207,
    17209, 17231, 17239, 17257, 17291, 17293, 17299, 17317, 17321, 17327, 17333, 17341, 17351, 17359, 17377, 17383,
    17387, 17389]"

definition primes :: "bigint list" where
  "primes = map (\<lambda>n. bi_lit (of_nat n)) prime_numbers"

section \<open>The search for a prime\<close>

type_synonym words_source = "nat \<Rightarrow> nat \<Rightarrow> word_t list"

fun trial_division :: "bigint \<Rightarrow> bigint list \<Rightarrow> bool run" where
  "trial_division p [] = ret True"
| "trial_division p (x # xs) =
     bind_run (bi_modulo p x) (\<lambda>r. if bi_is_zero r then ret False else trial_division p xs)"

text \<open>The \<open>while\<close> loop of a round: whether \<open>p\<close> survives it.\<close>

partial_function (option) squarings :: "bigint \<Rightarrow> bigint \<Rightarrow> bigint \<Rightarrow> bigint \<Rightarrow> bigint \<Rightarrow> bool run" where
  "squarings b j v p p_1 =
     (if bi_neq b p_1 then
        bind_run (lift (bi_add j (bi_lit 1))) (\<lambda>j.
        if bi_eq j v then ret False
        else
          bind_run (bi_mod_pow b (bi_lit 2) p) (\<lambda>b.
          if bi_eq b (bi_lit 1) then ret False else squarings b j v p p_1))
      else ret True)"

fun prime_rounds :: "words_source \<Rightarrow> nat \<Rightarrow> nat \<Rightarrow> bigint \<Rightarrow> bigint \<Rightarrow> bigint \<Rightarrow> bigint \<Rightarrow> (bool \<times> nat) run" where
  "prime_rounds entropy t 0 w v p p_1 = ret (True, t)"
| "prime_rounds entropy t (Suc n) w v p p_1 =
     bind_run (bi_rand_range (entropy t) (bi_lit 1) p_1) (\<lambda>a.
     bind_run (bi_mod_pow a w p) (\<lambda>b.
     if bi_eq b (bi_lit 1) \<or> bi_eq b p_1 then prime_rounds entropy (t + 1) n w v p p_1
     else
       bind_run (squarings b (bi_lit 0) v p p_1) (\<lambda>isPrime.
       if \<not> isPrime then ret (False, t + 1) else prime_rounds entropy (t + 1) n w v p p_1)))"

text \<open>The body of the search for one candidate, the value of \<open>isPrime\<close> it ends with: the \<open>continue\<close> of the C++ goes
  to the test of the \<open>do\<close> loop.\<close>

definition candidate :: "words_source \<Rightarrow> nat \<Rightarrow> bigint \<Rightarrow> bigint \<Rightarrow> (bool \<times> nat) run" where
  "candidate entropy t e p =
     bind_run (lift (bi_sub p (bi_lit 1))) (\<lambda>p_1.
     bind_run (trial_division p primes) (\<lambda>isPrime.
     if \<not> isPrime then ret (isPrime, t)
     else
       bind_run (bi_gcd p_1 e) (\<lambda>g.
       if bi_neq g (bi_lit 1) then ret (isPrime, t)
       else bind_run (bi_binary_gcd p_1 p_1) (\<lambda>(w, v). prime_rounds entropy t 64 w v p p_1))))"

partial_function (option) prime_search ::
  "words_source \<Rightarrow> nat \<Rightarrow> bigint \<Rightarrow> bigint \<Rightarrow> nat \<Rightarrow> (bigint \<times> nat \<times> nat) run" where
  "prime_search entropy t e p tries =
     bind_run (lift (bi_add p (bi_lit 2))) (\<lambda>p.
     bind_run (candidate entropy t e p) (\<lambda>(isPrime, t).
     if isPrime then ret (p, tries + 1, t) else prime_search entropy t e p (tries + 1)))"

partial_function (option) PG ::
  "words_source \<Rightarrow> nat \<Rightarrow> bigint \<Rightarrow> bigint \<Rightarrow> bigint \<Rightarrow> nat \<Rightarrow> (bigint \<times> nat \<times> nat) run" where
  "PG entropy t e r s tries =
     bind_run (lift (bi_sub r (bi_lit 2))) (\<lambda>r2.
     bind_run (lift (bi_sub s (bi_lit 2))) (\<lambda>s2.
     bind_run (bi_rand_range (entropy t) r2 s2) (\<lambda>p.
     bind_run (if bi_is_even p then lift (bi_add p (bi_lit 1)) else ret p) (\<lambda>p.
     bind_run (prime_search entropy (t + 1) e p tries) (\<lambda>(p, tries, t).
     if bi_greater p s then PG entropy t e r s tries else ret (p, tries, t))))))"

section \<open>Keys\<close>

definition key_bounds :: "rsa \<Rightarrow> (bigint \<times> bigint) run" where
  "key_bounds r =
     bind_run (bi_pow (bi_lit 2) (bi_of_int64 (of_nat ((rsa_N r - 1) div 2)))) (\<lambda>lo.
     bind_run (lift (bi_add lo (bi_lit 1))) (\<lambda>lo.
     bind_run (bi_pow (bi_lit 2) (bi_of_int64 (of_nat (rsa_N r div 2)))) (\<lambda>hi.
     bind_run (lift (bi_sub hi (bi_lit 1))) (\<lambda>hi. ret (lo, hi)))))"

definition RSAKG :: "words_source \<Rightarrow> nat \<Rightarrow> rsa \<Rightarrow> bigint \<Rightarrow> (bigint \<times> bigint \<times> bigint \<times> bigint \<times> nat) run" where
  "RSAKG entropy t r e =
     bind_run (key_bounds r) (\<lambda>(lo, hi).
     bind_run (PG entropy t e lo hi 0) (\<lambda>(p, tries, t).
     bind_run (PG entropy t e lo hi tries) (\<lambda>(q, tries, t).
     bind_run (lift (bi_mul p q)) (\<lambda>n.
     bind_run (lift (bi_sub p (bi_lit 1))) (\<lambda>p_1.
     bind_run (lift (bi_sub q (bi_lit 1))) (\<lambda>q_1.
     bind_run (bi_lcm p_1 q_1) (\<lambda>l.
     bind_run (bi_inverse e l) (\<lambda>d. ret (p, q, n, d, tries)))))))))"

definition RSAKG_crt ::
  "words_source \<Rightarrow> nat \<Rightarrow> rsa \<Rightarrow> bigint \<Rightarrow>
    (bigint \<times> bigint \<times> bigint \<times> bigint \<times> bigint \<times> bigint \<times> bigint \<times> nat) run" where
  "RSAKG_crt entropy t r e =
     bind_run (RSAKG entropy t r e) (\<lambda>(p, q, n, d, tries).
     bind_run (lift (bi_sub p (bi_lit 1))) (\<lambda>p_1.
     bind_run (bi_inverse e p_1) (\<lambda>dP.
     bind_run (lift (bi_sub q (bi_lit 1))) (\<lambda>q_1.
     bind_run (bi_inverse e q_1) (\<lambda>dQ.
     bind_run (bi_inverse q p) (\<lambda>qInv. ret (p, q, dP, dQ, qInv, n, d, tries)))))))"

section \<open>Trial division\<close>

lemma table_bounds: "list_all (\<lambda>n. 1 < n \<and> n < 17390) prime_numbers"
  by (simp add: prime_numbers_def)

lemma table_entry:
  assumes "n \<in> set prime_numbers"
  shows "1 < n" and "n < 17390" and "ival (bi_lit (of_nat n)) = int n" and "bi_small (bi_lit (of_nat n))"
proof -
  show b: "1 < n" "n < 17390" using table_bounds assms by (auto simp: list_all_iff)
  have "sint (of_nat n :: 32 word) = int n"
    using b by (simp add: sint_uint uint_nat unat_of_nat take_bit_nat_eq_self signed_take_bit_int_eq_self)
  then show v: "ival (bi_lit (of_nat n)) = int n" by (simp add: bi_lit_def bi_of_int32_value)
  have "n < BASE" using b by (simp add: BASE_def)
  also have "BASE \<le> BASE ^ 255" using self_le_power [of BASE 255] BASE_gt by simp
  finally show "bi_small (bi_lit (of_nat n))" by (simp add: bi_small_iff v)
qed

lemma trial_division_ok:
  assumes "0 \<le> ival p"
  shows "trial_division p primes = ret (\<forall>n \<in> set prime_numbers. \<not> int n dvd ival p)"
proof -
  have "trial_division p (map (\<lambda>n. bi_lit (of_nat n)) ns) = ret (\<forall>n \<in> set ns. \<not> int n dvd ival p)"
    if "set ns \<subseteq> set prime_numbers" for ns
    using that
  proof (induction ns)
    case (Cons n ns)
    then have n: "n \<in> set prime_numbers" by simp
    obtain r where r: "bi_modulo p (bi_lit (of_nat n)) = ret r" "ival r = \<bar>ival p\<bar> mod \<bar>ival (bi_lit (of_nat n))\<bar>"
      using bi_modulo_ok [OF table_entry(4) [OF n]] table_entry(1,3) [OF n] by auto
    have "ival r = 0 \<longleftrightarrow> int n dvd ival p" using r(2) table_entry(3) [OF n] assms by (simp add: dvd_eq_mod_eq_0)
    then show ?case using r(1) Cons by simp
  qed simp
  then show ?thesis by (simp add: primes_def)
qed

section \<open>The rounds\<close>

text \<open>The test of Miller and Rabin: what it means for \<open>p\<close>, whose predecessor is \<open>w * 2 ^ v\<close> with \<open>w\<close> odd, to survive
  the base \<open>a\<close>.\<close>

definition survives :: "nat \<Rightarrow> nat \<Rightarrow> nat \<Rightarrow> nat \<Rightarrow> bool" where
  "survives p w v a \<longleftrightarrow> a ^ w mod p = 1 \<or> (\<exists>i < v. a ^ (w * 2 ^ i) mod p = p - 1)"

lemma power_mod_twice: "(x ^ a mod p) ^ b mod p = x ^ (a * b) mod (p :: nat)"
  by (simp add: power_mod power_mult)

lemma mod_pow_nat:
  assumes "2 < nat (ival p)" and "bi_small p" and "0 < ival e" and "ival b = int x"
  obtains y where "bi_mod_pow b e p = ret y" and "ival y = int (x ^ nat (ival e) mod nat (ival p))"
proof -
  have "0 < ival p" "0 \<le> ival b" using assms(1,4) by simp_all
  from bi_mod_pow_ok [OF this(1) assms(2,3) this(2)] that assms(4) show thesis by (metis nat_int)
qed

lemma squarings_ok:
  assumes "2 < P" and "ival p = int P" and "bi_small p" and "ival p_1 = int P - 1" and "ival v = int V"
  shows "jj < V \<Longrightarrow> ival j = int jj \<Longrightarrow> ival b = int x \<Longrightarrow> x < P \<Longrightarrow> x \<noteq> 1 \<Longrightarrow>
    squarings b j v p p_1 = ret (\<exists>i. jj + i < V \<and> x ^ 2 ^ i mod P = P - 1)"
proof (induction "V - jj" arbitrary: jj j b x)
  case (Suc m)
  have bn: "bi_neq b p_1 \<longleftrightarrow> x \<noteq> P - 1" using Suc.prems(3) assms(1,4) by auto
  obtain j' where j': "bi_add j (bi_lit 1) = Inr j'" "ival j' = int (jj + 1)"
    using bi_add_ok [of j "bi_lit 1"] Suc.prems(2) by auto
  obtain y where y: "bi_mod_pow b (bi_lit 2) p = ret y" "ival y = int (x\<^sup>2 mod P)"
    using mod_pow_nat [of p "bi_lit 2" b x] assms(1-3) Suc.prems(3) by auto
  have x: "x mod P = x" using Suc.prems(4) by simp
  have step: "squarings b j v p p_1 =
      (if x = P - 1 then ret True else if jj + 1 = V then ret False
       else if x\<^sup>2 mod P = 1 then ret False else squarings y j' v p p_1)"
    using bn j' y assms(5) by (subst squarings.simps) auto
  consider "x = P - 1" | "x \<noteq> P - 1" "jj + 1 = V" | "x \<noteq> P - 1" "jj + 1 < V" "x\<^sup>2 mod P = 1"
    | "x \<noteq> P - 1" "jj + 1 < V" "x\<^sup>2 mod P \<noteq> 1" using Suc.prems(1) by linarith
  then show ?case
  proof cases
    case 1
    then have "\<exists>i. jj + i < V \<and> x ^ 2 ^ i mod P = P - 1" using Suc.prems(1) x by (intro exI [of _ 0]) simp
    then show ?thesis using step 1 by simp
  next
    case 2
    have "\<not> (\<exists>i. jj + i < V \<and> x ^ 2 ^ i mod P = P - 1)"
    proof
      assume "\<exists>i. jj + i < V \<and> x ^ 2 ^ i mod P = P - 1"
      then obtain i where i: "jj + i < V" "x ^ 2 ^ i mod P = P - 1" by blast
      then have "i = 0" using 2 by linarith
      with i show False using 2 x by simp
    qed
    then show ?thesis using step 2 by simp
  next
    case 3
    have "\<not> (\<exists>i. jj + i < V \<and> x ^ 2 ^ i mod P = P - 1)"
    proof
      assume "\<exists>i. jj + i < V \<and> x ^ 2 ^ i mod P = P - 1"
      then obtain i where i: "x ^ 2 ^ i mod P = P - 1" by blast
      show False
      proof (cases i)
        case 0 then show False using i x 3 by simp
      next
        case (Suc k)
        have "x ^ 2 ^ i mod P = (x\<^sup>2 mod P) ^ 2 ^ k mod P" unfolding power_mod_twice Suc by simp
        then show False using i 3 assms(1) by simp
      qed
    qed
    then show ?thesis using step 3 by simp
  next
    case 4
    have shift: "(x\<^sup>2 mod P) ^ 2 ^ i mod P = x ^ 2 ^ Suc i mod P" for i unfolding power_mod_twice by simp
    have "squarings y j' v p p_1 = ret (\<exists>i. (jj + 1) + i < V \<and> (x\<^sup>2 mod P) ^ 2 ^ i mod P = P - 1)"
      using Suc.hyps(2) 4 j'(2) y(2) assms(1) by (intro Suc.hyps(1)) simp_all
    also have "(\<exists>i. (jj + 1) + i < V \<and> (x\<^sup>2 mod P) ^ 2 ^ i mod P = P - 1) \<longleftrightarrow> (\<exists>i. jj + i < V \<and> x ^ 2 ^ i mod P = P - 1)"
      unfolding shift
    proof
      assume "\<exists>i. jj + i < V \<and> x ^ 2 ^ i mod P = P - 1"
      then obtain i where i: "jj + i < V" "x ^ 2 ^ i mod P = P - 1" by blast
      then have "i \<noteq> 0" using 4 x by (metis power_0 power_one_right)
      then show "\<exists>i. (jj + 1) + i < V \<and> x ^ 2 ^ Suc i mod P = P - 1" using i by (metis add.assoc add.commute not0_implies_Suc plus_1_eq_Suc)
    qed (metis add.assoc plus_1_eq_Suc)
    finally show ?thesis using step 4 by simp
  qed
qed simp

definition drawn :: "words_source \<Rightarrow> nat \<Rightarrow> bigint \<Rightarrow> bigint \<Rightarrow> nat" where
  "drawn entropy t lo hi = (case bi_rand_range (entropy t) lo hi of Some (Inr a) \<Rightarrow> nat (ival a) | _ \<Rightarrow> 0)"

definition supplies :: "words_source \<Rightarrow> bool" where
  "supplies entropy \<longleftrightarrow> (\<forall>t n. length (entropy t n) = n)"

lemma drawn_ok:
  assumes "supplies entropy" and "0 < ival lo" and "ival lo < ival hi" and "bi_small hi"
  obtains a where "bi_rand_range (entropy t) lo hi = ret a" and "ival a = int (drawn entropy t lo hi)"
    and "ival lo \<le> ival a" and "ival a \<le> ival hi"
  using bi_rand_range_correct [of lo hi "entropy t"] assms by (auto simp: drawn_def ret_def supplies_def)

lemma prime_rounds_ok:
  assumes "2 < P" and "ival p = int P" and "bi_small p" and "ival p_1 = int P - 1" and "ival v = int V" and "0 < V"
    and "ival w = int W" and "0 < W" and "supplies entropy"
  shows "\<exists>t'. prime_rounds entropy t n w v p p_1 =
    ret (\<forall>k < n. survives P W V (drawn entropy (t + k) (bi_lit 1) p_1), t')"
proof (induction n arbitrary: t)
  case (Suc n)
  let ?A = "drawn entropy t (bi_lit 1) p_1"
  have small: "bi_small p_1" by (rule bi_small_mono [OF assms(3)]) (use assms(1,2,4) in simp)
  obtain a where a: "bi_rand_range (entropy t) (bi_lit 1) p_1 = ret a" "ival a = int ?A"
    using drawn_ok [OF assms(9), of "bi_lit 1" p_1 t] assms(1,4) small by auto
  obtain b where b: "bi_mod_pow a w p = ret b" "ival b = int (?A ^ W mod P)"
    using mod_pow_nat [of p w a ?A] assms(1-3,7,8) a(2) by auto
  let ?x = "?A ^ W mod P"
  have x: "?x < P" using assms(1) by simp
  have sv: "survives P W V ?A \<longleftrightarrow> ?x = 1 \<or> (\<exists>i. 0 + i < V \<and> ?x ^ 2 ^ i mod P = P - 1)"
    unfolding survives_def power_mod_twice by simp
  have all: "(\<forall>k < Suc n. survives P W V (drawn entropy (t + k) (bi_lit 1) p_1)) \<longleftrightarrow>
      survives P W V ?A \<and> (\<forall>k < n. survives P W V (drawn entropy (t + 1 + k) (bi_lit 1) p_1))"
    by (simp add: All_less_Suc2)
  obtain t' where IH: "prime_rounds entropy (t + 1) n w v p p_1 =
      ret (\<forall>k < n. survives P W V (drawn entropy (t + 1 + k) (bi_lit 1) p_1), t')" using Suc by blast
  have b1: "bi_eq b p_1 \<longleftrightarrow> ?x = P - 1" using b(2) assms(1,4) by auto
  show ?case
  proof (cases "?x = 1 \<or> ?x = P - 1")
    case True
    have "survives P W V ?A" unfolding sv using True assms(6) x by (auto intro!: exI [of _ 0])
    then show ?thesis using a(1) b b1 True IH unfolding all by auto
  next
    case False
    have "squarings b (bi_lit 0) v p p_1 = ret (survives P W V ?A)"
      using squarings_ok [OF assms(1-5,6), of "bi_lit 0" b ?x] b(2) x False sv by simp
    then show ?thesis using a(1) b b1 False IH unfolding all by auto
  qed
qed simp

section \<open>A candidate\<close>

text \<open>When the search stops at \<open>p\<close>: no prime of the table divides it, and it survives sixty-four bases drawn from
  \<open>1\<close> to \<open>p - 1\<close>, unless \<open>p - 1\<close> has a factor in common with the exponent.\<close>

definition rounds_passed :: "words_source \<Rightarrow> nat \<Rightarrow> bigint \<Rightarrow> bool" where
  "rounds_passed entropy t p \<longleftrightarrow>
     (\<exists>w v p_1. ival p = int (w * 2 ^ v) + 1 \<and> odd w \<and> bi_sub p (bi_lit 1) = Inr p_1 \<and>
       (\<forall>k < 64. survives (nat (ival p)) w v (drawn entropy (t + k) (bi_lit 1) p_1)))"

lemma rounds_passedI:
  assumes "ival p = int (w * 2 ^ v) + 1" and "odd w" and "bi_sub p (bi_lit 1) = Inr p_1" and "nat (ival p) = P"
    and "\<forall>k < 64. survives P w v (drawn entropy (t + k) (bi_lit 1) p_1)"
  shows "rounds_passed entropy t p"
  unfolding rounds_passed_def assms(4) using assms(1-3,5) by blast

definition accepted :: "words_source \<Rightarrow> nat \<Rightarrow> bigint \<Rightarrow> bigint \<Rightarrow> bool" where
  "accepted entropy t e p \<longleftrightarrow>
     (\<forall>n \<in> set prime_numbers. \<not> int n dvd ival p) \<and>
     (coprime (ival p - 1) (ival e) \<longrightarrow> rounds_passed entropy t p)"

lemma odd_part_le:
  assumes "w * 2 ^ v = w' * 2 ^ v'" and "odd (w' :: nat)"
  shows "v \<le> v'"
proof (rule ccontr)
  assume "\<not> v \<le> v'"
  then obtain k where "v = v' + Suc k" by (metis add_Suc_right less_imp_Suc_add not_le)
  then have "w' = w * 2 ^ Suc k" using assms(1) by (simp add: power_add)
  then show False using assms(2) by simp
qed

lemma odd_part_unique:
  assumes "w * 2 ^ v = w' * 2 ^ v'" and "odd w" and "odd (w' :: nat)"
  shows "w = w'" and "v = v'"
proof -
  show "v = v'" using odd_part_le assms by (metis antisym)
  then show "w = w'" using assms(1) by simp
qed

lemma odd_part_ok:
  assumes "0 < ival a"
  obtains w v W V where "bi_binary_gcd a a = ret (w, v)" and "ival w = int W" and "ival v = int V" and "odd W"
    and "ival a = int (W * 2 ^ V)"
proof -
  obtain a' b' v k where st: "strip_twos a a (bi_lit 0) = ret (a', b', v)" "0 < ival a'" "0 < ival b'"
    "odd (ival a') \<or> odd (ival b')" "ival v = ival (bi_lit 0) + int k" "ival a = 2 ^ k * ival a'" "ival a = 2 ^ k * ival b'"
    using strip_twos_ok [OF assms assms, of "bi_lit 0"] by blast
  have same: "ival b' = ival a'" using st(6,7) by simp
  obtain w where w: "odd_gcd a' b' = ret w" "ival w = gcd (ival a') (ival b')" using odd_gcd_ok [OF st(2-4)] by blast
  obtain W where W: "ival a' = int W" using st(2) by (metis nonneg_int_cases less_imp_le)
  show thesis
    using st w same W by (intro that [of w v W k]) (simp_all add: bi_binary_gcd_def)
qed

lemma candidate_ok:
  assumes "supplies entropy" and "odd (ival p)" and "2 < ival p" and "bi_small p" and "0 < ival e" and "bi_small e"
  shows "\<exists>t'. candidate entropy t e p = ret (accepted entropy t e p, t')"
proof -
  obtain P where P: "ival p = int P" "2 < P" using assms(3) nonneg_int_cases [of "ival p"] by fastforce
  obtain p_1 where p_1: "bi_sub p (bi_lit 1) = Inr p_1" "ival p_1 = int P - 1" using bi_sub_ok [of p "bi_lit 1"] P(1) by auto
  have small: "bi_small p_1" by (rule bi_small_mono [OF assms(4)]) (use P p_1(2) in simp)
  have td: "trial_division p primes = ret (\<forall>n \<in> set prime_numbers. \<not> int n dvd ival p)"
    using trial_division_ok assms(3) by simp
  obtain g where g: "bi_gcd p_1 e = ret g" "ival g = gcd (int P - 1) (ival e)"
    using bi_gcd_ok [of p_1 e] p_1(2) P(2) small assms(5,6) by auto
  have cop: "bi_neq g (bi_lit 1) \<longleftrightarrow> \<not> coprime (ival p - 1) (ival e)"
    using g(2) P(1) by (simp add: coprime_iff_gcd_eq_1)
  obtain w v W V where wv: "bi_binary_gcd p_1 p_1 = ret (w, v)" "ival w = int W" "ival v = int V" "odd W"
    "ival p_1 = int (W * 2 ^ V)"
  proof -
    have "0 < ival p_1" using p_1(2) P(2) by simp
    then show thesis using odd_part_ok [of p_1] that by blast
  qed
  have "int P = int (W * 2 ^ V + 1)" using wv(5) p_1(2) by simp
  then have "P = W * 2 ^ V + 1" by (rule of_nat_eq_iff [THEN iffD1])
  then have V: "0 < V" using wv(4) assms(2) P(1) by (cases V) auto
  have W: "0 < W" using wv(4) by (cases W) auto
  obtain t' where t': "prime_rounds entropy t 64 w v p p_1 =
      ret (\<forall>k < 64. survives P W V (drawn entropy (t + k) (bi_lit 1) p_1), t')"
    using prime_rounds_ok [OF P(2,1) assms(4) p_1(2) wv(3) V wv(2) W assms(1)] by blast
  have P': "ival p = int (W * 2 ^ V) + 1" using P(1) p_1(2) wv(5) by simp
  have "(\<forall>k < 64. survives P W V (drawn entropy (t + k) (bi_lit 1) p_1)) \<longleftrightarrow> rounds_passed entropy t p" (is "?L \<longleftrightarrow> ?R")
  proof
    assume ?L
    then show ?R using rounds_passedI [OF P' wv(4) p_1(1)] P(1) by simp
  next
    assume ?R
    then obtain w' v' where wv': "ival p = int (w' * 2 ^ v') + 1" "odd w'"
      "\<forall>k < 64. survives P w' v' (drawn entropy (t + k) (bi_lit 1) p_1)"
      unfolding rounds_passed_def using p_1(1) P(1) by auto
    have "int (w' * 2 ^ v') = int (W * 2 ^ V)" using wv'(1) P' by simp
    then have "w' * 2 ^ v' = W * 2 ^ V" by (rule of_nat_eq_iff [THEN iffD1])
    from odd_part_unique [OF this wv'(2) wv(4)] show ?L using wv'(3) by simp
  qed
  then show ?thesis
    using p_1(1) td g(1) cop wv(1) t' by (auto simp: candidate_def accepted_def)
qed

text \<open>A prime that is not in the table is accepted, whatever is drawn.\<close>

lemma prime_survives:
  assumes "is_prime p" and "p = w * 2 ^ v + 1" and "0 < v" and "\<not> p dvd a"
  shows "survives p w v a"
proof (rule ccontr)
  assume n: "\<not> survives p w v a"
  have p2: "2 < p \<or> p = 2" using prime_gt_1 [OF assms(1)] by linarith
  have "a ^ (w * 2 ^ i) mod p \<noteq> 1" if "i \<le> v" for i
    using that
  proof (induction i)
    case 0
    then show ?case using n by (simp add: survives_def)
  next
    case (Suc i)
    let ?x = "a ^ (w * 2 ^ i) mod p"
    have x: "?x \<noteq> 1" "?x \<noteq> p - 1" using Suc n by (auto simp: survives_def)
    have "?x < p" using prime_gt_1 [OF assms(1)] by simp
    have "?x * ?x mod p \<noteq> 1" using prime_sqrt_one [OF assms(1) \<open>?x < p\<close>] x by blast
    moreover have "?x * ?x mod p = a ^ (w * 2 ^ Suc i) mod p"
      by (simp add: mod_mult_eq flip: power_add) (simp add: mult_2 distrib_left)
    ultimately show ?case by simp
  qed
  from this [of v] have "a ^ (p - 1) mod p \<noteq> 1" using assms(2) by simp
  then show False using fermat_one [OF assms(1,4)] by simp
qed

lemma prime_accepted:
  assumes "supplies entropy" and "is_prime P" and "17389 < P" and "ival p = int P" and "bi_small p"
  shows "accepted entropy t e p"
proof -
  have table: "\<not> int n dvd ival p" if n: "n \<in> set prime_numbers" for n
  proof
    assume "int n dvd ival p"
    then have "n dvd P" unfolding assms(4) by (simp only: int_dvd_int_iff)
    then show False using assms(2,3) table_entry(1,2) [OF n] by (auto simp: is_prime_def)
  qed
  have odd: "odd P"
  proof
    assume "even P"
    then show False using assms(2,3) by (auto simp: is_prime_def dest: spec [of _ 2])
  qed
  obtain p_1 where p_1: "bi_sub p (bi_lit 1) = Inr p_1" "ival p_1 = int P - 1" using bi_sub_ok [of p "bi_lit 1"] assms(4) by auto
  have pos: "0 < ival p_1" using p_1(2) assms(3) by simp
  obtain w v W V where wv: "odd W" "ival p_1 = int (W * 2 ^ V)" using odd_part_ok [OF pos] by metis
  have "int P = int (W * 2 ^ V + 1)" using wv(2) p_1(2) by simp
  then have P: "P = W * 2 ^ V + 1" by (rule of_nat_eq_iff [THEN iffD1])
  have V: "0 < V" using wv(1) P odd by (cases V) auto
  have small: "bi_small p_1" by (rule bi_small_mono [OF assms(5)]) (use assms(4) p_1(2) pos in simp)
  have "survives P W V (drawn entropy t' (bi_lit 1) p_1)" for t'
  proof (rule prime_survives [OF assms(2) P V])
    obtain a where "ival a = int (drawn entropy t' (bi_lit 1) p_1)" "1 \<le> ival a" "ival a \<le> int P - 1"
      using drawn_ok [OF assms(1), of "bi_lit 1" p_1 t'] small p_1(2) assms(3) by auto
    then have "0 < drawn entropy t' (bi_lit 1) p_1" "drawn entropy t' (bi_lit 1) p_1 < P" by auto
    then show "\<not> P dvd drawn entropy t' (bi_lit 1) p_1" by (auto dest: dvd_imp_le)
  qed
  then have all: "\<forall>k < 64. survives P W V (drawn entropy (t + k) (bi_lit 1) p_1)" by blast
  have "ival p = int (W * 2 ^ V) + 1" "nat (ival p) = P" using assms(4) P by (simp_all only: of_nat_add of_nat_1 nat_int)
  then have "rounds_passed entropy t p" using rounds_passedI [OF _ wv(1) p_1(1) _ all] by blast
  then show ?thesis using table by (simp add: accepted_def)
qed

section \<open>The search\<close>

lemma prime_search_ok:
  assumes "supplies entropy" and "is_prime P" and "17389 < P" and "int P < int (BASE ^ 255)" and "0 < ival e" and "bi_small e"
  shows "odd (ival p) \<Longrightarrow> 0 < ival p \<Longrightarrow> ival p < int P \<Longrightarrow>
    \<exists>p' t1 t' k. prime_search entropy t e p tries = ret (p', tries + k, t') \<and> ival p' = ival p + 2 * int k \<and> 0 < k \<and>
      ival p' \<le> int P \<and> accepted entropy t1 e p'"
proof (induction "nat (int P - ival p)" arbitrary: t p tries rule: less_induct)
  case less
  have oddP: "odd P"
  proof
    assume "even P"
    then show False using assms(2,3) by (auto simp: is_prime_def dest: spec [of _ 2])
  qed
  obtain q where q: "bi_add p (bi_lit 2) = Inr q" "ival q = ival p + 2" using bi_add_ok [of p "bi_lit 2"] by auto
  have le: "ival q \<le> int P"
  proof (rule ccontr)
    assume "\<not> ival q \<le> int P"
    then have "int P = ival p + 1" using q(2) less.prems(3) by linarith
    moreover have "odd (int P)" using oddP by simp
    ultimately show False using less.prems(1) by simp
  qed
  have small: "bi_small q" unfolding bi_small_iff using le q(2) less.prems(2) assms(4) by linarith
  obtain t2 where c: "candidate entropy t e q = ret (accepted entropy t e q, t2)"
    using candidate_ok [OF assms(1) _ _ small assms(5,6), of t] q(2) less.prems(1,2) by auto
  show ?case
  proof (cases "accepted entropy t e q")
    case True
    then have "prime_search entropy t e p tries = ret (q, tries + 1, t2)"
      using q(1) c by (subst prime_search.simps) simp
    then show ?thesis using q(2) le True by (intro exI [of _ q] exI [of _ t] exI [of _ t2] exI [of _ 1]) simp
  next
    case False
    then have ne: "ival q < int P"
      using le prime_accepted [OF assms(1-3) _ small] by (cases "ival q = int P") auto
    have step: "prime_search entropy t e p tries = prime_search entropy t2 e q (tries + 1)"
      using q(1) c False by (subst prime_search.simps) simp
    have "nat (int P - ival q) < nat (int P - ival p)" using q(2) ne by simp
    from less.hyps [OF this, of t2 "tries + 1"] obtain p' t1 t' k where IH:
      "prime_search entropy t2 e q (tries + 1) = ret (p', tries + 1 + k, t')" "ival p' = ival q + 2 * int k" "0 < k"
      "ival p' \<le> int P" "accepted entropy t1 e p'"
      using q(2) less.prems(1,2) ne by auto
    show ?thesis
      using IH step q(2) by (intro exI [of _ p'] exI [of _ t1] exI [of _ t'] exI [of _ "Suc k"]) simp
  qed
qed

section \<open>A prime in a range\<close>

text \<open>The prime \<open>P\<close> is within reach when every first candidate that can be drawn lies below it.\<close>

definition within_reach :: "words_source \<Rightarrow> bigint \<Rightarrow> bigint \<Rightarrow> nat \<Rightarrow> bool" where
  "within_reach entropy lo hi P \<longleftrightarrow>
     is_prime P \<and> 17389 < P \<and> int P \<le> ival hi \<and>
     (\<forall>t lo2 hi2. bi_sub lo (bi_lit 2) = Inr lo2 \<and> bi_sub hi (bi_lit 2) = Inr hi2 \<longrightarrow> drawn entropy t lo2 hi2 + 1 < P)"

lemma PG_ok:
  assumes "supplies entropy" and "within_reach entropy lo hi P" and "bi_small hi" and "0 < ival e" and "bi_small e"
    and "2 < ival lo" and "ival lo < ival hi"
  shows "\<exists>p t1 t' tries'. PG entropy t e lo hi tries = ret (p, tries', t') \<and> odd (ival p) \<and> ival lo - 2 < ival p \<and>
    ival p \<le> int P \<and> accepted entropy t1 e p \<and> tries < tries'"
proof -
  note P = assms(2) [unfolded within_reach_def]
  obtain lo2 where lo2: "bi_sub lo (bi_lit 2) = Inr lo2" "ival lo2 = ival lo - 2" using bi_sub_ok [of lo "bi_lit 2"] by auto
  obtain hi2 where hi2: "bi_sub hi (bi_lit 2) = Inr hi2" "ival hi2 = ival hi - 2" using bi_sub_ok [of hi "bi_lit 2"] by auto
  have small: "bi_small hi2" by (rule bi_small_mono [OF assms(3)]) (use assms(6,7) hi2(2) in simp)
  have order: "0 < ival lo2" "ival lo2 < ival hi2" using lo2(2) hi2(2) assms(6,7) by simp_all
  obtain a where a: "bi_rand_range (entropy t) lo2 hi2 = ret a" "ival a = int (drawn entropy t lo2 hi2)" "ival lo2 \<le> ival a"
    using drawn_ok [OF assms(1) order small, of t] by auto
  have "drawn entropy t lo2 hi2 + 1 < P" using P lo2(1) hi2(1) by blast
  then have aP: "ival a + 1 < int P" using a(2) by simp
  obtain b where b: "(if bi_is_even a then lift (bi_add a (bi_lit 1)) else ret a) = ret b" "odd (ival b)"
    "ival a \<le> ival b" "ival b \<le> ival a + 1"
  proof (cases "even (ival a)")
    case True
    obtain c where "bi_add a (bi_lit 1) = Inr c" "ival c = ival a + 1" using bi_add_ok [of a "bi_lit 1"] by auto
    then show thesis using that [of c] True by simp
  qed (use that [of a] in simp)
  have PB: "int P < int (BASE ^ 255)" using P assms(3) unfolding bi_small_iff by linarith
  have "0 < ival b" "ival b < int P" using a(3) b(3,4) order(1) aP by linarith+
  then obtain p t1 t' k where s: "prime_search entropy (t + 1) e b tries = ret (p, tries + k, t')" "ival p = ival b + 2 * int k"
    "0 < k" "ival p \<le> int P" "accepted entropy t1 e p"
    using prime_search_ok [OF assms(1) _ _ PB assms(4,5) b(2), of "t + 1" tries] P by blast
  have "\<not> bi_greater p hi" using s(4) P by simp
  then have "PG entropy t e lo hi tries = ret (p, tries + k, t')"
    using lo2(1) hi2(1) a(1) b(1) s(1) by (subst PG.simps) simp
  moreover have "odd (ival p)" "ival lo - 2 < ival p" using s(2,3) b(2,3) a(3) lo2(2) by auto
  ultimately show ?thesis using s by (intro exI conjI) auto
qed

section \<open>The keys that are made\<close>

lemma key_bounds_ok:
  assumes "rsa_N r < 2 ^ 63"
  shows "\<exists>lo hi. key_bounds r = ret (lo, hi) \<and> ival lo = 2 ^ ((rsa_N r - 1) div 2) + 1 \<and> ival hi = 2 ^ (rsa_N r div 2) - 1"
proof -
  let ?i = "\<lambda>n. bi_of_int64 (of_nat n)"
  have i: "ival (?i ((rsa_N r - 1) div 2)) = int ((rsa_N r - 1) div 2)" "ival (?i (rsa_N r div 2)) = int (rsa_N r div 2)"
    using assms by (intro ival_of_int64_nat; simp)+
  obtain a where a: "bi_pow (bi_lit 2) (?i ((rsa_N r - 1) div 2)) = ret a" "ival a = 2 ^ ((rsa_N r - 1) div 2)"
    using bi_pow_ok [of "bi_lit 2" "?i ((rsa_N r - 1) div 2)"] i by auto
  obtain b where b: "bi_pow (bi_lit 2) (?i (rsa_N r div 2)) = ret b" "ival b = 2 ^ (rsa_N r div 2)"
    using bi_pow_ok [of "bi_lit 2" "?i (rsa_N r div 2)"] i by auto
  obtain lo where lo: "bi_add a (bi_lit 1) = Inr lo" "ival lo = ival a + 1" using bi_add_ok [of a "bi_lit 1"] by auto
  obtain hi where hi: "bi_sub b (bi_lit 1) = Inr hi" "ival hi = ival b - 1" using bi_sub_ok [of b "bi_lit 1"] by auto
  show ?thesis using a b lo hi by (simp add: key_bounds_def)
qed

lemma key_bounds_order:
  assumes "even (rsa_N r)" and "6 \<le> rsa_N r" and "rsa_N r \<le> 8160" and "key_bounds r = ret (lo, hi)"
  shows "4 < ival lo" and "ival lo < ival hi" and "bi_small hi" and "(ival hi)\<^sup>2 < int (BASE ^ 255)"
proof -
  have "rsa_N r < 2 ^ 63" using assms(3) by simp
  then have b: "ival lo = 2 ^ ((rsa_N r - 1) div 2) + 1" "ival hi = 2 ^ (rsa_N r div 2) - 1"
    using key_bounds_ok [of r] assms(4) by (auto simp: ret_def)
  obtain m where m: "rsa_N r = 2 * m" using assms(1) by blast
  have "3 \<le> m" using assms(2) m by simp
  then obtain k where k: "m = k + 3" by (metis add.commute le_Suc_ex)
  have half: "(rsa_N r - 1) div 2 = k + 2" "rsa_N r div 2 = k + 3" using m k by simp_all
  have p: "(1 :: int) \<le> 2 ^ k" by simp
  have "ival lo = 4 * 2 ^ k + 1" "ival hi = 8 * 2 ^ k - 1" unfolding b half by (simp_all add: power_add)
  then show "4 < ival lo" "ival lo < ival hi" using p by linarith+
  have hi: "0 \<le> ival hi" "ival hi < 2 ^ m" unfolding b using m by simp_all
  have "(ival hi)\<^sup>2 < (2 ^ m)\<^sup>2" using hi by (intro power_strict_mono) simp_all
  also have "\<dots> = 2 ^ (rsa_N r)" unfolding m by (simp add: power_mult mult.commute flip: power_mult)
  also have "\<dots> \<le> 2 ^ 8160" using assms(3) by (intro power_increasing) simp_all
  also have "(2 :: int) ^ 8160 = int (BASE ^ 255)"
  proof -
    have "BASE = 2 ^ 32" by (simp add: BASE_def)
    then have "BASE ^ 255 = 2 ^ (32 * 255)" by (simp only: power_mult)
    then show ?thesis by simp
  qed
  finally show sq: "(ival hi)\<^sup>2 < int (BASE ^ 255)" .
  have "ival hi \<le> (ival hi)\<^sup>2" using hi(1) by (cases "ival hi = 0") (auto simp: power2_eq_square mult_le_cancel_left1)
  then show "bi_small hi" unfolding bi_small_iff using sq hi(1) by linarith
qed

lemma rsa_key_of_inverse:
  assumes "ival n = ival p * ival q" and "bi_small n" and "0 < ival e" and "0 < ival d"
    and "(ival d * ival e) mod lcm (ival p - 1) (ival q - 1) = 1" and "1 < lcm (ival p - 1) (ival q - 1)"
    and "is_prime (nat (ival p))" and "is_prime (nat (ival q))" and "ival p \<noteq> ival q"
  shows "rsa_key (nat (ival p)) (nat (ival q)) n e d"
proof -
  have pq: "1 < ival p" "1 < ival q" using prime_gt_1 [OF assms(7)] prime_gt_1 [OF assms(8)] by simp_all
  let ?l = "lcm (nat (ival p) - 1) (nat (ival q) - 1)"
  have m1: "int (nat (ival p) - 1) = ival p - 1" "int (nat (ival q) - 1) = ival q - 1" using pq by simp_all
  have l: "int ?l = lcm (ival p - 1) (ival q - 1)" by (simp only: m1 flip: lcm_int_int_eq)
  have "int (nat (ival e * ival d)) = ival d * ival e" using assms(3,4) by (simp add: mult.commute)
  then have "int (nat (ival e * ival d) mod ?l) = 1" unfolding zmod_int l using assms(5) by simp
  moreover have "int (1 mod ?l) = 1" unfolding zmod_int l using assms(6) by simp
  ultimately have "nat (ival e * ival d) mod ?l = 1 mod ?l" by linarith
  then show ?thesis using assms pq by (simp add: rsa_key_def nat_mult_distrib eq_nat_nat_iff)
qed

lemma coprime_lcm_iff: "coprime (lcm a b) c \<longleftrightarrow> coprime (a * b) (c :: int)"
proof
  assume "coprime (lcm a b) c"
  then have "coprime a c" "coprime b c" using coprime_divisors [OF _ dvd_refl] dvd_lcm1 dvd_lcm2 by blast+
  then show "coprime (a * b) c" by (simp add: coprime_mult_left_iff)
next
  assume "coprime (a * b) c"
  then show "coprime (lcm a b) c" by (rule coprime_divisors [rotated 2]) simp_all
qed

text \<open>C23. Key generation ends when a prime lies beyond every first candidate that can be drawn. It gives two odd numbers,
  their product and an exponent inverse to \<open>e\<close>, when neither predecessor has a factor in common with \<open>e\<close>; otherwise it
  throws an exception, because the search accepts such a number instead of passing over it. When the two numbers are
  different primes, the key is one that decrypts what it encrypts.\<close>

theorem rsa_key_generation:
  assumes "supplies entropy" and "even (rsa_N r)" and "6 \<le> rsa_N r" and "rsa_N r \<le> 8160" and "0 < ival e" and "bi_small e"
    and "key_bounds r = ret (lo, hi)" and "within_reach entropy lo hi P"
  shows "\<exists>p q t1 t2. odd (ival p) \<and> odd (ival q) \<and> accepted entropy t1 e p \<and> accepted entropy t2 e q \<and>
    (if coprime ((ival p - 1) * (ival q - 1)) (ival e)
     then \<exists>n d tries. RSAKG entropy t r e = ret (p, q, n, d, tries) \<and> ival n = ival p * ival q \<and>
       (ival d * ival e) mod lcm (ival p - 1) (ival q - 1) = 1 \<and>
       (is_prime (nat (ival p)) \<and> is_prime (nat (ival q)) \<and> ival p \<noteq> ival q \<longrightarrow>
         rsa_key (nat (ival p)) (nat (ival q)) n e d)
     else RSAKG entropy t r e = throw (ArithmeticException ''coefficient is not invertible''))"
proof -
  note b = key_bounds_order [OF assms(2-4,7)]
  have "2 < ival lo" using b(1) by simp
  note gen = PG_ok [OF assms(1,8) b(3) assms(5,6) this b(2)]
  have Phi: "int P \<le> ival hi" using assms(8) by (simp add: within_reach_def)
  obtain p t1 t' n1 where p: "PG entropy t e lo hi 0 = ret (p, n1, t')" "odd (ival p)" "ival lo - 2 < ival p"
    "ival p \<le> int P" "accepted entropy t1 e p" using gen [of t 0] by blast
  obtain q t2 t'' n2 where q: "PG entropy t' e lo hi n1 = ret (q, n2, t'')" "odd (ival q)" "ival lo - 2 < ival q"
    "ival q \<le> int P" "accepted entropy t2 e q" using gen [of t' n1] by blast
  have pos: "2 < ival p" "2 < ival q" using p(3) q(3) b(1) by linarith+
  obtain n where n: "bi_mul p q = Inr n" "ival n = ival p * ival q" using bi_mul_ok [of p q] by blast
  obtain p_1 where p_1: "bi_sub p (bi_lit 1) = Inr p_1" "ival p_1 = ival p - 1" using bi_sub_ok [of p "bi_lit 1"] by auto
  obtain q_1 where q_1: "bi_sub q (bi_lit 1) = Inr q_1" "ival q_1 = ival q - 1" using bi_sub_ok [of q "bi_lit 1"] by auto
  have small: "bi_small p_1" "bi_small q_1"
    using pos p_1(2) q_1(2) p(4) q(4) Phi by (intro bi_small_mono [OF b(3)]; simp)+
  have pos1: "0 < ival p_1" "0 < ival q_1" using p_1(2) q_1(2) pos by simp_all
  obtain l where l: "bi_lcm p_1 q_1 = ret l" "ival l = lcm (ival p - 1) (ival q - 1)"
    using bi_lcm_ok [OF pos1 small] p_1(2) q_1(2) by auto
  have "ival p - 1 dvd ival l" unfolding l(2) by simp
  moreover have "0 < ival l" unfolding l(2) using pos by (simp add: lcm_pos_int)
  ultimately have l1: "1 < ival l" using pos zdvd_imp_le [of "ival p - 1" "ival l"] by linarith
  have e0: "0 \<le> ival e" using assms(5) by simp
  have cop: "coprime ((ival p - 1) * (ival q - 1)) (ival e) \<longleftrightarrow> coprime (ival e) (ival l)"
    unfolding l(2) coprime_commute [of "ival e"] coprime_lcm_iff by (rule refl)
  have run: "RSAKG entropy t r e = bind_run (bi_inverse e l) (\<lambda>d. ret (p, q, n, d, n2))"
    using assms(7) p(1) q(1) n(1) p_1(1) q_1(1) l(1) by (simp add: RSAKG_def)
  show ?thesis
  proof (cases "coprime (ival e) (ival l)")
    case True
    obtain d where d: "bi_inverse e l = ret d" "0 \<le> ival d" "(ival d * ival e) mod ival l = 1"
      using bi_inverse_ok [OF l1 e0 assms(6) True] by auto
    have d0: "0 < ival d" using d(2,3) l1 by (cases "ival d = 0") auto
    have "ival n \<le> ival hi * ival hi"
      unfolding n(2) using pos p(4) q(4) Phi by (intro mult_mono) linarith+
    moreover have "0 \<le> ival n" unfolding n(2) using pos by simp
    ultimately have "bi_small n" using b(4) unfolding bi_small_iff power2_eq_square by linarith
    then have "rsa_key (nat (ival p)) (nat (ival q)) n e d"
      if "is_prime (nat (ival p))" "is_prime (nat (ival q))" "ival p \<noteq> ival q"
      using rsa_key_of_inverse [OF n(2) _ assms(5) d0 _ _ that] d(3) l1 unfolding l(2) by blast
    then show ?thesis using p(2,5) q(2,5) cop True run d n(2) l(2) by (intro exI [of _ p] exI [of _ q]) auto
  next
    case False
    then have "bi_inverse e l = throw (ArithmeticException ''coefficient is not invertible'')"
      using bi_inverse_none [OF l1 e0 assms(6)] by blast
    then show ?thesis using p(2,5) q(2,5) cop False run by (intro exI [of _ p] exI [of _ q]) auto
  qed
qed

text \<open>A source that always draws the same word, and a prime the searches come upon.\<close>

definition sample_words :: words_source where "sample_words t n = replicate n 1073774580"

lemma sample_supplies: "supplies sample_words"
  by (simp add: supplies_def sample_words_def)

lemma is_prime_sqrt:
  assumes "1 < p" and "p < m * m" and "list_all (\<lambda>d. \<not> d dvd p) [2..<m]"
  shows "is_prime p"
proof (rule is_primeI [OF assms(1)])
  have "\<not> d dvd p" if d: "2 \<le> d" "d < p" for d
  proof
    assume "d dvd p"
    then obtain c where c: "p = d * c" by blast
    have "c dvd p" "2 \<le> c" using c d assms(1) by (auto intro!: Suc_leI elim: dvdE)
    moreover have "d < m \<or> c < m" using c assms(2) mult_le_mono [of m d m c] by linarith
    ultimately show False using assms(3) \<open>d dvd p\<close> d(1) by (auto simp: list_all_iff)
  qed
  then show "list_all (\<lambda>d. \<not> d dvd p) [2..<p]" by (simp add: list_all_iff)
qed

lemma sample_prime: "is_prime 17393"
  by (rule is_prime_sqrt [of _ 132]) (simp_all add: upt_rec)

lemma sample_reach:
  assumes "ival lo = 2 ^ 14 + 1" and "ival hi = 2 ^ 15 - 1"
  shows "within_reach sample_words lo hi 17393"
proof -
  have "drawn sample_words t lo2 hi2 = 16383"
    if "bi_sub lo (bi_lit 2) = Inr lo2" "bi_sub hi (bi_lit 2) = Inr hi2" for t lo2 hi2
  proof -
    have v: "ival lo2 = 16383" "ival hi2 = 32765"
      using bi_sub_ok [of lo "bi_lit 2"] bi_sub_ok [of hi "bi_lit 2"] that assms by auto
    then have "pval (mag lo2) = 16383" by (simp add: pval_mag_nat)
    then have "poly_length (mag lo2) \<le> 1" "\<not> poly_length (mag lo2) \<le> 0" unfolding poly_length_le_iff by (simp_all add: BASE_def)
    then have l: "poly_length (mag lo2) = 1" by simp
    let ?n = "bi_make [1073774580] False"
    have n: "bi_rand (sample_words t 1) = Inr ?n" by (simp add: bi_rand_def sample_words_def)
    have nv: "ival ?n = 1073774580" by simp
    have small: "bi_small hi2" using v BASE_gt self_le_power [of BASE 255] by (simp add: bi_small_iff BASE_def)
    obtain m where m: "rand_loop ?n lo2 hi2 = rand_loop m lo2 hi2" "ival m = 16383"
      using rand_loop_step [of hi2 ?n lo2] nv v small by auto
    have "rand_loop m lo2 hi2 = ret m" using m(2) v by (subst rand_loop.simps) simp
    then show ?thesis using l n m by (simp add: drawn_def bi_rand_range_def ret_def)
  qed
  then show ?thesis using assms sample_prime by (auto simp: within_reach_def)
qed

lemma three: "ival (bi_lit 3) = 3" "bi_small (bi_lit 3)"
proof -
  have "3 \<in> set prime_numbers" by (simp add: prime_numbers_def)
  from table_entry(3,4) [OF this] show "ival (bi_lit 3) = 3" "bi_small (bi_lit 3)" by simp_all
qed

lemma rsa_key_generation_witness:
  "(\<exists>p q n d tries. RSAKG sample_words 0 (new_rsa 30 SHA1) (bi_lit 3) = ret (p, q, n, d, tries)) \<or>
   RSAKG sample_words 0 (new_rsa 30 SHA1) (bi_lit 3) = throw (ArithmeticException ''coefficient is not invertible'')"
proof -
  let ?r = "new_rsa 30 SHA1"
  have N: "rsa_N ?r = 30" by (simp add: new_rsa_def)
  obtain lo hi where b: "key_bounds ?r = ret (lo, hi)" "ival lo = 2 ^ 14 + 1" "ival hi = 2 ^ 15 - 1"
    using key_bounds_ok [of ?r] N by auto
  show ?thesis
    using three(1) rsa_key_generation [OF sample_supplies _ _ _ _ three(2) b(1) sample_reach [OF b(2,3)], of 0] N
    by (auto split: if_splits)
qed

text \<open>The search accepts a candidate exactly when no prime of the table divides it and it either survives sixty-four
  rounds of the test of Miller and Rabin or its predecessor has a factor in common with the exponent: then it is accepted
  without a round, be it prime or not.\<close>

theorem prime_candidate:
  assumes "supplies entropy" and "odd (ival p)" and "2 < ival p" and "bi_small p" and "0 < ival e" and "bi_small e"
  shows "\<exists>t'. candidate entropy t e p = ret
    ((\<forall>n \<in> set prime_numbers. ival p mod int n \<noteq> 0) \<and>
       (coprime (ival p - 1) (ival e) \<longrightarrow> rounds_passed entropy t p), t')"
  using candidate_ok [OF assms, of t] by (simp add: accepted_def dvd_eq_mod_eq_0)

text \<open>The square of a prime, accepted for the exponent 3.\<close>

text \<open>C24. The search for a prime ends: from an odd number it never goes past a prime that is not in the table, whatever is
  drawn, and what it stops at is accepted.\<close>

theorem prime_search_returns:
  assumes "supplies entropy" and "is_prime P" and "17389 < P" and "int P < int (BASE ^ 255)" and "0 < ival e" and "bi_small e"
    and "odd (ival p)" and "0 < ival p" and "ival p < int P"
  shows "\<exists>p' t1 t' k. prime_search entropy t e p tries = ret (p', tries + k, t') \<and> ival p' = ival p + 2 * int k \<and> 0 < k \<and>
    ival p' \<le> int P \<and> accepted entropy t1 e p'"
  using assms by (rule prime_search_ok)

lemma prime_search_returns_witness:
  "\<exists>p' t' k. prime_search sample_words 0 (bi_lit 3) (bi_make [17391] False) 0 = ret (p', k, t') \<and> ival p' = 17393"
proof -
  have B: "int 17393 < int (BASE ^ 255)"
  proof -
    have "(17393 :: nat) < BASE" by (simp add: BASE_def)
    also have "\<dots> \<le> BASE ^ 255" using self_le_power [of BASE 255] BASE_gt by simp
    finally show ?thesis by (rule iffD2 [OF of_nat_less_iff])
  qed
  have v: "ival (bi_make [17391] False) = 17391" by simp
  have c: "(17389 :: nat) < 17393" "0 < ival (bi_lit 3)" "odd (ival (bi_make [17391] False))"
    "0 < ival (bi_make [17391] False)" "ival (bi_make [17391] False) < int 17393" unfolding three(1) v by simp_all
  obtain p' t1 t' k where r: "prime_search sample_words 0 (bi_lit 3) (bi_make [17391] False) 0 = ret (p', 0 + k, t')"
    "ival p' = 17391 + 2 * int k" "0 < k" "ival p' \<le> int 17393"
    using prime_search_returns [OF sample_supplies sample_prime c(1) B c(2) three(2) c(3-5), of 0 0] unfolding v by blast
  then have "ival p' = 17393" by simp
  then show ?thesis using r(1) by auto
qed

end
