(* ===== verification/Type_Base.thy ===== *)
theory Type_Base
  imports Byte_Order "HOL-Library.Signed_Division"
begin

text \<open>
  What the nullable types of \<open>Type/\<close> share: the descriptor octets of \<open>tdbyte.hpp\<close>, the base class \<open>Object\<close>, null and
  its exception, the arithmetic of C++ on the types that hold them, and the streams they are written to.

  An object of one of the types is what its \<open>_pointer\<close> points to: \<open>None\<close> for \<open>nullptr\<close>, \<open>Some v\<close> for a value on the heap
  that it owns. An assignment takes \<open>same\<close>, whether its argument is the object itself (or the value it owns); one that
  moves gives back the object and what is left of the argument.
\<close>

section \<open>Descriptor octets\<close>

definition IS_NULL :: byte where "IS_NULL = 0x80"

definition SCALEOF_ATOMIC :: byte where "SCALEOF_ATOMIC = 0x00"
definition SCALEOF_BYTE :: byte where "SCALEOF_BYTE = 0x20"
definition SCALEOF_WORD :: byte where "SCALEOF_WORD = 0x40"
definition SCALEOF_DWORD :: byte where "SCALEOF_DWORD = 0x60"

definition MODELOF_NULL :: byte where "MODELOF_NULL = 0x00"
definition MODELOF_SIGNED :: byte where "MODELOF_SIGNED = 0x08"
definition MODELOF_UNSIGNED :: byte where "MODELOF_UNSIGNED = 0x10"
definition MODELOF_DECIMAL :: byte where "MODELOF_DECIMAL = 0x18"

definition TYPEOF_NULL :: byte where "TYPEOF_NULL = 0x00"
definition TYPEOF_BYTE :: byte where "TYPEOF_BYTE = 0x01"
definition TYPEOF_WORD :: byte where "TYPEOF_WORD = 0x02"
definition TYPEOF_DWORD :: byte where "TYPEOF_DWORD = 0x03"
definition TYPEOF_QWORD :: byte where "TYPEOF_QWORD = 0x04"
definition TYPEOF_XWORD :: byte where "TYPEOF_XWORD = 0x05"
definition TYPEOF_YWORD :: byte where "TYPEOF_YWORD = 0x06"
definition TYPEOF_ZWORD :: byte where "TYPEOF_ZWORD = 0x07"

definition SIZEOF_BYTE :: byte where "SIZEOF_BYTE = 0x01"
definition SIZEOF_WORD :: byte where "SIZEOF_WORD = 0x02"
definition SIZEOF_DWORD :: byte where "SIZEOF_DWORD = 0x04"

lemmas tdb_parts = IS_NULL_def SCALEOF_ATOMIC_def SCALEOF_BYTE_def SCALEOF_WORD_def SCALEOF_DWORD_def MODELOF_NULL_def
  MODELOF_SIGNED_def MODELOF_UNSIGNED_def MODELOF_DECIMAL_def TYPEOF_NULL_def TYPEOF_BYTE_def TYPEOF_WORD_def
  TYPEOF_DWORD_def TYPEOF_QWORD_def TYPEOF_XWORD_def TYPEOF_YWORD_def TYPEOF_ZWORD_def SIZEOF_BYTE_def
  SIZEOF_WORD_def SIZEOF_DWORD_def

text \<open>The descriptors of the types, in \<open>tdbyte.cpp\<close>.\<close>

definition tdb_BOOL :: byte where "tdb_BOOL = SCALEOF_ATOMIC OR MODELOF_SIGNED OR TYPEOF_BYTE"
definition tdb_CHAR :: byte where "tdb_CHAR = SCALEOF_ATOMIC OR MODELOF_SIGNED OR TYPEOF_BYTE"
definition tdb_BYTE :: byte where "tdb_BYTE = SCALEOF_ATOMIC OR MODELOF_SIGNED OR TYPEOF_BYTE"
definition tdb_UBYTE :: byte where "tdb_UBYTE = SCALEOF_ATOMIC OR MODELOF_UNSIGNED OR TYPEOF_BYTE"
definition tdb_SHORT :: byte where "tdb_SHORT = SCALEOF_ATOMIC OR MODELOF_SIGNED OR TYPEOF_WORD"
definition tdb_USHORT :: byte where "tdb_USHORT = SCALEOF_ATOMIC OR MODELOF_UNSIGNED OR TYPEOF_WORD"
definition tdb_INT :: byte where "tdb_INT = SCALEOF_ATOMIC OR MODELOF_SIGNED OR TYPEOF_DWORD"
definition tdb_UINT :: byte where "tdb_UINT = SCALEOF_ATOMIC OR MODELOF_UNSIGNED OR TYPEOF_DWORD"
definition tdb_LONG :: byte where "tdb_LONG = SCALEOF_ATOMIC OR MODELOF_SIGNED OR TYPEOF_QWORD"
definition tdb_ULONG :: byte where "tdb_ULONG = SCALEOF_ATOMIC OR MODELOF_UNSIGNED OR TYPEOF_QWORD"
definition tdb_FLOAT :: byte where "tdb_FLOAT = SCALEOF_ATOMIC OR MODELOF_DECIMAL OR TYPEOF_DWORD"
definition tdb_DOUBLE :: byte where "tdb_DOUBLE = SCALEOF_ATOMIC OR MODELOF_DECIMAL OR TYPEOF_QWORD"
definition tdb_REAL :: byte where "tdb_REAL = SCALEOF_ATOMIC OR MODELOF_DECIMAL OR TYPEOF_XWORD"
definition tdb_TIMESTAMP :: byte where "tdb_TIMESTAMP = SCALEOF_ATOMIC OR MODELOF_SIGNED OR TYPEOF_QWORD"
definition tdb_STRING :: byte where "tdb_STRING = SCALEOF_BYTE OR MODELOF_SIGNED OR TYPEOF_BYTE"
definition tdb_TEXT :: byte where "tdb_TEXT = SCALEOF_WORD OR MODELOF_SIGNED OR TYPEOF_BYTE"
definition tdb_VECTOR :: byte where "tdb_VECTOR = SCALEOF_DWORD"

lemmas tdb_types = tdb_BOOL_def tdb_CHAR_def tdb_BYTE_def tdb_UBYTE_def tdb_SHORT_def tdb_USHORT_def tdb_INT_def tdb_UINT_def tdb_LONG_def tdb_ULONG_def tdb_FLOAT_def tdb_DOUBLE_def tdb_REAL_def tdb_TIMESTAMP_def tdb_STRING_def tdb_TEXT_def tdb_VECTOR_def

definition SCALEOF :: "byte \<Rightarrow> byte" where "SCALEOF tdb = tdb AND SCALEOF_DWORD"

definition MODELOF :: "byte \<Rightarrow> byte" where "MODELOF tdb = tdb AND MODELOF_DECIMAL"

definition TYPEOF :: "byte \<Rightarrow> byte" where "TYPEOF tdb = tdb AND TYPEOF_ZWORD"

text \<open>\<open>Utility::pow(2, type - 1)\<close>, whose recursion does not end for the type zero.\<close>

definition SIZEOF :: "byte \<Rightarrow> int option" where
  "SIZEOF tdb = (let t = unat (tdb AND TYPEOF_ZWORD) in if t = 0 then None else Some (2 ^ (t - 1)))"

section \<open>Null\<close>

definition NULL_EXCEPTION :: exn where "NULL_EXCEPTION = ZiguratException 1000 ''NULL value''"

text \<open>A \<open>std::string\<close> is the list of its octets.\<close>

definition ascii :: "string \<Rightarrow> byte list" where "ascii = map of_char"

definition NULL_STRING :: "byte list" where "NULL_STRING = ascii ''UNKNOWN''"

text \<open>The methods that begin with a test of one or two pointers.\<close>

definition null1 :: "'a option \<Rightarrow> ('a \<Rightarrow> 'b result) \<Rightarrow> 'b result" where
  "null1 this f = (case this of None \<Rightarrow> Inl NULL_EXCEPTION | Some v \<Rightarrow> f v)"

definition null2 :: "'a option \<Rightarrow> 'c option \<Rightarrow> ('a \<Rightarrow> 'c \<Rightarrow> 'b result) \<Rightarrow> 'b result" where
  "null2 this other f =
     (case this of None \<Rightarrow> Inl NULL_EXCEPTION
      | Some v \<Rightarrow> (case other of None \<Rightarrow> Inl NULL_EXCEPTION | Some w \<Rightarrow> f v w))"

lemma null_simps [simp]:
  "null1 None f = Inl NULL_EXCEPTION" "null1 (Some v) f = f v" "null2 None y g = Inl NULL_EXCEPTION"
  "null2 x None g = Inl NULL_EXCEPTION" "null2 (Some v) (Some w) g = g v w"
  by (simp_all add: null1_def null2_def split: option.splits)

text \<open>\<open>set_null\<close> frees what the object owns.\<close>

definition free_value :: "'a option \<Rightarrow> 'a option" where
  "free_value this = (if this \<noteq> None then None else this)"

lemma free_value [simp]: "free_value this = None"
  by (simp add: free_value_def)

section \<open>Object\<close>

definition OBJECT_TDB :: byte where "OBJECT_TDB = SCALEOF_ATOMIC OR MODELOF_NULL OR TYPEOF_NULL"

definition Object_tdb :: "'a option \<Rightarrow> byte" where
  "Object_tdb this = (if this = None then OBJECT_TDB OR IS_NULL else OBJECT_TDB)"

definition Object_is_null :: "'a option \<Rightarrow> bool" where "Object_is_null this \<longleftrightarrow> this = None"

text \<open>\<open>tdb\<close> is virtual: \<open>pack_size\<close> asks the class of the object.\<close>

definition Object_pack_size :: "('a option \<Rightarrow> byte) \<Rightarrow> 'a option \<Rightarrow> int option" where
  "Object_pack_size tdb this = (if this = None then Some 1 else map_option (\<lambda>n. n + 1) (SIZEOF (tdb this)))"

definition Object_write :: "bool \<Rightarrow> ('a option \<Rightarrow> byte) \<Rightarrow> 'a option \<Rightarrow> stream \<Rightarrow> stream" where
  "Object_write big tdb object outstream = bs_write_std_ubyte big (tdb object) outstream"

definition Object_read :: "bool \<Rightarrow> byte \<Rightarrow> stream \<Rightarrow> stream" where
  "Object_read big junk instream = snd (bs_read_std_ubyte big junk instream)"

text \<open>A \<open>textstream\<close> takes the text of an object.\<close>

definition Object_print :: "('a option \<Rightarrow> byte list) \<Rightarrow> 'a option \<Rightarrow> stream \<Rightarrow> stream" where
  "Object_print to_std_string object outstream = swrite (to_std_string object) outstream"

section \<open>Arithmetic\<close>

text \<open>The range of \<open>int\<close> and of \<open>int64_t\<close>; what falls outside is undefined. Operands of eight and sixteen bits are
  promoted to \<open>int\<close>, and the result goes back by its low bits.\<close>

definition in_int :: "int \<Rightarrow> int result" where
  "in_int i = (if - (2 ^ 31) \<le> i \<and> i < 2 ^ 31 then Inr i else Inl SignedOverflow)"

definition in_long :: "int \<Rightarrow> int result" where
  "in_long i = (if - (2 ^ 63) \<le> i \<and> i < 2 ^ 63 then Inr i else Inl SignedOverflow)"

definition c_quotient :: "(int \<Rightarrow> int result) \<Rightarrow> int \<Rightarrow> int \<Rightarrow> int result" where
  "c_quotient fits i j = (if j = 0 then Inl DivTrap else fits (i sdiv j))"

definition c_remainder :: "(int \<Rightarrow> int result) \<Rightarrow> int \<Rightarrow> int \<Rightarrow> int result" where
  "c_remainder fits i j = (if j = 0 then Inl DivTrap else bind_res (fits (i sdiv j)) (\<lambda>_. Inr (i smod j)))"

definition narrow :: "int result \<Rightarrow> 'a::len word option result" where
  "narrow r = bind_res r (\<lambda>i. Inr (Some (word_of_int i)))"

text \<open>\<open>std::to_string\<close>.\<close>

fun decimal_digits :: "nat \<Rightarrow> byte list" where
  "decimal_digits n = (if n < 10 then [of_nat (48 + n)] else decimal_digits (n div 10) @ [of_nat (48 + n mod 10)])"

declare decimal_digits.simps [simp del]

definition std_to_string :: "int \<Rightarrow> byte list" where
  "std_to_string i = (if i < 0 then ascii ''-'' @ decimal_digits (nat (- i)) else decimal_digits (nat i))"

section \<open>Streams\<close>

text \<open>The streams the objects go to: \<open>nbostream\<close> or \<open>hbostream\<close>, on a host of either byte order. The methods of
  \<open>binarystream\<close> are virtual.\<close>

datatype binary = Network bool | Host bool

fun big_host :: "binary \<Rightarrow> bool" where
  "big_host (Network big) = big"
| "big_host (Host big) = big"

fun write_short :: "binary \<Rightarrow> 16 word \<Rightarrow> stream \<Rightarrow> stream" where
  "write_short (Network big) = nbo_write_std_short big"
| "write_short (Host big) = hbo_write_std_short big"

fun write_ushort :: "binary \<Rightarrow> 16 word \<Rightarrow> stream \<Rightarrow> stream" where
  "write_ushort (Network big) = nbo_write_std_ushort big"
| "write_ushort (Host big) = hbo_write_std_ushort big"

fun write_int :: "binary \<Rightarrow> 32 word \<Rightarrow> stream \<Rightarrow> stream" where
  "write_int (Network big) = nbo_write_std_int big"
| "write_int (Host big) = hbo_write_std_int big"

fun write_uint :: "binary \<Rightarrow> 32 word \<Rightarrow> stream \<Rightarrow> stream" where
  "write_uint (Network big) = nbo_write_std_uint big"
| "write_uint (Host big) = hbo_write_std_uint big"

fun write_long :: "binary \<Rightarrow> 64 word \<Rightarrow> stream \<Rightarrow> stream" where
  "write_long (Network big) = nbo_write_std_long big"
| "write_long (Host big) = hbo_write_std_long big"

fun write_ulong :: "binary \<Rightarrow> 64 word \<Rightarrow> stream \<Rightarrow> stream" where
  "write_ulong (Network big) = nbo_write_std_ulong big"
| "write_ulong (Host big) = hbo_write_std_ulong big"

fun write_float :: "binary \<Rightarrow> 32 word \<Rightarrow> stream \<Rightarrow> stream" where
  "write_float (Network big) = nbo_write_std_float big"
| "write_float (Host big) = hbo_write_std_float big"

fun write_double :: "binary \<Rightarrow> 64 word \<Rightarrow> stream \<Rightarrow> stream" where
  "write_double (Network big) = nbo_write_std_double big"
| "write_double (Host big) = hbo_write_std_double big"

fun write_real :: "binary \<Rightarrow> 128 word \<Rightarrow> stream \<Rightarrow> stream" where
  "write_real (Network big) = nbo_write_std_real big"
| "write_real (Host big) = hbo_write_std_real big"

fun write_time :: "binary \<Rightarrow> 64 word \<Rightarrow> stream \<Rightarrow> stream" where
  "write_time (Network big) = nbo_write_std_time big"
| "write_time (Host big) = hbo_write_std_time big"

fun read_short :: "binary \<Rightarrow> 16 word \<Rightarrow> stream \<Rightarrow> 16 word \<times> stream" where
  "read_short (Network big) = nbo_read_std_short_ref big"
| "read_short (Host big) = hbo_read_std_short_ref big"

fun read_ushort :: "binary \<Rightarrow> 16 word \<Rightarrow> stream \<Rightarrow> 16 word \<times> stream" where
  "read_ushort (Network big) = nbo_read_std_ushort_ref big"
| "read_ushort (Host big) = hbo_read_std_ushort_ref big"

fun read_ushort_value :: "binary \<Rightarrow> 16 word \<Rightarrow> stream \<Rightarrow> 16 word \<times> stream" where
  "read_ushort_value (Network big) = nbo_read_std_ushort big"
| "read_ushort_value (Host big) = hbo_read_std_ushort big"

fun read_uint_value :: "binary \<Rightarrow> 32 word \<Rightarrow> stream \<Rightarrow> 32 word \<times> stream" where
  "read_uint_value (Network big) = nbo_read_std_uint big"
| "read_uint_value (Host big) = hbo_read_std_uint big"

fun read_int :: "binary \<Rightarrow> 32 word \<Rightarrow> stream \<Rightarrow> 32 word \<times> stream" where
  "read_int (Network big) = nbo_read_std_int_ref big"
| "read_int (Host big) = hbo_read_std_int_ref big"

fun read_uint :: "binary \<Rightarrow> 32 word \<Rightarrow> stream \<Rightarrow> 32 word \<times> stream" where
  "read_uint (Network big) = nbo_read_std_uint_ref big"
| "read_uint (Host big) = hbo_read_std_uint_ref big"

fun read_long :: "binary \<Rightarrow> 64 word \<Rightarrow> stream \<Rightarrow> 64 word \<times> stream" where
  "read_long (Network big) = nbo_read_std_long_ref big"
| "read_long (Host big) = hbo_read_std_long_ref big"

fun read_ulong :: "binary \<Rightarrow> 64 word \<Rightarrow> stream \<Rightarrow> 64 word \<times> stream" where
  "read_ulong (Network big) = nbo_read_std_ulong_ref big"
| "read_ulong (Host big) = hbo_read_std_ulong_ref big"

fun read_float :: "binary \<Rightarrow> 32 word \<Rightarrow> stream \<Rightarrow> 32 word \<times> stream" where
  "read_float (Network big) = nbo_read_std_float_ref big"
| "read_float (Host big) = hbo_read_std_float_ref big"

fun read_double :: "binary \<Rightarrow> 64 word \<Rightarrow> stream \<Rightarrow> 64 word \<times> stream" where
  "read_double (Network big) = nbo_read_std_double_ref big"
| "read_double (Host big) = hbo_read_std_double_ref big"

fun read_real :: "binary \<Rightarrow> 128 word \<Rightarrow> stream \<Rightarrow> 128 word \<times> stream" where
  "read_real (Network big) = nbo_read_std_real_ref big"
| "read_real (Host big) = hbo_read_std_real_ref big"

fun read_time :: "binary \<Rightarrow> 64 word \<Rightarrow> stream \<Rightarrow> 64 word \<times> stream" where
  "read_time (Network big) = nbo_read_std_time_ref big"
| "read_time (Host big) = hbo_read_std_time_ref big"

text \<open>The three friends of every class: an object is its descriptor and, unless it is null, its value. \<open>memory\<close> is
  what variables hold that are not initialised.\<close>

type_synonym memory = "nat \<Rightarrow> byte list"

definition write_nullable :: "binary \<Rightarrow> ('a option \<Rightarrow> byte) \<Rightarrow> ('a \<Rightarrow> stream \<Rightarrow> stream) \<Rightarrow> 'a option \<Rightarrow> stream \<Rightarrow> stream" where
  "write_nullable k tdb write object outstream =
     (let outstream = bs_write_std_ubyte (big_host k) (tdb object) outstream in
      case object of None \<Rightarrow> outstream | Some v \<Rightarrow> write v outstream)"

definition read_nullable ::
  "binary \<Rightarrow> memory \<Rightarrow> ('a \<Rightarrow> stream \<Rightarrow> 'a \<times> stream) \<Rightarrow> 'a \<Rightarrow> 'a option \<Rightarrow> stream \<Rightarrow> 'a option \<times> stream" where
  "read_nullable k memory read fresh object instream =
     (let (tdb, instream) = bs_read_std_ubyte (big_host k) (hd (memory 1)) instream in
      if tdb AND IS_NULL = IS_NULL then (free_value object, instream)
      else
        (let (v, instream) = read (case object of None \<Rightarrow> fresh | Some v \<Rightarrow> v) instream in (Some v, instream)))"

section \<open>The virtual methods keep the contract of their streams\<close>

fun octets_of :: "binary \<Rightarrow> 'a::len word \<Rightarrow> byte list" where
  "octets_of (Network big) = be_octets (size_of (0 :: 'a word))"
| "octets_of (Host big) = store big"

lemma octets_of_length [simp]: "length (octets_of k (v :: 'a::len word)) = LENGTH('a) div 8"
  by (cases k) (simp_all add: size_of_def)

lemma octets_of_byte [simp]: "octets_of k (v :: byte) = [v]"
  by (cases k) (simp_all add: store_byte size_of_def byte_at_def)

lemma binary_io:
  assumes "\<And>big. k = Network big \<Longrightarrow> object_io wr rd (be_octets (size_of (0 :: 'a::len word)) :: 'a word \<Rightarrow> byte list)"
    and "\<And>big. k = Host big \<Longrightarrow> object_io wr rd (store big :: 'a word \<Rightarrow> byte list)"
  shows "object_io wr rd (octets_of k :: 'a word \<Rightarrow> byte list)"
  using assms by (cases k) simp_all

interpretation b_short: object_io "write_short k" "read_short k" "octets_of k" for k
proof (rule binary_io)
  show "object_io (write_short k) (read_short k) (be_octets (size_of (0 :: 16 word)))" if "k = Network big" for big
    unfolding that by (rule object_io_nbo [where big = big]) (simp_all add: size_of_def nbo_defs)
  show "object_io (write_short k) (read_short k) (store big)" if "k = Host big" for big
    unfolding that by (rule object_io_hbo [where big = big]) (simp_all add: size_of_def hbo_defs)
qed

interpretation b_ushort: object_io "write_ushort k" "read_ushort k" "octets_of k" for k
proof (rule binary_io)
  show "object_io (write_ushort k) (read_ushort k) (be_octets (size_of (0 :: 16 word)))" if "k = Network big" for big
    unfolding that by (rule object_io_nbo [where big = big]) (simp_all add: size_of_def nbo_defs)
  show "object_io (write_ushort k) (read_ushort k) (store big)" if "k = Host big" for big
    unfolding that by (rule object_io_hbo [where big = big]) (simp_all add: size_of_def hbo_defs)
qed

interpretation b_int: object_io "write_int k" "read_int k" "octets_of k" for k
proof (rule binary_io)
  show "object_io (write_int k) (read_int k) (be_octets (size_of (0 :: 32 word)))" if "k = Network big" for big
    unfolding that by (rule object_io_nbo [where big = big]) (simp_all add: size_of_def nbo_defs)
  show "object_io (write_int k) (read_int k) (store big)" if "k = Host big" for big
    unfolding that by (rule object_io_hbo [where big = big]) (simp_all add: size_of_def hbo_defs)
qed

interpretation b_uint: object_io "write_uint k" "read_uint k" "octets_of k" for k
proof (rule binary_io)
  show "object_io (write_uint k) (read_uint k) (be_octets (size_of (0 :: 32 word)))" if "k = Network big" for big
    unfolding that by (rule object_io_nbo [where big = big]) (simp_all add: size_of_def nbo_defs)
  show "object_io (write_uint k) (read_uint k) (store big)" if "k = Host big" for big
    unfolding that by (rule object_io_hbo [where big = big]) (simp_all add: size_of_def hbo_defs)
qed

interpretation b_long: object_io "write_long k" "read_long k" "octets_of k" for k
proof (rule binary_io)
  show "object_io (write_long k) (read_long k) (be_octets (size_of (0 :: 64 word)))" if "k = Network big" for big
    unfolding that by (rule object_io_nbo [where big = big]) (simp_all add: size_of_def nbo_defs)
  show "object_io (write_long k) (read_long k) (store big)" if "k = Host big" for big
    unfolding that by (rule object_io_hbo [where big = big]) (simp_all add: size_of_def hbo_defs)
qed

interpretation b_ulong: object_io "write_ulong k" "read_ulong k" "octets_of k" for k
proof (rule binary_io)
  show "object_io (write_ulong k) (read_ulong k) (be_octets (size_of (0 :: 64 word)))" if "k = Network big" for big
    unfolding that by (rule object_io_nbo [where big = big]) (simp_all add: size_of_def nbo_defs)
  show "object_io (write_ulong k) (read_ulong k) (store big)" if "k = Host big" for big
    unfolding that by (rule object_io_hbo [where big = big]) (simp_all add: size_of_def hbo_defs)
qed

interpretation b_float: object_io "write_float k" "read_float k" "octets_of k" for k
proof (rule binary_io)
  show "object_io (write_float k) (read_float k) (be_octets (size_of (0 :: 32 word)))" if "k = Network big" for big
    unfolding that by (rule object_io_nbo [where big = big]) (simp_all add: size_of_def nbo_defs)
  show "object_io (write_float k) (read_float k) (store big)" if "k = Host big" for big
    unfolding that by (rule object_io_hbo [where big = big]) (simp_all add: size_of_def hbo_defs)
qed

interpretation b_double: object_io "write_double k" "read_double k" "octets_of k" for k
proof (rule binary_io)
  show "object_io (write_double k) (read_double k) (be_octets (size_of (0 :: 64 word)))" if "k = Network big" for big
    unfolding that by (rule object_io_nbo [where big = big]) (simp_all add: size_of_def nbo_defs)
  show "object_io (write_double k) (read_double k) (store big)" if "k = Host big" for big
    unfolding that by (rule object_io_hbo [where big = big]) (simp_all add: size_of_def hbo_defs)
qed

interpretation b_real: object_io "write_real k" "read_real k" "octets_of k" for k
proof (rule binary_io)
  show "object_io (write_real k) (read_real k) (be_octets (size_of (0 :: 128 word)))" if "k = Network big" for big
    unfolding that by (rule object_io_nbo [where big = big]) (simp_all add: size_of_def nbo_defs)
  show "object_io (write_real k) (read_real k) (store big)" if "k = Host big" for big
    unfolding that by (rule object_io_hbo [where big = big]) (simp_all add: size_of_def hbo_defs)
qed

interpretation b_time: object_io "write_time k" "read_time k" "octets_of k" for k
proof (rule binary_io)
  show "object_io (write_time k) (read_time k) (be_octets (size_of (0 :: 64 word)))" if "k = Network big" for big
    unfolding that by (rule object_io_nbo [where big = big]) (simp_all add: size_of_def nbo_defs)
  show "object_io (write_time k) (read_time k) (store big)" if "k = Host big" for big
    unfolding that by (rule object_io_hbo [where big = big]) (simp_all add: size_of_def hbo_defs)
qed

interpretation b_ushort_value: object_io "write_ushort k" "read_ushort_value k" "octets_of k" for k
proof (rule binary_io)
  show "object_io (write_ushort k) (read_ushort_value k) (be_octets (size_of (0 :: 16 word)))" if "k = Network big" for big
    unfolding that by (rule object_io_nbo [where big = big]) (simp_all add: size_of_def nbo_defs)
  show "object_io (write_ushort k) (read_ushort_value k) (store big)" if "k = Host big" for big
    unfolding that by (rule object_io_hbo [where big = big]) (simp_all add: size_of_def hbo_defs)
qed

interpretation b_uint_value: object_io "write_uint k" "read_uint_value k" "octets_of k" for k
proof (rule binary_io)
  show "object_io (write_uint k) (read_uint_value k) (be_octets (size_of (0 :: 32 word)))" if "k = Network big" for big
    unfolding that by (rule object_io_nbo [where big = big]) (simp_all add: size_of_def nbo_defs)
  show "object_io (write_uint k) (read_uint_value k) (store big)" if "k = Host big" for big
    unfolding that by (rule object_io_hbo [where big = big]) (simp_all add: size_of_def hbo_defs)
qed

interpretation b_char: object_io "bs_write_std_char big" "bs_read_std_char_ref big" "\<lambda>v. [v]" for big
  using object_io_hbo [of "bs_write_std_char big" big "bs_read_std_char_ref big"]
  by (simp add: object_io_def store_byte size_of_def bs_write_std_char_def bs_read_std_char_ref_def)

interpretation b_bool: object_io "bs_write_std_bool big" "bs_read_std_bool_ref big" "\<lambda>v. [v]" for big
  using object_io_hbo [of "bs_write_std_bool big" big "bs_read_std_bool_ref big"]
  by (simp add: object_io_def store_byte size_of_def bs_write_std_bool_def bs_read_std_bool_ref_def)

interpretation b_byte: object_io "bs_write_std_byte big" "bs_read_std_byte_ref big" "\<lambda>v. [v]" for big
  using object_io_hbo [of "bs_write_std_byte big" big "bs_read_std_byte_ref big"]
  by (simp add: object_io_def store_byte size_of_def bs_write_std_byte_def bs_read_std_byte_ref_def)

interpretation b_ubyte: object_io "bs_write_std_ubyte big" "bs_read_std_ubyte_ref big" "\<lambda>v. [v]" for big
  using object_io_hbo [of "bs_write_std_ubyte big" big "bs_read_std_ubyte_ref big"]
  by (simp add: object_io_def store_byte size_of_def bs_write_std_ubyte_def bs_read_std_ubyte_ref_def)

interpretation b_tdb: object_io "bs_write_std_ubyte big" "bs_read_std_ubyte big" "\<lambda>v. [v]" for big
  using object_io_hbo [of "bs_write_std_ubyte big" big "bs_read_std_ubyte big"]
  by (simp add: object_io_def store_byte size_of_def bs_write_std_ubyte_def bs_read_std_ubyte_def)

section \<open>Packed objects\<close>

text \<open>What a class promises to whoever sends its objects: \<open>rep\<close> is what is written, reading takes exactly that and
  gives the object back, and \<open>pack_size\<close> is its length. \<open>ok\<close> is for which objects.\<close>

locale packed =
  fixes wr :: "'a \<Rightarrow> stream \<Rightarrow> stream"
    and rd :: "memory \<Rightarrow> 'a \<Rightarrow> stream \<Rightarrow> 'a \<times> stream"
    and rep :: "'a \<Rightarrow> byte list"
    and pack_size :: "'a \<Rightarrow> int option"
    and ok :: "'a \<Rightarrow> bool"
  assumes wr_rep: "ok x \<Longrightarrow> wr x s = swrite (rep x) s"
    and rd_rep: "ok x \<Longrightarrow> readable s \<Longrightarrow> rest s = rep x @ r \<Longrightarrow>
      \<exists>t. rd m old s = (x, t) \<and> readable t \<and> rest t = r"
    and size_rep: "ok x \<Longrightarrow> pack_size x = Some (int (length (rep x)))"
begin

lemma comes_back:
  assumes "ok x"
  shows "\<exists>t. rd m old (new_stream (data (wr x (new_stream [])) @ r)) = (x, t) \<and> rest t = r"
    and "pack_size x = Some (int (length (data (wr x (new_stream [])))))"
proof -
  have w: "data (wr x (new_stream [])) = rep x" using wr_rep [OF assms] by simp
  show "pack_size x = Some (int (length (data (wr x (new_stream [])))))" using size_rep [OF assms] w by simp
  show "\<exists>t. rd m old (new_stream (data (wr x (new_stream [])) @ r)) = (x, t) \<and> rest t = r"
    using rd_rep [OF assms, of "new_stream (rep x @ r)" r] w by auto
qed

end

text \<open>The three friends of a class keep the contract when writing and reading its values do, for the values that \<open>fits\<close>.\<close>

lemma packed_values:
  assumes wr: "\<And>v s. fits v \<Longrightarrow> wr v s = swrite (rep v) s"
    and rd: "\<And>(m :: memory) old v s r. fits v \<Longrightarrow> readable s \<Longrightarrow> rest s = rep v @ r \<Longrightarrow>
      \<exists>t. rd m old s = (v, t) \<and> readable t \<and> rest t = r"
    and size: "pack_size None = Some 1" "\<And>v. fits v \<Longrightarrow> pack_size (Some v) = Some (int (length (rep v)) + 1)"
    and tdb: "tdb None AND IS_NULL = IS_NULL" "\<And>v. tdb (Some v) AND IS_NULL \<noteq> IS_NULL"
  shows "packed (write_nullable k tdb wr) (\<lambda>m. read_nullable k m (rd m) fresh)
    (\<lambda>x. tdb x # (case x of None \<Rightarrow> [] | Some v \<Rightarrow> rep v)) pack_size (\<lambda>x. case x of None \<Rightarrow> True | Some v \<Rightarrow> fits v)"
proof
  fix x s assume "case x of None \<Rightarrow> True | Some v \<Rightarrow> fits v"
  then show "write_nullable k tdb wr x s = swrite (tdb x # (case x of None \<Rightarrow> [] | Some v \<Rightarrow> rep v)) s"
    using b_tdb.wr_rep [of "big_host k"] wr by (cases x) (simp_all add: write_nullable_def swrite_def)
next
  fix x s r and m :: memory and old
  assume ok: "case x of None \<Rightarrow> True | Some v \<Rightarrow> fits v"
    and s: "readable s" "rest s = (tdb x # (case x of None \<Rightarrow> [] | Some v \<Rightarrow> rep v)) @ r"
  let ?t = "advance 1 1 s"
  have t: "bs_read_std_ubyte (big_host k) (hd (m 1)) s = (tdb x, ?t)"
    using b_tdb.rd_rep [of s "tdb x" "(case x of None \<Rightarrow> [] | Some v \<Rightarrow> rep v) @ r"] s by simp
  show "\<exists>t. read_nullable k m (rd m) fresh old s = (x, t) \<and> readable t \<and> rest t = r"
  proof (cases x)
    case None
    then show ?thesis using s t tdb(1) by (auto simp: read_nullable_def)
  next
    case (Some v)
    have "readable ?t" "rest ?t = rep v @ r" "fits v" using s Some ok by simp_all
    from rd [OF this(3,1,2), of m "case old of None \<Rightarrow> fresh | Some v \<Rightarrow> v"] obtain t where
      "rd m (case old of None \<Rightarrow> fresh | Some v \<Rightarrow> v) ?t = (v, t)" "readable t" "rest t = r" by blast
    then show ?thesis using t tdb(2) [of v] Some by (simp add: read_nullable_def)
  qed
next
  fix x assume "case x of None \<Rightarrow> True | Some v \<Rightarrow> fits v"
  then show "pack_size x = Some (int (length (tdb x # (case x of None \<Rightarrow> [] | Some v \<Rightarrow> rep v))))"
    using size by (cases x) simp_all
qed

lemma packed_nullable:
  assumes io: "object_io wr rd rep" and "\<And>v. SIZEOF (tdb (Some v)) = Some (int (length (rep v)))"
    and "tdb None AND IS_NULL = IS_NULL" and "\<And>v. tdb (Some v) AND IS_NULL \<noteq> IS_NULL"
  shows "packed (write_nullable k tdb wr) (\<lambda>m. read_nullable k m rd fresh)
    (\<lambda>x. tdb x # (case x of None \<Rightarrow> [] | Some v \<Rightarrow> rep v)) (Object_pack_size tdb) (\<lambda>_. True)"
proof -
  have all: "(\<lambda>x. case x of None \<Rightarrow> True | Some v \<Rightarrow> True) = (\<lambda>_. True)" by (auto split: option.splits)
  show ?thesis
    using packed_values [where fits = "\<lambda>_. True" and wr = wr and rep = rep and rd = "\<lambda>_. rd" and tdb = tdb and
        pack_size = "Object_pack_size tdb" and k = k and fresh = fresh]
      object_io.wr_rep [OF io] object_io.rd_rep [OF io] assms(2-4)
    by (simp add: all Object_pack_size_def)
qed

end
