(* ===== verification/Type_Scalars.thy ===== *)
theory Type_Scalars
  imports Type_Base
begin

text \<open>
  \<open>Bool\<close>, \<open>Char\<close> and \<open>Timestamp\<close> of \<open>Type/\<close>. A \<open>bool\<close> is the octet that represents it, as on the streams, where an
  octet other than 0 and 1 stays as it is; a \<open>char\<close> is signed. A \<open>String\<close> is a nullable list of octets. What the C library
  makes of a time is a parameter.
\<close>

section \<open>Bool\<close>

definition Bool_TDB :: "byte" where
  "Bool_TDB = tdb_BOOL"

definition Bool_tdb :: "byte option \<Rightarrow> byte" where
  "Bool_tdb this = (if this = None then Bool_TDB OR IS_NULL else Bool_TDB)"

definition Bool_new :: "byte option" where
  "Bool_new = Some 0"

definition Bool_null :: "byte option" where
  "Bool_null = None"

definition Bool_of :: "byte \<Rightarrow> byte option" where
  "Bool_of other = Some other"

definition Bool_move :: "byte option \<Rightarrow> byte option \<times> byte option" where
  "Bool_move other = (other, None)"

definition Bool_copy :: "byte option \<Rightarrow> byte option" where
  "Bool_copy other = (case other of None \<Rightarrow> None | Some v \<Rightarrow> Some v)"

definition Bool_set_null :: "byte option \<Rightarrow> byte option" where
  "Bool_set_null this = free_value this"

definition Bool_assign_null :: "byte option \<Rightarrow> byte option" where
  "Bool_assign_null this = Bool_set_null this"

definition Bool_assign_value :: "bool \<Rightarrow> byte option \<Rightarrow> byte \<Rightarrow> byte option" where
  "Bool_assign_value same this other = (if \<not> same then Some other else this)"

definition Bool_assign_move :: "bool \<Rightarrow> byte option \<Rightarrow> byte option \<Rightarrow> byte option \<times> byte option" where
  "Bool_assign_move same this other = (if \<not> same then (other, None) else (this, other))"

definition Bool_assign :: "bool \<Rightarrow> byte option \<Rightarrow> byte option \<Rightarrow> byte option" where
  "Bool_assign same this other =
     (if \<not> same then (case other of None \<Rightarrow> Bool_set_null this | Some v \<Rightarrow> Some v) else this)"

definition Bool_eq_null :: "byte option \<Rightarrow> bool result" where
  "Bool_eq_null this = Inl NULL_EXCEPTION"

definition Bool_eq_value :: "byte option \<Rightarrow> byte \<Rightarrow> bool result" where
  "Bool_eq_value this other = null1 this (\<lambda>v. Inr ((v = other)))"

definition Bool_eq :: "byte option \<Rightarrow> byte option \<Rightarrow> bool result" where
  "Bool_eq this other = null2 this other (\<lambda>v w. Inr ((v = w)))"

definition Bool_ne_null :: "byte option \<Rightarrow> bool result" where
  "Bool_ne_null this = null1 this (\<lambda>_. Inr (this \<noteq> None))"

definition Bool_ne_value :: "byte option \<Rightarrow> byte \<Rightarrow> bool result" where
  "Bool_ne_value this other = null1 this (\<lambda>v. Inr (\<not> (v = other)))"

definition Bool_ne :: "byte option \<Rightarrow> byte option \<Rightarrow> bool result" where
  "Bool_ne this other = null2 this other (\<lambda>v w. Inr (\<not> (v = w)))"

text \<open>The conversion operator.\<close>

definition Bool_bool :: "byte option \<Rightarrow> byte result" where
  "Bool_bool this = null1 this Inr"

definition Bool_value :: "byte option \<Rightarrow> byte result" where
  "Bool_value this = null1 this Inr"

definition Bool_to_std_string_alpha :: "bool \<Rightarrow> byte option \<Rightarrow> byte list" where
  "Bool_to_std_string_alpha alpha this =
     (case this of None \<Rightarrow> NULL_STRING
      | Some v \<Rightarrow> if alpha then (if v \<noteq> 0 then ascii ''true'' else ascii ''false'') else std_to_string (uint v))"

definition Bool_to_std_string :: "byte option \<Rightarrow> byte list" where
  "Bool_to_std_string this = Bool_to_std_string_alpha True this"

definition Bool_to_string :: "byte option \<Rightarrow> byte list option" where
  "Bool_to_string this = Some (Bool_to_std_string_alpha True this)"

definition Bool_TO_STRING :: "byte option \<Rightarrow> byte list option" where
  "Bool_TO_STRING this = Some (Bool_to_std_string_alpha True this)"

definition Bool_to_string_alpha :: "byte option \<Rightarrow> byte option \<Rightarrow> byte list option result" where
  "Bool_to_string_alpha this alpha = bind_res (Bool_value alpha) (\<lambda>a. Inr (Some (Bool_to_std_string_alpha (a \<noteq> 0) this)))"

definition Bool_TO_STRING_alpha :: "byte option \<Rightarrow> byte option \<Rightarrow> byte list option result" where
  "Bool_TO_STRING_alpha this alpha = bind_res (Bool_value alpha) (\<lambda>a. Inr (Some (Bool_to_std_string_alpha (a \<noteq> 0) this)))"

definition Bool_write :: "binary \<Rightarrow> byte option \<Rightarrow> stream \<Rightarrow> stream" where
  "Bool_write k = write_nullable k Bool_tdb (bs_write_std_bool (big_host k))"

definition Bool_read :: "binary \<Rightarrow> memory \<Rightarrow> byte option \<Rightarrow> stream \<Rightarrow> byte option \<times> stream" where
  "Bool_read k memory = read_nullable k memory (bs_read_std_bool_ref (big_host k)) 0"

interpretation bool_type: packed "Bool_write k" "Bool_read k" "\<lambda>x. Bool_tdb x # (case x of None \<Rightarrow> [] | Some v \<Rightarrow> (\<lambda>v. [v]) v)"
    "Object_pack_size Bool_tdb" "\<lambda>_. True" for k
  unfolding Bool_write_def [abs_def] Bool_read_def [abs_def]
  by (rule packed_nullable [OF b_bool.object_io_axioms]) (simp_all add: Bool_tdb_def Bool_TDB_def tdb_types tdb_parts SIZEOF_def)

section \<open>Char\<close>

definition Char_TDB :: "byte" where
  "Char_TDB = tdb_CHAR"

definition Char_tdb :: "byte option \<Rightarrow> byte" where
  "Char_tdb this = (if this = None then Char_TDB OR IS_NULL else Char_TDB)"

definition Char_new :: "byte option" where
  "Char_new = Some 0"

definition Char_null :: "byte option" where
  "Char_null = None"

definition Char_of :: "byte \<Rightarrow> byte option" where
  "Char_of other = Some other"

definition Char_move :: "byte option \<Rightarrow> byte option \<times> byte option" where
  "Char_move other = (other, None)"

definition Char_copy :: "byte option \<Rightarrow> byte option" where
  "Char_copy other = (case other of None \<Rightarrow> None | Some v \<Rightarrow> Some v)"

definition Char_set_null :: "byte option \<Rightarrow> byte option" where
  "Char_set_null this = free_value this"

definition Char_assign_null :: "byte option \<Rightarrow> byte option" where
  "Char_assign_null this = Char_set_null this"

definition Char_assign_value :: "bool \<Rightarrow> byte option \<Rightarrow> byte \<Rightarrow> byte option" where
  "Char_assign_value same this other = (if \<not> same then Some other else this)"

definition Char_assign_move :: "bool \<Rightarrow> byte option \<Rightarrow> byte option \<Rightarrow> byte option \<times> byte option" where
  "Char_assign_move same this other = (if \<not> same then (other, None) else (this, other))"

definition Char_assign :: "bool \<Rightarrow> byte option \<Rightarrow> byte option \<Rightarrow> byte option" where
  "Char_assign same this other =
     (if \<not> same then (case other of None \<Rightarrow> Char_set_null this | Some v \<Rightarrow> Some v) else this)"

definition Char_eq_null :: "byte option \<Rightarrow> bool result" where
  "Char_eq_null this = Inl NULL_EXCEPTION"

definition Char_of_pointer :: "byte list \<Rightarrow> byte option result" where
  "Char_of_pointer other = (case other of [] \<Rightarrow> Inl OutOfBounds | c # _ \<Rightarrow> Inr (Some c))"

definition Char_eq_value :: "byte option \<Rightarrow> byte \<Rightarrow> bool result" where
  "Char_eq_value this other = null1 this (\<lambda>v. Inr ((v = other)))"

definition Char_eq :: "byte option \<Rightarrow> byte option \<Rightarrow> bool result" where
  "Char_eq this other = null2 this other (\<lambda>v w. Inr ((v = w)))"

definition Char_ne_null :: "byte option \<Rightarrow> bool result" where
  "Char_ne_null this = Inl NULL_EXCEPTION"

definition Char_ne_value :: "byte option \<Rightarrow> byte \<Rightarrow> bool result" where
  "Char_ne_value this other = null1 this (\<lambda>v. Inr (\<not> (v = other)))"

definition Char_ne :: "byte option \<Rightarrow> byte option \<Rightarrow> bool result" where
  "Char_ne this other = null2 this other (\<lambda>v w. Inr (\<not> (v = w)))"

definition Char_less :: "byte option \<Rightarrow> byte option \<Rightarrow> bool result" where
  "Char_less this other = null2 this other (\<lambda>v w. Inr (sint v < sint w))"

definition Char_less_eq :: "byte option \<Rightarrow> byte option \<Rightarrow> bool result" where
  "Char_less_eq this other = null2 this other (\<lambda>v w. Inr (sint v \<le> sint w))"

definition Char_greater :: "byte option \<Rightarrow> byte option \<Rightarrow> bool result" where
  "Char_greater this other = null2 this other (\<lambda>v w. Inr (sint w < sint v))"

definition Char_greater_eq :: "byte option \<Rightarrow> byte option \<Rightarrow> bool result" where
  "Char_greater_eq this other = null2 this other (\<lambda>v w. Inr (sint w \<le> sint v))"

definition Char_value :: "byte option \<Rightarrow> byte result" where
  "Char_value this = null1 this Inr"

definition Char_to_std_string :: "byte option \<Rightarrow> byte list" where
  "Char_to_std_string this = (case this of None \<Rightarrow> NULL_STRING | Some v \<Rightarrow> [v])"

definition Char_write :: "binary \<Rightarrow> byte option \<Rightarrow> stream \<Rightarrow> stream" where
  "Char_write k = write_nullable k Char_tdb (bs_write_std_char (big_host k))"

definition Char_read :: "binary \<Rightarrow> memory \<Rightarrow> byte option \<Rightarrow> stream \<Rightarrow> byte option \<times> stream" where
  "Char_read k memory = read_nullable k memory (bs_read_std_char_ref (big_host k)) 0"

interpretation char_type: packed "Char_write k" "Char_read k" "\<lambda>x. Char_tdb x # (case x of None \<Rightarrow> [] | Some v \<Rightarrow> (\<lambda>v. [v]) v)"
    "Object_pack_size Char_tdb" "\<lambda>_. True" for k
  unfolding Char_write_def [abs_def] Char_read_def [abs_def]
  by (rule packed_nullable [OF b_char.object_io_axioms]) (simp_all add: Char_tdb_def Char_TDB_def tdb_types tdb_parts SIZEOF_def)

section \<open>Timestamp\<close>

text \<open>\<open>asc utc v\<close> is what \<open>asctime\<close> makes of the broken-down time of \<open>v\<close>, \<open>None\<close> its null pointer.\<close>

definition Timestamp_TDB :: "byte" where
  "Timestamp_TDB = tdb_TIMESTAMP"

definition Timestamp_tdb :: "64 word option \<Rightarrow> byte" where
  "Timestamp_tdb this = (if this = None then Timestamp_TDB OR IS_NULL else Timestamp_TDB)"

definition Timestamp_new :: "64 word option" where
  "Timestamp_new = Some 0"

definition Timestamp_null :: "64 word option" where
  "Timestamp_null = None"

definition Timestamp_of :: "64 word \<Rightarrow> 64 word option" where
  "Timestamp_of other = Some other"

definition Timestamp_move :: "64 word option \<Rightarrow> 64 word option \<times> 64 word option" where
  "Timestamp_move other = (other, None)"

definition Timestamp_copy :: "64 word option \<Rightarrow> 64 word option" where
  "Timestamp_copy other = (case other of None \<Rightarrow> None | Some v \<Rightarrow> Some v)"

definition Timestamp_set_null :: "64 word option \<Rightarrow> 64 word option" where
  "Timestamp_set_null this = free_value this"

definition Timestamp_assign_null :: "64 word option \<Rightarrow> 64 word option" where
  "Timestamp_assign_null this = Timestamp_set_null this"

definition Timestamp_assign_value :: "bool \<Rightarrow> 64 word option \<Rightarrow> 64 word \<Rightarrow> 64 word option" where
  "Timestamp_assign_value same this other = (if \<not> same then Some other else this)"

definition Timestamp_assign_move :: "bool \<Rightarrow> 64 word option \<Rightarrow> 64 word option \<Rightarrow> 64 word option \<times> 64 word option" where
  "Timestamp_assign_move same this other = (if \<not> same then (other, None) else (this, other))"

definition Timestamp_assign :: "bool \<Rightarrow> 64 word option \<Rightarrow> 64 word option \<Rightarrow> 64 word option" where
  "Timestamp_assign same this other =
     (if \<not> same then (case other of None \<Rightarrow> Timestamp_set_null this | Some v \<Rightarrow> Some v) else this)"

definition Timestamp_eq_null :: "64 word option \<Rightarrow> bool result" where
  "Timestamp_eq_null this = Inl NULL_EXCEPTION"

definition Timestamp_eq_value :: "64 word option \<Rightarrow> 64 word \<Rightarrow> bool result" where
  "Timestamp_eq_value this other = null1 this (\<lambda>v. Inr ((v = other)))"

definition Timestamp_eq :: "64 word option \<Rightarrow> 64 word option \<Rightarrow> bool result" where
  "Timestamp_eq this other = null2 this other (\<lambda>v w. Inr ((v = w)))"

definition Timestamp_ne_null :: "64 word option \<Rightarrow> bool result" where
  "Timestamp_ne_null this = Inl NULL_EXCEPTION"

definition Timestamp_ne_value :: "64 word option \<Rightarrow> 64 word \<Rightarrow> bool result" where
  "Timestamp_ne_value this other = null1 this (\<lambda>v. Inr (\<not> (v = other)))"

definition Timestamp_ne :: "64 word option \<Rightarrow> 64 word option \<Rightarrow> bool result" where
  "Timestamp_ne this other = null2 this other (\<lambda>v w. Inr (\<not> (v = w)))"

definition Timestamp_less :: "64 word option \<Rightarrow> 64 word option \<Rightarrow> bool result" where
  "Timestamp_less this other = null2 this other (\<lambda>v w. Inr (sint v < sint w))"

definition Timestamp_less_eq :: "64 word option \<Rightarrow> 64 word option \<Rightarrow> bool result" where
  "Timestamp_less_eq this other = null2 this other (\<lambda>v w. Inr (sint v \<le> sint w))"

definition Timestamp_greater :: "64 word option \<Rightarrow> 64 word option \<Rightarrow> bool result" where
  "Timestamp_greater this other = null2 this other (\<lambda>v w. Inr (sint w < sint v))"

definition Timestamp_greater_eq :: "64 word option \<Rightarrow> 64 word option \<Rightarrow> bool result" where
  "Timestamp_greater_eq this other = null2 this other (\<lambda>v w. Inr (sint w \<le> sint v))"

definition Timestamp_plus :: "64 word option \<Rightarrow> 64 word option \<Rightarrow> 64 word option result" where
  "Timestamp_plus this other = null2 this other (\<lambda>v w. narrow (in_long (sint v + sint w)))"

definition Timestamp_minus :: "64 word option \<Rightarrow> 64 word option \<Rightarrow> 64 word option result" where
  "Timestamp_minus this other = null2 this other (\<lambda>v w. narrow (in_long (sint v - sint w)))"

definition Timestamp_value :: "64 word option \<Rightarrow> 64 word result" where
  "Timestamp_value this = null1 this Inr"

definition Timestamp_std_now :: "64 word \<Rightarrow> 64 word" where
  "Timestamp_std_now time = time"

definition Timestamp_now :: "64 word \<Rightarrow> 64 word option" where
  "Timestamp_now time = Some (Timestamp_std_now time)"

definition Timestamp_NOW :: "64 word \<Rightarrow> 64 word option" where
  "Timestamp_NOW time = Some (Timestamp_std_now time)"

text \<open>The text is made, and then \<open>delete\<close> is applied to the broken-down time, which the C library owns: undefined before
  the text is returned.\<close>

definition Timestamp_to_std_string_format :: "byte list \<Rightarrow> bool \<Rightarrow> 64 word option \<Rightarrow> byte list result" where
  "Timestamp_to_std_string_format format utc this =
     (case this of None \<Rightarrow> Inr NULL_STRING | Some v \<Rightarrow> Inl OutOfBounds)"

definition Timestamp_to_std_string_local :: "byte list \<Rightarrow> 64 word option \<Rightarrow> byte list result" where
  "Timestamp_to_std_string_local format this = Timestamp_to_std_string_format format False this"

definition Timestamp_to_std_string_utc :: "(bool \<Rightarrow> 64 word \<Rightarrow> byte list option) \<Rightarrow> bool \<Rightarrow> 64 word option \<Rightarrow> byte list result" where
  "Timestamp_to_std_string_utc asc utc this =
     (case this of None \<Rightarrow> Inr NULL_STRING
      | Some v \<Rightarrow> (case asc utc v of None \<Rightarrow> Inl OutOfBounds | Some date \<Rightarrow> Inr (butlast date)))"

definition Timestamp_to_std_string :: "(bool \<Rightarrow> 64 word \<Rightarrow> byte list option) \<Rightarrow> 64 word option \<Rightarrow> byte list result" where
  "Timestamp_to_std_string asc this = Timestamp_to_std_string_utc asc False this"

definition Timestamp_to_string :: "(bool \<Rightarrow> 64 word \<Rightarrow> byte list option) \<Rightarrow> 64 word option \<Rightarrow> byte list option result" where
  "Timestamp_to_string asc this = bind_res (Timestamp_to_std_string_utc asc False this) (\<lambda>s. Inr (Some s))"

definition Timestamp_TO_STRING :: "(bool \<Rightarrow> 64 word \<Rightarrow> byte list option) \<Rightarrow> 64 word option \<Rightarrow> byte list option result" where
  "Timestamp_TO_STRING asc this = bind_res (Timestamp_to_std_string_utc asc False this) (\<lambda>s. Inr (Some s))"

definition Timestamp_to_string_format_utc :: "byte list option \<Rightarrow> byte option \<Rightarrow> 64 word option \<Rightarrow> byte list option result" where
  "Timestamp_to_string_format_utc format utc this =
     null1 format (\<lambda>f. bind_res (Bool_value utc) (\<lambda>u.
       bind_res (Timestamp_to_std_string_format f (u \<noteq> 0) this) (\<lambda>s. Inr (Some s))))"

definition Timestamp_to_string_format :: "byte list option \<Rightarrow> 64 word option \<Rightarrow> byte list option result" where
  "Timestamp_to_string_format format this =
     null1 format (\<lambda>f. bind_res (Timestamp_to_std_string_format f False this) (\<lambda>s. Inr (Some s)))"

definition Timestamp_to_string_utc :: "(bool \<Rightarrow> 64 word \<Rightarrow> byte list option) \<Rightarrow> byte option \<Rightarrow> 64 word option \<Rightarrow> byte list option result" where
  "Timestamp_to_string_utc asc utc this =
     bind_res (Bool_value utc) (\<lambda>u. bind_res (Timestamp_to_std_string_utc asc (u \<noteq> 0) this) (\<lambda>s. Inr (Some s)))"

definition Timestamp_TO_STRING_format_utc :: "byte list option \<Rightarrow> byte option \<Rightarrow> 64 word option \<Rightarrow> byte list option result" where
  "Timestamp_TO_STRING_format_utc format utc this =
     null1 format (\<lambda>f. bind_res (Bool_value utc) (\<lambda>u.
       bind_res (Timestamp_to_std_string_format f (u \<noteq> 0) this) (\<lambda>s. Inr (Some s))))"

definition Timestamp_TO_STRING_format :: "byte list option \<Rightarrow> 64 word option \<Rightarrow> byte list option result" where
  "Timestamp_TO_STRING_format format this =
     null1 format (\<lambda>f. bind_res (Timestamp_to_std_string_format f False this) (\<lambda>s. Inr (Some s)))"

definition Timestamp_TO_STRING_utc :: "(bool \<Rightarrow> 64 word \<Rightarrow> byte list option) \<Rightarrow> byte option \<Rightarrow> 64 word option \<Rightarrow> byte list option result" where
  "Timestamp_TO_STRING_utc asc utc this =
     bind_res (Bool_value utc) (\<lambda>u. bind_res (Timestamp_to_std_string_utc asc (u \<noteq> 0) this) (\<lambda>s. Inr (Some s)))"

definition Timestamp_write :: "binary \<Rightarrow> 64 word option \<Rightarrow> stream \<Rightarrow> stream" where
  "Timestamp_write k = write_nullable k Timestamp_tdb (write_time k)"

definition Timestamp_read :: "binary \<Rightarrow> memory \<Rightarrow> 64 word option \<Rightarrow> stream \<Rightarrow> 64 word option \<times> stream" where
  "Timestamp_read k memory = read_nullable k memory (read_time k) 0"

interpretation timestamp_type: packed "Timestamp_write k" "Timestamp_read k" "\<lambda>x. Timestamp_tdb x # (case x of None \<Rightarrow> [] | Some v \<Rightarrow> (octets_of k) v)"
    "Object_pack_size Timestamp_tdb" "\<lambda>_. True" for k
  unfolding Timestamp_write_def [abs_def] Timestamp_read_def [abs_def]
  by (rule packed_nullable [OF b_time.object_io_axioms]) (simp_all add: Timestamp_tdb_def Timestamp_TDB_def tdb_types tdb_parts SIZEOF_def)

end
