(* ===== verification/Type_Integers.thy ===== *)
theory Type_Integers
  imports Type_Base
begin

text \<open>
  The integers of \<open>Type/\<close>: \<open>Byte\<close>, \<open>UByte\<close>, \<open>Short\<close>, \<open>UShort\<close>, \<open>Int\<close>, \<open>UInt\<close>, \<open>Long\<close> and \<open>ULong\<close>, a nullable word each.
  One definition stands for the two overloads of an operation that take an rvalue and a reference. \<open>increment\<close> and its
  like give what the object holds afterwards, which is also what the reference they return shows.
\<close>

section \<open>Byte\<close>

definition Byte_TDB :: "byte" where
  "Byte_TDB = tdb_BYTE"

definition Byte_tdb :: "8 word option \<Rightarrow> byte" where
  "Byte_tdb this = (if this = None then Byte_TDB OR IS_NULL else Byte_TDB)"

definition Byte_new :: "8 word option" where
  "Byte_new = Some 0"

definition Byte_null :: "8 word option" where
  "Byte_null = None"

definition Byte_of :: "8 word \<Rightarrow> 8 word option" where
  "Byte_of other = Some other"

definition Byte_move :: "8 word option \<Rightarrow> 8 word option \<times> 8 word option" where
  "Byte_move other = (other, None)"

definition Byte_copy :: "8 word option \<Rightarrow> 8 word option" where
  "Byte_copy other = (case other of None \<Rightarrow> None | Some v \<Rightarrow> Some v)"

definition Byte_of_int :: "32 word \<Rightarrow> 8 word option" where
  "Byte_of_int other = Some (ucast other)"

definition Byte_of_Int :: "32 word option \<Rightarrow> 8 word option" where
  "Byte_of_Int other = (case other of None \<Rightarrow> None | Some v \<Rightarrow> Some (ucast v))"

definition Byte_set_null :: "8 word option \<Rightarrow> 8 word option" where
  "Byte_set_null this = free_value this"

definition Byte_assign_null :: "8 word option \<Rightarrow> 8 word option" where
  "Byte_assign_null this = Byte_set_null this"

definition Byte_assign_value :: "bool \<Rightarrow> 8 word option \<Rightarrow> 8 word \<Rightarrow> 8 word option" where
  "Byte_assign_value same this other = (if \<not> same then Some other else this)"

definition Byte_assign_move :: "bool \<Rightarrow> 8 word option \<Rightarrow> 8 word option \<Rightarrow> 8 word option \<times> 8 word option" where
  "Byte_assign_move same this other = (if \<not> same then (other, None) else (this, other))"

definition Byte_assign :: "bool \<Rightarrow> 8 word option \<Rightarrow> 8 word option \<Rightarrow> 8 word option" where
  "Byte_assign same this other =
     (if \<not> same then (case other of None \<Rightarrow> Byte_set_null this | Some v \<Rightarrow> Some v) else this)"

definition Byte_eq_null :: "8 word option \<Rightarrow> bool result" where
  "Byte_eq_null this = Inl NULL_EXCEPTION"

definition Byte_eq_value :: "8 word option \<Rightarrow> 8 word \<Rightarrow> bool result" where
  "Byte_eq_value this other = null1 this (\<lambda>v. Inr (v = other))"

definition Byte_eq :: "8 word option \<Rightarrow> 8 word option \<Rightarrow> bool result" where
  "Byte_eq this other = null2 this other (\<lambda>v w. Inr (v = w))"

definition Byte_ne_null :: "8 word option \<Rightarrow> bool result" where
  "Byte_ne_null this = Inl NULL_EXCEPTION"

definition Byte_ne_value :: "8 word option \<Rightarrow> 8 word \<Rightarrow> bool result" where
  "Byte_ne_value this other = null1 this (\<lambda>v. Inr (v \<noteq> other))"

definition Byte_ne :: "8 word option \<Rightarrow> 8 word option \<Rightarrow> bool result" where
  "Byte_ne this other = null2 this other (\<lambda>v w. Inr (v \<noteq> w))"

definition Byte_less :: "8 word option \<Rightarrow> 8 word option \<Rightarrow> bool result" where
  "Byte_less this other = null2 this other (\<lambda>v w. Inr (sint v < sint w))"

definition Byte_less_eq :: "8 word option \<Rightarrow> 8 word option \<Rightarrow> bool result" where
  "Byte_less_eq this other = null2 this other (\<lambda>v w. Inr (sint v \<le> sint w))"

definition Byte_greater :: "8 word option \<Rightarrow> 8 word option \<Rightarrow> bool result" where
  "Byte_greater this other = null2 this other (\<lambda>v w. Inr (sint v > sint w))"

definition Byte_greater_eq :: "8 word option \<Rightarrow> 8 word option \<Rightarrow> bool result" where
  "Byte_greater_eq this other = null2 this other (\<lambda>v w. Inr (sint v \<ge> sint w))"

definition Byte_plus :: "8 word option \<Rightarrow> 8 word option \<Rightarrow> 8 word option result" where
  "Byte_plus this other = null2 this other (\<lambda>v w. narrow (in_int (sint v + sint w)))"

definition Byte_minus :: "8 word option \<Rightarrow> 8 word option \<Rightarrow> 8 word option result" where
  "Byte_minus this other = null2 this other (\<lambda>v w. narrow (in_int (sint v - sint w)))"

definition Byte_times :: "8 word option \<Rightarrow> 8 word option \<Rightarrow> 8 word option result" where
  "Byte_times this other = null2 this other (\<lambda>v w. narrow (in_int (sint v * sint w)))"

definition Byte_divide :: "8 word option \<Rightarrow> 8 word option \<Rightarrow> 8 word option result" where
  "Byte_divide this other = null2 this other (\<lambda>v w. narrow (c_quotient in_int (sint v) (sint w)))"

definition Byte_modulo :: "8 word option \<Rightarrow> 8 word option \<Rightarrow> 8 word option result" where
  "Byte_modulo this other = null2 this other (\<lambda>v w. narrow (c_remainder in_int (sint v) (sint w)))"

definition Byte_increment :: "8 word option \<Rightarrow> 8 word option result" where
  "Byte_increment this = null1 this (\<lambda>v. narrow (in_int (sint v + 1)))"

definition Byte_increment_post :: "8 word option \<Rightarrow> 8 word option result" where
  "Byte_increment_post this = Byte_increment this"

definition Byte_decrement :: "8 word option \<Rightarrow> 8 word option result" where
  "Byte_decrement this = null1 this (\<lambda>v. narrow (in_int (sint v - 1)))"

definition Byte_value :: "8 word option \<Rightarrow> 8 word result" where
  "Byte_value this = null1 this Inr"

definition Byte_to_std_string :: "8 word option \<Rightarrow> byte list" where
  "Byte_to_std_string this = (case this of None \<Rightarrow> NULL_STRING | Some v \<Rightarrow> std_to_string (sint v))"

definition Byte_write :: "binary \<Rightarrow> 8 word option \<Rightarrow> stream \<Rightarrow> stream" where
  "Byte_write k = write_nullable k Byte_tdb (bs_write_std_byte (big_host k))"

definition Byte_read :: "binary \<Rightarrow> memory \<Rightarrow> 8 word option \<Rightarrow> stream \<Rightarrow> 8 word option \<times> stream" where
  "Byte_read k memory = read_nullable k memory (bs_read_std_byte_ref (big_host k)) 0"

interpretation byte_type: packed "Byte_write k" "Byte_read k" "\<lambda>x. Byte_tdb x # (case x of None \<Rightarrow> [] | Some v \<Rightarrow> (\<lambda>v. [v]) v)"
    "Object_pack_size Byte_tdb" "\<lambda>_. True" for k
  unfolding Byte_write_def [abs_def] Byte_read_def [abs_def]
  by (rule packed_nullable [OF b_byte.object_io_axioms]) (simp_all add: Byte_tdb_def Byte_TDB_def tdb_types tdb_parts SIZEOF_def)

section \<open>UByte\<close>

definition UByte_TDB :: "byte" where
  "UByte_TDB = tdb_UBYTE"

definition UByte_tdb :: "8 word option \<Rightarrow> byte" where
  "UByte_tdb this = (if this = None then UByte_TDB OR IS_NULL else UByte_TDB)"

definition UByte_new :: "8 word option" where
  "UByte_new = Some 0"

definition UByte_null :: "8 word option" where
  "UByte_null = None"

definition UByte_of :: "8 word \<Rightarrow> 8 word option" where
  "UByte_of other = Some other"

definition UByte_move :: "8 word option \<Rightarrow> 8 word option \<times> 8 word option" where
  "UByte_move other = (other, None)"

definition UByte_copy :: "8 word option \<Rightarrow> 8 word option" where
  "UByte_copy other = (case other of None \<Rightarrow> None | Some v \<Rightarrow> Some v)"

definition UByte_of_int :: "32 word \<Rightarrow> 8 word option" where
  "UByte_of_int other = Some (ucast other)"

definition UByte_of_Int :: "32 word option \<Rightarrow> 8 word option" where
  "UByte_of_Int other = (case other of None \<Rightarrow> None | Some v \<Rightarrow> Some (ucast v))"

definition UByte_set_null :: "8 word option \<Rightarrow> 8 word option" where
  "UByte_set_null this = free_value this"

definition UByte_assign_null :: "8 word option \<Rightarrow> 8 word option" where
  "UByte_assign_null this = UByte_set_null this"

definition UByte_assign_value :: "bool \<Rightarrow> 8 word option \<Rightarrow> 8 word \<Rightarrow> 8 word option" where
  "UByte_assign_value same this other = (if \<not> same then Some other else this)"

definition UByte_assign_move :: "bool \<Rightarrow> 8 word option \<Rightarrow> 8 word option \<Rightarrow> 8 word option \<times> 8 word option" where
  "UByte_assign_move same this other = (if \<not> same then (other, None) else (this, other))"

definition UByte_assign :: "bool \<Rightarrow> 8 word option \<Rightarrow> 8 word option \<Rightarrow> 8 word option" where
  "UByte_assign same this other =
     (if \<not> same then (case other of None \<Rightarrow> UByte_set_null this | Some v \<Rightarrow> Some v) else this)"

definition UByte_eq_null :: "8 word option \<Rightarrow> bool result" where
  "UByte_eq_null this = Inl NULL_EXCEPTION"

definition UByte_eq_value :: "8 word option \<Rightarrow> 8 word \<Rightarrow> bool result" where
  "UByte_eq_value this other = null1 this (\<lambda>v. Inr (v = other))"

definition UByte_eq :: "8 word option \<Rightarrow> 8 word option \<Rightarrow> bool result" where
  "UByte_eq this other = null2 this other (\<lambda>v w. Inr (v = w))"

definition UByte_ne_null :: "8 word option \<Rightarrow> bool result" where
  "UByte_ne_null this = Inl NULL_EXCEPTION"

definition UByte_ne_value :: "8 word option \<Rightarrow> 8 word \<Rightarrow> bool result" where
  "UByte_ne_value this other = null1 this (\<lambda>v. Inr (v \<noteq> other))"

definition UByte_ne :: "8 word option \<Rightarrow> 8 word option \<Rightarrow> bool result" where
  "UByte_ne this other = null2 this other (\<lambda>v w. Inr (v \<noteq> w))"

definition UByte_less :: "8 word option \<Rightarrow> 8 word option \<Rightarrow> bool result" where
  "UByte_less this other = null2 this other (\<lambda>v w. Inr (uint v < uint w))"

definition UByte_less_eq :: "8 word option \<Rightarrow> 8 word option \<Rightarrow> bool result" where
  "UByte_less_eq this other = null2 this other (\<lambda>v w. Inr (uint v \<le> uint w))"

definition UByte_greater :: "8 word option \<Rightarrow> 8 word option \<Rightarrow> bool result" where
  "UByte_greater this other = null2 this other (\<lambda>v w. Inr (uint v > uint w))"

definition UByte_greater_eq :: "8 word option \<Rightarrow> 8 word option \<Rightarrow> bool result" where
  "UByte_greater_eq this other = null2 this other (\<lambda>v w. Inr (uint v \<ge> uint w))"

definition UByte_plus :: "8 word option \<Rightarrow> 8 word option \<Rightarrow> 8 word option result" where
  "UByte_plus this other = null2 this other (\<lambda>v w. narrow (in_int (uint v + uint w)))"

definition UByte_minus :: "8 word option \<Rightarrow> 8 word option \<Rightarrow> 8 word option result" where
  "UByte_minus this other = null2 this other (\<lambda>v w. narrow (in_int (uint v - uint w)))"

definition UByte_times :: "8 word option \<Rightarrow> 8 word option \<Rightarrow> 8 word option result" where
  "UByte_times this other = null2 this other (\<lambda>v w. narrow (in_int (uint v * uint w)))"

definition UByte_divide :: "8 word option \<Rightarrow> 8 word option \<Rightarrow> 8 word option result" where
  "UByte_divide this other = null2 this other (\<lambda>v w. narrow (c_quotient in_int (uint v) (uint w)))"

definition UByte_modulo :: "8 word option \<Rightarrow> 8 word option \<Rightarrow> 8 word option result" where
  "UByte_modulo this other = null2 this other (\<lambda>v w. narrow (c_remainder in_int (uint v) (uint w)))"

definition UByte_increment :: "8 word option \<Rightarrow> 8 word option result" where
  "UByte_increment this = null1 this (\<lambda>v. narrow (in_int (uint v + 1)))"

definition UByte_increment_post :: "8 word option \<Rightarrow> 8 word option result" where
  "UByte_increment_post this = UByte_increment this"

definition UByte_decrement :: "8 word option \<Rightarrow> 8 word option result" where
  "UByte_decrement this = null1 this (\<lambda>v. narrow (in_int (uint v - 1)))"

definition UByte_value :: "8 word option \<Rightarrow> 8 word result" where
  "UByte_value this = null1 this Inr"

definition UByte_to_std_string :: "8 word option \<Rightarrow> byte list" where
  "UByte_to_std_string this = (case this of None \<Rightarrow> NULL_STRING | Some v \<Rightarrow> std_to_string (uint v))"

definition UByte_write :: "binary \<Rightarrow> 8 word option \<Rightarrow> stream \<Rightarrow> stream" where
  "UByte_write k = write_nullable k UByte_tdb (bs_write_std_ubyte (big_host k))"

definition UByte_read :: "binary \<Rightarrow> memory \<Rightarrow> 8 word option \<Rightarrow> stream \<Rightarrow> 8 word option \<times> stream" where
  "UByte_read k memory = read_nullable k memory (bs_read_std_ubyte_ref (big_host k)) 0"

interpretation ubyte_type: packed "UByte_write k" "UByte_read k" "\<lambda>x. UByte_tdb x # (case x of None \<Rightarrow> [] | Some v \<Rightarrow> (\<lambda>v. [v]) v)"
    "Object_pack_size UByte_tdb" "\<lambda>_. True" for k
  unfolding UByte_write_def [abs_def] UByte_read_def [abs_def]
  by (rule packed_nullable [OF b_ubyte.object_io_axioms]) (simp_all add: UByte_tdb_def UByte_TDB_def tdb_types tdb_parts SIZEOF_def)

section \<open>Short\<close>

definition Short_TDB :: "byte" where
  "Short_TDB = tdb_SHORT"

definition Short_tdb :: "16 word option \<Rightarrow> byte" where
  "Short_tdb this = (if this = None then Short_TDB OR IS_NULL else Short_TDB)"

definition Short_new :: "16 word option" where
  "Short_new = Some 0"

definition Short_null :: "16 word option" where
  "Short_null = None"

definition Short_of :: "16 word \<Rightarrow> 16 word option" where
  "Short_of other = Some other"

definition Short_move :: "16 word option \<Rightarrow> 16 word option \<times> 16 word option" where
  "Short_move other = (other, None)"

definition Short_copy :: "16 word option \<Rightarrow> 16 word option" where
  "Short_copy other = (case other of None \<Rightarrow> None | Some v \<Rightarrow> Some v)"

definition Short_of_int :: "32 word \<Rightarrow> 16 word option" where
  "Short_of_int other = Some (ucast other)"

definition Short_of_Int :: "32 word option \<Rightarrow> 16 word option" where
  "Short_of_Int other = (case other of None \<Rightarrow> None | Some v \<Rightarrow> Some (ucast v))"

definition Short_set_null :: "16 word option \<Rightarrow> 16 word option" where
  "Short_set_null this = free_value this"

definition Short_assign_null :: "16 word option \<Rightarrow> 16 word option" where
  "Short_assign_null this = Short_set_null this"

definition Short_assign_value :: "bool \<Rightarrow> 16 word option \<Rightarrow> 16 word \<Rightarrow> 16 word option" where
  "Short_assign_value same this other = (if \<not> same then Some other else this)"

definition Short_assign_move :: "bool \<Rightarrow> 16 word option \<Rightarrow> 16 word option \<Rightarrow> 16 word option \<times> 16 word option" where
  "Short_assign_move same this other = (if \<not> same then (other, None) else (this, other))"

definition Short_assign :: "bool \<Rightarrow> 16 word option \<Rightarrow> 16 word option \<Rightarrow> 16 word option" where
  "Short_assign same this other =
     (if \<not> same then (case other of None \<Rightarrow> Short_set_null this | Some v \<Rightarrow> Some v) else this)"

definition Short_eq_null :: "16 word option \<Rightarrow> bool result" where
  "Short_eq_null this = Inl NULL_EXCEPTION"

definition Short_eq_value :: "16 word option \<Rightarrow> 16 word \<Rightarrow> bool result" where
  "Short_eq_value this other = null1 this (\<lambda>v. Inr (v = other))"

definition Short_eq :: "16 word option \<Rightarrow> 16 word option \<Rightarrow> bool result" where
  "Short_eq this other = null2 this other (\<lambda>v w. Inr (v = w))"

definition Short_ne_null :: "16 word option \<Rightarrow> bool result" where
  "Short_ne_null this = Inl NULL_EXCEPTION"

definition Short_ne_value :: "16 word option \<Rightarrow> 16 word \<Rightarrow> bool result" where
  "Short_ne_value this other = null1 this (\<lambda>v. Inr (v \<noteq> other))"

definition Short_ne :: "16 word option \<Rightarrow> 16 word option \<Rightarrow> bool result" where
  "Short_ne this other = null2 this other (\<lambda>v w. Inr (v \<noteq> w))"

definition Short_less :: "16 word option \<Rightarrow> 16 word option \<Rightarrow> bool result" where
  "Short_less this other = null2 this other (\<lambda>v w. Inr (sint v < sint w))"

definition Short_less_eq :: "16 word option \<Rightarrow> 16 word option \<Rightarrow> bool result" where
  "Short_less_eq this other = null2 this other (\<lambda>v w. Inr (sint v \<le> sint w))"

definition Short_greater :: "16 word option \<Rightarrow> 16 word option \<Rightarrow> bool result" where
  "Short_greater this other = null2 this other (\<lambda>v w. Inr (sint v > sint w))"

definition Short_greater_eq :: "16 word option \<Rightarrow> 16 word option \<Rightarrow> bool result" where
  "Short_greater_eq this other = null2 this other (\<lambda>v w. Inr (sint v \<ge> sint w))"

definition Short_plus :: "16 word option \<Rightarrow> 16 word option \<Rightarrow> 16 word option result" where
  "Short_plus this other = null2 this other (\<lambda>v w. narrow (in_int (sint v + sint w)))"

definition Short_minus :: "16 word option \<Rightarrow> 16 word option \<Rightarrow> 16 word option result" where
  "Short_minus this other = null2 this other (\<lambda>v w. narrow (in_int (sint v - sint w)))"

definition Short_times :: "16 word option \<Rightarrow> 16 word option \<Rightarrow> 16 word option result" where
  "Short_times this other = null2 this other (\<lambda>v w. narrow (in_int (sint v * sint w)))"

definition Short_divide :: "16 word option \<Rightarrow> 16 word option \<Rightarrow> 16 word option result" where
  "Short_divide this other = null2 this other (\<lambda>v w. narrow (c_quotient in_int (sint v) (sint w)))"

definition Short_modulo :: "16 word option \<Rightarrow> 16 word option \<Rightarrow> 16 word option result" where
  "Short_modulo this other = null2 this other (\<lambda>v w. narrow (c_remainder in_int (sint v) (sint w)))"

definition Short_increment :: "16 word option \<Rightarrow> 16 word option result" where
  "Short_increment this = null1 this (\<lambda>v. narrow (in_int (sint v + 1)))"

definition Short_increment_post :: "16 word option \<Rightarrow> 16 word option result" where
  "Short_increment_post this = Short_increment this"

definition Short_decrement :: "16 word option \<Rightarrow> 16 word option result" where
  "Short_decrement this = null1 this (\<lambda>v. narrow (in_int (sint v - 1)))"

definition Short_value :: "16 word option \<Rightarrow> 16 word result" where
  "Short_value this = null1 this Inr"

definition Short_to_std_string :: "16 word option \<Rightarrow> byte list" where
  "Short_to_std_string this = (case this of None \<Rightarrow> NULL_STRING | Some v \<Rightarrow> std_to_string (sint v))"

definition Short_write :: "binary \<Rightarrow> 16 word option \<Rightarrow> stream \<Rightarrow> stream" where
  "Short_write k = write_nullable k Short_tdb (write_short k)"

definition Short_read :: "binary \<Rightarrow> memory \<Rightarrow> 16 word option \<Rightarrow> stream \<Rightarrow> 16 word option \<times> stream" where
  "Short_read k memory = read_nullable k memory (read_short k) 0"

interpretation short_type: packed "Short_write k" "Short_read k" "\<lambda>x. Short_tdb x # (case x of None \<Rightarrow> [] | Some v \<Rightarrow> (octets_of k) v)"
    "Object_pack_size Short_tdb" "\<lambda>_. True" for k
  unfolding Short_write_def [abs_def] Short_read_def [abs_def]
  by (rule packed_nullable [OF b_short.object_io_axioms]) (simp_all add: Short_tdb_def Short_TDB_def tdb_types tdb_parts SIZEOF_def)

section \<open>UShort\<close>

definition UShort_TDB :: "byte" where
  "UShort_TDB = tdb_USHORT"

definition UShort_tdb :: "16 word option \<Rightarrow> byte" where
  "UShort_tdb this = (if this = None then UShort_TDB OR IS_NULL else UShort_TDB)"

definition UShort_new :: "16 word option" where
  "UShort_new = Some 0"

definition UShort_null :: "16 word option" where
  "UShort_null = None"

definition UShort_of :: "16 word \<Rightarrow> 16 word option" where
  "UShort_of other = Some other"

definition UShort_move :: "16 word option \<Rightarrow> 16 word option \<times> 16 word option" where
  "UShort_move other = (other, None)"

definition UShort_copy :: "16 word option \<Rightarrow> 16 word option" where
  "UShort_copy other = (case other of None \<Rightarrow> None | Some v \<Rightarrow> Some v)"

definition UShort_of_int :: "32 word \<Rightarrow> 16 word option" where
  "UShort_of_int other = Some (ucast other)"

definition UShort_of_Int :: "32 word option \<Rightarrow> 16 word option" where
  "UShort_of_Int other = (case other of None \<Rightarrow> None | Some v \<Rightarrow> Some (ucast v))"

definition UShort_set_null :: "16 word option \<Rightarrow> 16 word option" where
  "UShort_set_null this = free_value this"

definition UShort_assign_null :: "16 word option \<Rightarrow> 16 word option" where
  "UShort_assign_null this = UShort_set_null this"

definition UShort_assign_value :: "bool \<Rightarrow> 16 word option \<Rightarrow> 16 word \<Rightarrow> 16 word option" where
  "UShort_assign_value same this other = (if \<not> same then Some other else this)"

definition UShort_assign_move :: "bool \<Rightarrow> 16 word option \<Rightarrow> 16 word option \<Rightarrow> 16 word option \<times> 16 word option" where
  "UShort_assign_move same this other = (if \<not> same then (other, None) else (this, other))"

definition UShort_assign :: "bool \<Rightarrow> 16 word option \<Rightarrow> 16 word option \<Rightarrow> 16 word option" where
  "UShort_assign same this other =
     (if \<not> same then (case other of None \<Rightarrow> UShort_set_null this | Some v \<Rightarrow> Some v) else this)"

definition UShort_eq_null :: "16 word option \<Rightarrow> bool result" where
  "UShort_eq_null this = Inl NULL_EXCEPTION"

definition UShort_eq_value :: "16 word option \<Rightarrow> 16 word \<Rightarrow> bool result" where
  "UShort_eq_value this other = null1 this (\<lambda>v. Inr (v = other))"

definition UShort_eq :: "16 word option \<Rightarrow> 16 word option \<Rightarrow> bool result" where
  "UShort_eq this other = null2 this other (\<lambda>v w. Inr (v = w))"

definition UShort_ne_null :: "16 word option \<Rightarrow> bool result" where
  "UShort_ne_null this = Inl NULL_EXCEPTION"

definition UShort_ne_value :: "16 word option \<Rightarrow> 16 word \<Rightarrow> bool result" where
  "UShort_ne_value this other = null1 this (\<lambda>v. Inr (v \<noteq> other))"

definition UShort_ne :: "16 word option \<Rightarrow> 16 word option \<Rightarrow> bool result" where
  "UShort_ne this other = null2 this other (\<lambda>v w. Inr (v \<noteq> w))"

definition UShort_less :: "16 word option \<Rightarrow> 16 word option \<Rightarrow> bool result" where
  "UShort_less this other = null2 this other (\<lambda>v w. Inr (uint v < uint w))"

definition UShort_less_eq :: "16 word option \<Rightarrow> 16 word option \<Rightarrow> bool result" where
  "UShort_less_eq this other = null2 this other (\<lambda>v w. Inr (uint v \<le> uint w))"

definition UShort_greater :: "16 word option \<Rightarrow> 16 word option \<Rightarrow> bool result" where
  "UShort_greater this other = null2 this other (\<lambda>v w. Inr (uint v > uint w))"

definition UShort_greater_eq :: "16 word option \<Rightarrow> 16 word option \<Rightarrow> bool result" where
  "UShort_greater_eq this other = null2 this other (\<lambda>v w. Inr (uint v \<ge> uint w))"

definition UShort_plus :: "16 word option \<Rightarrow> 16 word option \<Rightarrow> 16 word option result" where
  "UShort_plus this other = null2 this other (\<lambda>v w. narrow (in_int (uint v + uint w)))"

definition UShort_minus :: "16 word option \<Rightarrow> 16 word option \<Rightarrow> 16 word option result" where
  "UShort_minus this other = null2 this other (\<lambda>v w. narrow (in_int (uint v - uint w)))"

definition UShort_times :: "16 word option \<Rightarrow> 16 word option \<Rightarrow> 16 word option result" where
  "UShort_times this other = null2 this other (\<lambda>v w. narrow (in_int (uint v * uint w)))"

definition UShort_divide :: "16 word option \<Rightarrow> 16 word option \<Rightarrow> 16 word option result" where
  "UShort_divide this other = null2 this other (\<lambda>v w. narrow (c_quotient in_int (uint v) (uint w)))"

definition UShort_modulo :: "16 word option \<Rightarrow> 16 word option \<Rightarrow> 16 word option result" where
  "UShort_modulo this other = null2 this other (\<lambda>v w. narrow (c_remainder in_int (uint v) (uint w)))"

definition UShort_increment :: "16 word option \<Rightarrow> 16 word option result" where
  "UShort_increment this = null1 this (\<lambda>v. narrow (in_int (uint v + 1)))"

definition UShort_increment_post :: "16 word option \<Rightarrow> 16 word option result" where
  "UShort_increment_post this = UShort_increment this"

definition UShort_decrement :: "16 word option \<Rightarrow> 16 word option result" where
  "UShort_decrement this = null1 this (\<lambda>v. narrow (in_int (uint v - 1)))"

definition UShort_value :: "16 word option \<Rightarrow> 16 word result" where
  "UShort_value this = null1 this Inr"

definition UShort_to_std_string :: "16 word option \<Rightarrow> byte list" where
  "UShort_to_std_string this = (case this of None \<Rightarrow> NULL_STRING | Some v \<Rightarrow> std_to_string (uint v))"

definition UShort_write :: "binary \<Rightarrow> 16 word option \<Rightarrow> stream \<Rightarrow> stream" where
  "UShort_write k = write_nullable k UShort_tdb (write_ushort k)"

definition UShort_read :: "binary \<Rightarrow> memory \<Rightarrow> 16 word option \<Rightarrow> stream \<Rightarrow> 16 word option \<times> stream" where
  "UShort_read k memory = read_nullable k memory (read_ushort k) 0"

interpretation ushort_type: packed "UShort_write k" "UShort_read k" "\<lambda>x. UShort_tdb x # (case x of None \<Rightarrow> [] | Some v \<Rightarrow> (octets_of k) v)"
    "Object_pack_size UShort_tdb" "\<lambda>_. True" for k
  unfolding UShort_write_def [abs_def] UShort_read_def [abs_def]
  by (rule packed_nullable [OF b_ushort.object_io_axioms]) (simp_all add: UShort_tdb_def UShort_TDB_def tdb_types tdb_parts SIZEOF_def)

section \<open>Int\<close>

definition Int_TDB :: "byte" where
  "Int_TDB = tdb_INT"

definition Int_tdb :: "32 word option \<Rightarrow> byte" where
  "Int_tdb this = (if this = None then Int_TDB OR IS_NULL else Int_TDB)"

definition Int_new :: "32 word option" where
  "Int_new = Some 0"

definition Int_null :: "32 word option" where
  "Int_null = None"

definition Int_of :: "32 word \<Rightarrow> 32 word option" where
  "Int_of other = Some other"

definition Int_move :: "32 word option \<Rightarrow> 32 word option \<times> 32 word option" where
  "Int_move other = (other, None)"

definition Int_copy :: "32 word option \<Rightarrow> 32 word option" where
  "Int_copy other = (case other of None \<Rightarrow> None | Some v \<Rightarrow> Some v)"

definition Int_set_null :: "32 word option \<Rightarrow> 32 word option" where
  "Int_set_null this = free_value this"

definition Int_assign_null :: "32 word option \<Rightarrow> 32 word option" where
  "Int_assign_null this = Int_set_null this"

definition Int_assign_value :: "bool \<Rightarrow> 32 word option \<Rightarrow> 32 word \<Rightarrow> 32 word option" where
  "Int_assign_value same this other = (if \<not> same then Some other else this)"

definition Int_assign_move :: "bool \<Rightarrow> 32 word option \<Rightarrow> 32 word option \<Rightarrow> 32 word option \<times> 32 word option" where
  "Int_assign_move same this other = (if \<not> same then (other, None) else (this, other))"

definition Int_assign :: "bool \<Rightarrow> 32 word option \<Rightarrow> 32 word option \<Rightarrow> 32 word option" where
  "Int_assign same this other =
     (if \<not> same then (case other of None \<Rightarrow> Int_set_null this | Some v \<Rightarrow> Some v) else this)"

definition Int_eq_null :: "32 word option \<Rightarrow> bool result" where
  "Int_eq_null this = Inl NULL_EXCEPTION"

definition Int_eq_value :: "32 word option \<Rightarrow> 32 word \<Rightarrow> bool result" where
  "Int_eq_value this other = null1 this (\<lambda>v. Inr (v = other))"

definition Int_eq :: "32 word option \<Rightarrow> 32 word option \<Rightarrow> bool result" where
  "Int_eq this other = null2 this other (\<lambda>v w. Inr (v = w))"

definition Int_ne_null :: "32 word option \<Rightarrow> bool result" where
  "Int_ne_null this = Inl NULL_EXCEPTION"

definition Int_ne_value :: "32 word option \<Rightarrow> 32 word \<Rightarrow> bool result" where
  "Int_ne_value this other = null1 this (\<lambda>v. Inr (v \<noteq> other))"

definition Int_ne :: "32 word option \<Rightarrow> 32 word option \<Rightarrow> bool result" where
  "Int_ne this other = null2 this other (\<lambda>v w. Inr (v \<noteq> w))"

definition Int_less :: "32 word option \<Rightarrow> 32 word option \<Rightarrow> bool result" where
  "Int_less this other = null2 this other (\<lambda>v w. Inr (sint v < sint w))"

definition Int_less_eq :: "32 word option \<Rightarrow> 32 word option \<Rightarrow> bool result" where
  "Int_less_eq this other = null2 this other (\<lambda>v w. Inr (sint v \<le> sint w))"

definition Int_greater :: "32 word option \<Rightarrow> 32 word option \<Rightarrow> bool result" where
  "Int_greater this other = null2 this other (\<lambda>v w. Inr (sint v > sint w))"

definition Int_greater_eq :: "32 word option \<Rightarrow> 32 word option \<Rightarrow> bool result" where
  "Int_greater_eq this other = null2 this other (\<lambda>v w. Inr (sint v \<ge> sint w))"

definition Int_plus :: "32 word option \<Rightarrow> 32 word option \<Rightarrow> 32 word option result" where
  "Int_plus this other = null2 this other (\<lambda>v w. narrow (in_int (sint v + sint w)))"

definition Int_minus :: "32 word option \<Rightarrow> 32 word option \<Rightarrow> 32 word option result" where
  "Int_minus this other = null2 this other (\<lambda>v w. narrow (in_int (sint v - sint w)))"

definition Int_times :: "32 word option \<Rightarrow> 32 word option \<Rightarrow> 32 word option result" where
  "Int_times this other = null2 this other (\<lambda>v w. narrow (in_int (sint v * sint w)))"

definition Int_divide :: "32 word option \<Rightarrow> 32 word option \<Rightarrow> 32 word option result" where
  "Int_divide this other = null2 this other (\<lambda>v w. narrow (c_quotient in_int (sint v) (sint w)))"

definition Int_modulo :: "32 word option \<Rightarrow> 32 word option \<Rightarrow> 32 word option result" where
  "Int_modulo this other = null2 this other (\<lambda>v w. narrow (c_remainder in_int (sint v) (sint w)))"

definition Int_increment :: "32 word option \<Rightarrow> 32 word option result" where
  "Int_increment this = null1 this (\<lambda>v. narrow (in_int (sint v + 1)))"

definition Int_increment_post :: "32 word option \<Rightarrow> 32 word option result" where
  "Int_increment_post this = Int_increment this"

definition Int_decrement :: "32 word option \<Rightarrow> 32 word option result" where
  "Int_decrement this = null1 this (\<lambda>v. narrow (in_int (sint v - 1)))"

definition Int_value :: "32 word option \<Rightarrow> 32 word result" where
  "Int_value this = null1 this Inr"

definition Int_to_std_string :: "32 word option \<Rightarrow> byte list" where
  "Int_to_std_string this = (case this of None \<Rightarrow> NULL_STRING | Some v \<Rightarrow> std_to_string (sint v))"

definition Int_write :: "binary \<Rightarrow> 32 word option \<Rightarrow> stream \<Rightarrow> stream" where
  "Int_write k = write_nullable k Int_tdb (write_int k)"

definition Int_read :: "binary \<Rightarrow> memory \<Rightarrow> 32 word option \<Rightarrow> stream \<Rightarrow> 32 word option \<times> stream" where
  "Int_read k memory = read_nullable k memory (read_int k) 0"

interpretation int_type: packed "Int_write k" "Int_read k" "\<lambda>x. Int_tdb x # (case x of None \<Rightarrow> [] | Some v \<Rightarrow> (octets_of k) v)"
    "Object_pack_size Int_tdb" "\<lambda>_. True" for k
  unfolding Int_write_def [abs_def] Int_read_def [abs_def]
  by (rule packed_nullable [OF b_int.object_io_axioms]) (simp_all add: Int_tdb_def Int_TDB_def tdb_types tdb_parts SIZEOF_def)

section \<open>UInt\<close>

definition UInt_TDB :: "byte" where
  "UInt_TDB = tdb_UINT"

definition UInt_tdb :: "32 word option \<Rightarrow> byte" where
  "UInt_tdb this = (if this = None then UInt_TDB OR IS_NULL else UInt_TDB)"

definition UInt_new :: "32 word option" where
  "UInt_new = Some 0"

definition UInt_null :: "32 word option" where
  "UInt_null = None"

definition UInt_of :: "32 word \<Rightarrow> 32 word option" where
  "UInt_of other = Some other"

definition UInt_move :: "32 word option \<Rightarrow> 32 word option \<times> 32 word option" where
  "UInt_move other = (other, None)"

definition UInt_copy :: "32 word option \<Rightarrow> 32 word option" where
  "UInt_copy other = (case other of None \<Rightarrow> None | Some v \<Rightarrow> Some v)"

definition UInt_of_int :: "32 word \<Rightarrow> 32 word option" where
  "UInt_of_int other = Some (id other)"

definition UInt_of_Int :: "32 word option \<Rightarrow> 32 word option" where
  "UInt_of_Int other = (case other of None \<Rightarrow> None | Some v \<Rightarrow> Some (id v))"

definition UInt_set_null :: "32 word option \<Rightarrow> 32 word option" where
  "UInt_set_null this = free_value this"

definition UInt_assign_null :: "32 word option \<Rightarrow> 32 word option" where
  "UInt_assign_null this = UInt_set_null this"

definition UInt_assign_value :: "bool \<Rightarrow> 32 word option \<Rightarrow> 32 word \<Rightarrow> 32 word option" where
  "UInt_assign_value same this other = (if \<not> same then Some other else this)"

definition UInt_assign_move :: "bool \<Rightarrow> 32 word option \<Rightarrow> 32 word option \<Rightarrow> 32 word option \<times> 32 word option" where
  "UInt_assign_move same this other = (if \<not> same then (other, None) else (this, other))"

definition UInt_assign :: "bool \<Rightarrow> 32 word option \<Rightarrow> 32 word option \<Rightarrow> 32 word option" where
  "UInt_assign same this other =
     (if \<not> same then (case other of None \<Rightarrow> UInt_set_null this | Some v \<Rightarrow> Some v) else this)"

definition UInt_eq_null :: "32 word option \<Rightarrow> bool result" where
  "UInt_eq_null this = Inl NULL_EXCEPTION"

definition UInt_eq_value :: "32 word option \<Rightarrow> 32 word \<Rightarrow> bool result" where
  "UInt_eq_value this other = null1 this (\<lambda>v. Inr (v = other))"

definition UInt_eq :: "32 word option \<Rightarrow> 32 word option \<Rightarrow> bool result" where
  "UInt_eq this other = null2 this other (\<lambda>v w. Inr (v = w))"

definition UInt_ne_null :: "32 word option \<Rightarrow> bool result" where
  "UInt_ne_null this = Inl NULL_EXCEPTION"

definition UInt_ne_value :: "32 word option \<Rightarrow> 32 word \<Rightarrow> bool result" where
  "UInt_ne_value this other = null1 this (\<lambda>v. Inr (v \<noteq> other))"

definition UInt_ne :: "32 word option \<Rightarrow> 32 word option \<Rightarrow> bool result" where
  "UInt_ne this other = null2 this other (\<lambda>v w. Inr (v \<noteq> w))"

definition UInt_less :: "32 word option \<Rightarrow> 32 word option \<Rightarrow> bool result" where
  "UInt_less this other = null2 this other (\<lambda>v w. Inr (uint v < uint w))"

definition UInt_less_eq :: "32 word option \<Rightarrow> 32 word option \<Rightarrow> bool result" where
  "UInt_less_eq this other = null2 this other (\<lambda>v w. Inr (uint v \<le> uint w))"

definition UInt_greater :: "32 word option \<Rightarrow> 32 word option \<Rightarrow> bool result" where
  "UInt_greater this other = null2 this other (\<lambda>v w. Inr (uint v > uint w))"

definition UInt_greater_eq :: "32 word option \<Rightarrow> 32 word option \<Rightarrow> bool result" where
  "UInt_greater_eq this other = null2 this other (\<lambda>v w. Inr (uint v \<ge> uint w))"

definition UInt_plus :: "32 word option \<Rightarrow> 32 word option \<Rightarrow> 32 word option result" where
  "UInt_plus this other = null2 this other (\<lambda>v w. Inr (Some (v + w)))"

definition UInt_minus :: "32 word option \<Rightarrow> 32 word option \<Rightarrow> 32 word option result" where
  "UInt_minus this other = null2 this other (\<lambda>v w. Inr (Some (v - w)))"

definition UInt_times :: "32 word option \<Rightarrow> 32 word option \<Rightarrow> 32 word option result" where
  "UInt_times this other = null2 this other (\<lambda>v w. Inr (Some (v * w)))"

definition UInt_divide :: "32 word option \<Rightarrow> 32 word option \<Rightarrow> 32 word option result" where
  "UInt_divide this other = null2 this other (\<lambda>v w. if w = 0 then Inl DivTrap else Inr (Some (v div w)))"

definition UInt_modulo :: "32 word option \<Rightarrow> 32 word option \<Rightarrow> 32 word option result" where
  "UInt_modulo this other = null2 this other (\<lambda>v w. if w = 0 then Inl DivTrap else Inr (Some (v mod w)))"

definition UInt_increment :: "32 word option \<Rightarrow> 32 word option result" where
  "UInt_increment this = null1 this (\<lambda>v. Inr (Some (v + 1)))"

definition UInt_increment_post :: "32 word option \<Rightarrow> 32 word option result" where
  "UInt_increment_post this = UInt_increment this"

definition UInt_decrement :: "32 word option \<Rightarrow> 32 word option result" where
  "UInt_decrement this = null1 this (\<lambda>v. Inr (Some (v - 1)))"

definition UInt_value :: "32 word option \<Rightarrow> 32 word result" where
  "UInt_value this = null1 this Inr"

definition UInt_to_std_string :: "32 word option \<Rightarrow> byte list" where
  "UInt_to_std_string this = (case this of None \<Rightarrow> NULL_STRING | Some v \<Rightarrow> std_to_string (uint v))"

definition UInt_write :: "binary \<Rightarrow> 32 word option \<Rightarrow> stream \<Rightarrow> stream" where
  "UInt_write k = write_nullable k UInt_tdb (write_uint k)"

definition UInt_read :: "binary \<Rightarrow> memory \<Rightarrow> 32 word option \<Rightarrow> stream \<Rightarrow> 32 word option \<times> stream" where
  "UInt_read k memory = read_nullable k memory (read_uint k) 0"

interpretation uint_type: packed "UInt_write k" "UInt_read k" "\<lambda>x. UInt_tdb x # (case x of None \<Rightarrow> [] | Some v \<Rightarrow> (octets_of k) v)"
    "Object_pack_size UInt_tdb" "\<lambda>_. True" for k
  unfolding UInt_write_def [abs_def] UInt_read_def [abs_def]
  by (rule packed_nullable [OF b_uint.object_io_axioms]) (simp_all add: UInt_tdb_def UInt_TDB_def tdb_types tdb_parts SIZEOF_def)

section \<open>Long\<close>

definition Long_TDB :: "byte" where
  "Long_TDB = tdb_LONG"

definition Long_tdb :: "64 word option \<Rightarrow> byte" where
  "Long_tdb this = (if this = None then Long_TDB OR IS_NULL else Long_TDB)"

definition Long_new :: "64 word option" where
  "Long_new = Some 0"

definition Long_null :: "64 word option" where
  "Long_null = None"

definition Long_of :: "64 word \<Rightarrow> 64 word option" where
  "Long_of other = Some other"

definition Long_move :: "64 word option \<Rightarrow> 64 word option \<times> 64 word option" where
  "Long_move other = (other, None)"

definition Long_copy :: "64 word option \<Rightarrow> 64 word option" where
  "Long_copy other = (case other of None \<Rightarrow> None | Some v \<Rightarrow> Some v)"

definition Long_of_int :: "32 word \<Rightarrow> 64 word option" where
  "Long_of_int other = Some (scast other)"

definition Long_of_Int :: "32 word option \<Rightarrow> 64 word option" where
  "Long_of_Int other = (case other of None \<Rightarrow> None | Some v \<Rightarrow> Some (scast v))"

definition Long_set_null :: "64 word option \<Rightarrow> 64 word option" where
  "Long_set_null this = free_value this"

definition Long_assign_null :: "64 word option \<Rightarrow> 64 word option" where
  "Long_assign_null this = Long_set_null this"

definition Long_assign_value :: "bool \<Rightarrow> 64 word option \<Rightarrow> 64 word \<Rightarrow> 64 word option" where
  "Long_assign_value same this other = (if \<not> same then Some other else this)"

definition Long_assign_move :: "bool \<Rightarrow> 64 word option \<Rightarrow> 64 word option \<Rightarrow> 64 word option \<times> 64 word option" where
  "Long_assign_move same this other = (if \<not> same then (other, None) else (this, other))"

definition Long_assign :: "bool \<Rightarrow> 64 word option \<Rightarrow> 64 word option \<Rightarrow> 64 word option" where
  "Long_assign same this other =
     (if \<not> same then (case other of None \<Rightarrow> Long_set_null this | Some v \<Rightarrow> Some v) else this)"

definition Long_eq_null :: "64 word option \<Rightarrow> bool result" where
  "Long_eq_null this = Inl NULL_EXCEPTION"

definition Long_eq_value :: "64 word option \<Rightarrow> 64 word \<Rightarrow> bool result" where
  "Long_eq_value this other = null1 this (\<lambda>v. Inr (v = other))"

definition Long_eq :: "64 word option \<Rightarrow> 64 word option \<Rightarrow> bool result" where
  "Long_eq this other = null2 this other (\<lambda>v w. Inr (v = w))"

definition Long_ne_null :: "64 word option \<Rightarrow> bool result" where
  "Long_ne_null this = Inl NULL_EXCEPTION"

definition Long_ne_value :: "64 word option \<Rightarrow> 64 word \<Rightarrow> bool result" where
  "Long_ne_value this other = null1 this (\<lambda>v. Inr (v \<noteq> other))"

definition Long_ne :: "64 word option \<Rightarrow> 64 word option \<Rightarrow> bool result" where
  "Long_ne this other = null2 this other (\<lambda>v w. Inr (v \<noteq> w))"

definition Long_less :: "64 word option \<Rightarrow> 64 word option \<Rightarrow> bool result" where
  "Long_less this other = null2 this other (\<lambda>v w. Inr (sint v < sint w))"

definition Long_less_eq :: "64 word option \<Rightarrow> 64 word option \<Rightarrow> bool result" where
  "Long_less_eq this other = null2 this other (\<lambda>v w. Inr (sint v \<le> sint w))"

definition Long_greater :: "64 word option \<Rightarrow> 64 word option \<Rightarrow> bool result" where
  "Long_greater this other = null2 this other (\<lambda>v w. Inr (sint v > sint w))"

definition Long_greater_eq :: "64 word option \<Rightarrow> 64 word option \<Rightarrow> bool result" where
  "Long_greater_eq this other = null2 this other (\<lambda>v w. Inr (sint v \<ge> sint w))"

definition Long_plus :: "64 word option \<Rightarrow> 64 word option \<Rightarrow> 64 word option result" where
  "Long_plus this other = null2 this other (\<lambda>v w. narrow (in_long (sint v + sint w)))"

definition Long_minus :: "64 word option \<Rightarrow> 64 word option \<Rightarrow> 64 word option result" where
  "Long_minus this other = null2 this other (\<lambda>v w. narrow (in_long (sint v - sint w)))"

definition Long_times :: "64 word option \<Rightarrow> 64 word option \<Rightarrow> 64 word option result" where
  "Long_times this other = null2 this other (\<lambda>v w. narrow (in_long (sint v * sint w)))"

definition Long_divide :: "64 word option \<Rightarrow> 64 word option \<Rightarrow> 64 word option result" where
  "Long_divide this other = null2 this other (\<lambda>v w. narrow (c_quotient in_long (sint v) (sint w)))"

definition Long_modulo :: "64 word option \<Rightarrow> 64 word option \<Rightarrow> 64 word option result" where
  "Long_modulo this other = null2 this other (\<lambda>v w. narrow (c_remainder in_long (sint v) (sint w)))"

definition Long_increment :: "64 word option \<Rightarrow> 64 word option result" where
  "Long_increment this = null1 this (\<lambda>v. narrow (in_long (sint v + 1)))"

definition Long_increment_post :: "64 word option \<Rightarrow> 64 word option result" where
  "Long_increment_post this = Long_increment this"

definition Long_decrement :: "64 word option \<Rightarrow> 64 word option result" where
  "Long_decrement this = null1 this (\<lambda>v. narrow (in_long (sint v - 1)))"

definition Long_value :: "64 word option \<Rightarrow> 64 word result" where
  "Long_value this = null1 this Inr"

definition Long_to_std_string :: "64 word option \<Rightarrow> byte list" where
  "Long_to_std_string this = (case this of None \<Rightarrow> NULL_STRING | Some v \<Rightarrow> std_to_string (sint v))"

definition Long_write :: "binary \<Rightarrow> 64 word option \<Rightarrow> stream \<Rightarrow> stream" where
  "Long_write k = write_nullable k Long_tdb (write_long k)"

definition Long_read :: "binary \<Rightarrow> memory \<Rightarrow> 64 word option \<Rightarrow> stream \<Rightarrow> 64 word option \<times> stream" where
  "Long_read k memory = read_nullable k memory (read_long k) 0"

interpretation long_type: packed "Long_write k" "Long_read k" "\<lambda>x. Long_tdb x # (case x of None \<Rightarrow> [] | Some v \<Rightarrow> (octets_of k) v)"
    "Object_pack_size Long_tdb" "\<lambda>_. True" for k
  unfolding Long_write_def [abs_def] Long_read_def [abs_def]
  by (rule packed_nullable [OF b_long.object_io_axioms]) (simp_all add: Long_tdb_def Long_TDB_def tdb_types tdb_parts SIZEOF_def)

section \<open>ULong\<close>

definition ULong_TDB :: "byte" where
  "ULong_TDB = tdb_ULONG"

definition ULong_tdb :: "64 word option \<Rightarrow> byte" where
  "ULong_tdb this = (if this = None then ULong_TDB OR IS_NULL else ULong_TDB)"

definition ULong_new :: "64 word option" where
  "ULong_new = Some 0"

definition ULong_null :: "64 word option" where
  "ULong_null = None"

definition ULong_of :: "64 word \<Rightarrow> 64 word option" where
  "ULong_of other = Some other"

definition ULong_move :: "64 word option \<Rightarrow> 64 word option \<times> 64 word option" where
  "ULong_move other = (other, None)"

definition ULong_copy :: "64 word option \<Rightarrow> 64 word option" where
  "ULong_copy other = (case other of None \<Rightarrow> None | Some v \<Rightarrow> Some v)"

definition ULong_of_int :: "32 word \<Rightarrow> 64 word option" where
  "ULong_of_int other = Some (scast other)"

definition ULong_of_Int :: "32 word option \<Rightarrow> 64 word option" where
  "ULong_of_Int other = (case other of None \<Rightarrow> None | Some v \<Rightarrow> Some (scast v))"

definition ULong_of_unsigned :: "32 word \<Rightarrow> 64 word option" where
  "ULong_of_unsigned other = Some (ucast other)"

definition ULong_of_UInt :: "32 word option \<Rightarrow> 64 word option" where
  "ULong_of_UInt other = (case other of None \<Rightarrow> None | Some v \<Rightarrow> Some (ucast v))"

definition ULong_set_null :: "64 word option \<Rightarrow> 64 word option" where
  "ULong_set_null this = free_value this"

definition ULong_assign_null :: "64 word option \<Rightarrow> 64 word option" where
  "ULong_assign_null this = ULong_set_null this"

definition ULong_assign_value :: "bool \<Rightarrow> 64 word option \<Rightarrow> 64 word \<Rightarrow> 64 word option" where
  "ULong_assign_value same this other = (if \<not> same then Some other else this)"

definition ULong_assign_move :: "bool \<Rightarrow> 64 word option \<Rightarrow> 64 word option \<Rightarrow> 64 word option \<times> 64 word option" where
  "ULong_assign_move same this other = (if \<not> same then (other, None) else (this, other))"

definition ULong_assign :: "bool \<Rightarrow> 64 word option \<Rightarrow> 64 word option \<Rightarrow> 64 word option" where
  "ULong_assign same this other =
     (if \<not> same then (case other of None \<Rightarrow> ULong_set_null this | Some v \<Rightarrow> Some v) else this)"

definition ULong_eq_null :: "64 word option \<Rightarrow> bool result" where
  "ULong_eq_null this = Inl NULL_EXCEPTION"

definition ULong_eq_value :: "64 word option \<Rightarrow> 64 word \<Rightarrow> bool result" where
  "ULong_eq_value this other = null1 this (\<lambda>v. Inr (v = other))"

definition ULong_eq :: "64 word option \<Rightarrow> 64 word option \<Rightarrow> bool result" where
  "ULong_eq this other = null2 this other (\<lambda>v w. Inr (v = w))"

definition ULong_ne_null :: "64 word option \<Rightarrow> bool result" where
  "ULong_ne_null this = Inl NULL_EXCEPTION"

definition ULong_ne_value :: "64 word option \<Rightarrow> 64 word \<Rightarrow> bool result" where
  "ULong_ne_value this other = null1 this (\<lambda>v. Inr (v \<noteq> other))"

definition ULong_ne :: "64 word option \<Rightarrow> 64 word option \<Rightarrow> bool result" where
  "ULong_ne this other = null2 this other (\<lambda>v w. Inr (v \<noteq> w))"

definition ULong_less :: "64 word option \<Rightarrow> 64 word option \<Rightarrow> bool result" where
  "ULong_less this other = null2 this other (\<lambda>v w. Inr (uint v < uint w))"

definition ULong_less_eq :: "64 word option \<Rightarrow> 64 word option \<Rightarrow> bool result" where
  "ULong_less_eq this other = null2 this other (\<lambda>v w. Inr (uint v \<le> uint w))"

definition ULong_greater :: "64 word option \<Rightarrow> 64 word option \<Rightarrow> bool result" where
  "ULong_greater this other = null2 this other (\<lambda>v w. Inr (uint v > uint w))"

definition ULong_greater_eq :: "64 word option \<Rightarrow> 64 word option \<Rightarrow> bool result" where
  "ULong_greater_eq this other = null2 this other (\<lambda>v w. Inr (uint v \<ge> uint w))"

definition ULong_plus :: "64 word option \<Rightarrow> 64 word option \<Rightarrow> 64 word option result" where
  "ULong_plus this other = null2 this other (\<lambda>v w. Inr (Some (v + w)))"

definition ULong_minus :: "64 word option \<Rightarrow> 64 word option \<Rightarrow> 64 word option result" where
  "ULong_minus this other = null2 this other (\<lambda>v w. Inr (Some (v - w)))"

definition ULong_times :: "64 word option \<Rightarrow> 64 word option \<Rightarrow> 64 word option result" where
  "ULong_times this other = null2 this other (\<lambda>v w. Inr (Some (v * w)))"

definition ULong_divide :: "64 word option \<Rightarrow> 64 word option \<Rightarrow> 64 word option result" where
  "ULong_divide this other = null2 this other (\<lambda>v w. if w = 0 then Inl DivTrap else Inr (Some (v div w)))"

definition ULong_modulo :: "64 word option \<Rightarrow> 64 word option \<Rightarrow> 64 word option result" where
  "ULong_modulo this other = null2 this other (\<lambda>v w. if w = 0 then Inl DivTrap else Inr (Some (v mod w)))"

definition ULong_increment :: "64 word option \<Rightarrow> 64 word option result" where
  "ULong_increment this = null1 this (\<lambda>v. Inr (Some (v + 1)))"

definition ULong_increment_post :: "64 word option \<Rightarrow> 64 word option result" where
  "ULong_increment_post this = ULong_increment this"

definition ULong_decrement :: "64 word option \<Rightarrow> 64 word option result" where
  "ULong_decrement this = null1 this (\<lambda>v. Inr (Some (v - 1)))"

definition ULong_value :: "64 word option \<Rightarrow> 64 word result" where
  "ULong_value this = null1 this Inr"

definition ULong_to_std_string :: "64 word option \<Rightarrow> byte list" where
  "ULong_to_std_string this = (case this of None \<Rightarrow> NULL_STRING | Some v \<Rightarrow> std_to_string (uint v))"

definition ULong_write :: "binary \<Rightarrow> 64 word option \<Rightarrow> stream \<Rightarrow> stream" where
  "ULong_write k = write_nullable k ULong_tdb (write_ulong k)"

definition ULong_read :: "binary \<Rightarrow> memory \<Rightarrow> 64 word option \<Rightarrow> stream \<Rightarrow> 64 word option \<times> stream" where
  "ULong_read k memory = read_nullable k memory (read_ulong k) 0"

interpretation ulong_type: packed "ULong_write k" "ULong_read k" "\<lambda>x. ULong_tdb x # (case x of None \<Rightarrow> [] | Some v \<Rightarrow> (octets_of k) v)"
    "Object_pack_size ULong_tdb" "\<lambda>_. True" for k
  unfolding ULong_write_def [abs_def] ULong_read_def [abs_def]
  by (rule packed_nullable [OF b_ulong.object_io_axioms]) (simp_all add: ULong_tdb_def ULong_TDB_def tdb_types tdb_parts SIZEOF_def)

end
