(* ===== verification/Type_String.thy ===== *)
theory Type_String
  imports Type_Scalars Type_Integers
begin

text \<open>
  \<open>String\<close> and \<open>Text\<close> of \<open>Type/\<close>: nullable \<open>std::string\<close>s, a \<open>String\<close> sent with the octet of its length and a
  \<open>Text\<close> with two of them; the pattern match of SQL, and the conversions of a \<open>String\<close>. A \<open>std::string\<close> is the list of its octets.
\<close>

section \<open>std::string\<close>

text \<open>A \<open>const char*\<close> is the octets of the array from where it points to; without a NUL in them, reading goes past its end.\<close>

definition c_string :: "byte list \<Rightarrow> byte list result" where
  "c_string buffer = (if 0 \<in> set buffer then Inr (takeWhile (\<lambda>c. c \<noteq> 0) buffer) else Inl OutOfBounds)"

text \<open>\<open>std::string::compare\<close> takes the characters as octets.\<close>

fun str_less :: "byte list \<Rightarrow> byte list \<Rightarrow> bool" where
  "str_less _ [] = False"
| "str_less [] (y # ys) = True"
| "str_less (x # xs) (y # ys) = (x < y \<or> x = y \<and> str_less xs ys)"

section \<open>String\<close>

definition String_TDB :: "byte" where
  "String_TDB = tdb_STRING"

definition String_tdb :: "byte list option \<Rightarrow> byte" where
  "String_tdb this = (if this = None then String_TDB OR IS_NULL else String_TDB)"

definition String_new :: "byte list option" where
  "String_new = Some []"

definition String_null :: "byte list option" where
  "String_null = None"

definition String_of :: "byte list \<Rightarrow> byte list option" where
  "String_of other = Some other"

definition String_move :: "byte list option \<Rightarrow> byte list option \<times> byte list option" where
  "String_move other = (other, None)"

definition String_copy :: "byte list option \<Rightarrow> byte list option" where
  "String_copy other = (case other of None \<Rightarrow> None | Some v \<Rightarrow> Some v)"

definition String_set_null :: "byte list option \<Rightarrow> byte list option" where
  "String_set_null this = free_value this"

definition String_assign_null :: "byte list option \<Rightarrow> byte list option" where
  "String_assign_null this = String_set_null this"

definition String_assign_value :: "bool \<Rightarrow> byte list option \<Rightarrow> byte list \<Rightarrow> byte list option" where
  "String_assign_value same this other = (if \<not> same then Some other else this)"

definition String_assign_move :: "bool \<Rightarrow> byte list option \<Rightarrow> byte list option \<Rightarrow> byte list option \<times> byte list option" where
  "String_assign_move same this other = (if \<not> same then (other, None) else (this, other))"

definition String_assign :: "bool \<Rightarrow> byte list option \<Rightarrow> byte list option \<Rightarrow> byte list option" where
  "String_assign same this other =
     (if \<not> same then (case other of None \<Rightarrow> String_set_null this | Some v \<Rightarrow> Some v) else this)"

definition String_eq_null :: "byte list option \<Rightarrow> bool result" where
  "String_eq_null this = Inl NULL_EXCEPTION"

definition String_of_c :: "byte list \<Rightarrow> byte list option result" where
  "String_of_c buffer = bind_res (c_string buffer) (\<lambda>s. Inr (Some s))"

definition String_of_c_length :: "byte list \<Rightarrow> nat \<Rightarrow> byte list option result" where
  "String_of_c_length buffer n = (if n \<le> List.length buffer then Inr (Some (take n buffer)) else Inl OutOfBounds)"

definition String_assign_c :: "byte list option \<Rightarrow> byte list \<Rightarrow> byte list option result" where
  "String_assign_c this buffer = bind_res (c_string buffer) (\<lambda>s. Inr (Some s))"

definition String_eq_value :: "byte list option \<Rightarrow> byte list \<Rightarrow> bool result" where
  "String_eq_value this other = null1 this (\<lambda>v. Inr ((v = other)))"

definition String_eq :: "byte list option \<Rightarrow> byte list option \<Rightarrow> bool result" where
  "String_eq this other = null2 this other (\<lambda>v w. Inr ((v = w)))"

definition String_ne_null :: "byte list option \<Rightarrow> bool result" where
  "String_ne_null this = Inl NULL_EXCEPTION"

definition String_ne_value :: "byte list option \<Rightarrow> byte list \<Rightarrow> bool result" where
  "String_ne_value this other = null1 this (\<lambda>v. Inr (\<not> (v = other)))"

definition String_ne :: "byte list option \<Rightarrow> byte list option \<Rightarrow> bool result" where
  "String_ne this other = null2 this other (\<lambda>v w. Inr (\<not> (v = w)))"

definition String_eq_c :: "byte list option \<Rightarrow> byte list \<Rightarrow> bool result" where
  "String_eq_c this other = null1 this (\<lambda>v. bind_res (c_string other) (\<lambda>s. Inr (v = s)))"

definition String_ne_c :: "byte list option \<Rightarrow> byte list \<Rightarrow> bool result" where
  "String_ne_c this other = null1 this (\<lambda>v. bind_res (c_string other) (\<lambda>s. Inr (\<not> v = s)))"

definition String_less :: "byte list option \<Rightarrow> byte list option \<Rightarrow> bool result" where
  "String_less this other = null2 this other (\<lambda>v w. Inr (str_less v w))"

definition String_less_eq :: "byte list option \<Rightarrow> byte list option \<Rightarrow> bool result" where
  "String_less_eq this other = null2 this other (\<lambda>v w. Inr (\<not> str_less w v))"

definition String_greater :: "byte list option \<Rightarrow> byte list option \<Rightarrow> bool result" where
  "String_greater this other = null2 this other (\<lambda>v w. Inr (str_less w v))"

definition String_greater_eq :: "byte list option \<Rightarrow> byte list option \<Rightarrow> bool result" where
  "String_greater_eq this other = null2 this other (\<lambda>v w. Inr (\<not> str_less v w))"

definition String_plus_c :: "byte list option \<Rightarrow> byte list \<Rightarrow> byte list option result" where
  "String_plus_c this other = null1 this (\<lambda>v. bind_res (c_string other) (\<lambda>s. Inr (Some (v @ s))))"

definition String_value :: "byte list option \<Rightarrow> byte list result" where
  "String_value this = null1 this Inr"

definition String_c_plus :: "byte list \<Rightarrow> byte list option \<Rightarrow> byte list option result" where
  "String_c_plus lhs rhs = bind_res (c_string lhs) (\<lambda>s. bind_res (String_value rhs) (\<lambda>v. Inr (Some (s @ v))))"

definition String_plus :: "byte list option \<Rightarrow> byte list option \<Rightarrow> byte list option result" where
  "String_plus this other = null2 this other (\<lambda>v w. Inr (Some (v @ w)))"

definition String_std_size :: "byte list option \<Rightarrow> nat result" where
  "String_std_size this = null1 this (\<lambda>v. Inr (List.length v))"

definition String_size :: "byte list option \<Rightarrow> 64 word option result" where
  "String_size this = bind_res (String_std_size this) (\<lambda>n. Inr (Some (word_of_nat n)))"

definition String_SIZE :: "byte list option \<Rightarrow> 64 word option result" where
  "String_SIZE this = bind_res (String_std_size this) (\<lambda>n. Inr (Some (word_of_nat n)))"

definition String_std_length :: "byte list option \<Rightarrow> nat result" where
  "String_std_length this = null1 this (\<lambda>v. Inr (List.length v))"

definition String_length :: "byte list option \<Rightarrow> 64 word option result" where
  "String_length this = bind_res (String_std_length this) (\<lambda>n. Inr (Some (word_of_nat n)))"

definition String_LENGTH :: "byte list option \<Rightarrow> 64 word option result" where
  "String_LENGTH this = bind_res (String_std_length this) (\<lambda>n. Inr (Some (word_of_nat n)))"

definition String_to_std_string :: "byte list option \<Rightarrow> byte list" where
  "String_to_std_string this = (case this of None \<Rightarrow> NULL_STRING | Some v \<Rightarrow> v)"

definition String_pack_size :: "byte list option \<Rightarrow> int option" where
  "String_pack_size this =
     (case this of None \<Rightarrow> Some 1
      | Some v \<Rightarrow> map_option (\<lambda>n. uint SIZEOF_BYTE + int (List.length v) * n + 1) (SIZEOF Char_TDB))"

definition String_write :: "binary \<Rightarrow> byte list option \<Rightarrow> stream \<Rightarrow> stream" where
  "String_write k = write_nullable k String_tdb (bs_write_std_string (big_host k))"

definition String_read :: "binary \<Rightarrow> memory \<Rightarrow> byte list option \<Rightarrow> stream \<Rightarrow> byte list option \<times> stream" where
  "String_read k memory = read_nullable k memory (bs_read_std_string_ref (big_host k) (hd (memory 2)) (memory 3)) []"

section \<open>Text\<close>

definition Text_TDB :: "byte" where
  "Text_TDB = tdb_TEXT"

definition Text_tdb :: "byte list option \<Rightarrow> byte" where
  "Text_tdb this = (if this = None then Text_TDB OR IS_NULL else Text_TDB)"

definition Text_new :: "byte list option" where
  "Text_new = Some []"

definition Text_null :: "byte list option" where
  "Text_null = None"

definition Text_of :: "byte list \<Rightarrow> byte list option" where
  "Text_of other = Some other"

definition Text_move :: "byte list option \<Rightarrow> byte list option \<times> byte list option" where
  "Text_move other = (other, None)"

definition Text_copy :: "byte list option \<Rightarrow> byte list option" where
  "Text_copy other = (case other of None \<Rightarrow> None | Some v \<Rightarrow> Some v)"

definition Text_set_null :: "byte list option \<Rightarrow> byte list option" where
  "Text_set_null this = free_value this"

definition Text_assign_null :: "byte list option \<Rightarrow> byte list option" where
  "Text_assign_null this = Text_set_null this"

definition Text_assign_value :: "bool \<Rightarrow> byte list option \<Rightarrow> byte list \<Rightarrow> byte list option" where
  "Text_assign_value same this other = (if \<not> same then Some other else this)"

definition Text_assign_move :: "bool \<Rightarrow> byte list option \<Rightarrow> byte list option \<Rightarrow> byte list option \<times> byte list option" where
  "Text_assign_move same this other = (if \<not> same then (other, None) else (this, other))"

definition Text_assign :: "bool \<Rightarrow> byte list option \<Rightarrow> byte list option \<Rightarrow> byte list option" where
  "Text_assign same this other =
     (if \<not> same then (case other of None \<Rightarrow> Text_set_null this | Some v \<Rightarrow> Some v) else this)"

definition Text_eq_null :: "byte list option \<Rightarrow> bool result" where
  "Text_eq_null this = Inl NULL_EXCEPTION"

definition Text_of_c :: "byte list \<Rightarrow> byte list option result" where
  "Text_of_c buffer = bind_res (c_string buffer) (\<lambda>s. Inr (Some s))"

definition Text_of_c_length :: "byte list \<Rightarrow> nat \<Rightarrow> byte list option result" where
  "Text_of_c_length buffer n = (if n \<le> List.length buffer then Inr (Some (take n buffer)) else Inl OutOfBounds)"

definition Text_of_String :: "byte list option \<Rightarrow> byte list option result" where
  "Text_of_String other = bind_res (String_value other) (\<lambda>v. Inr (Some v))"

definition Text_assign_c :: "byte list option \<Rightarrow> byte list \<Rightarrow> byte list option result" where
  "Text_assign_c this buffer = bind_res (c_string buffer) (\<lambda>s. Inr (Some s))"

definition Text_eq_value :: "byte list option \<Rightarrow> byte list \<Rightarrow> bool result" where
  "Text_eq_value this other = null1 this (\<lambda>v. Inr ((v = other)))"

definition Text_eq :: "byte list option \<Rightarrow> byte list option \<Rightarrow> bool result" where
  "Text_eq this other = null2 this other (\<lambda>v w. Inr ((v = w)))"

definition Text_ne_null :: "byte list option \<Rightarrow> bool result" where
  "Text_ne_null this = Inl NULL_EXCEPTION"

definition Text_ne_value :: "byte list option \<Rightarrow> byte list \<Rightarrow> bool result" where
  "Text_ne_value this other = null1 this (\<lambda>v. Inr (\<not> (v = other)))"

definition Text_ne :: "byte list option \<Rightarrow> byte list option \<Rightarrow> bool result" where
  "Text_ne this other = null2 this other (\<lambda>v w. Inr (\<not> (v = w)))"

definition Text_less :: "byte list option \<Rightarrow> byte list option \<Rightarrow> bool result" where
  "Text_less this other = null2 this other (\<lambda>v w. Inr (str_less v w))"

definition Text_less_eq :: "byte list option \<Rightarrow> byte list option \<Rightarrow> bool result" where
  "Text_less_eq this other = null2 this other (\<lambda>v w. Inr (\<not> str_less w v))"

definition Text_greater :: "byte list option \<Rightarrow> byte list option \<Rightarrow> bool result" where
  "Text_greater this other = null2 this other (\<lambda>v w. Inr (str_less w v))"

definition Text_greater_eq :: "byte list option \<Rightarrow> byte list option \<Rightarrow> bool result" where
  "Text_greater_eq this other = null2 this other (\<lambda>v w. Inr (\<not> str_less v w))"

definition Text_plus_c :: "byte list option \<Rightarrow> byte list \<Rightarrow> byte list option result" where
  "Text_plus_c this other = null1 this (\<lambda>v. bind_res (c_string other) (\<lambda>s. Inr (Some (v @ s))))"

definition Text_value :: "byte list option \<Rightarrow> byte list result" where
  "Text_value this = null1 this Inr"

definition Text_c_plus :: "byte list \<Rightarrow> byte list option \<Rightarrow> byte list option result" where
  "Text_c_plus lhs rhs = bind_res (c_string lhs) (\<lambda>s. bind_res (Text_value rhs) (\<lambda>v. Inr (Some (s @ v))))"

definition Text_plus :: "byte list option \<Rightarrow> byte list option \<Rightarrow> byte list option result" where
  "Text_plus this other = null2 this other (\<lambda>v w. Inr (Some (v @ w)))"

definition Text_std_size :: "byte list option \<Rightarrow> nat result" where
  "Text_std_size this = null1 this (\<lambda>v. Inr (List.length v))"

definition Text_size :: "byte list option \<Rightarrow> 64 word option result" where
  "Text_size this = bind_res (Text_std_size this) (\<lambda>n. Inr (Some (word_of_nat n)))"

definition Text_SIZE :: "byte list option \<Rightarrow> 64 word option result" where
  "Text_SIZE this = bind_res (Text_std_size this) (\<lambda>n. Inr (Some (word_of_nat n)))"

definition Text_std_length :: "byte list option \<Rightarrow> nat result" where
  "Text_std_length this = null1 this (\<lambda>v. Inr (List.length v))"

definition Text_length :: "byte list option \<Rightarrow> 64 word option result" where
  "Text_length this = bind_res (Text_std_length this) (\<lambda>n. Inr (Some (word_of_nat n)))"

definition Text_LENGTH :: "byte list option \<Rightarrow> 64 word option result" where
  "Text_LENGTH this = bind_res (Text_std_length this) (\<lambda>n. Inr (Some (word_of_nat n)))"

definition Text_to_std_string :: "byte list option \<Rightarrow> byte list" where
  "Text_to_std_string this = (case this of None \<Rightarrow> NULL_STRING | Some v \<Rightarrow> v)"

definition Text_pack_size :: "byte list option \<Rightarrow> int option" where
  "Text_pack_size this =
     (case this of None \<Rightarrow> Some 1
      | Some v \<Rightarrow> map_option (\<lambda>n. uint SIZEOF_WORD + int (List.length v) * n + 1) (SIZEOF Char_TDB))"

definition Text_write :: "binary \<Rightarrow> byte list option \<Rightarrow> stream \<Rightarrow> stream" where
  "Text_write k = write_nullable k Text_tdb (bs_write_std_text (write_ushort k))"

definition Text_read :: "binary \<Rightarrow> memory \<Rightarrow> byte list option \<Rightarrow> stream \<Rightarrow> byte list option \<times> stream" where
  "Text_read k memory = read_nullable k memory (bs_read_std_text_ref (read_ushort_value k (word_rcat (memory 2))) (memory 3)) []"

section \<open>Characters of a String\<close>

text \<open>The octet past the last one is NUL and can be read; any other index is out of bounds, and so is writing over that NUL.\<close>

definition String_GET :: "byte list option \<Rightarrow> 64 word option \<Rightarrow> byte option result" where
  "String_GET this subscript =
     null1 this (\<lambda>v. null1 subscript (\<lambda>i.
       if unat i < List.length v then Inr (Some (v ! unat i))
       else if unat i = List.length v then Inr (Some 0)
       else Inl OutOfBounds))"

definition String_SET :: "byte list option \<Rightarrow> 64 word option \<Rightarrow> byte option \<Rightarrow> byte list option result" where
  "String_SET this subscript c =
     null1 this (\<lambda>v. null1 c (\<lambda>c. null1 subscript (\<lambda>i.
       if unat i < List.length v then Inr (Some (v[unat i := c]))
       else if unat i = List.length v \<and> c = 0 then Inr (Some v)
       else Inl OutOfBounds)))"

section \<open>LIKE\<close>

definition PERCENT :: byte where "PERCENT = 0x25"

definition UNDERSCORE :: byte where "UNDERSCORE = 0x5F"

text \<open>The loop over the text. \<open>star\<close> is \<open>std::string::npos\<close> or the place of the last wildcard, \<open>resume\<close> where the text
  is taken up again after it.\<close>

partial_function (option) like_loop ::
  "byte list \<Rightarrow> byte list \<Rightarrow> nat \<Rightarrow> nat \<Rightarrow> nat option \<Rightarrow> nat \<Rightarrow> nat option option" where
  "like_loop text glob t g star resume =
     (if t < List.length text then
        if g < List.length glob \<and> (glob ! g = UNDERSCORE \<or> glob ! g = text ! t) then
          like_loop text glob (t + 1) (g + 1) star resume
        else if g < List.length glob \<and> glob ! g = PERCENT then
          like_loop text glob t (g + 1) (Some g) t
        else
          (case star of
             Some s \<Rightarrow> like_loop text glob (resume + 1) (s + 1) star (resume + 1)
           | None \<Rightarrow> Some None)
      else Some (Some g))"

fun skip_percents :: "byte list \<Rightarrow> byte list" where
  "skip_percents [] = []"
| "skip_percents (c # cs) = (if c = PERCENT then skip_percents cs else c # cs)"

definition String_LIKE :: "byte list option \<Rightarrow> byte list option \<Rightarrow> byte option option" where
  "String_LIKE this pattern =
     (case this of None \<Rightarrow> Some None
      | Some text \<Rightarrow>
         (case pattern of None \<Rightarrow> Some None
          | Some glob \<Rightarrow>
             map_option (\<lambda>r. case r of None \<Rightarrow> Some 0
                | Some g \<Rightarrow> Some (if skip_percents (drop g glob) = [] then 1 else 0))
               (like_loop text glob 0 0 None 0)))"

section \<open>Conversions of a String\<close>

text \<open>What \<open>std::stringstream\<close> takes out of a text: blanks are skipped, and when nothing is left the variable keeps
  whatever it held; \<open>junk\<close>. Digits after a sign make the number, zero if there are none, and a number out of the range of
  its type becomes the end of the range. A negative number is taken modulo the range of an unsigned type.\<close>

definition is_blank :: "byte \<Rightarrow> bool" where "is_blank c \<longleftrightarrow> c = 32 \<or> 9 \<le> c \<and> c \<le> 13"

definition is_digit :: "byte \<Rightarrow> bool" where "is_digit c \<longleftrightarrow> 48 \<le> c \<and> c \<le> 57"

definition take_out :: "'a \<Rightarrow> (byte list \<Rightarrow> 'a) \<Rightarrow> byte list \<Rightarrow> 'a" where
  "take_out junk parse s = (let s = dropWhile is_blank s in if s = [] then junk else parse s)"

definition parse_sign :: "byte list \<Rightarrow> bool \<times> byte list" where
  "parse_sign s = (if s \<noteq> [] \<and> List.hd s = 45 then (True, tl s) else if s \<noteq> [] \<and> List.hd s = 43 then (False, tl s) else (False, s))"

definition parse_digits :: "byte list \<Rightarrow> int" where
  "parse_digits s = foldl (\<lambda>n c. 10 * n + (uint c - 48)) 0 (takeWhile is_digit s)"

definition parse_signed :: "byte list \<Rightarrow> 'a::len word" where
  "parse_signed s =
     (let (negative, s) = parse_sign s; n = parse_digits s; i = if negative then - n else n in
      word_of_int (max (- (2 ^ (LENGTH('a) - 1))) (min (2 ^ (LENGTH('a) - 1) - 1) i)))"

definition parse_unsigned :: "byte list \<Rightarrow> 'a::len word" where
  "parse_unsigned s =
     (let (negative, s) = parse_sign s; n = parse_digits s in
      if n < 2 ^ LENGTH('a) then word_of_int (if negative then - n else n) else - 1)"

definition parse_bool :: "bool \<Rightarrow> byte list \<Rightarrow> byte" where
  "parse_bool alpha s =
     (if alpha then (if take 4 s = ascii ''true'' then 1 else 0)
      else (if (parse_signed s :: 64 word) = 0 then 0 else 1))"

definition String_to_bool :: "byte \<Rightarrow> bool \<Rightarrow> byte list option \<Rightarrow> byte option result" where
  "String_to_bool junk alpha this = null1 this (\<lambda>v. Inr (Bool_of (take_out junk (parse_bool alpha) v)))"

definition String_to_char :: "byte list option \<Rightarrow> byte option result" where
  "String_to_char this = null1 this (\<lambda>v. Inr (Some (if v = [] then 0 else v ! 0)))"

definition String_to_byte :: "32 word \<Rightarrow> byte list option \<Rightarrow> byte option result" where
  "String_to_byte junk this = null1 this (\<lambda>v. Inr (Byte_of_int (take_out junk parse_signed v)))"

definition String_to_ubyte :: "32 word \<Rightarrow> byte list option \<Rightarrow> byte option result" where
  "String_to_ubyte junk this = null1 this (\<lambda>v. Inr (UByte_of_int (take_out junk parse_signed v)))"

definition String_to_short :: "16 word \<Rightarrow> byte list option \<Rightarrow> 16 word option result" where
  "String_to_short junk this = null1 this (\<lambda>v. Inr (Short_of (take_out junk parse_signed v)))"

definition String_to_ushort :: "16 word \<Rightarrow> byte list option \<Rightarrow> 16 word option result" where
  "String_to_ushort junk this = null1 this (\<lambda>v. Inr (UShort_of (take_out junk parse_unsigned v)))"

definition String_to_int :: "32 word \<Rightarrow> byte list option \<Rightarrow> 32 word option result" where
  "String_to_int junk this = null1 this (\<lambda>v. Inr (Int_of (take_out junk parse_signed v)))"

definition String_to_uint :: "32 word \<Rightarrow> byte list option \<Rightarrow> 32 word option result" where
  "String_to_uint junk this = null1 this (\<lambda>v. Inr (UInt_of (take_out junk parse_unsigned v)))"

definition String_to_long :: "64 word \<Rightarrow> byte list option \<Rightarrow> 64 word option result" where
  "String_to_long junk this = null1 this (\<lambda>v. Inr (Long_of (take_out junk parse_signed v)))"

definition String_to_ulong :: "64 word \<Rightarrow> byte list option \<Rightarrow> 64 word option result" where
  "String_to_ulong junk this = null1 this (\<lambda>v. Inr (ULong_of (take_out junk parse_unsigned v)))"

text \<open>The numbers of the floating-point types are taken out by the parameter \<open>parse\<close>.\<close>

definition String_to_float :: "(byte list \<Rightarrow> 32 word) \<Rightarrow> 32 word \<Rightarrow> byte list option \<Rightarrow> 32 word option result" where
  "String_to_float parse junk this = null1 this (\<lambda>v. Inr (Some (take_out junk parse v)))"

definition String_to_double :: "(byte list \<Rightarrow> 64 word) \<Rightarrow> 64 word \<Rightarrow> byte list option \<Rightarrow> 64 word option result" where
  "String_to_double parse junk this = null1 this (\<lambda>v. Inr (Some (take_out junk parse v)))"

definition String_to_real :: "(byte list \<Rightarrow> 128 word) \<Rightarrow> 128 word \<Rightarrow> byte list option \<Rightarrow> 128 word option result" where
  "String_to_real parse junk this = null1 this (\<lambda>v. Inr (Some (take_out junk parse v)))"

text \<open>\<open>strptime\<close> changes the fields the format has of a broken-down time that is not initialised; \<open>seconds gmt\<close> is
  \<open>timegm\<close> or \<open>mktime\<close>.\<close>

definition c_str :: "byte list \<Rightarrow> byte list" where "c_str s = takeWhile (\<lambda>c. c \<noteq> 0) s"

definition String_to_timestamp :: "(byte list \<Rightarrow> byte list \<Rightarrow> 'tm \<Rightarrow> 'tm) \<Rightarrow> (bool \<Rightarrow> 'tm \<Rightarrow> 64 word) \<Rightarrow> 'tm \<Rightarrow>
    byte list option \<Rightarrow> byte option \<Rightarrow> byte list option \<Rightarrow> 64 word option result" where
  "String_to_timestamp strptime seconds timeinfo format is_gmt this =
     null1 this (\<lambda>v. bind_res (String_value format) (\<lambda>f.
       let timeinfo = strptime (c_str v) (c_str f) timeinfo in
       bind_res (Bool_bool is_gmt) (\<lambda>gmt. Inr (Timestamp_of (seconds (gmt \<noteq> 0) timeinfo)))))"

definition String_to_text :: "byte list option \<Rightarrow> byte list option result" where
  "String_to_text this = null1 this (\<lambda>v. Inr (Text_of v))"

definition String_TO_BOOL :: "byte \<Rightarrow> byte option \<Rightarrow> byte list option \<Rightarrow> byte option result" where
  "String_TO_BOOL junk alpha this = bind_res (Bool_bool alpha) (\<lambda>alpha. String_to_bool junk (alpha \<noteq> 0) this)"

definition String_TO_CHAR :: "byte list option \<Rightarrow> byte option result" where
  "String_TO_CHAR this = String_to_char this"

definition String_TO_BYTE :: "32 word \<Rightarrow> byte list option \<Rightarrow> byte option result" where
  "String_TO_BYTE junk this = String_to_byte junk this"

definition String_TO_UBYTE :: "32 word \<Rightarrow> byte list option \<Rightarrow> byte option result" where
  "String_TO_UBYTE junk this = String_to_ubyte junk this"

definition String_TO_SHORT :: "16 word \<Rightarrow> byte list option \<Rightarrow> 16 word option result" where
  "String_TO_SHORT junk this = String_to_short junk this"

definition String_TO_USHORT :: "16 word \<Rightarrow> byte list option \<Rightarrow> 16 word option result" where
  "String_TO_USHORT junk this = String_to_ushort junk this"

definition String_TO_INT :: "32 word \<Rightarrow> byte list option \<Rightarrow> 32 word option result" where
  "String_TO_INT junk this = String_to_int junk this"

definition String_TO_UINT :: "32 word \<Rightarrow> byte list option \<Rightarrow> 32 word option result" where
  "String_TO_UINT junk this = String_to_uint junk this"

definition String_TO_LONG :: "64 word \<Rightarrow> byte list option \<Rightarrow> 64 word option result" where
  "String_TO_LONG junk this = String_to_long junk this"

definition String_TO_ULONG :: "64 word \<Rightarrow> byte list option \<Rightarrow> 64 word option result" where
  "String_TO_ULONG junk this = String_to_ulong junk this"

definition String_TO_FLOAT :: "(byte list \<Rightarrow> 32 word) \<Rightarrow> 32 word \<Rightarrow> byte list option \<Rightarrow> 32 word option result" where
  "String_TO_FLOAT parse junk this = String_to_float parse junk this"

definition String_TO_DOUBLE :: "(byte list \<Rightarrow> 64 word) \<Rightarrow> 64 word \<Rightarrow> byte list option \<Rightarrow> 64 word option result" where
  "String_TO_DOUBLE parse junk this = String_to_double parse junk this"

definition String_TO_REAL :: "(byte list \<Rightarrow> 128 word) \<Rightarrow> 128 word \<Rightarrow> byte list option \<Rightarrow> 128 word option result" where
  "String_TO_REAL parse junk this = String_to_real parse junk this"

definition String_TO_TIMESTAMP :: "(byte list \<Rightarrow> byte list \<Rightarrow> 'tm \<Rightarrow> 'tm) \<Rightarrow> (bool \<Rightarrow> 'tm \<Rightarrow> 64 word) \<Rightarrow> 'tm \<Rightarrow>
    byte list option \<Rightarrow> byte option \<Rightarrow> byte list option \<Rightarrow> 64 word option result" where
  "String_TO_TIMESTAMP strptime seconds timeinfo format is_gmt this =
     String_to_timestamp strptime seconds timeinfo format is_gmt this"

definition String_TO_TEXT :: "byte list option \<Rightarrow> byte list option result" where
  "String_TO_TEXT this = String_to_text this"

section \<open>Strings come back\<close>

lemma read_buffer_readable:
  "readable s \<Longrightarrow> rest s = c @ r \<Longrightarrow>
    \<exists>t. read_buffer_of (List.length c) stack s = (c, t) \<and> readable t \<and> rest t = r"
  using sread_rest [of s "List.length c"] by (simp add: read_buffer_of_def)

lemma swrite_append_eq: "swrite b (swrite a s) = swrite (a @ b) s"
  by (simp add: swrite_def)

lemma swrite_Nil [simp]: "swrite [] s = s"
  by (simp add: swrite_def)

lemma write_string_ok:
  assumes "List.length v < 256"
  shows "bs_write_std_string big v s = swrite (word_of_nat (List.length v) # v) s"
proof -
  let ?l = "ucast (drop_bit 56 (push_bit 56 (word_of_nat (List.length v) :: u64))) :: byte"
  have l: "unat ?l = List.length v" using low_length [of "List.length v"] assms by simp
  then have w: "?l = word_of_nat (List.length v)" using assms by (simp add: word_unat_eq_iff unat_of_nat take_bit_eq_mod)
  have z: "0 < ?l \<longleftrightarrow> v \<noteq> []" using l by (simp add: word_less_nat_alt)
  show ?thesis
    using l w z b_tdb.wr_rep [of big "word_of_nat (List.length v)" s]
    by (auto simp: bs_write_std_string_def Let_def swrite_append_eq)
qed

lemma read_string_ok:
  assumes "List.length v < 256" and "readable s" and "rest s = (word_of_nat (List.length v) # v) @ r"
  shows "\<exists>t. bs_read_std_string_ref big old stack u s = (v, t) \<and> readable t \<and> rest t = r"
proof -
  let ?l = "word_of_nat (List.length v) :: byte" and ?t = "advance 1 1 s"
  have l: "unat ?l = List.length v" using assms(1) by (simp add: unat_of_nat take_bit_eq_mod)
  have t: "readable ?t" "rest ?t = v @ r" using assms by simp_all
  have "bs_read_std_ubyte big old s = (?l, ?t)" using b_tdb.rd_rep [of s ?l "v @ r" big old] assms by simp
  moreover have "?l = 0 \<longleftrightarrow> v = []" using l by (simp only: word_unat_eq_iff unat_0) simp
  ultimately show ?thesis
    using read_buffer_readable [OF t, of stack] t l by (auto simp: bs_read_std_string_ref_def)
qed

lemma write_text_ok:
  assumes "List.length v < 65536"
  shows "bs_write_std_text (write_ushort k) v s = swrite (octets_of k (word_of_nat (List.length v) :: 16 word) @ v) s"
proof -
  let ?l = "ucast (drop_bit 48 (push_bit 48 (word_of_nat (List.length v) :: u64))) :: 16 word"
  have l: "unat ?l = List.length v" using low_length16 [of "List.length v"] assms by simp
  then have w: "?l = word_of_nat (List.length v)" using assms by (simp add: word_unat_eq_iff unat_of_nat take_bit_eq_mod)
  have z: "0 < ?l \<longleftrightarrow> v \<noteq> []" using l by (simp add: word_less_nat_alt)
  show ?thesis
    using l w z b_ushort.wr_rep [of k "word_of_nat (List.length v)" s]
    by (auto simp: bs_write_std_text_def Let_def swrite_append_eq)
qed

lemma read_text_ok:
  assumes "List.length v < 65536" and "readable s" and "rest s = (octets_of k (word_of_nat (List.length v) :: 16 word) @ v) @ r"
  shows "\<exists>t. bs_read_std_text_ref (read_ushort_value k old) stack u s = (v, t) \<and> readable t \<and> rest t = r"
proof -
  let ?l = "word_of_nat (List.length v) :: 16 word" and ?t = "advance 2 2 s"
  have l: "unat ?l = List.length v" using assms(1) by (simp add: unat_of_nat take_bit_eq_mod)
  have t: "readable ?t" "rest ?t = v @ r" using assms by simp_all
  have "read_ushort_value k old s = (?l, ?t)"
    using b_ushort_value.rd_rep [of s k ?l "v @ r" old] assms by simp
  moreover have "?l = 0 \<longleftrightarrow> v = []" using l by (simp only: word_unat_eq_iff unat_0) simp
  ultimately show ?thesis
    using read_buffer_readable [OF t, of stack] t l by (auto simp: bs_read_std_text_ref_def)
qed

lemmas string_descriptors = String_tdb_def String_TDB_def Text_tdb_def Text_TDB_def Char_TDB_def tdb_types tdb_parts SIZEOF_def

interpretation string_type: packed "String_write k" "String_read k"
    "\<lambda>x. String_tdb x # (case x of None \<Rightarrow> [] | Some v \<Rightarrow> word_of_nat (List.length v) # v)" String_pack_size
    "\<lambda>x. case x of None \<Rightarrow> True | Some v \<Rightarrow> List.length v < 256" for k
  unfolding String_write_def [abs_def] String_read_def [abs_def]
  by (rule packed_values [where rd = "\<lambda>m. bs_read_std_string_ref (big_host k) (hd (m 2)) (m 3)"])
    (simp_all add: write_string_ok read_string_ok String_pack_size_def string_descriptors)

interpretation text_type: packed "Text_write k" "Text_read k"
    "\<lambda>x. Text_tdb x # (case x of None \<Rightarrow> [] | Some v \<Rightarrow> octets_of k (word_of_nat (List.length v) :: 16 word) @ v)" Text_pack_size
    "\<lambda>x. case x of None \<Rightarrow> True | Some v \<Rightarrow> List.length v < 65536" for k
  unfolding Text_write_def [abs_def] Text_read_def [abs_def]
  by (rule packed_values [where rd = "\<lambda>m. bs_read_std_text_ref (read_ushort_value k (word_rcat (m 2))) (m 3)"])
    (simp_all add: write_text_ok read_text_ok Text_pack_size_def string_descriptors)

section \<open>LIKE is the pattern match of SQL\<close>

text \<open>What a pattern stands for: a percent sign for any run of characters, an underscore for one, and any other character
  for itself.\<close>

fun like_spec :: "byte list \<Rightarrow> byte list \<Rightarrow> bool" where
  "like_spec cs [] = (cs = [])"
| "like_spec [] (p # ps) = (p = PERCENT \<and> like_spec [] ps)"
| "like_spec (c # cs) (p # ps) =
     (if p = PERCENT then like_spec (c # cs) ps \<or> like_spec cs (p # ps)
      else (p = UNDERSCORE \<or> p = c) \<and> like_spec cs ps)"

lemma skip_percents_spec: "skip_percents ps = [] \<longleftrightarrow> like_spec [] ps"
  by (induction ps) auto

text \<open>A place the loop gets to: the wildcard comes before \<open>g\<close>, and what follows it has been matched from \<open>resume\<close> on.\<close>

definition like_place :: "byte list \<Rightarrow> byte list \<Rightarrow> nat \<Rightarrow> nat \<Rightarrow> nat option \<Rightarrow> nat \<Rightarrow> bool" where
  "like_place text glob t g star resume \<longleftrightarrow> t \<le> List.length text \<and> g \<le> List.length glob \<and>
     (case star of None \<Rightarrow> resume = 0 | Some s \<Rightarrow> s < g \<and> glob ! s = PERCENT \<and> t + s + 1 = resume + g)"

definition like_measure :: "byte list \<Rightarrow> byte list \<Rightarrow> nat \<Rightarrow> nat \<Rightarrow> nat \<Rightarrow> nat" where
  "like_measure text glob t g resume = (List.length text - resume) * (List.length glob + 1) + (List.length glob - g)"

lemma like_measure_match: "g < List.length glob \<Longrightarrow> t \<ge> resume \<Longrightarrow> like_measure text glob t' (g + 1) t < like_measure text glob t g resume"
  unfolding like_measure_def by (intro add_le_less_mono mult_le_mono1 diff_less_mono2) auto

lemma like_measure_retry:
  assumes "resume < List.length text"
  shows "like_measure text glob t' g' (resume + 1) < like_measure text glob t g resume"
proof -
  let ?m = "List.length glob + 1"
  have "List.length text - resume = Suc (List.length text - (resume + 1))" using assms by simp
  then have "(List.length text - resume) * ?m = ?m + (List.length text - (resume + 1)) * ?m" by (simp only: mult_Suc)
  then show ?thesis unfolding like_measure_def by linarith
qed

text \<open>The three steps of the loop, as an induction over the places.\<close>

lemma like_induct [consumes 1, case_names ended matched wildcard retry fail]:
  assumes place: "like_place text glob t g star resume"
    and fin: "\<And>t g star resume. like_place text glob t g star resume \<Longrightarrow> t = List.length text \<Longrightarrow>
      P t g star resume (Some (Some g))"
    and matched: "\<And>t g star resume r. like_place text glob t g star resume \<Longrightarrow> t < List.length text \<Longrightarrow> g < List.length glob \<Longrightarrow>
      glob ! g = UNDERSCORE \<or> glob ! g = text ! t \<Longrightarrow> P (t + 1) (g + 1) star resume r \<Longrightarrow> P t g star resume r"
    and wild: "\<And>t g star resume r. like_place text glob t g star resume \<Longrightarrow> t < List.length text \<Longrightarrow> g < List.length glob \<Longrightarrow>
      glob ! g = PERCENT \<Longrightarrow> P t (g + 1) (Some g) t r \<Longrightarrow> P t g star resume r"
    and retry: "\<And>t g s resume r. like_place text glob t g (Some s) resume \<Longrightarrow> t < List.length text \<Longrightarrow>
      \<not> (g < List.length glob \<and> (glob ! g = UNDERSCORE \<or> glob ! g = text ! t \<or> glob ! g = PERCENT)) \<Longrightarrow>
      resume < List.length text \<Longrightarrow> P (resume + 1) (s + 1) (Some s) (resume + 1) r \<Longrightarrow> P t g (Some s) resume r"
    and fail: "\<And>t g resume. like_place text glob t g None resume \<Longrightarrow> t < List.length text \<Longrightarrow>
      \<not> (g < List.length glob \<and> (glob ! g = UNDERSCORE \<or> glob ! g = text ! t \<or> glob ! g = PERCENT)) \<Longrightarrow>
      P t g None resume (Some None)"
  shows "P t g star resume (like_loop text glob t g star resume)"
  using place
proof (induction "like_measure text glob t g resume" arbitrary: t g star resume rule: less_induct)
  case less
  note loop = like_loop.simps [of "text" glob t g star resume]
  have le: "resume \<le> t" using less.prems by (auto simp: like_place_def split: option.splits)
  show ?case
  proof (cases "t < List.length text")
    case False
    then show ?thesis using fin [OF less.prems] less.prems loop by (simp add: like_place_def)
  next
    case t: True
    show ?thesis
    proof (cases "g < List.length glob \<and> (glob ! g = UNDERSCORE \<or> glob ! g = text ! t)")
      case True
      have "like_place text glob (t + 1) (g + 1) star resume"
        using less.prems t True by (auto simp: like_place_def split: option.splits)
      moreover have "like_measure text glob (t + 1) (g + 1) resume < like_measure text glob t g resume"
        using True unfolding like_measure_def by (intro add_strict_left_mono diff_less_mono2) auto
      ultimately have "P (t + 1) (g + 1) star resume (like_loop text glob (t + 1) (g + 1) star resume)"
        by (intro less.hyps)
      then show ?thesis using matched [OF less.prems t] True t loop by simp
    next
      case no: False
      show ?thesis
      proof (cases "g < List.length glob \<and> glob ! g = PERCENT")
        case True
        have "like_place text glob t (g + 1) (Some g) t" using True t by (simp add: like_place_def)
        then have "P t (g + 1) (Some g) t (like_loop text glob t (g + 1) (Some g) t)"
          using like_measure_match [of g glob resume t "text" t] True le by (intro less.hyps) auto
        moreover have "like_loop text glob t g star resume = like_loop text glob t (g + 1) (Some g) t"
          using loop t no True by auto
        ultimately show ?thesis using wild [OF less.prems t] True by simp
      next
        case False
        with no have no: "\<not> (g < List.length glob \<and> (glob ! g = UNDERSCORE \<or> glob ! g = text ! t \<or> glob ! g = PERCENT))"
          by blast
        show ?thesis
        proof (cases star)
          case None
          have "like_loop text glob t g star resume = Some None" using loop t no None by auto
          then show ?thesis using fail [of t g resume] less.prems t no None by simp
        next
          case (Some s)
          have r: "resume < List.length text" using le t by simp
          have "like_place text glob (resume + 1) (s + 1) (Some s) (resume + 1)"
            using less.prems Some r by (auto simp: like_place_def)
          then have "P (resume + 1) (s + 1) (Some s) (resume + 1) (like_loop text glob (resume + 1) (s + 1) (Some s) (resume + 1))"
            using like_measure_retry [OF r] by (intro less.hyps) auto
          moreover have "like_loop text glob t g star resume = like_loop text glob (resume + 1) (s + 1) (Some s) (resume + 1)"
            using loop t no Some by auto
          ultimately show ?thesis using retry [of t g s resume] less.prems t no Some r by simp
        qed
      qed
    qed
  qed
qed

lemma like_returns: "\<exists>r. like_loop text glob 0 0 None 0 = Some r"
proof -
  have "like_place text glob t g star resume \<Longrightarrow> \<exists>r. like_loop text glob t g star resume = Some r" for t g star resume
    by (induction rule: like_induct) auto
  then show ?thesis by (simp add: like_place_def)
qed

lemma like_spec_percent: "like_spec cs (PERCENT # ps) \<longleftrightarrow> (\<exists>k \<le> List.length cs. like_spec (drop k cs) ps)"
proof (induction cs)
  case (Cons c cs)
  have "(\<exists>k \<le> List.length (c # cs). like_spec (drop k (c # cs)) ps) \<longleftrightarrow>
      like_spec (c # cs) ps \<or> (\<exists>k \<le> List.length cs. like_spec (drop k cs) ps)"
    by (metis Suc_le_mono drop0 drop_Suc_Cons length_Cons not0_implies_Suc zero_le)
  then show ?case using Cons by simp
qed simp

lemma like_spec_later: "like_spec (drop k cs) (PERCENT # ps) \<Longrightarrow> like_spec cs (PERCENT # ps)"
proof (induction k arbitrary: cs)
  case (Suc k)
  then show ?case by (cases cs) auto
qed simp

lemma like_spec_run:
  assumes "\<forall>p \<in> set ps. p \<noteq> PERCENT"
  shows "like_spec cs (ps @ qs) \<longleftrightarrow> List.length ps \<le> List.length cs \<and>
    (\<forall>i < List.length ps. ps ! i = UNDERSCORE \<or> ps ! i = cs ! i) \<and> like_spec (drop (List.length ps) cs) qs"
  using assms
proof (induction ps arbitrary: cs)
  case (Cons p ps)
  then show ?case by (cases cs) (auto simp: All_less_Suc2)
qed simp

lemma like_run_of:
  assumes "t + s + 1 = resume + g" and "s < g" and "g \<le> List.length glob"
    and "\<forall>i < g - (s + 1). glob ! (s + 1 + i) \<noteq> PERCENT"
  obtains run where "drop (s + 1) glob = run @ drop g glob" and "List.length run = g - (s + 1)"
    and "\<forall>p \<in> set run. p \<noteq> PERCENT" and "\<And>i. i < g - (s + 1) \<Longrightarrow> run ! i = glob ! (s + 1 + i)"
proof
  let ?run = "take (g - (s + 1)) (drop (s + 1) glob)"
  show "drop (s + 1) glob = ?run @ drop g glob"
    using append_take_drop_id [of "g - (s + 1)" "drop (s + 1) glob"] assms by simp
  show "List.length ?run = g - (s + 1)" using assms by simp
  show "\<forall>p \<in> set ?run. p \<noteq> PERCENT" using assms by (auto simp: in_set_conv_nth)
  show "\<And>i. i < g - (s + 1) \<Longrightarrow> ?run ! i = glob ! (s + 1 + i)" using assms by simp
qed

text \<open>What holds at a place when the text has no percent sign: the question is still open from the last wildcard on.\<close>

definition like_open :: "byte list \<Rightarrow> byte list \<Rightarrow> nat \<Rightarrow> nat \<Rightarrow> nat option \<Rightarrow> nat \<Rightarrow> bool" where
  "like_open text glob t g star resume \<longleftrightarrow>
     (case star of
        None \<Rightarrow> like_spec text glob \<longleftrightarrow> like_spec (drop t text) (drop g glob)
      | Some s \<Rightarrow> (like_spec text glob \<longleftrightarrow> like_spec (drop resume text) (drop s glob)) \<and>
          (\<forall>i < g - (s + 1). glob ! (s + 1 + i) \<noteq> PERCENT \<and>
             (glob ! (s + 1 + i) = UNDERSCORE \<or> glob ! (s + 1 + i) = text ! (resume + i))))"

text \<open>After the last wildcard: matching there at all, at \<open>resume\<close>, and later.\<close>

lemma like_after_wildcard:
  assumes "like_place text glob t g (Some s) resume" and "like_open text glob t g (Some s) resume"
  shows "like_spec (drop resume text) (drop (s + 1) glob) \<longleftrightarrow> like_spec (drop t text) (drop g glob)"
    and "k \<le> List.length text - resume \<Longrightarrow> like_spec (drop k (drop resume text)) (drop (s + 1) glob) \<Longrightarrow>
      k + t \<le> List.length text \<and> like_spec (drop k (drop t text)) (drop g glob)"
proof -
  have p: "t + s + 1 = resume + g" "s < g" "g \<le> List.length glob" "t \<le> List.length text"
    using assms(1) by (auto simp: like_place_def)
  have o: "\<forall>i < g - (s + 1). glob ! (s + 1 + i) \<noteq> PERCENT"
      "\<And>i. i < g - (s + 1) \<Longrightarrow> glob ! (s + 1 + i) = UNDERSCORE \<or> glob ! (s + 1 + i) = text ! (resume + i)"
    using assms(2) by (auto simp: like_open_def)
  obtain run where run: "drop (s + 1) glob = run @ drop g glob" "List.length run = g - (s + 1)"
      "\<forall>p \<in> set run. p \<noteq> PERCENT" "\<And>i. i < g - (s + 1) \<Longrightarrow> run ! i = glob ! (s + 1 + i)"
    using like_run_of [OF p(1-3) o(1)] by blast
  have n: "resume + (g - (s + 1)) = t" using p by simp
  have m: "\<forall>i < List.length run. run ! i = UNDERSCORE \<or> run ! i = drop resume text ! i"
    using o(2) run(2,4) p n by (auto simp: nth_drop)
  have d: "drop (g - (s + 1)) (drop k (drop resume text)) = drop k (drop t text)" for k
    unfolding drop_drop n [symmetric] by (simp only: ac_simps)
  show "like_spec (drop resume text) (drop (s + 1) glob) \<longleftrightarrow> like_spec (drop t text) (drop g glob)"
    using like_spec_run [OF run(3), of "drop resume text" "drop g glob"] m n p d [of 0] unfolding run(1)
    by (auto simp: run(2))
  show "k + t \<le> List.length text \<and> like_spec (drop k (drop t text)) (drop g glob)"
    if "k \<le> List.length text - resume" "like_spec (drop k (drop resume text)) (drop (s + 1) glob)"
    using that like_spec_run [OF run(3), of "drop k (drop resume text)" "drop g glob"] n p d [of k] unfolding run(1)
    by (auto simp: run(2))
qed

lemma like_mismatch:
  assumes "t < List.length text"
    and "\<not> (g < List.length glob \<and> (glob ! g = UNDERSCORE \<or> glob ! g = text ! t \<or> glob ! g = PERCENT))"
  shows "\<not> like_spec (drop t text) (drop g glob)"
proof (cases "g < List.length glob")
  case True
  then show ?thesis using assms by (simp add: Cons_nth_drop_Suc [symmetric])
qed (use assms in simp)

lemma like_loop_spec:
  assumes "PERCENT \<notin> set text"
  shows "\<exists>b. like_loop text glob 0 0 None 0 = Some b \<and>
    (like_spec text glob \<longleftrightarrow> (case b of None \<Rightarrow> False | Some g \<Rightarrow> like_spec [] (drop g glob)))"
proof -
  let ?P = "\<lambda>t g star resume r. like_open text glob t g star resume \<longrightarrow> (\<exists>b. r = Some b \<and>
    (like_spec text glob \<longleftrightarrow> (case b of None \<Rightarrow> False | Some g \<Rightarrow> like_spec [] (drop g glob))))"
  have all: "?P t g star resume (like_loop text glob t g star resume)" if "like_place text glob t g star resume"
    for t g star resume using that
  proof (induction rule: like_induct)
    case (ended t g star resume)
    show ?case
    proof (cases star)
      case None
      then show ?thesis unfolding ended(2) None by (simp add: like_open_def)
    next
      case (Some s)
      show ?thesis
      proof
        assume o: "like_open text glob t g star resume"
        have w: "drop s glob = PERCENT # drop (s + 1) glob"
          using ended Some by (simp add: like_place_def Cons_nth_drop_Suc [symmetric])
        note after = like_after_wildcard [of "text" glob t g s resume, folded Some, OF ended(1) o]
        have "like_spec (drop resume text) (drop s glob) \<longleftrightarrow> like_spec [] (drop g glob)"
          using after(1) after(2) ended(2) like_spec_percent [of "drop resume text" "drop (s + 1) glob"] w
          by (auto intro: exI [of _ 0])
        then show "\<exists>b. Some (Some g) = Some b \<and>
            (like_spec text glob \<longleftrightarrow> (case b of None \<Rightarrow> False | Some g \<Rightarrow> like_spec [] (drop g glob)))"
          using o Some by (simp add: like_open_def)
      qed
    qed
  next
    case (matched t g star resume r)
    have "text ! t \<noteq> PERCENT" using assms matched(2) by (auto simp: in_set_conv_nth)
    then have n: "glob ! g \<noteq> PERCENT" using matched(4) by (auto simp: PERCENT_def UNDERSCORE_def)
    have "like_open text glob t g star resume \<Longrightarrow> like_open text glob (t + 1) (g + 1) star resume"
    proof (cases star)
      case None
      then show "like_open text glob t g star resume \<Longrightarrow> like_open text glob (t + 1) (g + 1) star resume"
        using matched n by (simp add: like_open_def Cons_nth_drop_Suc [symmetric])
    next
      case (Some s)
      have "g + 1 - (s + 1) = Suc (g - (s + 1))" "s + 1 + (g - (s + 1)) = g" "resume + (g - (s + 1)) = t"
        using matched(1) Some by (auto simp: like_place_def)
      then show "like_open text glob t g star resume \<Longrightarrow> like_open text glob (t + 1) (g + 1) star resume"
        using matched(4) n Some by (simp add: like_open_def All_less_Suc)
    qed
    then show ?case using matched.IH by blast
  next
    case (wildcard t g star resume r)
    have w: "drop g glob = PERCENT # drop (g + 1) glob" using wildcard by (simp add: Cons_nth_drop_Suc [symmetric])
    have "like_open text glob t (g + 1) (Some g) t" if o: "like_open text glob t g star resume"
    proof (cases star)
      case None
      then show ?thesis using o by (simp add: like_open_def)
    next
      case (Some s)
      have v: "drop s glob = PERCENT # drop (s + 1) glob"
        using wildcard(1) Some by (simp add: like_place_def Cons_nth_drop_Suc [symmetric])
      note after = like_after_wildcard [of "text" glob t g s resume, folded Some, OF wildcard(1) o]
      have "like_spec (drop resume text) (drop s glob) \<longleftrightarrow> like_spec (drop t text) (drop g glob)"
        using after(1) after(2) like_spec_percent [of "drop resume text" "drop (s + 1) glob"] v w
          like_spec_later [of _ "drop t text"] by (auto intro: exI [of _ 0])
      then show ?thesis using o Some by (simp add: like_open_def)
    qed
    then show ?case using wildcard.IH by blast
  next
    case (retry t g s resume r)
    have "like_open text glob (resume + 1) (s + 1) (Some s) (resume + 1)" if o: "like_open text glob t g (Some s) resume"
    proof -
      have "\<not> like_spec (drop resume text) (drop (s + 1) glob)"
        using like_after_wildcard(1) [OF retry(1) o] like_mismatch [OF retry(2,3)] by simp
      moreover have "drop s glob = PERCENT # drop (s + 1) glob"
        using retry(1) by (simp add: like_place_def Cons_nth_drop_Suc [symmetric])
      ultimately have "like_spec (drop resume text) (drop s glob) \<longleftrightarrow> like_spec (drop (resume + 1) text) (drop s glob)"
        using retry(4) by (simp add: Cons_nth_drop_Suc [symmetric])
      then show ?thesis using o by (simp add: like_open_def)
    qed
    then show ?case using retry.IH by blast
  next
    case (fail t g resume)
    then show ?case using like_mismatch [OF fail(2,3)] by (simp add: like_open_def)
  qed
  show ?thesis using all [of 0 0 None 0] by (simp add: like_open_def like_place_def)
qed

text \<open>C27. \<open>LIKE\<close> answers for every text and pattern, null when either is. On a text without a percent sign the answer is that of
  SQL, whatever the pattern, although the loop only goes back to the last wildcard; a percent sign in the text is taken
  for the wildcard of the pattern, and \<open>%x\<close> is not \<open>LIKE '%'\<close>.\<close>

theorem like_correct:
  "(\<exists>b. String_LIKE this pattern = Some b \<and> (b = None \<longleftrightarrow> this = None \<or> pattern = None)) \<and>
    (PERCENT \<notin> set text \<longrightarrow> String_LIKE (Some text) (Some glob) = Some (Some (if like_spec text glob then 1 else 0))) \<and>
    String_LIKE (Some [PERCENT, 120]) (Some [PERCENT]) = Some (Some 0) \<and> like_spec [PERCENT, 120] [PERCENT]"
proof (intro conjI impI)
  show "\<exists>b. String_LIKE this pattern = Some b \<and> (b = None \<longleftrightarrow> this = None \<or> pattern = None)"
  proof (cases "this = None \<or> pattern = None")
    case False
    then obtain t g where tg: "this = Some t" "pattern = Some g" by auto
    from like_returns [of t g] obtain r where "like_loop t g 0 0 None 0 = Some r" ..
    then show ?thesis using tg by (simp add: String_LIKE_def split: option.splits)
  qed (auto simp: String_LIKE_def split: option.splits)
  show "String_LIKE (Some text) (Some glob) = Some (Some (if like_spec text glob then 1 else 0))" if "PERCENT \<notin> set text"
    using like_loop_spec [OF that, of glob] skip_percents_spec by (auto simp: String_LIKE_def split: option.splits)
  show "String_LIKE (Some [PERCENT, 120]) (Some [PERCENT]) = Some (Some 0)"
    by (simp add: String_LIKE_def like_loop.simps PERCENT_def UNDERSCORE_def)
qed simp

lemma like_correct_witness: "String_LIKE (Some [120, 97, 121, 97]) (Some [PERCENT, 97]) = Some (Some 1)"
  using like_correct [of None None "[120, 97, 121, 97]" "[PERCENT, 97]"] by (simp add: PERCENT_def UNDERSCORE_def)

end
