(* ===== verification/Type_Decimals.thy ===== *)
theory Type_Decimals
  imports Type_Base
begin

text \<open>
  \<open>Float\<close>, \<open>Double\<close> and \<open>Real\<close> of \<open>Type/\<close>. A number is the word of its representation, as on the streams; the
  arithmetic of the floating-point unit, the conversion from \<open>int\<close> and \<open>std::to_string\<close> are the parameter \<open>F\<close>.
  Zero is the word of zeros.
\<close>

record 'f decimal_ops =
  d_eq :: "'f \<Rightarrow> 'f \<Rightarrow> bool"
  d_less :: "'f \<Rightarrow> 'f \<Rightarrow> bool"
  d_less_eq :: "'f \<Rightarrow> 'f \<Rightarrow> bool"
  d_plus :: "'f \<Rightarrow> 'f \<Rightarrow> 'f"
  d_minus :: "'f \<Rightarrow> 'f \<Rightarrow> 'f"
  d_times :: "'f \<Rightarrow> 'f \<Rightarrow> 'f"
  d_divide :: "'f \<Rightarrow> 'f \<Rightarrow> 'f"
  d_of_int :: "32 word \<Rightarrow> 'f"
  d_to_string :: "'f \<Rightarrow> byte list"

section \<open>Float\<close>

definition Float_TDB :: "byte" where
  "Float_TDB = tdb_FLOAT"

definition Float_tdb :: "32 word option \<Rightarrow> byte" where
  "Float_tdb this = (if this = None then Float_TDB OR IS_NULL else Float_TDB)"

definition Float_new :: "32 word option" where
  "Float_new = Some 0"

definition Float_null :: "32 word option" where
  "Float_null = None"

definition Float_of :: "32 word \<Rightarrow> 32 word option" where
  "Float_of other = Some other"

definition Float_move :: "32 word option \<Rightarrow> 32 word option \<times> 32 word option" where
  "Float_move other = (other, None)"

definition Float_copy :: "32 word option \<Rightarrow> 32 word option" where
  "Float_copy other = (case other of None \<Rightarrow> None | Some v \<Rightarrow> Some v)"

definition Float_set_null :: "32 word option \<Rightarrow> 32 word option" where
  "Float_set_null this = free_value this"

definition Float_assign_null :: "32 word option \<Rightarrow> 32 word option" where
  "Float_assign_null this = Float_set_null this"

definition Float_assign_value :: "bool \<Rightarrow> 32 word option \<Rightarrow> 32 word \<Rightarrow> 32 word option" where
  "Float_assign_value same this other = (if \<not> same then Some other else this)"

definition Float_assign_move :: "bool \<Rightarrow> 32 word option \<Rightarrow> 32 word option \<Rightarrow> 32 word option \<times> 32 word option" where
  "Float_assign_move same this other = (if \<not> same then (other, None) else (this, other))"

definition Float_assign :: "bool \<Rightarrow> 32 word option \<Rightarrow> 32 word option \<Rightarrow> 32 word option" where
  "Float_assign same this other =
     (if \<not> same then (case other of None \<Rightarrow> Float_set_null this | Some v \<Rightarrow> Some v) else this)"

definition Float_eq_null :: "32 word option \<Rightarrow> bool result" where
  "Float_eq_null this = Inl NULL_EXCEPTION"

definition Float_of_int :: "32 word decimal_ops \<Rightarrow> 32 word \<Rightarrow> 32 word option" where
  "Float_of_int F other = Some (d_of_int F other)"

definition Float_eq_value :: "32 word decimal_ops \<Rightarrow> 32 word option \<Rightarrow> 32 word \<Rightarrow> bool result" where
  "Float_eq_value F this other = null1 this (\<lambda>v. Inr (d_eq F v other))"

definition Float_eq :: "32 word decimal_ops \<Rightarrow> 32 word option \<Rightarrow> 32 word option \<Rightarrow> bool result" where
  "Float_eq F this other = null2 this other (\<lambda>v w. Inr (d_eq F v w))"

definition Float_ne_null :: "32 word option \<Rightarrow> bool result" where
  "Float_ne_null this = Inl NULL_EXCEPTION"

definition Float_ne_value :: "32 word decimal_ops \<Rightarrow> 32 word option \<Rightarrow> 32 word \<Rightarrow> bool result" where
  "Float_ne_value F this other = null1 this (\<lambda>v. Inr (\<not> d_eq F v other))"

definition Float_ne :: "32 word decimal_ops \<Rightarrow> 32 word option \<Rightarrow> 32 word option \<Rightarrow> bool result" where
  "Float_ne F this other = null2 this other (\<lambda>v w. Inr (\<not> d_eq F v w))"

definition Float_less :: "32 word decimal_ops \<Rightarrow> 32 word option \<Rightarrow> 32 word option \<Rightarrow> bool result" where
  "Float_less F this other = null2 this other (\<lambda>v w. Inr (d_less F v w))"

definition Float_less_eq :: "32 word decimal_ops \<Rightarrow> 32 word option \<Rightarrow> 32 word option \<Rightarrow> bool result" where
  "Float_less_eq F this other = null2 this other (\<lambda>v w. Inr (d_less_eq F v w))"

definition Float_greater :: "32 word decimal_ops \<Rightarrow> 32 word option \<Rightarrow> 32 word option \<Rightarrow> bool result" where
  "Float_greater F this other = null2 this other (\<lambda>v w. Inr (d_less F w v))"

definition Float_greater_eq :: "32 word decimal_ops \<Rightarrow> 32 word option \<Rightarrow> 32 word option \<Rightarrow> bool result" where
  "Float_greater_eq F this other = null2 this other (\<lambda>v w. Inr (d_less_eq F w v))"

definition Float_plus :: "32 word decimal_ops \<Rightarrow> 32 word option \<Rightarrow> 32 word option \<Rightarrow> 32 word option result" where
  "Float_plus F this other = null2 this other (\<lambda>v w. Inr (Some (d_plus F v w)))"

definition Float_minus :: "32 word decimal_ops \<Rightarrow> 32 word option \<Rightarrow> 32 word option \<Rightarrow> 32 word option result" where
  "Float_minus F this other = null2 this other (\<lambda>v w. Inr (Some (d_minus F v w)))"

definition Float_times :: "32 word decimal_ops \<Rightarrow> 32 word option \<Rightarrow> 32 word option \<Rightarrow> 32 word option result" where
  "Float_times F this other = null2 this other (\<lambda>v w. Inr (Some (d_times F v w)))"

definition Float_divide :: "32 word decimal_ops \<Rightarrow> 32 word option \<Rightarrow> 32 word option \<Rightarrow> 32 word option result" where
  "Float_divide F this other = null2 this other (\<lambda>v w. Inr (Some (d_divide F v w)))"

definition Float_increment :: "32 word decimal_ops \<Rightarrow> 32 word option \<Rightarrow> 32 word option result" where
  "Float_increment F this = null1 this (\<lambda>v. Inr (Some (d_plus F v (d_of_int F 1))))"

definition Float_increment_post :: "32 word decimal_ops \<Rightarrow> 32 word option \<Rightarrow> 32 word option result" where
  "Float_increment_post F this = Float_increment F this"

definition Float_decrement :: "32 word decimal_ops \<Rightarrow> 32 word option \<Rightarrow> 32 word option result" where
  "Float_decrement F this = null1 this (\<lambda>v. Inr (Some (d_minus F v (d_of_int F 1))))"

definition Float_value :: "32 word option \<Rightarrow> 32 word result" where
  "Float_value this = null1 this Inr"

definition Float_to_std_string :: "32 word decimal_ops \<Rightarrow> 32 word option \<Rightarrow> byte list" where
  "Float_to_std_string F this = (case this of None \<Rightarrow> NULL_STRING | Some v \<Rightarrow> d_to_string F v)"

definition Float_write :: "binary \<Rightarrow> 32 word option \<Rightarrow> stream \<Rightarrow> stream" where
  "Float_write k = write_nullable k Float_tdb (write_float k)"

definition Float_read :: "binary \<Rightarrow> memory \<Rightarrow> 32 word option \<Rightarrow> stream \<Rightarrow> 32 word option \<times> stream" where
  "Float_read k memory = read_nullable k memory (read_float k) 0"

interpretation float_type: packed "Float_write k" "Float_read k" "\<lambda>x. Float_tdb x # (case x of None \<Rightarrow> [] | Some v \<Rightarrow> (octets_of k) v)"
    "Object_pack_size Float_tdb" "\<lambda>_. True" for k
  unfolding Float_write_def [abs_def] Float_read_def [abs_def]
  by (rule packed_nullable [OF b_float.object_io_axioms]) (simp_all add: Float_tdb_def Float_TDB_def tdb_types tdb_parts SIZEOF_def)

section \<open>Double\<close>

definition Double_TDB :: "byte" where
  "Double_TDB = tdb_DOUBLE"

definition Double_tdb :: "64 word option \<Rightarrow> byte" where
  "Double_tdb this = (if this = None then Double_TDB OR IS_NULL else Double_TDB)"

definition Double_new :: "64 word option" where
  "Double_new = Some 0"

definition Double_null :: "64 word option" where
  "Double_null = None"

definition Double_of :: "64 word \<Rightarrow> 64 word option" where
  "Double_of other = Some other"

definition Double_move :: "64 word option \<Rightarrow> 64 word option \<times> 64 word option" where
  "Double_move other = (other, None)"

definition Double_copy :: "64 word option \<Rightarrow> 64 word option" where
  "Double_copy other = (case other of None \<Rightarrow> None | Some v \<Rightarrow> Some v)"

definition Double_set_null :: "64 word option \<Rightarrow> 64 word option" where
  "Double_set_null this = free_value this"

definition Double_assign_null :: "64 word option \<Rightarrow> 64 word option" where
  "Double_assign_null this = Double_set_null this"

definition Double_assign_value :: "bool \<Rightarrow> 64 word option \<Rightarrow> 64 word \<Rightarrow> 64 word option" where
  "Double_assign_value same this other = (if \<not> same then Some other else this)"

definition Double_assign_move :: "bool \<Rightarrow> 64 word option \<Rightarrow> 64 word option \<Rightarrow> 64 word option \<times> 64 word option" where
  "Double_assign_move same this other = (if \<not> same then (other, None) else (this, other))"

definition Double_assign :: "bool \<Rightarrow> 64 word option \<Rightarrow> 64 word option \<Rightarrow> 64 word option" where
  "Double_assign same this other =
     (if \<not> same then (case other of None \<Rightarrow> Double_set_null this | Some v \<Rightarrow> Some v) else this)"

definition Double_eq_null :: "64 word option \<Rightarrow> bool result" where
  "Double_eq_null this = Inl NULL_EXCEPTION"

definition Double_of_int :: "64 word decimal_ops \<Rightarrow> 32 word \<Rightarrow> 64 word option" where
  "Double_of_int F other = Some (d_of_int F other)"

definition Double_eq_value :: "64 word decimal_ops \<Rightarrow> 64 word option \<Rightarrow> 64 word \<Rightarrow> bool result" where
  "Double_eq_value F this other = null1 this (\<lambda>v. Inr (d_eq F v other))"

definition Double_eq :: "64 word decimal_ops \<Rightarrow> 64 word option \<Rightarrow> 64 word option \<Rightarrow> bool result" where
  "Double_eq F this other = null2 this other (\<lambda>v w. Inr (d_eq F v w))"

definition Double_ne_null :: "64 word option \<Rightarrow> bool result" where
  "Double_ne_null this = Inl NULL_EXCEPTION"

definition Double_ne_value :: "64 word decimal_ops \<Rightarrow> 64 word option \<Rightarrow> 64 word \<Rightarrow> bool result" where
  "Double_ne_value F this other = null1 this (\<lambda>v. Inr (\<not> d_eq F v other))"

definition Double_ne :: "64 word decimal_ops \<Rightarrow> 64 word option \<Rightarrow> 64 word option \<Rightarrow> bool result" where
  "Double_ne F this other = null2 this other (\<lambda>v w. Inr (\<not> d_eq F v w))"

definition Double_less :: "64 word decimal_ops \<Rightarrow> 64 word option \<Rightarrow> 64 word option \<Rightarrow> bool result" where
  "Double_less F this other = null2 this other (\<lambda>v w. Inr (d_less F v w))"

definition Double_less_eq :: "64 word decimal_ops \<Rightarrow> 64 word option \<Rightarrow> 64 word option \<Rightarrow> bool result" where
  "Double_less_eq F this other = null2 this other (\<lambda>v w. Inr (d_less_eq F v w))"

definition Double_greater :: "64 word decimal_ops \<Rightarrow> 64 word option \<Rightarrow> 64 word option \<Rightarrow> bool result" where
  "Double_greater F this other = null2 this other (\<lambda>v w. Inr (d_less F w v))"

definition Double_greater_eq :: "64 word decimal_ops \<Rightarrow> 64 word option \<Rightarrow> 64 word option \<Rightarrow> bool result" where
  "Double_greater_eq F this other = null2 this other (\<lambda>v w. Inr (d_less_eq F w v))"

definition Double_plus :: "64 word decimal_ops \<Rightarrow> 64 word option \<Rightarrow> 64 word option \<Rightarrow> 64 word option result" where
  "Double_plus F this other = null2 this other (\<lambda>v w. Inr (Some (d_plus F v w)))"

definition Double_minus :: "64 word decimal_ops \<Rightarrow> 64 word option \<Rightarrow> 64 word option \<Rightarrow> 64 word option result" where
  "Double_minus F this other = null2 this other (\<lambda>v w. Inr (Some (d_minus F v w)))"

definition Double_times :: "64 word decimal_ops \<Rightarrow> 64 word option \<Rightarrow> 64 word option \<Rightarrow> 64 word option result" where
  "Double_times F this other = null2 this other (\<lambda>v w. Inr (Some (d_times F v w)))"

definition Double_divide :: "64 word decimal_ops \<Rightarrow> 64 word option \<Rightarrow> 64 word option \<Rightarrow> 64 word option result" where
  "Double_divide F this other = null2 this other (\<lambda>v w. Inr (Some (d_divide F v w)))"

definition Double_increment :: "64 word decimal_ops \<Rightarrow> 64 word option \<Rightarrow> 64 word option result" where
  "Double_increment F this = null1 this (\<lambda>v. Inr (Some (d_plus F v (d_of_int F 1))))"

definition Double_increment_post :: "64 word decimal_ops \<Rightarrow> 64 word option \<Rightarrow> 64 word option result" where
  "Double_increment_post F this = Double_increment F this"

definition Double_decrement :: "64 word decimal_ops \<Rightarrow> 64 word option \<Rightarrow> 64 word option result" where
  "Double_decrement F this = null1 this (\<lambda>v. Inr (Some (d_minus F v (d_of_int F 1))))"

definition Double_value :: "64 word option \<Rightarrow> 64 word result" where
  "Double_value this = null1 this Inr"

definition Double_to_std_string :: "64 word decimal_ops \<Rightarrow> 64 word option \<Rightarrow> byte list" where
  "Double_to_std_string F this = (case this of None \<Rightarrow> NULL_STRING | Some v \<Rightarrow> d_to_string F v)"

definition Double_write :: "binary \<Rightarrow> 64 word option \<Rightarrow> stream \<Rightarrow> stream" where
  "Double_write k = write_nullable k Double_tdb (write_double k)"

definition Double_read :: "binary \<Rightarrow> memory \<Rightarrow> 64 word option \<Rightarrow> stream \<Rightarrow> 64 word option \<times> stream" where
  "Double_read k memory = read_nullable k memory (read_double k) 0"

interpretation double_type: packed "Double_write k" "Double_read k" "\<lambda>x. Double_tdb x # (case x of None \<Rightarrow> [] | Some v \<Rightarrow> (octets_of k) v)"
    "Object_pack_size Double_tdb" "\<lambda>_. True" for k
  unfolding Double_write_def [abs_def] Double_read_def [abs_def]
  by (rule packed_nullable [OF b_double.object_io_axioms]) (simp_all add: Double_tdb_def Double_TDB_def tdb_types tdb_parts SIZEOF_def)

section \<open>Real\<close>

definition Real_TDB :: "byte" where
  "Real_TDB = tdb_REAL"

definition Real_tdb :: "128 word option \<Rightarrow> byte" where
  "Real_tdb this = (if this = None then Real_TDB OR IS_NULL else Real_TDB)"

definition Real_new :: "128 word option" where
  "Real_new = Some 0"

definition Real_null :: "128 word option" where
  "Real_null = None"

definition Real_of :: "128 word \<Rightarrow> 128 word option" where
  "Real_of other = Some other"

definition Real_move :: "128 word option \<Rightarrow> 128 word option \<times> 128 word option" where
  "Real_move other = (other, None)"

definition Real_copy :: "128 word option \<Rightarrow> 128 word option" where
  "Real_copy other = (case other of None \<Rightarrow> None | Some v \<Rightarrow> Some v)"

definition Real_set_null :: "128 word option \<Rightarrow> 128 word option" where
  "Real_set_null this = free_value this"

definition Real_assign_null :: "128 word option \<Rightarrow> 128 word option" where
  "Real_assign_null this = Real_set_null this"

definition Real_assign_value :: "bool \<Rightarrow> 128 word option \<Rightarrow> 128 word \<Rightarrow> 128 word option" where
  "Real_assign_value same this other = (if \<not> same then Some other else this)"

definition Real_assign_move :: "bool \<Rightarrow> 128 word option \<Rightarrow> 128 word option \<Rightarrow> 128 word option \<times> 128 word option" where
  "Real_assign_move same this other = (if \<not> same then (other, None) else (this, other))"

definition Real_assign :: "bool \<Rightarrow> 128 word option \<Rightarrow> 128 word option \<Rightarrow> 128 word option" where
  "Real_assign same this other =
     (if \<not> same then (case other of None \<Rightarrow> Real_set_null this | Some v \<Rightarrow> Some v) else this)"

definition Real_eq_null :: "128 word option \<Rightarrow> bool result" where
  "Real_eq_null this = Inl NULL_EXCEPTION"

definition Real_of_int :: "128 word decimal_ops \<Rightarrow> 32 word \<Rightarrow> 128 word option" where
  "Real_of_int F other = Some (d_of_int F other)"

definition Real_eq_value :: "128 word decimal_ops \<Rightarrow> 128 word option \<Rightarrow> 128 word \<Rightarrow> bool result" where
  "Real_eq_value F this other = null1 this (\<lambda>v. Inr (d_eq F v other))"

definition Real_eq :: "128 word decimal_ops \<Rightarrow> 128 word option \<Rightarrow> 128 word option \<Rightarrow> bool result" where
  "Real_eq F this other = null2 this other (\<lambda>v w. Inr (d_eq F v w))"

definition Real_ne_null :: "128 word option \<Rightarrow> bool result" where
  "Real_ne_null this = Inl NULL_EXCEPTION"

definition Real_ne_value :: "128 word decimal_ops \<Rightarrow> 128 word option \<Rightarrow> 128 word \<Rightarrow> bool result" where
  "Real_ne_value F this other = null1 this (\<lambda>v. Inr (\<not> d_eq F v other))"

definition Real_ne :: "128 word decimal_ops \<Rightarrow> 128 word option \<Rightarrow> 128 word option \<Rightarrow> bool result" where
  "Real_ne F this other = null2 this other (\<lambda>v w. Inr (\<not> d_eq F v w))"

definition Real_less :: "128 word decimal_ops \<Rightarrow> 128 word option \<Rightarrow> 128 word option \<Rightarrow> bool result" where
  "Real_less F this other = null2 this other (\<lambda>v w. Inr (d_less F v w))"

definition Real_less_eq :: "128 word decimal_ops \<Rightarrow> 128 word option \<Rightarrow> 128 word option \<Rightarrow> bool result" where
  "Real_less_eq F this other = null2 this other (\<lambda>v w. Inr (d_less_eq F v w))"

definition Real_greater :: "128 word decimal_ops \<Rightarrow> 128 word option \<Rightarrow> 128 word option \<Rightarrow> bool result" where
  "Real_greater F this other = null2 this other (\<lambda>v w. Inr (d_less F w v))"

definition Real_greater_eq :: "128 word decimal_ops \<Rightarrow> 128 word option \<Rightarrow> 128 word option \<Rightarrow> bool result" where
  "Real_greater_eq F this other = null2 this other (\<lambda>v w. Inr (d_less_eq F w v))"

definition Real_plus :: "128 word decimal_ops \<Rightarrow> 128 word option \<Rightarrow> 128 word option \<Rightarrow> 128 word option result" where
  "Real_plus F this other = null2 this other (\<lambda>v w. Inr (Some (d_plus F v w)))"

definition Real_minus :: "128 word decimal_ops \<Rightarrow> 128 word option \<Rightarrow> 128 word option \<Rightarrow> 128 word option result" where
  "Real_minus F this other = null2 this other (\<lambda>v w. Inr (Some (d_minus F v w)))"

definition Real_times :: "128 word decimal_ops \<Rightarrow> 128 word option \<Rightarrow> 128 word option \<Rightarrow> 128 word option result" where
  "Real_times F this other = null2 this other (\<lambda>v w. Inr (Some (d_times F v w)))"

definition Real_divide :: "128 word decimal_ops \<Rightarrow> 128 word option \<Rightarrow> 128 word option \<Rightarrow> 128 word option result" where
  "Real_divide F this other = null2 this other (\<lambda>v w. Inr (Some (d_divide F v w)))"

definition Real_increment :: "128 word decimal_ops \<Rightarrow> 128 word option \<Rightarrow> 128 word option result" where
  "Real_increment F this = null1 this (\<lambda>v. Inr (Some (d_plus F v (d_of_int F 1))))"

definition Real_increment_post :: "128 word decimal_ops \<Rightarrow> 128 word option \<Rightarrow> 128 word option result" where
  "Real_increment_post F this = Real_increment F this"

definition Real_decrement :: "128 word decimal_ops \<Rightarrow> 128 word option \<Rightarrow> 128 word option result" where
  "Real_decrement F this = null1 this (\<lambda>v. Inr (Some (d_minus F v (d_of_int F 1))))"

definition Real_value :: "128 word option \<Rightarrow> 128 word result" where
  "Real_value this = null1 this Inr"

definition Real_to_std_string :: "128 word decimal_ops \<Rightarrow> 128 word option \<Rightarrow> byte list" where
  "Real_to_std_string F this = (case this of None \<Rightarrow> NULL_STRING | Some v \<Rightarrow> d_to_string F v)"

definition Real_write :: "binary \<Rightarrow> 128 word option \<Rightarrow> stream \<Rightarrow> stream" where
  "Real_write k = write_nullable k Real_tdb (write_real k)"

definition Real_read :: "binary \<Rightarrow> memory \<Rightarrow> 128 word option \<Rightarrow> stream \<Rightarrow> 128 word option \<times> stream" where
  "Real_read k memory = read_nullable k memory (read_real k) 0"

interpretation real_type: packed "Real_write k" "Real_read k" "\<lambda>x. Real_tdb x # (case x of None \<Rightarrow> [] | Some v \<Rightarrow> (octets_of k) v)"
    "Object_pack_size Real_tdb" "\<lambda>_. True" for k
  unfolding Real_write_def [abs_def] Real_read_def [abs_def]
  by (rule packed_nullable [OF b_real.object_io_axioms]) (simp_all add: Real_tdb_def Real_TDB_def tdb_types tdb_parts SIZEOF_def)

end
