(* ===== verification/Type_Vector.thy ===== *)
theory Type_Vector
  imports Type_String Type_Decimals
begin

text \<open>
  \<open>Vector<T>\<close> of \<open>Type/typevector.hpp\<close>: a nullable \<open>std::vector\<close> of objects, whose elements keep their own null. The
  operations of the class \<open>T\<close> are arguments of those that use them, and the contract of its streams gives that of the
  vector. Last come the statements on all the types.
\<close>

section \<open>Vector\<close>

definition Vector_TDB :: "byte \<Rightarrow> byte" where
  "Vector_TDB element = tdb_VECTOR OR element"

definition Vector_ELEMENT_TDB :: "byte \<Rightarrow> byte" where
  "Vector_ELEMENT_TDB element = element"

definition Vector_tdb :: "byte \<Rightarrow> 'e list option \<Rightarrow> byte" where
  "Vector_tdb element this = (if this = None then Vector_TDB element OR IS_NULL else Vector_TDB element)"

definition Vector_new :: "'e list option" where
  "Vector_new = Some []"

definition Vector_null :: "'e list option" where
  "Vector_null = None"

definition Vector_of :: "'e list \<Rightarrow> 'e list option" where
  "Vector_of other = Some other"

definition Vector_move :: "'e list option \<Rightarrow> 'e list option \<times> 'e list option" where
  "Vector_move other = (other, None)"

definition Vector_copy :: "'e list option \<Rightarrow> 'e list option" where
  "Vector_copy other = (case other of None \<Rightarrow> None | Some v \<Rightarrow> Some v)"

definition Vector_of_size :: "'e \<Rightarrow> nat \<Rightarrow> 'e list option" where
  "Vector_of_size fresh n = Some (replicate n fresh)"

text \<open>A \<open>std::vector\<close> of plain values is assigned to elements that have just been made.\<close>

definition Vector_of_values :: "'e \<Rightarrow> ('e \<Rightarrow> 'v \<Rightarrow> 'e) \<Rightarrow> 'v list \<Rightarrow> 'e list option" where
  "Vector_of_values fresh assign other = Some (map2 assign (replicate (List.length other) fresh) other)"

definition Vector_set_null :: "'e list option \<Rightarrow> 'e list option" where
  "Vector_set_null this = free_value this"

definition Vector_assign_null :: "'e list option \<Rightarrow> 'e list option" where
  "Vector_assign_null this = Vector_set_null this"

definition Vector_assign_value :: "bool \<Rightarrow> 'e list option \<Rightarrow> 'e list \<Rightarrow> 'e list option" where
  "Vector_assign_value same this other = (if \<not> same then Some other else this)"

definition Vector_assign_move :: "bool \<Rightarrow> 'e list option \<Rightarrow> 'e list option \<Rightarrow> 'e list option \<times> 'e list option" where
  "Vector_assign_move same this other = (if \<not> same then (other, None) else (this, other))"

definition Vector_assign :: "bool \<Rightarrow> 'e list option \<Rightarrow> 'e list option \<Rightarrow> 'e list option" where
  "Vector_assign same this other =
     (if \<not> same then (case other of None \<Rightarrow> Vector_set_null this | Some v \<Rightarrow> Some v) else this)"

text \<open>\<open>std::vector\<close> compares the sizes and then the elements, with the operators of \<open>T\<close>, which throw on a null; the order
  is lexicographic, by \<open><\<close> alone.\<close>

fun elements_eq :: "('e \<Rightarrow> 'e \<Rightarrow> bool result) \<Rightarrow> 'e list \<Rightarrow> 'e list \<Rightarrow> bool result" where
  "elements_eq eq (x # xs) (y # ys) = bind_res (eq x y) (\<lambda>b. if b then elements_eq eq xs ys else Inr False)"
| "elements_eq eq _ _ = Inr True"

definition vector_eq :: "('e \<Rightarrow> 'e \<Rightarrow> bool result) \<Rightarrow> 'e list \<Rightarrow> 'e list \<Rightarrow> bool result" where
  "vector_eq eq xs ys = (if List.length xs = List.length ys then elements_eq eq xs ys else Inr False)"

definition vector_ne :: "('e \<Rightarrow> 'e \<Rightarrow> bool result) \<Rightarrow> 'e list \<Rightarrow> 'e list \<Rightarrow> bool result" where
  "vector_ne eq xs ys = bind_res (vector_eq eq xs ys) (\<lambda>b. Inr (\<not> b))"

fun vector_less :: "('e \<Rightarrow> 'e \<Rightarrow> bool result) \<Rightarrow> 'e list \<Rightarrow> 'e list \<Rightarrow> bool result" where
  "vector_less lt _ [] = Inr False"
| "vector_less lt [] (y # ys) = Inr True"
| "vector_less lt (x # xs) (y # ys) =
     bind_res (lt x y) (\<lambda>b. if b then Inr True
       else bind_res (lt y x) (\<lambda>b. if b then Inr False else vector_less lt xs ys))"

definition Vector_eq_null :: "'e list option \<Rightarrow> bool result" where
  "Vector_eq_null this = Inl NULL_EXCEPTION"

definition Vector_eq_value :: "('e \<Rightarrow> 'e \<Rightarrow> bool result) \<Rightarrow> 'e list option \<Rightarrow> 'e list \<Rightarrow> bool result" where
  "Vector_eq_value eq this other = null1 this (\<lambda>v. vector_eq eq v other)"

definition Vector_eq :: "('e \<Rightarrow> 'e \<Rightarrow> bool result) \<Rightarrow> 'e list option \<Rightarrow> 'e list option \<Rightarrow> bool result" where
  "Vector_eq eq this other = null2 this other (vector_eq eq)"

definition Vector_ne_null :: "'e list option \<Rightarrow> bool result" where
  "Vector_ne_null this = Inl NULL_EXCEPTION"

definition Vector_ne_value :: "('e \<Rightarrow> 'e \<Rightarrow> bool result) \<Rightarrow> 'e list option \<Rightarrow> 'e list \<Rightarrow> bool result" where
  "Vector_ne_value eq this other = null1 this (\<lambda>v. vector_ne eq v other)"

definition Vector_ne :: "('e \<Rightarrow> 'e \<Rightarrow> bool result) \<Rightarrow> 'e list option \<Rightarrow> 'e list option \<Rightarrow> bool result" where
  "Vector_ne eq this other = null2 this other (vector_ne eq)"

definition Vector_less :: "('e \<Rightarrow> 'e \<Rightarrow> bool result) \<Rightarrow> 'e list option \<Rightarrow> 'e list option \<Rightarrow> bool result" where
  "Vector_less lt this other = null2 this other (vector_less lt)"

definition Vector_less_eq :: "('e \<Rightarrow> 'e \<Rightarrow> bool result) \<Rightarrow> 'e list option \<Rightarrow> 'e list option \<Rightarrow> bool result" where
  "Vector_less_eq lt this other = null2 this other (\<lambda>v w. bind_res (vector_less lt w v) (\<lambda>b. Inr (\<not> b)))"

definition Vector_greater :: "('e \<Rightarrow> 'e \<Rightarrow> bool result) \<Rightarrow> 'e list option \<Rightarrow> 'e list option \<Rightarrow> bool result" where
  "Vector_greater lt this other = null2 this other (\<lambda>v w. vector_less lt w v)"

definition Vector_greater_eq :: "('e \<Rightarrow> 'e \<Rightarrow> bool result) \<Rightarrow> 'e list option \<Rightarrow> 'e list option \<Rightarrow> bool result" where
  "Vector_greater_eq lt this other = null2 this other (\<lambda>v w. bind_res (vector_less lt v w) (\<lambda>b. Inr (\<not> b)))"

definition Vector_value :: "'e list option \<Rightarrow> 'e list result" where
  "Vector_value this = null1 this Inr"

definition Vector_std_size :: "'e list option \<Rightarrow> nat result" where
  "Vector_std_size this = null1 this (\<lambda>v. Inr (List.length v))"

definition Vector_size :: "'e list option \<Rightarrow> 64 word option result" where
  "Vector_size this = bind_res (Vector_std_size this) (\<lambda>n. Inr (Some (word_of_nat n)))"

definition Vector_SIZE :: "'e list option \<Rightarrow> 64 word option result" where
  "Vector_SIZE this = bind_res (Vector_std_size this) (\<lambda>n. Inr (Some (word_of_nat n)))"

definition vector_resize :: "'e \<Rightarrow> nat \<Rightarrow> 'e list \<Rightarrow> 'e list" where
  "vector_resize fresh n v = take n v @ replicate (n - List.length v) fresh"

definition Vector_std_resize :: "'e \<Rightarrow> 'e list option \<Rightarrow> nat \<Rightarrow> 'e list option result" where
  "Vector_std_resize fresh this n = null1 this (\<lambda>v. Inr (Some (vector_resize fresh n v)))"

definition Vector_resize :: "'e \<Rightarrow> 'e list option \<Rightarrow> 64 word option \<Rightarrow> 'e list option result" where
  "Vector_resize fresh this n = bind_res (ULong_value n) (\<lambda>n. Vector_std_resize fresh this (unat n))"

definition Vector_RESIZE :: "'e \<Rightarrow> 'e list option \<Rightarrow> 64 word option \<Rightarrow> 'e list option result" where
  "Vector_RESIZE fresh this n = bind_res (ULong_value n) (\<lambda>n. Vector_std_resize fresh this (unat n))"

text \<open>A subscript is not checked. \<open>SET\<close> assigns the value its argument owns, so a null cannot be stored.\<close>

definition Vector_GET :: "'e list option \<Rightarrow> 64 word option \<Rightarrow> 'e result" where
  "Vector_GET this subscript =
     null1 this (\<lambda>v. bind_res (ULong_value subscript) (\<lambda>i.
       if unat i < List.length v then Inr (v ! unat i) else Inl OutOfBounds))"

definition Vector_SET :: "('e \<Rightarrow> 'v result) \<Rightarrow> ('e \<Rightarrow> 'v \<Rightarrow> 'e) \<Rightarrow> 'e list option \<Rightarrow> 64 word option \<Rightarrow> 'e \<Rightarrow> 'e list option result" where
  "Vector_SET get_value assign this subscript e =
     null1 this (\<lambda>v. bind_res (get_value e) (\<lambda>x. bind_res (ULong_value subscript) (\<lambda>i.
       if unat i < List.length v then Inr (Some (v[unat i := assign (v ! unat i) x])) else Inl OutOfBounds)))"

fun sum_sizes :: "('e \<Rightarrow> int option) \<Rightarrow> int \<Rightarrow> 'e list \<Rightarrow> int option" where
  "sum_sizes pack_size acc [] = Some acc"
| "sum_sizes pack_size acc (x # xs) = (case pack_size x of None \<Rightarrow> None | Some n \<Rightarrow> sum_sizes pack_size (acc + n) xs)"

definition Vector_pack_size :: "('e \<Rightarrow> int option) \<Rightarrow> 'e list option \<Rightarrow> int option" where
  "Vector_pack_size pack_size this =
     (case this of None \<Rightarrow> Some 1 | Some elements \<Rightarrow> sum_sizes pack_size (1 + uint SIZEOF_DWORD) elements)"

fun print_elements :: "('e \<Rightarrow> byte list option) \<Rightarrow> byte list \<Rightarrow> 'e list \<Rightarrow> byte list result" where
  "print_elements to_string ss [] = Inr ss"
| "print_elements to_string ss (x # xs) =
     bind_res (String_value (to_string x)) (\<lambda>s. print_elements to_string (ss @ s) xs)"

definition Vector_to_std_string :: "('e \<Rightarrow> byte list option) \<Rightarrow> 'e list option \<Rightarrow> byte list result" where
  "Vector_to_std_string to_string this =
     (case this of None \<Rightarrow> Inr NULL_STRING | Some v \<Rightarrow> print_elements to_string [] v)"

definition write_elements :: "binary \<Rightarrow> ('e \<Rightarrow> stream \<Rightarrow> stream) \<Rightarrow> 'e list \<Rightarrow> stream \<Rightarrow> stream" where
  "write_elements k wr elements outstream =
     (let outstream = write_uint k (word_of_nat (List.length elements)) outstream in fold wr elements outstream)"

definition Vector_write :: "binary \<Rightarrow> byte \<Rightarrow> ('e \<Rightarrow> stream \<Rightarrow> stream) \<Rightarrow> 'e list option \<Rightarrow> stream \<Rightarrow> stream" where
  "Vector_write k element wr = write_nullable k (Vector_tdb element) (write_elements k wr)"

fun read_each :: "(memory \<Rightarrow> 'e \<Rightarrow> stream \<Rightarrow> 'e \<times> stream) \<Rightarrow> memory \<Rightarrow> nat \<Rightarrow> 'e list \<Rightarrow> stream \<Rightarrow> 'e list \<times> stream" where
  "read_each rd memory i [] instream = ([], instream)"
| "read_each rd memory i (x # xs) instream =
     (let (x, instream) = rd (\<lambda>j. memory (8 * i + j)) x instream;
          (xs, instream) = read_each rd memory (i + 1) xs instream in (x # xs, instream))"

definition read_elements :: "binary \<Rightarrow> 'e \<Rightarrow> (memory \<Rightarrow> 'e \<Rightarrow> stream \<Rightarrow> 'e \<times> stream) \<Rightarrow> memory \<Rightarrow> 'e list \<Rightarrow> stream \<Rightarrow>
    'e list \<times> stream" where
  "read_elements k fresh rd memory elements instream =
     (let (count, instream) = read_uint_value k (word_rcat (memory 2)) instream;
          elements = vector_resize fresh (unat count) elements in
      read_each rd memory 1 elements instream)"

definition Vector_read :: "binary \<Rightarrow> 'e \<Rightarrow> (memory \<Rightarrow> 'e \<Rightarrow> stream \<Rightarrow> 'e \<times> stream) \<Rightarrow> memory \<Rightarrow> 'e list option \<Rightarrow> stream \<Rightarrow>
    'e list option \<times> stream" where
  "Vector_read k fresh rd memory = read_nullable k memory (read_elements k fresh rd memory) []"

section \<open>A vector of packed elements is packed\<close>

lemma vector_resize_length [simp]: "List.length (vector_resize fresh n v) = n"
  by (simp add: vector_resize_def)

lemma read_each_ok:
  assumes "packed wr rd rep pack_size ok"
  shows "readable s \<Longrightarrow> \<forall>x \<in> set xs. ok x \<Longrightarrow> List.length old = List.length xs \<Longrightarrow>
    rest s = concat (map rep xs) @ r \<Longrightarrow>
    \<exists>t. read_each rd m i old s = (xs, t) \<and> readable t \<and> rest t = r"
proof (induction xs arbitrary: old s i)
  case (Cons x xs)
  then obtain o' old' where o: "old = o' # old'" by (cases old) auto
  have "ok x" "rest s = rep x @ (concat (map rep xs) @ r)" using Cons.prems by simp_all
  from packed.rd_rep [OF assms this(1) Cons.prems(1) this(2), of "\<lambda>j. m (8 * i + j)" o'] obtain t where
    t: "rd (\<lambda>j. m (8 * i + j)) o' s = (x, t)" "readable t" "rest t = concat (map rep xs) @ r" by blast
  obtain u where "read_each rd m (i + 1) old' t = (xs, u)" "readable u" "rest u = r"
    using Cons.IH [of t old' "i + 1"] Cons.prems t o by auto
  then show ?case using t o by simp
qed simp

lemma fold_write_ok:
  assumes "packed wr rd rep pack_size ok" and "\<forall>x \<in> set xs. ok x"
  shows "fold wr xs s = swrite (concat (map rep xs)) s"
  using assms(2) by (induction xs arbitrary: s) (simp_all add: packed.wr_rep [OF assms(1)] swrite_append_eq)

lemma sum_sizes_ok:
  assumes "packed wr rd rep pack_size ok" and "\<forall>x \<in> set xs. ok x"
  shows "sum_sizes pack_size n xs = Some (n + int (List.length (concat (map rep xs))))"
  using assms(2) by (induction xs arbitrary: n) (simp_all add: packed.size_rep [OF assms(1)])

definition vector_fits :: "('e \<Rightarrow> bool) \<Rightarrow> 'e list \<Rightarrow> bool" where
  "vector_fits ok xs \<longleftrightarrow> List.length xs < 2 ^ 32 \<and> (\<forall>x \<in> set xs. ok x)"

lemma vector_packed:
  assumes el: "packed wr rd rep pack_size ok" and null: "element AND IS_NULL = 0"
  shows "packed (Vector_write k element wr) (Vector_read k fresh rd)
    (\<lambda>x. Vector_tdb element x # (case x of None \<Rightarrow> []
       | Some v \<Rightarrow> octets_of k (word_of_nat (List.length v) :: 32 word) @ concat (map rep v)))
    (Vector_pack_size pack_size) (\<lambda>x. case x of None \<Rightarrow> True | Some v \<Rightarrow> vector_fits ok v)"
  unfolding Vector_write_def [abs_def] Vector_read_def [abs_def]
proof (rule packed_values)
  fix v s assume "vector_fits ok v"
  then show "write_elements k wr v s = swrite (octets_of k (word_of_nat (List.length v) :: 32 word) @ concat (map rep v)) s"
    by (simp add: write_elements_def vector_fits_def b_uint.wr_rep fold_write_ok [OF el] swrite_append_eq)
next
  fix m :: memory and old v s r
  assume v: "vector_fits ok v" and s: "readable s"
    "rest s = (octets_of k (word_of_nat (List.length v) :: 32 word) @ concat (map rep v)) @ r"
  let ?l = "word_of_nat (List.length v) :: 32 word" and ?t = "advance 4 4 s"
  have l: "unat ?l = List.length v" using v by (simp add: vector_fits_def unat_of_nat take_bit_eq_mod)
  have t: "readable ?t" "rest ?t = concat (map rep v) @ r" using s by simp_all
  have "read_uint_value k (word_rcat (m 2)) s = (?l, ?t)"
    using b_uint_value.rd_rep [of s k ?l "concat (map rep v) @ r"] s by simp
  moreover have "\<forall>x \<in> set v. ok x" using v by (simp add: vector_fits_def)
  ultimately show "\<exists>t. read_elements k fresh rd m old s = (v, t) \<and> readable t \<and> rest t = r"
    using read_each_ok [OF el t(1) _ _ t(2), of "vector_resize fresh (List.length v) old" m 1] l
    by (simp add: read_elements_def)
next
  show "Vector_pack_size pack_size None = Some 1" by (simp add: Vector_pack_size_def)
next
  fix v assume "vector_fits ok v"
  then show "Vector_pack_size pack_size (Some v) =
      Some (int (List.length (octets_of k (word_of_nat (List.length v) :: 32 word) @ concat (map rep v))) + 1)"
    by (simp add: Vector_pack_size_def vector_fits_def sum_sizes_ok [OF el] SIZEOF_DWORD_def)
next
  show "Vector_tdb element None AND IS_NULL = IS_NULL"
    by (simp add: Vector_tdb_def bit.conj_disj_distrib2)
  show "Vector_tdb element (Some v) AND IS_NULL \<noteq> IS_NULL" for v :: "'a list"
    using null by (simp add: Vector_tdb_def Vector_TDB_def bit.conj_disj_distrib2 tdb_VECTOR_def SCALEOF_DWORD_def IS_NULL_def)
qed

text \<open>Vectors of every class of the library, and vectors of vectors of it.\<close>

interpretation int_vector: packed "Vector_write k Int_TDB (Int_write k)" "Vector_read k Int_new (Int_read k)"
    "\<lambda>x. Vector_tdb Int_TDB x # (case x of None \<Rightarrow> [] | Some v \<Rightarrow> octets_of k (word_of_nat (List.length v) :: 32 word) @
       concat (map (\<lambda>x. Int_tdb x # (case x of None \<Rightarrow> [] | Some v \<Rightarrow> octets_of k v)) v))"
    "Vector_pack_size (Object_pack_size Int_tdb)" "\<lambda>x. case x of None \<Rightarrow> True | Some v \<Rightarrow> vector_fits (\<lambda>_. True) v" for k
  by (rule vector_packed [OF int_type.packed_axioms]) (simp add: Int_TDB_def tdb_types tdb_parts)

interpretation string_vector: packed "Vector_write k String_TDB (String_write k)" "Vector_read k String_new (String_read k)"
    "\<lambda>x. Vector_tdb String_TDB x # (case x of None \<Rightarrow> [] | Some v \<Rightarrow> octets_of k (word_of_nat (List.length v) :: 32 word) @
       concat (map (\<lambda>x. String_tdb x # (case x of None \<Rightarrow> [] | Some v \<Rightarrow> word_of_nat (List.length v) # v)) v))"
    "Vector_pack_size String_pack_size"
    "\<lambda>x. case x of None \<Rightarrow> True | Some v \<Rightarrow> vector_fits (\<lambda>x. case x of None \<Rightarrow> True | Some v \<Rightarrow> List.length v < 256) v" for k
  by (rule vector_packed [OF string_type.packed_axioms]) (simp add: String_TDB_def tdb_types tdb_parts)

end
