(* ===== verification/Type_Laws.thy ===== *)
theory Type_Laws
  imports Type_Vector
begin

text \<open>
  What holds of the nullable types together: which objects the far side gets as they were sent, in a frame as long as
  \<open>pack_size\<close> says, and what the operators of the integers compute.
\<close>

section \<open>Objects over a stream\<close>

text \<open>The object comes back, whatever it is read into and whatever follows it, and \<open>pack_size\<close> is what was written.\<close>

definition sent_whole ::
  "('a \<Rightarrow> stream \<Rightarrow> stream) \<Rightarrow> (memory \<Rightarrow> 'a \<Rightarrow> stream \<Rightarrow> 'a \<times> stream) \<Rightarrow> ('a \<Rightarrow> int option) \<Rightarrow> 'a \<Rightarrow> bool" where
  "sent_whole wr rd pack_size x \<longleftrightarrow>
     (\<forall>m old r. \<exists>t. rd m old (new_stream (data (wr x (new_stream [])) @ r)) = (x, t) \<and> rest t = r) \<and>
     pack_size x = Some (int (List.length (data (wr x (new_stream [])))))"

lemma sent_packed: "packed wr rd rep pack_size ok \<Longrightarrow> ok x \<Longrightarrow> sent_whole wr rd pack_size x"
  using packed.comes_back by (fastforce simp: sent_whole_def)


lemma string_octets_written:
  "List.length (data (String_write k (Some v) (new_stream []))) = 2 + List.length v mod 256"
  using b_tdb.wr_appends [of "new_stream []" "big_host k"]
  by (simp add: String_write_def write_nullable_def bs_write_string_ok)

lemma text_octets_written:
  "List.length (data (Text_write k (Some v) (new_stream []))) = 3 + List.length v mod 65536"
proof -
  let ?l = "ucast (drop_bit 48 (push_bit 48 (word_of_nat (List.length v) :: u64))) :: 16 word"
  have l: "unat ?l = List.length v mod 65536" by (rule low_length16)
  show ?thesis
    using l b_tdb.wr_appends [of "new_stream []" "big_host k"] b_ushort.wr_appends [of _ k ?l]
    by (auto simp: Text_write_def write_nullable_def bs_write_std_text_def Let_def word_less_nat_alt)
qed

text \<open>C26. A \<open>String\<close> comes back, in as many octets as its \<open>pack_size\<close>, exactly when it is null or shorter than 256 octets,
  and a \<open>Text\<close> when it is null or shorter than 65536: past that the length is written modulo the range of its field and
  the rest is lost, while \<open>pack_size\<close> counts all of it, and nothing is reported.\<close>

theorem strings_come_back:
  "(sent_whole (String_write k) (String_read k) String_pack_size s \<longleftrightarrow>
      (case s of None \<Rightarrow> True | Some v \<Rightarrow> List.length v < 256)) \<and>
    (sent_whole (Text_write k) (Text_read k) Text_pack_size t \<longleftrightarrow>
      (case t of None \<Rightarrow> True | Some v \<Rightarrow> List.length v < 65536))"
proof
  have "List.length v < 256" if "sent_whole (String_write k) (String_read k) String_pack_size (Some v)" for v
    using that mod_less_divisor [of 256 "List.length v"]
    by (simp add: sent_whole_def string_octets_written String_pack_size_def string_descriptors del: mod_less_divisor)
  then show "sent_whole (String_write k) (String_read k) String_pack_size s \<longleftrightarrow>
      (case s of None \<Rightarrow> True | Some v \<Rightarrow> List.length v < 256)"
    using sent_packed [OF string_type.packed_axioms, of s] by (cases s) auto
  have "List.length v < 65536" if "sent_whole (Text_write k) (Text_read k) Text_pack_size (Some v)" for v
    using that mod_less_divisor [of 65536 "List.length v"]
    by (simp add: sent_whole_def text_octets_written Text_pack_size_def string_descriptors del: mod_less_divisor)
  then show "sent_whole (Text_write k) (Text_read k) Text_pack_size t \<longleftrightarrow>
      (case t of None \<Rightarrow> True | Some v \<Rightarrow> List.length v < 65536)"
    using sent_packed [OF text_type.packed_axioms, of t] by (cases t) auto
qed

text \<open>A \<open>Vector\<close> of strings and a \<open>Vector\<close> of vectors of integers, with their nulls, come back whole in frames as long as
  their \<open>pack_size\<close>, when the counts are below \<open>2^32\<close> and the strings below 256 octets.\<close>

theorem vectors_come_back:
  assumes "vector_fits (\<lambda>x. case x of None \<Rightarrow> True | Some v \<Rightarrow> List.length v < 256) xs"
    and "vector_fits (\<lambda>x. case x of None \<Rightarrow> True | Some v \<Rightarrow> List.length v < 2 ^ 32) yss"
  shows "sent_whole (Vector_write k String_TDB (String_write k)) (Vector_read k String_new (String_read k))
      (Vector_pack_size String_pack_size) (Some xs) \<and>
    sent_whole (Vector_write k (Vector_TDB Int_TDB) (Vector_write k Int_TDB (Int_write k)))
      (Vector_read k Vector_new (Vector_read k Int_new (Int_read k)))
      (Vector_pack_size (Vector_pack_size (Object_pack_size Int_tdb))) (Some yss)"
proof
  show "sent_whole (Vector_write k String_TDB (String_write k)) (Vector_read k String_new (String_read k))
      (Vector_pack_size String_pack_size) (Some xs)"
    using sent_packed [OF string_vector.packed_axioms, of "Some xs"] assms(1) by simp
  have null: "Vector_TDB Int_TDB AND IS_NULL = 0" by (simp add: Vector_TDB_def Int_TDB_def tdb_types tdb_parts)
  have "vector_fits (\<lambda>x. case x of None \<Rightarrow> True | Some v \<Rightarrow> vector_fits (\<lambda>_. True) v) yss"
    using assms(2) by (auto simp: vector_fits_def split: option.splits)
  then show "sent_whole (Vector_write k (Vector_TDB Int_TDB) (Vector_write k Int_TDB (Int_write k)))
      (Vector_read k Vector_new (Vector_read k Int_new (Int_read k)))
      (Vector_pack_size (Vector_pack_size (Object_pack_size Int_tdb))) (Some yss)"
    using sent_packed [OF vector_packed [OF int_vector.packed_axioms null], of "Some yss"] by simp
qed

section \<open>Integers\<close>

lemma narrow_exact32: "narrow (in_int i) = Inr (Some c) \<longleftrightarrow> sint (c :: 32 word) = i"
proof -
  have "sint (word_of_int i :: 32 word) = i" if "- (2 ^ 31) \<le> i" "i < 2 ^ 31"
    using that by (simp add: sint_sbintrunc' signed_take_bit_int_eq_self)
  moreover have "- (2 ^ 31) \<le> sint c" "sint c < 2 ^ 31" using sint_greater_eq [of c] sint_less [of c] by simp_all
  moreover have "word_of_int (sint c) = c" by simp
  ultimately show ?thesis by (auto simp: narrow_def in_int_def)
qed

lemma narrow_exact64: "narrow (in_long i) = Inr (Some c) \<longleftrightarrow> sint (c :: 64 word) = i"
proof -
  have "sint (word_of_int i :: 64 word) = i" if "- (2 ^ 63) \<le> i" "i < 2 ^ 63"
    using that by (simp add: sint_sbintrunc' signed_take_bit_int_eq_self)
  moreover have "- (2 ^ 63) \<le> sint c" "sint c < 2 ^ 63" using sint_greater_eq [of c] sint_less [of c] by simp_all
  moreover have "word_of_int (sint c) = c" by simp
  ultimately show ?thesis by (auto simp: narrow_def in_long_def)
qed


lemma sint_bounds:
  "- 128 \<le> sint (a :: 8 word) \<and> sint a \<le> 127" "- 32768 \<le> sint (b :: 16 word) \<and> sint b \<le> 32767"
  using sint_greater_eq [of a] sint_less [of a] sint_greater_eq [of b] sint_less [of b] by simp_all

lemma uint_bounds:
  "0 \<le> uint (a :: 8 word) \<and> uint a \<le> 255" "0 \<le> uint (b :: 16 word) \<and> uint b \<le> 65535"
  using uint_lt2p [of a] uint_lt2p [of b] by simp_all

lemma product_bounds:
  fixes i j n :: int
  assumes "\<bar>i\<bar> \<le> n" and "\<bar>j\<bar> \<le> n"
  shows "\<bar>i * j\<bar> \<le> n * n"
  unfolding abs_mult using assms by (intro mult_mono) auto

lemma narrow_in_int: "- 2147483648 \<le> i \<Longrightarrow> i < 2147483648 \<Longrightarrow> narrow (in_int i) = Inr (Some (word_of_int i))"
  by (simp add: narrow_def in_int_def)

lemma narrow_products:
  "narrow (in_int (sint (a :: 8 word) * sint (b :: 8 word))) = Inr (Some (word_of_int (sint a * sint b) :: 8 word))"
  "narrow (in_int (sint (c :: 16 word) * sint (d :: 16 word))) = Inr (Some (word_of_int (sint c * sint d) :: 16 word))"
  "narrow (in_int (uint (e :: 8 word) * uint (f :: 8 word))) = Inr (Some (word_of_int (uint e * uint f) :: 8 word))"
proof -
  have "\<bar>sint a * sint b\<bar> \<le> 128 * 128"
    using sint_bounds(1) [of a] sint_bounds(1) [of b] by (intro product_bounds) (simp_all add: abs_le_iff)
  then show "narrow (in_int (sint a * sint b)) = Inr (Some (word_of_int (sint a * sint b) :: 8 word))"
    by (intro narrow_in_int) (auto simp: abs_le_iff)
  have "\<bar>sint c * sint d\<bar> \<le> 32768 * 32768"
    using sint_bounds(2) [of c] sint_bounds(2) [of d] by (intro product_bounds) (simp_all add: abs_le_iff)
  then show "narrow (in_int (sint c * sint d)) = Inr (Some (word_of_int (sint c * sint d) :: 16 word))"
    by (intro narrow_in_int) (auto simp: abs_le_iff)
  have "\<bar>uint e * uint f\<bar> \<le> 255 * 255"
    using uint_bounds(1) [of e] uint_bounds(1) [of f] by (intro product_bounds) (simp_all add: abs_le_iff)
  moreover have "0 \<le> uint e * uint f" by simp
  ultimately show "narrow (in_int (uint e * uint f)) = Inr (Some (word_of_int (uint e * uint f) :: 8 word))"
    by (intro narrow_in_int) linarith+
qed

text \<open>C28. What the operators of the integers return. Sums and products of \<open>Byte\<close>, \<open>UByte\<close> and \<open>Short\<close> are those of the
  words, with wrap-around, and never fail; an \<open>Int\<close> or \<open>Long\<close> is returned only when it is the exact result, the overflow
  being undefined; and the product of two \<open>UShort\<close>s, computed as an \<open>int\<close>, overflows that when it reaches \<open>2^31\<close>.\<close>

theorem integer_operators:
  "Byte_plus (Some a) (Some b) = Inr (Some (a + b)) \<and> Byte_times (Some a) (Some b) = Inr (Some (a * b)) \<and>
    UByte_minus (Some a) (Some b) = Inr (Some (a - b)) \<and> UByte_times (Some a) (Some b) = Inr (Some (a * b)) \<and>
    Short_minus (Some s) (Some t) = Inr (Some (s - t)) \<and> Short_times (Some s) (Some t) = Inr (Some (s * t)) \<and>
    UShort_times (Some s) (Some t) = (if uint s * uint t < 2 ^ 31 then Inr (Some (s * t)) else Inl SignedOverflow) \<and>
    (Int_plus (Some i) (Some j) = Inr (Some c) \<longleftrightarrow> sint c = sint i + sint j) \<and>
    (Int_minus (Some i) (Some j) = Inr (Some c) \<longleftrightarrow> sint c = sint i - sint j) \<and>
    (Int_times (Some i) (Some j) = Inr (Some c) \<longleftrightarrow> sint c = sint i * sint j) \<and>
    (Long_plus (Some k) (Some l) = Inr (Some d) \<longleftrightarrow> sint d = sint k + sint l) \<and>
    (Long_minus (Some k) (Some l) = Inr (Some d) \<longleftrightarrow> sint d = sint k - sint l) \<and>
    (Long_times (Some k) (Some l) = Inr (Some d) \<longleftrightarrow> sint d = sint k * sint l)"
proof -
  note small = sint_bounds(1) [of a] sint_bounds(1) [of b] uint_bounds(1) [of a] uint_bounds(1) [of b]
    sint_bounds(2) [of s] sint_bounds(2) [of t]
  have p: "- 2147483648 \<le> uint s * uint t" by (rule order_trans [of _ 0]) simp_all
  have "narrow (in_int (uint a - uint b)) = Inr (Some (word_of_int (uint a - uint b) :: 8 word))"
    using uint_bounds(1) [of a, THEN conjunct2] uint_bounds(1) [of b, THEN conjunct2] uint_ge_0 [of a] uint_ge_0 [of b]
    by (intro narrow_in_int) linarith+
  moreover have "narrow (in_int (sint a + sint b)) = Inr (Some (a + b))"
    "narrow (in_int (sint s - sint t)) = Inr (Some (s - t))"
    using small by (simp_all add: narrow_in_int)
  moreover have "narrow (in_int (uint s * uint t)) =
      (if uint s * uint t < 2 ^ 31 then Inr (Some (s * t)) else Inl SignedOverflow)"
    using p by (simp add: narrow_def in_int_def)
  ultimately show ?thesis
    by (simp add: Byte_plus_def Byte_times_def UByte_minus_def UByte_times_def Short_minus_def Short_times_def
        UShort_times_def Int_plus_def Int_minus_def Int_times_def Long_plus_def Long_minus_def Long_times_def
        narrow_products narrow_exact32 narrow_exact64)
qed

lemma quotient_range:
  fixes i j m :: int
  assumes "- m \<le> i" and "i < m"
  shows "- m \<le> i sdiv j" and "i sdiv j < m \<longleftrightarrow> \<not> (i = - m \<and> j = - 1)"
proof -
  have r: "- \<bar>i\<bar> \<le> i sdiv j" "i sdiv j \<le> \<bar>i\<bar>" using sdiv_int_range [of i j] by simp_all
  then show "- m \<le> i sdiv j" using assms by linarith
  show "i sdiv j < m \<longleftrightarrow> \<not> (i = - m \<and> j = - 1)"
  proof (cases "i = - m")
    case True
    then have "i \<noteq> 0" using assms by simp
    then show ?thesis using True r assms int_sdiv_negated_is_minus1 [of i j] by auto
  next
    case False
    then show ?thesis using r assms by linarith
  qed
qed

lemma remainder_range:
  fixes i j :: int
  assumes "j \<noteq> 0"
  shows "\<bar>i smod j\<bar> < \<bar>j\<bar>" and "i smod j = 0 \<or> sgn (i smod j) = sgn i" and "i = i sdiv j * j + i smod j"
proof -
  show "\<bar>i smod j\<bar> < \<bar>j\<bar>" using smod_int_range [OF assms, of i] by (simp add: abs_less_iff)
  show "i smod j = 0 \<or> sgn (i smod j) = sgn i"
    using assms by (simp add: smod_int_alt_def sgn_mult) (metis abs_sgn_eq_1 sgn_if mult.right_neutral abs_ge_zero pos_mod_sign zero_less_abs_iff order_le_less)
  show "i = i sdiv j * j + i smod j" by (simp add: sdiv_mult_smod_eq)
qed

lemma division32:
  fixes i j q :: "32 word"
  defines "d \<equiv> narrow (c_quotient in_int (sint i) (sint j)) :: 32 word option result"
  shows "d = Inl DivTrap \<longleftrightarrow> j = 0" and "d = Inl SignedOverflow \<longleftrightarrow> sint i = - (2 ^ 31) \<and> j = - 1"
    and "d = Inr (Some q) \<Longrightarrow> \<exists>r. narrow (c_remainder in_int (sint i) (sint j)) = Inr (Some (r :: 32 word)) \<and>
      sint i = sint q * sint j + sint r \<and> \<bar>sint r\<bar> < \<bar>sint j\<bar> \<and> (sint r = 0 \<or> sgn (sint r) = sgn (sint i))"
proof -
  have b: "- (2 ^ 31) \<le> sint v" "sint v < 2 ^ 31" for v :: "32 word" using sint_greater_eq [of v] sint_less [of v] by simp_all
  have m: "sint j = - 1 \<longleftrightarrow> j = - 1" by (metis sint_n1 signed_word_eqI)
  have z: "sint j = 0 \<longleftrightarrow> j = 0" by (metis sint_0 signed_word_eqI)
  note range = quotient_range [OF b [of i], of "sint j"]
  show "d = Inl DivTrap \<longleftrightarrow> j = 0" using z by (simp add: d_def narrow_def c_quotient_def in_int_def)
  show "d = Inl SignedOverflow \<longleftrightarrow> sint i = - (2 ^ 31) \<and> j = - 1"
    using range m z by (auto simp: d_def narrow_def c_quotient_def in_int_def)
  assume q: "d = Inr (Some q)"
  then have j: "sint j \<noteq> 0" by (auto simp: d_def narrow_def c_quotient_def)
  then have q: "in_int (sint i sdiv sint j) = Inr (sint q)" "sint q = sint i sdiv sint j"
    using q narrow_exact32 [of "sint i sdiv sint j" q] by (auto simp: d_def c_quotient_def narrow_def in_int_def split: if_splits)
  have "narrow (in_int (sint i smod sint j)) = Inr (Some (word_of_int (sint i smod sint j) :: 32 word))"
    using remainder_range(1) [OF j, of "sint i"] b [of j, simplified] by (intro narrow_in_int) linarith+
  then have r: "sint (word_of_int (sint i smod sint j) :: 32 word) = sint i smod sint j" by (simp only: narrow_exact32)
  have "narrow (c_remainder in_int (sint i) (sint j)) = Inr (Some (word_of_int (sint i smod sint j) :: 32 word))"
    using j q by (simp add: c_remainder_def narrow_def)
  moreover have "sint i = sint q * sint j + sint (word_of_int (sint i smod sint j) :: 32 word)"
    unfolding r q(2) by (rule remainder_range(3) [OF j])
  moreover have "\<bar>sint (word_of_int (sint i smod sint j) :: 32 word)\<bar> < \<bar>sint j\<bar>"
    unfolding r by (rule remainder_range(1) [OF j])
  moreover have "sint (word_of_int (sint i smod sint j) :: 32 word) = 0 \<or>
      sgn (sint (word_of_int (sint i smod sint j) :: 32 word)) = sgn (sint i)"
    unfolding r by (rule remainder_range(2) [OF j])
  ultimately show "\<exists>r. narrow (c_remainder in_int (sint i) (sint j)) = Inr (Some (r :: 32 word)) \<and>
      sint i = sint q * sint j + sint r \<and> \<bar>sint r\<bar> < \<bar>sint j\<bar> \<and> (sint r = 0 \<or> sgn (sint r) = sgn (sint i))"
    by blast
qed

lemma division64:
  fixes i j q :: "64 word"
  defines "d \<equiv> narrow (c_quotient in_long (sint i) (sint j)) :: 64 word option result"
  shows "d = Inl DivTrap \<longleftrightarrow> j = 0" and "d = Inl SignedOverflow \<longleftrightarrow> sint i = - (2 ^ 63) \<and> j = - 1"
    and "d = Inr (Some q) \<Longrightarrow> \<exists>r. narrow (c_remainder in_long (sint i) (sint j)) = Inr (Some (r :: 64 word)) \<and>
      sint i = sint q * sint j + sint r \<and> \<bar>sint r\<bar> < \<bar>sint j\<bar> \<and> (sint r = 0 \<or> sgn (sint r) = sgn (sint i))"
proof -
  have b: "- (2 ^ 63) \<le> sint v" "sint v < 2 ^ 63" for v :: "64 word" using sint_greater_eq [of v] sint_less [of v] by simp_all
  have m: "sint j = - 1 \<longleftrightarrow> j = - 1" by (metis sint_n1 signed_word_eqI)
  have z: "sint j = 0 \<longleftrightarrow> j = 0" by (metis sint_0 signed_word_eqI)
  note range = quotient_range [OF b [of i], of "sint j"]
  show "d = Inl DivTrap \<longleftrightarrow> j = 0" using z by (simp add: d_def narrow_def c_quotient_def in_long_def)
  show "d = Inl SignedOverflow \<longleftrightarrow> sint i = - (2 ^ 63) \<and> j = - 1"
    using range m z by (auto simp: d_def narrow_def c_quotient_def in_long_def)
  assume q: "d = Inr (Some q)"
  then have j: "sint j \<noteq> 0" by (auto simp: d_def narrow_def c_quotient_def)
  then have q: "in_long (sint i sdiv sint j) = Inr (sint q)" "sint q = sint i sdiv sint j"
    using q narrow_exact64 [of "sint i sdiv sint j" q] by (auto simp: d_def c_quotient_def narrow_def in_long_def split: if_splits)
  have "narrow (in_long (sint i smod sint j)) = Inr (Some (word_of_int (sint i smod sint j) :: 64 word))"
  proof -
    have "- (2 ^ 63) \<le> sint i smod sint j" "sint i smod sint j < 2 ^ 63"
      using remainder_range(1) [OF j, of "sint i"] b [of j] by linarith+
    then show ?thesis by (simp add: narrow_def in_long_def)
  qed
  then have r: "sint (word_of_int (sint i smod sint j) :: 64 word) = sint i smod sint j" by (simp only: narrow_exact64)
  have "narrow (c_remainder in_long (sint i) (sint j)) = Inr (Some (word_of_int (sint i smod sint j) :: 64 word))"
    using j q by (simp add: c_remainder_def narrow_def)
  moreover have "sint i = sint q * sint j + sint (word_of_int (sint i smod sint j) :: 64 word)"
    unfolding r q(2) by (rule remainder_range(3) [OF j])
  moreover have "\<bar>sint (word_of_int (sint i smod sint j) :: 64 word)\<bar> < \<bar>sint j\<bar>"
    unfolding r by (rule remainder_range(1) [OF j])
  moreover have "sint (word_of_int (sint i smod sint j) :: 64 word) = 0 \<or>
      sgn (sint (word_of_int (sint i smod sint j) :: 64 word)) = sgn (sint i)"
    unfolding r by (rule remainder_range(2) [OF j])
  ultimately show "\<exists>r. narrow (c_remainder in_long (sint i) (sint j)) = Inr (Some (r :: 64 word)) \<and>
      sint i = sint q * sint j + sint r \<and> \<bar>sint r\<bar> < \<bar>sint j\<bar> \<and> (sint r = 0 \<or> sgn (sint r) = sgn (sint i))"
    by blast
qed

text \<open>C29. Division of an \<open>Int\<close> traps exactly on zero and overflows exactly for the least integer by minus one; any other
  quotient and the remainder add up to the dividend, the remainder being smaller than the divisor and of the sign of the
  dividend. The same holds of \<open>Long\<close>. The least \<open>Byte\<close> divided by minus one is itself.\<close>

theorem integer_division:
  "(Int_divide (Some i) (Some j) = Inl DivTrap \<longleftrightarrow> j = 0) \<and>
    (Int_divide (Some i) (Some j) = Inl SignedOverflow \<longleftrightarrow> sint i = - (2 ^ 31) \<and> j = - 1) \<and>
    (Int_divide (Some i) (Some j) = Inr (Some q) \<longrightarrow> (\<exists>r. Int_modulo (Some i) (Some j) = Inr (Some r) \<and>
      sint i = sint q * sint j + sint r \<and> \<bar>sint r\<bar> < \<bar>sint j\<bar> \<and> (sint r = 0 \<or> sgn (sint r) = sgn (sint i)))) \<and>
    (Long_divide (Some k) (Some l) = Inl DivTrap \<longleftrightarrow> l = 0) \<and>
    (Long_divide (Some k) (Some l) = Inl SignedOverflow \<longleftrightarrow> sint k = - (2 ^ 63) \<and> l = - 1) \<and>
    (Long_divide (Some k) (Some l) = Inr (Some p) \<longrightarrow> (\<exists>r. Long_modulo (Some k) (Some l) = Inr (Some r) \<and>
      sint k = sint p * sint l + sint r \<and> \<bar>sint r\<bar> < \<bar>sint l\<bar> \<and> (sint r = 0 \<or> sgn (sint r) = sgn (sint k)))) \<and>
    Byte_divide (Some (- 128)) (Some (- 1)) = Inr (Some (- 128))"
proof -
  have "Byte_divide (Some (- 128)) (Some (- 1)) = Inr (Some (- 128))"
    by (simp add: Byte_divide_def c_quotient_def narrow_def in_int_def)
  then show ?thesis
    using division32 [of i j] division32(3) [of i j q] division64 [of k l] division64(3) [of k l p]
    unfolding Int_divide_def Int_modulo_def Long_divide_def Long_modulo_def null_simps by blast
qed

lemma integer_division_witness:
  "\<exists>r. Int_modulo (Some (- 7)) (Some 2) = Inr (Some r) \<and> sint (- 7 :: 32 word) = sint (- 3 :: 32 word) * sint (2 :: 32 word) + sint r"
  using integer_division [of "- 7" 2 "- 3" 0 0 0] by (auto simp: Int_divide_def c_quotient_def narrow_def in_int_def)

end
