(* ===== verification/Connector.thy ===== *)
theory Connector
  imports Type_Laws Utility
begin

text \<open>
  \<open>Connector/connector.cpp\<close>: the client of the binary protocol. A function of the server is called by its name, the
  server answers with an octet, arguments and fields follow as objects. An operation takes the connector and gives its
  result with the connector after it, also when it throws. The streams of a connection are \<open>nbostream\<close>s; what comes
  from the server is the stream \<open>lk_in\<close> and what goes to it \<open>lk_out\<close>. Sockets and the handshake are parameters.
\<close>

section \<open>Actions\<close>

definition pure_act :: "'a \<Rightarrow> 's \<Rightarrow> 'a result \<times> 's" where "pure_act x s = (Inr x, s)"

definition fail_act :: "exn \<Rightarrow> 's \<Rightarrow> 'a result \<times> 's" where "fail_act e s = (Inl e, s)"

definition bind_act :: "('s \<Rightarrow> 'a result \<times> 's) \<Rightarrow> ('a \<Rightarrow> 's \<Rightarrow> 'b result \<times> 's) \<Rightarrow> 's \<Rightarrow> 'b result \<times> 's" where
  "bind_act f g s = (case f s of (Inl e, s) \<Rightarrow> (Inl e, s) | (Inr x, s) \<Rightarrow> g x s)"

section \<open>The connector\<close>

definition SUCCESSFUL_DONE :: byte where "SUCCESSFUL_DONE = 0"
definition CURSOR_OPEN :: byte where "CURSOR_OPEN = 1"
definition CURSOR_FETCH :: byte where "CURSOR_FETCH = 2"
definition CURSOR_CLOSE :: byte where "CURSOR_CLOSE = 3"
definition RETURN_VALUE :: byte where "RETURN_VALUE = 4"
definition EXCEPTION_THROWN :: byte where "EXCEPTION_THROWN = 5"

definition octets_of_text :: "string \<Rightarrow> byte list" where "octets_of_text s = map of_char s"

definition text_of :: "byte list \<Rightarrow> string" where "text_of s = map (\<lambda>c. char_of (unat c)) s"

definition ConnectorException :: "byte list \<Rightarrow> exn" where
  "ConnectorException msg = ZiguratException 2077 (text_of msg)"

text \<open>A \<open>tcpstream\<close> or a \<open>tlsstream\<close>.\<close>

record link =
  lk_secure :: bool
  lk_open :: bool
  lk_in :: stream
  lk_out :: stream

record connector =
  cn_stream :: "link option"
  cn_transaction_id :: "64 word"

definition new_connector :: connector where
  "new_connector = \<lparr>cn_stream = None, cn_transaction_id = 0\<rparr>"

text \<open>Nothing tests \<open>_stream\<close> before it is used: a connector that is not connected dereferences a null pointer.\<close>

definition sending :: "(stream \<Rightarrow> stream) \<Rightarrow> connector \<Rightarrow> unit result \<times> connector" where
  "sending w c =
     (case cn_stream c of None \<Rightarrow> (Inl OutOfBounds, c)
      | Some l \<Rightarrow> (Inr (), c\<lparr>cn_stream := Some (l\<lparr>lk_out := w (lk_out l)\<rparr>)\<rparr>))"

definition receiving :: "(stream \<Rightarrow> 'a \<times> stream) \<Rightarrow> connector \<Rightarrow> 'a result \<times> connector" where
  "receiving r c =
     (case cn_stream c of None \<Rightarrow> (Inl OutOfBounds, c)
      | Some l \<Rightarrow> (let (x, i) = r (lk_in l) in (Inr x, c\<lparr>cn_stream := Some (l\<lparr>lk_in := i\<rparr>)\<rparr>)))"

section \<open>Opening and closing\<close>

definition Connector_is_open :: "connector \<Rightarrow> bool" where
  "Connector_is_open c = (case cn_stream c of None \<Rightarrow> False | Some l \<Rightarrow> lk_open l)"

definition read_transaction_id :: "bool \<Rightarrow> memory \<Rightarrow> connector \<Rightarrow> unit result \<times> connector" where
  "read_transaction_id big m =
     bind_act (receiving (nbo_read_std_size big (word_rcat (m 1)))) (\<lambda>n c. (Inr (), c\<lparr>cn_transaction_id := n\<rparr>))"

definition Connector_open_plain ::
  "(byte list \<Rightarrow> byte list \<Rightarrow> bool \<Rightarrow> 32 word \<Rightarrow> link result) \<Rightarrow> bool \<Rightarrow> memory \<Rightarrow> byte list \<Rightarrow> byte list \<Rightarrow> bool \<Rightarrow> 32 word \<Rightarrow>
     connector \<Rightarrow> unit result \<times> connector" where
  "Connector_open_plain connect big m host service blocking_mode timeout c =
     (if Connector_is_open c then (Inr (), c)
      else
        (let c = c\<lparr>cn_stream := None\<rparr> in
         case connect host service blocking_mode timeout of
           Inl e \<Rightarrow> (Inl e, c)
         | Inr l \<Rightarrow> read_transaction_id big m (c\<lparr>cn_stream := Some l\<rparr>)))"

text \<open>The stream is bound before it is opened, and stays when the handshake throws.\<close>

definition closed_tls :: link where
  "closed_tls = \<lparr>lk_secure = True, lk_open = False, lk_in = new_stream [], lk_out = new_stream []\<rparr>"

record credentials =
  cr_certificate :: "byte list"
  cr_private_key :: "byte list"
  cr_private_key_cipher :: "byte list"
  cr_authority :: "byte list"

definition Connector_open_tls ::
  "(credentials \<Rightarrow> byte list \<Rightarrow> byte list \<Rightarrow> bool \<Rightarrow> 32 word \<Rightarrow> link result) \<Rightarrow> bool \<Rightarrow> memory \<Rightarrow> credentials \<Rightarrow> byte list \<Rightarrow>
     byte list \<Rightarrow> bool \<Rightarrow> 32 word \<Rightarrow> connector \<Rightarrow> unit result \<times> connector" where
  "Connector_open_tls handshake big m params host service blocking_mode timeout c =
     (if Connector_is_open c then (Inr (), c)
      else
        (let c = c\<lparr>cn_stream := Some closed_tls\<rparr> in
         case handshake params host service blocking_mode timeout of
           Inl e \<Rightarrow> (Inl e, c)
         | Inr l \<Rightarrow> read_transaction_id big m (c\<lparr>cn_stream := Some l\<rparr>)))"

text \<open>\<open>open()\<close> reads the configuration: \<open>config_file\<close>, \<open>Utility::config_path\<close>, looks for a file beside it, giving an empty name when there is none,
  \<open>read_conf\<close> reads it, and what it gives is \<open>Configuration::get\<close> of a path.\<close>

definition trimmed :: "byte list \<Rightarrow> byte list" where "trimmed s = octets_of_text (trim (text_of s) (CHR '' ''))"

definition upper :: "byte list \<Rightarrow> byte list" where "upper s = octets_of_text (to_upper (text_of s))"

definition lower :: "byte list \<Rightarrow> byte list" where "lower s = octets_of_text (to_lower (text_of s))"

definition connector_file :: "(byte list \<Rightarrow> byte list) \<Rightarrow> byte list \<Rightarrow> byte list" where
  "connector_file config_file name =
     (if name = [] then [] else if name ! 0 = of_char CHR ''/'' then name
      else (let beside = config_file (ascii ''cert/'' @ name) in if beside \<noteq> [] then beside else name))"

definition get_file :: "(byte list \<Rightarrow> byte list) \<Rightarrow> (byte list \<Rightarrow> byte list option) \<Rightarrow> string \<Rightarrow> byte list" where
  "get_file config_file conf path =
     (case conf (ascii path) of None \<Rightarrow> [] | Some tmp \<Rightarrow> connector_file config_file (trimmed tmp))"

definition Connector_open ::
  "(byte list \<Rightarrow> byte list) \<Rightarrow> (byte list \<Rightarrow> (byte list \<Rightarrow> byte list option) result) \<Rightarrow>
   (byte list \<Rightarrow> byte list \<Rightarrow> bool \<Rightarrow> 32 word \<Rightarrow> link result) \<Rightarrow>
   (credentials \<Rightarrow> byte list \<Rightarrow> byte list \<Rightarrow> bool \<Rightarrow> 32 word \<Rightarrow> link result) \<Rightarrow> bool \<Rightarrow> memory \<Rightarrow>
   connector \<Rightarrow> unit result \<times> connector" where
  "Connector_open config_file read_conf connect handshake big m c =
     (let conf_path = config_file (ascii ''connector.conf'') in
      if conf_path = [] then (Inl (ConnectorException (ascii ''connector configuration not found'')), c)
      else case read_conf conf_path of Inl e \<Rightarrow> (Inl e, c)
      | Inr conf \<Rightarrow>
        (case conf (ascii ''/HOST/'') of
           None \<Rightarrow> (Inl (ConnectorException (ascii ''connector configuration TCP host not found'')), c)
         | Some host \<Rightarrow>
           (case (case conf (ascii ''/PORT/'') of None \<Rightarrow> conf (ascii ''/SERVICE/'') | Some service \<Rightarrow> Some service) of
              None \<Rightarrow> (Inl (ConnectorException (ascii ''connector configuration TCP service not found'')), c)
            | Some service \<Rightarrow>
              (let host = trimmed host; service = trimmed service;
                   blocking_mode = (case conf (ascii ''/BLOCKING_MODE/'') of None \<Rightarrow> True
                     | Some tmp \<Rightarrow> upper (trimmed tmp) \<noteq> ascii ''FALSE'' \<and> upper (trimmed tmp) \<noteq> ascii ''0'');
                   timeout = (case conf (ascii ''/TIMEOUT/'') of None \<Rightarrow> 0 | Some tmp \<Rightarrow> take_out 0 parse_signed tmp) in
               bind_act
                 (case conf (ascii ''/TLS_MODE/'') of None \<Rightarrow> pure_act False
                  | Some tmp \<Rightarrow>
                      if upper (trimmed tmp) = ascii ''TRUE'' then pure_act True
                      else if upper (trimmed tmp) = ascii ''FALSE'' then pure_act False
                      else fail_act (ConnectorException (ascii ''invalid value for 'TLS_MODE' in connector configuration'')))
                 (\<lambda>tls_mode.
                    if \<not> tls_mode then Connector_open_plain connect big m host service blocking_mode timeout
                    else
                      (let params = \<lparr>cr_certificate = get_file config_file conf ''/CERTIFICATE/'',
                             cr_private_key = get_file config_file conf ''/PRIVATE_KEY/'',
                             cr_private_key_cipher =
                               (case conf (ascii ''/PRIVATE_KEY_CIPHER/'') of None \<Rightarrow> [] | Some tmp \<Rightarrow> tmp),
                             cr_authority = get_file config_file conf ''/AUTHORITY/''\<rparr> in
                       if cr_certificate params = [] \<or> cr_private_key params = [] \<or> cr_authority params = [] then
                         fail_act (ConnectorException (ascii (''connector TLS_MODE is on, but CERTIFICATE,'' @
                           '' PRIVATE_KEY and AUTHORITY are not all set'')))
                       else Connector_open_tls handshake big m params host service blocking_mode timeout)) c))))"

definition Connector_close :: "connector \<Rightarrow> connector" where
  "Connector_close c = (if cn_stream c \<noteq> None then c\<lparr>cn_stream := None, cn_transaction_id := 0\<rparr> else c\<lparr>cn_transaction_id := 0\<rparr>)"

definition Connector_transaction_id :: "connector \<Rightarrow> 64 word" where
  "Connector_transaction_id c = cn_transaction_id c"

definition Connector_TRANSACTION_ID :: "connector \<Rightarrow> 64 word option" where
  "Connector_TRANSACTION_ID c = Some (cn_transaction_id c)"

definition Connector_stream :: "connector \<Rightarrow> link result" where
  "Connector_stream c =
     (case cn_stream c of None \<Rightarrow> Inl (ConnectorException (ascii ''Connector is not connected'')) | Some l \<Rightarrow> Inr l)"

section \<open>Calls\<close>

definition read_std_string :: "bool \<Rightarrow> memory \<Rightarrow> connector \<Rightarrow> byte list result \<times> connector" where
  "read_std_string big m = receiving (bs_read_std_string big (hd (m 2)) (m 3))"

definition throw_message :: "bool \<Rightarrow> memory \<Rightarrow> connector \<Rightarrow> 'a result \<times> connector" where
  "throw_message big m = bind_act (read_std_string big m) (\<lambda>msg. fail_act (ConnectorException msg))"

definition Connector_result :: "bool \<Rightarrow> memory \<Rightarrow> connector \<Rightarrow> byte result \<times> connector" where
  "Connector_result big m =
     bind_act (receiving (bs_read_std_ubyte big (hd (m 1)))) (\<lambda>type.
       if type = EXCEPTION_THROWN then throw_message big m else pure_act type)"

definition expect_done :: "bool \<Rightarrow> memory \<Rightarrow> connector \<Rightarrow> unit result \<times> connector" where
  "expect_done big m =
     bind_act (Connector_result big m) (\<lambda>type. if type \<noteq> SUCCESSFUL_DONE then throw_message big m else pure_act ())"

definition Connector_function :: "bool \<Rightarrow> memory \<Rightarrow> byte list \<Rightarrow> connector \<Rightarrow> unit result \<times> connector" where
  "Connector_function big m func =
     bind_act (sending (bs_write_std_string big func)) (\<lambda>_. expect_done big m)"

definition Connector_echo :: "bool \<Rightarrow> memory \<Rightarrow> byte list \<Rightarrow> connector \<Rightarrow> byte list result \<times> connector" where
  "Connector_echo big m txt =
     bind_act (Connector_function big m (ascii ''echo'')) (\<lambda>_.
     bind_act (sending (bs_write_std_string big txt)) (\<lambda>_. read_std_string big m))"

definition Connector_compile :: "bool \<Rightarrow> memory \<Rightarrow> byte list \<Rightarrow> connector \<Rightarrow> unit result \<times> connector" where
  "Connector_compile big m code =
     bind_act (Connector_function big m (ascii ''compile'')) (\<lambda>_.
     bind_act (sending (bs_write_std_text (nbo_write_std_ushort big) code)) (\<lambda>_. expect_done big m))"

definition Connector_call :: "bool \<Rightarrow> memory \<Rightarrow> byte list \<Rightarrow> connector \<Rightarrow> unit result \<times> connector" where
  "Connector_call big m procedure =
     bind_act (Connector_function big m (ascii ''call'')) (\<lambda>_.
     bind_act (sending (bs_write_std_string big procedure)) (\<lambda>_. expect_done big m))"

definition Connector_auto_commit :: "bool \<Rightarrow> memory \<Rightarrow> bool \<Rightarrow> connector \<Rightarrow> unit result \<times> connector" where
  "Connector_auto_commit big m auto_commit =
     bind_act (Connector_function big m (ascii ''auto_commit'')) (\<lambda>_.
     bind_act (sending (bs_write_std_bool big (of_bool auto_commit))) (\<lambda>_. expect_done big m))"

definition Connector_isolate :: "bool \<Rightarrow> memory \<Rightarrow> byte \<Rightarrow> connector \<Rightarrow> unit result \<times> connector" where
  "Connector_isolate big m isolation_level =
     bind_act (Connector_function big m (ascii ''isolate'')) (\<lambda>_.
     bind_act (sending (bs_write_std_ubyte big isolation_level)) (\<lambda>_. expect_done big m))"

definition Connector_columns :: "bool \<Rightarrow> memory \<Rightarrow> connector \<Rightarrow> byte list list result \<times> connector" where
  "Connector_columns big m =
     bind_act (read_std_string big m) (\<lambda>s. pure_act (map octets_of_text (split (text_of s) (CHR '',''))))"

definition Connector_commit :: "bool \<Rightarrow> memory \<Rightarrow> connector \<Rightarrow> unit result \<times> connector" where
  "Connector_commit big m =
     bind_act (Connector_function big m (ascii ''commit'')) (\<lambda>_. expect_done big m)"

definition Connector_rollback :: "bool \<Rightarrow> memory \<Rightarrow> connector \<Rightarrow> unit result \<times> connector" where
  "Connector_rollback big m =
     bind_act (Connector_function big m (ascii ''rollback'')) (\<lambda>_. expect_done big m)"

definition Connector_fetch_nothing :: "connector \<Rightarrow> connector" where
  "Connector_fetch_nothing c = c"

text \<open>\<open>fetch\<close> with objects: one reader for each of them, in order.\<close>

fun unpack :: "(stream \<Rightarrow> 'o \<times> stream) list \<Rightarrow> stream \<Rightarrow> 'o list \<times> stream" where
  "unpack [] s = ([], s)"
| "unpack (first # others) s = (let (x, s) = first s; (xs, s) = unpack others s in (x # xs, s))"

definition Connector_fetch :: "(stream \<Rightarrow> 'o \<times> stream) list \<Rightarrow> connector \<Rightarrow> 'o list result \<times> connector" where
  "Connector_fetch readers = receiving (unpack readers)"

definition Connector_FETCH :: "(stream \<Rightarrow> 'o \<times> stream) list \<Rightarrow> connector \<Rightarrow> 'o list result \<times> connector" where
  "Connector_FETCH readers = receiving (unpack readers)"

section \<open>The templates for fields\<close>

definition Connector_write :: "('a \<Rightarrow> stream \<Rightarrow> stream) \<Rightarrow> 'a \<Rightarrow> connector \<Rightarrow> unit result \<times> connector" where
  "Connector_write wr object = sending (wr object)"

definition Connector_write_rv :: "('a \<Rightarrow> stream \<Rightarrow> stream) \<Rightarrow> 'a \<Rightarrow> connector \<Rightarrow> unit result \<times> connector" where
  "Connector_write_rv wr object = sending (wr object)"

definition Connector_WRITE :: "('a \<Rightarrow> stream \<Rightarrow> stream) \<Rightarrow> 'a \<Rightarrow> connector \<Rightarrow> unit result \<times> connector" where
  "Connector_WRITE wr object = sending (wr object)"

definition Connector_WRITE_rv :: "('a \<Rightarrow> stream \<Rightarrow> stream) \<Rightarrow> 'a \<Rightarrow> connector \<Rightarrow> unit result \<times> connector" where
  "Connector_WRITE_rv wr object = sending (wr object)"

definition Connector_read :: "'a \<Rightarrow> (memory \<Rightarrow> 'a \<Rightarrow> stream \<Rightarrow> 'a \<times> stream) \<Rightarrow> memory \<Rightarrow> connector \<Rightarrow> 'a result \<times> connector" where
  "Connector_read fresh rd m = receiving (rd m fresh)"

definition Connector_read_ref :: "(memory \<Rightarrow> 'a \<Rightarrow> stream \<Rightarrow> 'a \<times> stream) \<Rightarrow> memory \<Rightarrow> 'a \<Rightarrow> connector \<Rightarrow> 'a result \<times> connector" where
  "Connector_read_ref rd m object = receiving (rd m object)"

definition Connector_READ :: "'a \<Rightarrow> (memory \<Rightarrow> 'a \<Rightarrow> stream \<Rightarrow> 'a \<times> stream) \<Rightarrow> memory \<Rightarrow> connector \<Rightarrow> 'a result \<times> connector" where
  "Connector_READ fresh rd m = receiving (rd m fresh)"

definition Connector_READ_ref :: "(memory \<Rightarrow> 'a \<Rightarrow> stream \<Rightarrow> 'a \<times> stream) \<Rightarrow> memory \<Rightarrow> 'a \<Rightarrow> connector \<Rightarrow> 'a result \<times> connector" where
  "Connector_READ_ref rd m object = receiving (rd m object)"

definition Connector_write_vector :: "('e list option \<Rightarrow> stream \<Rightarrow> stream) \<Rightarrow> 'e list option \<Rightarrow> connector \<Rightarrow> unit result \<times> connector" where
  "Connector_write_vector wr object = sending (wr object)"

definition Connector_WRITE_VECTOR :: "('e list option \<Rightarrow> stream \<Rightarrow> stream) \<Rightarrow> 'e list option \<Rightarrow> connector \<Rightarrow> unit result \<times> connector" where
  "Connector_WRITE_VECTOR wr object = sending (wr object)"

section \<open>The fields of each class\<close>

text \<open>The names in capitals are those of the compiled language. An overload for a temporary forwards it and one for an
  object passes it on; both write it.\<close>

definition Connector_read_bool :: "bool \<Rightarrow> memory \<Rightarrow> connector \<Rightarrow> (byte option) result \<times> connector" where
  "Connector_read_bool big m = Connector_read Bool_new (Bool_read (Network big)) m"

definition Connector_read_bool_ref :: "bool \<Rightarrow> memory \<Rightarrow> byte option \<Rightarrow> connector \<Rightarrow> (byte option) result \<times> connector" where
  "Connector_read_bool_ref big m object = Connector_read_ref (Bool_read (Network big)) m object"

definition Connector_write_bool :: "bool \<Rightarrow> byte option \<Rightarrow> connector \<Rightarrow> unit result \<times> connector" where
  "Connector_write_bool big object = Connector_write (Bool_write (Network big)) object"

definition Connector_write_bool_rv :: "bool \<Rightarrow> byte option \<Rightarrow> connector \<Rightarrow> unit result \<times> connector" where
  "Connector_write_bool_rv big object = Connector_write_rv (Bool_write (Network big)) object"

definition Connector_read_char :: "bool \<Rightarrow> memory \<Rightarrow> connector \<Rightarrow> (byte option) result \<times> connector" where
  "Connector_read_char big m = Connector_read Char_new (Char_read (Network big)) m"

definition Connector_read_char_ref :: "bool \<Rightarrow> memory \<Rightarrow> byte option \<Rightarrow> connector \<Rightarrow> (byte option) result \<times> connector" where
  "Connector_read_char_ref big m object = Connector_read_ref (Char_read (Network big)) m object"

definition Connector_write_char :: "bool \<Rightarrow> byte option \<Rightarrow> connector \<Rightarrow> unit result \<times> connector" where
  "Connector_write_char big object = Connector_write (Char_write (Network big)) object"

definition Connector_write_char_rv :: "bool \<Rightarrow> byte option \<Rightarrow> connector \<Rightarrow> unit result \<times> connector" where
  "Connector_write_char_rv big object = Connector_write_rv (Char_write (Network big)) object"

definition Connector_read_byte :: "bool \<Rightarrow> memory \<Rightarrow> connector \<Rightarrow> (byte option) result \<times> connector" where
  "Connector_read_byte big m = Connector_read Byte_new (Byte_read (Network big)) m"

definition Connector_read_byte_ref :: "bool \<Rightarrow> memory \<Rightarrow> byte option \<Rightarrow> connector \<Rightarrow> (byte option) result \<times> connector" where
  "Connector_read_byte_ref big m object = Connector_read_ref (Byte_read (Network big)) m object"

definition Connector_write_byte :: "bool \<Rightarrow> byte option \<Rightarrow> connector \<Rightarrow> unit result \<times> connector" where
  "Connector_write_byte big object = Connector_write (Byte_write (Network big)) object"

definition Connector_write_byte_rv :: "bool \<Rightarrow> byte option \<Rightarrow> connector \<Rightarrow> unit result \<times> connector" where
  "Connector_write_byte_rv big object = Connector_write_rv (Byte_write (Network big)) object"

definition Connector_read_ubyte :: "bool \<Rightarrow> memory \<Rightarrow> connector \<Rightarrow> (byte option) result \<times> connector" where
  "Connector_read_ubyte big m = Connector_read UByte_new (UByte_read (Network big)) m"

definition Connector_read_ubyte_ref :: "bool \<Rightarrow> memory \<Rightarrow> byte option \<Rightarrow> connector \<Rightarrow> (byte option) result \<times> connector" where
  "Connector_read_ubyte_ref big m object = Connector_read_ref (UByte_read (Network big)) m object"

definition Connector_write_ubyte :: "bool \<Rightarrow> byte option \<Rightarrow> connector \<Rightarrow> unit result \<times> connector" where
  "Connector_write_ubyte big object = Connector_write (UByte_write (Network big)) object"

definition Connector_write_ubyte_rv :: "bool \<Rightarrow> byte option \<Rightarrow> connector \<Rightarrow> unit result \<times> connector" where
  "Connector_write_ubyte_rv big object = Connector_write_rv (UByte_write (Network big)) object"

definition Connector_read_short :: "bool \<Rightarrow> memory \<Rightarrow> connector \<Rightarrow> (16 word option) result \<times> connector" where
  "Connector_read_short big m = Connector_read Short_new (Short_read (Network big)) m"

definition Connector_read_short_ref :: "bool \<Rightarrow> memory \<Rightarrow> 16 word option \<Rightarrow> connector \<Rightarrow> (16 word option) result \<times> connector" where
  "Connector_read_short_ref big m object = Connector_read_ref (Short_read (Network big)) m object"

definition Connector_write_short :: "bool \<Rightarrow> 16 word option \<Rightarrow> connector \<Rightarrow> unit result \<times> connector" where
  "Connector_write_short big object = Connector_write (Short_write (Network big)) object"

definition Connector_write_short_rv :: "bool \<Rightarrow> 16 word option \<Rightarrow> connector \<Rightarrow> unit result \<times> connector" where
  "Connector_write_short_rv big object = Connector_write_rv (Short_write (Network big)) object"

definition Connector_read_ushort :: "bool \<Rightarrow> memory \<Rightarrow> connector \<Rightarrow> (16 word option) result \<times> connector" where
  "Connector_read_ushort big m = Connector_read UShort_new (UShort_read (Network big)) m"

definition Connector_read_ushort_ref :: "bool \<Rightarrow> memory \<Rightarrow> 16 word option \<Rightarrow> connector \<Rightarrow> (16 word option) result \<times> connector" where
  "Connector_read_ushort_ref big m object = Connector_read_ref (UShort_read (Network big)) m object"

definition Connector_write_ushort :: "bool \<Rightarrow> 16 word option \<Rightarrow> connector \<Rightarrow> unit result \<times> connector" where
  "Connector_write_ushort big object = Connector_write (UShort_write (Network big)) object"

definition Connector_write_ushort_rv :: "bool \<Rightarrow> 16 word option \<Rightarrow> connector \<Rightarrow> unit result \<times> connector" where
  "Connector_write_ushort_rv big object = Connector_write_rv (UShort_write (Network big)) object"

definition Connector_read_int :: "bool \<Rightarrow> memory \<Rightarrow> connector \<Rightarrow> (32 word option) result \<times> connector" where
  "Connector_read_int big m = Connector_read Int_new (Int_read (Network big)) m"

definition Connector_read_int_ref :: "bool \<Rightarrow> memory \<Rightarrow> 32 word option \<Rightarrow> connector \<Rightarrow> (32 word option) result \<times> connector" where
  "Connector_read_int_ref big m object = Connector_read_ref (Int_read (Network big)) m object"

definition Connector_write_int :: "bool \<Rightarrow> 32 word option \<Rightarrow> connector \<Rightarrow> unit result \<times> connector" where
  "Connector_write_int big object = Connector_write (Int_write (Network big)) object"

definition Connector_write_int_rv :: "bool \<Rightarrow> 32 word option \<Rightarrow> connector \<Rightarrow> unit result \<times> connector" where
  "Connector_write_int_rv big object = Connector_write_rv (Int_write (Network big)) object"

definition Connector_read_uint :: "bool \<Rightarrow> memory \<Rightarrow> connector \<Rightarrow> (32 word option) result \<times> connector" where
  "Connector_read_uint big m = Connector_read UInt_new (UInt_read (Network big)) m"

definition Connector_read_uint_ref :: "bool \<Rightarrow> memory \<Rightarrow> 32 word option \<Rightarrow> connector \<Rightarrow> (32 word option) result \<times> connector" where
  "Connector_read_uint_ref big m object = Connector_read_ref (UInt_read (Network big)) m object"

definition Connector_write_uint :: "bool \<Rightarrow> 32 word option \<Rightarrow> connector \<Rightarrow> unit result \<times> connector" where
  "Connector_write_uint big object = Connector_write (UInt_write (Network big)) object"

definition Connector_write_uint_rv :: "bool \<Rightarrow> 32 word option \<Rightarrow> connector \<Rightarrow> unit result \<times> connector" where
  "Connector_write_uint_rv big object = Connector_write_rv (UInt_write (Network big)) object"

definition Connector_read_long :: "bool \<Rightarrow> memory \<Rightarrow> connector \<Rightarrow> (64 word option) result \<times> connector" where
  "Connector_read_long big m = Connector_read Long_new (Long_read (Network big)) m"

definition Connector_read_long_ref :: "bool \<Rightarrow> memory \<Rightarrow> 64 word option \<Rightarrow> connector \<Rightarrow> (64 word option) result \<times> connector" where
  "Connector_read_long_ref big m object = Connector_read_ref (Long_read (Network big)) m object"

definition Connector_write_long :: "bool \<Rightarrow> 64 word option \<Rightarrow> connector \<Rightarrow> unit result \<times> connector" where
  "Connector_write_long big object = Connector_write (Long_write (Network big)) object"

definition Connector_write_long_rv :: "bool \<Rightarrow> 64 word option \<Rightarrow> connector \<Rightarrow> unit result \<times> connector" where
  "Connector_write_long_rv big object = Connector_write_rv (Long_write (Network big)) object"

definition Connector_read_ulong :: "bool \<Rightarrow> memory \<Rightarrow> connector \<Rightarrow> (64 word option) result \<times> connector" where
  "Connector_read_ulong big m = Connector_read ULong_new (ULong_read (Network big)) m"

definition Connector_read_ulong_ref :: "bool \<Rightarrow> memory \<Rightarrow> 64 word option \<Rightarrow> connector \<Rightarrow> (64 word option) result \<times> connector" where
  "Connector_read_ulong_ref big m object = Connector_read_ref (ULong_read (Network big)) m object"

definition Connector_write_ulong :: "bool \<Rightarrow> 64 word option \<Rightarrow> connector \<Rightarrow> unit result \<times> connector" where
  "Connector_write_ulong big object = Connector_write (ULong_write (Network big)) object"

definition Connector_write_ulong_rv :: "bool \<Rightarrow> 64 word option \<Rightarrow> connector \<Rightarrow> unit result \<times> connector" where
  "Connector_write_ulong_rv big object = Connector_write_rv (ULong_write (Network big)) object"

definition Connector_read_float :: "bool \<Rightarrow> memory \<Rightarrow> connector \<Rightarrow> (32 word option) result \<times> connector" where
  "Connector_read_float big m = Connector_read Float_new (Float_read (Network big)) m"

definition Connector_read_float_ref :: "bool \<Rightarrow> memory \<Rightarrow> 32 word option \<Rightarrow> connector \<Rightarrow> (32 word option) result \<times> connector" where
  "Connector_read_float_ref big m object = Connector_read_ref (Float_read (Network big)) m object"

definition Connector_write_float :: "bool \<Rightarrow> 32 word option \<Rightarrow> connector \<Rightarrow> unit result \<times> connector" where
  "Connector_write_float big object = Connector_write (Float_write (Network big)) object"

definition Connector_write_float_rv :: "bool \<Rightarrow> 32 word option \<Rightarrow> connector \<Rightarrow> unit result \<times> connector" where
  "Connector_write_float_rv big object = Connector_write_rv (Float_write (Network big)) object"

definition Connector_read_double :: "bool \<Rightarrow> memory \<Rightarrow> connector \<Rightarrow> (64 word option) result \<times> connector" where
  "Connector_read_double big m = Connector_read Double_new (Double_read (Network big)) m"

definition Connector_read_double_ref :: "bool \<Rightarrow> memory \<Rightarrow> 64 word option \<Rightarrow> connector \<Rightarrow> (64 word option) result \<times> connector" where
  "Connector_read_double_ref big m object = Connector_read_ref (Double_read (Network big)) m object"

definition Connector_write_double :: "bool \<Rightarrow> 64 word option \<Rightarrow> connector \<Rightarrow> unit result \<times> connector" where
  "Connector_write_double big object = Connector_write (Double_write (Network big)) object"

definition Connector_write_double_rv :: "bool \<Rightarrow> 64 word option \<Rightarrow> connector \<Rightarrow> unit result \<times> connector" where
  "Connector_write_double_rv big object = Connector_write_rv (Double_write (Network big)) object"

definition Connector_read_real :: "bool \<Rightarrow> memory \<Rightarrow> connector \<Rightarrow> (128 word option) result \<times> connector" where
  "Connector_read_real big m = Connector_read Real_new (Real_read (Network big)) m"

definition Connector_read_real_ref :: "bool \<Rightarrow> memory \<Rightarrow> 128 word option \<Rightarrow> connector \<Rightarrow> (128 word option) result \<times> connector" where
  "Connector_read_real_ref big m object = Connector_read_ref (Real_read (Network big)) m object"

definition Connector_write_real :: "bool \<Rightarrow> 128 word option \<Rightarrow> connector \<Rightarrow> unit result \<times> connector" where
  "Connector_write_real big object = Connector_write (Real_write (Network big)) object"

definition Connector_write_real_rv :: "bool \<Rightarrow> 128 word option \<Rightarrow> connector \<Rightarrow> unit result \<times> connector" where
  "Connector_write_real_rv big object = Connector_write_rv (Real_write (Network big)) object"

definition Connector_read_timestamp :: "bool \<Rightarrow> memory \<Rightarrow> connector \<Rightarrow> (64 word option) result \<times> connector" where
  "Connector_read_timestamp big m = Connector_read Timestamp_new (Timestamp_read (Network big)) m"

definition Connector_read_timestamp_ref :: "bool \<Rightarrow> memory \<Rightarrow> 64 word option \<Rightarrow> connector \<Rightarrow> (64 word option) result \<times> connector" where
  "Connector_read_timestamp_ref big m object = Connector_read_ref (Timestamp_read (Network big)) m object"

definition Connector_write_timestamp :: "bool \<Rightarrow> 64 word option \<Rightarrow> connector \<Rightarrow> unit result \<times> connector" where
  "Connector_write_timestamp big object = Connector_write (Timestamp_write (Network big)) object"

definition Connector_write_timestamp_rv :: "bool \<Rightarrow> 64 word option \<Rightarrow> connector \<Rightarrow> unit result \<times> connector" where
  "Connector_write_timestamp_rv big object = Connector_write_rv (Timestamp_write (Network big)) object"

definition Connector_read_string :: "bool \<Rightarrow> memory \<Rightarrow> connector \<Rightarrow> (byte list option) result \<times> connector" where
  "Connector_read_string big m = Connector_read String_new (String_read (Network big)) m"

definition Connector_read_string_ref :: "bool \<Rightarrow> memory \<Rightarrow> byte list option \<Rightarrow> connector \<Rightarrow> (byte list option) result \<times> connector" where
  "Connector_read_string_ref big m object = Connector_read_ref (String_read (Network big)) m object"

definition Connector_write_string :: "bool \<Rightarrow> byte list option \<Rightarrow> connector \<Rightarrow> unit result \<times> connector" where
  "Connector_write_string big object = Connector_write (String_write (Network big)) object"

definition Connector_write_string_rv :: "bool \<Rightarrow> byte list option \<Rightarrow> connector \<Rightarrow> unit result \<times> connector" where
  "Connector_write_string_rv big object = Connector_write_rv (String_write (Network big)) object"

definition Connector_read_text :: "bool \<Rightarrow> memory \<Rightarrow> connector \<Rightarrow> (byte list option) result \<times> connector" where
  "Connector_read_text big m = Connector_read Text_new (Text_read (Network big)) m"

definition Connector_read_text_ref :: "bool \<Rightarrow> memory \<Rightarrow> byte list option \<Rightarrow> connector \<Rightarrow> (byte list option) result \<times> connector" where
  "Connector_read_text_ref big m object = Connector_read_ref (Text_read (Network big)) m object"

definition Connector_write_text :: "bool \<Rightarrow> byte list option \<Rightarrow> connector \<Rightarrow> unit result \<times> connector" where
  "Connector_write_text big object = Connector_write (Text_write (Network big)) object"

definition Connector_write_text_rv :: "bool \<Rightarrow> byte list option \<Rightarrow> connector \<Rightarrow> unit result \<times> connector" where
  "Connector_write_text_rv big object = Connector_write_rv (Text_write (Network big)) object"

definition Connector_READ_BOOL :: "bool \<Rightarrow> memory \<Rightarrow> connector \<Rightarrow> (byte option) result \<times> connector" where
  "Connector_READ_BOOL big m = Connector_READ Bool_new (Bool_read (Network big)) m"

definition Connector_READ_BOOL_ref :: "bool \<Rightarrow> memory \<Rightarrow> byte option \<Rightarrow> connector \<Rightarrow> (byte option) result \<times> connector" where
  "Connector_READ_BOOL_ref big m object = Connector_READ_ref (Bool_read (Network big)) m object"

definition Connector_WRITE_BOOL :: "bool \<Rightarrow> byte option \<Rightarrow> connector \<Rightarrow> unit result \<times> connector" where
  "Connector_WRITE_BOOL big object = Connector_WRITE (Bool_write (Network big)) object"

definition Connector_WRITE_BOOL_rv :: "bool \<Rightarrow> byte option \<Rightarrow> connector \<Rightarrow> unit result \<times> connector" where
  "Connector_WRITE_BOOL_rv big object = Connector_WRITE_rv (Bool_write (Network big)) object"

definition Connector_READ_CHAR :: "bool \<Rightarrow> memory \<Rightarrow> connector \<Rightarrow> (byte option) result \<times> connector" where
  "Connector_READ_CHAR big m = Connector_READ Char_new (Char_read (Network big)) m"

definition Connector_READ_CHAR_ref :: "bool \<Rightarrow> memory \<Rightarrow> byte option \<Rightarrow> connector \<Rightarrow> (byte option) result \<times> connector" where
  "Connector_READ_CHAR_ref big m object = Connector_READ_ref (Char_read (Network big)) m object"

definition Connector_WRITE_CHAR :: "bool \<Rightarrow> byte option \<Rightarrow> connector \<Rightarrow> unit result \<times> connector" where
  "Connector_WRITE_CHAR big object = Connector_WRITE (Char_write (Network big)) object"

definition Connector_WRITE_CHAR_rv :: "bool \<Rightarrow> byte option \<Rightarrow> connector \<Rightarrow> unit result \<times> connector" where
  "Connector_WRITE_CHAR_rv big object = Connector_WRITE_rv (Char_write (Network big)) object"

definition Connector_READ_BYTE :: "bool \<Rightarrow> memory \<Rightarrow> connector \<Rightarrow> (byte option) result \<times> connector" where
  "Connector_READ_BYTE big m = Connector_READ Byte_new (Byte_read (Network big)) m"

definition Connector_READ_BYTE_ref :: "bool \<Rightarrow> memory \<Rightarrow> byte option \<Rightarrow> connector \<Rightarrow> (byte option) result \<times> connector" where
  "Connector_READ_BYTE_ref big m object = Connector_READ_ref (Byte_read (Network big)) m object"

definition Connector_WRITE_BYTE :: "bool \<Rightarrow> byte option \<Rightarrow> connector \<Rightarrow> unit result \<times> connector" where
  "Connector_WRITE_BYTE big object = Connector_WRITE (Byte_write (Network big)) object"

definition Connector_WRITE_BYTE_rv :: "bool \<Rightarrow> byte option \<Rightarrow> connector \<Rightarrow> unit result \<times> connector" where
  "Connector_WRITE_BYTE_rv big object = Connector_WRITE_rv (Byte_write (Network big)) object"

definition Connector_READ_UBYTE :: "bool \<Rightarrow> memory \<Rightarrow> connector \<Rightarrow> (byte option) result \<times> connector" where
  "Connector_READ_UBYTE big m = Connector_READ UByte_new (UByte_read (Network big)) m"

definition Connector_READ_UBYTE_ref :: "bool \<Rightarrow> memory \<Rightarrow> byte option \<Rightarrow> connector \<Rightarrow> (byte option) result \<times> connector" where
  "Connector_READ_UBYTE_ref big m object = Connector_READ_ref (UByte_read (Network big)) m object"

definition Connector_WRITE_UBYTE :: "bool \<Rightarrow> byte option \<Rightarrow> connector \<Rightarrow> unit result \<times> connector" where
  "Connector_WRITE_UBYTE big object = Connector_WRITE (UByte_write (Network big)) object"

definition Connector_WRITE_UBYTE_rv :: "bool \<Rightarrow> byte option \<Rightarrow> connector \<Rightarrow> unit result \<times> connector" where
  "Connector_WRITE_UBYTE_rv big object = Connector_WRITE_rv (UByte_write (Network big)) object"

definition Connector_READ_SHORT :: "bool \<Rightarrow> memory \<Rightarrow> connector \<Rightarrow> (16 word option) result \<times> connector" where
  "Connector_READ_SHORT big m = Connector_READ Short_new (Short_read (Network big)) m"

definition Connector_READ_SHORT_ref :: "bool \<Rightarrow> memory \<Rightarrow> 16 word option \<Rightarrow> connector \<Rightarrow> (16 word option) result \<times> connector" where
  "Connector_READ_SHORT_ref big m object = Connector_READ_ref (Short_read (Network big)) m object"

definition Connector_WRITE_SHORT :: "bool \<Rightarrow> 16 word option \<Rightarrow> connector \<Rightarrow> unit result \<times> connector" where
  "Connector_WRITE_SHORT big object = Connector_WRITE (Short_write (Network big)) object"

definition Connector_WRITE_SHORT_rv :: "bool \<Rightarrow> 16 word option \<Rightarrow> connector \<Rightarrow> unit result \<times> connector" where
  "Connector_WRITE_SHORT_rv big object = Connector_WRITE_rv (Short_write (Network big)) object"

definition Connector_READ_USHORT :: "bool \<Rightarrow> memory \<Rightarrow> connector \<Rightarrow> (16 word option) result \<times> connector" where
  "Connector_READ_USHORT big m = Connector_READ UShort_new (UShort_read (Network big)) m"

definition Connector_READ_USHORT_ref :: "bool \<Rightarrow> memory \<Rightarrow> 16 word option \<Rightarrow> connector \<Rightarrow> (16 word option) result \<times> connector" where
  "Connector_READ_USHORT_ref big m object = Connector_READ_ref (UShort_read (Network big)) m object"

definition Connector_WRITE_USHORT :: "bool \<Rightarrow> 16 word option \<Rightarrow> connector \<Rightarrow> unit result \<times> connector" where
  "Connector_WRITE_USHORT big object = Connector_WRITE (UShort_write (Network big)) object"

definition Connector_WRITE_USHORT_rv :: "bool \<Rightarrow> 16 word option \<Rightarrow> connector \<Rightarrow> unit result \<times> connector" where
  "Connector_WRITE_USHORT_rv big object = Connector_WRITE_rv (UShort_write (Network big)) object"

definition Connector_READ_INT :: "bool \<Rightarrow> memory \<Rightarrow> connector \<Rightarrow> (32 word option) result \<times> connector" where
  "Connector_READ_INT big m = Connector_READ Int_new (Int_read (Network big)) m"

definition Connector_READ_INT_ref :: "bool \<Rightarrow> memory \<Rightarrow> 32 word option \<Rightarrow> connector \<Rightarrow> (32 word option) result \<times> connector" where
  "Connector_READ_INT_ref big m object = Connector_READ_ref (Int_read (Network big)) m object"

definition Connector_WRITE_INT :: "bool \<Rightarrow> 32 word option \<Rightarrow> connector \<Rightarrow> unit result \<times> connector" where
  "Connector_WRITE_INT big object = Connector_WRITE (Int_write (Network big)) object"

definition Connector_WRITE_INT_rv :: "bool \<Rightarrow> 32 word option \<Rightarrow> connector \<Rightarrow> unit result \<times> connector" where
  "Connector_WRITE_INT_rv big object = Connector_WRITE_rv (Int_write (Network big)) object"

definition Connector_READ_UINT :: "bool \<Rightarrow> memory \<Rightarrow> connector \<Rightarrow> (32 word option) result \<times> connector" where
  "Connector_READ_UINT big m = Connector_READ UInt_new (UInt_read (Network big)) m"

definition Connector_READ_UINT_ref :: "bool \<Rightarrow> memory \<Rightarrow> 32 word option \<Rightarrow> connector \<Rightarrow> (32 word option) result \<times> connector" where
  "Connector_READ_UINT_ref big m object = Connector_READ_ref (UInt_read (Network big)) m object"

definition Connector_WRITE_UINT :: "bool \<Rightarrow> 32 word option \<Rightarrow> connector \<Rightarrow> unit result \<times> connector" where
  "Connector_WRITE_UINT big object = Connector_WRITE (UInt_write (Network big)) object"

definition Connector_WRITE_UINT_rv :: "bool \<Rightarrow> 32 word option \<Rightarrow> connector \<Rightarrow> unit result \<times> connector" where
  "Connector_WRITE_UINT_rv big object = Connector_WRITE_rv (UInt_write (Network big)) object"

definition Connector_READ_LONG :: "bool \<Rightarrow> memory \<Rightarrow> connector \<Rightarrow> (64 word option) result \<times> connector" where
  "Connector_READ_LONG big m = Connector_READ Long_new (Long_read (Network big)) m"

definition Connector_READ_LONG_ref :: "bool \<Rightarrow> memory \<Rightarrow> 64 word option \<Rightarrow> connector \<Rightarrow> (64 word option) result \<times> connector" where
  "Connector_READ_LONG_ref big m object = Connector_READ_ref (Long_read (Network big)) m object"

definition Connector_WRITE_LONG :: "bool \<Rightarrow> 64 word option \<Rightarrow> connector \<Rightarrow> unit result \<times> connector" where
  "Connector_WRITE_LONG big object = Connector_WRITE (Long_write (Network big)) object"

definition Connector_WRITE_LONG_rv :: "bool \<Rightarrow> 64 word option \<Rightarrow> connector \<Rightarrow> unit result \<times> connector" where
  "Connector_WRITE_LONG_rv big object = Connector_WRITE_rv (Long_write (Network big)) object"

definition Connector_READ_ULONG :: "bool \<Rightarrow> memory \<Rightarrow> connector \<Rightarrow> (64 word option) result \<times> connector" where
  "Connector_READ_ULONG big m = Connector_READ ULong_new (ULong_read (Network big)) m"

definition Connector_READ_ULONG_ref :: "bool \<Rightarrow> memory \<Rightarrow> 64 word option \<Rightarrow> connector \<Rightarrow> (64 word option) result \<times> connector" where
  "Connector_READ_ULONG_ref big m object = Connector_READ_ref (ULong_read (Network big)) m object"

definition Connector_WRITE_ULONG :: "bool \<Rightarrow> 64 word option \<Rightarrow> connector \<Rightarrow> unit result \<times> connector" where
  "Connector_WRITE_ULONG big object = Connector_WRITE (ULong_write (Network big)) object"

definition Connector_WRITE_ULONG_rv :: "bool \<Rightarrow> 64 word option \<Rightarrow> connector \<Rightarrow> unit result \<times> connector" where
  "Connector_WRITE_ULONG_rv big object = Connector_WRITE_rv (ULong_write (Network big)) object"

definition Connector_READ_FLOAT :: "bool \<Rightarrow> memory \<Rightarrow> connector \<Rightarrow> (32 word option) result \<times> connector" where
  "Connector_READ_FLOAT big m = Connector_READ Float_new (Float_read (Network big)) m"

definition Connector_READ_FLOAT_ref :: "bool \<Rightarrow> memory \<Rightarrow> 32 word option \<Rightarrow> connector \<Rightarrow> (32 word option) result \<times> connector" where
  "Connector_READ_FLOAT_ref big m object = Connector_READ_ref (Float_read (Network big)) m object"

definition Connector_WRITE_FLOAT :: "bool \<Rightarrow> 32 word option \<Rightarrow> connector \<Rightarrow> unit result \<times> connector" where
  "Connector_WRITE_FLOAT big object = Connector_WRITE (Float_write (Network big)) object"

definition Connector_WRITE_FLOAT_rv :: "bool \<Rightarrow> 32 word option \<Rightarrow> connector \<Rightarrow> unit result \<times> connector" where
  "Connector_WRITE_FLOAT_rv big object = Connector_WRITE_rv (Float_write (Network big)) object"

definition Connector_READ_DOUBLE :: "bool \<Rightarrow> memory \<Rightarrow> connector \<Rightarrow> (64 word option) result \<times> connector" where
  "Connector_READ_DOUBLE big m = Connector_READ Double_new (Double_read (Network big)) m"

definition Connector_READ_DOUBLE_ref :: "bool \<Rightarrow> memory \<Rightarrow> 64 word option \<Rightarrow> connector \<Rightarrow> (64 word option) result \<times> connector" where
  "Connector_READ_DOUBLE_ref big m object = Connector_READ_ref (Double_read (Network big)) m object"

definition Connector_WRITE_DOUBLE :: "bool \<Rightarrow> 64 word option \<Rightarrow> connector \<Rightarrow> unit result \<times> connector" where
  "Connector_WRITE_DOUBLE big object = Connector_WRITE (Double_write (Network big)) object"

definition Connector_WRITE_DOUBLE_rv :: "bool \<Rightarrow> 64 word option \<Rightarrow> connector \<Rightarrow> unit result \<times> connector" where
  "Connector_WRITE_DOUBLE_rv big object = Connector_WRITE_rv (Double_write (Network big)) object"

definition Connector_READ_REAL :: "bool \<Rightarrow> memory \<Rightarrow> connector \<Rightarrow> (128 word option) result \<times> connector" where
  "Connector_READ_REAL big m = Connector_READ Real_new (Real_read (Network big)) m"

definition Connector_READ_REAL_ref :: "bool \<Rightarrow> memory \<Rightarrow> 128 word option \<Rightarrow> connector \<Rightarrow> (128 word option) result \<times> connector" where
  "Connector_READ_REAL_ref big m object = Connector_READ_ref (Real_read (Network big)) m object"

definition Connector_WRITE_REAL :: "bool \<Rightarrow> 128 word option \<Rightarrow> connector \<Rightarrow> unit result \<times> connector" where
  "Connector_WRITE_REAL big object = Connector_WRITE (Real_write (Network big)) object"

definition Connector_WRITE_REAL_rv :: "bool \<Rightarrow> 128 word option \<Rightarrow> connector \<Rightarrow> unit result \<times> connector" where
  "Connector_WRITE_REAL_rv big object = Connector_WRITE_rv (Real_write (Network big)) object"

definition Connector_READ_TIMESTAMP :: "bool \<Rightarrow> memory \<Rightarrow> connector \<Rightarrow> (64 word option) result \<times> connector" where
  "Connector_READ_TIMESTAMP big m = Connector_READ Timestamp_new (Timestamp_read (Network big)) m"

definition Connector_READ_TIMESTAMP_ref :: "bool \<Rightarrow> memory \<Rightarrow> 64 word option \<Rightarrow> connector \<Rightarrow> (64 word option) result \<times> connector" where
  "Connector_READ_TIMESTAMP_ref big m object = Connector_READ_ref (Timestamp_read (Network big)) m object"

definition Connector_WRITE_TIMESTAMP :: "bool \<Rightarrow> 64 word option \<Rightarrow> connector \<Rightarrow> unit result \<times> connector" where
  "Connector_WRITE_TIMESTAMP big object = Connector_WRITE (Timestamp_write (Network big)) object"

definition Connector_WRITE_TIMESTAMP_rv :: "bool \<Rightarrow> 64 word option \<Rightarrow> connector \<Rightarrow> unit result \<times> connector" where
  "Connector_WRITE_TIMESTAMP_rv big object = Connector_WRITE_rv (Timestamp_write (Network big)) object"

definition Connector_READ_STRING :: "bool \<Rightarrow> memory \<Rightarrow> connector \<Rightarrow> (byte list option) result \<times> connector" where
  "Connector_READ_STRING big m = Connector_READ String_new (String_read (Network big)) m"

definition Connector_READ_STRING_ref :: "bool \<Rightarrow> memory \<Rightarrow> byte list option \<Rightarrow> connector \<Rightarrow> (byte list option) result \<times> connector" where
  "Connector_READ_STRING_ref big m object = Connector_READ_ref (String_read (Network big)) m object"

definition Connector_WRITE_STRING :: "bool \<Rightarrow> byte list option \<Rightarrow> connector \<Rightarrow> unit result \<times> connector" where
  "Connector_WRITE_STRING big object = Connector_WRITE (String_write (Network big)) object"

definition Connector_WRITE_STRING_rv :: "bool \<Rightarrow> byte list option \<Rightarrow> connector \<Rightarrow> unit result \<times> connector" where
  "Connector_WRITE_STRING_rv big object = Connector_WRITE_rv (String_write (Network big)) object"

definition Connector_READ_TEXT :: "bool \<Rightarrow> memory \<Rightarrow> connector \<Rightarrow> (byte list option) result \<times> connector" where
  "Connector_READ_TEXT big m = Connector_READ Text_new (Text_read (Network big)) m"

definition Connector_READ_TEXT_ref :: "bool \<Rightarrow> memory \<Rightarrow> byte list option \<Rightarrow> connector \<Rightarrow> (byte list option) result \<times> connector" where
  "Connector_READ_TEXT_ref big m object = Connector_READ_ref (Text_read (Network big)) m object"

definition Connector_WRITE_TEXT :: "bool \<Rightarrow> byte list option \<Rightarrow> connector \<Rightarrow> unit result \<times> connector" where
  "Connector_WRITE_TEXT big object = Connector_WRITE (Text_write (Network big)) object"

definition Connector_WRITE_TEXT_rv :: "bool \<Rightarrow> byte list option \<Rightarrow> connector \<Rightarrow> unit result \<times> connector" where
  "Connector_WRITE_TEXT_rv big object = Connector_WRITE_rv (Text_write (Network big)) object"

section \<open>Texts\<close>

lemma unat_of_char: "unat (of_char c :: byte) = of_char c"
proof -
  have "unat (of_nat (of_char c) :: byte) = of_char c mod 256" by (simp only: unat_of_nat) (simp add: take_bit_eq_mod)
  then show ?thesis by (simp only: of_nat_of_char of_char_mod_256)
qed

lemma text_of_ascii [simp]: "text_of (ascii a) = a"
  by (simp add: text_of_def ascii_def unat_of_char o_def)

lemma ascii_inj [simp]: "ascii a = ascii b \<longleftrightarrow> a = b"
  by (metis text_of_ascii)

lemma ascii_Nil [simp]: "ascii a = [] \<longleftrightarrow> a = []"
  by (simp add: ascii_def)

lemma lower_ascii: "lower (ascii a) = ascii (to_lower a)"
  by (simp add: lower_def octets_of_text_def ascii_def [symmetric])

end
