(* ===== verification/RPC_Server.thy ===== *)
theory RPC_Server
  imports Connector
begin

text \<open>
  \<open>handle_client\<close> of \<open>ziguratip/loadzigurat.cpp\<close>, the other end of the binary protocol, and the conversation of a
  \<open>Connector\<close> with it. The storage engine, the objects that are called and the compiler are the parameter \<open>K\<close>. None of
  the streams throws: the handler that is to notice a network error is never run, and at the end of the input a string
  is what the variables held.
\<close>

section \<open>The server\<close>

record 'e rpc_server =
  sv_in :: stream
  sv_out :: stream
  sv_engine :: 'e

text \<open>What the conversation asks of the engine; a thrown exception is a \<open>Inl\<close>. A procedure and the reports of the
  administrator also use the streams.\<close>

record ('e, 'h) engine =
  e_transaction_id :: "'e \<Rightarrow> 64 word \<times> 'e"
  e_set_autocommit :: "bool \<Rightarrow> 'e \<Rightarrow> unit result \<times> 'e"
  e_isolate :: "byte \<Rightarrow> 'e \<Rightarrow> unit result \<times> 'e"
  e_commit :: "'e \<Rightarrow> unit result \<times> 'e"
  e_rollback :: "'e \<Rightarrow> unit result \<times> 'e"
  e_autocommit :: "'e \<Rightarrow> bool"
  e_compile :: "byte list \<Rightarrow> 'e \<Rightarrow> unit result \<times> 'e"
  e_remote_mode :: bool
  e_library_path :: "byte list"
  e_cache_none :: bool
  e_handle :: "byte list \<Rightarrow> 'e \<Rightarrow> 'h result \<times> 'e"
  e_run :: "'h \<Rightarrow> 'e rpc_server \<Rightarrow> unit result \<times> 'e rpc_server"
  e_close :: "'h \<Rightarrow> 'e \<Rightarrow> unit result \<times> 'e"
  e_dba :: "byte list \<Rightarrow> 'e rpc_server \<Rightarrow> unit result \<times> 'e rpc_server"

definition s_sends :: "(stream \<Rightarrow> stream) \<Rightarrow> 'e rpc_server \<Rightarrow> unit result \<times> 'e rpc_server" where
  "s_sends w s = (Inr (), s\<lparr>sv_out := w (sv_out s)\<rparr>)"

definition s_reads :: "(stream \<Rightarrow> 'a \<times> stream) \<Rightarrow> 'e rpc_server \<Rightarrow> 'a result \<times> 'e rpc_server" where
  "s_reads r s = (let (x, i) = r (sv_in s) in (Inr x, s\<lparr>sv_in := i\<rparr>))"

definition s_engine :: "('e \<Rightarrow> 'a result \<times> 'e) \<Rightarrow> 'e rpc_server \<Rightarrow> 'a result \<times> 'e rpc_server" where
  "s_engine f s = (let (r, e) = f (sv_engine s) in (r, s\<lparr>sv_engine := e\<rparr>))"

definition s_done :: "bool \<Rightarrow> 'e rpc_server \<Rightarrow> unit result \<times> 'e rpc_server" where
  "s_done big = s_sends (bs_write_std_ubyte big SUCCESSFUL_DONE)"

text \<open>Every way of reporting an error: the octet and a message.\<close>

definition s_error :: "bool \<Rightarrow> byte list \<Rightarrow> 'e rpc_server \<Rightarrow> unit result \<times> 'e rpc_server" where
  "s_error big msg =
     bind_act (s_sends (bs_write_std_ubyte big EXCEPTION_THROWN)) (\<lambda>_. s_sends (bs_write_std_string big msg))"

definition compiling_disabled :: exn where
  "compiling_disabled = ZiguratException 7805 (''compiling over the network is disabled;'' @
     '' compile with the parsi program and let the server load the object,'' @
     '' or set COMPILER/REMOTE_MODE to TRUE if this instance is not exposed'')"

definition invalid_function :: "byte list \<Rightarrow> byte list" where
  "invalid_function function = ascii ''invalid function '' @ [39] @ function @ [39]"

text \<open>One function. The result is the function after it, whose name decides whether the loop goes on, and whether the
  branch breaks out of the loop.\<close>

definition handle_function ::
  "('e, 'h) engine \<Rightarrow> bool \<Rightarrow> memory \<Rightarrow> byte list \<Rightarrow> 'e rpc_server \<Rightarrow> (byte list \<times> bool) result \<times> 'e rpc_server" where
  "handle_function K big m function =
     (if function = ascii ''echo'' then
        bind_act (s_reads (bs_read_std_string big (hd (m 2)) (m 3))) (\<lambda>txt.
        bind_act (s_sends (bs_write_std_string big txt)) (\<lambda>_. pure_act (function, False)))
      else if function = ascii ''auto_commit'' then
        bind_act (s_reads (bs_read_std_bool big (hd (m 1)))) (\<lambda>auto_commit.
        bind_act (s_engine (e_set_autocommit K (auto_commit \<noteq> 0))) (\<lambda>_.
        bind_act (s_done big) (\<lambda>_. pure_act (function, False))))
      else if function = ascii ''isolate'' then
        bind_act (s_reads (bs_read_std_ubyte big (hd (m 1)))) (\<lambda>wire_level.
        bind_act (s_engine (e_isolate K wire_level)) (\<lambda>_.
        bind_act (s_done big) (\<lambda>_. pure_act (function, False))))
      else if function = ascii ''call'' then
        bind_act (s_reads (bs_read_std_string_ref big (hd (m 2)) (m 3) [])) (\<lambda>func_name.
        let func_name = e_library_path K @ ascii ''/lib_'' @ upper func_name @ ascii ''_.so'' in
        bind_act (s_engine (e_handle K func_name)) (\<lambda>handle.
        bind_act (s_done big) (\<lambda>_.
        bind_act (e_run K handle) (\<lambda>_.
        bind_act (\<lambda>s. if e_autocommit K (sv_engine s) then s_engine (e_commit K) s else pure_act () s) (\<lambda>_.
        bind_act (if e_cache_none K then s_engine (e_close K handle) else pure_act ()) (\<lambda>_.
        pure_act (function, False)))))))
      else if function = ascii ''compile'' then
        (if \<not> e_remote_mode K then fail_act compiling_disabled
         else
           bind_act (s_reads (bs_read_std_text_ref (nbo_read_std_ushort big (word_rcat (m 2))) (m 3) [])) (\<lambda>code.
           bind_act (s_engine (e_compile K code)) (\<lambda>_.
           bind_act (s_done big) (\<lambda>_. pure_act (function, False)))))
      else if function = ascii ''commit'' then
        bind_act (s_engine (e_commit K)) (\<lambda>_. bind_act (s_done big) (\<lambda>_. pure_act (function, False)))
      else if function = ascii ''rollback'' then
        bind_act (s_engine (e_rollback K)) (\<lambda>_. bind_act (s_done big) (\<lambda>_. pure_act (function, False)))
      else if function \<in> {ascii ''dba_pagefiles'', ascii ''dba_pointers'', ascii ''dba_attach_watcher'', ascii ''dba_detach_watcher''} then
        bind_act (e_dba K function) (\<lambda>_. pure_act (function, False))
      else if function = [] then pure_act (ascii ''close'', False)
      else if function = ascii ''close'' then pure_act (function, False)
      else bind_act (s_error big (invalid_function function)) (\<lambda>_. pure_act (function, True)))"

text \<open>What the three handlers make of an exception; what is undefined is no exception.\<close>

fun caught :: "exn \<Rightarrow> byte list option" where
  "caught (ZiguratException _ msg) = Some (ascii msg)"
| "caught (ArithmeticException msg) = Some (ascii msg)"
| "caught (EncodingException msg) = Some (ascii msg)"
| "caught (CryptographyException msg) = Some (ascii msg)"
| "caught NullException = Some (ascii ''unknown error'')"
| "caught _ = None"

partial_function (option) handle_loop ::
  "('e, 'h) engine \<Rightarrow> bool \<Rightarrow> (nat \<Rightarrow> memory) \<Rightarrow> nat \<Rightarrow> byte list \<Rightarrow> 'e rpc_server \<Rightarrow> 'e rpc_server run" where
  "handle_loop K big m i function s =
     (let (function, instream) = bs_read_std_string_ref big (hd (m i 0)) (m i 1) function (sv_in s);
          s = s\<lparr>sv_in := instream, sv_out := bs_write_std_ubyte big SUCCESSFUL_DONE (sv_out s)\<rparr>;
          function = lower function in
      case handle_function K big (m i) function s of
        (Inr (function, broke), s) \<Rightarrow>
          if broke \<or> function = ascii ''close'' then Some (Inr s) else handle_loop K big m (i + 1) function s
      | (Inl e, s) \<Rightarrow>
          (case caught e of None \<Rightarrow> Some (Inl e) | Some msg \<Rightarrow> Some (Inr (snd (s_error big msg s)))))"

definition handle_client_binary :: "('e, 'h) engine \<Rightarrow> bool \<Rightarrow> (nat \<Rightarrow> memory) \<Rightarrow> 'e rpc_server \<Rightarrow> 'e rpc_server run" where
  "handle_client_binary K big m s =
     (let (n, e) = e_transaction_id K (sv_engine s) in
      handle_loop K big m 0 [] (s\<lparr>sv_out := nbo_write_std_size big n (sv_out s), sv_engine := e\<rparr>))"

section \<open>Commands\<close>

text \<open>What a client asks for, what it gets, and what it does to the engine.\<close>

datatype command = Echo "byte list" | AutoCommit bool | Isolate byte | Compile "byte list" | Commit | Rollback

fun perform :: "bool \<Rightarrow> memory \<Rightarrow> command \<Rightarrow> connector \<Rightarrow> byte list result \<times> connector" where
  "perform big m (Echo t) = Connector_echo big m t"
| "perform big m (AutoCommit b) = bind_act (Connector_auto_commit big m b) (\<lambda>_. pure_act [])"
| "perform big m (Isolate l) = bind_act (Connector_isolate big m l) (\<lambda>_. pure_act [])"
| "perform big m (Compile code) = bind_act (Connector_compile big m code) (\<lambda>_. pure_act [])"
| "perform big m Commit = bind_act (Connector_commit big m) (\<lambda>_. pure_act [])"
| "perform big m Rollback = bind_act (Connector_rollback big m) (\<lambda>_. pure_act [])"

fun perform_all :: "bool \<Rightarrow> memory \<Rightarrow> command list \<Rightarrow> connector \<Rightarrow> byte list list result \<times> connector" where
  "perform_all big m [] = pure_act []"
| "perform_all big m (c # cs) =
     bind_act (perform big m c) (\<lambda>x. bind_act (perform_all big m cs) (\<lambda>xs. pure_act (x # xs)))"

fun answer :: "command \<Rightarrow> byte list" where
  "answer (Echo t) = t"
| "answer _ = []"

fun effect :: "('e, 'h) engine \<Rightarrow> command \<Rightarrow> 'e \<Rightarrow> unit result \<times> 'e" where
  "effect K (Echo t) e = (Inr (), e)"
| "effect K (AutoCommit b) e = e_set_autocommit K b e"
| "effect K (Isolate l) e = e_isolate K l e"
| "effect K (Compile code) e = (if e_remote_mode K then e_compile K code e else (Inl compiling_disabled, e))"
| "effect K Commit e = e_commit K e"
| "effect K Rollback e = e_rollback K e"

fun effects :: "('e, 'h) engine \<Rightarrow> command list \<Rightarrow> 'e \<Rightarrow> 'e option" where
  "effects K [] e = Some e"
| "effects K (c # cs) e = (case effect K c e of (Inl _, _) \<Rightarrow> None | (Inr _, e) \<Rightarrow> effects K cs e)"

fun sendable :: "command \<Rightarrow> bool" where
  "sendable (Echo t) \<longleftrightarrow> length t < 256"
| "sendable (Compile code) \<longleftrightarrow> length code < 65536"
| "sendable _ \<longleftrightarrow> True"

section \<open>What is sent for a command\<close>

definition packed_string :: "byte list \<Rightarrow> byte list" where
  "packed_string v = word_of_nat (length v) # v"

definition packed_text :: "byte list \<Rightarrow> byte list" where
  "packed_text v = be_octets 2 (word_of_nat (length v) :: 16 word) @ v"

fun command_name :: "command \<Rightarrow> byte list" where
  "command_name (Echo t) = ascii ''echo''"
| "command_name (AutoCommit b) = ascii ''auto_commit''"
| "command_name (Isolate l) = ascii ''isolate''"
| "command_name (Compile code) = ascii ''compile''"
| "command_name Commit = ascii ''commit''"
| "command_name Rollback = ascii ''rollback''"

fun command_args :: "command \<Rightarrow> byte list" where
  "command_args (Echo t) = packed_string t"
| "command_args (AutoCommit b) = [of_bool b]"
| "command_args (Isolate l) = [l]"
| "command_args (Compile code) = packed_text code"
| "command_args _ = []"

definition request :: "command \<Rightarrow> byte list" where
  "request c = packed_string (command_name c) @ command_args c"

fun response :: "command \<Rightarrow> byte list" where
  "response (Echo t) = packed_string t"
| "response _ = [SUCCESSFUL_DONE]"

definition reply :: "command \<Rightarrow> byte list" where
  "reply c = SUCCESSFUL_DONE # response c"

section \<open>Running an action\<close>

definition runs :: "('s \<Rightarrow> bool) \<Rightarrow> ('s \<Rightarrow> 'a result \<times> 's) \<Rightarrow> 'a \<Rightarrow> ('s \<Rightarrow> bool) \<Rightarrow> bool" where
  "runs R f x R' \<longleftrightarrow> (\<forall>s. R s \<longrightarrow> (\<exists>s'. f s = (Inr x, s') \<and> R' s'))"

lemma runs_bind: "runs R f x R1 \<Longrightarrow> runs R1 (g x) y R2 \<Longrightarrow> runs R (bind_act f g) y R2"
  unfolding runs_def bind_act_def by fastforce

lemma runs_pure: "runs R (pure_act x) x R"
  by (simp add: runs_def pure_act_def)

definition linked :: "64 word \<Rightarrow> byte list \<Rightarrow> stream \<Rightarrow> connector \<Rightarrow> bool" where
  "linked n i w c \<longleftrightarrow> cn_transaction_id c = n \<and> (\<exists>l. cn_stream c = Some l \<and> readable (lk_in l) \<and> rest (lk_in l) = i \<and> lk_out l = w)"

definition serving :: "byte list \<Rightarrow> stream \<Rightarrow> 'e \<Rightarrow> 'e rpc_server \<Rightarrow> bool" where
  "serving i w e s \<longleftrightarrow> readable (sv_in s) \<and> rest (sv_in s) = i \<and> sv_out s = w \<and> sv_engine s = e"

lemma runs_sending: "runs (linked n i w) (sending f) () (linked n i (f w))"
  by (auto simp: runs_def linked_def sending_def)

lemma runs_receiving:
  assumes "\<And>s. readable s \<Longrightarrow> rest s = i \<Longrightarrow> \<exists>t. rd s = (x, t) \<and> readable t \<and> rest t = i'"
  shows "runs (linked n i w) (receiving rd) x (linked n i' w)"
proof -
  have "\<exists>c'. receiving rd c = (Inr x, c') \<and> linked n i' w c'" if "linked n i w c" for c
  proof -
    from that obtain l where l: "cn_transaction_id c = n" "cn_stream c = Some l" "readable (lk_in l)" "rest (lk_in l) = i" "lk_out l = w"
      by (auto simp: linked_def)
    obtain t where "rd (lk_in l) = (x, t)" "readable t" "rest t = i'" using assms [OF l(3,4)] by blast
    then show ?thesis using l by (auto simp: receiving_def linked_def)
  qed
  then show ?thesis by (simp add: runs_def)
qed

lemma runs_s_sends: "runs (serving i w e) (s_sends f) () (serving i (f w) e)"
  by (auto simp: runs_def serving_def s_sends_def)

lemma runs_s_reads:
  assumes "\<And>s. readable s \<Longrightarrow> rest s = i \<Longrightarrow> \<exists>t. rd s = (x, t) \<and> readable t \<and> rest t = i'"
  shows "runs (serving i w e) (s_reads rd) x (serving i' w e)"
proof -
  have "\<exists>s'. s_reads rd s = (Inr x, s') \<and> serving i' w e s'" if "serving i w e s" for s
  proof -
    have r: "readable (sv_in s)" "rest (sv_in s) = i" using that by (simp_all add: serving_def)
    obtain t where "rd (sv_in s) = (x, t)" "readable t" "rest t = i'" using assms [OF r] by blast
    then show ?thesis using that by (auto simp: s_reads_def serving_def)
  qed
  then show ?thesis by (simp add: runs_def)
qed

lemma runs_s_engine: "f e = (Inr x, e') \<Longrightarrow> runs (serving i w e) (s_engine f) x (serving i w e')"
  by (auto simp: runs_def serving_def s_engine_def)

text \<open>The objects of the protocol.\<close>

lemma reads_octet:
  "readable s \<Longrightarrow> rest s = t # i \<Longrightarrow> \<exists>u. bs_read_std_ubyte big old s = (t, u) \<and> readable u \<and> rest u = i"
  using b_tdb.rd_rep [of s t i] by simp

lemma reads_bool:
  "readable s \<Longrightarrow> rest s = t # i \<Longrightarrow> \<exists>u. bs_read_std_bool big old s = (t, u) \<and> readable u \<and> rest u = i"
  using reads_octet [of s t i big old] by (simp add: bs_read_std_bool_def bs_read_std_ubyte_def)

lemma reads_string_ref:
  "readable s \<Longrightarrow> rest s = packed_string v @ i \<Longrightarrow> length v < 256 \<Longrightarrow>
    \<exists>u. bs_read_std_string_ref big old stack x s = (v, u) \<and> readable u \<and> rest u = i"
  by (rule read_string_ok) (simp_all add: packed_string_def)

lemma read_string_same: "bs_read_std_string big old stack s = bs_read_std_string_ref big old stack [] s"
  by (cases "bs_read_std_ubyte big old s") (simp add: bs_read_std_string_def bs_read_std_string_ref_def)

lemma reads_string:
  "readable s \<Longrightarrow> rest s = packed_string v @ i \<Longrightarrow> length v < 256 \<Longrightarrow>
    \<exists>u. bs_read_std_string big old stack s = (v, u) \<and> readable u \<and> rest u = i"
  using reads_string_ref [of s v i big old stack "[]"] by (simp add: read_string_same)

lemma reads_text_ref:
  assumes "readable s" and "rest s = packed_text v @ i" and "length v < 65536"
  shows "\<exists>u. bs_read_std_text_ref (nbo_read_std_ushort big old) stack x s = (v, u) \<and> readable u \<and> rest u = i"
  using read_text_ok [of v s "Network big" i old stack x] assms by (simp add: packed_text_def size_of_def)

lemma writes_octet: "bs_write_std_ubyte big t s = swrite [t] s" "bs_write_std_bool big t s = swrite [t] s"
  by (rule b_tdb.wr_rep b_bool.wr_rep)+

lemma writes_string: "length v < 256 \<Longrightarrow> bs_write_std_string big v s = swrite (packed_string v) s"
  by (simp add: write_string_ok packed_string_def)

lemma writes_text: "length v < 65536 \<Longrightarrow> bs_write_std_text (nbo_write_std_ushort big) v s = swrite (packed_text v) s"
  using write_text_ok [of v "Network big" s] by (simp add: packed_text_def size_of_def)

section \<open>The client's side\<close>

lemma runs_octet: "runs (linked n (t # i) w) (receiving (bs_read_std_ubyte big old)) t (linked n i w)"
  by (rule runs_receiving) (rule reads_octet)

lemma runs_expect_done: "runs (linked n (SUCCESSFUL_DONE # i) w) (expect_done big m) () (linked n i w)"
proof -
  have "runs (linked n (SUCCESSFUL_DONE # i) w) (Connector_result big m) SUCCESSFUL_DONE (linked n i w)"
    unfolding Connector_result_def
    by (rule runs_bind [OF runs_octet]) (simp add: SUCCESSFUL_DONE_def EXCEPTION_THROWN_def runs_pure)
  moreover have "runs (linked n i w) (if SUCCESSFUL_DONE \<noteq> SUCCESSFUL_DONE then throw_message big m else pure_act ()) ()
      (linked n i w)"
    by (simp add: runs_pure)
  ultimately show ?thesis unfolding expect_done_def by (rule runs_bind)
qed

lemma command_name_short: "length (command_name c) < 256"
  by (cases c) (simp_all add: ascii_def)

lemma runs_function:
  assumes "length f < 256"
  shows "runs (linked n (SUCCESSFUL_DONE # i) w) (Connector_function big m f) () (linked n i (swrite (packed_string f) w))"
  unfolding Connector_function_def writes_string [OF assms] by (rule runs_bind [OF runs_sending runs_expect_done])

lemma runs_perform:
  assumes "sendable c"
  shows "runs (linked n (reply c @ i) w) (perform big m c) (answer c) (linked n i (swrite (request c) w))"
proof -
  note name = runs_function [OF command_name_short [of c], of n "response c @ i" w big m]
  have swr: "swrite (request c) w = swrite (command_args c) (swrite (packed_string (command_name c)) w)"
    by (simp add: request_def swrite_append_eq)
  show ?thesis
  proof (cases c)
    case (Echo t)
    have "runs (linked n (packed_string t @ i) v) (read_std_string big m) t (linked n i v)" for v
      using assms Echo unfolding read_std_string_def by (intro runs_receiving reads_string) simp_all
    then show ?thesis
      using assms Echo name unfolding swr
      by (auto simp: Connector_echo_def writes_string reply_def intro!: runs_bind runs_sending)
  qed (use assms name swr in \<open>auto simp: Connector_auto_commit_def Connector_isolate_def Connector_compile_def
      Connector_commit_def Connector_rollback_def writes_octet writes_text reply_def
      intro!: runs_bind runs_sending runs_expect_done runs_pure\<close>)
qed

lemma perform_all_runs:
  "\<forall>c \<in> set cs. sendable c \<Longrightarrow>
    runs (linked n (concat (map reply cs) @ i) w) (perform_all big m cs) (map answer cs)
      (linked n i (swrite (concat (map request cs)) w))"
proof (induction cs arbitrary: w)
  case Nil
  then show ?case by (simp add: runs_pure)
next
  case (Cons c cs)
  have one: "runs (linked n (reply c @ (concat (map reply cs) @ i)) w) (perform big m c) (answer c)
      (linked n (concat (map reply cs) @ i) (swrite (request c) w))"
    using Cons.prems by (intro runs_perform) simp
  have two: "runs (linked n (concat (map reply cs) @ i) (swrite (request c) w)) (perform_all big m cs) (map answer cs)
      (linked n i (swrite (concat (map request cs)) (swrite (request c) w)))"
    using Cons by simp
  have "runs (linked n (reply c @ (concat (map reply cs) @ i)) w) (perform_all big m (c # cs)) (map answer (c # cs))
      (linked n i (swrite (concat (map request cs)) (swrite (request c) w)))"
    unfolding perform_all.simps list.map by (rule runs_bind [OF one runs_bind [OF two runs_pure]])
  then show ?case by (simp add: swrite_append_eq)
qed

section \<open>The server's side\<close>

lemma lower_command: "lower (command_name c) = command_name c"
  by (cases c) (simp_all add: lower_ascii to_lower_map lower_char_def)

lemma runs_s_string:
  "length v < 256 \<Longrightarrow>
    runs (serving (packed_string v @ i) w e) (s_reads (bs_read_std_string big old stack)) v (serving i w e)"
  by (rule runs_s_reads) (rule reads_string)

lemma runs_s_octet: "runs (serving (t # i) w e) (s_reads (bs_read_std_ubyte big old)) t (serving i w e)"
  by (rule runs_s_reads) (rule reads_octet)

lemma runs_s_bool: "runs (serving (t # i) w e) (s_reads (bs_read_std_bool big old)) t (serving i w e)"
  by (rule runs_s_reads) (rule reads_bool)

lemma runs_s_text:
  "length v < 65536 \<Longrightarrow>
    runs (serving (packed_text v @ i) w e) (s_reads (bs_read_std_text_ref (nbo_read_std_ushort big old) stack x)) v (serving i w e)"
  by (rule runs_s_reads) (rule reads_text_ref)

lemma runs_s_done: "runs (serving i w e) (s_done big) () (serving i (swrite [SUCCESSFUL_DONE] w) e)"
  using runs_s_sends [of i w e "bs_write_std_ubyte big SUCCESSFUL_DONE"] by (simp add: s_done_def writes_octet)

lemma runs_s_write:
  "length v < 256 \<Longrightarrow> runs (serving i w e) (s_sends (bs_write_std_string big v)) () (serving i (swrite (packed_string v) w) e)"
  using runs_s_sends [of i w e "bs_write_std_string big v"] by (simp add: writes_string)

lemma runs_handle:
  assumes "sendable c" and "effect K c e = (Inr (), e')"
  shows "runs (serving (command_args c @ i) w e) (handle_function K big m (command_name c)) (command_name c, False)
    (serving i (swrite (response c) w) e')"
proof (cases c)
  case (Echo t)
  then show ?thesis
    using assms by (auto simp: handle_function_def intro!: runs_bind [OF runs_s_string] runs_bind [OF runs_s_write] runs_pure)
next
  case (AutoCommit b)
  then have "e_set_autocommit K (of_bool b \<noteq> (0 :: byte)) e = (Inr (), e')" using assms by simp
  then show ?thesis
    using AutoCommit by (auto simp: handle_function_def
      intro!: runs_bind [OF runs_s_bool] runs_bind [OF runs_s_engine] runs_bind [OF runs_s_done] runs_pure)
next
  case (Compile code)
  then have "e_remote_mode K" "e_compile K code e = (Inr (), e')" using assms by (simp_all split: if_splits)
  then show ?thesis
    using Compile assms by (auto simp: handle_function_def
      intro!: runs_bind [OF runs_s_text] runs_bind [OF runs_s_engine] runs_bind [OF runs_s_done] runs_pure)
qed (use assms in \<open>auto simp: handle_function_def
    intro!: runs_bind [OF runs_s_octet] runs_bind [OF runs_s_engine] runs_bind [OF runs_s_done] runs_pure\<close>)

text \<open>One round of the loop.\<close>

lemma loop_round:
  assumes "sendable c" and "effect K c e = (Inr (), e')" and "serving (request c @ i) w e s"
  shows "\<exists>s'. handle_loop K big m n f s = handle_loop K big m (n + 1) (command_name c) s' \<and>
    serving i (swrite (reply c) w) e' s'"
proof -
  have s: "readable (sv_in s)" "rest (sv_in s) = packed_string (command_name c) @ (command_args c @ i)"
    using assms(3) by (simp_all add: serving_def request_def)
  obtain u where u: "bs_read_std_string_ref big (hd (m n 0)) (m n 1) f (sv_in s) = (command_name c, u)"
      "readable u" "rest u = command_args c @ i"
    using reads_string_ref [OF s command_name_short] by blast
  let ?s = "s\<lparr>sv_in := u, sv_out := bs_write_std_ubyte big SUCCESSFUL_DONE (sv_out s)\<rparr>"
  have "serving (command_args c @ i) (swrite [SUCCESSFUL_DONE] w) e ?s"
    using assms(3) u by (simp add: serving_def writes_octet)
  then obtain s' where s': "handle_function K big (m n) (command_name c) ?s = (Inr (command_name c, False), s')"
      "serving i (swrite (response c) (swrite [SUCCESSFUL_DONE] w)) e' s'"
    using runs_handle [OF assms(1,2), of i "swrite [SUCCESSFUL_DONE] w" big "m n"] unfolding runs_def by blast
  have "command_name c \<noteq> ascii ''close''" by (cases c) simp_all
  then have "handle_loop K big m n f s = handle_loop K big m (n + 1) (command_name c) s'"
    using u(1) s'(1) by (subst handle_loop.simps) (simp add: lower_command)
  then show ?thesis using s'(2) by (auto simp: reply_def swrite_append_eq)
qed

lemma loop_rounds:
  assumes "\<forall>c \<in> set cs. sendable c" and "effects K cs e = Some e'" and "serving (concat (map request cs) @ i) w e s"
  shows "\<exists>f' s'. handle_loop K big m n f s = handle_loop K big m (n + length cs) f' s' \<and>
    serving i (swrite (concat (map reply cs)) w) e' s'"
  using assms
proof (induction cs arbitrary: e w s n f)
  case Nil
  then show ?case by auto
next
  case (Cons c cs)
  then obtain e1 where e1: "effect K c e = (Inr (), e1)" "effects K cs e1 = Some e'"
    by (auto split: prod.splits sum.splits)
  have "serving (request c @ (concat (map request cs) @ i)) w e s" using Cons.prems by simp
  from loop_round [OF _ e1(1) this, of big m n f] obtain s1 where
    s1: "handle_loop K big m n f s = handle_loop K big m (n + 1) (command_name c) s1"
      "serving (concat (map request cs) @ i) (swrite (reply c) w) e1 s1"
    using Cons.prems by auto
  from Cons.IH [OF _ e1(2) s1(2), of "n + 1" "command_name c"] show ?case
    using s1(1) Cons.prems by (auto simp: swrite_append_eq)
qed

section \<open>The conversation\<close>

lemma data_swrite_new: "data (swrite bs (new_stream [])) = bs"
  by simp

lemma opened_link:
  assumes "connect host service blocking timeout = Inr l" and "readable (lk_in l)"
    and "rest (lk_in l) = be_octets 8 n @ i" and "lk_out l = w"
  shows "\<exists>c. Connector_open_plain connect big m host service blocking timeout new_connector = (Inr (), c) \<and> linked n i w c"
  using assms nbo_size.rd_rep [of "lk_in l" n i big "word_rcat (m 1)"]
  by (auto simp: Connector_open_plain_def Connector_is_open_def new_connector_def read_transaction_id_def bind_act_def
      receiving_def linked_def size_of_def)

lemma opened_server:
  assumes "e_transaction_id K e0 = (n, e)" and "serving i w e0 s"
  shows "\<exists>s'. handle_client_binary K big m s = handle_loop K big m 0 [] s' \<and> serving i (swrite (be_octets 8 n) w) e s'"
  using assms nbo_size.wr_rep [of big n w] by (auto simp: handle_client_binary_def serving_def size_of_def)

text \<open>C30. A client that connects and performs any commands, and the server at the other end, understand each other: there
  are octets each way such that the client writes what the server takes and the server writes what the client takes;
  the client has the transaction of the connection and the answer of every command, the engine has run every command in
  order, and both streams are where they were for what follows. The hosts may differ in byte order.\<close>

theorem rpc_conversation:
  fixes K :: "('e, 'h) engine"
  assumes "\<forall>c \<in> set cs. sendable c" and "e_transaction_id K e0 = (n, e)" and "effects K cs e = Some e'"
  shows "\<exists>sent received.
    (\<forall>connect host service blocking timeout l.
      connect host service blocking timeout = Inr l \<and> readable (lk_in l) \<and> rest (lk_in l) = received @ i \<and>
      lk_out l = new_stream [] \<longrightarrow>
      (\<exists>c' l'. bind_act (Connector_open_plain connect big m host service blocking timeout)
          (\<lambda>_. perform_all big m cs) new_connector = (Inr (map answer cs), c') \<and>
        cn_transaction_id c' = n \<and> cn_stream c' = Some l' \<and> rest (lk_in l') = i \<and> data (lk_out l') = sent)) \<and>
    (\<forall>s. readable (sv_in s) \<and> rest (sv_in s) = sent @ j \<and> sv_out s = new_stream [] \<and> sv_engine s = e0 \<longrightarrow>
      (\<exists>f' s'. handle_client_binary K big' m' s = handle_loop K big' m' (length cs) f' s' \<and>
        rest (sv_in s') = j \<and> data (sv_out s') = received \<and> sv_engine s' = e'))"
proof (rule exI [of _ "concat (map request cs)"], rule exI [of _ "be_octets 8 n @ concat (map reply cs)"], rule conjI;
    intro allI impI; elim conjE)
  let ?sent = "concat (map request cs)" and ?received = "be_octets 8 n @ concat (map reply cs)"
  fix connect :: "byte list \<Rightarrow> byte list \<Rightarrow> bool \<Rightarrow> 32 word \<Rightarrow> link result" and host service blocking timeout l
  assume l: "connect host service blocking timeout = Inr l" "readable (lk_in l)" "rest (lk_in l) = ?received @ i"
    "lk_out l = new_stream []"
  from opened_link [where connect = connect and host = host and service = service and blocking = blocking and
      timeout = timeout, OF l(1,2) _ l(4), of n "concat (map reply cs) @ i" big m] l(3) obtain c where
    c: "Connector_open_plain connect big m host service blocking timeout new_connector = (Inr (), c)"
      "linked n (concat (map reply cs) @ i) (new_stream []) c" by auto
  from perform_all_runs [OF assms(1), of n i "new_stream []" big m] c(2) obtain c' where
    c': "perform_all big m cs c = (Inr (map answer cs), c')" "linked n i (swrite ?sent (new_stream [])) c'"
    unfolding runs_def by blast
  then show "\<exists>c' l'. bind_act (Connector_open_plain connect big m host service blocking timeout)
          (\<lambda>_. perform_all big m cs) new_connector = (Inr (map answer cs), c') \<and>
        cn_transaction_id c' = n \<and> cn_stream c' = Some l' \<and> rest (lk_in l') = i \<and> data (lk_out l') = ?sent"
    using c(1) data_swrite_new [of ?sent] by (auto simp: bind_act_def linked_def)
next
  let ?sent = "concat (map request cs)" and ?received = "be_octets 8 n @ concat (map reply cs)"
  fix s :: "'e rpc_server"
  assume s: "readable (sv_in s)" "rest (sv_in s) = ?sent @ j" "sv_out s = new_stream []" "sv_engine s = e0"
  from opened_server [OF assms(2), of "?sent @ j" "new_stream []" s big' m'] s obtain s1 where
    s1: "handle_client_binary K big' m' s = handle_loop K big' m' 0 [] s1"
      "serving (?sent @ j) (swrite (be_octets 8 n) (new_stream [])) e s1" by (auto simp: serving_def)
  from loop_rounds [OF assms(1,3) s1(2), of big' m' 0 "[]"] obtain f' s' where
    "handle_loop K big' m' 0 [] s1 = handle_loop K big' m' (length cs) f' s'"
      "serving j (swrite (concat (map reply cs)) (swrite (be_octets 8 n) (new_stream []))) e' s'" by auto
  then show "\<exists>f' s'. handle_client_binary K big' m' s = handle_loop K big' m' (length cs) f' s' \<and>
        rest (sv_in s') = j \<and> data (sv_out s') = ?received \<and> sv_engine s' = e'"
    using s1(1) data_swrite_new [of ?received] unfolding swrite_append_eq serving_def by metis
qed

text \<open>An engine for the witnesses: a log of what it was asked.\<close>

definition log_engine :: "bool \<Rightarrow> (byte list list, unit) engine" where
  "log_engine remote = \<lparr>e_transaction_id = (\<lambda>l. (7, l)), e_set_autocommit = (\<lambda>b l. (Inr (), [of_bool b] # l)),
     e_isolate = (\<lambda>v l. (Inr (), [v] # l)), e_commit = (\<lambda>l. (Inr (), [1, 1] # l)), e_rollback = (\<lambda>l. (Inr (), [2, 2] # l)),
     e_autocommit = (\<lambda>l. False), e_compile = (\<lambda>code l. (Inr (), code # l)), e_remote_mode = remote, e_library_path = [],
     e_cache_none = False, e_handle = (\<lambda>f l. (Inr (), l)), e_run = (\<lambda>h s. (Inr (), s)), e_close = (\<lambda>h l. (Inr (), l)),
     e_dba = (\<lambda>f s. (Inr (), s))\<rparr>"

lemma rpc_conversation_witness:
  "\<exists>sent received c' l'.
      bind_act (Connector_open_plain (\<lambda>_ _ _ _. Inr \<lparr>lk_secure = False, lk_open = True, lk_in = new_stream received,
          lk_out = new_stream []\<rparr>) True (\<lambda>_. []) [] [] True 0)
        (\<lambda>_. perform_all True (\<lambda>_. []) [AutoCommit True, Echo [104, 105], Commit]) new_connector = (Inr [[], [104, 105], []], c') \<and>
      cn_transaction_id c' = 7 \<and> cn_stream c' = Some l' \<and> data (lk_out l') = sent"
proof -
  let ?cs = "[AutoCommit True, Echo [104, 105], Commit]" and ?K = "log_engine True"
  have p: "\<forall>c \<in> set ?cs. sendable c" "e_transaction_id ?K [] = (7, [])" "effects ?K ?cs [] = Some [[1, 1], [1]]"
    by (simp_all add: log_engine_def)
  from rpc_conversation [OF p, of "[]" True "\<lambda>_. []" "[]" True "\<lambda>_ _. []"] obtain sent received where
    r: "\<forall>connect host service blocking timeout l.
      connect host service blocking timeout = Inr l \<and> readable (lk_in l) \<and> rest (lk_in l) = received @ [] \<and>
      lk_out l = new_stream [] \<longrightarrow>
      (\<exists>c' l'. bind_act (Connector_open_plain connect True (\<lambda>_. []) host service blocking timeout)
          (\<lambda>_. perform_all True (\<lambda>_. []) ?cs) new_connector = (Inr (map answer ?cs), c') \<and>
        cn_transaction_id c' = 7 \<and> cn_stream c' = Some l' \<and> rest (lk_in l') = [] \<and> data (lk_out l') = sent)"
    by (elim exE conjE) (rule that)
  show ?thesis
    using r [rule_format, of "\<lambda>_ _ _ _. Inr \<lparr>lk_secure = False, lk_open = True, lk_in = new_stream received,
          lk_out = new_stream []\<rparr>" "[]" "[]" True 0 "\<lparr>lk_secure = False, lk_open = True, lk_in = new_stream received,
          lk_out = new_stream []\<rparr>"] by (simp del: perform_all.simps) blast
qed

section \<open>Errors\<close>

definition raises :: "('s \<Rightarrow> bool) \<Rightarrow> ('s \<Rightarrow> 'a result \<times> 's) \<Rightarrow> exn \<Rightarrow> ('s \<Rightarrow> bool) \<Rightarrow> bool" where
  "raises R f e R' \<longleftrightarrow> (\<forall>s. R s \<longrightarrow> (\<exists>s'. f s = (Inl e, s') \<and> R' s'))"

lemma raises_bind: "raises R f e R' \<Longrightarrow> raises R (bind_act f g) e R'"
  unfolding raises_def bind_act_def by fastforce

lemma runs_raises: "runs R f x R1 \<Longrightarrow> raises R1 (g x) e R2 \<Longrightarrow> raises R (bind_act f g) e R2"
  unfolding runs_def raises_def bind_act_def by fastforce

lemma raises_fail: "raises R (fail_act e) e R"
  by (simp add: raises_def fail_act_def)

lemma raises_s_engine: "f e = (Inl x, e') \<Longrightarrow> raises (serving i w e) (s_engine f) x (serving i w e')"
  by (auto simp: raises_def serving_def s_engine_def)

lemma raises_expect_done:
  assumes "length msg < 256"
  shows "raises (linked n (EXCEPTION_THROWN # packed_string msg @ i) w) (expect_done big m) (ConnectorException msg) (linked n i w)"
proof -
  have "runs (linked n (packed_string msg @ i) w) (read_std_string big m) msg (linked n i w)"
    using assms unfolding read_std_string_def by (intro runs_receiving reads_string)
  then have "raises (linked n (packed_string msg @ i) w) (throw_message big m :: connector \<Rightarrow> byte result \<times> connector)
      (ConnectorException msg) (linked n i w)"
    unfolding throw_message_def by (rule runs_raises) (rule raises_fail)
  then have "raises (linked n (EXCEPTION_THROWN # packed_string msg @ i) w) (Connector_result big m) (ConnectorException msg)
      (linked n i w)"
    unfolding Connector_result_def by (intro runs_raises [OF runs_octet]) simp
  then show ?thesis unfolding expect_done_def by (rule raises_bind)
qed

text \<open>What of its arguments the server has read when a command fails: of a refused compilation, nothing.\<close>

fun unread :: "('e, 'h) engine \<Rightarrow> command \<Rightarrow> byte list" where
  "unread K (Compile code) = (if e_remote_mode K then [] else packed_text code)"
| "unread K _ = []"

definition error_reply :: "byte list \<Rightarrow> byte list" where
  "error_reply msg = [SUCCESSFUL_DONE, EXCEPTION_THROWN] @ packed_string msg"

lemma raises_call:
  assumes "length f < 256" and "length msg < 256"
  shows "raises (linked n (error_reply msg @ i) w) (bind_act (Connector_function big m f) (\<lambda>_. expect_done big m))
      (ConnectorException msg) (linked n i (swrite (packed_string f) w))"
    and "raises (linked n (error_reply msg @ i) w)
      (bind_act (Connector_function big m f) (\<lambda>_. bind_act (sending ws) (\<lambda>_. expect_done big m)))
      (ConnectorException msg) (linked n i (ws (swrite (packed_string f) w)))"
  using runs_raises [OF runs_function [OF assms(1)] raises_expect_done [OF assms(2)]]
    runs_raises [OF runs_function [OF assms(1)] runs_raises [OF runs_sending raises_expect_done [OF assms(2)]]]
  by (simp_all add: error_reply_def)

lemma raises_perform:
  assumes "sendable c" and "effect K c e = (Inl ex, e')" and "length msg < 256"
  shows "raises (linked n (error_reply msg @ i) w) (perform big m c) (ConnectorException msg) (linked n i (swrite (request c) w))"
proof -
  have swr: "swrite (request c) w = swrite (command_args c) (swrite (packed_string (command_name c)) w)"
    by (simp add: request_def swrite_append_eq)
  note call = raises_call [OF command_name_short [of c] assms(3), of n i w big m]
  note defs = perform.simps command_name.simps command_args.simps writes_octet
  show ?thesis
  proof (cases c)
    case (AutoCommit b)
    from raises_bind [OF call(2) [of "bs_write_std_bool big (of_bool b)"]] show ?thesis
      unfolding swr unfolding AutoCommit defs Connector_auto_commit_def .
  next
    case (Isolate l)
    from raises_bind [OF call(2) [of "bs_write_std_ubyte big l"]] show ?thesis
      unfolding swr unfolding Isolate defs Connector_isolate_def .
  next
    case (Compile code)
    then have "length code < 65536" using assms(1) by simp
    with raises_bind [OF call(2) [of "bs_write_std_text (nbo_write_std_ushort big) code"]] show ?thesis
      unfolding swr unfolding Compile defs Connector_compile_def by (simp only: writes_text)
  next
    case Commit
    from raises_bind [OF call(1)] show ?thesis
      unfolding swr unfolding Commit defs Connector_commit_def by (simp add: swrite_def)
  next
    case Rollback
    from raises_bind [OF call(1)] show ?thesis
      unfolding swr unfolding Rollback defs Connector_rollback_def by (simp add: swrite_def)
  qed (use assms(2) in simp)
qed

lemma raises_handle:
  assumes "sendable c" and "effect K c e = (Inl ex, e')"
  shows "raises (serving (command_args c @ i) w e) (handle_function K big m (command_name c)) ex (serving (unread K c @ i) w e')"
proof (cases c)
  case (AutoCommit b)
  then show ?thesis
    by (cases b; use assms in \<open>simp add: handle_function_def\<close>;
      intro runs_raises [OF runs_s_bool] raises_bind raises_s_engine; simp)
next
  case (Isolate l)
  then have "e_isolate K l e = (Inl ex, e')" using assms by simp
  then have "raises (serving (l # i) w e) (handle_function K big m (command_name c)) ex (serving i w e')"
    unfolding Isolate by (simp add: handle_function_def) (intro runs_raises [OF runs_s_octet] raises_bind raises_s_engine)
  then show ?thesis unfolding Isolate by simp
next
  case (Compile code)
  show ?thesis
  proof (cases "e_remote_mode K")
    case True
    then have "e_compile K code e = (Inl ex, e')" "length code < 65536" using assms Compile by simp_all
    then show ?thesis
      by (simp add: handle_function_def Compile True;
        intro runs_raises [OF runs_s_text] raises_bind raises_s_engine; simp)
  next
    case False
    then show ?thesis using Compile assms raises_fail by (simp add: handle_function_def)
  qed
next
  case Commit
  then have "e_commit K e = (Inl ex, e')" using assms by simp
  then have "raises (serving i w e) (handle_function K big m (command_name c)) ex (serving i w e')"
    unfolding Commit by (simp add: handle_function_def) (intro raises_bind raises_s_engine)
  then show ?thesis unfolding Commit by simp
next
  case Rollback
  then have "e_rollback K e = (Inl ex, e')" using assms by simp
  then have "raises (serving i w e) (handle_function K big m (command_name c)) ex (serving i w e')"
    unfolding Rollback by (simp add: handle_function_def) (intro raises_bind raises_s_engine)
  then show ?thesis unfolding Rollback by simp
qed (use assms in simp)


lemma caught_disabled: "\<exists>msg. caught compiling_disabled = Some msg \<and> length msg < 256"
  by (simp add: compiling_disabled_def ascii_def)


end
