(* ===== verification/RPC_Pool.thy ===== *)
theory RPC_Pool
  imports Connector
begin

text \<open>
  \<open>Connector/rpcpool.cpp\<close>: the connections that outlive the request that opened them, by the transaction they carry.
  A connection is an address, its \<open>shared_ptr\<close>, in \<open>rp_connections\<close>, so that a handle a visitor has kept names the
  same connection as the pool does. What runs under the lock is one step; \<open>open\<close> is two, before the lock and under it.
\<close>

section \<open>The pool\<close>

record entry =
  en_connection :: nat
  en_owner :: "byte list"

record rpc_pool =
  rp_entries :: "(byte list \<times> entry) list"
  rp_connections :: "connector list"

definition LIMIT :: nat where "LIMIT = 256"

definition RPCPool_owner :: "byte list \<Rightarrow> byte list \<Rightarrow> byte list result" where
  "RPCPool_owner peer_subject session_id =
     (if peer_subject \<noteq> [] then Inr (ascii ''peer:'' @ peer_subject)
      else if session_id \<noteq> [] then Inr (ascii ''session:'' @ session_id)
      else Inl (ZiguratException 7807 (''no identity for this request: over mutual TLS the client'' @
        '' certificate names the owner, otherwise call'' @ '' Session::INITIALIZE(request, response) first'')))"

text \<open>\<open>open\<close> before the lock: \<open>dial\<close> is \<open>Connector::open\<close>. A connection that cannot be made is gone with its object.\<close>

definition RPCPool_connect ::
  "(connector \<Rightarrow> unit result \<times> connector) \<Rightarrow> byte list \<Rightarrow> rpc_pool \<Rightarrow> nat result \<times> rpc_pool" where
  "RPCPool_connect dial owner p =
     (if owner = [] then (Inl (ZiguratException 7807 ''cannot open a transaction for nobody''), p)
      else case dial new_connector of
        (Inl e, c) \<Rightarrow> (Inl e, p)
      | (Inr _, c) \<Rightarrow> (Inr (length (rp_connections p)), p\<lparr>rp_connections := rp_connections p @ [c]\<rparr>))"

definition close_connection :: "nat \<Rightarrow> rpc_pool \<Rightarrow> rpc_pool" where
  "close_connection a p = p\<lparr>rp_connections := (rp_connections p)[a := Connector_close (rp_connections p ! a)]\<rparr>"

text \<open>The rest of \<open>open\<close>, under the lock.\<close>

definition RPCPool_enter :: "nat \<Rightarrow> byte list \<Rightarrow> rpc_pool \<Rightarrow> byte list result \<times> rpc_pool" where
  "RPCPool_enter connection owner p =
     (let transaction = std_to_string (uint (Connector_transaction_id (rp_connections p ! connection))) in
      if length (rp_entries p) \<ge> LIMIT then
        (Inl (ZiguratException 7808 ''too many open transactions; commit or roll back the ones you hold''),
         close_connection connection p)
      else if map_of (rp_entries p) transaction \<noteq> None then
        (Inl (ZiguratException 7808 (''transaction '' @ text_of transaction @ '' is already open'')), close_connection connection p)
      else
        (Inr transaction, p\<lparr>rp_entries := (transaction, \<lparr>en_connection = connection, en_owner = owner\<rparr>) # rp_entries p\<rparr>))"

definition RPCPool_open ::
  "(connector \<Rightarrow> unit result \<times> connector) \<Rightarrow> byte list \<Rightarrow> rpc_pool \<Rightarrow> byte list result \<times> rpc_pool" where
  "RPCPool_open dial owner =
     bind_act (RPCPool_connect dial owner) (\<lambda>connection. RPCPool_enter connection owner)"

definition RPCPool_held :: "byte list \<Rightarrow> byte list \<Rightarrow> rpc_pool \<Rightarrow> nat result" where
  "RPCPool_held transaction owner p =
     (if transaction = [] then Inl (ZiguratException 7809 ''no transaction named'')
      else case map_of (rp_entries p) transaction of
        None \<Rightarrow> Inl (ZiguratException 7809 ''no such transaction: it was committed, rolled back, or never opened'')
      | Some found \<Rightarrow>
          if en_owner found \<noteq> owner then Inl (ZiguratException 7809 ''that transaction belongs to another session'')
          else Inr (en_connection found))"

definition RPCPool_ref :: "nat option \<Rightarrow> nat result" where
  "RPCPool_ref handle =
     (case handle of None \<Rightarrow> Inl (ZiguratException 7809 ''no connection: this handle names nothing'') | Some a \<Rightarrow> Inr a)"

definition RPCPool_release :: "byte list \<Rightarrow> rpc_pool \<Rightarrow> rpc_pool" where
  "RPCPool_release transaction p =
     (case map_of (rp_entries p) transaction of
        None \<Rightarrow> p
      | Some found \<Rightarrow>
          (let p = close_connection (en_connection found) p
           in p\<lparr>rp_entries := filter (\<lambda>(t, _). t \<noteq> transaction) (rp_entries p)\<rparr>))"

fun release_loop :: "byte list \<Rightarrow> (byte list \<times> entry) list \<Rightarrow> rpc_pool \<Rightarrow> (byte list \<times> entry) list \<times> rpc_pool" where
  "release_loop owner [] p = ([], p)"
| "release_loop owner ((t, it) # es) p =
     (if en_owner it = owner then release_loop owner es (close_connection (en_connection it) p)
      else (let (es, p) = release_loop owner es p in ((t, it) # es, p)))"

definition RPCPool_release_owner :: "byte list \<Rightarrow> rpc_pool \<Rightarrow> rpc_pool" where
  "RPCPool_release_owner owner p = (let (es, p) = release_loop owner (rp_entries p) p in p\<lparr>rp_entries := es\<rparr>)"

definition RPCPool_count :: "rpc_pool \<Rightarrow> nat" where "RPCPool_count p = length (rp_entries p)"

definition RPCPool_limit :: nat where "RPCPool_limit = LIMIT"

section \<open>The visitors\<close>

text \<open>Between the two halves of \<open>open\<close> a connection is in \<open>sy_opening\<close> with who opens it; \<open>sy_handles\<close> are the
  handles every visitor was given, kept also after a release, and \<open>sy_openers\<close> records who opened each connection.
  Through a handle a visitor does what he likes to the connection, closing and reopening it included.\<close>

record rpc_system =
  sy_pool :: rpc_pool
  sy_opening :: "(nat \<times> byte list) list"
  sy_handles :: "(byte list \<times> nat) set"
  sy_openers :: "byte list list"

definition no_visitors :: rpc_system where
  "no_visitors = \<lparr>sy_pool = \<lparr>rp_entries = [], rp_connections = []\<rparr>, sy_opening = [], sy_handles = {}, sy_openers = []\<rparr>"

inductive rpc_step :: "(connector \<Rightarrow> unit result \<times> connector) \<Rightarrow> rpc_system \<Rightarrow> rpc_system \<Rightarrow> bool" for dial where
  connects: "RPCPool_connect dial owner (sy_pool s) = (Inr a, p) \<Longrightarrow>
    rpc_step dial s (s\<lparr>sy_pool := p, sy_opening := (a, owner) # sy_opening s, sy_openers := sy_openers s @ [owner]\<rparr>)"
| enters: "(a, owner) \<in> set (sy_opening s) \<Longrightarrow> RPCPool_enter a owner (sy_pool s) = (r, p) \<Longrightarrow>
    rpc_step dial s (s\<lparr>sy_pool := p, sy_opening := remove1 (a, owner) (sy_opening s)\<rparr>)"
| asks: "RPCPool_held transaction owner (sy_pool s) = Inr a \<Longrightarrow>
    rpc_step dial s (s\<lparr>sy_handles := insert (owner, a) (sy_handles s)\<rparr>)"
| uses: "(owner, a) \<in> sy_handles s \<Longrightarrow>
    rpc_step dial s (s\<lparr>sy_pool := (sy_pool s)\<lparr>rp_connections := (rp_connections (sy_pool s))[a := c]\<rparr>\<rparr>)"
| releases: "rpc_step dial s (s\<lparr>sy_pool := RPCPool_release transaction (sy_pool s)\<rparr>)"
| releases_owner: "rpc_step dial s (s\<lparr>sy_pool := RPCPool_release_owner owner (sy_pool s)\<rparr>)"

inductive rpc_reachable :: "(connector \<Rightarrow> unit result \<times> connector) \<Rightarrow> rpc_system \<Rightarrow> bool" for dial where
  start: "rpc_reachable dial no_visitors"
| step: "rpc_reachable dial s \<Longrightarrow> rpc_step dial s s' \<Longrightarrow> rpc_reachable dial s'"

inductive_cases rpc_stepE: "rpc_step dial s s'"

section \<open>The invariant\<close>

definition entered :: "(byte list \<times> entry) list \<Rightarrow> nat list" where
  "entered es = map (\<lambda>(_, it). en_connection it) es"

definition rpc_inv :: "rpc_system \<Rightarrow> bool" where
  "rpc_inv s \<longleftrightarrow>
     length (rp_connections (sy_pool s)) = length (sy_openers s) \<and>
     (\<forall>(a, owner) \<in> set (sy_opening s). a < length (sy_openers s) \<and> sy_openers s ! a = owner) \<and>
     (\<forall>(_, it) \<in> set (rp_entries (sy_pool s)). en_connection it < length (sy_openers s) \<and>
        sy_openers s ! en_connection it = en_owner it) \<and>
     (\<forall>(owner, a) \<in> sy_handles s. a < length (sy_openers s) \<and> sy_openers s ! a = owner) \<and>
     distinct (map fst (rp_entries (sy_pool s))) \<and> length (rp_entries (sy_pool s)) \<le> LIMIT \<and>
     distinct (map fst (sy_opening s)) \<and> distinct (entered (rp_entries (sy_pool s))) \<and>
     (\<forall>(a, _) \<in> set (sy_opening s). \<forall>(_, it) \<in> set (rp_entries (sy_pool s)). en_connection it \<noteq> a)"

lemma close_connection_simps [simp]:
  "rp_entries (close_connection a p) = rp_entries p"
  "length (rp_connections (close_connection a p)) = length (rp_connections p)"
  by (simp_all add: close_connection_def)

lemma rpc_inv_start: "rpc_inv no_visitors"
  by (simp add: rpc_inv_def no_visitors_def entered_def)

text \<open>Entries may only leave, and nobody's connection goes: what the invariant allows a step to do to the pool.\<close>

lemma rpc_inv_pool:
  assumes "rpc_inv s" and "length (rp_connections p) = length (rp_connections (sy_pool s))"
    and "rp_entries p = filter keep (rp_entries (sy_pool s))"
  shows "rpc_inv (s\<lparr>sy_pool := p\<rparr>)"
  using assms
  by (auto simp: rpc_inv_def entered_def distinct_map_filter intro: le_trans [OF length_filter_le])

lemma rpc_inv_opening:
  assumes "rpc_inv s" and "set os \<subseteq> set (sy_opening s)" and "distinct (map fst os)"
  shows "rpc_inv (s\<lparr>sy_opening := os\<rparr>)"
  using assms by (fastforce simp: rpc_inv_def)

lemma rpc_inv_connects:
  assumes "rpc_inv s" and "RPCPool_connect dial owner (sy_pool s) = (Inr a, p)"
  shows "rpc_inv (s\<lparr>sy_pool := p, sy_opening := (a, owner) # sy_opening s, sy_openers := sy_openers s @ [owner]\<rparr>)"
proof -
  obtain c where p: "p = (sy_pool s)\<lparr>rp_connections := rp_connections (sy_pool s) @ [c]\<rparr>" and a: "a = length (sy_openers s)"
    using assms by (auto simp: RPCPool_connect_def rpc_inv_def split: prod.splits sum.splits if_splits)
  show ?thesis using assms(1) unfolding p a rpc_inv_def by (fastforce simp: nth_append entered_def)
qed

lemma rpc_inv_enters:
  assumes "rpc_inv s" and "(a, owner) \<in> set (sy_opening s)" and "RPCPool_enter a owner (sy_pool s) = (r, p)"
  shows "rpc_inv (s\<lparr>sy_pool := p, sy_opening := remove1 (a, owner) (sy_opening s)\<rparr>)"
proof -
  let ?os = "remove1 (a, owner) (sy_opening s)" and ?es = "rp_entries (sy_pool s)"
  have d: "distinct (sy_opening s)" "distinct (map fst (sy_opening s))"
    using assms(1) by (auto simp: rpc_inv_def distinct_map)
  have os: "set ?os = set (sy_opening s) - {(a, owner)}" "distinct (map fst ?os)"
    using d by (auto simp: distinct_map intro: inj_on_subset)
  then have fresh: "a \<notin> fst ` set ?os" using d(2) assms(2) by (fastforce simp: distinct_map inj_on_def)
  have left: "rpc_inv (s\<lparr>sy_opening := ?os\<rparr>)" using os by (intro rpc_inv_opening [OF assms(1)]) auto
  consider "p = close_connection a (sy_pool s)" | t where "map_of ?es t = None" "length ?es < LIMIT"
      "p = (sy_pool s)\<lparr>rp_entries := (t, \<lparr>en_connection = a, en_owner = owner\<rparr>) # ?es\<rparr>"
    using assms(3) by (auto simp: RPCPool_enter_def Let_def split: if_splits)
  then show ?thesis
  proof cases
    case 1
    then show ?thesis using rpc_inv_pool [OF left, of p "\<lambda>_. True"] by (simp add: rpc_inv_def)
  next
    case 2
    have "\<forall>(b, _) \<in> set ?os. a \<noteq> b" using fresh by (auto simp: image_iff)
    then show ?thesis using 2 left assms(1,2)
      by (auto simp: rpc_inv_def entered_def map_of_eq_None_iff)
  qed
qed

lemma release_loop_filter:
  assumes "release_loop owner es p = (es', p')"
  shows "es' = filter (\<lambda>(_, it). en_owner it \<noteq> owner) es" "length (rp_connections p') = length (rp_connections p)"
  using assms by (induction es arbitrary: p es' p') (auto split: if_splits prod.splits)

lemma rpc_inv_step: "rpc_step dial s s' \<Longrightarrow> rpc_inv s \<Longrightarrow> rpc_inv s'"
proof (induction rule: rpc_step.induct)
  case (connects owner s a p)
  then show ?case by (intro rpc_inv_connects)
next
  case (enters a owner s r p)
  then show ?case by (intro rpc_inv_enters)
next
  case (asks transaction owner s a)
  then show ?case
    by (fastforce simp: rpc_inv_def RPCPool_held_def dest: map_of_SomeD split: if_splits option.splits)
next
  case (uses owner a s c)
  then show ?case by (intro rpc_inv_pool [where keep = "\<lambda>_. True"]) simp_all
next
  case (releases s transaction)
  then show ?case
    by (cases "map_of (rp_entries (sy_pool s)) transaction")
      (auto simp: RPCPool_release_def Let_def intro: rpc_inv_pool [where keep = "\<lambda>_. True"] rpc_inv_pool)
next
  case (releases_owner s owner)
  then show ?case
    by (auto simp: RPCPool_release_owner_def Let_def split: prod.splits intro!: rpc_inv_pool dest: release_loop_filter)
qed

lemma rpc_inv_reachable: "rpc_reachable dial s \<Longrightarrow> rpc_inv s"
  by (induction rule: rpc_reachable.induct) (auto intro: rpc_inv_start rpc_inv_step)

lemma held_entry: "RPCPool_held t owner p = Inr a \<Longrightarrow> \<exists>it. (t, it) \<in> set (rp_entries p) \<and> en_owner it = owner \<and> en_connection it = a"
  by (auto simp: RPCPool_held_def dest: map_of_SomeD split: if_splits option.splits)

lemma rpc_inv_handle: "rpc_inv s \<Longrightarrow> (owner, a) \<in> sy_handles s \<Longrightarrow> owner = sy_openers s ! a"
  unfolding rpc_inv_def by auto

lemma rpc_inv_handles: "rpc_inv s \<Longrightarrow> (owner, a) \<in> sy_handles s \<Longrightarrow> (owner', a) \<in> sy_handles s \<Longrightarrow> owner = owner'"
  using rpc_inv_handle [of s owner a] rpc_inv_handle [of s owner' a] by simp

lemma rpc_inv_limit: "rpc_inv s \<Longrightarrow> length (rp_entries (sy_pool s)) \<le> LIMIT"
  unfolding rpc_inv_def by blast

lemma rpc_inv_held:
  assumes "rpc_inv s" and "RPCPool_held t owner (sy_pool s) = Inr a" and "RPCPool_held t' owner' (sy_pool s) = Inr a"
  shows "t = t' \<and> owner = owner'"
proof -
  from held_entry [OF assms(2)] obtain it where it: "(t, it) \<in> set (rp_entries (sy_pool s))"
    "en_owner it = owner" "en_connection it = a" by (elim exE conjE)
  from held_entry [OF assms(3)] obtain it' where it': "(t', it') \<in> set (rp_entries (sy_pool s))"
    "en_owner it' = owner'" "en_connection it' = a" by (elim exE conjE)
  have "inj_on (\<lambda>(_, it). en_connection it) (set (rp_entries (sy_pool s)))"
    using assms(1) by (simp add: rpc_inv_def entered_def distinct_map)
  from inj_onD [OF this _ it(1) it'(1)] have "(t, it) = (t', it')" using it it' by simp
  then show ?thesis using it it' by simp
qed

lemma std_to_string_not_nil: "std_to_string i \<noteq> []"
proof -
  have "decimal_digits n \<noteq> []" for n by (cases "n < 10") (simp_all add: decimal_digits.simps [of n])
  then show ?thesis by (simp add: std_to_string_def)
qed


definition dial_seven :: "connector \<Rightarrow> unit result \<times> connector" where
  "dial_seven c = (Inr (), c\<lparr>cn_transaction_id := 7, cn_stream := Some closed_tls\<rparr>)"

definition one_visitor :: rpc_system where
  "one_visitor = \<lparr>sy_pool = \<lparr>rp_entries = [([55], \<lparr>en_connection = 0, en_owner = [65]\<rparr>)],
     rp_connections = [snd (dial_seven new_connector)]\<rparr>, sy_opening = [], sy_handles = {([65], 0)}, sy_openers = [[65]]\<rparr>"

lemma seven: "std_to_string 7 = [55]"
  by (simp add: std_to_string_def decimal_digits.simps)

lemma one_visitor_reachable: "rpc_reachable dial_seven one_visitor"
proof -
  let ?c = "snd (dial_seven new_connector)"
  let ?p1 = "\<lparr>rp_entries = [], rp_connections = [?c]\<rparr>"
  let ?s1 = "\<lparr>sy_pool = ?p1, sy_opening = [(0, [65])], sy_handles = {}, sy_openers = [[65]]\<rparr>"
  let ?s2 = "\<lparr>sy_pool = sy_pool one_visitor, sy_opening = [], sy_handles = {}, sy_openers = [[65]]\<rparr>"
  have "rpc_step dial_seven no_visitors ?s1"
    using rpc_step.connects [of dial_seven "[65]" no_visitors 0 ?p1]
    by (simp add: no_visitors_def RPCPool_connect_def dial_seven_def)
  moreover have "rpc_step dial_seven ?s1 ?s2"
    using rpc_step.enters [of 0 "[65]" ?s1 "Inr [55]" "sy_pool one_visitor" dial_seven]
    by (simp add: one_visitor_def RPCPool_enter_def dial_seven_def Connector_transaction_id_def seven LIMIT_def Let_def)
  moreover have "rpc_step dial_seven ?s2 one_visitor"
    using rpc_step.asks [of "[55]" "[65]" ?s2 0 dial_seven] by (simp add: one_visitor_def RPCPool_held_def)
  ultimately show ?thesis by (blast intro: rpc_reachable.intros)
qed


text \<open>C33. A transaction that was opened names, to who opened it and to nobody else, the connection that was made for it,
  until it is released: then it names nothing and its connection is closed. Opening and releasing it changes for no
  other transaction what it names, and to whom.\<close>

theorem rpc_pool_open:
  assumes "RPCPool_open dial owner p = (Inr t, p')"
  shows "\<exists>a c x. dial new_connector = (Inr x, c) \<and>
    RPCPool_held t owner p' = Inr a \<and> rp_connections p' ! a = c \<and> (\<forall>other. RPCPool_held t other p' = Inr a \<longrightarrow> other = owner) \<and>
    isl (RPCPool_held t who (RPCPool_release t p')) \<and> \<not> Connector_is_open (rp_connections (RPCPool_release t p') ! a) \<and>
    (t' \<noteq> t \<longrightarrow> RPCPool_held t' who p' = RPCPool_held t' who p \<and>
      RPCPool_held t' who (RPCPool_release t p') = RPCPool_held t' who p)"
proof -
  obtain x c where c: "dial new_connector = (Inr x, c)"
    and t: "t = std_to_string (uint (cn_transaction_id c))" "map_of (rp_entries p) t = None"
    and p': "p' = \<lparr>rp_entries = (t, \<lparr>en_connection = length (rp_connections p), en_owner = owner\<rparr>) # rp_entries p,
        rp_connections = rp_connections p @ [c]\<rparr>"
    using assms
    by (auto simp: RPCPool_open_def RPCPool_connect_def RPCPool_enter_def bind_act_def Let_def Connector_transaction_id_def
        split: if_splits prod.splits sum.splits)
  have "t \<noteq> []" unfolding t(1) by (rule std_to_string_not_nil)
  moreover have "filter (\<lambda>(u, _). u \<noteq> t) (rp_entries p) = rp_entries p"
    using t(2) by (force simp: map_of_eq_None_iff intro!: filter_True)
  then have rel: "RPCPool_release t p' = \<lparr>rp_entries = rp_entries p, rp_connections = rp_connections p @ [Connector_close c]\<rparr>"
    by (simp add: p' RPCPool_release_def close_connection_def)
  ultimately show ?thesis unfolding rel unfolding p'
    using t(2) c by (intro exI [of _ "length (rp_connections p)"] exI [of _ c] exI [of _ x])
      (simp add: RPCPool_held_def Connector_is_open_def Connector_close_def)
qed

lemma rpc_pool_open_witness:
  "\<exists>p'. RPCPool_open dial_seven [65] \<lparr>rp_entries = [], rp_connections = []\<rparr> = (Inr [55], p') \<and>
    RPCPool_held [55] [65] p' = Inr 0 \<and> isl (RPCPool_held [55] [65] (RPCPool_release [55] p'))"
proof -
  obtain p' where p': "RPCPool_open dial_seven [65] \<lparr>rp_entries = [], rp_connections = []\<rparr> = (Inr [55], p')"
      "RPCPool_held [55] [65] p' = Inr 0"
    by (simp add: RPCPool_open_def RPCPool_connect_def RPCPool_enter_def RPCPool_held_def dial_seven_def bind_act_def
        Connector_transaction_id_def seven LIMIT_def Let_def)
  with rpc_pool_open [OF p'(1), of "[65]" "[]"] show ?thesis by blast
qed

end
