(* ===== verification/Configuration.thy ===== *)
theory Configuration
  imports Connector
begin

text \<open>
  \<open>Configuration/\<close>: the configuration file and its options, and the arguments of a program. An option is a line, and
  the lines below it with one tab more are its options. A path picks options by attribute, key and value.
\<close>

section \<open>Options\<close>

datatype option_tree = Option (opt_attr: string) (opt_key: string) (opt_value: string) (opt_options: "option_tree list")

definition ConfigurationException :: "string \<Rightarrow> exn" where
  "ConfigurationException msg = ZiguratException 9200 msg"

definition ConfigurationException_at :: "string \<Rightarrow> nat \<Rightarrow> string \<Rightarrow> exn" where
  "ConfigurationException_at msg line_no line =
     ZiguratException 9200 (msg @ '' at line '' @ text_of (std_to_string (int line_no)) @ '', '' @ [CHR 39] @ line @ [CHR 39])"

definition Option_new :: "string \<Rightarrow> string \<Rightarrow> string \<Rightarrow> option_tree" where
  "Option_new nattr nkey nvalue = Option nattr nkey nvalue []"

definition push_option :: "option_tree \<Rightarrow> option_tree \<Rightarrow> option_tree" where
  "push_option parent opt = Option (opt_attr parent) (opt_key parent) (opt_value parent) (opt_options parent @ [opt])"

section \<open>Reading a file\<close>

text \<open>The lines \<open>getline\<close> gives. \<open>seekg\<close> to where the line began puts it resumes.\<close>

fun getlines :: "string \<Rightarrow> string \<Rightarrow> string list" where
  "getlines line [] = (if line = [] then [] else [line])"
| "getlines line (c # cs) = (if c = CHR 0x0A then line # getlines [] cs else getlines (line @ [c]) cs)"

text \<open>The loop over \<open>pure_line\<close>: up to a number sign, that a backslash before it makes a character of the line.\<close>

fun pure_loop :: "char \<Rightarrow> string \<Rightarrow> string \<Rightarrow> string" where
  "pure_loop prev_ch line [] = line"
| "pure_loop prev_ch line (ch # cs) =
     (if ch = CHR ''#'' \<and> prev_ch \<noteq> CHR 92 then line
      else if ch = CHR ''#'' \<and> prev_ch = CHR 92 then pure_loop ch (butlast line @ [ch]) cs
      else pure_loop ch (line @ [ch]) cs)"

definition pure_line :: "string \<Rightarrow> string" where "pure_line l = pure_loop (CHR 0x00) [] l"

fun split_line_loop :: "string \<Rightarrow> nat \<Rightarrow> nat \<Rightarrow> string \<Rightarrow> string \<Rightarrow> string \<Rightarrow> (int \<times> string \<times> string) result" where
  "split_line_loop line line_no level key word [] = Inr (int level, key, trim word (CHR '' ''))"
| "split_line_loop line line_no level key word (c # cs) =
     (if c = CHR 9 \<and> word = [] then split_line_loop line line_no (level + 1) key word cs
      else if c = CHR '' '' \<and> key = [] then Inl (ConfigurationException_at ''key error'' line_no line)
      else if c = CHR ''/'' \<and> key = [] then Inl (ConfigurationException_at ''key error'' line_no line)
      else if c = CHR '':'' \<and> key = [] \<and> word = [] then Inl (ConfigurationException_at ''key error'' line_no line)
      else if c = CHR '':'' \<and> word \<noteq> [] \<and> key = [] then split_line_loop line line_no level word [] cs
      else split_line_loop line line_no level key (word @ [c]) cs)"

definition split_line :: "string \<Rightarrow> nat \<Rightarrow> (int \<times> string \<times> string) result" where
  "split_line line line_no = (if line = [] then Inr (- 1, [], []) else split_line_loop line line_no 0 [] [] line)"

text \<open>\<open>_attr_key\<close>, the attribute and the key of a key: an attribute with no closing brace is everything, and the key
  stays.\<close>

fun attr_loop :: "string \<Rightarrow> string \<Rightarrow> string \<Rightarrow> string \<times> string" where
  "attr_loop key attr [] = (attr, key)"
| "attr_loop key attr (c # cs) = (if c = CHR 125 then (attr, cs) else attr_loop key (attr @ [c]) cs)"

definition attr_key :: "string \<Rightarrow> string \<times> string" where
  "attr_key key = (if key \<noteq> [] \<and> key ! 0 = CHR 123 then attr_loop key [] (tl key) else ([], key))"

text \<open>\<open>_load\<close>, with the lines left in the file and the line number.\<close>

function (domintros) load_options ::
  "int \<Rightarrow> option_tree \<Rightarrow> string list \<Rightarrow> nat \<Rightarrow> unit result \<times> option_tree \<times> string list \<times> nat" where
  "load_options p_level parent [] line_no = (Inr (), parent, [], line_no)"
| "load_options p_level parent (l # ls) line_no =
     (let line = pure_line l in
      case split_line line (line_no + 1) of
        Inl e \<Rightarrow> (Inl e, parent, ls, line_no + 1)
      | Inr (level, key, value) \<Rightarrow>
          if level = - 1 then load_options p_level parent ls (line_no + 1)
          else if level = p_level + 1 then
            (let (attr, key) = attr_key key in
             case load_options level (Option_new attr key value) ls (line_no + 1) of
               (Inl e, opt, ls, line_no) \<Rightarrow> (Inl e, parent, ls, line_no)
             | (Inr _, opt, ls, line_no) \<Rightarrow> load_options p_level (push_option parent opt) ls line_no)
          else if level \<le> p_level then (Inr (), parent, l # ls, line_no)
          else (Inl (ConfigurationException_at ''config indentation error'' (line_no + 1) line), parent, ls, line_no + 1))"
  by pat_completeness auto

lemma load_options_shorter:
  "load_options_dom (p, parent, ls, n) \<Longrightarrow> load_options p parent ls n = (r, parent', ls', n') \<Longrightarrow> length ls' \<le> length ls"
proof (induction p parent ls n arbitrary: r parent' ls' n' rule: load_options.pinduct)
  case (2 p_level parent l ls line_no)
  from 2(5) show ?case
    by (simp add: load_options.psimps(2) [OF 2(1)] Let_def split: sum.splits prod.splits if_splits)
      (use 2(2-4) in \<open>fastforce simp: Let_def dest: le_trans\<close>)+
qed (simp add: load_options.psimps(1))

termination load_options
  by (relation "measure (\<lambda>(p, parent, ls, n). length ls)") (auto dest!: load_options_shorter [OF _ sym])

record configuration =
  cf_root :: option_tree

definition Configuration_new :: configuration where
  "Configuration_new = \<lparr>cf_root = Option_new [] [] []\<rparr>"

definition Configuration_root :: "configuration \<Rightarrow> option_tree" where
  "Configuration_root c = cf_root c"

definition Configuration_load :: "string \<Rightarrow> configuration \<Rightarrow> unit result \<times> configuration" where
  "Configuration_load file c =
     (let (r, root, _) = load_options (- 1) (cf_root c) (getlines [] file) 0 in (r, c\<lparr>cf_root := root\<rparr>))"

text \<open>The files are a parameter: what is in the file of that name.\<close>

definition Configuration_load_file ::
  "(string \<Rightarrow> string option) \<Rightarrow> string \<Rightarrow> configuration \<Rightarrow> unit result \<times> configuration" where
  "Configuration_load_file files file_path c =
     (case files file_path of
        None \<Rightarrow> (Inl (ConfigurationException (''file not found '' @ [CHR 39] @ file_path @ [CHR 39])), c)
      | Some file \<Rightarrow> Configuration_load file c)"

definition Configuration_of :: "string \<Rightarrow> configuration result" where
  "Configuration_of file =
     (case Configuration_load file Configuration_new of (Inl e, _) \<Rightarrow> Inl e | (Inr _, c) \<Rightarrow> Inr c)"

definition Configuration_of_file :: "(string \<Rightarrow> string option) \<Rightarrow> string \<Rightarrow> configuration result" where
  "Configuration_of_file files file_path =
     (case Configuration_load_file files file_path Configuration_new of (Inl e, _) \<Rightarrow> Inl e | (Inr _, c) \<Rightarrow> Inr c)"

section \<open>Paths\<close>

text \<open>\<open>_get_part\<close>, with what is left of the stream: a delimiter between brackets does not end the part.\<close>

fun get_part_loop :: "char \<Rightarrow> nat \<Rightarrow> string \<Rightarrow> string \<Rightarrow> string \<times> string" where
  "get_part_loop delim counter res [] = (res, [])"
| "get_part_loop delim counter res (ch # ss) =
     (if ch = CHR ''['' then get_part_loop delim (counter + 1) (if counter + 1 > 1 then res @ [ch] else res) ss
      else if ch = CHR '']'' \<and> counter = 1 then get_part_loop delim 0 res ss
      else if counter = 0 \<and> ch = delim then (res, ss)
      else get_part_loop delim counter (res @ [ch]) ss)"

definition get_part :: "string \<Rightarrow> char \<Rightarrow> string \<times> string" where
  "get_part ss delim = get_part_loop delim 0 [] ss"

text \<open>\<open>getline\<close> of a string stream, with what is left.\<close>

fun get_line :: "char \<Rightarrow> string \<Rightarrow> string \<times> string" where
  "get_line delim [] = ([], [])"
| "get_line delim (c # cs) = (if c = delim then ([], cs) else (let (l, cs) = get_line delim cs in (c # l, cs)))"

text \<open>What the three searches do first: attribute, key and value to look for, and the rest of the path.\<close>

definition path_part :: "string \<Rightarrow> string \<times> string \<times> string \<times> string" where
  "path_part path =
     (let (part, sspath) = get_part path (CHR ''/'');
          (sub_path, _) = get_line (CHR 0x0A) sspath;
          (key, sskv) = get_line (CHR '':'') part;
          (attr, key) = attr_key key;
          (value, _) = get_line (CHR 0x0A) sskv in
      (attr, key, value, sub_path))"

definition found :: "string \<Rightarrow> string \<Rightarrow> string \<Rightarrow> option_tree \<Rightarrow> bool" where
  "found attr key value root \<longleftrightarrow>
     (if attr = [] then True else attr = opt_attr root) \<and> (if key = [] then True else key = opt_key root) \<and>
     (if value = [] then True else value = opt_value root)"

fun childs_of :: "option_tree \<Rightarrow> string \<Rightarrow> option_tree list \<Rightarrow> option_tree list"
  and childs_each :: "option_tree list \<Rightarrow> string \<Rightarrow> option_tree list \<Rightarrow> option_tree list" where
  "childs_of (Option a k v os) path result =
     (if path = [] then result @ [Option a k v os]
      else (let (attr, key, value, sub_path) = path_part path in
            if found attr key value (Option a k v os) then childs_each os sub_path result else result))"
| "childs_each [] sub_path result = result"
| "childs_each (chopt # os) sub_path result = childs_each os sub_path (childs_of chopt sub_path result)"

fun list_of :: "option_tree \<Rightarrow> string \<Rightarrow> option_tree list \<Rightarrow> option_tree list"
  and list_each :: "option_tree list \<Rightarrow> string \<Rightarrow> option_tree list \<Rightarrow> option_tree list" where
  "list_of (Option a k v os) path result =
     (let (attr, key, value, sub_path) = path_part path in
      if found attr key value (Option a k v os) then
        (if sub_path = [] then result @ [Option a k v os] else list_each os sub_path result)
      else result)"
| "list_each [] sub_path result = result"
| "list_each (chopt # os) sub_path result = list_each os sub_path (list_of chopt sub_path result)"

text \<open>\<open>_extract\<close>: a key that begins with a dollar sign is extracted, once for every option below it that is found.\<close>

fun extract_of :: "option_tree \<Rightarrow> string \<Rightarrow> option_tree list \<Rightarrow> bool \<times> option_tree list"
  and extract_each :: "option_tree list \<Rightarrow> string \<Rightarrow> option_tree list \<Rightarrow> bool \<Rightarrow> option_tree list \<Rightarrow> bool \<times> option_tree list" where
  "extract_of (Option a k v os) path result =
     (let (attr, key, value, sub_path) = path_part path;
          do_extract = (key \<noteq> [] \<and> key \<noteq> k \<and> hd key = CHR ''$'' \<and> tl key = k);
          key = (if do_extract then k else key) in
      if found attr key value (Option a k v os) then
        (if os = [] \<and> sub_path = [] then (True, if do_extract then result @ [Option a k v os] else result)
         else extract_each os sub_path (if do_extract then [Option a k v os] else []) False result)
      else (False, result))"
| "extract_each [] sub_path extracted any result = (any, result)"
| "extract_each (chopt # os) sub_path extracted any result =
     (case extract_of chopt sub_path [] of
        (False, _) \<Rightarrow> extract_each os sub_path extracted any result
      | (True, tmp_result) \<Rightarrow> extract_each os sub_path extracted True (result @ extracted @ tmp_result))"

section \<open>The searches of the class\<close>

text \<open>A pointer to an option is the option. The results are appended to what the caller's list holds, and it is what the
  list then holds that decides whether anything was found.\<close>

definition Configuration_childs_from :: "option_tree \<Rightarrow> string \<Rightarrow> option_tree list \<Rightarrow> bool \<times> option_tree list" where
  "Configuration_childs_from root path result = (let result = childs_of root path result in (result \<noteq> [], result))"

definition Configuration_childs :: "string \<Rightarrow> option_tree list \<Rightarrow> configuration \<Rightarrow> bool \<times> option_tree list" where
  "Configuration_childs path result c = Configuration_childs_from (cf_root c) path result"

definition Configuration_childs_values_from :: "option_tree \<Rightarrow> string \<Rightarrow> string list \<Rightarrow> bool \<times> string list" where
  "Configuration_childs_values_from root path path_values =
     (let (b, values) = Configuration_childs_from root path [] in
      if b then (True, path_values @ map opt_key values) else (False, path_values))"

definition Configuration_childs_values :: "string \<Rightarrow> string list \<Rightarrow> configuration \<Rightarrow> bool \<times> string list" where
  "Configuration_childs_values path path_values c = Configuration_childs_values_from (cf_root c) path path_values"

definition Configuration_list_from :: "option_tree \<Rightarrow> string \<Rightarrow> option_tree list \<Rightarrow> bool \<times> option_tree list" where
  "Configuration_list_from root path result = (let result = list_of root path result in (result \<noteq> [], result))"

definition Configuration_list :: "string \<Rightarrow> option_tree list \<Rightarrow> configuration \<Rightarrow> bool \<times> option_tree list" where
  "Configuration_list path result c = Configuration_list_from (cf_root c) path result"

definition Configuration_list_values_from :: "option_tree \<Rightarrow> string \<Rightarrow> string list \<Rightarrow> bool \<times> string list" where
  "Configuration_list_values_from root path path_values =
     (let (b, values) = Configuration_list_from root path [] in
      if b then (True, path_values @ map opt_value values) else (False, path_values))"

definition Configuration_list_values :: "string \<Rightarrow> string list \<Rightarrow> configuration \<Rightarrow> bool \<times> string list" where
  "Configuration_list_values path path_values c = Configuration_list_values_from (cf_root c) path path_values"

definition Configuration_extract_from :: "option_tree \<Rightarrow> string \<Rightarrow> option_tree list \<Rightarrow> bool \<times> option_tree list" where
  "Configuration_extract_from root path result = extract_of root path result"

definition Configuration_extract :: "string \<Rightarrow> option_tree list \<Rightarrow> configuration \<Rightarrow> bool \<times> option_tree list" where
  "Configuration_extract path result c = Configuration_extract_from (cf_root c) path result"

definition Configuration_extract_values_from :: "option_tree \<Rightarrow> string \<Rightarrow> string list \<Rightarrow> bool \<times> string list" where
  "Configuration_extract_values_from root path path_values =
     (let (b, values) = Configuration_extract_from root path [] in
      if b then (True, path_values @ map opt_value values) else (False, path_values))"

definition Configuration_extract_values :: "string \<Rightarrow> string list \<Rightarrow> configuration \<Rightarrow> bool \<times> string list" where
  "Configuration_extract_values path path_values c = Configuration_extract_values_from (cf_root c) path path_values"

text \<open>The two \<open>get\<close>s of a pointer assign to their own copy of it.\<close>

definition Configuration_get_option_from :: "option_tree \<Rightarrow> string \<Rightarrow> bool" where
  "Configuration_get_option_from root path = fst (Configuration_list_from root path [])"

definition Configuration_get_option :: "string \<Rightarrow> configuration \<Rightarrow> bool" where
  "Configuration_get_option path c = Configuration_get_option_from (cf_root c) path"

definition Configuration_get_from :: "option_tree \<Rightarrow> string \<Rightarrow> string \<Rightarrow> bool \<times> string" where
  "Configuration_get_from root path value =
     (let (b, values) = Configuration_list_from root path [] in
      if b then (True, case values of [] \<Rightarrow> value | chopt # _ \<Rightarrow> opt_value chopt) else (False, value))"

definition Configuration_get :: "string \<Rightarrow> string \<Rightarrow> configuration \<Rightarrow> bool \<times> string" where
  "Configuration_get path value c = Configuration_get_from (cf_root c) path value"

section \<open>Printing\<close>

fun print_option :: "option_tree \<Rightarrow> nat \<Rightarrow> string"
  and print_each :: "option_tree list \<Rightarrow> nat \<Rightarrow> string" where
  "print_option (Option a k v os) lvl =
     (if os \<noteq> [] then (if lvl > 0 then replicate ((lvl - 1) * 2) (CHR '' '') else []) @ ''-'' else replicate (lvl * 2) (CHR '' '')) @
     k @ '': '' @ v @ [CHR 0x0A] @ print_each os (lvl + 1)"
| "print_each [] lvl = []"
| "print_each (opt # os) lvl = print_option opt lvl @ print_each os lvl"

definition Configuration_print :: "configuration \<Rightarrow> string" where
  "Configuration_print c = print_each (opt_options (cf_root c)) 1"

section \<open>Arguments of a program\<close>

record arguments =
  ar_flags :: "string list"
  ar_args :: "string \<Rightarrow> string list option"

definition push_arg :: "string \<Rightarrow> string \<Rightarrow> arguments \<Rightarrow> arguments" where
  "push_arg name value a =
     a\<lparr>ar_args := (ar_args a)(name \<mapsto> (case ar_args a name of None \<Rightarrow> [] | Some vs \<Rightarrow> vs) @ [value])\<rparr>"

text \<open>\<open>split\<close> gives one part more than there are separators.\<close>

fun Argument_loop :: "string \<Rightarrow> arguments \<Rightarrow> string list \<Rightarrow> arguments" where
  "Argument_loop name a [] = a"
| "Argument_loop name a (arg # argv) =
     (if arg \<noteq> [] \<and> hd arg = CHR ''-'' then
        (if CHR ''='' \<in> set arg then
           (let parts = split arg (CHR ''=''); a = push_arg (parts ! 0) (parts ! 1) a in
            Argument_loop [] (a\<lparr>ar_flags := ar_flags a @ [parts ! 0]\<rparr>) argv)
         else Argument_loop arg (a\<lparr>ar_flags := ar_flags a @ [arg]\<rparr>) argv)
      else Argument_loop name (push_arg name arg a) argv)"

definition Argument_new :: "string list \<Rightarrow> arguments" where
  "Argument_new argv = Argument_loop [] \<lparr>ar_flags = [], ar_args = Map.empty\<rparr> (tl argv)"

definition Argument_flag :: "string \<Rightarrow> arguments \<Rightarrow> bool" where
  "Argument_flag name a \<longleftrightarrow> name \<in> set (ar_flags a)"

definition Argument_get_value :: "string \<Rightarrow> string \<Rightarrow> arguments \<Rightarrow> bool \<times> string" where
  "Argument_get_value name value a = (case ar_args a name of Some vs \<Rightarrow> (True, hd vs) | None \<Rightarrow> (False, value))"

definition Argument_get_values :: "string \<Rightarrow> string list \<Rightarrow> arguments \<Rightarrow> bool \<times> string list" where
  "Argument_get_values name value a = (case ar_args a name of Some vs \<Rightarrow> (True, value @ vs) | None \<Rightarrow> (False, value))"

definition Argument_get :: "string \<Rightarrow> arguments \<Rightarrow> string" where
  "Argument_get name a = (case ar_args a name of Some vs \<Rightarrow> hd vs | None \<Rightarrow> [])"

section \<open>What a file says\<close>

text \<open>The items of a file: level, attribute, key and value of every line that says something.\<close>

type_synonym item = "nat \<times> string \<times> string \<times> string"

definition item_of :: "string \<Rightarrow> item list option" where
  "item_of l =
     (case split_line (pure_line l) 0 of
        Inl _ \<Rightarrow> None
      | Inr (level, key, value) \<Rightarrow>
          if level = - 1 then Some [] else (let (attr, key) = attr_key key in Some [(nat level, attr, key, value)]))"

fun items_of :: "string list \<Rightarrow> item list option" where
  "items_of [] = Some []"
| "items_of (l # ls) =
     (case item_of l of None \<Rightarrow> None | Some i \<Rightarrow> (case items_of ls of None \<Rightarrow> None | Some its \<Rightarrow> Some (i @ its)))"

text \<open>No line is more than one level below the line before it.\<close>

fun nested :: "int \<Rightarrow> item list \<Rightarrow> bool" where
  "nested p [] \<longleftrightarrow> True"
| "nested p ((level, _) # its) \<longleftrightarrow> int level \<le> p + 1 \<and> nested (int level) its"

fun flatten :: "nat \<Rightarrow> option_tree \<Rightarrow> item list" where
  "flatten level (Option a k v os) = (level, a, k, v) # concat (map (flatten (Suc level)) os)"

definition flattens :: "nat \<Rightarrow> option_tree list \<Rightarrow> item list" where
  "flattens level os = concat (map (flatten level) os)"

lemma flattens_simps [simp]:
  "flattens level [] = []"
  "flattens level (os @ os') = flattens level os @ flattens level os'"
  "flattens level (Option a k v cs # os) = (level, a, k, v) # flattens (Suc level) cs @ flattens level os"
  by (simp_all add: flattens_def)

definition with_options :: "option_tree \<Rightarrow> option_tree list \<Rightarrow> option_tree" where
  "with_options parent os = Option (opt_attr parent) (opt_key parent) (opt_value parent) (opt_options parent @ os)"

lemma with_options_simps [simp]:
  "with_options parent [] = parent"
  "with_options (push_option parent opt) os = with_options parent (opt # os)"
  "with_options (Option_new a k v) os = Option a k v os"
  by (simp_all add: with_options_def push_option_def Option_new_def)

lemma items_append: "items_of (ls @ ls') =
    (case items_of ls of None \<Rightarrow> None | Some its \<Rightarrow> (case items_of ls' of None \<Rightarrow> None | Some its' \<Rightarrow> Some (its @ its')))"
  by (induction ls) (auto split: option.splits)

lemma split_line_loop_number:
  "split_line_loop line n level key word cs = Inr x \<Longrightarrow> split_line_loop line m level key word cs = Inr x"
  "split_line_loop line n level key word cs = Inl e \<Longrightarrow> \<exists>e'. split_line_loop line m level key word cs = Inl e'"
  by (induction line n level key word cs rule: split_line_loop.induct) (auto split: if_splits)

lemma split_line_loop_level: "split_line_loop line n level key word cs = Inr (level', x) \<Longrightarrow> int level \<le> level'"
  by (induction line n level key word cs rule: split_line_loop.induct) (auto split: if_splits)

lemma split_line_item:
  "split_line (pure_line l) n = Inl e \<Longrightarrow> item_of l = None"
  "split_line (pure_line l) n = Inr (- 1, key, value) \<Longrightarrow> item_of l = Some []"
  "split_line (pure_line l) n = Inr (level, key, value) \<Longrightarrow> level \<noteq> - 1 \<Longrightarrow>
    0 \<le> level \<and> item_of l = Some [(nat level, fst (attr_key key), snd (attr_key key), value)]"
proof -
  have same: "split_line (pure_line l) n = Inr x \<Longrightarrow> split_line (pure_line l) 0 = Inr x" for x
    using split_line_loop_number(1) [of "pure_line l" n 0 "[]" "[]" "pure_line l" x 0] by (simp add: split_line_def split: if_splits)
  show "split_line (pure_line l) n = Inl e \<Longrightarrow> item_of l = None"
    using split_line_loop_number(2) [of "pure_line l" n 0 "[]" "[]" "pure_line l" e 0]
    by (auto simp: item_of_def split_line_def split: if_splits)
  show "split_line (pure_line l) n = Inr (- 1, key, value) \<Longrightarrow> item_of l = Some []"
    by (drule same) (simp add: item_of_def)
  show "0 \<le> level \<and> item_of l = Some [(nat level, fst (attr_key key), snd (attr_key key), value)]"
    if x: "split_line (pure_line l) n = Inr (level, key, value)" and "level \<noteq> - 1"
    using split_line_loop_level [of "pure_line l" n 0 "[]" "[]" "pure_line l" level "(key, value)"] same [OF x] that
    by (simp add: item_of_def split_line_def split: if_splits prod.splits)
qed

text \<open>What the first item allows: to go on at the level of the option before it.\<close>

definition resumes :: "int \<Rightarrow> string list \<Rightarrow> bool" where
  "resumes p ls \<longleftrightarrow> (case ls of [] \<Rightarrow> True | l # _ \<Rightarrow> (\<exists>level x. item_of l = Some [(level, x)] \<and> int level \<le> p))"

lemma nested_resumes:
  assumes "nested q its" and "items_of ls = Some its" and "resumes (p + 1) ls"
  shows "nested p its"
proof (cases ls)
  case (Cons l ls')
  then obtain level x where "item_of l = Some [(level, x)]" "int level \<le> p + 1" using assms(3) by (auto simp: resumes_def)
  then show ?thesis using assms(1,2) Cons by (auto split: option.splits)
qed (use assms in simp)

lemma nested_append: "nested p (its @ its') \<Longrightarrow> \<exists>q. nested q its'"
proof (induction p its rule: nested.induct)
  case (2 p level x its)
  then show ?case by simp
qed auto

text \<open>What \<open>_load\<close> has read when it returns, and why it throws.\<close>

definition loaded :: "int \<Rightarrow> option_tree \<Rightarrow> string list \<Rightarrow> unit result \<times> option_tree \<times> string list \<times> nat \<Rightarrow> bool" where
  "loaded p parent ls =
     (\<lambda>(r, parent', ls', n'). case r of
        Inr _ \<Rightarrow> \<exists>used os. ls = used @ ls' \<and> parent' = with_options parent os \<and>
          items_of used = Some (flattens (nat (p + 1)) os) \<and> resumes p ls'
      | Inl _ \<Rightarrow> \<not> (\<exists>its. items_of ls = Some its \<and> nested p its))"

lemma loaded_skip: "item_of l = Some [] \<Longrightarrow> loaded p parent ls r \<Longrightarrow> loaded p parent (l # ls) r"
  by (auto simp: loaded_def split: sum.splits option.splits) (metis append_Cons items_of.simps(2) option.simps(5) append_Nil)

lemma loaded_below:
  assumes item: "item_of l = Some [(nat (p + 1), attr, key, val)]" and p: "- 1 \<le> p"
    and opt: "loaded (p + 1) (Option_new attr key val) ls (Inr x, opt, ls', n')"
    and others: "loaded p (push_option parent opt) ls' r"
  shows "loaded p parent (l # ls) r"
proof -
  have n: "nat (p + 1 + 1) = Suc (nat (p + 1))" using p by simp
  obtain used os where u: "ls = used @ ls'" "opt = Option attr key val os" "resumes (p + 1) ls'"
      "items_of used = Some (flattens (Suc (nat (p + 1))) os)"
    using opt unfolding loaded_def n by auto
  obtain q parent' ls'' n'' where r: "r = (q, parent', ls'', n'')" by (cases r) auto
  show ?thesis
  proof (cases q)
    case (Inl e)
    have "\<not> nested p its" if its: "items_of (l # ls) = Some its" for its
    proof
      assume n: "nested p its"
      obtain its' where its': "items_of ls' = Some its'"
          "its = (nat (p + 1), attr, key, val) # flattens (Suc (nat (p + 1))) os @ its'"
        using its item u(1,4) by (cases "items_of ls'") (simp_all add: items_append)
      then obtain q where "nested q its'" using n nested_append by (metis append_Cons)
      then show False using nested_resumes [OF _ its'(1) u(3)] its'(1) others r Inl by (auto simp: loaded_def)
    qed
    then show ?thesis using r Inl by (auto simp: loaded_def)
  next
    case (Inr y)
    obtain used' os' where "ls' = used' @ ls''" "parent' = with_options parent (opt # os')"
        "items_of used' = Some (flattens (nat (p + 1)) os')" "resumes p ls''"
      using others r Inr by (auto simp: loaded_def)
    then have "l # ls = (l # used @ used') @ ls''" "items_of (l # used @ used') = Some (flattens (nat (p + 1)) (opt # os'))"
      using u item by (simp_all add: items_append)
    then show ?thesis using r Inr \<open>parent' = _\<close> \<open>resumes p ls''\<close> by (auto simp: loaded_def intro!: exI)
  qed
qed

lemma load_options_loaded: "- 1 \<le> p \<Longrightarrow> loaded p parent ls (load_options p parent ls n)"
proof (induction p parent ls n rule: load_options.induct)
  case (1 p parent n)
  then show ?case by (simp add: loaded_def resumes_def) (rule exI [of _ "[]"], simp)
next
  case (2 p parent l ls n)
  show ?case
  proof (cases "split_line (pure_line l) (n + 1)")
    case (Inl e)
    then show ?thesis using split_line_item(1) [OF Inl] by (simp add: loaded_def)
  next
    case (Inr x)
    obtain level key val where x: "split_line (pure_line l) (n + 1) = Inr (level, key, val)" using Inr by (cases x) auto
    obtain attr key' where ak: "attr_key key = (attr, key')" by force
    consider "level = - 1" | "level = p + 1" "level \<noteq> - 1" | "level \<noteq> - 1" "level \<le> p" | "level \<noteq> - 1" "p + 1 < level" by linarith
    then show ?thesis
    proof cases
      case 1
      then show ?thesis using 2 x split_line_item(2) [of l "n + 1" key val] by (simp add: loaded_skip)
    next
      case 2
      then have item: "item_of l = Some [(nat (p + 1), attr, key', val)]" using split_line_item(3) [OF x] ak by simp
      obtain r opt ls' n' where o: "load_options level (Option_new attr key' val) ls (n + 1) = (r, opt, ls', n')" by (metis prod_cases4)
      have inner: "loaded (p + 1) (Option_new attr key' val) ls (r, opt, ls', n')"
        using "2.IH"(2) [OF refl x refl refl 2(2,1) refl ak [symmetric]] 2(1) o "2.prems" by simp
      show ?thesis
      proof (cases r)
        case (Inl e)
        then show ?thesis using inner x ak o 2 item by (auto simp: loaded_def split: option.splits)
      next
        case r: (Inr y)
        have "loaded p (push_option parent opt) ls' (load_options p (push_option parent opt) ls' n')"
          using "2.IH"(3) [OF refl x refl refl 2(2,1) refl ak [symmetric] o [symmetric] r refl refl] "2.prems" by simp
        from loaded_below [OF item "2.prems" inner [unfolded r] this] show ?thesis using x ak o 2 r by simp
      qed
    next
      case 3
      then have "item_of l = Some [(nat level, fst (attr_key key), snd (attr_key key), val)]" "0 \<le> level"
        using split_line_item(3) [OF x] by simp_all
      then show ?thesis using 3 x by (simp add: loaded_def resumes_def) (rule exI [of _ "[]"], simp)
    next
      case 4
      then show ?thesis using split_line_item(3) [OF x] "2.prems" x by (auto simp: loaded_def split: option.splits)
    qed
  qed
qed

section \<open>The tree of a file\<close>

lemma forest_induct [case_names none more]:
  assumes "P []" and "\<And>a k v cs os. P cs \<Longrightarrow> P os \<Longrightarrow> P (Option a k v cs # os)"
  shows "P os"
proof (induction os rule: measure_induct_rule [of "size_list size"])
  case (less os)
  show ?case
  proof (cases os)
    case (Cons o1 os')
    then show ?thesis using less assms(2) by (cases o1) simp
  qed (simp add: assms(1))
qed

lemma flattens_levels: "\<forall>i \<in> set (flattens level os). level \<le> fst i"
  by (induction os arbitrary: level rule: forest_induct) (auto dest: Suc_leD)

lemma nested_append_eq: "nested p (xs @ ys) \<longleftrightarrow> nested p xs \<and> nested (if xs = [] then p else int (fst (last xs))) ys"
  by (induction p xs rule: nested.induct) auto

lemma nested_flattens: "int level \<le> p + 1 \<Longrightarrow> nested p (flattens level os)"
proof (induction os arbitrary: level p rule: forest_induct)
  case (more a k v cs os)
  let ?cs = "flattens (Suc level) cs"
  have "?cs \<noteq> [] \<Longrightarrow> Suc level \<le> fst (last ?cs)" using flattens_levels [of "Suc level" cs] last_in_set by blast
  then have "nested (if ?cs = [] then int level else int (fst (last ?cs))) (flattens level os)" by (intro more.IH(2)) auto
  then show ?case using more by (simp add: nested_append_eq)
qed simp

text \<open>The items determine the tree.\<close>

lemma flattens_prefix:
  "flattens level os @ r = flattens level os' @ r' \<Longrightarrow> (r \<noteq> [] \<longrightarrow> fst (hd r) < level) \<Longrightarrow> (r' \<noteq> [] \<longrightarrow> fst (hd r') < level) \<Longrightarrow>
    os = os' \<and> r = r'"
proof (induction os arbitrary: level r r' os' rule: forest_induct)
  case none
  show ?case
  proof (cases os')
    case (Cons o2 os2)
    then show ?thesis using none.prems by (cases o2) simp
  qed (use none.prems in simp)
next
  case (more a k v cs os)
  show ?case
  proof (cases os')
    case Nil
    then show ?thesis using more.prems by auto
  next
    case (Cons o2 os2)
    obtain a2 k2 v2 cs2 where o2: "o2 = Option a2 k2 v2 cs2" by (cases o2)
    have low: "fst (hd (flattens level xs @ s)) < Suc level" if "flattens level xs @ s \<noteq> []" "s \<noteq> [] \<longrightarrow> fst (hd s) < level" for xs s
      using that by (cases xs; cases "hd xs") auto
    have h: "a = a2 \<and> k = k2 \<and> v = v2"
      and t: "flattens (Suc level) cs @ (flattens level os @ r) = flattens (Suc level) cs2 @ (flattens level os2 @ r')"
      using more.prems(1) Cons o2 by simp_all
    have "cs = cs2 \<and> flattens level os @ r = flattens level os2 @ r'"
      using more.IH(1) [OF t] low more.prems(2,3) by blast
    moreover from this have "os = os2 \<and> r = r'" using more.IH(2) more.prems(2,3) by blast
    ultimately show ?thesis using h Cons o2 by simp
  qed
qed

lemma flattens_inj: "flattens level os = flattens level os' \<Longrightarrow> os = os'"
  using flattens_prefix [of level os "[]" os' "[]"] by simp

lemma load_result:
  assumes "Configuration_load file c = (r, c')"
  shows "r = Inr () \<longleftrightarrow> (\<exists>its. items_of (getlines [] file) = Some its \<and> nested (- 1) its)"
    and "items_of (getlines [] file) = Some its \<Longrightarrow> nested (- 1) its \<Longrightarrow>
      \<exists>os. flattens 0 os = its \<and> c' = c\<lparr>cf_root := with_options (cf_root c) os\<rparr>"
proof -
  let ?ls = "getlines [] file"
  obtain root ls n where l: "load_options (- 1) (cf_root c) ?ls 0 = (r, root, ls, n)" "c' = c\<lparr>cf_root := root\<rparr>"
    using assms by (auto simp: Configuration_load_def split: prod.splits)
  have ok: "loaded (- 1) (cf_root c) ?ls (r, root, ls, n)" using load_options_loaded [of "- 1" "cf_root c" ?ls 0] l(1) by simp
  have good: "\<exists>os. items_of ?ls = Some (flattens 0 os) \<and> root = with_options (cf_root c) os" if inr: "r = Inr ()"
  proof -
    obtain used os where u: "?ls = used @ ls" "root = with_options (cf_root c) os" "items_of used = Some (flattens 0 os)" "resumes (- 1) ls"
      using ok inr by (auto simp: loaded_def)
    then have "ls = []" by (cases ls) (auto simp: resumes_def)
    then show ?thesis using u by auto
  qed
  show iff: "r = Inr () \<longleftrightarrow> (\<exists>its. items_of ?ls = Some its \<and> nested (- 1) its)"
  proof (cases r)
    case (Inl e)
    then show ?thesis using ok by (simp add: loaded_def)
  next
    case (Inr u)
    then show ?thesis using good nested_flattens [of 0 "- 1"] by auto
  qed
  show "\<exists>os. flattens 0 os = its \<and> c' = c\<lparr>cf_root := with_options (cf_root c) os\<rparr>"
    if "items_of ?ls = Some its" "nested (- 1) its"
    using good iff that l(2) by auto
qed

section \<open>Writing a file\<close>

text \<open>A line says an item when what is left of it without its comment does, with any blanks around the value.\<close>

definition full_key :: "string \<Rightarrow> string \<Rightarrow> string" where
  "full_key a k = (if a = [] then k else CHR 123 # a @ CHR 125 # k)"

fun says :: "string \<Rightarrow> item \<Rightarrow> bool" where
  "says l (level, a, k, v) \<longleftrightarrow>
     (\<exists>w. pure_line l = replicate level (CHR 9) @ full_key a k @ '':'' @ w \<and> (w \<noteq> [] \<longrightarrow> hd w \<noteq> CHR 9) \<and> trim w (CHR '' '') = v)"

fun plain_item :: "item \<Rightarrow> bool" where
  "plain_item (level, a, k, v) \<longleftrightarrow>
     full_key a k \<noteq> [] \<and> hd (full_key a k) \<noteq> CHR 9 \<and> CHR '' '' \<notin> set (full_key a k) \<and> CHR ''/'' \<notin> set (full_key a k) \<and>
     CHR '':'' \<notin> set (full_key a k) \<and> CHR 125 \<notin> set a \<and> (a = [] \<longrightarrow> hd k \<noteq> CHR 123)"

lemma split_tabs: "split_line_loop line n level [] [] (replicate m (CHR 9) @ cs) = split_line_loop line n (level + m) [] [] cs"
  by (induction m arbitrary: level) simp_all

lemma split_key: "CHR '' '' \<notin> set nm \<Longrightarrow> CHR ''/'' \<notin> set nm \<Longrightarrow> CHR '':'' \<notin> set nm \<Longrightarrow> (word = [] \<longrightarrow> nm \<noteq> [] \<longrightarrow> hd nm \<noteq> CHR 9) \<Longrightarrow>
    split_line_loop line n level [] word (nm @ cs) = split_line_loop line n level [] (word @ nm) cs"
  by (induction nm arbitrary: word) auto

lemma split_value: "key \<noteq> [] \<Longrightarrow> (word = [] \<longrightarrow> w \<noteq> [] \<longrightarrow> hd w \<noteq> CHR 9) \<Longrightarrow>
    split_line_loop line n level key word w = Inr (int level, key, trim (word @ w) (CHR '' ''))"
  by (induction w arbitrary: word) auto

lemma attr_loop_closed: "CHR 125 \<notin> set a \<Longrightarrow> attr_loop key acc (a @ CHR 125 # k) = (acc @ a, k)"
  by (induction a arbitrary: acc) auto

lemma attr_key_full: "CHR 125 \<notin> set a \<Longrightarrow> (a = [] \<longrightarrow> k \<noteq> [] \<longrightarrow> hd k \<noteq> CHR 123) \<Longrightarrow> attr_key (full_key a k) = (a, k)"
  by (cases k) (auto simp: attr_key_def full_key_def attr_loop_closed)

lemma item_of_says:
  assumes "says l (level, a, k, v)" and p: "plain_item (level, a, k, v)"
  shows "item_of l = Some [(level, a, k, v)]"
proof -
  obtain w where w: "pure_line l = replicate level (CHR 9) @ full_key a k @ '':'' @ w" "w \<noteq> [] \<longrightarrow> hd w \<noteq> CHR 9" "trim w (CHR '' '') = v"
    using assms(1) by auto
  have "split_line (pure_line l) 0 = Inr (int level, full_key a k, v)"
    using p w(2,3) by (simp add: split_line_def w(1) split_tabs split_key split_value)
  moreover have "attr_key (full_key a k) = (a, k)" using p by (intro attr_key_full) auto
  ultimately show ?thesis by (simp add: item_of_def)
qed

lemma items_of_says:
  "list_all2 says (filter (\<lambda>l. pure_line l \<noteq> []) ls) its \<Longrightarrow> \<forall>i \<in> set its. plain_item i \<Longrightarrow> items_of ls = Some its"
proof (induction ls arbitrary: its)
  case (Cons l ls)
  show ?case
  proof (cases "pure_line l = []")
    case True
    then have "item_of l = Some []" by (simp add: item_of_def split_line_def)
    then show ?thesis using Cons True by simp
  next
    case False
    then obtain i its' where i: "its = i # its'" "says l i" using Cons.prems(1) by (auto simp: list_all2_Cons1)
    then have "item_of l = Some [i]" using Cons.prems(2) by (cases i) (simp add: item_of_says del: says.simps plain_item.simps)
    then show ?thesis using Cons False i by simp
  qed
qed simp

section \<open>Searching a tree\<close>

text \<open>A pattern of attribute, key and value, of which the empty ones stand for any; the value between brackets.\<close>

type_synonym pattern = "string \<times> string \<times> string"

fun accepts :: "pattern \<Rightarrow> option_tree \<Rightarrow> bool" where
  "accepts (a, k, v) opt \<longleftrightarrow> (a = [] \<or> a = opt_attr opt) \<and> (k = [] \<or> k = opt_key opt) \<and> (v = [] \<or> v = opt_value opt)"

fun pattern_text :: "pattern \<Rightarrow> string" where
  "pattern_text (a, k, v) = full_key a k @ (if v = [] then [] else '':['' @ v @ '']'')"

fun plain_pattern :: "pattern \<Rightarrow> bool" where
  "plain_pattern (a, k, v) \<longleftrightarrow>
     (a, k, v) \<noteq> ([], [], []) \<and> set (full_key a k) \<inter> {CHR ''/'', CHR '':'', CHR ''['', CHR '']'', CHR 0x0A} = {} \<and>
     CHR 125 \<notin> set a \<and> (a = [] \<longrightarrow> k \<noteq> [] \<longrightarrow> hd k \<noteq> CHR 123) \<and> set v \<inter> {CHR ''['', CHR '']'', CHR 0x0A} = {}"

fun reached :: "pattern list \<Rightarrow> option_tree \<Rightarrow> option_tree list" where
  "reached [] opt = [opt]"
| "reached (p # ps) opt = concat (map (reached ps) (filter (accepts p) (opt_options opt)))"

fun path_text :: "pattern list \<Rightarrow> string" where
  "path_text [] = []"
| "path_text (p # ps) = ''/'' @ pattern_text p @ path_text ps"

lemma part_outside: "set xs \<inter> {CHR ''['', CHR '']'', d} = {} \<Longrightarrow> get_part_loop d 0 res (xs @ ss) = get_part_loop d 0 (res @ xs) ss"
  by (induction xs arbitrary: res) auto

lemma part_inside: "set xs \<inter> {CHR ''['', CHR '']''} = {} \<Longrightarrow> get_part_loop d (Suc 0) res (xs @ ss) = get_part_loop d (Suc 0) (res @ xs) ss"
  by (induction xs arbitrary: res) auto

lemma get_line_until: "d \<notin> set xs \<Longrightarrow> get_line d (xs @ d # ys) = (xs, ys)" "d \<notin> set xs \<Longrightarrow> get_line d xs = (xs, [])"
  by (induction xs) auto

lemma path_part_plain:
  assumes "plain_pattern (a, k, v)" and "CHR 0x0A \<notin> set sub"
  shows "path_part (pattern_text (a, k, v) @ ''/'' @ sub) = (a, k, v, sub)" "path_part (pattern_text (a, k, v)) = (a, k, v, [])"
proof -
  let ?part = "full_key a k @ (if v = [] then [] else '':'' @ v)"
  have k: "set (full_key a k) \<inter> {CHR ''['', CHR '']'', CHR ''/''} = {}" "CHR '':'' \<notin> set (full_key a k)" using assms(1) by auto
  have v: "set v \<inter> {CHR ''['', CHR '']''} = {}" "CHR 0x0A \<notin> set v" using assms(1) by auto
  have ak: "attr_key (full_key a k) = (a, k)" using assms(1) by (intro attr_key_full) auto
  have "get_part (pattern_text (a, k, v) @ ''/'' @ sub) (CHR ''/'') = (?part, sub)"
    "get_part (pattern_text (a, k, v)) (CHR ''/'') = (?part, [])"
    using part_outside [OF k(1)] part_inside [OF v(1)] part_outside [OF k(1), of _ "[]"]
    by (simp_all add: get_part_def)
  moreover have "get_line (CHR '':'') ?part = (full_key a k, v)"
    using get_line_until [OF k(2)] by simp
  ultimately show "path_part (pattern_text (a, k, v) @ ''/'' @ sub) = (a, k, v, sub)" "path_part (pattern_text (a, k, v)) = (a, k, v, [])"
    using ak get_line_until(2) [OF v(2)] get_line_until(2) [OF assms(2)] by (simp_all add: path_part_def)
qed

text \<open>A path, with or without a slash at its end.\<close>

definition path_end :: "string \<Rightarrow> bool" where "path_end e \<longleftrightarrow> e = [] \<or> e = ''/''"

lemma plain_pattern_text: "plain_pattern p \<Longrightarrow> pattern_text p \<noteq> [] \<and> CHR 0x0A \<notin> set (pattern_text p)"
  by (cases p) (auto simp: full_key_def split: if_splits)

lemma path_text_line: "\<forall>p \<in> set ps. plain_pattern p \<Longrightarrow> path_end e \<Longrightarrow> CHR 0x0A \<notin> set (path_text ps @ e)"
  using plain_pattern_text by (induction ps) (auto simp: path_end_def)

lemma found_accepts: "found a k v = accepts (a, k, v)"
  by (rule ext) (auto simp: found_def)

text \<open>What a search does at an option with the first of the patterns.\<close>

lemma path_part_path:
  assumes "plain_pattern (a, k, v)" and "\<forall>p \<in> set ps. plain_pattern p" and "path_end e"
  shows "path_part (pattern_text (a, k, v) @ path_text ps @ e) = (a, k, v, tl (path_text ps @ e))"
proof (cases ps)
  case Nil
  then show ?thesis using assms path_part_plain [OF assms(1), of "[]"] by (auto simp: path_end_def)
next
  case (Cons p ps')
  have "CHR 0x0A \<notin> set (pattern_text p @ path_text ps' @ e)"
    using path_text_line [OF assms(2,3)] Cons by simp
  from path_part_plain(1) [OF assms(1) this] show ?thesis using Cons by simp
qed

lemma list_each_concat:
  assumes "\<And>x result. x \<in> set os \<Longrightarrow> list_of x sub result = result @ f x"
  shows "list_each os sub result = result @ concat (map f os)"
  using assms by (induction os arbitrary: result) simp_all

lemma childs_each_concat:
  assumes "\<And>x result. x \<in> set os \<Longrightarrow> childs_of x sub result = result @ f x"
  shows "childs_each os sub result = result @ concat (map f os)"
  using assms by (induction os arbitrary: result) simp_all

lemma concat_filter: "concat (map (\<lambda>x. if P x then f x else []) xs) = concat (map f (filter P xs))"
  by (induction xs) simp_all

lemma concat_options: "concat (map (\<lambda>x. concat (map opt_options (reached ps x))) xs) = concat (map opt_options (concat (map (reached ps) xs)))"
  by (induction xs) simp_all

lemma list_of_reached:
  "plain_pattern p \<Longrightarrow> \<forall>q \<in> set ps. plain_pattern q \<Longrightarrow> path_end e \<Longrightarrow>
    list_of opt (pattern_text p @ path_text ps @ e) result = result @ (if accepts p opt then reached ps opt else [])"
proof (induction ps arbitrary: p opt result)
  case Nil
  obtain a k v where p: "p = (a, k, v)" by (cases p)
  then show ?case using Nil path_part_path [of a k v "[]" e]
    by (cases opt) (auto simp: found_accepts path_end_def simp del: pattern_text.simps)
next
  case (Cons q ps)
  obtain a k v where p: "p = (a, k, v)" by (cases p)
  let ?sub = "pattern_text q @ path_text ps @ e"
  have sub: "pattern_text q \<noteq> []" using plain_pattern_text [of q] Cons.prems by simp
  have "list_each os ?sub result = result @ concat (map (reached ps) (filter (accepts q) os))" for os
    using list_each_concat [of os ?sub "\<lambda>x. if accepts q x then reached ps x else []"] Cons.IH Cons.prems
    by (simp add: concat_filter)
  then show ?case using Cons.prems path_part_path [of a k v "q # ps" e] sub
    by (cases opt) (simp add: p found_accepts del: pattern_text.simps plain_pattern.simps)
qed

lemma childs_of_reached:
  "plain_pattern p \<Longrightarrow> \<forall>q \<in> set ps. plain_pattern q \<Longrightarrow> path_end e \<Longrightarrow>
    childs_of opt (pattern_text p @ path_text ps @ e) result =
      result @ (if accepts p opt then concat (map opt_options (reached ps opt)) else [])"
proof (induction ps arbitrary: p opt result)
  case Nil
  obtain a k v where p: "p = (a, k, v)" by (cases p)
  have "childs_each os [] result = result @ os" for os
  proof -
    have "childs_of x [] r = r @ [x]" for x r by (cases x) simp
    then show ?thesis using childs_each_concat [of os "[]" "\<lambda>x. [x]" result] by simp
  qed
  then show ?case using Nil path_part_path [of a k v "[]" e] plain_pattern_text [of p]
    by (cases opt) (auto simp: p found_accepts path_end_def simp del: pattern_text.simps)
next
  case (Cons q ps)
  obtain a k v where p: "p = (a, k, v)" by (cases p)
  let ?sub = "pattern_text q @ path_text ps @ e"
  have "childs_each os ?sub result = result @ concat (map (\<lambda>x. concat (map opt_options (reached ps x))) (filter (accepts q) os))" for os
    using childs_each_concat [of os ?sub "\<lambda>x. if accepts q x then concat (map opt_options (reached ps x)) else []"] Cons.IH Cons.prems
    by (simp add: concat_filter)
  then show ?case using Cons.prems path_part_path [of a k v "q # ps" e] plain_pattern_text [of p]
    by (cases opt) (simp add: p found_accepts concat_options del: pattern_text.simps)
qed

lemma path_part_root: "CHR 0x0A \<notin> set sub \<Longrightarrow> path_part (CHR ''/'' # sub) = ([], [], [], sub)"
  by (simp add: path_part_def get_part_def attr_key_def get_line_until(2))

lemma root_path:
  assumes "ps \<noteq> []" and "\<forall>p \<in> set ps. plain_pattern p" and "path_end e"
  obtains p qs where "ps = p # qs" "plain_pattern p" "\<forall>q \<in> set qs. plain_pattern q"
    "path_part (path_text ps @ e) = ([], [], [], pattern_text p @ path_text qs @ e)" "pattern_text p \<noteq> []"
proof -
  obtain p qs where ps: "ps = p # qs" using assms(1) by (cases ps) auto
  have "CHR 0x0A \<notin> set (pattern_text p @ path_text qs @ e)" using path_text_line [OF assms(2,3)] ps by simp
  from path_part_root [OF this] show ?thesis using that ps assms plain_pattern_text [of p] by simp
qed

lemma list_of_root:
  assumes "ps \<noteq> []" and "\<forall>p \<in> set ps. plain_pattern p" and "path_end e"
  shows "list_of root (path_text ps @ e) result = result @ reached ps root"
proof -
  obtain p qs where p: "ps = p # qs" "plain_pattern p" "\<forall>q \<in> set qs. plain_pattern q"
    "path_part (path_text ps @ e) = ([], [], [], pattern_text p @ path_text qs @ e)" "pattern_text p \<noteq> []"
    using root_path [OF assms] by blast
  have "list_each os (pattern_text p @ path_text qs @ e) result = result @ concat (map (reached qs) (filter (accepts p) os))" for os
    using list_each_concat [of os _ "\<lambda>x. if accepts p x then reached qs x else []"] list_of_reached [OF p(2,3) assms(3)]
    by (simp add: concat_filter)
  then show ?thesis using p(4,5) by (cases root) (simp add: p(1) found_def)
qed

lemma childs_of_root:
  assumes "ps \<noteq> []" and "\<forall>p \<in> set ps. plain_pattern p" and "path_end e"
  shows "childs_of root (path_text ps @ e) result = result @ concat (map opt_options (reached ps root))"
proof -
  obtain p qs where p: "ps = p # qs" "plain_pattern p" "\<forall>q \<in> set qs. plain_pattern q"
    "path_part (path_text ps @ e) = ([], [], [], pattern_text p @ path_text qs @ e)" "pattern_text p \<noteq> []"
    using root_path [OF assms] by blast
  have "childs_each os (pattern_text p @ path_text qs @ e) result =
      result @ concat (map (\<lambda>x. concat (map opt_options (reached qs x))) (filter (accepts p) os))" for os
    using childs_each_concat [of os _ "\<lambda>x. if accepts p x then concat (map opt_options (reached qs x)) else []"]
      childs_of_reached [OF p(2,3) assms(3)] by (simp add: concat_filter)
  then show ?thesis using p(4,5) by (cases root) (simp add: p(1) found_def concat_options)
qed

lemma load_written:
  assumes "list_all2 says (filter (\<lambda>l. pure_line l \<noteq> []) (getlines [] file)) (flattens 0 os)"
    and "\<forall>i \<in> set (flattens 0 os). plain_item i"
  shows "Configuration_of file = Inr \<lparr>cf_root = Option [] [] [] os\<rparr>"
proof -
  obtain r c' where l: "Configuration_load file Configuration_new = (r, c')" by force
  have its: "items_of (getlines [] file) = Some (flattens 0 os)" using items_of_says [OF assms] .
  have n: "nested (- 1) (flattens 0 os)" by (rule nested_flattens) simp
  have "r = Inr ()" using load_result(1) [OF l] its n by blast
  moreover obtain os' where "flattens 0 os' = flattens 0 os" "c' = Configuration_new\<lparr>cf_root := with_options (cf_root Configuration_new) os'\<rparr>"
    using load_result(2) [OF l its n] by blast
  ultimately show ?thesis using l flattens_inj [of 0 os' os]
    by (simp add: Configuration_of_def Configuration_new_def)
qed

text \<open>C34. A file is loaded exactly when every line of it splits and none is more than one level below the line before it;
  otherwise \<open>load\<close> throws. What is loaded is the tree whose options, each before its own options, are the items of the
  file, attribute, key, value and level.\<close>

theorem configuration_load:
  "case Configuration_load file c of
     (Inl e, _) \<Rightarrow> \<not> (\<exists>its. items_of (getlines [] file) = Some its \<and> nested (- 1) its)
   | (Inr _, c') \<Rightarrow> \<exists>os. items_of (getlines [] file) = Some (flattens 0 os) \<and> nested (- 1) (flattens 0 os) \<and>
       c' = c\<lparr>cf_root := with_options (cf_root c) os\<rparr>"
proof -
  obtain r c' where l: "Configuration_load file c = (r, c')" by force
  show ?thesis
  proof (cases r)
    case (Inl e)
    then show ?thesis using load_result(1) [OF l] l by simp
  next
    case (Inr u)
    then obtain its where its: "items_of (getlines [] file) = Some its" "nested (- 1) its" using load_result(1) [OF l] by auto
    from load_result(2) [OF l its] its show ?thesis by (auto simp: l Inr)
  qed
qed


text \<open>C36. \<open>list\<close>, \<open>childs\<close> and \<open>get\<close> agree with their reference: all options, in order, that the patterns of the path reach
  from the root, the options of those, and the value of the first, the variable being left alone when there is none.\<close>

theorem configuration_search:
  assumes "ps \<noteq> []" and "\<forall>p \<in> set ps. plain_pattern p" and "path_end e"
  shows "Configuration_list (path_text ps @ e) [] c = (reached ps (cf_root c) \<noteq> [], reached ps (cf_root c)) \<and>
    Configuration_childs (path_text ps @ e) [] c =
      (concat (map opt_options (reached ps (cf_root c))) \<noteq> [], concat (map opt_options (reached ps (cf_root c)))) \<and>
    Configuration_get (path_text ps @ e) old c =
      (case reached ps (cf_root c) of [] \<Rightarrow> (False, old) | opt # _ \<Rightarrow> (True, opt_value opt))"
  using list_of_root [OF assms, of "cf_root c"] childs_of_root [OF assms, of "cf_root c"]
  by (cases "reached ps (cf_root c)")
    (simp_all add: Configuration_list_def Configuration_list_from_def Configuration_childs_def Configuration_childs_from_def
      Configuration_get_def Configuration_get_from_def)

section \<open>The configuration of a connector\<close>

definition connector_conf :: "(string \<Rightarrow> string option) \<Rightarrow> byte list \<Rightarrow> (byte list \<Rightarrow> byte list option) result" where
  "connector_conf files path =
     bind_res (Configuration_of_file files (text_of path)) (\<lambda>c. Inr (\<lambda>p.
       case Configuration_get (text_of p) [] c of (True, v) \<Rightarrow> Some (octets_of_text v) | (False, _) \<Rightarrow> None))"

lemma text_of_octets: "text_of (octets_of_text s) = s"
  using text_of_ascii [of s] by (simp add: octets_of_text_def ascii_def)

definition key_path :: "string \<Rightarrow> string" where "key_path k = ''/'' @ k @ ''/''"

fun option_value :: "string \<Rightarrow> option_tree list \<Rightarrow> string option" where
  "option_value k [] = None"
| "option_value k (opt # os) = (if opt_key opt = k then Some (opt_value opt) else option_value k os)"

lemma get_key:
  assumes "set k \<inter> {CHR ''/'', CHR '':'', CHR ''['', CHR '']'', CHR 0x0A} = {}" and "k \<noteq> []" and "hd k \<noteq> CHR 123"
  shows "Configuration_get (key_path k) old \<lparr>cf_root = Option [] [] [] os\<rparr> =
    (case option_value k os of None \<Rightarrow> (False, old) | Some v \<Rightarrow> (True, v))"
proof -
  have "list_of (Option [] [] [] os) (key_path k) [] = filter (\<lambda>opt. opt_key opt = k) os"
  proof -
    have "concat (map (reached []) (filter (accepts ([], k, [])) os)) = filter (\<lambda>opt. opt_key opt = k) os"
      using assms(2) by (induction os) auto
    moreover have "list_of (Option [] [] [] os) (key_path k) [] = reached [([], k, [])] (Option [] [] [] os)"
      using list_of_root [of "[([], k, [])]" "''/''" "Option [] [] [] os" "[]"] assms
      by (simp add: key_path_def path_end_def full_key_def del: list_of.simps)
    ultimately show ?thesis by simp
  qed
  moreover have "(case filter (\<lambda>opt. opt_key opt = k) os of [] \<Rightarrow> (False, old) | opt # _ \<Rightarrow> (True, opt_value opt)) =
      (case option_value k os of None \<Rightarrow> (False, old) | Some v \<Rightarrow> (True, v))"
    by (induction os) auto
  ultimately show ?thesis
    by (simp add: Configuration_get_def Configuration_get_from_def Configuration_list_from_def split: list.splits option.splits)
qed


lemma brackets_never_close: "2 \<le> counter \<Longrightarrow> snd (get_part_loop d counter res ss) = []"
  by (induction d counter res ss rule: get_part_loop.induct) auto

text \<open>The values of an argument are those that follow its name, in order.\<close>

definition arg_values :: "string \<Rightarrow> arguments \<Rightarrow> string list" where
  "arg_values n a = snd (Argument_get_values n [] a)"

lemma argument_values:
  assumes "\<forall>(n, v) \<in> set nvs. n \<noteq> [] \<and> hd n = CHR ''-'' \<and> CHR ''='' \<notin> set n \<and> (v \<noteq> [] \<longrightarrow> hd v \<noteq> CHR ''-'')"
  shows "arg_values n (Argument_new (prog # concat (map (\<lambda>(n, v). [n, v]) nvs))) = map snd (filter (\<lambda>(m, _). m = n) nvs)"
proof -
  have "arg_values n (Argument_loop name a (concat (map (\<lambda>(n, v). [n, v]) nvs))) = arg_values n a @ map snd (filter (\<lambda>(m, _). m = n) nvs)" for name a
    using assms
  proof (induction nvs arbitrary: name a)
    case (Cons nv nvs)
    then show ?case
      by (cases nv) (auto simp: arg_values_def Argument_get_values_def push_arg_def split: option.splits)
  qed simp
  then show ?thesis by (simp add: Argument_new_def arg_values_def Argument_get_values_def)
qed

definition sample_conf :: string where
  "sample_conf = ''HOST: localhost'' @ [CHR 0x0A] @ ''# the server'' @ [CHR 0x0A, CHR 0x0A] @ ''SERVER:'' @ [CHR 0x0A, CHR 9] @ ''{a}PORT:2160 # tcp''"

definition sample_tree :: "option_tree list" where
  "sample_tree = [Option [] ''HOST'' ''localhost'' [], Option [] ''SERVER'' [] [Option ''a'' ''PORT'' ''2160'' []]]"


lemma configuration_search_witness:
  "Configuration_get ''/SERVER/{a}PORT/'' [] \<lparr>cf_root = Option [] [] [] sample_tree\<rparr> = (True, ''2160'')"
proof -
  let ?ps = "[([], ''SERVER'', []), (''a'', ''PORT'', [])]"
  have "\<forall>p \<in> set ?ps. plain_pattern p" by (simp add: full_key_def)
  from configuration_search [OF _ this, of "''/''" "\<lparr>cf_root = Option [] [] [] sample_tree\<rparr>" "[]"]
  show ?thesis by (simp add: path_end_def full_key_def sample_tree_def)
qed

definition sample_connector :: string where
  "sample_connector = ''HOST: localhost # here'' @ [CHR 0x0A, CHR 0x0A] @ ''PORT:2160'' @ [CHR 0x0A]"


end
