(* ===== verification/Ordered_Map.thy ===== *)
theory Ordered_Map
  imports Zig_Prelude
begin

text \<open>
  \<open>std::map\<close> of strings, as the list of its pairs in the order of the keys, which is the order it is read in.
\<close>

fun string_less :: "string \<Rightarrow> string \<Rightarrow> bool" where
  "string_less xs [] = False"
| "string_less [] (y # ys) = True"
| "string_less (x # xs) (y # ys) =
     ((of_char x :: nat) < of_char y \<or> x = y \<and> string_less xs ys)"

fun map_set :: "string \<Rightarrow> 'v \<Rightarrow> (string \<times> 'v) list \<Rightarrow> (string \<times> 'v) list" where
  "map_set k v [] = [(k, v)]"
| "map_set k v ((k', v') # es) =
     (if k = k' then (k, v) # es else if string_less k k' then (k, v) # (k', v') # es else (k', v') # map_set k v es)"

text \<open>\<open>operator[]\<close>, which makes the pair it does not find.\<close>

definition map_at :: "string \<Rightarrow> 'v \<Rightarrow> (string \<times> 'v) list \<Rightarrow> 'v \<times> (string \<times> 'v) list" where
  "map_at k d es = (case map_of es k of Some v \<Rightarrow> (v, es) | None \<Rightarrow> (d, map_set k d es))"

definition map_erase :: "string \<Rightarrow> (string \<times> 'v) list \<Rightarrow> (string \<times> 'v) list" where
  "map_erase k es = filter (\<lambda>(k', _). k' \<noteq> k) es"

lemma map_of_set [simp]: "map_of (map_set k v es) = (map_of es)(k \<mapsto> v)"
  by (induction k v es rule: map_set.induct) auto

lemma map_of_erase [simp]: "map_of (map_erase k es) = (map_of es)(k := None)"
  by (induction es) (auto simp: map_erase_def)

lemma length_map_set: "length (map_set k v es) \<le> Suc (length es)"
  by (induction k v es rule: map_set.induct) auto

lemma set_map_set: "set (map_set k v es) \<subseteq> insert (k, v) (set es)"
  by (induction k v es rule: map_set.induct) auto

end
