(* ===== verification/HTTP_Response.thy ===== *)
theory HTTP_Response
  imports HTTP_Server Ordered_Map
begin

text \<open>
  \<open>HTTP/httpresponse.cpp\<close>: the answer to a request, and how the answers on one connection take turns. A
  \<open>String\<close> is a string or null. What waits for its turn
  and does not have it is \<open>None\<close>: the calls under the lock are one step.
\<close>

section \<open>A response\<close>

record http_response =
  rs_request :: http_request
  rs_request_id :: nat
  rs_protocol :: string
  rs_status_code :: int
  rs_reason_phrase :: string
  rs_headers :: "(string \<times> string) list"
  rs_cookies :: "(string \<times> (string \<times> string) list) list"
  rs_echo_buffer :: string
  rs_headers_flushed :: bool
  rs_close :: bool

text \<open>The stream of the connection and whose turn it is.\<close>

record channel =
  ch_dispatch_id :: nat
  ch_written :: string

text \<open>\<open>_close\<close> has no initial value.\<close>

definition HTTPResponse_new :: "bool \<Rightarrow> http_request \<Rightarrow> nat \<Rightarrow> http_response" where
  "HTTPResponse_new m request request_id =
     \<lparr>rs_request = request, rs_request_id = request_id, rs_protocol = ''HTTP/1.1'', rs_status_code = 200,
      rs_reason_phrase = ''OK'', rs_headers = [], rs_cookies = [], rs_echo_buffer = [], rs_headers_flushed = False,
      rs_close = m\<rparr>"

definition PROTOCOL :: "http_response \<Rightarrow> string" where "PROTOCOL r = rs_protocol r"

definition SET_PROTOCOL :: "string option \<Rightarrow> http_response \<Rightarrow> http_response result" where
  "SET_PROTOCOL protocol r = (case protocol of None \<Rightarrow> Inl NullException | Some p \<Rightarrow> Inr (r\<lparr>rs_protocol := p\<rparr>))"

definition STATUS_CODE :: "http_response \<Rightarrow> int" where "STATUS_CODE r = rs_status_code r"

definition SET_STATUS_CODE :: "32 word option \<Rightarrow> http_response \<Rightarrow> http_response result" where
  "SET_STATUS_CODE status_code r =
     (case status_code of None \<Rightarrow> Inl NullException | Some s \<Rightarrow> Inr (r\<lparr>rs_status_code := sint s\<rparr>))"

definition REASON_PHRASE :: "http_response \<Rightarrow> string" where "REASON_PHRASE r = rs_reason_phrase r"

definition SET_REASON_PHRASE :: "string option \<Rightarrow> http_response \<Rightarrow> http_response result" where
  "SET_REASON_PHRASE reason_phrase r =
     (case reason_phrase of None \<Rightarrow> Inl NullException | Some p \<Rightarrow> Inr (r\<lparr>rs_reason_phrase := p\<rparr>))"

definition set_echo_buffer :: "string \<Rightarrow> http_response \<Rightarrow> http_response" where
  "set_echo_buffer echo_buffer r = r\<lparr>rs_echo_buffer := echo_buffer\<rparr>"

text \<open>Headers, by their names in capitals. \<open>HEADER\<close> of a header that is not there makes it, empty.\<close>

definition header_key :: "string \<Rightarrow> string" where "header_key header = to_upper (trim header (CHR '' ''))"

definition response_HEADER :: "string option \<Rightarrow> http_response \<Rightarrow> (string \<times> http_response) result" where
  "response_HEADER header r =
     (case header of None \<Rightarrow> Inl NullException
      | Some h \<Rightarrow> (let (v, hs) = map_at (header_key h) [] (rs_headers r) in Inr (v, r\<lparr>rs_headers := hs\<rparr>)))"

definition response_HAS_HEADER :: "string option \<Rightarrow> http_response \<Rightarrow> bool result" where
  "response_HAS_HEADER header r =
     (case header of None \<Rightarrow> Inl NullException | Some h \<Rightarrow> Inr (map_of (rs_headers r) (header_key h) \<noteq> None))"

definition set_header :: "string \<Rightarrow> string \<Rightarrow> http_response \<Rightarrow> http_response" where
  "set_header header v r = r\<lparr>rs_headers := map_set (header_key header) v (rs_headers r)\<rparr>"

definition SET_HEADER :: "string option \<Rightarrow> string option \<Rightarrow> http_response \<Rightarrow> http_response result" where
  "SET_HEADER header v r =
     (case (header, v) of (Some h, Some v) \<Rightarrow> Inr (set_header h v r) | _ \<Rightarrow> Inl NullException)"

definition REMOVE_HEADER :: "string option \<Rightarrow> http_response \<Rightarrow> http_response result" where
  "REMOVE_HEADER header r =
     (case header of None \<Rightarrow> Inl NullException
      | Some h \<Rightarrow> Inr (r\<lparr>rs_headers := map_erase (header_key h) (rs_headers r)\<rparr>))"

text \<open>Cookies: the value of a cookie is its attribute of the same name.\<close>

definition COOKIE_ATTRIBUTE :: "string option \<Rightarrow> string option \<Rightarrow> http_response \<Rightarrow> (string \<times> http_response) result" where
  "COOKIE_ATTRIBUTE cookie attribute r =
     (case (cookie, attribute) of
        (Some c, Some a) \<Rightarrow>
          (let (attrs, cs) = map_at c [] (rs_cookies r); (v, attrs) = map_at a [] attrs in
           Inr (v, r\<lparr>rs_cookies := map_set c attrs cs\<rparr>))
      | _ \<Rightarrow> Inl NullException)"

definition response_COOKIE :: "string option \<Rightarrow> http_response \<Rightarrow> (string \<times> http_response) result" where
  "response_COOKIE cookie r = COOKIE_ATTRIBUTE cookie cookie r"

definition response_HAS_COOKIE :: "string option \<Rightarrow> http_response \<Rightarrow> bool result" where
  "response_HAS_COOKIE cookie r =
     (case cookie of None \<Rightarrow> Inl NullException | Some c \<Rightarrow> Inr (map_of (rs_cookies r) c \<noteq> None))"

definition SET_COOKIE_ATTRIBUTE :: "string option \<Rightarrow> string option \<Rightarrow> string option \<Rightarrow> http_response \<Rightarrow> http_response result" where
  "SET_COOKIE_ATTRIBUTE cookie attribute v r =
     (case (cookie, attribute, v) of
        (Some c, Some a, Some v) \<Rightarrow>
          (let (attrs, cs) = map_at c [] (rs_cookies r) in Inr (r\<lparr>rs_cookies := map_set c (map_set a v attrs) cs\<rparr>))
      | _ \<Rightarrow> Inl NullException)"

definition SET_COOKIE :: "string option \<Rightarrow> string option \<Rightarrow> http_response \<Rightarrow> http_response result" where
  "SET_COOKIE cookie v r = SET_COOKIE_ATTRIBUTE cookie cookie v r"

definition REMOVE_COOKIE :: "string option \<Rightarrow> http_response \<Rightarrow> http_response result" where
  "REMOVE_COOKIE cookie r =
     (case cookie of None \<Rightarrow> Inl NullException | Some c \<Rightarrow> Inr (r\<lparr>rs_cookies := map_erase c (rs_cookies r)\<rparr>))"

definition HAS_COOKIE_ATTRIBUTE :: "string option \<Rightarrow> string option \<Rightarrow> http_response \<Rightarrow> (bool \<times> http_response) result" where
  "HAS_COOKIE_ATTRIBUTE cookie attribute r =
     (case (cookie, attribute) of
        (Some c, Some a) \<Rightarrow>
          (let (attrs, cs) = map_at c [] (rs_cookies r) in Inr (map_of attrs a \<noteq> None, r\<lparr>rs_cookies := cs\<rparr>))
      | _ \<Rightarrow> Inl NullException)"

definition REMOVE_COOKIE_ATTRIBUTE :: "string option \<Rightarrow> string option \<Rightarrow> http_response \<Rightarrow> http_response result" where
  "REMOVE_COOKIE_ATTRIBUTE cookie attribute r =
     (case cookie of None \<Rightarrow> Inl NullException
      | Some c \<Rightarrow>
          (case map_of (rs_cookies r) c of None \<Rightarrow> Inr r
           | Some attrs \<Rightarrow>
               (case attribute of None \<Rightarrow> Inl NullException
                | Some a \<Rightarrow> Inr (r\<lparr>rs_cookies := map_set c (map_erase a attrs) (rs_cookies r)\<rparr>))))"

text \<open>Looking a header up makes it; so does looking a cookie up, and both are then written.\<close>

lemma header_lookup:
  "\<exists>r'. response_HEADER (Some h) r = Inr (case map_of (rs_headers r) (header_key h) of None \<Rightarrow> [] | Some v \<Rightarrow> v, r') \<and>
    response_HAS_HEADER (Some h) r' = Inr True"
  by (auto simp: response_HEADER_def response_HAS_HEADER_def map_at_def split: option.splits)

lemma cookie_lookup: "\<exists>v r'. response_COOKIE (Some c) r = Inr (v, r') \<and> response_HAS_COOKIE (Some c) r' = Inr True"
  by (simp add: response_COOKIE_def COOKIE_ATTRIBUTE_def response_HAS_COOKIE_def split: prod.splits)

section \<open>Writing\<close>

definition header_case :: "string \<Rightarrow> string" where
  "header_case header =
     map (\<lambda>i. if i = 0 then upper_char (header ! i) else if header ! (i - 1) = CHR ''-'' then upper_char (header ! i)
              else lower_char (header ! i)) [0..<length header]"

definition int_text :: "int \<Rightarrow> string" where
  "int_text i = (if i < 0 then CHR ''-'' # decimal (nat (- i)) else decimal (nat i))"

definition header_field :: "string \<times> string \<Rightarrow> string" where
  "header_field p = header_case (fst p) @ '': '' @ snd p"

definition attribute_text :: "string \<Rightarrow> string \<times> string \<Rightarrow> string" where
  "attribute_text cookie attr =
     (if fst attr = cookie then [] else fst attr @ (if snd attr \<noteq> [] then CHR ''='' # snd attr else []) @ '';'')"

text \<open>\<open>pair.second[pair.first]\<close> makes the value of a cookie that has only attributes; the last semicolon is written over.\<close>

definition cookie_line :: "string \<times> (string \<times> string) list \<Rightarrow> string" where
  "cookie_line p =
     (let (v, attrs) = map_at (fst p) [] (snd p) in
      butlast (''Set-Cookie: '' @ fst p @ CHR ''='' # v @ '';'' @ concat (map (attribute_text (fst p)) attrs)))"

definition valued_cookie :: "string \<times> (string \<times> string) list \<Rightarrow> string \<times> (string \<times> string) list" where
  "valued_cookie p = (fst p, snd (map_at (fst p) [] (snd p)))"

definition head_text :: "bool \<Rightarrow> http_response \<Rightarrow> string" where
  "head_text has_content r =
     rs_protocol r @ '' '' @ int_text (rs_status_code r) @ '' '' @ rs_reason_phrase r @ crlf @
     concat (map (\<lambda>p. header_field p @ crlf) (rs_headers r)) @
     (if has_content then ''Content-Length: '' @ decimal (length (rs_echo_buffer r)) @ crlf else []) @
     concat (map (\<lambda>p. cookie_line p @ crlf) (rs_cookies r)) @ crlf"

definition flush :: "bool \<Rightarrow> http_response \<Rightarrow> channel \<Rightarrow> (http_response \<times> channel) option" where
  "flush has_content r ch =
     (if rs_headers_flushed r then
        (if length (rs_echo_buffer r) > 0 then
           Some (r\<lparr>rs_echo_buffer := []\<rparr>, ch\<lparr>ch_written := ch_written ch @ rs_echo_buffer r\<rparr>)
         else Some (r, ch))
      else if rs_request_id r \<noteq> ch_dispatch_id ch then None
      else
        (let ch = ch\<lparr>ch_written := ch_written ch @ head_text has_content r @ rs_echo_buffer r, ch_dispatch_id := ch_dispatch_id ch + 1\<rparr>;
             closes = (case r_headers (rs_request r) ''CONNECTION'' of None \<Rightarrow> False | Some v \<Rightarrow> to_lower v = ''close'')
         in Some (r\<lparr>rs_cookies := map valued_cookie (rs_cookies r), rs_echo_buffer := [],
                    rs_close := (if closes then True else rs_close r), rs_headers_flushed := True\<rparr>, ch)))"

definition FLUSH :: "http_response \<Rightarrow> channel \<Rightarrow> (http_response \<times> channel) option" where
  "FLUSH r ch = flush False r ch"

text \<open>A refusal. The time and the name of the system are parameters. It does not look whether the headers are gone.\<close>

definition error_text :: "string \<Rightarrow> string \<Rightarrow> string \<Rightarrow> string" where
  "error_text date os_name msg =
     (let body = msg @ [CHR 0x0A] in
      ''HTTP/1.1 '' @ msg @ crlf @ ''Date: '' @ date @ crlf @ ''Server: Zigurat/0.0 (ZiguratIP; '' @ os_name @ '')'' @ crlf @
      ''Connection: close'' @ crlf @ ''Content-Type: text/plain; charset=utf-8'' @ crlf @
      ''Content-Length: '' @ decimal (length body) @ crlf @ crlf @ body)"

definition flush_error :: "string \<Rightarrow> string \<Rightarrow> string \<Rightarrow> http_response \<Rightarrow> channel \<Rightarrow> (http_response \<times> channel) option" where
  "flush_error date os_name msg r ch =
     (if rs_request_id r \<noteq> ch_dispatch_id ch then None
      else Some (r\<lparr>rs_close := True, rs_headers_flushed := True\<rparr>,
        ch\<lparr>ch_written := ch_written ch @ error_text date os_name msg, ch_dispatch_id := ch_dispatch_id ch + 1\<rparr>))"

section \<open>The responses of a connection\<close>

text \<open>The threads of the pages on one connection. A response is numbered when its request is read; its page changes it as
  it likes, but not what only the class itself does. \<open>pp_trace\<close> records who wrote, whether it was the head, and what.\<close>

record pipes =
  pp_responses :: "http_response list"
  pp_channel :: channel
  pp_trace :: "(nat \<times> bool \<times> string) list"

definition new_pipes :: pipes where
  "new_pipes = \<lparr>pp_responses = [], pp_channel = \<lparr>ch_dispatch_id = 1, ch_written = []\<rparr>, pp_trace = []\<rparr>"

definition same_place :: "http_response \<Rightarrow> http_response \<Rightarrow> bool" where
  "same_place r r' \<longleftrightarrow> rs_request r' = rs_request r \<and> rs_request_id r' = rs_request_id r \<and> rs_headers_flushed r' = rs_headers_flushed r"

definition wrote :: "nat \<Rightarrow> http_response \<Rightarrow> http_response \<Rightarrow> channel \<Rightarrow> pipes \<Rightarrow> pipes" where
  "wrote i r r' ch s = s\<lparr>pp_responses := (pp_responses s)[i := r'], pp_channel := ch, pp_trace := pp_trace s @
     [(rs_request_id r, rs_headers_flushed r' \<and> ch_dispatch_id ch \<noteq> ch_dispatch_id (pp_channel s),
       drop (length (ch_written (pp_channel s))) (ch_written ch))]\<rparr>"

inductive pipe_step :: "pipes \<Rightarrow> pipes \<Rightarrow> bool" where
  accept: "pipe_step s (s\<lparr>pp_responses := pp_responses s @ [HTTPResponse_new m request (length (pp_responses s) + 1)]\<rparr>)"
| page: "i < length (pp_responses s) \<Longrightarrow> same_place (pp_responses s ! i) r \<Longrightarrow>
    pipe_step s (s\<lparr>pp_responses := (pp_responses s)[i := r]\<rparr>)"
| flushes: "i < length (pp_responses s) \<Longrightarrow> flush has_content (pp_responses s ! i) (pp_channel s) = Some (r, ch) \<Longrightarrow>
    pipe_step s (wrote i (pp_responses s ! i) r ch s)"
| errors: "i < length (pp_responses s) \<Longrightarrow> flush_error date os_name msg (pp_responses s ! i) (pp_channel s) = Some (r, ch) \<Longrightarrow>
    pipe_step s (wrote i (pp_responses s ! i) r ch s)"

inductive pipe_reachable :: "pipes \<Rightarrow> bool" where
  start: "pipe_reachable new_pipes"
| step: "pipe_reachable s \<Longrightarrow> pipe_step s s' \<Longrightarrow> pipe_reachable s'"

definition heads :: "(nat \<times> bool \<times> string) list \<Rightarrow> nat list" where
  "heads tr = map fst (filter (\<lambda>(_, head, _). head) tr)"

definition written_by :: "(nat \<times> bool \<times> string) list \<Rightarrow> string" where
  "written_by tr = concat (map (\<lambda>(_, _, t). t) tr)"

definition pipe_inv :: "pipes \<Rightarrow> bool" where
  "pipe_inv s \<longleftrightarrow>
     (\<forall>i < length (pp_responses s). rs_request_id (pp_responses s ! i) = i + 1 \<and>
        (rs_headers_flushed (pp_responses s ! i) \<longleftrightarrow> i + 1 < ch_dispatch_id (pp_channel s))) \<and>
     1 \<le> ch_dispatch_id (pp_channel s) \<and> ch_dispatch_id (pp_channel s) \<le> length (pp_responses s) + 1 \<and>
     heads (pp_trace s) = [1..<ch_dispatch_id (pp_channel s)] \<and> ch_written (pp_channel s) = written_by (pp_trace s)"

lemma trace_simps [simp]:
  "heads (tr @ [(i, b, t)]) = heads tr @ (if b then [i] else [])"
  "written_by (tr @ [(i, b, t)]) = written_by tr @ t"
  by (simp_all add: heads_def written_by_def)

text \<open>What both writers do: the head, in turn, or more of what has begun.\<close>

lemma flush_cases:
  assumes "flush has_content r ch = Some (r', ch')"
  obtains (more) t where "rs_headers_flushed r" "rs_headers_flushed r'" "ch' = ch\<lparr>ch_written := ch_written ch @ t\<rparr>"
      "rs_request_id r' = rs_request_id r"
  | (head) t where "\<not> rs_headers_flushed r" "rs_headers_flushed r'" "rs_request_id r = ch_dispatch_id ch"
      "ch' = ch\<lparr>ch_written := ch_written ch @ t, ch_dispatch_id := ch_dispatch_id ch + 1\<rparr>" "rs_request_id r' = rs_request_id r"
proof (cases "rs_headers_flushed r")
  case True
  then show ?thesis using assms more [of "if length (rs_echo_buffer r) > 0 then rs_echo_buffer r else []"]
    by (auto simp: flush_def split: if_splits)
next
  case False
  then show ?thesis using assms head [of "head_text has_content r @ rs_echo_buffer r"]
    by (auto simp: flush_def Let_def split: if_splits)
qed

lemma pipe_inv_more:
  assumes "pipe_inv s" and "i < length (pp_responses s)" and "rs_headers_flushed (pp_responses s ! i)" "rs_headers_flushed r'"
    and "ch' = (pp_channel s)\<lparr>ch_written := ch_written (pp_channel s) @ t\<rparr>" and "rs_request_id r' = rs_request_id (pp_responses s ! i)"
  shows "pipe_inv (wrote i (pp_responses s ! i) r' ch' s)"
  using assms by (auto simp: pipe_inv_def wrote_def nth_list_update)

lemma pipe_inv_head:
  assumes "pipe_inv s" and "i < length (pp_responses s)" and "rs_headers_flushed r'"
    and "rs_request_id (pp_responses s ! i) = ch_dispatch_id (pp_channel s)"
    and "ch' = (pp_channel s)\<lparr>ch_written := ch_written (pp_channel s) @ t, ch_dispatch_id := ch_dispatch_id (pp_channel s) + 1\<rparr>"
    and "rs_request_id r' = rs_request_id (pp_responses s ! i)"
  shows "pipe_inv (wrote i (pp_responses s ! i) r' ch' s)"
  using assms by (auto simp: pipe_inv_def wrote_def nth_list_update)

lemma pipe_inv_step: "pipe_step s s' \<Longrightarrow> pipe_inv s \<Longrightarrow> pipe_inv s'"
proof (induction rule: pipe_step.induct)
  case (accept s m request)
  then show ?case by (auto simp: pipe_inv_def nth_append HTTPResponse_new_def)
next
  case (page i s r)
  then show ?case by (auto simp: pipe_inv_def same_place_def nth_list_update)
next
  case (flushes i s has_content r ch)
  show ?case
    using flushes(2)
    by (cases rule: flush_cases) (use flushes in \<open>auto intro: pipe_inv_more pipe_inv_head\<close>)
next
  case (errors i s date os_name msg r ch)
  then show ?case by (intro pipe_inv_head) (auto simp: flush_error_def split: if_splits)
qed

lemma pipe_inv_reachable: "pipe_reachable s \<Longrightarrow> pipe_inv s"
proof (induction rule: pipe_reachable.induct)
  case start
  then show ?case by (simp add: pipe_inv_def new_pipes_def heads_def written_by_def)
qed (rule pipe_inv_step)

text \<open>What has begun stays so, and the turn never comes back.\<close>

lemma begun_step: "pipe_step s s' \<Longrightarrow> i < length (pp_responses s) \<and> rs_headers_flushed (pp_responses s ! i) \<Longrightarrow>
    i < length (pp_responses s') \<and> rs_headers_flushed (pp_responses s' ! i)"
proof (induction rule: pipe_step.induct)
  case (flushes j s has_content r ch)
  show ?case
    using flushes(2) by (cases rule: flush_cases) (use flushes in \<open>auto simp: wrote_def nth_list_update\<close>)
qed (auto simp: wrote_def nth_append nth_list_update same_place_def flush_error_def split: if_splits)

lemma begun_steps:
  assumes "pipe_step\<^sup>*\<^sup>* s s'" and "i < length (pp_responses s)" and "rs_headers_flushed (pp_responses s ! i)"
  shows "i < length (pp_responses s') \<and> rs_headers_flushed (pp_responses s' ! i)"
  using assms by (induction rule: rtranclp_induct) (auto dest: begun_step)

lemma reachable_steps: "pipe_step\<^sup>*\<^sup>* s s' \<Longrightarrow> pipe_reachable s \<Longrightarrow> pipe_reachable s'"
  by (induction rule: rtranclp_induct) (auto intro: pipe_reachable.step)

section \<open>What a client reads\<close>

text \<open>The lines of a head up to the empty one, and what follows.\<close>

fun read_head :: "string \<Rightarrow> string \<Rightarrow> string list \<times> string" where
  "read_head line [] = ([], [])"
| "read_head line (c # cs) =
     (if c = CHR 0x0A then
        (let l = drop_CR line in if l = [] then ([], cs) else (let (ls, r) = read_head [] cs in (l # ls, r)))
      else read_head (line @ [c]) cs)"

definition one_line :: "string \<Rightarrow> bool" where "one_line l \<longleftrightarrow> CHR 0x0A \<notin> set l"

definition clean_response :: "http_response \<Rightarrow> bool" where
  "clean_response r \<longleftrightarrow>
     one_line (rs_protocol r) \<and> one_line (rs_reason_phrase r) \<and> (\<forall>(k, v) \<in> set (rs_headers r). one_line k \<and> one_line v) \<and>
     (\<forall>(c, attrs) \<in> set (rs_cookies r). one_line c \<and> (\<forall>(a, v) \<in> set attrs. one_line a \<and> one_line v))"

definition status_line :: "http_response \<Rightarrow> string" where
  "status_line r = rs_protocol r @ '' '' @ int_text (rs_status_code r) @ '' '' @ rs_reason_phrase r"

definition length_line :: "http_response \<Rightarrow> string" where
  "length_line r = ''Content-Length: '' @ decimal (length (rs_echo_buffer r))"

lemma one_line_simps [simp]:
  "one_line []" "one_line (c # s) \<longleftrightarrow> c \<noteq> CHR 0x0A \<and> one_line s" "one_line (s @ t) \<longleftrightarrow> one_line s \<and> one_line t"
  by (auto simp: one_line_def)

lemma read_head_line: "one_line l \<Longrightarrow> line @ l \<noteq> [] \<Longrightarrow>
    read_head line (l @ crlf @ t) = ((line @ l) # fst (read_head [] t), snd (read_head [] t))"
proof (induction l arbitrary: line)
  case Nil
  then show ?case by (simp add: crlf_def drop_CR_def split: prod.splits)
next
  case (Cons c l)
  then show ?case using Cons.IH [of "line @ [c]"] by simp
qed

lemma read_head_end: "read_head [] (crlf @ t) = ([], t)"
  by (simp add: crlf_def drop_CR_def)

lemma read_head_lines:
  "\<forall>l \<in> set ls. one_line l \<and> l \<noteq> [] \<Longrightarrow>
    read_head [] (concat (map (\<lambda>l. l @ crlf) ls) @ t) = (ls @ fst (read_head [] t), snd (read_head [] t))"
  by (induction ls) (simp_all add: read_head_line)

lemma decimal_one_line: "one_line (decimal n)"
  by (induction n rule: decimal.induct) (auto simp: decimal.simps one_line_def digits_def nth_Cons' split: if_splits)

lemma case_chars_line: "upper_char c = CHR 0x0A \<longleftrightarrow> c = CHR 0x0A" "lower_char c = CHR 0x0A \<longleftrightarrow> c = CHR 0x0A"
proof -
  have code: "(of_char (upper_char c) :: nat) = (if 97 \<le> (of_char c :: nat) \<and> of_char c \<le> (122 :: nat) then of_char c - 32 else of_char c)"
    "(of_char (lower_char c) :: nat) = (if 65 \<le> (of_char c :: nat) \<and> of_char c \<le> (90 :: nat) then of_char c + 32 else of_char c)"
    by (auto simp: upper_char_def lower_char_def)
  have "(d = CHR 0x0A) = ((of_char d :: nat) = 10)" for d
  proof -
    have "char_of (10 :: nat) = CHR 0x0A" by (simp add: char_of_eq_iff)
    then show ?thesis using char_of_eq_iff [of "10 :: nat" d] by auto
  qed
  then show "upper_char c = CHR 0x0A \<longleftrightarrow> c = CHR 0x0A" "lower_char c = CHR 0x0A \<longleftrightarrow> c = CHR 0x0A"
    using code by (auto split: if_splits)
qed

lemma header_case_line: "one_line k \<Longrightarrow> one_line (header_case k)"
proof -
  have "\<exists>d \<in> set k. c = upper_char d \<or> c = lower_char d" if "c \<in> set (header_case k)" for c
    using that by (auto simp: header_case_def)
  then show "one_line k \<Longrightarrow> one_line (header_case k)" using case_chars_line by (metis one_line_def)
qed

lemma int_text_line: "one_line (int_text i)"
  by (simp add: int_text_def decimal_one_line)

text \<open>The head, line by line.\<close>

definition head_lines :: "http_response \<Rightarrow> string list" where
  "head_lines r = [status_line r] @ map header_field (rs_headers r) @ [length_line r] @
     map cookie_line (rs_cookies r)"

lemma head_text_lines: "head_text True r = concat (map (\<lambda>l. l @ crlf) (head_lines r)) @ crlf"
  by (simp add: head_text_def head_lines_def status_line_def length_line_def comp_def)

lemma one_line_butlast: "one_line s \<Longrightarrow> one_line (butlast s)"
  by (auto simp: one_line_def dest: in_set_butlastD)

lemma cookie_line_ok:
  assumes "one_line c" and "\<forall>(a, v) \<in> set attrs. one_line a \<and> one_line v"
  shows "one_line (cookie_line (c, attrs)) \<and> cookie_line (c, attrs) \<noteq> []"
proof -
  obtain v attrs' where m: "map_at c [] attrs = (v, attrs')" by force
  have "(c, v) \<in> set attrs \<or> v = []" "set attrs' \<subseteq> insert (c, []) (set attrs)"
    using m set_map_set [of c "[]" attrs] by (auto simp: map_at_def split: option.splits dest: map_of_SomeD)
  then have "one_line v" "\<forall>(a, w) \<in> set attrs'. one_line a \<and> one_line w" using assms by auto
  moreover from this(2) have "one_line (concat (map (attribute_text c) attrs'))"
    by (induction attrs') (auto simp: attribute_text_def)
  ultimately show ?thesis using assms(1) by (simp add: cookie_line_def m one_line_butlast butlast_append)
qed

lemma head_lines_ok:
  assumes "clean_response r"
  shows "\<forall>l \<in> set (head_lines r). one_line l \<and> l \<noteq> []"
proof -
  have "one_line (header_field p) \<and> header_field p \<noteq> []" if "p \<in> set (rs_headers r)" for p
    using assms that by (auto simp: clean_response_def header_field_def header_case_line)
  moreover have "one_line (cookie_line p) \<and> cookie_line p \<noteq> []" if "p \<in> set (rs_cookies r)" for p
    using assms that cookie_line_ok [of "fst p" "snd p"] by (auto simp: clean_response_def)
  ultimately show ?thesis
    using assms by (auto simp: head_lines_def clean_response_def status_line_def length_line_def int_text_line decimal_one_line)
qed


text \<open>C38. However the pages of a connection interleave, their responses begin in the order of the requests, each once, and
  what is on the wire is what they wrote, in the order they wrote it; and the response whose turn it is can be written.\<close>

theorem http_responses_ordered:
  assumes "pipe_reachable s"
  shows "heads (pp_trace s) = [1..<ch_dispatch_id (pp_channel s)] \<and> ch_written (pp_channel s) = written_by (pp_trace s) \<and>
    (ch_dispatch_id (pp_channel s) \<le> length (pp_responses s) \<longrightarrow>
      flush has_content (pp_responses s ! (ch_dispatch_id (pp_channel s) - 1)) (pp_channel s) \<noteq> None)"
proof -
  have inv: "pipe_inv s" by (rule pipe_inv_reachable [OF assms])
  let ?d = "ch_dispatch_id (pp_channel s)"
  have "flush has_content (pp_responses s ! (?d - 1)) (pp_channel s) \<noteq> None" if "?d \<le> length (pp_responses s)"
  proof -
    have "?d - 1 < length (pp_responses s)" "?d - 1 + 1 = ?d" using inv that by (auto simp: pipe_inv_def)
    then have "rs_request_id (pp_responses s ! (?d - 1)) = ?d" using inv by (simp add: pipe_inv_def)
    then show ?thesis by (simp add: flush_def Let_def)
  qed
  then show ?thesis using inv by (simp add: pipe_inv_def)
qed


section \<open>Examples\<close>

definition sample_request :: http_request where
  "sample_request = \<lparr>r_method = ''GET'', r_uri = ''/'', r_protocol = ''HTTP/1.1'', r_headers = Map.empty, r_host = ''h'', r_port = [],
     r_content = None, r_content_length = 0, r_path = ''/'', r_fragment = [], r_content_type = [], r_cookies = Map.empty,
     r_query = (Map.empty, Map.empty), r_post = (Map.empty, Map.empty)\<rparr>"

definition sample_response :: http_response where
  "sample_response = set_header ''Connection'' ''close'' (set_echo_buffer ''hello'' (HTTPResponse_new False sample_request 1))"


text \<open>Two requests: the first page flushes, the second answers, and the first goes on.\<close>

definition late_page :: pipes where
  "late_page =
     (let r1 = HTTPResponse_new False sample_request 1; r2 = HTTPResponse_new False sample_request 2;
          s = new_pipes\<lparr>pp_responses := [r1, r2]\<rparr>;
          (r1, ch) = the (FLUSH r1 (pp_channel s)); s = wrote 0 (HTTPResponse_new False sample_request 1) r1 ch s;
          (r2', ch) = the (flush True r2 ch); s = wrote 1 r2 r2' ch s;
          r1 = set_echo_buffer ''more'' r1; s = s\<lparr>pp_responses := (pp_responses s)[0 := r1]\<rparr>;
          (r1', ch) = the (flush True r1 ch)
      in wrote 0 r1 r1' ch s)"

lemma late_page_steps:
  "pipe_reachable late_page \<and> map fst (pp_trace late_page) = [1, 2, 1] \<and> length (pp_responses late_page) = 2 \<and>
   rs_headers_flushed (pp_responses late_page ! 0)"
proof -
  let ?r1 = "HTTPResponse_new False sample_request 1" and ?r2 = "HTTPResponse_new False sample_request 2"
  let ?s2 = "new_pipes\<lparr>pp_responses := [?r1, ?r2]\<rparr>"
  obtain r1 ch1 where f1: "FLUSH ?r1 (pp_channel ?s2) = Some (r1, ch1)" "rs_headers_flushed r1" "ch_dispatch_id ch1 = 2" "rs_request_id r1 = 1"
    by (simp add: FLUSH_def flush_def new_pipes_def HTTPResponse_new_def Let_def)
  let ?s3 = "wrote 0 ?r1 r1 ch1 ?s2"
  obtain r2 ch2 where f2: "flush True ?r2 ch1 = Some (r2, ch2)" "rs_headers_flushed r2" "rs_request_id r2 = 2"
    using f1(3) by (simp add: flush_def HTTPResponse_new_def Let_def)
  let ?s4 = "wrote 1 ?r2 r2 ch2 ?s3"
  let ?r1b = "set_echo_buffer ''more'' r1"
  let ?s5 = "?s4\<lparr>pp_responses := (pp_responses ?s4)[0 := ?r1b]\<rparr>"
  obtain r1c ch3 where f3: "flush True ?r1b ch2 = Some (r1c, ch3)" "rs_headers_flushed r1c"
    using f1(2) by (simp add: flush_def set_echo_buffer_def)
  have 1: "pipe_reachable (new_pipes\<lparr>pp_responses := [?r1]\<rparr>)"
    using pipe_reachable.step [OF pipe_reachable.start pipe_step.accept [of new_pipes False sample_request]] by (simp add: new_pipes_def)
  have 2: "pipe_reachable ?s2"
    using pipe_reachable.step [OF 1 pipe_step.accept [of _ False sample_request]] by (simp add: numeral_2_eq_2)
  have 3: "pipe_reachable ?s3"
    using pipe_reachable.step [OF 2 pipe_step.flushes [of 0 ?s2 False r1 ch1]] f1(1) by (simp add: FLUSH_def)
  have 4: "pipe_reachable ?s4"
    using pipe_reachable.step [OF 3 pipe_step.flushes [of 1 ?s3 True r2 ch2]] f2(1) by (simp add: wrote_def)
  have 5: "pipe_reachable ?s5"
    using pipe_reachable.step [OF 4 pipe_step.page [of 0 ?s4 ?r1b]] by (simp add: wrote_def same_place_def set_echo_buffer_def)
  have 6: "pipe_reachable (wrote 0 ?r1b r1c ch3 ?s5)"
    using pipe_reachable.step [OF 5 pipe_step.flushes [of 0 ?s5 True r1c ch3]] f3(1) by (simp add: wrote_def)
  have lp: "late_page = wrote 0 ?r1b r1c ch3 ?s5" using f1(1) f2(1) f3(1) by (simp add: late_page_def Let_def)
  have "map fst (pp_trace (wrote 0 ?r1b r1c ch3 ?s5)) = [1, 2, 1]" "pp_responses (wrote 0 ?r1b r1c ch3 ?s5) = [r1c, r2]"
    using f1(4) by (simp_all add: wrote_def set_echo_buffer_def HTTPResponse_new_def new_pipes_def)
  then show ?thesis using 6 f3(2) unfolding lp by simp
qed

lemma http_responses_ordered_witness:
  "pipe_reachable late_page \<and> heads (pp_trace late_page) = [1..<ch_dispatch_id (pp_channel late_page)] \<and>
    map fst (pp_trace late_page) = [1, 2, 1]"
  using http_responses_ordered [of late_page True] late_page_steps by blast


end
