(* ===== verification/Library_Pools.thy ===== *)
theory Library_Pools
  imports Ordered_Map Connector
begin

text \<open>
  \<open>Library/modelpool.cpp\<close> and \<open>Library/librarypool.cpp\<close>: the models a process holds and the loaded objects it
  caches. What a loader gives is a parameter, null being \<open>None\<close>; of the dynamic linker the model keeps how often each
  object is open.
\<close>

section \<open>Models\<close>

record 'm model_pool =
  mp_models :: "(string \<times> 'm option) list"
  mp_ceiling :: nat

definition new_model_pool :: "'m model_pool" where
  "new_model_pool = \<lparr>mp_models = [], mp_ceiling = 32\<rparr>"

definition pool_is_full :: "string \<Rightarrow> string \<Rightarrow> 'm model_pool \<Rightarrow> exn" where
  "pool_is_full name what p =
     ZiguratException 7811 (''the model pool is full at '' @ text_of (std_to_string (int (mp_ceiling p))) @ ''; '' @ [CHR 39] @ name @ [CHR 39] @ what)"

text \<open>A loader may be missing, throw, or answer null.\<close>

definition ModelPool_held :: "string \<Rightarrow> 'm option result option \<Rightarrow> 'm model_pool \<Rightarrow> 'm option result \<times> 'm model_pool" where
  "ModelPool_held name loader p =
     (case map_of (mp_models p) name of
        Some m \<Rightarrow> (Inr m, p)
      | None \<Rightarrow>
          (case loader of
             None \<Rightarrow> (Inl (ZiguratException 7810 (''no loader given for model '' @ [CHR 39] @ name @ [CHR 39])), p)
           | Some loaded \<Rightarrow>
               if length (mp_models p) \<ge> mp_ceiling p then (Inl (pool_is_full name '' was not loaded'' p), p)
               else
                 (case loaded of
                    Inl e \<Rightarrow> (Inl e, p)
                  | Inr None \<Rightarrow>
                      (Inl (ZiguratException 7812 (''the loader for model '' @ [CHR 39] @ name @ [CHR 39] @ '' answered nothing'')), p)
                  | Inr (Some m) \<Rightarrow> (Inr (Some m), p\<lparr>mp_models := map_set name (Some m) (mp_models p)\<rparr>))))"

definition ModelPool_peek :: "string \<Rightarrow> 'm model_pool \<Rightarrow> 'm option" where
  "ModelPool_peek name p = (case map_of (mp_models p) name of Some m \<Rightarrow> m | None \<Rightarrow> None)"

definition ModelPool_keep :: "string \<Rightarrow> 'm option \<Rightarrow> 'm model_pool \<Rightarrow> 'm model_pool result" where
  "ModelPool_keep name model p =
     (if map_of (mp_models p) name = None \<and> length (mp_models p) \<ge> mp_ceiling p then Inl (pool_is_full name '' was not kept'' p)
      else Inr (p\<lparr>mp_models := map_set name model (mp_models p)\<rparr>))"

definition ModelPool_release :: "string \<Rightarrow> 'm model_pool \<Rightarrow> bool \<times> 'm model_pool" where
  "ModelPool_release name p = (map_of (mp_models p) name \<noteq> None, p\<lparr>mp_models := map_erase name (mp_models p)\<rparr>)"

definition ModelPool_clear :: "'m model_pool \<Rightarrow> 'm model_pool" where "ModelPool_clear p = p\<lparr>mp_models := []\<rparr>"

definition ModelPool_count :: "'m model_pool \<Rightarrow> nat" where "ModelPool_count p = length (mp_models p)"

definition ModelPool_limit :: "'m model_pool \<Rightarrow> nat" where "ModelPool_limit p = mp_ceiling p"

definition ModelPool_set_limit :: "nat \<Rightarrow> 'm model_pool \<Rightarrow> 'm model_pool" where "ModelPool_set_limit n p = p\<lparr>mp_ceiling := n\<rparr>"

definition ModelPool_names :: "'m model_pool \<Rightarrow> string list" where "ModelPool_names p = map fst (mp_models p)"

section \<open>Loaded objects\<close>

datatype cache_mode = NONE | GLOBAL | LOCAL

type_synonym handle = nat
type_synonym symbol = nat

record library_pool =
  lp_cache_mode :: cache_mode
  lp_global_handles :: "(string \<times> handle) list"
  lp_global_symbols :: "(handle \<times> string \<times> symbol) list"
  lp_local_handles :: "nat \<Rightarrow> (string \<times> handle) list"
  lp_local_symbols :: "nat \<Rightarrow> (handle \<times> string \<times> symbol) list"
  lp_open :: "handle \<Rightarrow> nat"

definition new_library_pool :: library_pool where
  "new_library_pool = \<lparr>lp_cache_mode = NONE, lp_global_handles = [], lp_global_symbols = [], lp_local_handles = (\<lambda>_. []),
     lp_local_symbols = (\<lambda>_. []), lp_open = (\<lambda>_. 0)\<rparr>"

definition set_cache_mode :: "cache_mode \<Rightarrow> library_pool \<Rightarrow> library_pool" where
  "set_cache_mode mode p = p\<lparr>lp_cache_mode := mode\<rparr>"

text \<open>\<open>dlopen\<close> gives the same handle for the same object and counts; \<open>None\<close> is the \<open>std::runtime_error\<close>.\<close>

definition LibraryLoader_handle :: "(string \<Rightarrow> handle option) \<Rightarrow> string \<Rightarrow> library_pool \<Rightarrow> handle option \<times> library_pool" where
  "LibraryLoader_handle dlopen path p =
     (case dlopen path of None \<Rightarrow> (None, p) | Some h \<Rightarrow> (Some h, p\<lparr>lp_open := (lp_open p)(h := lp_open p h + 1)\<rparr>))"

definition LibraryLoader_close :: "handle \<Rightarrow> library_pool \<Rightarrow> library_pool" where
  "LibraryLoader_close h p = p\<lparr>lp_open := (lp_open p)(h := lp_open p h - 1)\<rparr>"

definition LibraryPool_handle :: "(string \<Rightarrow> handle option) \<Rightarrow> nat \<Rightarrow> string \<Rightarrow> library_pool \<Rightarrow> handle option \<times> library_pool" where
  "LibraryPool_handle dlopen t path p =
     (case lp_cache_mode p of
        GLOBAL \<Rightarrow>
          (case map_of (lp_global_handles p) path of
             Some h \<Rightarrow> (Some h, p)
           | None \<Rightarrow>
               (case LibraryLoader_handle dlopen path p of
                  (None, p) \<Rightarrow> (None, p)
                | (Some h, p) \<Rightarrow> (Some h, p\<lparr>lp_global_handles := map_set path h (lp_global_handles p)\<rparr>)))
      | LOCAL \<Rightarrow>
          (case map_of (lp_local_handles p t) path of
             Some h \<Rightarrow> (Some h, p)
           | None \<Rightarrow>
               (case LibraryLoader_handle dlopen path p of
                  (None, p) \<Rightarrow> (None, p)
                | (Some h, p) \<Rightarrow> (Some h, p\<lparr>lp_local_handles := (lp_local_handles p)(t := map_set path h (lp_local_handles p t))\<rparr>)))
      | NONE \<Rightarrow> LibraryLoader_handle dlopen path p)"

fun find_symbol :: "handle \<Rightarrow> string \<Rightarrow> (handle \<times> string \<times> symbol) list \<Rightarrow> symbol option" where
  "find_symbol h sym_name [] = None"
| "find_symbol h sym_name ((h', n, s) # es) = (if h' = h \<and> n = sym_name then Some s else find_symbol h sym_name es)"

definition LibraryPool_symbol ::
  "(handle \<Rightarrow> string \<Rightarrow> symbol option) \<Rightarrow> nat \<Rightarrow> handle \<Rightarrow> string \<Rightarrow> library_pool \<Rightarrow> symbol option \<times> library_pool" where
  "LibraryPool_symbol dlsym t h sym_name p =
     (case lp_cache_mode p of
        GLOBAL \<Rightarrow>
          (case find_symbol h sym_name (lp_global_symbols p) of
             Some s \<Rightarrow> (Some s, p)
           | None \<Rightarrow>
               (case dlsym h sym_name of
                  None \<Rightarrow> (None, p)
                | Some s \<Rightarrow> (Some s, p\<lparr>lp_global_symbols := lp_global_symbols p @ [(h, sym_name, s)]\<rparr>)))
      | LOCAL \<Rightarrow>
          (case find_symbol h sym_name (lp_local_symbols p t) of
             Some s \<Rightarrow> (Some s, p)
           | None \<Rightarrow>
               (case dlsym h sym_name of
                  None \<Rightarrow> (None, p)
                | Some s \<Rightarrow> (Some s, p\<lparr>lp_local_symbols := (lp_local_symbols p)(t := lp_local_symbols p t @ [(h, sym_name, s)])\<rparr>)))
      | NONE \<Rightarrow> (dlsym h sym_name, p))"

definition LibraryPool_close :: "handle \<Rightarrow> library_pool \<Rightarrow> library_pool" where
  "LibraryPool_close h p = LibraryLoader_close h p"

text \<open>The lines \<open>ls\<close> gives, up to an empty one; what cannot be loaded ends the loading.\<close>

fun load_names :: "(string \<Rightarrow> handle option) \<Rightarrow> nat \<Rightarrow> string list \<Rightarrow> library_pool \<Rightarrow> bool \<times> library_pool" where
  "load_names dlopen t [] p = (True, p)"
| "load_names dlopen t (lib_name # names) p =
     (if lib_name = [] then (True, p)
      else case LibraryPool_handle dlopen t lib_name p of (None, p) \<Rightarrow> (False, p) | (Some _, p) \<Rightarrow> load_names dlopen t names p)"

definition LibraryPool_load_path ::
  "(string \<Rightarrow> string list) \<Rightarrow> (string \<Rightarrow> handle option) \<Rightarrow> nat \<Rightarrow> string \<Rightarrow> library_pool \<Rightarrow> bool \<times> library_pool" where
  "LibraryPool_load_path ls dlopen t path p =
     (if lp_cache_mode p = GLOBAL then load_names dlopen t (ls path) p else (True, p))"

definition HandlesMap_destroy :: "(string \<times> handle) list \<Rightarrow> library_pool \<Rightarrow> library_pool" where
  "HandlesMap_destroy hs p = fold (\<lambda>(_, h). LibraryLoader_close h) hs p"

section \<open>What the pools promise\<close>

text \<open>A model is loaded once: whoever asks next gets the one that is held, whatever loader he brings.\<close>

theorem model_loaded_once:
  assumes "ModelPool_held name loader p = (Inr m, p')"
  shows "ModelPool_held name loader' p' = (Inr m, p') \<and> ModelPool_peek name p' = m"
  using assms by (auto simp: ModelPool_held_def ModelPool_peek_def split: option.splits sum.splits if_splits)

text \<open>Nothing is loaded at the ceiling, which may have been lowered since; a loader that fails leaves nothing behind.\<close>

theorem model_pool_full:
  assumes "ModelPool_held name loader p = (r, p')"
  shows "(isl r \<longrightarrow> p' = p) \<and> ModelPool_count p' \<le> max (ModelPool_count p) (ModelPool_limit p)"
  using assms
  by (auto simp: ModelPool_held_def ModelPool_count_def ModelPool_limit_def max_def intro!: le_trans [OF length_map_set]
      split: option.splits sum.splits if_splits)

text \<open>The pool as the server uses it: only without a cache are objects closed.\<close>

inductive library_step :: "(string \<Rightarrow> handle option) \<Rightarrow> (handle \<Rightarrow> string \<Rightarrow> symbol option) \<Rightarrow> library_pool \<Rightarrow> library_pool \<Rightarrow> bool"
  for dlopen dlsym where
  opens: "LibraryPool_handle dlopen t path p = (r, p') \<Longrightarrow> library_step dlopen dlsym p p'"
| looks_up: "LibraryPool_symbol dlsym t h sym_name p = (s, p') \<Longrightarrow> library_step dlopen dlsym p p'"
| closes: "lp_cache_mode p = NONE \<Longrightarrow> library_step dlopen dlsym p (LibraryPool_close h p)"

inductive library_reachable :: "(string \<Rightarrow> handle option) \<Rightarrow> (handle \<Rightarrow> string \<Rightarrow> symbol option) \<Rightarrow> library_pool \<Rightarrow> bool"
  for dlopen dlsym where
  start: "library_reachable dlopen dlsym (set_cache_mode mode new_library_pool)"
| step: "library_reachable dlopen dlsym p \<Longrightarrow> library_step dlopen dlsym p p' \<Longrightarrow> library_reachable dlopen dlsym p'"

definition cached :: "library_pool \<Rightarrow> (string \<times> handle) set" where
  "cached p = set (lp_global_handles p) \<union> (\<Union>t. set (lp_local_handles p t))"

definition library_inv :: "(string \<Rightarrow> handle option) \<Rightarrow> library_pool \<Rightarrow> bool" where
  "library_inv dlopen p \<longleftrightarrow> (lp_cache_mode p = NONE \<longrightarrow> cached p = {}) \<and>
     (\<forall>(path, h) \<in> cached p. dlopen path = Some h \<and> 0 < lp_open p h)"

lemma library_inv_keeps:
  assumes "library_inv dlopen p" and "cached p' \<subseteq> insert (path, h) (cached p)" and "dlopen path = Some h"
    and "lp_open p' = (lp_open p)(h := lp_open p h + 1)" and "lp_cache_mode p' = NONE \<longrightarrow> cached p' = {}"
  shows "library_inv dlopen p'"
  using assms by (auto simp: library_inv_def)

lemma library_inv_step: "library_step dlopen dlsym p p' \<Longrightarrow> library_inv dlopen p \<Longrightarrow> library_inv dlopen p'"
proof (induction rule: library_step.induct)
  case (opens t path p r p')
  have g: "cached (p\<lparr>lp_open := k, lp_global_handles := map_set path h (lp_global_handles p)\<rparr>) \<subseteq> insert (path, h) (cached p)" for h k
    using set_map_set [of path h "lp_global_handles p"] by (auto simp: cached_def)
  have l: "cached (p\<lparr>lp_open := k, lp_local_handles := (lp_local_handles p)(t := map_set path h (lp_local_handles p t))\<rparr>)
      \<subseteq> insert (path, h) (cached p)" for h k
    using set_map_set [of path h "lp_local_handles p t"] by (auto simp: cached_def split: if_splits)
  have n: "cached (p\<lparr>lp_open := k\<rparr>) = cached p" for k by (simp add: cached_def)
  have "p' = p \<or> (\<exists>h. dlopen path = Some h \<and> lp_open p' = (lp_open p)(h := lp_open p h + 1) \<and>
      cached p' \<subseteq> insert (path, h) (cached p) \<and> lp_cache_mode p' = lp_cache_mode p \<and> (lp_cache_mode p = NONE \<longrightarrow> cached p' = cached p))"
  proof (cases "lp_cache_mode p")
    case NONE
    then have p': "(r, p') = LibraryLoader_handle dlopen path p" using opens(1) by (simp add: LibraryPool_handle_def)
    show ?thesis
    proof (cases "dlopen path")
      case (Some h)
      then show ?thesis using p' n [of "(lp_open p)(h := lp_open p h + 1)"]
        by (intro disjI2 exI [of _ h]) (simp add: LibraryLoader_handle_def subset_insertI)
    qed (use p' in \<open>simp add: LibraryLoader_handle_def\<close>)
  next
    case GLOBAL
    note defs = LibraryPool_handle_def LibraryLoader_handle_def GLOBAL
    show ?thesis
    proof (cases "map_of (lp_global_handles p) path = None \<and> dlopen path \<noteq> None")
      case True
      then obtain h where h: "dlopen path = Some h" by blast
      show ?thesis by (intro disjI2 exI [of _ h]) (use opens(1) True h g [of h "(lp_open p)(h := lp_open p h + 1)"] in \<open>auto simp: defs\<close>)
    next
      case False
      then show ?thesis using opens(1) by (auto simp: defs split: option.splits)
    qed
  next
    case LOCAL
    note defs = LibraryPool_handle_def LibraryLoader_handle_def LOCAL
    show ?thesis
    proof (cases "map_of (lp_local_handles p t) path = None \<and> dlopen path \<noteq> None")
      case True
      then obtain h where h: "dlopen path = Some h" by blast
      show ?thesis by (intro disjI2 exI [of _ h]) (use opens(1) True h l [of h "(lp_open p)(h := lp_open p h + 1)"] in \<open>auto simp: defs\<close>)
    next
      case False
      then show ?thesis using opens(1) by (auto simp: defs split: option.splits)
    qed
  qed
  then show ?case
  proof (elim disjE exE conjE)
    fix h assume h: "dlopen path = Some h" "lp_open p' = (lp_open p)(h := lp_open p h + 1)" "cached p' \<subseteq> insert (path, h) (cached p)"
      and "lp_cache_mode p' = lp_cache_mode p" "lp_cache_mode p = NONE \<longrightarrow> cached p' = cached p"
    then have "lp_cache_mode p' = NONE \<longrightarrow> cached p' = {}" using opens(2) by (simp add: library_inv_def)
    with h show ?thesis by (intro library_inv_keeps [OF opens(2) h(3,1,2)])
  qed (use opens(2) in simp)
next
  case (looks_up t h sym_name p s p')
  have "lp_cache_mode p' = lp_cache_mode p \<and> lp_open p' = lp_open p \<and> cached p' = cached p"
    using looks_up(1) by (auto simp: LibraryPool_symbol_def cached_def split: cache_mode.splits option.splits)
  then show ?case using looks_up(2) by (auto simp: library_inv_def)
next
  case (closes p h)
  then show ?case by (simp add: library_inv_def LibraryPool_close_def LibraryLoader_close_def cached_def)
qed

lemma library_inv_reachable: "library_reachable dlopen dlsym p \<Longrightarrow> library_inv dlopen p"
proof (induction rule: library_reachable.induct)
  case (start mode)
  then show ?case by (simp add: library_inv_def cached_def set_cache_mode_def new_library_pool_def)
qed (rule library_inv_step)

text \<open>Every handle a cache holds is that of its object, which is open, and is what the next call gives.\<close>

theorem library_cache_open:
  assumes "library_reachable dlopen dlsym p" and "(path, h) \<in> cached p"
  shows "dlopen path = Some h \<and> 0 < lp_open p h"
  using library_inv_reachable [OF assms(1)] assms(2) by (auto simp: library_inv_def)

end
