(* ===== verification/Spec2Isabelle.thy ===== *)
theory Spec2Isabelle
  imports CTE BigInt_Octets DER Byte_Order AES_Modes Utility Permissions Thread_Pool HTTP_Server Session Tokenizer RSA_Keys RPC_Server RPC_Pool Configuration HTTP_Response Library_Pools
begin

text \<open>
  Verification of the ZiguratIP core.
\<close>

end
